(* ===== verification/Rdq_Prelude.thy ===== *)
theory Rdq_Prelude
  imports Main "HOL-Library.AList" "HOL-Library.Char_ord" "HOL-Library.List_Lexorder"
    "HOL-Library.Product_Lexorder" "HOL-Library.Word" "HOL-Library.Sublist" "HOL-Library.Multiset"
begin

text \<open>
  Shared vocabulary of the development: the model's basic types, the collections of
  rewrite rules the component theories feed, and the generic facts on association
  lists, sorting and options they all use.

  Conventions of the model. A Go string and a byte slice are a HOL \<open>string\<close>: a list of
  8-bit characters, compared bytewise. A \<open>time.Time\<close> is the integer number of
  nanoseconds since the Unix epoch (every time the code handles is in UTC), a
  \<open>time.Duration\<close> an integer number of nanoseconds. A nil-able pointer is an
  \<open>option\<close>. A Go map is an association list with distinct keys, in some iteration order.
  A counter whose wrap-around matters is a \<open>64 word\<close>.
\<close>

section \<open>Types\<close>

type_synonym bytes = string
type_synonym time = int
type_synonym duration = int
type_synonym 'v gomap = "(string \<times> 'v) list"

section \<open>Collections of facts\<close>

named_theorems const_simps "distinctness of the string constants of the wire model"
named_theorems lookup_simps "what a lookup by id returns after each store operation"
named_theorems wf_intros "preservation of the store's well-formedness"

section \<open>Time\<close>

text \<open>The zero \<open>time.Time\<close> is midnight, January 1 of year 1, in nanoseconds.\<close>

definition time_zero :: time where
  "time_zero = - 62135596800 * 1000000000"

abbreviation max_int64 :: int where "max_int64 \<equiv> 9223372036854775807"
abbreviation min_int64 :: int where "min_int64 \<equiv> - 9223372036854775808"

text \<open>\<open>Time.Sub\<close> saturates at the range of an int64 duration.\<close>

definition time_sub :: "time \<Rightarrow> time \<Rightarrow> duration" where
  "time_sub a b = max min_int64 (min max_int64 (a - b))"

lemma time_sub_nonpos [simp]: "time_sub a b \<le> 0 \<longleftrightarrow> a \<le> b"
  by (auto simp: time_sub_def)

lemma time_sub_range: "min_int64 \<le> time_sub a b \<and> time_sub a b \<le> max_int64"
  by (auto simp: time_sub_def)

text \<open>Arithmetic on durations wraps around at 64 bits.\<close>

definition wrap64 :: "int \<Rightarrow> int" where
  "wrap64 n = (n + 2 ^ 63) mod 2 ^ 64 - 2 ^ 63"

section \<open>Options\<close>

text \<open>The value behind a pointer, or a fallback when it is nil.\<close>

definition or_else :: "'a option \<Rightarrow> 'a \<Rightarrow> 'a" where
  "or_else opt d = (case opt of None \<Rightarrow> d | Some v \<Rightarrow> v)"

lemma or_else_simps [simp]: "or_else None d = d" "or_else (Some v) d = v"
  by (simp_all add: or_else_def)

section \<open>Association lists\<close>

lemma map_of_AList_update [simp]:
  "map_of (AList.update k v al) k' = (if k' = k then Some v else map_of al k')"
  by (simp add: update_conv')

lemma map_of_AList_delete [simp]:
  "map_of (AList.delete k al) k' = (if k' = k then None else map_of al k')"
  by (simp add: delete_conv')

lemma keys_AList_update:
  "fst ` set (AList.update k v al) = insert k (fst ` set al)"
  by (simp add: dom_update)

lemma length_AList_update:
  "k \<in> fst ` set al \<Longrightarrow> length (AList.update k v al) = length al"
  by (induction al) auto

lemma keys_map_of: "k \<in> fst ` set al \<longleftrightarrow> map_of al k \<noteq> None"
  by (metis map_of_eq_None_iff)

lemma map_of_filter_distinct:
  assumes "distinct (map fst al)"
  shows "map_of (filter P al) k =
    (case map_of al k of None \<Rightarrow> None | Some v \<Rightarrow> if P (k, v) then Some v else None)"
  using assms by (induction al) (auto split: option.splits simp: rev_image_eqI weak_map_of_SomeI)

lemma distinct_map_fst_filter [simp]:
  "distinct (map fst al) \<Longrightarrow> distinct (map fst (filter P al))"
  by (rule distinct_map_filter)

lemma count_list_distinct: "distinct xs \<Longrightarrow> count_list xs x = (if x \<in> set xs then 1 else 0)"
  by (induction xs) auto

lemma distinct_key_filter:
  "distinct (map f xs) \<Longrightarrow> length (filter (\<lambda>x. f x = k) xs) \<le> 1"
  by (induction xs) (auto simp: filter_empty_conv dest: rev_image_eqI)

section \<open>Counters\<close>

lemma unat_add_of_nat:
  "unat (a :: 64 word) + n < 2 ^ 64 \<Longrightarrow> unat (a + of_nat n) = unat a + n"
  by (simp add: unat_word_ariths unat_of_nat mod_add_right_eq)

section \<open>Sorting\<close>

lemma distinct_map_fst_sort:
  assumes "distinct (map fst al)"
  shows "distinct (map fst (sort_key f al))"
proof -
  have "mset (map fst (sort_key f al)) = mset (map fst al)"
    by simp
  then show ?thesis
    using assms mset_eq_imp_distinct_iff by blast
qed

lemma sorted_take_prefix_le:
  assumes "sorted (map f xs)" and "x \<in> set (take n xs)" and "y \<in> set (drop n xs)"
  shows "f x \<le> f y"
proof -
  have "sorted (map f (take n xs) @ map f (drop n xs))"
    using assms(1) by (metis append_take_drop_id map_append)
  then show ?thesis
    using assms(2,3) by (auto simp: sorted_append)
qed

lemma filter_after_take:
  fixes f :: "'a \<Rightarrow> 'b :: linorder"
  assumes "sorted_wrt (<) (map f xs)" "0 < n" "n \<le> length xs"
  shows "filter (\<lambda>x. \<not> f x \<le> f (last (take n xs))) xs = drop n xs"
proof -
  let ?t = "take n xs" and ?d = "drop n xs"
  have split: "sorted_wrt (<) (map f ?t @ map f ?d)"
    using assms(1) by (metis append_take_drop_id map_append)
  have ne: "?t \<noteq> []" using assms(2,3) by auto
  have "f x \<le> f (last ?t)" if "x \<in> set ?t" for x
    using split that by (cases ?t rule: rev_cases) (auto simp: sorted_wrt_append intro: less_imp_le)
  then have "filter (\<lambda>x. \<not> f x \<le> f (last ?t)) ?t = []"
    by (simp add: filter_empty_conv)
  moreover have "filter (\<lambda>x. \<not> f x \<le> f (last ?t)) ?d = ?d"
    using split last_in_set [OF ne] by (auto simp: filter_id_conv sorted_wrt_append not_le)
  ultimately show ?thesis
    by (metis (no_types, lifting) append_take_drop_id filter_append append_Nil)
qed

lemma length_filter_lookup:
  assumes "distinct (map fst al)"
  shows "length (filter (\<lambda>(k, v). P v) al) = card {k. \<exists>v. map_of al k = Some v \<and> P v}"
proof -
  have "{k. \<exists>v. map_of al k = Some v \<and> P v} = set (map fst (filter (\<lambda>(k, v). P v) al))"
    using assms by (force simp: map_of_eq_Some_iff)
  then show ?thesis
    using distinct_card [OF distinct_map_fst_filter [OF assms]] by (metis length_map)
qed

end
