(* ===== verification/Envelope.thy ===== *)
theory Envelope
  imports Rdq_Prelude
begin

text \<open>
  The wire model of a task (\<open>core/envelope\<close>): the status and outcome vocabularies, the
  envelope, attempt and error records, name and version validation, and the truncation
  of free-text error fields at a UTF-8 boundary.

  \<open>Status\<close> and \<open>Outcome\<close> are Go string types, so any string is a value of them and
  \<open>Valid\<close> is a real check; they stay strings here. A nil and an empty slice or map are
  identified, as the codec's \<open>omitempty\<close> identifies them; the payload, whose nil and empty
  forms differ on the wire, is an option.
\<close>

section \<open>Status and outcome\<close>

type_synonym status = string

definition StatusPending :: status where "StatusPending = ''PENDING''"
definition StatusInFlight :: status where "StatusInFlight = ''IN_FLIGHT''"
definition StatusSucceeded :: status where "StatusSucceeded = ''SUCCEEDED''"
definition StatusDead :: status where "StatusDead = ''DEAD''"

definition Status_Valid :: "status \<Rightarrow> bool" where
  "Status_Valid s \<longleftrightarrow>
     s = StatusPending \<or> s = StatusInFlight \<or> s = StatusSucceeded \<or> s = StatusDead"

definition ParseStatus :: "string \<Rightarrow> status option" where
  "ParseStatus raw = (let s = raw in if \<not> Status_Valid s then None else Some s)"

type_synonym outcome = string

definition OutcomeSuccess :: outcome where "OutcomeSuccess = ''SUCCESS''"
definition OutcomeRetryableFailure :: outcome where
  "OutcomeRetryableFailure = ''RETRYABLE_FAILURE''"
definition OutcomePermanentFailure :: outcome where
  "OutcomePermanentFailure = ''PERMANENT_FAILURE''"
definition OutcomeLeaseExpired :: outcome where "OutcomeLeaseExpired = ''LEASE_EXPIRED''"

definition Outcome_Valid :: "outcome \<Rightarrow> bool" where
  "Outcome_Valid out \<longleftrightarrow>
     out = OutcomeSuccess \<or> out = OutcomeRetryableFailure \<or>
     out = OutcomePermanentFailure \<or> out = OutcomeLeaseExpired"

definition ParseOutcome :: "string \<Rightarrow> outcome option" where
  "ParseOutcome raw = (let out = raw in if \<not> Outcome_Valid out then None else Some out)"

section \<open>Records\<close>

record error_detail =
  ErrType :: string
  Message :: string
  Detail :: "bytes option"
  Stack :: string

record attempt =
  AttemptNo :: int
  StartedAt :: time
  FinishedAt :: "time option"
  Outcome :: outcome
  Err :: "error_detail option"
  AResidual :: "bytes gomap"

record envelope =
  EnvelopeVersion :: int
  ID :: string
  Queue :: string
  HandlerRef :: string
  HandlerVersion :: string
  Payload :: "bytes option"
  PayloadContentType :: string
  PayloadRef :: "string option"
  Headers :: "string gomap"
  Status :: status
  AttemptCount :: int
  RedriveCount :: int
  NextAttemptAt :: "time option"
  LeaseExpiresAt :: "time option"
  CreatedAt :: time
  Attempts :: "attempt list"
  Residual :: "bytes gomap"

section \<open>Validation\<close>

definition MaxNameLen :: nat where "MaxNameLen = 240"
definition MaxMessageBytes :: nat where "MaxMessageBytes = 4096"
definition MaxStackBytes :: nat where "MaxStackBytes = 65536"
definition CurrentVersion :: int where "CurrentVersion = 1"

definition TruncationMarker :: string where
  "TruncationMarker = [CHR 0xE2, CHR 0x80, CHR 0xA6] @ ''[truncated]''"

text \<open>The character class of \<open>nameRE\<close>, \<open>[a-z0-9._-]\<close>.\<close>

definition name_char :: "char \<Rightarrow> bool" where
  "name_char c \<longleftrightarrow>
     (CHR ''a'' \<le> c \<and> c \<le> CHR ''z'') \<or> (CHR ''0'' \<le> c \<and> c \<le> CHR ''9'') \<or>
     c = CHR ''.'' \<or> c = CHR ''_'' \<or> c = CHR ''-''"

definition nameRE_match :: "string \<Rightarrow> bool" where
  "nameRE_match s \<longleftrightarrow> s \<noteq> [] \<and> list_all name_char s"

datatype name_error = NameEmpty string | NameTooLong string | NameCharset string

definition validateName :: "string \<Rightarrow> string \<Rightarrow> name_error option" where
  "validateName field name =
     (if name = [] then Some (NameEmpty field)
      else if length name > MaxNameLen then Some (NameTooLong field)
      else if \<not> nameRE_match name then Some (NameCharset field)
      else None)"

definition ValidateQueue :: "string \<Rightarrow> name_error option" where
  "ValidateQueue name = validateName ''queue'' name"

definition ValidateHandlerRef :: "string \<Rightarrow> name_error option" where
  "ValidateHandlerRef name = validateName ''handler_ref'' name"

definition CanRead :: "int \<Rightarrow> bool" where
  "CanRead v \<longleftrightarrow> v \<ge> 1 \<and> v \<le> CurrentVersion"

definition WriteVersion :: int where "WriteVersion = CurrentVersion"

datatype version_error = VersionTooLow | VersionTooNew

definition ValidateReadVersion :: "int \<Rightarrow> version_error option" where
  "ValidateReadVersion v =
     (if v < 1 then Some VersionTooLow
      else if v > CurrentVersion then Some VersionTooNew
      else None)"

section \<open>Truncation\<close>

text \<open>\<open>utf8.RuneStart\<close>: every byte but a continuation byte (\<open>10xxxxxx\<close>).\<close>

definition RuneStart :: "char \<Rightarrow> bool" where
  "RuneStart c \<longleftrightarrow> (of_char c :: nat) div 64 \<noteq> 2"

text \<open>The backward loop of \<open>runeSafePrefix\<close>: the cut it settles on.\<close>

fun rune_cut :: "string \<Rightarrow> nat \<Rightarrow> nat" where
  "rune_cut s 0 = 0"
| "rune_cut s (Suc n) =
     (if Suc n < length s \<and> \<not> RuneStart (s ! Suc n) then rune_cut s n else Suc n)"

definition runeSafePrefix :: "string \<Rightarrow> nat \<Rightarrow> string" where
  "runeSafePrefix s n = take (rune_cut s n) s"

definition Truncate :: "string \<Rightarrow> nat \<Rightarrow> string" where
  "Truncate s limit =
     (if length s \<le> limit then s
      else let budget = int limit - int (length TruncationMarker) in
        if budget < 0 then runeSafePrefix TruncationMarker limit
        else runeSafePrefix s (nat budget) @ TruncationMarker)"

definition TruncateMessage :: "string \<Rightarrow> string" where
  "TruncateMessage s = Truncate s MaxMessageBytes"

definition TruncateStack :: "string \<Rightarrow> string" where
  "TruncateStack s = Truncate s MaxStackBytes"

definition TruncateError :: "error_detail option \<Rightarrow> error_detail option" where
  "TruncateError e =
     (case e of None \<Rightarrow> None
      | Some d \<Rightarrow> Some (d\<lparr>Message := TruncateMessage (Message d), Stack := TruncateStack (Stack d)\<rparr>))"

section \<open>The constants are distinct\<close>

lemmas status_defs =
  StatusPending_def StatusInFlight_def StatusSucceeded_def StatusDead_def

lemmas outcome_defs =
  OutcomeSuccess_def OutcomeRetryableFailure_def OutcomePermanentFailure_def
  OutcomeLeaseExpired_def

lemma status_distinct [simp, const_simps]:
  "StatusPending \<noteq> StatusInFlight" "StatusPending \<noteq> StatusSucceeded"
  "StatusPending \<noteq> StatusDead" "StatusInFlight \<noteq> StatusPending"
  "StatusInFlight \<noteq> StatusSucceeded" "StatusInFlight \<noteq> StatusDead"
  "StatusSucceeded \<noteq> StatusPending" "StatusSucceeded \<noteq> StatusInFlight"
  "StatusSucceeded \<noteq> StatusDead" "StatusDead \<noteq> StatusPending"
  "StatusDead \<noteq> StatusInFlight" "StatusDead \<noteq> StatusSucceeded"
  by (simp_all add: status_defs)

lemma outcome_distinct [simp, const_simps]:
  "OutcomeSuccess \<noteq> OutcomeRetryableFailure" "OutcomeSuccess \<noteq> OutcomePermanentFailure"
  "OutcomeSuccess \<noteq> OutcomeLeaseExpired" "OutcomeRetryableFailure \<noteq> OutcomeSuccess"
  "OutcomeRetryableFailure \<noteq> OutcomePermanentFailure"
  "OutcomeRetryableFailure \<noteq> OutcomeLeaseExpired"
  "OutcomePermanentFailure \<noteq> OutcomeSuccess"
  "OutcomePermanentFailure \<noteq> OutcomeRetryableFailure"
  "OutcomePermanentFailure \<noteq> OutcomeLeaseExpired"
  "OutcomeLeaseExpired \<noteq> OutcomeSuccess" "OutcomeLeaseExpired \<noteq> OutcomeRetryableFailure"
  "OutcomeLeaseExpired \<noteq> OutcomePermanentFailure"
  by (simp_all add: outcome_defs)

section \<open>Validation facts\<close>

lemma validateName_None_iff:
  "validateName field name = None \<longleftrightarrow>
     name \<noteq> [] \<and> length name \<le> 240 \<and> (\<forall>c \<in> set name. name_char c)"
  by (auto simp: validateName_def nameRE_match_def list_all_iff MaxNameLen_def)

lemma ValidateReadVersion_CanRead: "ValidateReadVersion v = None \<longleftrightarrow> CanRead v"
  by (auto simp: ValidateReadVersion_def CanRead_def)

section \<open>Truncation facts\<close>

text \<open>
  Well-formed UTF-8 at the level a cut can break: a sequence of runes, each a leading
  byte followed by exactly the continuation bytes its leading bits announce.
\<close>

definition rune_len :: "char \<Rightarrow> nat" where
  "rune_len c = (let n = (of_char c :: nat) in
     if n < 128 then 1 else if n div 32 = 6 then 2 else if n div 16 = 14 then 3
     else if n div 8 = 30 then 4 else 0)"

inductive utf8 :: "string \<Rightarrow> bool" where
  utf8_nil: "utf8 []"
| utf8_rune: "rune_len c = Suc (length cs) \<Longrightarrow> list_all (\<lambda>d. \<not> RuneStart d) cs \<Longrightarrow>
     utf8 s \<Longrightarrow> utf8 (c # cs @ s)"

lemma rune_cut_le: "rune_cut s n \<le> n"
  by (induction s n rule: rune_cut.induct) auto

lemma rune_cut_boundary:
  "rune_cut s n = 0 \<or> rune_cut s n \<ge> length s \<or> RuneStart (s ! rune_cut s n)"
  by (induction s n rule: rune_cut.induct) auto

lemma length_runeSafePrefix: "length (runeSafePrefix s n) \<le> n"
  using rune_cut_le [of s n] by (simp add: runeSafePrefix_def)

lemma length_TruncationMarker [simp]: "length TruncationMarker = 14"
  by (simp add: TruncationMarker_def)

lemma utf8_append: "utf8 s \<Longrightarrow> utf8 t \<Longrightarrow> utf8 (s @ t)"
  by (induction rule: utf8.induct) (auto intro: utf8.utf8_rune)

text \<open>A prefix of well-formed text that ends at a rune start is well formed.\<close>

lemma utf8_take_boundary:
  assumes "utf8 s" and "k < length s" and "RuneStart (s ! k)"
  shows "utf8 (take k s)"
  using assms
proof (induction arbitrary: k rule: utf8.induct)
  case utf8_nil
  then show ?case by simp
next
  case (utf8_rune c cs s)
  let ?m = "Suc (length cs)"
  show ?case
  proof (cases "k < ?m")
    case True
    have "k = 0"
    proof (rule ccontr)
      assume "k \<noteq> 0"
      then have "(c # cs @ s) ! k \<in> set cs"
        using True by (auto simp: nth_append nth_Cons')
      then show False
        using utf8_rune by (auto simp: list_all_iff)
    qed
    then show ?thesis by (simp add: utf8.utf8_nil)
  next
    case False
    then have k: "k = ?m + (k - ?m)" by simp
    have "(c # cs @ s) ! k = s ! (k - ?m)"
      using False by (cases k) (auto simp: nth_append)
    then have "utf8 (take (k - ?m) s)"
      using utf8_rune False by auto
    moreover have "take k (c # cs @ s) = c # cs @ take (k - ?m) s"
      using False by (simp add: take_Cons')
    ultimately show ?thesis
      using utf8_rune by (auto intro: utf8.utf8_rune)
  qed
qed

lemma utf8_runeSafePrefix: "utf8 s \<Longrightarrow> utf8 (runeSafePrefix s n)"
  using rune_cut_boundary [of s n] utf8_take_boundary [of s "rune_cut s n"]
  by (cases "rune_cut s n < length s") (auto simp: runeSafePrefix_def utf8.utf8_nil)

lemma utf8_ascii: "list_all (\<lambda>c. (of_char c :: nat) < 128) s \<Longrightarrow> utf8 s"
proof (induction s)
  case (Cons c s)
  then have "utf8 (c # [] @ s)"
    by (intro utf8.utf8_rune) (auto simp: rune_len_def)
  then show ?case by simp
qed (simp add: utf8.utf8_nil)

lemma utf8_TruncationMarker: "utf8 TruncationMarker"
proof -
  have "utf8 (CHR 0xE2 # [CHR 0x80, CHR 0xA6] @ ''[truncated]'')"
    by (intro utf8.utf8_rune utf8_ascii) (simp_all add: rune_len_def RuneStart_def)
  then show ?thesis by (simp add: TruncationMarker_def)
qed

end
