(* ===== verification/Spi.thy ===== *)
theory Spi
  imports Envelope
begin

text \<open>
  The storage service-provider interface (\<open>core/spi\<close>): its error values, the value types
  its methods take and return, and the interface itself as a record of operations over a
  backend state \<open>'s\<close>. The backend is the time authority, so every operation that reads the
  backend's clock takes the reading as its first argument.
\<close>

datatype spi_error = ErrStaleClaim | ErrNotFound | ErrStaleCursor | ErrIDConflict | ErrBackend string

type_synonym task_id = string
type_synonym claim_token = string
type_synonym cursor = string

record claimed =
  Task :: envelope
  Token :: claim_token

record dlq_filter =
  FErrorType :: string
  FHandlerRef :: string
  DeadLetteredAfter :: "time option"
  DeadLetteredBefore :: "time option"
  IncludeAttempts :: bool

record selector =
  IDs :: "task_id list"
  Filter :: "dlq_filter option"

record page =
  Limit :: int
  After :: cursor

record stats =
  Pending :: int
  InFlight :: int
  DLQDepth :: int
  OldestPendingAge :: duration

record capabilities =
  Notify :: bool
  FilterPushdown :: bool
  BatchEnqueue :: bool

text \<open>
  An implementation of the \<open>Storage\<close> interface: a method is a function of the backend's
  clock reading (where it reads the clock), the backend state and the method's arguments,
  and returns the method's results with the state it leaves.
\<close>

record 's storage =
  st_Enqueue :: "'s \<Rightarrow> envelope \<Rightarrow> spi_error option \<times> 's"
  st_ClaimDue :: "time \<Rightarrow> 's \<Rightarrow> string \<Rightarrow> int \<Rightarrow> duration \<Rightarrow> (spi_error + claimed list) \<times> 's"
  st_ExtendLease :: "time \<Rightarrow> 's \<Rightarrow> task_id \<Rightarrow> claim_token \<Rightarrow> duration \<Rightarrow> spi_error option \<times> 's"
  st_Reschedule :: "'s \<Rightarrow> task_id \<Rightarrow> claim_token \<Rightarrow> attempt \<Rightarrow> time \<Rightarrow> spi_error option \<times> 's"
  st_Complete :: "time \<Rightarrow> 's \<Rightarrow> task_id \<Rightarrow> claim_token \<Rightarrow> attempt \<Rightarrow> spi_error option \<times> 's"
  st_DeadLetter :: "time \<Rightarrow> 's \<Rightarrow> task_id \<Rightarrow> claim_token \<Rightarrow> attempt \<Rightarrow> spi_error option \<times> 's"
  st_DLQList :: "'s \<Rightarrow> string \<Rightarrow> dlq_filter \<Rightarrow> page \<Rightarrow> spi_error + (envelope list \<times> cursor)"
  st_Get :: "'s \<Rightarrow> task_id \<Rightarrow> spi_error + envelope"
  st_Redrive :: "time \<Rightarrow> 's \<Rightarrow> string \<Rightarrow> selector \<Rightarrow> (spi_error + int) \<times> 's"
  st_Purge :: "'s \<Rightarrow> string \<Rightarrow> selector \<Rightarrow> (spi_error + int) \<times> 's"
  st_Stats :: "time \<Rightarrow> 's \<Rightarrow> string \<Rightarrow> spi_error + stats"
  st_PurgeSucceeded :: "'s \<Rightarrow> string \<Rightarrow> time \<Rightarrow> (spi_error + int) \<times> 's"
  st_Capabilities :: capabilities

end
