(* ===== verification/Go_Strconv.thy ===== *)
theory Go_Strconv
  imports Rdq_Prelude
begin

text \<open>
  The parts of Go's \<open>strconv\<close> and \<open>strings\<close> packages the sources use: decimal formatting
  and parsing of 64-bit integers, prefix and suffix tests, splitting at a separator.
\<close>

section \<open>Decimal numbers\<close>

definition digit_char :: "nat \<Rightarrow> char" where
  "digit_char d = char_of (48 + d)"

definition digit_val :: "char \<Rightarrow> nat option" where
  "digit_val c = (let n = (of_char c :: nat) in if 48 \<le> n \<and> n \<le> 57 then Some (n - 48) else None)"

text \<open>\<open>strconv.FormatUint(n, 10)\<close>.\<close>

fun FormatUint :: "nat \<Rightarrow> string" where
  "FormatUint n =
     (if n < 10 then [digit_char n] else FormatUint (n div 10) @ [digit_char (n mod 10)])"

declare FormatUint.simps [simp del]

text \<open>\<open>strconv.FormatInt(i, 10)\<close> and \<open>strconv.Itoa\<close>.\<close>

definition FormatInt :: "int \<Rightarrow> string" where
  "FormatInt i = (if i < 0 then CHR ''-'' # FormatUint (nat (- i)) else FormatUint (nat i))"

text \<open>
  \<open>strconv.ParseUint(s, 10, 64)\<close>: the empty string and any non-digit are syntax errors, a
  value above \<open>2 ^ 64 - 1\<close> a range error; both are \<open>None\<close> here, because no caller in the
  sources tells them apart.
\<close>

fun digits_val :: "nat \<Rightarrow> string \<Rightarrow> nat option" where
  "digits_val acc [] = Some acc"
| "digits_val acc (c # cs) =
     (case digit_val c of None \<Rightarrow> None | Some d \<Rightarrow> digits_val (10 * acc + d) cs)"

definition ParseUint :: "string \<Rightarrow> nat option" where
  "ParseUint s =
     (if s = [] then None
      else case digits_val 0 s of None \<Rightarrow> None
        | Some n \<Rightarrow> if n < 2 ^ 64 then Some n else None)"

text \<open>\<open>strconv.ParseInt(s, 10, 64)\<close> and \<open>strconv.Atoi\<close> (on a 64-bit platform): an optional
  sign, then digits, within the range of an int64.\<close>

definition ParseInt :: "string \<Rightarrow> int option" where
  "ParseInt s =
     (let (neg, ds) = (case s of c # cs \<Rightarrow>
          if c = CHR ''-'' then (True, cs) else if c = CHR ''+'' then (False, cs) else (False, s)
        | [] \<Rightarrow> (False, []))
      in case ParseUint ds of None \<Rightarrow> None
        | Some n \<Rightarrow>
            if \<not> neg \<and> n < 2 ^ 63 then Some (int n)
            else if neg \<and> n \<le> 2 ^ 63 then Some (- int n)
            else None)"

section \<open>Strings\<close>

definition HasPrefix :: "string \<Rightarrow> string \<Rightarrow> bool" where
  "HasPrefix s p \<longleftrightarrow> take (length p) s = p"

definition HasSuffix :: "string \<Rightarrow> string \<Rightarrow> bool" where
  "HasSuffix s p \<longleftrightarrow> length p \<le> length s \<and> drop (length s - length p) s = p"

definition CutPrefix :: "string \<Rightarrow> string \<Rightarrow> string option" where
  "CutPrefix s p = (if HasPrefix s p then Some (drop (length p) s) else None)"

definition CutSuffix :: "string \<Rightarrow> string \<Rightarrow> string option" where
  "CutSuffix s p = (if HasSuffix s p then Some (take (length s - length p) s) else None)"

text \<open>\<open>strings.Cut\<close> at a single byte: what is before and after its first occurrence.\<close>

fun Cut1 :: "string \<Rightarrow> char \<Rightarrow> (string \<times> string) option" where
  "Cut1 [] sep = None"
| "Cut1 (c # cs) sep =
     (if c = sep then Some ([], cs)
      else map_option (\<lambda>(a, b). (c # a, b)) (Cut1 cs sep))"

text \<open>\<open>strings.Split\<close> at a single byte; the empty string splits into one empty part.\<close>

fun Split1 :: "string \<Rightarrow> char \<Rightarrow> string list" where
  "Split1 [] sep = [[]]"
| "Split1 (c # cs) sep =
     (if c = sep then [] # Split1 cs sep
      else case Split1 cs sep of p # ps \<Rightarrow> (c # p) # ps | [] \<Rightarrow> [[c]])"

section \<open>Facts\<close>

lemma digit_val_digit_char [simp]: "d < 10 \<Longrightarrow> digit_val (digit_char d) = Some d"
  by (simp add: digit_val_def digit_char_def)

lemma digits_val_append:
  "digits_val acc (s @ t) = (case digits_val acc s of None \<Rightarrow> None | Some n \<Rightarrow> digits_val n t)"
  by (induction acc s rule: digits_val.induct) (auto split: option.splits)

lemma digits_val_FormatUint: "digits_val 0 (FormatUint n) = Some n"
proof (induction n rule: FormatUint.induct)
  case (1 n)
  show ?case
  proof (cases "n < 10")
    case True
    then show ?thesis by (simp add: FormatUint.simps [of n])
  next
    case False
    with 1 have "digits_val 0 (FormatUint (n div 10)) = Some (n div 10)" by simp
    with False show ?thesis
      by (simp add: FormatUint.simps [of n] digits_val_append)
  qed
qed

lemma FormatUint_nonempty [simp]: "FormatUint n \<noteq> []"
  by (subst FormatUint.simps) simp

lemma FormatUint_digits: "\<forall>c \<in> set (FormatUint n). digit_val c \<noteq> None"
proof (induction n rule: FormatUint.induct)
  case (1 n)
  then show ?case
    by (cases "n < 10") (auto simp: FormatUint.simps [of n])
qed

lemma FormatUint_inj: "FormatUint m = FormatUint n \<longleftrightarrow> m = n"
  by (metis digits_val_FormatUint option.inject)

lemma ParseUint_FormatUint: "n < 2 ^ 64 \<Longrightarrow> ParseUint (FormatUint n) = Some n"
  by (simp add: ParseUint_def digits_val_FormatUint)

lemma FormatUint_hd: "\<exists>c cs. FormatUint n = c # cs \<and> digit_val c \<noteq> None"
  using FormatUint_nonempty [of n] FormatUint_digits [of n]
  by (cases "FormatUint n") auto

lemma digit_val_sign: "digit_val (CHR ''-'') = None" "digit_val (CHR ''+'') = None"
  by (simp_all add: digit_val_def)

lemma ParseInt_FormatInt:
  assumes "min_int64 \<le> i" and "i \<le> max_int64"
  shows "ParseInt (FormatInt i) = Some i"
proof (cases "i < 0")
  case True
  have "ParseUint (FormatUint (nat (- i))) = Some (nat (- i))"
    using assms True by (intro ParseUint_FormatUint) simp
  then show ?thesis
    using True assms by (simp add: ParseInt_def FormatInt_def)
next
  case False
  have p: "ParseUint (FormatUint (nat i)) = Some (nat i)"
    using assms False by (intro ParseUint_FormatUint) simp
  obtain c cs where c: "FormatUint (nat i) = c # cs" "digit_val c \<noteq> None"
    using FormatUint_hd [of "nat i"] by blast
  then have "c \<noteq> CHR ''-''" "c \<noteq> CHR ''+''"
    using digit_val_sign by metis+
  with False p c assms show ?thesis
    by (simp add: ParseInt_def FormatInt_def)
qed

lemma HasPrefix_append [simp]: "HasPrefix (p @ s) p"
  by (simp add: HasPrefix_def)

lemma HasPrefix_prefix: "HasPrefix s p \<longleftrightarrow> prefix p s"
  by (metis HasPrefix_append HasPrefix_def prefix_def take_is_prefix)

lemma CutPrefix_append [simp]: "CutPrefix (p @ s) p = Some s"
  by (simp add: CutPrefix_def)

lemma HasSuffix_append [simp]: "HasSuffix (s @ p) p"
  by (simp add: HasSuffix_def)

lemma CutSuffix_append [simp]: "CutSuffix (s @ p) p = Some s"
  by (simp add: CutSuffix_def)

lemma CutSuffix_Some: "CutSuffix s p = Some t \<longleftrightarrow> s = t @ p"
  by (auto simp: CutSuffix_def HasSuffix_def split: if_splits) (metis append_take_drop_id)

lemma Cut1_append: "sep \<notin> set a \<Longrightarrow> Cut1 (a @ sep # b) sep = Some (a, b)"
  by (induction a) auto

lemma Split1_nonempty [simp]: "Split1 s sep \<noteq> []"
  by (induction s sep rule: Split1.induct) (auto split: list.splits)

lemma Split1_no_sep: "sep \<notin> set s \<Longrightarrow> Split1 s sep = [s]"
  by (induction s) auto

lemma Split1_append: "sep \<notin> set a \<Longrightarrow> Split1 (a @ sep # b) sep = a # Split1 b sep"
  by (induction a) auto

end
