(* ===== verification/Go_Base64.thy ===== *)
theory Go_Base64
  imports Rdq_Prelude
begin

text \<open>
  \<open>base64.RawURLEncoding\<close> of Go's standard library: the URL-safe alphabet, no padding, and
  a decoder that skips carriage returns and line feeds and ignores the unused low bits of
  a final partial group, as the non-strict decoder does.
\<close>

section \<open>Alphabet\<close>

definition b64_alphabet :: string where
  "b64_alphabet =
     ''ABCDEFGHIJKLMNOPQRSTUVWXYZabcdefghijklmnopqrstuvwxyz0123456789-_''"

definition b64_char :: "nat \<Rightarrow> char" where
  "b64_char n = b64_alphabet ! n"

definition b64_val :: "char \<Rightarrow> nat option" where
  "b64_val c = map_of (zip b64_alphabet [0..<64]) c"

section \<open>Encoding and decoding\<close>

fun b64_encode :: "bytes \<Rightarrow> string" where
  "b64_encode [] = []"
| "b64_encode [a] =
     (let v = (of_char a :: nat) * 65536 in [b64_char (v div 262144), b64_char (v div 4096 mod 64)])"
| "b64_encode [a, b] =
     (let v = (of_char a :: nat) * 65536 + of_char b * 256 in
      [b64_char (v div 262144), b64_char (v div 4096 mod 64), b64_char (v div 64 mod 64)])"
| "b64_encode (a # b # c # rest) =
     (let v = (of_char a :: nat) * 65536 + of_char b * 256 + of_char c in
      [b64_char (v div 262144), b64_char (v div 4096 mod 64), b64_char (v div 64 mod 64),
       b64_char (v mod 64)] @ b64_encode rest)"

fun b64_groups :: "nat list \<Rightarrow> bytes option" where
  "b64_groups [] = Some []"
| "b64_groups [a] = None"
| "b64_groups [a, b] =
     (let v = a * 262144 + b * 4096 in Some [char_of (v div 65536)])"
| "b64_groups [a, b, c] =
     (let v = a * 262144 + b * 4096 + c * 64 in
      Some [char_of (v div 65536), char_of (v div 256 mod 256)])"
| "b64_groups (a # b # c # d # rest) =
     (let v = a * 262144 + b * 4096 + c * 64 + d in
      map_option (\<lambda>bs. char_of (v div 65536) # char_of (v div 256 mod 256) # char_of (v mod 256) # bs)
        (b64_groups rest))"

fun b64_vals :: "string \<Rightarrow> nat list option" where
  "b64_vals [] = Some []"
| "b64_vals (c # cs) =
     (case b64_val c of None \<Rightarrow> None
      | Some n \<Rightarrow> map_option (\<lambda>ns. n # ns) (b64_vals cs))"

definition b64_decode :: "string \<Rightarrow> bytes option" where
  "b64_decode s =
     (case b64_vals (filter (\<lambda>c. c \<noteq> CHR 0x0A \<and> c \<noteq> CHR 0x0D) s) of
        None \<Rightarrow> None | Some ns \<Rightarrow> b64_groups ns)"

section \<open>Round trip\<close>

lemma b64_alphabet_facts: "length b64_alphabet = 64" "distinct b64_alphabet"
  "CHR 0x0A \<notin> set b64_alphabet" "CHR 0x0D \<notin> set b64_alphabet"
  by (simp_all add: b64_alphabet_def)

lemma b64_val_char [simp]: "n < 64 \<Longrightarrow> b64_val (b64_char n) = Some n"
  using map_of_zip_nth [of b64_alphabet "[0..<64]" n]
  by (simp add: b64_val_def b64_char_def b64_alphabet_facts)

lemma b64_char_not_newline [simp]:
  "n < 64 \<Longrightarrow> b64_char n \<noteq> CHR 0x0A" "n < 64 \<Longrightarrow> b64_char n \<noteq> CHR 0x0D"
  by (metis b64_alphabet_facts b64_char_def nth_mem)+

lemma regroup4_parts:
  fixes v :: nat
  assumes "v = q1 * 64 + r1" "q1 = q2 * 64 + r2" "q2 = q3 * 64 + r3"
  shows "q3 * 262144 + r3 * 4096 + r2 * 64 + r1 = v"
  using assms by simp

lemma regroup4:
  fixes v :: nat
  shows "(v div 262144) * 262144 + (v div 4096 mod 64) * 4096 + (v div 64 mod 64) * 64 + v mod 64 = v"
proof (rule regroup4_parts)
  have d: "v div 4096 = v div 64 div 64" "v div 262144 = v div 4096 div 64"
    using div_mult2_eq [of v 64 64] div_mult2_eq [of v 4096 64] by simp_all
  show "v = v div 64 * 64 + v mod 64" by simp
  show "v div 64 = v div 4096 * 64 + v div 64 mod 64" unfolding d(1) by simp
  show "v div 4096 = v div 262144 * 64 + v div 4096 mod 64" unfolding d(2) by simp
qed

lemma regroup3:
  fixes x y z :: nat
  assumes "x < 256" "y < 256" "z < 256"
  shows "(x * 65536 + y * 256 + z) div 65536 = x"
    and "(x * 65536 + y * 256 + z) div 256 mod 256 = y"
    and "(x * 65536 + y * 256 + z) mod 256 = z"
    and "(x * 65536 + y * 256 + z) div 262144 < 64"
proof -
  show "(x * 65536 + y * 256 + z) div 65536 = x"
    using assms by (intro div_nat_eqI) simp_all
  have "(x * 65536 + y * 256 + z) div 256 = x * 256 + y"
    using assms by (intro div_nat_eqI) simp_all
  then show "(x * 65536 + y * 256 + z) div 256 mod 256 = y"
    using assms by simp
  have "x * 65536 + y * 256 + z = z + 256 * (x * 256 + y)" by simp
  then show "(x * 65536 + y * 256 + z) mod 256 = z"
    using assms by (metis mod_less mod_mult_self2)
  show "(x * 65536 + y * 256 + z) div 262144 < 64"
    using assms by (intro less_mult_imp_div_less) simp
qed

text \<open>The groups of 6-bit values the encoder writes, as the decoder reads them back.\<close>

lemma b64_group3:
  "\<exists>ns. b64_vals (b64_encode (a # b # c # rest)) =
      map_option (\<lambda>ms. ns @ ms) (b64_vals (b64_encode rest)) \<and>
    (\<forall>ms. b64_groups (ns @ ms) = map_option (\<lambda>bs. a # b # c # bs) (b64_groups ms))"
proof -
  define v where "v = (of_char a :: nat) * 65536 + of_char b * 256 + of_char c"
  define ns where "ns = [v div 262144, v div 4096 mod 64, v div 64 mod 64, v mod 64]"
  have lt: "v div 262144 < 64"
    unfolding v_def by (rule regroup3) simp_all
  have "b64_vals (b64_encode (a # b # c # rest)) =
      map_option (\<lambda>ms. ns @ ms) (b64_vals (b64_encode rest))"
    using lt by (simp add: v_def [symmetric] ns_def Let_def option.map_comp comp_def)
  moreover have "b64_groups (ns @ ms) = map_option (\<lambda>bs. a # b # c # bs) (b64_groups ms)" for ms
  proof -
    have "char_of (v div 65536) = a" "char_of (v div 256 mod 256) = b" "char_of (v mod 256) = c"
      unfolding v_def by (simp_all only: regroup3 nat_of_char_less_256 char_of_char)
    then show ?thesis
      using regroup4 [of v] by (simp add: ns_def Let_def del: char_of_mod_256)
  qed
  ultimately show ?thesis by blast
qed

lemma b64_vals_groups:
  "\<exists>ns. b64_vals (b64_encode bs) = Some ns \<and> b64_groups ns = Some bs"
proof (induction bs rule: b64_encode.induct)
  case 1
  then show ?case by simp
next
  case (2 a)
  define v where "v = (of_char a :: nat) * 65536"
  have lt: "v div 262144 < 64"
    using regroup3(4) [of "of_char a" 0 0] by (simp add: v_def)
  have "v div 64 mod 64 = 0" "v mod 64 = 0"
    by (simp_all add: v_def)
  then have "v div 262144 * 262144 + v div 4096 mod 64 * 4096 = v"
    using regroup4 [of v] by simp
  then show ?case
    using lt regroup3 [of "of_char a" 0 0] by (simp add: Let_def v_def [symmetric])
next
  case (3 a b)
  define v where "v = (of_char a :: nat) * 65536 + of_char b * 256"
  have lt: "v div 262144 < 64"
    using regroup3(4) [of "of_char a" "of_char b" 0] by (simp add: v_def)
  have "v mod 64 = 0"
    by (simp add: v_def mod_add_left_eq [symmetric])
  then have "v div 262144 * 262144 + v div 4096 mod 64 * 4096 + v div 64 mod 64 * 64 = v"
    using regroup4 [of v] by simp
  then show ?case
    using lt regroup3 [of "of_char a" "of_char b" 0]
    by (simp add: Let_def v_def [symmetric] del: char_of_mod_256)
next
  case (4 a b c rest)
  then show ?case
    using b64_group3 [of a b c rest] by force
qed

lemma b64_vals_no_newline:
  "b64_vals s = Some ns \<Longrightarrow> filter (\<lambda>c. c \<noteq> CHR 0x0A \<and> c \<noteq> CHR 0x0D) s = s"
proof (induction s arbitrary: ns)
  case (Cons c s)
  have "b64_val d \<noteq> None \<Longrightarrow> d \<in> set b64_alphabet" for d
    by (auto simp: b64_val_def dest: map_of_SomeD set_zip_leftD)
  with Cons show ?case
    using b64_alphabet_facts by (fastforce split: option.splits)
qed simp

theorem b64_roundtrip: "b64_decode (b64_encode bs) = Some bs"
  using b64_vals_groups [of bs] b64_vals_no_newline [of "b64_encode bs"]
  by (auto simp: b64_decode_def)

end
