(* ===== verification/Memstore.thy ===== *)
theory Memstore
  imports Spi Go_Strconv Go_Base64
begin

text \<open>
  The in-memory reference store (\<open>core/memstore\<close>). The store's \<open>tasks\<close> map is an association
  list from task id to record, in the order the map would be iterated; a Go pointer to a
  record is the record's key, so that two pointers to one record alias. Every method runs
  under the store's mutex, so it is one function from the store before to the store after;
  the clock reading the method takes is its first argument.
\<close>

unbundle bit_operations_syntax

section \<open>State\<close>

definition defaultPageLimit :: int where "defaultPageLimit = 100"
definition cursorPrefix :: string where "cursorPrefix = ''mc1:''"
definition leaseExpiredType :: string where "leaseExpiredType = ''rdq.LeaseExpired''"

record taskrec =
  env :: envelope
  token :: claim_token
  claimedAt :: time
  rdlqSeq :: "64 word"
  terminalAt :: time

record store =
  tasks :: "taskrec gomap"
  claimSeq :: "64 word"
  dlqSeq :: "64 word"

definition New :: store where
  "New = \<lparr>tasks = [], claimSeq = 0, dlqSeq = 0\<rparr>"

abbreviation lookup :: "store \<Rightarrow> task_id \<Rightarrow> taskrec option" where
  "lookup s \<equiv> map_of (tasks s)"

text \<open>Writing through a record pointer.\<close>

definition put :: "store \<Rightarrow> task_id \<Rightarrow> taskrec \<Rightarrow> store" where
  "put s k r = s\<lparr>tasks := AList.update k r (tasks s)\<rparr>"

section \<open>Deep copies\<close>

text \<open>
  The clone functions copy a value field by field; in a model of values they return their
  argument, which \<open>cloneEnvelope_eq\<close> below proves of the field-by-field definitions.
\<close>

definition cloneBytes :: "bytes \<Rightarrow> bytes" where
  "cloneBytes b = map (\<lambda>c. c) b"

definition clonePtrTime :: "time option \<Rightarrow> time option" where
  "clonePtrTime t = (case t of None \<Rightarrow> None | Some v \<Rightarrow> Some v)"

definition clonePtrString :: "string option \<Rightarrow> string option" where
  "clonePtrString t = (case t of None \<Rightarrow> None | Some v \<Rightarrow> Some v)"

definition cloneStringMap :: "string gomap \<Rightarrow> string gomap" where
  "cloneStringMap m = map (\<lambda>(k, v). (k, v)) m"

definition cloneRawMap :: "bytes gomap \<Rightarrow> bytes gomap" where
  "cloneRawMap m = map (\<lambda>(k, v). (k, cloneBytes v)) m"

definition cloneAttempt :: "attempt \<Rightarrow> attempt" where
  "cloneAttempt a = a\<lparr>FinishedAt := clonePtrTime (FinishedAt a),
     AResidual := cloneRawMap (AResidual a),
     Err := (case Err a of None \<Rightarrow> None
       | Some e \<Rightarrow> Some (e\<lparr>Detail := map_option cloneBytes (Detail e)\<rparr>))\<rparr>"

definition cloneEnvelope :: "envelope \<Rightarrow> envelope" where
  "cloneEnvelope e = e\<lparr>Payload := map_option cloneBytes (Payload e),
     PayloadRef := clonePtrString (PayloadRef e),
     Headers := cloneStringMap (Headers e),
     NextAttemptAt := clonePtrTime (NextAttemptAt e),
     LeaseExpiresAt := clonePtrTime (LeaseExpiresAt e),
     Residual := cloneRawMap (Residual e),
     Attempts := map cloneAttempt (Attempts e)\<rparr>"

section \<open>Internal helpers\<close>

definition isDue :: "taskrec \<Rightarrow> time \<Rightarrow> bool" where
  "isDue r now =
     (if Status (env r) = StatusPending then
        (case NextAttemptAt (env r) of None \<Rightarrow> False | Some t \<Rightarrow> \<not> t > now)
      else if Status (env r) = StatusInFlight then
        (case LeaseExpiresAt (env r) of None \<Rightarrow> False | Some t \<Rightarrow> \<not> t > now)
      else False)"

definition dueKey :: "taskrec \<Rightarrow> time" where
  "dueKey r = (case NextAttemptAt (env r) of Some t \<Rightarrow> t | None \<Rightarrow> time_zero)"

definition leaseExpiredAttempt :: "taskrec \<Rightarrow> time \<Rightarrow> attempt" where
  "leaseExpiredAttempt r now =
     \<lparr>AttemptNo = AttemptCount (env r) + 1, StartedAt = claimedAt r, FinishedAt = Some now,
      Outcome = OutcomeLeaseExpired,
      Err = Some \<lparr>ErrType = leaseExpiredType,
        Message = ''lease expired before an outcome was reported'', Detail = None, Stack = []\<rparr>,
      AResidual = []\<rparr>"

definition appendAttempt :: "taskrec \<Rightarrow> attempt \<Rightarrow> taskrec" where
  "appendAttempt r att = r\<lparr>env := (env r)\<lparr>Attempts := Attempts (env r) @ [cloneAttempt att],
     AttemptCount := AttemptCount (env r) + 1\<rparr>\<rparr>"

definition resolveClaim :: "store \<Rightarrow> task_id \<Rightarrow> claim_token \<Rightarrow> spi_error + taskrec" where
  "resolveClaim s tid tok =
     (case lookup s tid of None \<Rightarrow> Inl ErrStaleClaim
      | Some r \<Rightarrow>
          if Status (env r) \<noteq> StatusInFlight \<or> token r = [] \<or> token r \<noteq> tok
          then Inl ErrStaleClaim else Inr r)"

definition finalErrorTypeIs :: "envelope \<Rightarrow> string \<Rightarrow> bool" where
  "finalErrorTypeIs e errorType =
     (if Attempts e = [] then False
      else let l = last (Attempts e) in
        (case Err l of None \<Rightarrow> False | Some d \<Rightarrow> ErrType d = errorType))"

definition matchFilter :: "taskrec \<Rightarrow> dlq_filter \<Rightarrow> bool" where
  "matchFilter r f =
     (if FHandlerRef f \<noteq> [] \<and> HandlerRef (env r) \<noteq> FHandlerRef f then False
      else if FErrorType f \<noteq> [] \<and> \<not> finalErrorTypeIs (env r) (FErrorType f) then False
      else if (case DeadLetteredAfter f of None \<Rightarrow> False | Some a \<Rightarrow> terminalAt r < a) then False
      else if (case DeadLetteredBefore f of None \<Rightarrow> False | Some b \<Rightarrow> \<not> terminalAt r < b) then False
      else True)"

definition isDead :: "string \<Rightarrow> taskrec \<Rightarrow> bool" where
  "isDead queue r \<longleftrightarrow> Queue (env r) = queue \<and> Status (env r) = StatusDead"

definition selectDead :: "store \<Rightarrow> string \<Rightarrow> selector \<Rightarrow> (task_id \<times> taskrec) list" where
  "selectDead s queue sel =
     (if length (IDs sel) > 0 then
        List.map_filter (\<lambda>tid. case lookup s tid of None \<Rightarrow> None
          | Some r \<Rightarrow> if isDead queue r then Some (tid, r) else None) (IDs sel)
      else case Filter sel of None \<Rightarrow> []
        | Some f \<Rightarrow> filter (\<lambda>(k, r). isDead queue r \<and> matchFilter r f) (tasks s))"

section \<open>Cursor codec\<close>

definition encodeCursor :: "64 word \<Rightarrow> cursor" where
  "encodeCursor seq = b64_encode (cursorPrefix @ FormatUint (unat seq))"

definition decodeCursor :: "cursor \<Rightarrow> spi_error + 64 word" where
  "decodeCursor c =
     (if c = [] then Inr 0
      else case b64_decode c of None \<Rightarrow> Inl ErrStaleCursor
        | Some s \<Rightarrow>
            if \<not> HasPrefix s cursorPrefix then Inl ErrStaleCursor
            else case ParseUint (drop (length cursorPrefix) s) of None \<Rightarrow> Inl ErrStaleCursor
              | Some n \<Rightarrow> Inr (of_nat n))"

section \<open>Lifecycle\<close>

definition Enqueue :: "store \<Rightarrow> envelope \<Rightarrow> spi_error option \<times> store" where
  "Enqueue s task =
     (case lookup s (ID task) of
        Some existing \<Rightarrow>
          if Queue (env existing) \<noteq> Queue task then (Some ErrIDConflict, s) else (None, s)
      | None \<Rightarrow> (None, put s (ID task)
          \<lparr>env = cloneEnvelope task, token = [], claimedAt = time_zero, rdlqSeq = 0,
           terminalAt = time_zero\<rparr>))"

definition claimToken :: "64 word \<Rightarrow> claim_token" where
  "claimToken seq = ''ct-'' @ FormatUint (unat seq)"

text \<open>The sort of \<open>ClaimDue\<close>: by due key, the id breaking ties.\<close>

definition dueOrder :: "task_id \<times> taskrec \<Rightarrow> time \<times> string" where
  "dueOrder kr = (dueKey (snd kr), ID (env (snd kr)))"

definition dueTasks :: "store \<Rightarrow> string \<Rightarrow> time \<Rightarrow> (task_id \<times> taskrec) list" where
  "dueTasks s queue now =
     sort_key dueOrder (filter (\<lambda>(k, r). Queue (env r) = queue \<and> isDue r now) (tasks s))"

text \<open>One iteration of the claiming loop, on the record behind key \<open>k\<close>.\<close>

definition claimRec :: "time \<Rightarrow> duration \<Rightarrow> claim_token \<Rightarrow> taskrec \<Rightarrow> taskrec" where
  "claimRec now lease tok r =
     (let r1 = (if Status (env r) = StatusInFlight
                then appendAttempt r (leaseExpiredAttempt r now) else r)
      in r1\<lparr>env := (env r1)\<lparr>Status := StatusInFlight, LeaseExpiresAt := Some (now + lease)\<rparr>,
            token := tok, claimedAt := now\<rparr>)"

fun claimLoop :: "time \<Rightarrow> duration \<Rightarrow> (task_id \<times> taskrec) list \<Rightarrow> store \<Rightarrow> claimed list \<times> store" where
  "claimLoop now lease [] s = ([], s)"
| "claimLoop now lease ((k, r) # due) s =
     (let seq = claimSeq s + 1;
          tok = claimToken seq;
          r' = claimRec now lease tok r;
          s' = put (s\<lparr>claimSeq := seq\<rparr>) k r';
          (cs, s'') = claimLoop now lease due s'
      in (\<lparr>Task = cloneEnvelope (env r'), Token = tok\<rparr> # cs, s''))"

definition ClaimDue :: "time \<Rightarrow> store \<Rightarrow> string \<Rightarrow> int \<Rightarrow> duration \<Rightarrow> (spi_error + claimed list) \<times> store" where
  "ClaimDue now s queue limit lease =
     (if limit \<le> 0 then (Inr [], s)
      else let due = dueTasks s queue now;
               due' = (if int (length due) > limit then take (nat limit) due else due);
               (cs, s') = claimLoop now lease due' s
           in (Inr cs, s'))"

definition ExtendLease :: "time \<Rightarrow> store \<Rightarrow> task_id \<Rightarrow> claim_token \<Rightarrow> duration \<Rightarrow> spi_error option \<times> store" where
  "ExtendLease now s tid tok lease =
     (case resolveClaim s tid tok of Inl e \<Rightarrow> (Some e, s)
      | Inr r \<Rightarrow> (None, put s tid (r\<lparr>env := (env r)\<lparr>LeaseExpiresAt := Some (now + lease)\<rparr>\<rparr>)))"

section \<open>Outcome resolution\<close>

definition Reschedule :: "store \<Rightarrow> task_id \<Rightarrow> claim_token \<Rightarrow> attempt \<Rightarrow> time \<Rightarrow> spi_error option \<times> store" where
  "Reschedule s tid tok att nextAt =
     (case resolveClaim s tid tok of Inl e \<Rightarrow> (Some e, s)
      | Inr r \<Rightarrow>
          let r1 = appendAttempt r att in
          (None, put s tid (r1\<lparr>env := (env r1)\<lparr>Status := StatusPending,
              NextAttemptAt := Some nextAt, LeaseExpiresAt := None\<rparr>, token := []\<rparr>)))"

definition Complete :: "time \<Rightarrow> store \<Rightarrow> task_id \<Rightarrow> claim_token \<Rightarrow> attempt \<Rightarrow> spi_error option \<times> store" where
  "Complete now s tid tok att =
     (case resolveClaim s tid tok of Inl e \<Rightarrow> (Some e, s)
      | Inr r \<Rightarrow>
          let r1 = appendAttempt r att in
          (None, put s tid (r1\<lparr>env := (env r1)\<lparr>Status := StatusSucceeded,
              NextAttemptAt := None, LeaseExpiresAt := None\<rparr>, token := [], terminalAt := now\<rparr>)))"

definition DeadLetter :: "time \<Rightarrow> store \<Rightarrow> task_id \<Rightarrow> claim_token \<Rightarrow> attempt \<Rightarrow> spi_error option \<times> store" where
  "DeadLetter now s tid tok att =
     (case resolveClaim s tid tok of Inl e \<Rightarrow> (Some e, s)
      | Inr r \<Rightarrow>
          let r1 = appendAttempt r att; seq = dlqSeq s + 1 in
          (None, put (s\<lparr>dlqSeq := seq\<rparr>) tid (r1\<lparr>env := (env r1)\<lparr>Status := StatusDead,
              NextAttemptAt := None, LeaseExpiresAt := None\<rparr>, token := [],
              rdlqSeq := seq, terminalAt := now\<rparr>)))"

section \<open>Dead-letter queue\<close>

definition dlqMatched :: "store \<Rightarrow> string \<Rightarrow> dlq_filter \<Rightarrow> 64 word \<Rightarrow> (task_id \<times> taskrec) list" where
  "dlqMatched s queue f after =
     sort_key (\<lambda>(k, r). rdlqSeq r)
       (filter (\<lambda>(k, r). isDead queue r \<and> \<not> rdlqSeq r \<le> after \<and> matchFilter r f) (tasks s))"

definition DLQList :: "store \<Rightarrow> string \<Rightarrow> dlq_filter \<Rightarrow> page \<Rightarrow> spi_error + (envelope list \<times> cursor)" where
  "DLQList s queue f pg =
     (case decodeCursor (After pg) of Inl e \<Rightarrow> Inl e
      | Inr after \<Rightarrow>
          let matched = dlqMatched s queue f after;
              limit = (if Limit pg \<le> 0 then defaultPageLimit else Limit pg);
              (matched', nxt) =
                (if int (length matched) > limit then
                   let m = take (nat limit) matched in (m, encodeCursor (rdlqSeq (snd (last m))))
                 else (matched, []))
          in Inr (map (\<lambda>(k, r). let e = cloneEnvelope (env r) in
                     if \<not> IncludeAttempts f then e\<lparr>Attempts := []\<rparr> else e) matched', nxt))"

definition Get :: "store \<Rightarrow> task_id \<Rightarrow> spi_error + envelope" where
  "Get s tid = (case lookup s tid of None \<Rightarrow> Inl ErrNotFound | Some r \<Rightarrow> Inr (cloneEnvelope (env r)))"

definition redriveRec :: "time \<Rightarrow> taskrec \<Rightarrow> taskrec" where
  "redriveRec now r = r\<lparr>env := (env r)\<lparr>Status := StatusPending, AttemptCount := 0,
      RedriveCount := RedriveCount (env r) + 1, NextAttemptAt := Some now,
      LeaseExpiresAt := None\<rparr>, rdlqSeq := 0, terminalAt := time_zero\<rparr>"

text \<open>The loop over the selected pointers: each write goes to the record's current value, so
  a record selected twice is updated twice.\<close>

fun redriveLoop :: "time \<Rightarrow> task_id list \<Rightarrow> store \<Rightarrow> store" where
  "redriveLoop now [] s = s"
| "redriveLoop now (k # ks) s =
     redriveLoop now ks (case lookup s k of None \<Rightarrow> s | Some r \<Rightarrow> put s k (redriveRec now r))"

definition Redrive :: "time \<Rightarrow> store \<Rightarrow> string \<Rightarrow> selector \<Rightarrow> (spi_error + int) \<times> store" where
  "Redrive now s queue sel =
     (let selected = selectDead s queue sel in
      (Inr (int (length selected)), redriveLoop now (map fst selected) s))"

fun purgeLoop :: "(task_id \<times> taskrec) list \<Rightarrow> store \<Rightarrow> store" where
  "purgeLoop [] s = s"
| "purgeLoop ((k, r) # rs) s = purgeLoop rs (s\<lparr>tasks := AList.delete (ID (env r)) (tasks s)\<rparr>)"

definition Purge :: "store \<Rightarrow> string \<Rightarrow> selector \<Rightarrow> (spi_error + int) \<times> store" where
  "Purge s queue sel =
     (let selected = selectDead s queue sel in
      (Inr (int (length selected)), purgeLoop selected s))"

section \<open>Operations\<close>

fun statsLoop :: "string \<Rightarrow> taskrec gomap \<Rightarrow> stats \<Rightarrow> time option \<Rightarrow> stats \<times> time option" where
  "statsLoop queue [] st old = (st, old)"
| "statsLoop queue ((k, r) # rs) st old =
     (if Queue (env r) \<noteq> queue then statsLoop queue rs st old
      else if Status (env r) = StatusPending then
        statsLoop queue rs (st\<lparr>Pending := Pending st + 1\<rparr>)
          (case old of None \<Rightarrow> Some (CreatedAt (env r))
           | Some o' \<Rightarrow> if CreatedAt (env r) < o' then Some (CreatedAt (env r)) else Some o')
      else if Status (env r) = StatusInFlight then
        statsLoop queue rs (st\<lparr>InFlight := InFlight st + 1\<rparr>) old
      else if Status (env r) = StatusDead then
        statsLoop queue rs (st\<lparr>DLQDepth := DLQDepth st + 1\<rparr>) old
      else statsLoop queue rs st old)"

definition Stats :: "time \<Rightarrow> store \<Rightarrow> string \<Rightarrow> spi_error + stats" where
  "Stats now s queue =
     (let (st, old) = statsLoop queue (tasks s)
            \<lparr>Pending = 0, InFlight = 0, DLQDepth = 0, OldestPendingAge = 0\<rparr> None
      in Inr (case old of None \<Rightarrow> st
         | Some o' \<Rightarrow> let age = time_sub now o' in
             if age > 0 then st\<lparr>OldestPendingAge := age\<rparr> else st))"

definition purgeableSucceeded :: "string \<Rightarrow> time \<Rightarrow> taskrec \<Rightarrow> bool" where
  "purgeableSucceeded queue olderThan r \<longleftrightarrow>
     \<not> (Queue (env r) \<noteq> queue \<or> Status (env r) \<noteq> StatusSucceeded) \<and> terminalAt r < olderThan"

definition PurgeSucceeded :: "store \<Rightarrow> string \<Rightarrow> time \<Rightarrow> (spi_error + int) \<times> store" where
  "PurgeSucceeded s queue olderThan =
     (Inr (int (length (filter (\<lambda>(k, r). purgeableSucceeded queue olderThan r) (tasks s)))),
      s\<lparr>tasks := filter (\<lambda>(k, r). \<not> purgeableSucceeded queue olderThan r) (tasks s)\<rparr>)"

definition Capabilities :: capabilities where
  "Capabilities = \<lparr>Notify = False, FilterPushdown = False, BatchEnqueue = False\<rparr>"

text \<open>The store as a value of the \<open>spi.Storage\<close> interface.\<close>

definition memstore :: "store storage" where
  "memstore = \<lparr>st_Enqueue = Enqueue, st_ClaimDue = ClaimDue, st_ExtendLease = ExtendLease,
     st_Reschedule = Reschedule, st_Complete = Complete, st_DeadLetter = DeadLetter,
     st_DLQList = DLQList, st_Get = Get, st_Redrive = Redrive, st_Purge = Purge,
     st_Stats = Stats, st_PurgeSucceeded = PurgeSucceeded, st_Capabilities = Capabilities\<rparr>"

end
