(* ===== verification/Memstore_Inv.thy ===== *)
theory Memstore_Inv
  imports Memstore
begin

text \<open>
  The well-formedness invariant of the in-memory store and its preservation by every
  operation: what a record's status says about its lease, its fencing token, its due time
  and its dead-letter sequence number, and that no two live claims share a token and no
  two dead letters a sequence number. The lemmas on \<open>claimLoop\<close>, \<open>redriveLoop\<close> and
  \<open>purgeLoop\<close> give the effect of each loop on a lookup by id.
\<close>

section \<open>The invariant\<close>

definition wf_rec :: "store \<Rightarrow> task_id \<Rightarrow> taskrec \<Rightarrow> bool" where
  "wf_rec s k r \<longleftrightarrow>
     ID (env r) = k \<and> Status_Valid (Status (env r)) \<and>
     (Status (env r) = StatusPending \<longrightarrow> NextAttemptAt (env r) \<noteq> None) \<and>
     (Status (env r) = StatusInFlight \<longrightarrow> LeaseExpiresAt (env r) \<noteq> None \<and>
        (\<exists>n \<in> {1..unat (claimSeq s)}. token r = ''ct-'' @ FormatUint n)) \<and>
     (Status (env r) \<noteq> StatusInFlight \<longrightarrow> LeaseExpiresAt (env r) = None \<and> token r = []) \<and>
     (Status (env r) = StatusDead \<longrightarrow> 0 < rdlqSeq r \<and> rdlqSeq r \<le> dlqSeq s) \<and>
     0 \<le> AttemptCount (env r) \<and> AttemptCount (env r) \<le> int (length (Attempts (env r))) \<and>
     0 \<le> RedriveCount (env r) \<and>
     (RedriveCount (env r) = 0 \<longrightarrow> AttemptCount (env r) = int (length (Attempts (env r))))"

definition apart :: "taskrec \<Rightarrow> taskrec \<Rightarrow> bool" where
  "apart r r' \<longleftrightarrow>
     (Status (env r) = StatusInFlight \<and> Status (env r') = StatusInFlight \<longrightarrow> token r \<noteq> token r') \<and>
     (Status (env r) = StatusDead \<and> Status (env r') = StatusDead \<longrightarrow> rdlqSeq r \<noteq> rdlqSeq r')"

definition wf_store :: "store \<Rightarrow> bool" where
  "wf_store s \<longleftrightarrow>
     distinct (map fst (tasks s)) \<and>
     (\<forall>(k, r) \<in> set (tasks s). wf_rec s k r) \<and>
     (\<forall>(k, r) \<in> set (tasks s). \<forall>(k', r') \<in> set (tasks s). k \<noteq> k' \<longrightarrow> apart r r')"

text \<open>What \<open>Submit\<close> builds and a client hands to \<open>Enqueue\<close>: a pending task with a due time
  and no history.\<close>

definition fresh_task :: "envelope \<Rightarrow> bool" where
  "fresh_task e \<longleftrightarrow>
     Status e = StatusPending \<and> NextAttemptAt e \<noteq> None \<and> LeaseExpiresAt e = None \<and>
     AttemptCount e = 0 \<and> RedriveCount e = 0 \<and> Attempts e = []"

section \<open>Clones\<close>

lemma cloneBytes_eq [simp]: "cloneBytes b = b"
  by (simp add: cloneBytes_def)

lemma cloneRawMap_eq [simp]: "cloneRawMap m = m"
  by (induction m) (auto simp: cloneRawMap_def)

lemma map_option_cloneBytes [simp]: "map_option cloneBytes b = b"
  by (cases b) simp_all

lemma cloneAttempt_eq [simp]: "cloneAttempt a = a"
  by (cases a) (auto simp: cloneAttempt_def clonePtrTime_def split: option.splits)

lemma cloneEnvelope_eq [simp]: "cloneEnvelope e = e"
proof -
  have "map cloneAttempt as = as" for as by (induction as) simp_all
  then show ?thesis
    by (cases e) (auto simp: cloneEnvelope_def clonePtrTime_def clonePtrString_def
        cloneStringMap_def split: option.splits)
qed

section \<open>Lookups and writes\<close>

lemma lookup_put [simp]: "lookup (put s k r) k' = (if k' = k then Some r else lookup s k')"
  by (simp add: put_def)

lemma put_seqs [simp]: "claimSeq (put s k r) = claimSeq s" "dlqSeq (put s k r) = dlqSeq s"
  by (simp_all add: put_def)

lemma distinct_put [simp]:
  "distinct (map fst (tasks s)) \<Longrightarrow> distinct (map fst (tasks (put s k r)))"
  by (simp add: put_def distinct_update)

lemma in_tasks_lookup:
  "distinct (map fst (tasks s)) \<Longrightarrow> (k, r) \<in> set (tasks s) \<longleftrightarrow> lookup s k = Some r"
  by (simp add: map_of_eq_Some_iff)

lemma wf_store_lookup:
  "wf_store s \<longleftrightarrow> distinct (map fst (tasks s)) \<and>
     (\<forall>k r. lookup s k = Some r \<longrightarrow> wf_rec s k r) \<and>
     (\<forall>k r k' r'. lookup s k = Some r \<longrightarrow> lookup s k' = Some r' \<longrightarrow> k \<noteq> k' \<longrightarrow> apart r r')"
proof (cases "distinct (map fst (tasks s))")
  case True
  then show ?thesis
    by (simp add: wf_store_def split_beta' in_tasks_lookup [OF True, symmetric]) fastforce
next
  case False
  then show ?thesis by (simp add: wf_store_def)
qed

lemma wf_storeD:
  assumes "wf_store s"
  shows "distinct (map fst (tasks s))"
    and "lookup s k = Some r \<Longrightarrow> wf_rec s k r"
    and "lookup s k = Some r \<Longrightarrow> lookup s k' = Some r' \<Longrightarrow> k \<noteq> k' \<Longrightarrow> apart r r'"
  using assms unfolding wf_store_lookup by blast+

lemma wf_rec_mono:
  assumes "wf_rec s k r" "claimSeq s \<le> claimSeq s'" "dlqSeq s \<le> dlqSeq s'"
  shows "wf_rec s' k r"
proof -
  have "unat (claimSeq s) \<le> unat (claimSeq s')"
    using assms(2) by (simp add: word_le_nat_alt)
  then have "{1..unat (claimSeq s)} \<subseteq> {1..unat (claimSeq s')}" by auto
  then show ?thesis
    using assms unfolding wf_rec_def by (blast intro: order_trans)
qed

text \<open>A write keeps the store well formed when the new record is, and shares no token and no
  sequence number with the records it leaves alone.\<close>

lemma wf_put:
  assumes wf: "wf_store s"
    and seqs: "claimSeq s \<le> claimSeq s'" "dlqSeq s \<le> dlqSeq s'" "tasks s' = tasks s"
    and new: "wf_rec s' k r"
    and other: "\<And>k' r'. lookup s k' = Some r' \<Longrightarrow> k' \<noteq> k \<Longrightarrow> apart r r'"
  shows "wf_store (put s' k r)"
proof -
  have mono: "wf_rec (put s' k r) k' r'" if "wf_rec s' k' r'" for k' r'
    using that by (rule wf_rec_mono) simp_all
  have sym: "apart a b \<Longrightarrow> apart b a" for a b
    by (auto simp: apart_def)
  show ?thesis
    unfolding wf_store_lookup
    using wf_storeD [OF wf] seqs new other mono sym wf_rec_mono [OF _ seqs(1,2)]
    by (simp split: if_splits)
qed

lemma wf_New: "wf_store New"
  by (simp add: wf_store_def New_def)

section \<open>Claims\<close>

lemma resolveClaim_Inr:
  "resolveClaim s k tok = Inr r \<longleftrightarrow>
     lookup s k = Some r \<and> Status (env r) = StatusInFlight \<and> token r = tok \<and> tok \<noteq> []"
  by (auto simp: resolveClaim_def split: option.splits)

lemma resolveClaim_cases:
  obtains (stale) "resolveClaim s k tok = Inl ErrStaleClaim"
  | (live) r where "resolveClaim s k tok = Inr r" "lookup s k = Some r"
      "Status (env r) = StatusInFlight" "token r = tok" "tok \<noteq> []"
  by (cases "resolveClaim s k tok") (auto simp: resolveClaim_def split: option.splits if_splits)

lemma claimToken_inj: "claimToken a = claimToken b \<longleftrightarrow> a = b"
  by (simp add: claimToken_def FormatUint_inj word_unat_eq_iff)

lemma claimToken_nonempty [simp]: "claimToken a \<noteq> []"
  by (simp add: claimToken_def)

lemma appendAttempt_simps [simp]:
  "Attempts (env (appendAttempt r a)) = Attempts (env r) @ [a]"
  "AttemptCount (env (appendAttempt r a)) = AttemptCount (env r) + 1"
  "ID (env (appendAttempt r a)) = ID (env r)"
  "Queue (env (appendAttempt r a)) = Queue (env r)"
  "Status (env (appendAttempt r a)) = Status (env r)"
  "RedriveCount (env (appendAttempt r a)) = RedriveCount (env r)"
  "NextAttemptAt (env (appendAttempt r a)) = NextAttemptAt (env r)"
  "LeaseExpiresAt (env (appendAttempt r a)) = LeaseExpiresAt (env r)"
  "token (appendAttempt r a) = token r" "rdlqSeq (appendAttempt r a) = rdlqSeq r"
  "terminalAt (appendAttempt r a) = terminalAt r" "claimedAt (appendAttempt r a) = claimedAt r"
  by (simp_all add: appendAttempt_def)

lemma claimRec_simps [simp]:
  "Status (env (claimRec now l tok r)) = StatusInFlight"
  "LeaseExpiresAt (env (claimRec now l tok r)) = Some (now + l)"
  "token (claimRec now l tok r) = tok"
  "claimedAt (claimRec now l tok r) = now"
  "ID (env (claimRec now l tok r)) = ID (env r)"
  "Queue (env (claimRec now l tok r)) = Queue (env r)"
  "NextAttemptAt (env (claimRec now l tok r)) = NextAttemptAt (env r)"
  "RedriveCount (env (claimRec now l tok r)) = RedriveCount (env r)"
  "rdlqSeq (claimRec now l tok r) = rdlqSeq r"
  "terminalAt (claimRec now l tok r) = terminalAt r"
  by (simp_all add: claimRec_def Let_def)

lemma claimRec_history:
  "Attempts (env (claimRec now l tok r)) =
     Attempts (env r) @ (if Status (env r) = StatusInFlight then [leaseExpiredAttempt r now] else [])"
  "AttemptCount (env (claimRec now l tok r)) =
     AttemptCount (env r) + (if Status (env r) = StatusInFlight then 1 else 0)"
  by (simp_all add: claimRec_def Let_def)

section \<open>The claiming loop\<close>

lemma claimLoop_Cons:
  "claimLoop now l ((k, r) # due) s =
     (let seq = claimSeq s + 1; r' = claimRec now l (claimToken seq) r;
          rest = claimLoop now l due (put (s\<lparr>claimSeq := seq\<rparr>) k r')
      in (\<lparr>Task = env r', Token = claimToken seq\<rparr> # fst rest, snd rest))"
  by (simp add: Let_def split_beta)

declare claimLoop.simps(2) [simp del]

lemma claimLoop_seqs [simp]:
  "claimSeq (snd (claimLoop now l due s)) = claimSeq s + of_nat (length due)"
  "dlqSeq (snd (claimLoop now l due s)) = dlqSeq s"
  by (induction due arbitrary: s) (auto simp: claimLoop_Cons Let_def)

lemma length_claimLoop [simp]: "length (fst (claimLoop now l due s)) = length due"
  by (induction due arbitrary: s) (auto simp: claimLoop_Cons Let_def)

lemma distinct_claimLoop:
  "distinct (map fst (tasks s)) \<Longrightarrow> distinct (map fst (tasks (snd (claimLoop now l due s))))"
  by (induction due arbitrary: s) (auto simp: claimLoop_Cons Let_def)

lemma claimLoop_nth:
  "i < length due \<Longrightarrow> fst (claimLoop now l due s) ! i =
     (let tok = claimToken (claimSeq s + of_nat (Suc i))
      in \<lparr>Task = env (claimRec now l tok (snd (due ! i))), Token = tok\<rparr>)"
proof (induction due arbitrary: s i)
  case (Cons kr due)
  then show ?case
    by (cases kr; cases i) (simp_all add: claimLoop_Cons Let_def add.assoc)
qed simp

lemma claimLoop_other:
  "k \<notin> fst ` set due \<Longrightarrow> lookup (snd (claimLoop now l due s)) k = lookup s k"
  by (induction due arbitrary: s) (auto simp: claimLoop_Cons Let_def)

lemma claimLoop_lookup:
  "distinct (map fst due) \<Longrightarrow> i < length due \<Longrightarrow>
     lookup (snd (claimLoop now l due s)) (fst (due ! i)) =
       Some (claimRec now l (claimToken (claimSeq s + of_nat (Suc i))) (snd (due ! i)))"
proof (induction due arbitrary: s i)
  case (Cons kr due)
  then show ?case
    by (cases kr; cases i) (simp_all add: claimLoop_Cons Let_def claimLoop_other add.assoc)
qed simp

lemma wf_claimRec:
  assumes "wf_rec s k r" "claimSeq s' = claimSeq s + 1" "unat (claimSeq s) + 1 < 2 ^ 64"
    "dlqSeq s' = dlqSeq s"
  shows "wf_rec s' k (claimRec now l (claimToken (claimSeq s')) r)"
proof -
  have "unat (claimSeq s') = unat (claimSeq s) + 1"
    using assms(2,3) by (simp add: unat_word_ariths)
  moreover have "claimToken (claimSeq s') = ''ct-'' @ FormatUint (unat (claimSeq s'))"
    by (simp add: claimToken_def)
  ultimately have "\<exists>n \<in> {1..unat (claimSeq s')}. claimToken (claimSeq s') = ''ct-'' @ FormatUint n"
    by (intro bexI [where x = "unat (claimSeq s')"]) auto
  then show ?thesis
    using assms(1) by (auto simp: wf_rec_def Status_Valid_def claimRec_history)
qed

text \<open>The token minted next is not the token of any record of a well-formed store.\<close>

lemma next_token_fresh:
  assumes "wf_store s" "lookup s k = Some r" "unat (claimSeq s) + 1 < 2 ^ 64"
  shows "token r \<noteq> claimToken (claimSeq s + 1)"
proof
  assume eq: "token r = claimToken (claimSeq s + 1)"
  have u: "unat (claimSeq s + 1) = unat (claimSeq s) + 1"
    using assms(3) by (simp add: unat_word_ariths)
  have "wf_rec s k r"
    using assms by (auto intro: wf_storeD)
  then show False
    using eq u unfolding wf_rec_def
    by (cases "Status (env r) = StatusInFlight") (auto simp: claimToken_def FormatUint_inj)
qed

lemma wf_claim_step:
  assumes "wf_store s" "lookup s k = Some r" "unat (claimSeq s) + 1 < 2 ^ 64"
    "Status (env r) = StatusPending \<or> Status (env r) = StatusInFlight"
  shows "wf_store (put (s\<lparr>claimSeq := claimSeq s + 1\<rparr>) k
           (claimRec now l (claimToken (claimSeq s + 1)) r))"
proof (rule wf_put [OF assms(1)])
  have "unat (claimSeq s) \<le> unat (claimSeq s + 1)"
    using assms(3) by (simp add: unat_word_ariths)
  then show "claimSeq s \<le> claimSeq (s\<lparr>claimSeq := claimSeq s + 1\<rparr>)"
    by (simp add: word_le_nat_alt)
  show "wf_rec (s\<lparr>claimSeq := claimSeq s + 1\<rparr>) k (claimRec now l (claimToken (claimSeq s + 1)) r)"
    using wf_claimRec [of s k r "s\<lparr>claimSeq := claimSeq s + 1\<rparr>"] assms wf_storeD(2) by simp
  show "apart (claimRec now l (claimToken (claimSeq s + 1)) r) r'"
    if "lookup s k' = Some r'" "k' \<noteq> k" for k' r'
    using next_token_fresh [OF assms(1) that(1) assms(3)] by (auto simp: apart_def)
qed simp_all

lemma wf_claimLoop:
  assumes "wf_store s" "distinct (map fst due)"
    "\<And>k r. (k, r) \<in> set due \<Longrightarrow> lookup s k = Some r \<and>
       (Status (env r) = StatusPending \<or> Status (env r) = StatusInFlight)"
    "unat (claimSeq s) + length due < 2 ^ 64"
  shows "wf_store (snd (claimLoop now l due s))"
  using assms
proof (induction due arbitrary: s)
  case (Cons kr due)
  obtain k r where kr: "kr = (k, r)" by (cases kr)
  let ?s = "put (s\<lparr>claimSeq := claimSeq s + 1\<rparr>) k (claimRec now l (claimToken (claimSeq s + 1)) r)"
  have u: "unat (claimSeq ?s) = unat (claimSeq s) + 1"
    using Cons.prems(4) by (simp add: unat_word_ariths)
  have "wf_store ?s"
    using Cons.prems kr by (intro wf_claim_step) auto
  then have "wf_store (snd (claimLoop now l due ?s))"
  proof (rule Cons.IH)
    show "distinct (map fst due)" using Cons.prems kr by simp
    show "unat (claimSeq ?s) + length due < 2 ^ 64" using Cons.prems(4) u by simp
    show "lookup ?s k' = Some r' \<and> (Status (env r') = StatusPending \<or> Status (env r') = StatusInFlight)"
      if "(k', r') \<in> set due" for k' r'
      using that Cons.prems kr by (force simp: image_iff)
  qed
  then show ?case by (simp add: kr claimLoop_Cons Let_def)
qed simp

end
