(* ===== verification/Memstore_Ops.thy ===== *)
theory Memstore_Ops
  imports Memstore_Inv
begin

text \<open>
  The effect of each operation of the in-memory store on a lookup by id, and the
  preservation of the well-formedness invariant by each of them.
\<close>

section \<open>Due tasks\<close>

lemma set_dueTasks:
  "set (dueTasks s q now) = {(k, r) \<in> set (tasks s). Queue (env r) = q \<and> isDue r now}"
  by (auto simp: dueTasks_def)

lemma distinct_dueTasks:
  "distinct (map fst (tasks s)) \<Longrightarrow> distinct (map fst (dueTasks s q now))"
  unfolding dueTasks_def by (intro distinct_map_fst_sort distinct_map_fst_filter)

lemma sorted_dueTasks: "sorted (map dueOrder (dueTasks s q now))"
  by (simp add: dueTasks_def)

lemma isDue_status:
  "isDue r now \<Longrightarrow> Status (env r) = StatusPending \<or> Status (env r) = StatusInFlight"
  by (auto simp: isDue_def split: if_splits)

text \<open>The batch a call with a positive limit claims.\<close>

definition batch :: "store \<Rightarrow> string \<Rightarrow> time \<Rightarrow> int \<Rightarrow> (task_id \<times> taskrec) list" where
  "batch s q now limit = take (nat limit) (dueTasks s q now)"

lemma ClaimDue_batch:
  "ClaimDue now s q limit l =
     (Inr (fst (claimLoop now l (batch s q now limit) s)), snd (claimLoop now l (batch s q now limit) s))"
  by (auto simp: ClaimDue_def batch_def Let_def split_beta nat_le_iff)

lemma set_batch:
  assumes "wf_store s" "(k, r) \<in> set (batch s q now limit)"
  shows "lookup s k = Some r" "Queue (env r) = q" "isDue r now"
proof -
  have "(k, r) \<in> set (dueTasks s q now)"
    using assms(2) unfolding batch_def by (rule in_set_takeD)
  then have "(k, r) \<in> set (tasks s)" and *: "Queue (env r) = q" "isDue r now"
    by (auto simp: set_dueTasks)
  then show "lookup s k = Some r"
    using in_tasks_lookup [OF wf_storeD(1) [OF assms(1)]] by simp
  show "Queue (env r) = q" "isDue r now"
    by (fact *)+
qed

lemma distinct_batch: "wf_store s \<Longrightarrow> distinct (map fst (batch s q now limit))"
  unfolding batch_def take_map [symmetric]
  by (intro distinct_take distinct_dueTasks wf_storeD(1))

lemma length_batch: "length (batch s q now limit) \<le> length (tasks s)"
  by (simp add: batch_def dueTasks_def min.coboundedI1)

text \<open>Room left in the claim counter: the counter does not reach \<open>2 ^ 64\<close> in this call.\<close>

definition claim_room :: "store \<Rightarrow> bool" where
  "claim_room s \<longleftrightarrow> unat (claimSeq s) + length (tasks s) < 2 ^ 64"

lemma ClaimDue_lookup:
  assumes "wf_store s"
  shows "lookup (snd (ClaimDue now s q limit l)) k =
    (case lookup s k of None \<Rightarrow> None
     | Some r \<Rightarrow> if (k, r) \<in> set (batch s q now limit)
         then Some (claimRec now l (claimToken (claimSeq s +
           of_nat (Suc (LEAST i. batch s q now limit ! i = (k, r))))) r) else Some r)"
proof (cases "\<exists>r. (k, r) \<in> set (batch s q now limit)")
  case True
  let ?b = "batch s q now limit"
  obtain r where r: "(k, r) \<in> set ?b" using True by blast
  let ?i = "LEAST i. ?b ! i = (k, r)"
  obtain j where j: "j < length ?b" "?b ! j = (k, r)" using r by (auto simp: in_set_conv_nth)
  then have i: "?b ! ?i = (k, r)" "?i < length ?b"
    by (auto intro: LeastI Least_le [THEN le_less_trans])
  show ?thesis
    using claimLoop_lookup [OF distinct_batch [OF assms] i(2), of now l s] i(1) r
      set_batch(1) [OF assms r] by (simp add: ClaimDue_batch)
next
  case False
  then have "k \<notin> fst ` set (batch s q now limit)" by auto
  then show ?thesis
    using False by (auto simp: ClaimDue_batch claimLoop_other split: option.splits)
qed

lemma wf_ClaimDue [wf_intros]:
  assumes "wf_store s" "claim_room s"
  shows "wf_store (snd (ClaimDue now s q limit l))"
  unfolding ClaimDue_batch snd_conv
proof (rule wf_claimLoop [OF assms(1) distinct_batch [OF assms(1)]])
  show "unat (claimSeq s) + length (batch s q now limit) < 2 ^ 64"
    using length_batch [of s q now limit] assms(2) by (simp add: claim_room_def)
qed (use set_batch [OF assms(1)] isDue_status in blast)

section \<open>Enqueue\<close>

lemma Enqueue_lookup:
  "lookup (snd (Enqueue s e)) k =
    (if k = ID e \<and> lookup s k = None then
       Some \<lparr>env = e, token = [], claimedAt = time_zero, rdlqSeq = 0, terminalAt = time_zero\<rparr>
     else lookup s k)"
  by (auto simp: Enqueue_def split: option.splits)

lemma wf_Enqueue [wf_intros]:
  assumes "wf_store s" "fresh_task e"
  shows "wf_store (snd (Enqueue s e))"
proof (cases "lookup s (ID e)")
  case None
  let ?r = "\<lparr>env = e, token = [], claimedAt = time_zero, rdlqSeq = 0, terminalAt = time_zero\<rparr>"
  have "wf_store (put s (ID e) ?r)"
    using assms by (intro wf_put [OF assms(1)])
      (auto simp: wf_rec_def fresh_task_def Status_Valid_def apart_def)
  then show ?thesis by (simp add: Enqueue_def None)
next
  case (Some r)
  then show ?thesis using assms(1) by (simp add: Enqueue_def)
qed

section \<open>Outcome writes\<close>

text \<open>The record each outcome write leaves for a live claim.\<close>

definition rescheduled :: "attempt \<Rightarrow> time \<Rightarrow> taskrec \<Rightarrow> taskrec" where
  "rescheduled att nextAt r = (let r1 = appendAttempt r att in
     r1\<lparr>env := (env r1)\<lparr>Status := StatusPending, NextAttemptAt := Some nextAt,
       LeaseExpiresAt := None\<rparr>, token := []\<rparr>)"

definition completed :: "time \<Rightarrow> attempt \<Rightarrow> taskrec \<Rightarrow> taskrec" where
  "completed now att r = (let r1 = appendAttempt r att in
     r1\<lparr>env := (env r1)\<lparr>Status := StatusSucceeded, NextAttemptAt := None,
       LeaseExpiresAt := None\<rparr>, token := [], terminalAt := now\<rparr>)"

definition deadLettered :: "time \<Rightarrow> 64 word \<Rightarrow> attempt \<Rightarrow> taskrec \<Rightarrow> taskrec" where
  "deadLettered now seq att r = (let r1 = appendAttempt r att in
     r1\<lparr>env := (env r1)\<lparr>Status := StatusDead, NextAttemptAt := None,
       LeaseExpiresAt := None\<rparr>, token := [], rdlqSeq := seq, terminalAt := now\<rparr>)"

definition extended :: "time \<Rightarrow> duration \<Rightarrow> taskrec \<Rightarrow> taskrec" where
  "extended now lease r = r\<lparr>env := (env r)\<lparr>LeaseExpiresAt := Some (now + lease)\<rparr>\<rparr>"

lemmas record_effects = rescheduled_def completed_def deadLettered_def extended_def redriveRec_def

lemma outcome_stale:
  assumes "resolveClaim s k tok = Inl e"
  shows "ExtendLease now s k tok l = (Some e, s)" "Reschedule s k tok att t = (Some e, s)"
    "Complete now s k tok att = (Some e, s)" "DeadLetter now s k tok att = (Some e, s)"
  using assms
  by (simp_all add: ExtendLease_def Reschedule_def Complete_def DeadLetter_def)

lemma outcome_live:
  assumes "resolveClaim s k tok = Inr r"
  shows "ExtendLease now s k tok l = (None, put s k (extended now l r))"
    "Reschedule s k tok att t = (None, put s k (rescheduled att t r))"
    "Complete now s k tok att = (None, put s k (completed now att r))"
    "DeadLetter now s k tok att =
       (None, put (s\<lparr>dlqSeq := dlqSeq s + 1\<rparr>) k (deadLettered now (dlqSeq s + 1) att r))"
  using assms
  by (simp_all add: ExtendLease_def Reschedule_def Complete_def DeadLetter_def record_effects Let_def)

text \<open>Every write through a claim either is refused and changes nothing, or replaces the one
  record; the invariant follows from that of the new record.\<close>

lemma wf_live_put:
  assumes "wf_store s" "resolveClaim s k tok = Inr r"
    and "ID (env r') = ID (env r)" "Status_Valid (Status (env r'))"
    and "Status (env r') = StatusPending \<Longrightarrow> NextAttemptAt (env r') \<noteq> None"
    and "Status (env r') = StatusInFlight \<Longrightarrow> LeaseExpiresAt (env r') \<noteq> None \<and> token r' = token r"
    and "Status (env r') \<noteq> StatusInFlight \<Longrightarrow> LeaseExpiresAt (env r') = None \<and> token r' = []"
    and "Status (env r') \<noteq> StatusDead" "RedriveCount (env r') = RedriveCount (env r)"
    and "Attempts (env r') = Attempts (env r) @ as"
    and "AttemptCount (env r') = AttemptCount (env r) + int (length as)"
  shows "wf_store (put s k r')"
proof (rule wf_put [OF assms(1)])
  have r: "lookup s k = Some r" "Status (env r) = StatusInFlight"
    using assms(2) by (simp_all add: resolveClaim_Inr)
  have "wf_rec s k r" using wf_storeD(2) [OF assms(1) r(1)] .
  then show "wf_rec s k r'"
    using assms(3-) r(2) unfolding wf_rec_def by auto
  show "apart r' r2" if "lookup s k' = Some r2" "k' \<noteq> k" for k' r2
    using wf_storeD(3) [OF assms(1) r(1) that(1)] that assms r(2) unfolding apart_def by auto
qed simp_all

lemma wf_ExtendLease [wf_intros]: "wf_store s \<Longrightarrow> wf_store (snd (ExtendLease now s k tok l))"
  by (cases "resolveClaim s k tok")
    (auto simp: outcome_stale outcome_live extended_def resolveClaim_Inr Status_Valid_def
      intro!: wf_live_put [where as = "[]"])

lemma wf_Reschedule [wf_intros]: "wf_store s \<Longrightarrow> wf_store (snd (Reschedule s k tok att t))"
  by (cases "resolveClaim s k tok")
    (auto simp: outcome_stale outcome_live rescheduled_def Let_def Status_Valid_def
      intro!: wf_live_put [where as = "[att]"])

lemma wf_Complete [wf_intros]: "wf_store s \<Longrightarrow> wf_store (snd (Complete now s k tok att))"
  by (cases "resolveClaim s k tok")
    (auto simp: outcome_stale outcome_live completed_def Let_def Status_Valid_def
      intro!: wf_live_put [where as = "[att]"])

text \<open>Room left in the dead-letter counter.\<close>

definition dlq_room :: "store \<Rightarrow> bool" where
  "dlq_room s \<longleftrightarrow> unat (dlqSeq s) + 1 < 2 ^ 64"

lemma dlqSeq_next:
  assumes "dlq_room s"
  shows "dlqSeq s < dlqSeq s + 1" "dlqSeq s \<le> dlqSeq s + 1" "0 < dlqSeq s + 1"
proof -
  have "unat (dlqSeq s + 1) = unat (dlqSeq s) + 1"
    using assms by (simp add: dlq_room_def unat_word_ariths)
  then show "dlqSeq s < dlqSeq s + 1" "dlqSeq s \<le> dlqSeq s + 1" "0 < dlqSeq s + 1"
    by (simp_all add: word_less_nat_alt word_le_nat_alt)
qed

lemma wf_DeadLetter [wf_intros]:
  assumes "wf_store s" "dlq_room s"
  shows "wf_store (snd (DeadLetter now s k tok att))"
proof (cases "resolveClaim s k tok")
  case (Inr r)
  note n = dlqSeq_next [OF assms(2)]
  have r: "lookup s k = Some r" "Status (env r) = StatusInFlight"
    using Inr by (simp_all add: resolveClaim_Inr)
  have w: "wf_rec s k r" using wf_storeD(2) [OF assms(1) r(1)] .
  let ?r = "deadLettered now (dlqSeq s + 1) att r"
  have "wf_store (put (s\<lparr>dlqSeq := dlqSeq s + 1\<rparr>) k ?r)"
  proof (rule wf_put [OF assms(1)])
    show "wf_rec (s\<lparr>dlqSeq := dlqSeq s + 1\<rparr>) k ?r"
      using w r(2) n by (auto simp: wf_rec_def deadLettered_def Let_def Status_Valid_def)
    show "apart ?r r'" if "lookup s k' = Some r'" "k' \<noteq> k" for k' r'
      using wf_storeD(2) [OF assms(1) that(1)] n(1)
      by (auto simp: apart_def deadLettered_def Let_def wf_rec_def)
  qed (use n in simp_all)
  then show ?thesis by (simp add: outcome_live [OF Inr])
qed (simp add: outcome_stale assms(1))

section \<open>Selection of dead letters\<close>

definition selects :: "selector \<Rightarrow> task_id \<Rightarrow> taskrec \<Rightarrow> bool" where
  "selects sel k r \<longleftrightarrow>
     (if IDs sel \<noteq> [] then k \<in> set (IDs sel)
      else case Filter sel of None \<Rightarrow> False | Some f \<Rightarrow> matchFilter r f)"

lemma set_selectDead:
  assumes "wf_store s"
  shows "(k, r) \<in> set (selectDead s q sel) \<longleftrightarrow>
    lookup s k = Some r \<and> isDead q r \<and> selects sel k r"
proof (cases "IDs sel = []")
  case True
  then show ?thesis
    using in_tasks_lookup [OF wf_storeD(1) [OF assms]]
    by (auto simp: selectDead_def selects_def split: option.splits)
next
  case False
  then show ?thesis
    by (force simp: selectDead_def selects_def List.map_filter_def split: option.splits if_splits)
qed

lemma selected_keys:
  assumes "wf_store s"
  shows "k \<in> fst ` set (selectDead s q sel) \<longleftrightarrow>
    (\<exists>r. lookup s k = Some r \<and> isDead q r \<and> selects sel k r)"
proof -
  have "k \<in> fst ` set (selectDead s q sel) \<longleftrightarrow> (\<exists>r. (k, r) \<in> set (selectDead s q sel))"
    by force
  then show ?thesis by (simp add: set_selectDead [OF assms])
qed

lemma distinct_selectDead:
  assumes "wf_store s" "distinct (IDs sel)"
  shows "distinct (map fst (selectDead s q sel))"
proof (cases "IDs sel = []")
  case True
  then show ?thesis
    using wf_storeD(1) [OF assms(1)] by (auto simp: selectDead_def split: option.splits)
next
  case False
  let ?g = "\<lambda>tid. case lookup s tid of None \<Rightarrow> None
    | Some r \<Rightarrow> if isDead q r then Some (tid, r) else None"
  have "map fst (List.map_filter ?g ids) = filter (\<lambda>t. ?g t \<noteq> None) ids" for ids
    by (induction ids) (auto simp: List.map_filter_def split: option.splits if_splits)
  then show ?thesis
    using False assms(2) by (simp add: selectDead_def)
qed

section \<open>Redrive\<close>

lemma redriveLoop_seqs [simp]:
  "claimSeq (redriveLoop now ks s) = claimSeq s" "dlqSeq (redriveLoop now ks s) = dlqSeq s"
  by (induction ks arbitrary: s) (auto split: option.splits)

lemma redriveLoop_lookup:
  "lookup (redriveLoop now ks s) k =
     map_option (redriveRec now ^^ count_list ks k) (lookup s k)"
proof (induction ks arbitrary: s)
  case (Cons a ks)
  show ?case
    by (cases "lookup s a") (auto simp: Cons.IH funpow_swap1 option.map_comp o_def)
qed (simp add: option.map_id)

lemma wf_redrive_put:
  assumes "wf_store s" "lookup s k = Some r" "Status (env r) = StatusDead \<or> Status (env r) = StatusPending"
  shows "wf_store (put s k (redriveRec now r))"
proof (rule wf_put [OF assms(1)])
  show "wf_rec s k (redriveRec now r)"
    using wf_storeD(2) [OF assms(1,2)] assms(3)
    by (auto simp: wf_rec_def redriveRec_def Status_Valid_def)
qed (auto simp: apart_def redriveRec_def)

lemma wf_redriveLoop:
  assumes "wf_store s" "\<And>k. k \<in> set ks \<Longrightarrow> \<exists>r. lookup s k = Some r \<and>
    (Status (env r) = StatusDead \<or> Status (env r) = StatusPending)"
  shows "wf_store (redriveLoop now ks s)"
  using assms
proof (induction ks arbitrary: s)
  case (Cons a ks)
  obtain r where r: "lookup s a = Some r" "Status (env r) = StatusDead \<or> Status (env r) = StatusPending"
    using Cons.prems(2) [of a] by auto
  have "wf_store (redriveLoop now ks (put s a (redriveRec now r)))"
  proof (rule Cons.IH [OF wf_redrive_put [OF Cons.prems(1) r]])
    show "\<exists>r'. lookup (put s a (redriveRec now r)) k = Some r' \<and>
        (Status (env r') = StatusDead \<or> Status (env r') = StatusPending)" if "k \<in> set ks" for k
      using Cons.prems(2) [of k] that by (auto simp: redriveRec_def)
  qed
  then show ?case by (simp add: r(1))
qed simp

lemma wf_Redrive [wf_intros]:
  assumes "wf_store s"
  shows "wf_store (snd (Redrive now s q sel))"
  unfolding Redrive_def Let_def snd_conv
proof (rule wf_redriveLoop [OF assms])
  fix k assume "k \<in> set (map fst (selectDead s q sel))"
  then show "\<exists>r. lookup s k = Some r \<and> (Status (env r) = StatusDead \<or> Status (env r) = StatusPending)"
    using selected_keys [OF assms, of k q sel] by (auto simp: isDead_def)
qed

section \<open>Removal\<close>

lemma purgeLoop_seqs [simp]:
  "claimSeq (purgeLoop rs s) = claimSeq s" "dlqSeq (purgeLoop rs s) = dlqSeq s"
  by (induction rs arbitrary: s) auto

lemma purgeLoop_lookup:
  "lookup (purgeLoop rs s) k = (if \<exists>(k', r) \<in> set rs. ID (env r) = k then None else lookup s k)"
  by (induction rs arbitrary: s) auto

lemma purgeLoop_distinct:
  "distinct (map fst (tasks s)) \<Longrightarrow> distinct (map fst (tasks (purgeLoop rs s)))"
  by (induction rs arbitrary: s) (auto simp: distinct_delete)

lemma Purge_lookup:
  assumes "wf_store s"
  shows "lookup (snd (Purge s q sel)) k =
    (case lookup s k of None \<Rightarrow> None
     | Some r \<Rightarrow> if isDead q r \<and> selects sel k r then None else Some r)"
proof -
  have "(\<exists>(k', r) \<in> set (selectDead s q sel). ID (env r) = k) \<longleftrightarrow> k \<in> fst ` set (selectDead s q sel)"
  proof -
    have "ID (env r) = k'" if "(k', r) \<in> set (selectDead s q sel)" for k' r
      using that wf_storeD(2) [OF assms] by (auto simp: set_selectDead [OF assms] wf_rec_def)
    then show ?thesis by force
  qed
  then show ?thesis
    by (auto simp: Purge_def Let_def purgeLoop_lookup selected_keys [OF assms] split: option.splits)
qed

text \<open>Dropping records keeps the invariant.\<close>

lemma wf_sub:
  assumes "wf_store s" "distinct (map fst (tasks s'))"
    "claimSeq s' = claimSeq s" "dlqSeq s' = dlqSeq s"
    "\<And>k r. lookup s' k = Some r \<Longrightarrow> lookup s k = Some r"
  shows "wf_store s'"
  unfolding wf_store_lookup
proof (intro conjI allI impI)
  show "wf_rec s' k r" if "lookup s' k = Some r" for k r
    using wf_rec_mono [OF wf_storeD(2) [OF assms(1) assms(5) [OF that]]] assms(3,4) by simp
  show "apart r r'" if "lookup s' k = Some r" "lookup s' k' = Some r'" "k \<noteq> k'" for k r k' r'
    using wf_storeD(3) [OF assms(1) assms(5) [OF that(1)] assms(5) [OF that(2)] that(3)] .
qed (fact assms(2))

lemma wf_Purge [wf_intros]:
  assumes "wf_store s"
  shows "wf_store (snd (Purge s q sel))"
proof (rule wf_sub [OF assms])
  show "lookup s k = Some r" if "lookup (snd (Purge s q sel)) k = Some r" for k r
    using that by (auto simp: Purge_lookup [OF assms] split: option.splits if_splits)
qed (simp_all add: Purge_def Let_def purgeLoop_distinct wf_storeD(1) [OF assms])

lemma PurgeSucceeded_lookup:
  assumes "wf_store s"
  shows "lookup (snd (PurgeSucceeded s q t)) k =
    (case lookup s k of None \<Rightarrow> None
     | Some r \<Rightarrow> if purgeableSucceeded q t r then None else Some r)"
  using wf_storeD(1) [OF assms]
  by (auto simp: PurgeSucceeded_def map_of_filter_distinct split: option.splits)

lemma wf_PurgeSucceeded [wf_intros]:
  assumes "wf_store s"
  shows "wf_store (snd (PurgeSucceeded s q t))"
proof (rule wf_sub [OF assms])
  show "lookup s k = Some r" if "lookup (snd (PurgeSucceeded s q t)) k = Some r" for k r
    using that by (auto simp: PurgeSucceeded_lookup [OF assms] split: option.splits if_splits)
qed (simp_all add: PurgeSucceeded_def wf_storeD(1) [OF assms])

lemma Redrive_lookup:
  assumes "wf_store s" "distinct (IDs sel)"
  shows "lookup (snd (Redrive now s q sel)) k =
    (case lookup s k of None \<Rightarrow> None
     | Some r \<Rightarrow> Some (if isDead q r \<and> selects sel k r then redriveRec now r else r))"
proof -
  let ?ks = "map fst (selectDead s q sel)"
  have "count_list ?ks k = (if k \<in> set ?ks then 1 else 0)"
    using distinct_selectDead [OF assms, of q] by (rule count_list_distinct)
  then show ?thesis
    using selected_keys [OF assms(1), of k q sel]
    by (auto simp: Redrive_def Let_def redriveLoop_lookup split: option.splits)
qed

end
