(* ===== verification/Memstore_Trace.thy ===== *)
theory Memstore_Trace
  imports Memstore_Ops
begin

text \<open>
  Runs of the in-memory store: every method call is an event, a run is a sequence of them in
  the order the mutex serialised them. Each step moves each task along the abstract life
  cycle \<open>task_step\<close>; what holds of all runs follows from that by induction.
\<close>

section \<open>Events and runs\<close>

datatype mem_event =
    EvEnqueue envelope
  | EvClaimDue time string int duration
  | EvExtendLease time task_id claim_token duration
  | EvReschedule task_id claim_token attempt time
  | EvComplete time task_id claim_token attempt
  | EvDeadLetter time task_id claim_token attempt
  | EvRedrive time string selector
  | EvPurge string selector
  | EvPurgeSucceeded string time

fun mem_exec :: "mem_event \<Rightarrow> store \<Rightarrow> store" where
  "mem_exec (EvEnqueue e) s = snd (Enqueue s e)"
| "mem_exec (EvClaimDue now q limit l) s = snd (ClaimDue now s q limit l)"
| "mem_exec (EvExtendLease now k tok l) s = snd (ExtendLease now s k tok l)"
| "mem_exec (EvReschedule k tok att t) s = snd (Reschedule s k tok att t)"
| "mem_exec (EvComplete now k tok att) s = snd (Complete now s k tok att)"
| "mem_exec (EvDeadLetter now k tok att) s = snd (DeadLetter now s k tok att)"
| "mem_exec (EvRedrive now q sel) s = snd (Redrive now s q sel)"
| "mem_exec (EvPurge q sel) s = snd (Purge s q sel)"
| "mem_exec (EvPurgeSucceeded q t) s = snd (PurgeSucceeded s q t)"

text \<open>What the callers guarantee: new tasks are fresh, and the 64-bit counters have room.\<close>

fun mem_guard :: "mem_event \<Rightarrow> store \<Rightarrow> bool" where
  "mem_guard (EvEnqueue e) s = fresh_task e"
| "mem_guard (EvClaimDue now q limit l) s = claim_room s"
| "mem_guard (EvDeadLetter now k tok att) s = dlq_room s"
| "mem_guard _ s = True"

inductive mem_run :: "store \<Rightarrow> mem_event list \<Rightarrow> store \<Rightarrow> bool" where
  run_nil: "mem_run s [] s"
| run_cons: "mem_guard ev s \<Longrightarrow> mem_run (mem_exec ev s) evs s' \<Longrightarrow> mem_run s (ev # evs) s'"

inductive_cases mem_run_ConsE: "mem_run s (ev # evs) s'"
inductive_cases mem_run_NilE: "mem_run s [] s'"

lemma mem_run_append: "mem_run s evs s' \<Longrightarrow> mem_run s' evs' s'' \<Longrightarrow> mem_run s (evs @ evs') s''"
  by (induction rule: mem_run.induct) (auto intro: mem_run.intros)

section \<open>The life cycle of one task\<close>

inductive task_step :: "store \<Rightarrow> taskrec option \<Rightarrow> taskrec option \<Rightarrow> bool" for s where
  ts_refl: "task_step s x x"
| ts_enqueue: "fresh_task e \<Longrightarrow> task_step s None (Some \<lparr>env = e, token = [],
     claimedAt = time_zero, rdlqSeq = 0, terminalAt = time_zero\<rparr>)"
| ts_claim: "isDue r now \<Longrightarrow> unat (claimSeq s) < n \<Longrightarrow>
     task_step s (Some r) (Some (claimRec now l (''ct-'' @ FormatUint n) r))"
| ts_extend: "Status (env r) = StatusInFlight \<Longrightarrow> task_step s (Some r) (Some (extended now l r))"
| ts_reschedule: "Status (env r) = StatusInFlight \<Longrightarrow>
     task_step s (Some r) (Some (rescheduled att t r))"
| ts_complete: "Status (env r) = StatusInFlight \<Longrightarrow>
     task_step s (Some r) (Some (completed now att r))"
| ts_dead: "Status (env r) = StatusInFlight \<Longrightarrow>
     task_step s (Some r) (Some (deadLettered now seq att r))"
| ts_redrive: "Status (env r) = StatusDead \<Longrightarrow> n > 0 \<Longrightarrow>
     task_step s (Some r) (Some ((redriveRec now ^^ n) r))"
| ts_remove: "Status (env r) = StatusDead \<or> Status (env r) = StatusSucceeded \<Longrightarrow>
     task_step s (Some r) None"

lemma task_step_claim:
  assumes "wf_store s" "claim_room s"
  shows "task_step s (lookup s k) (lookup (snd (ClaimDue now s q limit l)) k)"
proof (cases "\<exists>r. (k, r) \<in> set (batch s q now limit)")
  case True
  let ?b = "batch s q now limit"
  obtain r where r: "(k, r) \<in> set ?b" using True by blast
  then obtain i where i: "i < length ?b" "?b ! i = (k, r)" by (auto simp: in_set_conv_nth)
  have "lookup (snd (ClaimDue now s q limit l)) k =
      Some (claimRec now l (claimToken (claimSeq s + of_nat (Suc i))) r)"
    using claimLoop_lookup [OF distinct_batch [OF assms(1)] i(1), of now l s] i(2)
    by (simp add: ClaimDue_batch)
  moreover have "unat (claimSeq s + of_nat (Suc i)) = unat (claimSeq s) + Suc i"
    using i(1) length_batch [of s q now limit] assms(2)
    by (intro unat_add_of_nat) (simp add: claim_room_def)
  ultimately show ?thesis
    using set_batch [OF assms(1) r] task_step.ts_claim [of r now s "unat (claimSeq s) + Suc i" l]
    by (simp add: claimToken_def)
next
  case False
  then have "k \<notin> fst ` set (batch s q now limit)" by auto
  then show ?thesis by (simp add: ClaimDue_batch claimLoop_other task_step.ts_refl)
qed

lemma task_step_outcome:
  "task_step s (lookup s k) (lookup (snd (ExtendLease now s k' tok l)) k)"
  "task_step s (lookup s k) (lookup (snd (Reschedule s k' tok att t)) k)"
  "task_step s (lookup s k) (lookup (snd (Complete now s k' tok att)) k)"
  "task_step s (lookup s k) (lookup (snd (DeadLetter now s k' tok att)) k)"
  by (cases "resolveClaim s k' tok";
      auto simp: outcome_stale outcome_live resolveClaim_Inr intro: task_step.intros)+

lemma task_step_Redrive:
  assumes "wf_store s"
  shows "task_step s (lookup s k) (lookup (snd (Redrive now s q sel)) k)"
proof -
  let ?ks = "map fst (selectDead s q sel)"
  have l: "lookup (snd (Redrive now s q sel)) k =
      map_option (redriveRec now ^^ count_list ?ks k) (lookup s k)"
    by (simp add: Redrive_def Let_def redriveLoop_lookup)
  show ?thesis
  proof (cases "k \<in> set ?ks")
    case True
    then obtain r where r: "lookup s k = Some r" "isDead q r"
      using selected_keys [OF assms] by auto
    moreover have "count_list ?ks k > 0"
      using True by (simp add: count_list_0_iff flip: neq0_conv)
    ultimately show ?thesis
      by (simp add: l isDead_def task_step.ts_redrive)
  next
    case False
    then show ?thesis
      by (simp add: l count_notin option.map_id task_step.ts_refl)
  qed
qed

lemma task_step_exec:
  assumes "wf_store s" "mem_guard ev s"
  shows "task_step s (lookup s k) (lookup (mem_exec ev s) k)"
proof (cases ev)
  case (EvEnqueue e)
  then show ?thesis using assms(2) by (auto simp: Enqueue_lookup intro: task_step.intros)
next
  case (EvPurge q sel)
  then show ?thesis
    by (auto simp: Purge_lookup [OF assms(1)] isDead_def split: option.splits intro: task_step.intros)
next
  case (EvPurgeSucceeded q t)
  then show ?thesis
    by (auto simp: PurgeSucceeded_lookup [OF assms(1)] purgeableSucceeded_def
        split: option.splits intro: task_step.intros)
qed (use assms in \<open>auto simp: task_step_claim task_step_outcome task_step_Redrive\<close>)

lemma wf_exec:
  assumes "wf_store s" "mem_guard ev s"
  shows "wf_store (mem_exec ev s)"
  using assms by (cases ev) (auto intro: wf_intros)

lemma wf_run: "mem_run s evs s' \<Longrightarrow> wf_store s \<Longrightarrow> wf_store s'"
  by (induction rule: mem_run.induct) (auto intro: wf_exec)

lemma claimSeq_exec:
  assumes "wf_store s" "mem_guard ev s"
  shows "unat (claimSeq s) \<le> unat (claimSeq (mem_exec ev s))"
proof (cases ev)
  case (EvClaimDue now q limit l)
  have "unat (claimSeq s + of_nat (length (batch s q now limit))) =
      unat (claimSeq s) + length (batch s q now limit)"
    using assms(2) EvClaimDue length_batch [of s q now limit]
    by (intro unat_add_of_nat) (simp add: claim_room_def)
  then show ?thesis by (simp add: EvClaimDue ClaimDue_batch)
next
  case (EvEnqueue e)
  then show ?thesis by (simp add: Enqueue_def split: option.splits)
next
  case (EvExtendLease now k tok l)
  then show ?thesis by (cases "resolveClaim s k tok") (simp_all add: outcome_stale outcome_live)
next
  case (EvReschedule k tok att t)
  then show ?thesis by (cases "resolveClaim s k tok") (simp_all add: outcome_stale outcome_live)
next
  case (EvComplete now k tok att)
  then show ?thesis by (cases "resolveClaim s k tok") (simp_all add: outcome_stale outcome_live)
next
  case (EvDeadLetter now k tok att)
  then show ?thesis by (cases "resolveClaim s k tok") (simp_all add: outcome_stale outcome_live)
qed (simp_all add: Redrive_def Purge_def PurgeSucceeded_def Let_def)

section \<open>A claim that is not live never becomes live again\<close>

definition minted :: "store \<Rightarrow> claim_token \<Rightarrow> bool" where
  "minted s tok \<longleftrightarrow> (\<exists>n \<le> unat (claimSeq s). tok = ''ct-'' @ FormatUint n)"

definition live :: "taskrec option \<Rightarrow> claim_token \<Rightarrow> bool" where
  "live x tok \<longleftrightarrow> (\<exists>r. x = Some r \<and> Status (env r) = StatusInFlight \<and> token r = tok)"

lemma resolveClaim_live:
  "tok \<noteq> [] \<Longrightarrow> resolveClaim s k tok = Inl ErrStaleClaim \<longleftrightarrow> \<not> live (lookup s k) tok"
  by (auto simp: live_def resolveClaim_def split: option.splits)

lemma redriveRec_pow_simps:
  assumes "n > 0"
  shows "Status (env ((redriveRec now ^^ n) r)) = StatusPending"
    "Attempts (env ((redriveRec now ^^ n) r)) = Attempts (env r)"
    "RedriveCount (env ((redriveRec now ^^ n) r)) = RedriveCount (env r) + int n"
    "AttemptCount (env ((redriveRec now ^^ n) r)) = 0"
    "NextAttemptAt (env ((redriveRec now ^^ n) r)) = Some now"
  using assms by (induction n rule: nat_induct_non_zero) (simp_all add: redriveRec_def)

lemma task_step_live:
  assumes "task_step s x y" "\<not> live x tok" "minted s tok"
  shows "\<not> live y tok"
  using assms
proof cases
  case (ts_claim r now n l)
  then show ?thesis using assms(3) by (auto simp: live_def minted_def FormatUint_inj)
qed (auto simp: live_def extended_def rescheduled_def completed_def deadLettered_def Let_def
    fresh_task_def redriveRec_pow_simps)

lemma minted_exec: "wf_store s \<Longrightarrow> mem_guard ev s \<Longrightarrow> minted s tok \<Longrightarrow> minted (mem_exec ev s) tok"
  unfolding minted_def using claimSeq_exec order_trans by blast

lemma stale_forever:
  assumes "mem_run s evs s'" "wf_store s" "\<not> live (lookup s k) tok" "minted s tok"
  shows "\<not> live (lookup s' k) tok"
  using assms
proof (induction rule: mem_run.induct)
  case (run_cons ev s evs s')
  then show ?case
    using task_step_live [OF task_step_exec] wf_exec minted_exec by blast
qed simp

lemma live_minted: "wf_store s \<Longrightarrow> live (lookup s k) tok \<Longrightarrow> minted s tok"
  unfolding live_def minted_def wf_rec_def using wf_storeD(2) [of s k] unfolding wf_rec_def by fastforce

section \<open>The statuses a step may pass through\<close>

definition lifecycle :: "status option \<Rightarrow> status option \<Rightarrow> bool" where
  "lifecycle x y \<longleftrightarrow> x = y \<or>
     (x, y) \<in> {(None, Some StatusPending), (Some StatusPending, Some StatusInFlight),
       (Some StatusInFlight, Some StatusPending), (Some StatusInFlight, Some StatusSucceeded),
       (Some StatusInFlight, Some StatusDead), (Some StatusDead, Some StatusPending),
       (Some StatusDead, None), (Some StatusSucceeded, None)}"

abbreviation status_at :: "store \<Rightarrow> task_id \<Rightarrow> status option" where
  "status_at s k \<equiv> map_option (\<lambda>r. Status (env r)) (lookup s k)"

lemma task_step_lifecycle:
  "task_step s x y \<Longrightarrow> lifecycle (map_option (\<lambda>r. Status (env r)) x) (map_option (\<lambda>r. Status (env r)) y)"
  by (induction rule: task_step.induct)
    (auto simp: lifecycle_def record_effects Let_def fresh_task_def redriveRec_pow_simps
      dest: isDue_status)

text \<open>What no step changes in a task it keeps: identity, routing, payload and history so far.\<close>

definition identity :: "envelope \<Rightarrow> string \<times> string \<times> string \<times> string \<times> bytes option \<times> string \<times> time" where
  "identity e = (ID e, Queue e, HandlerRef e, HandlerVersion e, Payload e, PayloadContentType e,
     CreatedAt e)"

lemma identity_redriveRec_pow: "identity (env ((redriveRec now ^^ n) r)) = identity (env r)"
  by (induction n) (simp_all add: redriveRec_def identity_def)

lemma task_step_history:
  assumes "task_step s (Some r) (Some r')"
  shows "identity (env r') = identity (env r)" "prefix (Attempts (env r)) (Attempts (env r'))"
    "RedriveCount (env r) < RedriveCount (env r') \<or>
     RedriveCount (env r) = RedriveCount (env r') \<and> AttemptCount (env r) \<le> AttemptCount (env r')"
  using assms
  by (cases; simp add: record_effects Let_def identity_def claimRec_def appendAttempt_def
      redriveRec_pow_simps identity_redriveRec_pow [unfolded identity_def])+

section \<open>What a claiming call returns\<close>

lemma ClaimDue_nth:
  assumes "wf_store s" "claim_room s" "ClaimDue now s q limit l = (Inr cs, s')" "i < length cs"
  shows "\<exists>k r n. batch s q now limit ! i = (k, r) \<and> lookup s k = Some r \<and> Queue (env r) = q \<and>
    isDue r now \<and> ID (env r) = k \<and> n = unat (claimSeq s) + Suc i \<and>
    cs ! i = \<lparr>Task = env (claimRec now l (''ct-'' @ FormatUint n) r), Token = ''ct-'' @ FormatUint n\<rparr> \<and>
    lookup s' k = Some (claimRec now l (''ct-'' @ FormatUint n) r)"
proof -
  let ?b = "batch s q now limit"
  have cs: "cs = fst (claimLoop now l ?b s)" "s' = snd (claimLoop now l ?b s)"
    using assms(3) by (auto simp: ClaimDue_batch)
  have i: "i < length ?b" using assms(4) cs by simp
  obtain k r where kr: "?b ! i = (k, r)" by (cases "?b ! i")
  then have mem: "(k, r) \<in> set ?b" using i by (metis nth_mem)
  have u: "unat (claimSeq s + of_nat (Suc i)) = unat (claimSeq s) + Suc i"
    using i length_batch [of s q now limit] assms(2)
    by (intro unat_add_of_nat) (simp add: claim_room_def)
  have "ID (env r) = k"
    using wf_storeD(2) [OF assms(1) set_batch(1) [OF assms(1) mem]] by (simp add: wf_rec_def)
  then show ?thesis
    using claimLoop_nth [OF i, of now l s] claimLoop_lookup [OF distinct_batch [OF assms(1)] i, of now l s]
      kr set_batch [OF assms(1) mem] u
    by (simp add: cs claimToken_def Let_def del: of_nat_Suc)
qed

lemma claimed_key:
  assumes "wf_store s" "claim_room s" "ClaimDue now s q limit l = (Inr cs, s')"
    "k \<in> (\<lambda>c. ID (Task c)) ` set cs"
  shows "\<exists>r n. lookup s k = Some r \<and> isDue r now \<and> unat (claimSeq s) < n \<and>
    lookup s' k = Some (claimRec now l (''ct-'' @ FormatUint n) r)"
proof -
  obtain i where i: "i < length cs" "ID (Task (cs ! i)) = k"
    using assms(4) by (auto simp: in_set_conv_nth)
  obtain k' r n where "lookup s k' = Some r" "isDue r now" "ID (env r) = k'"
    "n = unat (claimSeq s) + Suc i"
    "cs ! i = \<lparr>Task = env (claimRec now l (''ct-'' @ FormatUint n) r), Token = ''ct-'' @ FormatUint n\<rparr>"
    "lookup s' k' = Some (claimRec now l (''ct-'' @ FormatUint n) r)"
    using ClaimDue_nth [OF assms(1-3) i(1)] by blast
  moreover have "k' = k" using calculation i(2) by simp
  ultimately show ?thesis
    by (intro exI [where x = r] exI [where x = n]) simp
qed

lemma distinct_tokens:
  assumes "wf_store s" "claim_room s" "ClaimDue now s q limit l = (Inr cs, s')"
  shows "distinct (map Token cs)"
  unfolding distinct_conv_nth
proof (intro allI impI)
  fix i j assume ij: "i < length (map Token cs)" "j < length (map Token cs)" "i \<noteq> j"
  then show "map Token cs ! i \<noteq> map Token cs ! j"
    using ClaimDue_nth [OF assms, of i] ClaimDue_nth [OF assms, of j]
    by (auto simp: FormatUint_inj)
qed

lemma claimed_spec:
  assumes "wf_store s" "claim_room s" "ClaimDue now s q limit l = (Inr cs, s')"
  shows "\<forall>c \<in> set cs. \<exists>r. lookup s (ID (Task c)) = Some r \<and> Queue (env r) = q \<and> isDue r now \<and>
    \<not> minted s (Token c) \<and> lookup s' (ID (Task c)) = Some (claimRec now l (Token c) r) \<and>
    Task c = env (claimRec now l (Token c) r)"
proof
  fix c assume "c \<in> set cs"
  then obtain i where i: "i < length cs" "c = cs ! i" by (auto simp: in_set_conv_nth)
  obtain k r n where r: "lookup s k = Some r" "Queue (env r) = q" "isDue r now" "ID (env r) = k"
    "n = unat (claimSeq s) + Suc i"
    "c = \<lparr>Task = env (claimRec now l (''ct-'' @ FormatUint n) r), Token = ''ct-'' @ FormatUint n\<rparr>"
    "lookup s' k = Some (claimRec now l (''ct-'' @ FormatUint n) r)"
    using ClaimDue_nth [OF assms i(1)] i(2) by blast
  then have "\<not> minted s (Token c)" by (auto simp: minted_def FormatUint_inj)
  then show "\<exists>r. lookup s (ID (Task c)) = Some r \<and> Queue (env r) = q \<and> isDue r now \<and>
    \<not> minted s (Token c) \<and> lookup s' (ID (Task c)) = Some (claimRec now l (Token c) r) \<and>
    Task c = env (claimRec now l (Token c) r)"
    using r by (intro exI [where x = r]) simp
qed

lemma left_out:
  assumes "wf_store s" "(k, r) \<in> set (dueTasks s q now)" "k \<notin> fst ` set (batch s q now limit)"
  shows "int (length (batch s q now limit)) = max 0 limit \<and>
    (\<forall>x \<in> set (batch s q now limit). dueOrder x \<le> dueOrder (k, r))"
proof -
  let ?d = "dueTasks s q now"
  have split: "set ?d = set (take (nat limit) ?d) \<union> set (drop (nat limit) ?d)"
    by (metis append_take_drop_id set_append)
  have "(k, r) \<notin> set (take (nat limit) ?d)"
    using assms(3) unfolding batch_def by (metis fst_conv image_eqI)
  then have kr: "(k, r) \<in> set (drop (nat limit) ?d)"
    using assms(2) split by blast
  then have "nat limit < length ?d"
    by (metis drop_eq_Nil empty_iff empty_set linorder_not_less)
  then show ?thesis
    using sorted_take_prefix_le [OF sorted_dueTasks _ kr] by (auto simp: batch_def)
qed

lemma claimed_ids:
  assumes "wf_store s" "claim_room s" "ClaimDue now s q limit l = (Inr cs, s')"
  shows "map (\<lambda>c. ID (Task c)) cs = map fst (batch s q now limit)"
proof (rule nth_equalityI)
  show "length (map (\<lambda>c. ID (Task c)) cs) = length (map fst (batch s q now limit))"
    using assms(3) by (auto simp: ClaimDue_batch)
  then show "map (\<lambda>c. ID (Task c)) cs ! i = map fst (batch s q now limit) ! i"
    if "i < length (map (\<lambda>c. ID (Task c)) cs)" for i
    using that ClaimDue_nth [OF assms, of i] by auto
qed

end
