(* ===== verification/Memstore_Props.thy ===== *)
theory Memstore_Props
  imports Memstore_Trace
begin

text \<open>
  The properties of the in-memory reference store: fencing, claiming, the durability of a
  task and of its history, and the dead-letter queue's redrive, purge and statistics.
\<close>

section \<open>Concrete runs for the witnesses\<close>

definition sample_task :: "string \<Rightarrow> envelope" where
  "sample_task tid = \<lparr>EnvelopeVersion = 1, ID = tid, Queue = ''q'', HandlerRef = ''h'',
     HandlerVersion = [], Payload = Some ''p'', PayloadContentType = ''application/json'',
     PayloadRef = None, Headers = [], Status = StatusPending, AttemptCount = 0, RedriveCount = 0,
     NextAttemptAt = Some 0, LeaseExpiresAt = None, CreatedAt = 0, Attempts = [], Residual = []\<rparr>"

definition sample_attempt :: "outcome \<Rightarrow> attempt" where
  "sample_attempt out = \<lparr>AttemptNo = 1, StartedAt = 5, FinishedAt = Some 6, Outcome = out,
     Err = None, AResidual = []\<rparr>"

definition sample_pending :: store where
  "sample_pending = mem_exec (EvEnqueue (sample_task ''b'')) (mem_exec (EvEnqueue (sample_task ''a'')) New)"

definition sample_claimed :: store where
  "sample_claimed = mem_exec (EvClaimDue 5 ''q'' 1 10) sample_pending"

definition sample_dead :: store where
  "sample_dead = mem_exec (EvDeadLetter 7 ''a'' ''ct-1'' (sample_attempt OutcomePermanentFailure)) sample_claimed"

lemmas sample_defs = sample_pending_def sample_claimed_def sample_dead_def sample_task_def
  sample_attempt_def

lemma sample_fresh: "fresh_task (sample_task k)"
  by (simp add: fresh_task_def sample_task_def)

lemma wf_sample_pending: "wf_store sample_pending"
  unfolding sample_pending_def by (intro wf_exec wf_New) (simp_all add: sample_fresh)

lemma sample_pending_tasks:
  "claimSeq sample_pending = 0" "dlqSeq sample_pending = 0"
  "lookup sample_pending ''a'' = Some \<lparr>env = sample_task ''a'', token = [], claimedAt = time_zero,
     rdlqSeq = 0, terminalAt = time_zero\<rparr>"
  "length (tasks sample_pending) = 2"
  by (code_simp)+

lemma sample_room: "claim_room sample_pending"
  by (simp add: claim_room_def sample_pending_tasks)

lemma wf_sample_claimed: "wf_store sample_claimed"
  unfolding sample_claimed_def by (intro wf_exec wf_sample_pending) (simp add: sample_room)

lemma sample_claimed_a: "map_option token (lookup sample_claimed ''a'') = Some ''ct-1''"
  "map_option (\<lambda>r. Status (env r)) (lookup sample_claimed ''a'') = Some StatusInFlight"
  "dlqSeq sample_claimed = 0" "claimSeq sample_claimed = 1" "length (tasks sample_claimed) = 2"
  by (code_simp)+

definition sample_reclaimed :: store where
  "sample_reclaimed = snd (ClaimDue 20 sample_claimed ''q'' 5 10)"

lemma sample_run: "mem_run New [EvEnqueue (sample_task ''a''), EvEnqueue (sample_task ''b''),
    EvClaimDue 5 ''q'' 1 10] sample_claimed"
  unfolding sample_claimed_def sample_pending_def
  using sample_room by (intro mem_run.intros) (auto simp: sample_fresh sample_pending_def)

lemma sample_live: "\<exists>r. resolveClaim sample_claimed ''a'' ''ct-1'' = Inr r"
  using sample_claimed_a by (auto simp: resolveClaim_Inr)

lemma sample_claimed_room: "claim_room sample_claimed" "dlq_room sample_claimed"
  by (simp_all add: claim_room_def dlq_room_def sample_claimed_a)

lemma sample_reclaim: "\<exists>cs. ClaimDue 20 sample_claimed ''q'' 5 10 = (Inr cs, sample_reclaimed) \<and>
    ''a'' \<in> (\<lambda>c. ID (Task c)) ` set cs \<and> length cs = 2"
proof -
  have "map_sum id (map (\<lambda>c. ID (Task c))) (fst (ClaimDue 20 sample_claimed ''q'' 5 10)) = Inr [''a'', ''b'']"
    by code_simp
  then obtain cs where c: "fst (ClaimDue 20 sample_claimed ''q'' 5 10) = Inr cs"
      "map (\<lambda>c. ID (Task c)) cs = [''a'', ''b'']"
    by (cases "fst (ClaimDue 20 sample_claimed ''q'' 5 10)") auto
  then have "''a'' \<in> (\<lambda>c. ID (Task c)) ` set cs" "length cs = 2"
    by (metis image_set list.set_intros(1), metis length_map length_Cons list.size(3) numeral_2_eq_2)
  then show ?thesis
    using c(1) unfolding sample_reclaimed_def by (metis prod.collapse)
qed

section \<open>Fencing\<close>

text \<open>What the four token-carrying operations do with a claim that is not live.\<close>

definition refuses :: "store \<Rightarrow> task_id \<Rightarrow> claim_token \<Rightarrow> bool" where
  "refuses s k tok \<longleftrightarrow>
     (\<forall>now l. ExtendLease now s k tok l = (Some ErrStaleClaim, s)) \<and>
     (\<forall>att t. Reschedule s k tok att t = (Some ErrStaleClaim, s)) \<and>
     (\<forall>now att. Complete now s k tok att = (Some ErrStaleClaim, s)) \<and>
     (\<forall>now att. DeadLetter now s k tok att = (Some ErrStaleClaim, s))"

lemma refuses_iff: "refuses s k tok \<longleftrightarrow> resolveClaim s k tok = Inl ErrStaleClaim"
proof (cases rule: resolveClaim_cases [of s k tok])
  case stale
  then show ?thesis by (simp add: refuses_def outcome_stale)
next
  case (live r)
  then show ?thesis by (simp add: refuses_def outcome_live)
qed

lemma refuses_forever:
  assumes "mem_run s evs s'" "wf_store s" "\<not> live (lookup s k) tok" "minted s tok"
  shows "refuses s' k tok"
proof -
  have "tok \<noteq> []" using assms(4) by (auto simp: minted_def)
  then show ?thesis
    using stale_forever [OF assms] by (simp add: refuses_iff resolveClaim_live)
qed

text \<open>C1: once a reschedule, a completion or a dead-lettering of a claim has been accepted, every
  later write or lease extension with the same token is refused with the stale-claim error and
  leaves the store unchanged, whatever operations other callers run in between. The outcome of a
  claim is therefore applied at most once.\<close>

theorem outcome_applied_at_most_once:
  assumes "mem_run New evs s" "resolveClaim s k tok = Inr r"
    "ev \<in> {EvReschedule k tok att t, EvComplete now k tok att, EvDeadLetter now k tok att}"
    "mem_guard ev s" "mem_run (mem_exec ev s) evs' s'"
  shows "refuses s' k tok"
proof (rule refuses_forever [OF assms(5)])
  have wf: "wf_store s" using assms(1) wf_run wf_New by blast
  then show "wf_store (mem_exec ev s)" using assms(4) by (rule wf_exec)
  have "live (lookup s k) tok" using assms(2) by (auto simp: live_def resolveClaim_Inr)
  then show "minted (mem_exec ev s) tok"
    using minted_exec [OF wf assms(4)] live_minted [OF wf] by blast
  show "\<not> live (lookup (mem_exec ev s) k) tok"
    using assms(3) outcome_live [OF assms(2)] by (auto simp: live_def record_effects Let_def)
qed

theorem outcome_applied_at_most_once_witness:
  "refuses (mem_exec (EvComplete 6 ''a'' ''ct-1'' (sample_attempt OutcomeSuccess)) sample_claimed)
     ''a'' ''ct-1''"
proof -
  obtain r where "resolveClaim sample_claimed ''a'' ''ct-1'' = Inr r"
    using sample_live by blast
  from outcome_applied_at_most_once [OF sample_run this,
      where ev = "EvComplete 6 ''a'' ''ct-1'' (sample_attempt OutcomeSuccess)" and evs' = "[]"]
  show ?thesis by (simp add: mem_run.run_nil)
qed

text \<open>C2: when a call to \<open>ClaimDue\<close> reclaims a task whose lease has run out, the token of the
  former owner is refused from then on, in every run that follows.\<close>

theorem reclaim_fences_former_owner:
  assumes "mem_run New evs s" "resolveClaim s k tok = Inr r" "claim_room s"
    "ClaimDue now s q limit l = (Inr cs, s1)" "k \<in> (\<lambda>c. ID (Task c)) ` set cs"
    "mem_run s1 evs' s'"
  shows "refuses s' k tok"
proof (rule refuses_forever [OF assms(6)])
  have wf: "wf_store s" using assms(1) wf_run wf_New by blast
  have s1: "s1 = mem_exec (EvClaimDue now q limit l) s" using assms(4) by simp
  have g: "mem_guard (EvClaimDue now q limit l) s" using assms(3) by simp
  show "wf_store s1" unfolding s1 by (rule wf_exec [OF wf g])
  have r: "lookup s k = Some r" "token r = tok" using assms(2) by (auto simp: resolveClaim_Inr)
  have m: "minted s tok"
    using live_minted [OF wf] assms(2) by (auto simp: live_def resolveClaim_Inr)
  then show "minted s1 tok" unfolding s1 by (rule minted_exec [OF wf g])
  obtain n where n: "lookup s1 k = Some (claimRec now l (''ct-'' @ FormatUint n) r)" "unat (claimSeq s) < n"
    using claimed_key [OF wf assms(3,4,5)] r(1) by auto
  then show "\<not> live (lookup s1 k) tok"
    using m by (auto simp: live_def minted_def FormatUint_inj)
qed

theorem reclaim_fences_former_owner_witness: "refuses sample_reclaimed ''a'' ''ct-1''"
proof -
  obtain r where r: "resolveClaim sample_claimed ''a'' ''ct-1'' = Inr r"
    using sample_live by blast
  obtain cs where cs: "ClaimDue 20 sample_claimed ''q'' 5 10 = (Inr cs, sample_reclaimed)"
      "''a'' \<in> (\<lambda>c. ID (Task c)) ` set cs"
    using sample_reclaim by blast
  show ?thesis
    by (rule reclaim_fences_former_owner [OF sample_run r sample_claimed_room(1) cs mem_run.run_nil])
qed

section \<open>Claiming\<close>

text \<open>C11: \<open>ClaimDue\<close> returns the first \<open>limit\<close> due tasks of the queue in order of due time and id:
  each is a due task of that queue, in flight under a fresh token with a lease of the requested
  length; a task of the queue that is due and was left out comes no earlier in the order than any
  task returned, and is left out only when the limit was reached; the tokens are pairwise distinct; every
  task not returned is untouched.\<close>

theorem ClaimDue_spec:
  assumes "wf_store s" "claim_room s" "ClaimDue now s q limit l = (Inr cs, s')"
  shows "length cs = min (nat limit) (card {k. \<exists>r. lookup s k = Some r \<and> Queue (env r) = q \<and> isDue r now})
    \<and> distinct (map Token cs)
    \<and> (\<forall>c \<in> set cs. \<exists>r. lookup s (ID (Task c)) = Some r \<and> Queue (env r) = q \<and> isDue r now \<and>
         \<not> minted s (Token c) \<and>
         lookup s' (ID (Task c)) = Some (claimRec now l (Token c) r) \<and>
         Task c = env (claimRec now l (Token c) r))
    \<and> (\<forall>k r. lookup s k = Some r \<and> Queue (env r) = q \<and> isDue r now \<and> k \<notin> (\<lambda>c. ID (Task c)) ` set cs \<longrightarrow>
         int (length cs) = max 0 limit \<and>
         (\<forall>c \<in> set cs. \<exists>r'. lookup s (ID (Task c)) = Some r' \<and> dueOrder (ID (Task c), r') \<le> dueOrder (k, r)))
    \<and> (\<forall>k. k \<notin> (\<lambda>c. ID (Task c)) ` set cs \<longrightarrow> lookup s' k = lookup s k)"
proof -
  let ?b = "batch s q now limit" and ?d = "dueTasks s q now"
  note wf = assms(1)
  have cs: "cs = fst (claimLoop now l ?b s)" "s' = snd (claimLoop now l ?b s)"
    using assms(3) by (auto simp: ClaimDue_batch)
  have ids: "map (\<lambda>c. ID (Task c)) cs = map fst ?b"
    by (rule claimed_ids [OF assms])
  then have img: "(\<lambda>c. ID (Task c)) ` set cs = fst ` set ?b" by (metis list.set_map)
  have due: "(k, r) \<in> set ?d \<longleftrightarrow> lookup s k = Some r \<and> Queue (env r) = q \<and> isDue r now" for k r
    using in_tasks_lookup [OF wf_storeD(1) [OF wf]] by (auto simp: set_dueTasks)
  have "length cs = min (nat limit) (card {k. \<exists>r. lookup s k = Some r \<and> Queue (env r) = q \<and> isDue r now})"
  proof -
    have "{k. \<exists>r. lookup s k = Some r \<and> Queue (env r) = q \<and> isDue r now} = set (map fst ?d)"
      using due by force
    then show ?thesis
      using distinct_card [OF distinct_dueTasks [OF wf_storeD(1) [OF wf]], of q now]
      by (simp add: cs batch_def)
  qed
  moreover have "distinct (map Token cs)"
    by (rule distinct_tokens [OF assms])
  moreover have "\<forall>c \<in> set cs. \<exists>r. lookup s (ID (Task c)) = Some r \<and> Queue (env r) = q \<and> isDue r now \<and>
         \<not> minted s (Token c) \<and>
         lookup s' (ID (Task c)) = Some (claimRec now l (Token c) r) \<and>
         Task c = env (claimRec now l (Token c) r)"
    by (rule claimed_spec [OF assms])
  moreover have "\<forall>k r. lookup s k = Some r \<and> Queue (env r) = q \<and> isDue r now \<and> k \<notin> (\<lambda>c. ID (Task c)) ` set cs \<longrightarrow>
         int (length cs) = max 0 limit \<and>
         (\<forall>c \<in> set cs. \<exists>r'. lookup s (ID (Task c)) = Some r' \<and> dueOrder (ID (Task c), r') \<le> dueOrder (k, r))"
  proof (intro allI impI, elim conjE)
    fix k r assume k: "lookup s k = Some r" "Queue (env r) = q" "isDue r now"
      "k \<notin> (\<lambda>c. ID (Task c)) ` set cs"
    have out: "int (length ?b) = max 0 limit" "\<And>x. x \<in> set ?b \<Longrightarrow> dueOrder x \<le> dueOrder (k, r)"
      using left_out [OF wf, of k r q now limit] k due img by auto
    have "\<exists>r'. lookup s i = Some r' \<and> dueOrder (i, r') \<le> dueOrder (k, r)" if "i \<in> fst ` set ?b" for i
      using that out(2) set_batch(1) [OF wf] by fastforce
    then have "\<forall>i \<in> (\<lambda>c. ID (Task c)) ` set cs. \<exists>r'. lookup s i = Some r' \<and> dueOrder (i, r') \<le> dueOrder (k, r)"
      using img by blast
    then show "int (length cs) = max 0 limit \<and>
        (\<forall>c \<in> set cs. \<exists>r'. lookup s (ID (Task c)) = Some r' \<and> dueOrder (ID (Task c), r') \<le> dueOrder (k, r))"
      using out(1) by (simp add: cs)
  qed
  moreover have "\<forall>k. k \<notin> (\<lambda>c. ID (Task c)) ` set cs \<longrightarrow> lookup s' k = lookup s k"
    unfolding img cs(2) by (simp add: claimLoop_other)
  ultimately show ?thesis by blast
qed

theorem ClaimDue_spec_witness:
  "\<exists>cs. ClaimDue 20 sample_claimed ''q'' 5 10 = (Inr cs, sample_reclaimed) \<and>
     distinct (map Token cs) \<and> ''a'' \<in> (\<lambda>c. ID (Task c)) ` set cs \<and>
     (\<forall>c \<in> set cs. \<not> minted sample_claimed (Token c))"
proof -
  obtain cs where cs: "ClaimDue 20 sample_claimed ''q'' 5 10 = (Inr cs, sample_reclaimed)"
      "''a'' \<in> (\<lambda>c. ID (Task c)) ` set cs"
    using sample_reclaim by blast
  show ?thesis
    using ClaimDue_spec [OF wf_sample_claimed sample_claimed_room(1) cs(1)] cs by blast
qed

text \<open>The events that act on a task through one of its claims.\<close>

fun uses_claim :: "task_id \<Rightarrow> claim_token \<Rightarrow> mem_event \<Rightarrow> bool" where
  "uses_claim k tok (EvExtendLease now k' tok' l) = (k' = k \<and> tok' = tok)"
| "uses_claim k tok (EvReschedule k' tok' att t) = (k' = k \<and> tok' = tok)"
| "uses_claim k tok (EvComplete now k' tok' att) = (k' = k \<and> tok' = tok)"
| "uses_claim k tok (EvDeadLetter now k' tok' att) = (k' = k \<and> tok' = tok)"
| "uses_claim k tok _ = False"

fun claims_before :: "time \<Rightarrow> mem_event \<Rightarrow> bool" where
  "claims_before x (EvClaimDue now q limit l) = (now < x)"
| "claims_before x _ = True"

lemma owned_step:
  assumes "wf_store s" "mem_guard ev s" "lookup s k = Some r" "Status (env r) = StatusInFlight"
    "LeaseExpiresAt (env r) = Some x" "\<not> uses_claim k (token r) ev" "claims_before x ev"
  shows "lookup (mem_exec ev s) k = Some r"
proof (cases ev)
  case (EvClaimDue now q limit l)
  have "\<not> isDue r now" using assms EvClaimDue by (simp add: isDue_def)
  then have "(k, r') \<notin> set (batch s q now limit)" for r'
    using set_batch [OF assms(1), of k r' q now limit] assms(3) by auto
  then have "k \<notin> fst ` set (batch s q now limit)" by force
  then show ?thesis by (simp add: EvClaimDue ClaimDue_batch claimLoop_other assms(3))
next
  case (EvExtendLease now k' tok l)
  then show ?thesis using assms
    by (cases "resolveClaim s k' tok") (auto simp: outcome_stale outcome_live resolveClaim_Inr)
next
  case (EvReschedule k' tok att t)
  then show ?thesis using assms
    by (cases "resolveClaim s k' tok") (auto simp: outcome_stale outcome_live resolveClaim_Inr)
next
  case (EvComplete now k' tok att)
  then show ?thesis using assms
    by (cases "resolveClaim s k' tok") (auto simp: outcome_stale outcome_live resolveClaim_Inr)
next
  case (EvDeadLetter now k' tok att)
  then show ?thesis using assms
    by (cases "resolveClaim s k' tok") (auto simp: outcome_stale outcome_live resolveClaim_Inr)
next
  case (EvRedrive now q sel)
  have "k \<notin> set (map fst (selectDead s q sel))"
    using selected_keys [OF assms(1), of k q sel] assms(3,4) by (auto simp: isDead_def)
  then show ?thesis
    using assms(3) by (simp add: EvRedrive Redrive_def Let_def redriveLoop_lookup count_notin)
qed (use assms in \<open>auto simp: Enqueue_lookup Purge_lookup PurgeSucceeded_lookup isDead_def
    purgeableSucceeded_def\<close>)

text \<open>C3: a claim gives exclusive ownership until its lease runs out. In any run in which no call
  to \<open>ClaimDue\<close> happens at or after the lease expiry and no operation presents the owner's own
  token, the claimed record stays exactly as it is: nothing any other caller does, with any other
  token, on this task or another, can claim, change, redrive or remove it.\<close>

theorem lease_gives_exclusive_ownership:
  assumes "mem_run New evs0 s" "lookup s k = Some r" "Status (env r) = StatusInFlight"
    "LeaseExpiresAt (env r) = Some x" "mem_run s evs s'"
    "\<forall>ev \<in> set evs. \<not> uses_claim k (token r) ev \<and> claims_before x ev"
  shows "lookup s' k = Some r"
  using assms(5,2,6) wf_run [OF assms(1) wf_New]
proof (induction rule: mem_run.induct)
  case (run_cons ev s evs s')
  then show ?case
    using owned_step [of s ev k r x] assms(3,4) wf_exec [of s ev] by simp
qed simp

theorem lease_gives_exclusive_ownership_witness:
  "lookup (mem_exec (EvClaimDue 14 ''q'' 5 10) sample_claimed) ''a'' = lookup sample_claimed ''a''"
proof -
  have "map_option (\<lambda>r. (Status (env r), LeaseExpiresAt (env r))) (lookup sample_claimed ''a'') =
      Some (StatusInFlight, Some 15)"
    by code_simp
  then obtain r where r: "lookup sample_claimed ''a'' = Some r" "Status (env r) = StatusInFlight"
      "LeaseExpiresAt (env r) = Some 15" by auto
  have run: "mem_run sample_claimed [EvClaimDue 14 ''q'' 5 10] (mem_exec (EvClaimDue 14 ''q'' 5 10) sample_claimed)"
    using sample_claimed_room by (intro mem_run.intros) simp
  show ?thesis
    using lease_gives_exclusive_ownership [OF sample_run r run] r(1) by simp
qed

text \<open>Reclaiming a task whose lease ran out records the lost attempt: the history grows by exactly
  one \<open>LEASE_EXPIRED\<close> entry that started when the lost claim was made, the attempt counter by
  one, and a first claim of a pending task records nothing.\<close>

theorem reclaim_records_lost_attempt:
  assumes "wf_store s" "claim_room s" "ClaimDue now s q limit l = (Inr cs, s')" "c \<in> set cs"
    "lookup s (ID (Task c)) = Some r"
  shows "AttemptCount (Task c) = AttemptCount (env r) + (if Status (env r) = StatusInFlight then 1 else 0)
    \<and> (Status (env r) = StatusInFlight \<longrightarrow>
         (\<exists>a. Attempts (Task c) = Attempts (env r) @ [a] \<and> Outcome a = OutcomeLeaseExpired \<and>
            StartedAt a = claimedAt r \<and> FinishedAt a = Some now \<and>
            map_option ErrType (Err a) = Some ''rdq.LeaseExpired''))
    \<and> (Status (env r) = StatusPending \<longrightarrow> Attempts (Task c) = Attempts (env r))"
proof -
  have "Task c = env (claimRec now l (Token c) r)"
    using claimed_spec [OF assms(1-3)] assms(4,5) by fastforce
  then show ?thesis
    by (simp add: claimRec_history leaseExpiredAttempt_def leaseExpiredType_def)
qed

theorem reclaim_records_lost_attempt_witness:
  "\<exists>cs c. ClaimDue 20 sample_claimed ''q'' 5 10 = (Inr cs, sample_reclaimed) \<and> c \<in> set cs \<and>
     ID (Task c) = ''a'' \<and> AttemptCount (Task c) = 1"
proof -
  obtain cs c where cs: "ClaimDue 20 sample_claimed ''q'' 5 10 = (Inr cs, sample_reclaimed)"
      "c \<in> set cs" "ID (Task c) = ''a''"
    using sample_reclaim by (metis imageE)
  have "map_option (\<lambda>r. (Status (env r), AttemptCount (env r))) (lookup sample_claimed ''a'') =
      Some (StatusInFlight, 0)"
    by code_simp
  then obtain r where r: "lookup sample_claimed (ID (Task c)) = Some r" "Status (env r) = StatusInFlight"
      "AttemptCount (env r) = 0" using cs(3) by auto
  show ?thesis
    using reclaim_records_lost_attempt [OF wf_sample_claimed sample_claimed_room(1) cs(1,2) r(1)] r cs
    by auto
qed

section \<open>Durability\<close>

text \<open>C10: every state the store reaches is well formed: keys are the ids of their records, a pending
  task has a due time, an in-flight task a lease and a token the store has minted, no other task
  has either, a dead letter a positive sequence number, no two claims in flight share a token and no two
  dead letters a sequence number, and the attempt counter counts the attempts made since the last redrive.\<close>

theorem reachable_well_formed:
  assumes "mem_run New evs s"
  shows "wf_store s"
  using assms wf_New by (rule wf_run)

theorem reachable_well_formed_witness: "wf_store sample_claimed"
  by (rule reachable_well_formed [OF sample_run])

text \<open>C4: every operation moves every task along the life cycle: a task appears as pending, a pending
  one can only go in flight, one in flight back to pending, to succeeded or to dead, a dead one
  back to pending or out of the store, a succeeded one out of the store.\<close>

theorem run_refines_lifecycle:
  assumes "mem_run New evs s" "mem_guard ev s"
  shows "lifecycle (status_at s k) (status_at (mem_exec ev s) k)"
  using task_step_lifecycle [OF task_step_exec [OF wf_run [OF assms(1) wf_New] assms(2)]] .

theorem run_refines_lifecycle_witness:
  "lifecycle (Some StatusInFlight) (status_at (mem_exec (EvReschedule ''a'' ''ct-1''
     (sample_attempt OutcomeRetryableFailure) 30) sample_claimed) ''a'')"
  using run_refines_lifecycle [OF sample_run, of "EvReschedule ''a'' ''ct-1''
     (sample_attempt OutcomeRetryableFailure) 30" "''a''"] sample_claimed_a(2)
  by simp

fun removes :: "mem_event \<Rightarrow> bool" where
  "removes (EvPurge q sel) = True"
| "removes (EvPurgeSucceeded q t) = True"
| "removes _ = False"

lemma kept_step:
  assumes "wf_store s" "mem_guard ev s" "\<not> removes ev" "lookup s k = Some r"
  shows "\<exists>r'. lookup (mem_exec ev s) k = Some r' \<and> task_step s (Some r) (Some r')"
proof -
  have "lookup (mem_exec ev s) k \<noteq> None"
    using assms
  proof (cases ev)
    case (EvClaimDue now q limit l)
    then show ?thesis using ClaimDue_lookup [OF assms(1)] assms(4) by simp
  next
    case (EvRedrive now q sel)
    then show ?thesis using assms(4) by (simp add: Redrive_def Let_def redriveLoop_lookup)
  next
    case (EvExtendLease now k' tok l)
    then show ?thesis using assms(4)
      by (cases "resolveClaim s k' tok") (simp_all add: outcome_stale outcome_live)
  next
    case (EvReschedule k' tok att t)
    then show ?thesis using assms(4)
      by (cases "resolveClaim s k' tok") (simp_all add: outcome_stale outcome_live)
  next
    case (EvComplete now k' tok att)
    then show ?thesis using assms(4)
      by (cases "resolveClaim s k' tok") (simp_all add: outcome_stale outcome_live)
  next
    case (EvDeadLetter now k' tok att)
    then show ?thesis using assms(4)
      by (cases "resolveClaim s k' tok") (simp_all add: outcome_stale outcome_live)
  qed (auto simp: Enqueue_lookup)
  then show ?thesis
    using task_step_exec [OF assms(1,2), of k] assms(4) by auto
qed

lemma history_kept:
  assumes "mem_run New evs0 s" "lookup s k = Some r" "mem_run s evs s'"
    "\<forall>ev \<in> set evs. \<not> removes ev"
  shows "\<exists>r'. lookup s' k = Some r' \<and> identity (env r') = identity (env r) \<and>
    prefix (Attempts (env r)) (Attempts (env r')) \<and>
    (RedriveCount (env r) < RedriveCount (env r') \<or>
     RedriveCount (env r) = RedriveCount (env r') \<and> AttemptCount (env r) \<le> AttemptCount (env r'))"
  using assms(3,2,4) wf_run [OF assms(1) wf_New]
proof (induction arbitrary: r rule: mem_run.induct)
  case (run_cons ev s evs s')
  obtain r1 where r1: "lookup (mem_exec ev s) k = Some r1" "task_step s (Some r) (Some r1)"
    using kept_step [of s ev k r] run_cons by auto
  note h = task_step_history [OF r1(2)]
  obtain r' where "lookup s' k = Some r'" "identity (env r') = identity (env r1)"
    "prefix (Attempts (env r1)) (Attempts (env r'))"
    "RedriveCount (env r1) < RedriveCount (env r') \<or>
     RedriveCount (env r1) = RedriveCount (env r') \<and> AttemptCount (env r1) \<le> AttemptCount (env r')"
    using run_cons.IH [OF r1(1)] run_cons.prems run_cons.hyps(1) wf_exec [of s ev] by auto
  then show ?case
    using h prefix_order.trans [OF h(2)] by (intro exI [where x = r']) auto
qed auto

text \<open>C12: a task is never lost and its history never rewritten. In any run without a purge the
  task is still there at the end with the same identity, payload and creation time, and its attempt
  history extends the earlier one. Its redrive count never falls; its attempt count does not fall
  between two redrives (a redrive sets it back to zero).\<close>

theorem task_never_lost:
  assumes "mem_run New evs0 s" "lookup s k = Some r" "mem_run s evs s'"
    "\<forall>ev \<in> set evs. \<not> removes ev"
  shows "\<exists>r'. lookup s' k = Some r' \<and> identity (env r') = identity (env r) \<and>
    prefix (Attempts (env r)) (Attempts (env r')) \<and>
    (RedriveCount (env r) < RedriveCount (env r') \<or>
     RedriveCount (env r) = RedriveCount (env r') \<and> AttemptCount (env r) \<le> AttemptCount (env r'))"
  using assms by (rule history_kept)

theorem task_never_lost_witness:
  "\<exists>r r'. lookup sample_claimed ''a'' = Some r \<and> lookup sample_reclaimed ''a'' = Some r' \<and>
     prefix (Attempts (env r)) (Attempts (env r'))"
proof -
  obtain r where r: "lookup sample_claimed ''a'' = Some r" using sample_claimed_a(1) by auto
  have run: "mem_run sample_claimed [EvClaimDue 20 ''q'' 5 10] sample_reclaimed"
    unfolding sample_reclaimed_def using sample_claimed_room mem_run.run_cons [of "EvClaimDue 20 ''q'' 5 10"]
      mem_run.run_nil by simp
  show ?thesis using task_never_lost [OF sample_run r run] r by auto
qed

text \<open>C13: no task is wedged. From every state the store reaches, every pending or in-flight task
  has a time after which each \<open>ClaimDue\<close> of its queue with a large enough limit returns it.\<close>

theorem no_task_wedged:
  assumes "mem_run New evs s" "claim_room s" "lookup s k = Some r"
    "Status (env r) = StatusPending \<or> Status (env r) = StatusInFlight"
  shows "\<exists>t0. \<forall>now \<ge> t0. \<forall>limit \<ge> int (length (tasks s)). \<forall>l.
    \<exists>cs s'. ClaimDue now s (Queue (env r)) limit l = (Inr cs, s') \<and>
      k \<in> (\<lambda>c. ID (Task c)) ` set cs"
proof -
  have wf: "wf_store s" using assms(1) wf_run wf_New by blast
  have w: "wf_rec s k r" by (rule wf_storeD(2) [OF wf assms(3)])
  have "\<exists>t0. \<forall>now \<ge> t0. isDue r now"
  proof (cases "Status (env r) = StatusPending")
    case True
    then obtain t where "NextAttemptAt (env r) = Some t" using w by (auto simp: wf_rec_def)
    then show ?thesis using True by (intro exI [where x = t]) (simp add: isDue_def)
  next
    case False
    then obtain t where "LeaseExpiresAt (env r) = Some t" using w assms(4) by (auto simp: wf_rec_def)
    then show ?thesis using False assms(4) by (intro exI [where x = t]) (simp add: isDue_def)
  qed
  then obtain t0 where due: "\<And>now. now \<ge> t0 \<Longrightarrow> isDue r now" by blast
  have "k \<in> (\<lambda>c. ID (Task c)) ` set (fst (claimLoop now l (batch s (Queue (env r)) now limit) s))"
    if "now \<ge> t0" "limit \<ge> int (length (tasks s))" for now limit l
  proof -
    have "(k, r) \<in> set (dueTasks s (Queue (env r)) now)"
      using in_tasks_lookup [OF wf_storeD(1) [OF wf]] assms(3) due [OF that(1)] by (simp add: set_dueTasks)
    moreover have "length (dueTasks s (Queue (env r)) now) \<le> nat limit"
      unfolding dueTasks_def length_sort
      by (rule order_trans [OF length_filter_le]) (use that(2) in simp)
    ultimately have "(k, r) \<in> set (batch s (Queue (env r)) now limit)"
      by (simp add: batch_def)
    then have "k \<in> set (map fst (batch s (Queue (env r)) now limit))" by force
    then show ?thesis
      unfolding claimed_ids [OF wf assms(2) ClaimDue_batch [of now s "Queue (env r)" limit l], symmetric]
      by simp
  qed
  then show ?thesis
    by (intro exI [where x = t0]) (simp add: ClaimDue_batch)
qed

theorem no_task_wedged_witness:
  "\<exists>r t0. lookup sample_claimed ''a'' = Some r \<and> (\<forall>now \<ge> t0. \<forall>limit \<ge> 2. \<forall>l.
     \<exists>cs s'. ClaimDue now sample_claimed (Queue (env r)) limit l = (Inr cs, s') \<and>
       ''a'' \<in> (\<lambda>c. ID (Task c)) ` set cs)"
proof -
  obtain r where r: "lookup sample_claimed ''a'' = Some r" "Status (env r) = StatusInFlight"
    using sample_claimed_a by auto
  show ?thesis
    using no_task_wedged [OF sample_run sample_claimed_room(1) r(1)] r sample_claimed_a(5) by auto
qed

section \<open>The dead-letter queue\<close>





lemma wf_sample_dead: "wf_store sample_dead"
  unfolding sample_dead_def by (intro wf_exec wf_sample_claimed) (simp add: sample_claimed_room)

lemma sample_dead_a: "\<exists>r. lookup sample_dead ''a'' = Some r \<and> isDead ''q'' r \<and> rdlqSeq r = 1"
proof -
  have "map_option (\<lambda>r. (isDead ''q'' r, rdlqSeq r)) (lookup sample_dead ''a'') = Some (True, 1)"
    by code_simp
  then show ?thesis by auto
qed

definition select_a :: selector where
  "select_a = \<lparr>IDs = [''a''], Filter = None\<rparr>"


text \<open>C29: a purge removes exactly the dead tasks of the queue that the selector selects, and the
  succeeded-task sweep exactly the succeeded tasks of the queue that finished before the cutoff;
  no purge removes a pending or in-flight task, and all other tasks stay as they are.\<close>

theorem purges_remove_only_terminal:
  assumes "wf_store s"
  shows "lookup (snd (Purge s q sel)) k =
      (case lookup s k of None \<Rightarrow> None
       | Some r \<Rightarrow> if Queue (env r) = q \<and> Status (env r) = StatusDead \<and> selects sel k r
           then None else Some r)
    \<and> lookup (snd (PurgeSucceeded s q t)) k =
      (case lookup s k of None \<Rightarrow> None
       | Some r \<Rightarrow> if Queue (env r) = q \<and> Status (env r) = StatusSucceeded \<and> terminalAt r < t
           then None else Some r)"
  using Purge_lookup [OF assms, of q sel k] PurgeSucceeded_lookup [OF assms, of q t k]
  by (simp add: isDead_def purgeableSucceeded_def split: option.split)

theorem purges_remove_only_terminal_witness:
  "lookup (snd (Purge sample_dead ''q'' select_a)) ''a'' = None \<and>
   lookup (snd (Purge sample_dead ''q'' select_a)) ''b'' = lookup sample_dead ''b''"
proof -
  obtain r where "lookup sample_dead ''a'' = Some r" "isDead ''q'' r" using sample_dead_a by blast
  then show ?thesis
    using purges_remove_only_terminal [OF wf_sample_dead, of "''q''" select_a "''a''"]
      purges_remove_only_terminal [OF wf_sample_dead, of "''q''" select_a "''b''"]
    by (auto simp: isDead_def selects_def select_a_def split: option.splits)
qed

section \<open>Enqueueing\<close>

text \<open>Enqueueing is idempotent on the id. A first enqueue stores the task; a repeat with the
  same id and queue is accepted and changes nothing, whatever else differs and whatever has
  happened to the task; a task with the same id for another queue is refused as an id
  conflict and changes nothing.\<close>

theorem Enqueue_idempotent:
  "(lookup s (ID e) = None \<longrightarrow>
      fst (Enqueue s e) = None \<and> map_option env (lookup (snd (Enqueue s e)) (ID e)) = Some e \<and>
      (\<forall>k. k \<noteq> ID e \<longrightarrow> lookup (snd (Enqueue s e)) k = lookup s k)) \<and>
   (\<forall>r. lookup s (ID e) = Some r \<longrightarrow>
      Enqueue s e = (if Queue (env r) = Queue e then (None, s) else (Some ErrIDConflict, s)))"
  by (auto simp: Enqueue_def)

theorem Enqueue_idempotent_witness:
  "Enqueue sample_claimed (sample_task ''a'') = (None, sample_claimed)"
proof -
  have "map_option (\<lambda>r. Queue (env r)) (lookup sample_claimed ''a'') = Some ''q''"
    by code_simp
  then obtain r where "lookup sample_claimed ''a'' = Some r" "Queue (env r) = ''q''" by auto
  then show ?thesis
    using Enqueue_idempotent [of sample_claimed "sample_task ''a''"] by (simp add: sample_task_def)
qed

section \<open>Paging\<close>

lemma decode_encodeCursor: "decodeCursor (encodeCursor seq) = Inr seq"
proof -
  have "b64_encode (cursorPrefix @ t) \<noteq> []" for t
    by (metis b64_roundtrip b64_encode.simps(1) cursorPrefix_def append_Cons list.distinct(1) option.inject)
  moreover have "unat seq < 2 ^ 64"
    using unsigned_less [of seq, where ?'a = nat] by simp
  ultimately show ?thesis
    by (simp add: decodeCursor_def encodeCursor_def b64_roundtrip ParseUint_FormatUint)
qed

lemma encodeCursor_nonempty: "encodeCursor seq \<noteq> []"
  by (metis b64_roundtrip b64_encode.simps(1) cursorPrefix_def append_Cons list.distinct(1) option.inject
      encodeCursor_def)

lemma set_dlqMatched:
  assumes "wf_store s"
  shows "(k, r) \<in> set (dlqMatched s q f a) \<longleftrightarrow>
    lookup s k = Some r \<and> isDead q r \<and> a < rdlqSeq r \<and> matchFilter r f"
  using in_tasks_lookup [OF wf_storeD(1) [OF assms]] by (auto simp: dlqMatched_def)

lemma dlqMatched_distinct:
  "wf_store s \<Longrightarrow> distinct (map fst (dlqMatched s q f a))"
  unfolding dlqMatched_def by (intro distinct_map_fst_sort distinct_map_fst_filter wf_storeD(1))

lemma dlqMatched_strict:
  assumes "wf_store s"
  shows "sorted_wrt (<) (map (\<lambda>(k, r). rdlqSeq r) (dlqMatched s q f a))"
proof -
  let ?m = "dlqMatched s q f a"
  have "inj_on (\<lambda>(k, r). rdlqSeq r) (set ?m)"
  proof (rule inj_onI, clarify)
    fix k r k' r' assume m: "(k, r) \<in> set ?m" "(k', r') \<in> set ?m" and eq: "rdlqSeq r = rdlqSeq r'"
    then have l: "lookup s k = Some r" "lookup s k' = Some r'" "isDead q r" "isDead q r'"
      by (auto simp: set_dlqMatched [OF assms])
    have "k = k'"
      using wf_storeD(3) [OF assms l(1,2)] l(3,4) eq by (auto simp: apart_def isDead_def)
    then show "k = k' \<and> r = r'" using l by simp
  qed
  moreover have "distinct ?m" using dlqMatched_distinct [OF assms] by (simp add: distinct_map)
  ultimately have "distinct (map (\<lambda>(k, r). rdlqSeq r) ?m)" by (simp add: distinct_map)
  then show ?thesis
    by (simp add: strict_sorted_iff dlqMatched_def)
qed

lemma dlqMatched_filter:
  assumes "a \<le> a'"
  shows "dlqMatched s q f a' = filter (\<lambda>(k, r). \<not> rdlqSeq r \<le> a') (dlqMatched s q f a)"
  unfolding dlqMatched_def filter_sort filter_filter using assms
  by (intro arg_cong [where f = "sort_key (\<lambda>(k, r). rdlqSeq r)"] filter_cong) auto

lemma dlqMatched_after:
  assumes "wf_store s" "0 < n" "n \<le> length (dlqMatched s q f a)"
  shows "dlqMatched s q f (rdlqSeq (snd (last (take n (dlqMatched s q f a))))) =
    drop n (dlqMatched s q f a)"
proof -
  let ?m = "dlqMatched s q f a"
  let ?a = "rdlqSeq (snd (last (take n ?m)))"
  have "last (take n ?m) \<in> set ?m"
    using assms(2,3) by (metis in_set_takeD last_in_set length_greater_0_conv length_take min.absorb2)
  then have "a < ?a"
    using set_dlqMatched [OF assms(1)] by (metis prod.collapse)
  then have "dlqMatched s q f ?a = filter (\<lambda>(k, r). \<not> rdlqSeq r \<le> ?a) ?m"
    by (intro dlqMatched_filter) simp
  also have "\<dots> = drop n ?m"
    using filter_after_take [OF dlqMatched_strict [OF assms(1)] assms(2,3)] by (simp add: split_beta')
  finally show ?thesis .
qed

definition page_view :: "dlq_filter \<Rightarrow> task_id \<times> taskrec \<Rightarrow> envelope" where
  "page_view f kr = (if IncludeAttempts f then env (snd kr) else (env (snd kr))\<lparr>Attempts := []\<rparr>)"

definition page_size :: "page \<Rightarrow> nat" where
  "page_size pg = nat (if Limit pg \<le> 0 then defaultPageLimit else Limit pg)"

lemma page_size_pos: "0 < page_size pg"
  by (simp add: page_size_def defaultPageLimit_def)

lemma DLQList_unfold:
  assumes "decodeCursor (After pg) = Inr a"
  shows "DLQList s q f pg = (let m = dlqMatched s q f a in
    Inr (map (page_view f) (take (page_size pg) m),
      if page_size pg < length m then encodeCursor (rdlqSeq (snd (last (take (page_size pg) m)))) else []))"
proof -
  have "0 < defaultPageLimit" by (simp add: defaultPageLimit_def)
  then show ?thesis
    using assms unfolding DLQList_def page_size_def
    by (cases "Limit pg \<le> 0") (auto simp: Let_def page_view_def split_beta')
qed

text \<open>C18: paging through the dead-letter queue misses and repeats nothing. From any cursor, a page
  holds the first entries still to come in dead-lettering order, up to the page size; without a
  next cursor it held all of them, and the next cursor it returns resumes with exactly the entries the
  page left over.\<close>

theorem DLQList_pages:
  assumes "wf_store s" "decodeCursor (After pg) = Inr a"
  shows "\<exists>next. DLQList s q f pg = Inr (map (page_view f) (take (page_size pg) (dlqMatched s q f a)), next)
    \<and> 0 < page_size pg
    \<and> (next = [] \<longrightarrow> length (dlqMatched s q f a) \<le> page_size pg)
    \<and> (next \<noteq> [] \<longrightarrow> (\<exists>a'. decodeCursor next = Inr a' \<and>
          dlqMatched s q f a' = drop (page_size pg) (dlqMatched s q f a)))
    \<and> sorted_wrt (<) (map (\<lambda>(k, r). rdlqSeq r) (dlqMatched s q f a))
    \<and> (\<forall>k r. (k, r) \<in> set (dlqMatched s q f a) \<longleftrightarrow>
          lookup s k = Some r \<and> isDead q r \<and> a < rdlqSeq r \<and> matchFilter r f)"
proof -
  let ?m = "dlqMatched s q f a"
  have "dlqMatched s q f (rdlqSeq (snd (last (take (page_size pg) ?m)))) = drop (page_size pg) ?m"
    if "page_size pg < length ?m"
    using dlqMatched_after [OF assms(1) page_size_pos] that by simp
  then show ?thesis
    using dlqMatched_strict [OF assms(1), of q f a] page_size_pos [of pg]
    by (auto simp: DLQList_unfold [OF assms(2)] Let_def set_dlqMatched [OF assms(1)]
        encodeCursor_nonempty decode_encodeCursor)
qed

definition no_filter :: dlq_filter where
  "no_filter = \<lparr>FErrorType = [], FHandlerRef = [], DeadLetteredAfter = None,
     DeadLetteredBefore = None, IncludeAttempts = True\<rparr>"

theorem DLQList_pages_witness:
  "\<exists>next. DLQList sample_dead ''q'' no_filter \<lparr>Limit = 1, After = []\<rparr> =
     Inr (map (page_view no_filter) (take (page_size \<lparr>Limit = 1, After = []\<rparr>)
       (dlqMatched sample_dead ''q'' no_filter 0)), next)"
  using DLQList_pages [OF wf_sample_dead, of "\<lparr>Limit = 1, After = []\<rparr>" 0 "''q''" no_filter]
  by (auto simp: decodeCursor_def)

section \<open>Statistics\<close>

lemma statsLoop_counts:
  "Pending (fst (statsLoop q rs st old)) = Pending st +
     int (length (filter (\<lambda>(k, r). Queue (env r) = q \<and> Status (env r) = StatusPending) rs))"
  "InFlight (fst (statsLoop q rs st old)) = InFlight st +
     int (length (filter (\<lambda>(k, r). Queue (env r) = q \<and> Status (env r) = StatusInFlight) rs))"
  "DLQDepth (fst (statsLoop q rs st old)) = DLQDepth st +
     int (length (filter (\<lambda>(k, r). isDead q r) rs))"
  "OldestPendingAge (fst (statsLoop q rs st old)) = OldestPendingAge st"
  by (induction q rs st old rule: statsLoop.induct) (auto simp: isDead_def)

definition older :: "time \<Rightarrow> time option \<Rightarrow> time option" where
  "older t old = Some (case old of None \<Rightarrow> t | Some t' \<Rightarrow> min t t')"

lemma fold_older: "fold older ts None = (if ts = [] then None else Some (Min (set ts)))"
proof (cases ts)
  case (Cons t ts')
  have "fold older us (Some u) = Some (fold min us u)" for us u
    by (induction us arbitrary: u) (simp_all add: older_def)
  then show ?thesis by (simp add: Cons older_def Min.set_eq_fold flip: list.simps(15))
qed simp

lemma statsLoop_oldest:
  "snd (statsLoop q rs st old) =
     fold older (map (\<lambda>(k, r). CreatedAt (env r))
       (filter (\<lambda>(k, r). Queue (env r) = q \<and> Status (env r) = StatusPending) rs)) old"
  by (induction q rs st old rule: statsLoop.induct)
    (simp_all add: older_def min_def split: option.splits)

lemma Stats_spec:
  assumes "wf_store s"
  shows "\<exists>st. Stats now s q = Inr st
    \<and> Pending st = int (card {k. \<exists>r. lookup s k = Some r \<and> Queue (env r) = q \<and> Status (env r) = StatusPending})
    \<and> InFlight st = int (card {k. \<exists>r. lookup s k = Some r \<and> Queue (env r) = q \<and> Status (env r) = StatusInFlight})
    \<and> DLQDepth st = int (card {k. \<exists>r. lookup s k = Some r \<and> isDead q r})
    \<and> OldestPendingAge st =
        (let ts = {CreatedAt (env r) | k r. lookup s k = Some r \<and> Queue (env r) = q \<and> Status (env r) = StatusPending}
         in if ts = {} then 0 else max 0 (time_sub now (Min ts)))"
proof -
  let ?st = "fst (statsLoop q (tasks s) \<lparr>Pending = 0, InFlight = 0, DLQDepth = 0, OldestPendingAge = 0\<rparr> None)"
  let ?old = "snd (statsLoop q (tasks s) \<lparr>Pending = 0, InFlight = 0, DLQDepth = 0, OldestPendingAge = 0\<rparr> None)"
  let ?ts = "{CreatedAt (env r) | k r. lookup s k = Some r \<and> Queue (env r) = q \<and> Status (env r) = StatusPending}"
  note d = wf_storeD(1) [OF assms]
  have c: "int (length (filter (\<lambda>(k, r). P r) (tasks s))) = int (card {k. \<exists>r. lookup s k = Some r \<and> P r})" for P
    by (simp add: length_filter_lookup [OF d])
  have "set (map (\<lambda>(k, r). CreatedAt (env r)) (filter (\<lambda>(k, r). Queue (env r) = q \<and> Status (env r) = StatusPending) (tasks s))) = ?ts"
    using in_tasks_lookup [OF d] by force
  then have o: "?old = (if ?ts = {} then None else Some (Min ?ts))"
    unfolding statsLoop_oldest fold_older by (metis (no_types, lifting) set_empty)
  have S: "Stats now s q = Inr (case ?old of None \<Rightarrow> ?st
       | Some t \<Rightarrow> if time_sub now t > 0 then ?st\<lparr>OldestPendingAge := time_sub now t\<rparr> else ?st)"
    by (auto simp: Stats_def Let_def split_beta' split: option.split)
  have "Pending ?st = int (card {k. \<exists>r. lookup s k = Some r \<and> Queue (env r) = q \<and> Status (env r) = StatusPending})"
    "InFlight ?st = int (card {k. \<exists>r. lookup s k = Some r \<and> Queue (env r) = q \<and> Status (env r) = StatusInFlight})"
    "DLQDepth ?st = int (card {k. \<exists>r. lookup s k = Some r \<and> isDead q r})" "OldestPendingAge ?st = 0"
    by (simp_all only: statsLoop_counts c) simp_all
  moreover define ts where ts: "ts = ?ts"
  moreover have "max 0 d = (if 0 < d then d else 0)" for d :: int by simp
  ultimately show ?thesis
    unfolding S o ts [symmetric] by (cases "ts = {}") (simp_all add: Let_def del: time_sub_nonpos)
qed

text \<open>The statistics of a queue count its pending, in-flight and dead tasks, and report the age
  of the oldest pending task, zero when there is none or when it was created in the future.\<close>

theorem Stats_counts:
  assumes "wf_store s"
  shows "\<exists>st. Stats now s q = Inr st
    \<and> Pending st = int (card {k. \<exists>r. lookup s k = Some r \<and> Queue (env r) = q \<and> Status (env r) = StatusPending})
    \<and> InFlight st = int (card {k. \<exists>r. lookup s k = Some r \<and> Queue (env r) = q \<and> Status (env r) = StatusInFlight})
    \<and> DLQDepth st = int (card {k. \<exists>r. lookup s k = Some r \<and> isDead q r})
    \<and> OldestPendingAge st =
        (let ts = {CreatedAt (env r) | k r. lookup s k = Some r \<and> Queue (env r) = q \<and> Status (env r) = StatusPending}
         in if ts = {} then 0 else max 0 (time_sub now (Min ts)))"
  using assms by (rule Stats_spec)

theorem Stats_counts_witness:
  "\<exists>st. Stats 9 sample_dead ''q'' = Inr st \<and>
     DLQDepth st = int (card {k. \<exists>r. lookup sample_dead k = Some r \<and> isDead ''q'' r})"
  using Stats_counts [OF wf_sample_dead, of 9 "''q''"] by blast

end
