(* ===== verification/Storage_Contract.thy ===== *)
theory Storage_Contract
  imports Spi Rdq_Prelude
begin

text \<open>
  The contract a storage backend gives the worker: what each outcome write does to a claim that
  is held and to one that is not, and what a claiming call hands out. A backend is its
  operations together with an invariant, the task behind each id and the claims held on it.
  Backends differ in what they can store: \<open>fits\<close> says which attempts a backend can append to a
  task, \<open>kept\<close> and \<open>stamp\<close> in what form it keeps an attempt and a time, \<open>expiry\<close> when a lease ends.
\<close>

text \<open>The task an accepted outcome write leaves.\<close>

definition settled :: "status \<Rightarrow> time option \<Rightarrow> attempt \<Rightarrow> envelope \<Rightarrow> envelope" where
  "settled st nextAt att e = e\<lparr>Status := st, NextAttemptAt := nextAt, LeaseExpiresAt := None,
     Attempts := Attempts e @ [att], AttemptCount := AttemptCount e + 1\<rparr>"

definition only_changes :: "('s \<Rightarrow> task_id \<Rightarrow> envelope option) \<Rightarrow> task_id \<Rightarrow> envelope \<Rightarrow> 's \<Rightarrow> 's \<Rightarrow> bool" where
  "only_changes task_at k e s s' \<longleftrightarrow>
     task_at s' k = Some e \<and> (\<forall>k'. k' \<noteq> k \<longrightarrow> task_at s' k' = task_at s k')"

locale fenced_storage =
  fixes ops :: "'s storage" and inv :: "'s \<Rightarrow> bool"
    and task_at :: "'s \<Rightarrow> task_id \<Rightarrow> envelope option"
    and held :: "'s \<Rightarrow> task_id \<Rightarrow> claim_token \<Rightarrow> bool"
    and fits :: "'s \<Rightarrow> task_id \<Rightarrow> attempt \<Rightarrow> bool"
    and kept :: "attempt \<Rightarrow> attempt" and stamp :: "time \<Rightarrow> time" and expiry :: "time \<Rightarrow> duration \<Rightarrow> time"
  assumes held_in_flight:
      "inv s \<Longrightarrow> held s k tok \<Longrightarrow> \<exists>e. task_at s k = Some e \<and> Status e = StatusInFlight"
    and complete_held: "inv s \<Longrightarrow> held s k tok \<Longrightarrow> task_at s k = Some e \<Longrightarrow> fits s k att \<Longrightarrow>
      \<exists>s'. st_Complete ops now s k tok att = (None, s') \<and>
        only_changes task_at k (settled StatusSucceeded None (kept att) e) s s'"
    and dead_held: "inv s \<Longrightarrow> held s k tok \<Longrightarrow> task_at s k = Some e \<Longrightarrow> fits s k att \<Longrightarrow>
      \<exists>s'. st_DeadLetter ops now s k tok att = (None, s') \<and>
        only_changes task_at k (settled StatusDead None (kept att) e) s s'"
    and reschedule_held: "inv s \<Longrightarrow> held s k tok \<Longrightarrow> task_at s k = Some e \<Longrightarrow> fits s k att \<Longrightarrow>
      \<exists>s'. st_Reschedule ops s k tok att nextAt = (None, s') \<and>
        only_changes task_at k (settled StatusPending (Some (stamp nextAt)) (kept att) e) s s'"
    and extend_held: "inv s \<Longrightarrow> held s k tok \<Longrightarrow> task_at s k = Some e \<Longrightarrow>
      \<exists>s'. st_ExtendLease ops now s k tok l = (None, s') \<and>
        only_changes task_at k (e\<lparr>LeaseExpiresAt := Some (expiry now l)\<rparr>) s s' \<and> held s' k tok \<and> inv s'"
    and complete_stale: "inv s \<Longrightarrow> \<not> held s k tok \<Longrightarrow>
      \<exists>err. st_Complete ops now s k tok att = (Some err, s)"
    and dead_stale: "inv s \<Longrightarrow> \<not> held s k tok \<Longrightarrow>
      \<exists>err. st_DeadLetter ops now s k tok att = (Some err, s)"
    and reschedule_stale: "inv s \<Longrightarrow> \<not> held s k tok \<Longrightarrow>
      \<exists>err. st_Reschedule ops s k tok att nextAt = (Some err, s)"
    and extend_stale: "inv s \<Longrightarrow> \<not> held s k tok \<Longrightarrow>
      \<exists>err. st_ExtendLease ops now s k tok l = (Some err, s)"
begin

text \<open>
  An outcome write of a storable attempt is accepted exactly for a held claim, and after it the
  claim is not held.
\<close>

lemma accepted_iff_held:
  assumes "inv s" "fits s k att"
  shows "fst (st_Complete ops now s k tok att) = None \<longleftrightarrow> held s k tok"
    "fst (st_DeadLetter ops now s k tok att) = None \<longleftrightarrow> held s k tok"
    "fst (st_Reschedule ops s k tok att nextAt) = None \<longleftrightarrow> held s k tok"
    "fst (st_ExtendLease ops now s k tok l) = None \<longleftrightarrow> held s k tok"
  using assms held_in_flight complete_held complete_stale dead_held dead_stale
    reschedule_held reschedule_stale extend_held extend_stale
  by (metis fst_conv option.distinct(1))+

lemma settled_not_held:
  assumes "inv s'" "only_changes task_at k (settled st nextAt att e) s s'" "st \<noteq> StatusInFlight"
  shows "\<not> held s' k tok"
  using held_in_flight [OF assms(1), of k tok] assms(2,3)
  by (auto simp: only_changes_def settled_def)

end

text \<open>
  Claiming: a call that fails changes nothing; a batch is within the limit, every task handed out
  is held under its token, and no other task changes.
\<close>

locale claiming_storage = fenced_storage +
  assumes claim_failed: "inv s \<Longrightarrow> st_ClaimDue ops now s q limit l = (Inl err, s') \<Longrightarrow> s' = s"
    and claim_result: "inv s \<Longrightarrow> st_ClaimDue ops now s q limit l = (Inr cs, s') \<Longrightarrow>
      int (length cs) \<le> max 0 limit \<and> distinct (map (\<lambda>c. ID (Task c)) cs) \<and>
      (\<forall>c \<in> set cs. held s' (ID (Task c)) (Token c) \<and> task_at s' (ID (Task c)) = Some (Task c) \<and>
         Queue (Task c) = q \<and> LeaseExpiresAt (Task c) = Some (expiry now l)) \<and>
      (\<forall>k. k \<notin> (\<lambda>c. ID (Task c)) ` set cs \<longrightarrow> task_at s' k = task_at s k)"

end
