(* ===== verification/Memstore_Contract.thy ===== *)
theory Memstore_Contract
  imports Memstore_Trace Storage_Contract
begin

text \<open>
  The in-memory store provides the storage contract: its invariant is well-formedness with
  room left in the counters, a claim is held when the record is in flight under the token.
\<close>

definition mem_inv :: "store \<Rightarrow> bool" where
  "mem_inv s \<longleftrightarrow> wf_store s \<and> claim_room s \<and> dlq_room s"

definition mem_task_at :: "store \<Rightarrow> task_id \<Rightarrow> envelope option" where
  "mem_task_at s k = map_option env (lookup s k)"

definition mem_held :: "store \<Rightarrow> task_id \<Rightarrow> claim_token \<Rightarrow> bool" where
  "mem_held s k tok \<longleftrightarrow> (\<exists>r. resolveClaim s k tok = Inr r)"

lemma mem_held_iff:
  "mem_held s k tok \<longleftrightarrow> (\<exists>r. lookup s k = Some r \<and> Status (env r) = StatusInFlight \<and> token r = tok \<and> tok \<noteq> [])"
  by (auto simp: mem_held_def resolveClaim_Inr)

lemma not_mem_held: "\<not> mem_held s k tok \<Longrightarrow> resolveClaim s k tok = Inl ErrStaleClaim"
  by (cases rule: resolveClaim_cases [of s k tok]) (auto simp: mem_held_def)

lemma settled_envs:
  "env (completed now att r) = settled StatusSucceeded None att (env r)"
  "env (deadLettered now seq att r) = settled StatusDead None att (env r)"
  "env (rescheduled att t r) = settled StatusPending (Some t) att (env r)"
  by (simp_all add: record_effects settled_def appendAttempt_def Let_def)

lemma put_only_changes:
  "tasks s' = tasks s \<Longrightarrow> only_changes mem_task_at k (env r) s (put s' k r)"
  by (auto simp: only_changes_def mem_task_at_def)

lemma memstore_ops [simp]:
  "st_Complete memstore = Complete" "st_DeadLetter memstore = DeadLetter"
  "st_Reschedule memstore = Reschedule" "st_ExtendLease memstore = ExtendLease"
  "st_ClaimDue memstore = ClaimDue" "st_DLQList memstore = DLQList"
  "st_Redrive memstore = Redrive" "st_Purge memstore = Purge" "st_Enqueue memstore = Enqueue"
  "st_PurgeSucceeded memstore = PurgeSucceeded" "st_Capabilities memstore = Capabilities"
  "st_Get memstore = Get" "st_Stats memstore = Stats"
  by (simp_all add: memstore_def)

lemma mem_inv_ExtendLease:
  assumes "mem_inv s" "resolveClaim s k tok = Inr r"
  shows "mem_inv (put s k (extended now l r))"
proof -
  have "wf_store (put s k (extended now l r))"
    using wf_ExtendLease [of s now k tok l] assms outcome_live(1) [OF assms(2)] by (simp add: mem_inv_def)
  moreover have "length (tasks (put s k (extended now l r))) = length (tasks s)"
    using assms(2) by (simp add: put_def resolveClaim_Inr length_AList_update keys_map_of)
  ultimately show ?thesis using assms(1) by (simp add: mem_inv_def claim_room_def dlq_room_def)
qed

lemma mem_held_record:
  assumes "mem_held s k tok" "mem_task_at s k = Some e"
  obtains r where "resolveClaim s k tok = Inr r" "env r = e" "lookup s k = Some r"
proof -
  obtain r where r: "resolveClaim s k tok = Inr r" using assms(1) by (auto simp: mem_held_def)
  then have l: "lookup s k = Some r" by (simp add: resolveClaim_Inr)
  then show thesis using that [OF r _ l] assms(2) by (simp add: mem_task_at_def)
qed

lemma mem_held_in_flight:
  "mem_inv s \<Longrightarrow> mem_held s k tok \<Longrightarrow> \<exists>e. mem_task_at s k = Some e \<and> Status e = StatusInFlight"
  by (auto simp: mem_held_iff mem_task_at_def)

lemma mem_complete_held:
  assumes "mem_inv s" "mem_held s k tok" "mem_task_at s k = Some e"
  shows "\<exists>s'. st_Complete memstore now s k tok att = (None, s') \<and>
    only_changes mem_task_at k (settled StatusSucceeded None att e) s s'"
proof -
  obtain r where r: "resolveClaim s k tok = Inr r" "env r = e" using mem_held_record [OF assms(2,3)] by blast
  show ?thesis
    using put_only_changes [of s s k "completed now att r"] by (simp add: outcome_live [OF r(1)] settled_envs r(2))
qed

lemma mem_dead_held:
  assumes "mem_inv s" "mem_held s k tok" "mem_task_at s k = Some e"
  shows "\<exists>s'. st_DeadLetter memstore now s k tok att = (None, s') \<and>
    only_changes mem_task_at k (settled StatusDead None att e) s s'"
proof -
  obtain r where r: "resolveClaim s k tok = Inr r" "env r = e" using mem_held_record [OF assms(2,3)] by blast
  show ?thesis
    using put_only_changes [of "s\<lparr>dlqSeq := dlqSeq s + 1\<rparr>" s k "deadLettered now (dlqSeq s + 1) att r"]
    by (simp add: outcome_live [OF r(1)] settled_envs r(2))
qed

lemma mem_reschedule_held:
  assumes "mem_inv s" "mem_held s k tok" "mem_task_at s k = Some e"
  shows "\<exists>s'. st_Reschedule memstore s k tok att nextAt = (None, s') \<and>
    only_changes mem_task_at k (settled StatusPending (Some nextAt) att e) s s'"
proof -
  obtain r where r: "resolveClaim s k tok = Inr r" "env r = e" using mem_held_record [OF assms(2,3)] by blast
  show ?thesis
    using put_only_changes [of s s k "rescheduled att nextAt r"] by (simp add: outcome_live [OF r(1)] settled_envs r(2))
qed

lemma mem_extend_held:
  assumes "mem_inv s" "mem_held s k tok" "mem_task_at s k = Some e"
  shows "\<exists>s'. st_ExtendLease memstore now s k tok l = (None, s') \<and>
    only_changes mem_task_at k (e\<lparr>LeaseExpiresAt := Some (now + l)\<rparr>) s s' \<and> mem_held s' k tok \<and> mem_inv s'"
proof -
  obtain r where r: "resolveClaim s k tok = Inr r" "env r = e" using mem_held_record [OF assms(2,3)] by blast
  have e: "env (extended now l r) = e\<lparr>LeaseExpiresAt := Some (now + l)\<rparr>" by (simp add: extended_def r(2))
  have "mem_held (put s k (extended now l r)) k tok"
    using r by (auto simp: mem_held_iff resolveClaim_Inr extended_def)
  then show ?thesis
    using put_only_changes [of s s k "extended now l r"] mem_inv_ExtendLease [OF assms(1) r(1)]
    by (simp add: outcome_live [OF r(1)] e)
qed

lemma mem_stale:
  assumes "mem_inv s" "\<not> mem_held s k tok"
  shows "\<exists>err. st_Complete memstore now s k tok att = (Some err, s)"
    "\<exists>err. st_DeadLetter memstore now s k tok att = (Some err, s)"
    "\<exists>err. st_Reschedule memstore s k tok att nextAt = (Some err, s)"
    "\<exists>err. st_ExtendLease memstore now s k tok l = (Some err, s)"
  by (simp_all add: outcome_stale [OF not_mem_held [OF assms(2)]])

text \<open>The store keeps attempts and times as they are, and every attempt fits.\<close>

interpretation mem: fenced_storage memstore mem_inv mem_task_at mem_held
  "\<lambda>s k att. True" "\<lambda>att. att" "\<lambda>t. t" "\<lambda>now l. now + l"
proof (unfold_locales, goal_cases)
  case 1 then show ?case by (rule mem_held_in_flight)
next
  case 2 then show ?case by (blast intro: mem_complete_held)
next
  case 3 then show ?case by (blast intro: mem_dead_held)
next
  case 4 then show ?case by (blast intro: mem_reschedule_held)
next
  case 5 then show ?case by (rule mem_extend_held)
qed (rule mem_stale; assumption)+

interpretation mem: claiming_storage memstore mem_inv mem_task_at mem_held
  "\<lambda>s k att. True" "\<lambda>att. att" "\<lambda>t. t" "\<lambda>now l. now + l"
proof
  fix s now q limit l err s'
  show "mem_inv s \<Longrightarrow> st_ClaimDue memstore now s q limit l = (Inl err, s') \<Longrightarrow> s' = s"
    by (simp add: ClaimDue_batch)
next
  fix s now q limit l cs s'
  assume inv: "mem_inv s" and c: "st_ClaimDue memstore now s q limit l = (Inr cs, s')"
  from inv have wf: "wf_store s" and room: "claim_room s" by (simp_all add: mem_inv_def)
  let ?b = "batch s q now limit"
  have C: "ClaimDue now s q limit l = (Inr cs, s')" using c by simp
  then have cs_def: "cs = fst (claimLoop now l ?b s)" and s'_def: "s' = snd (claimLoop now l ?b s)"
    by (auto simp: ClaimDue_batch)
  have ids: "map (\<lambda>c. ID (Task c)) cs = map fst ?b" by (rule claimed_ids [OF wf room C])
  have "int (length cs) \<le> max 0 limit" by (simp add: cs_def batch_def)
  moreover have "distinct (map (\<lambda>c. ID (Task c)) cs)" using ids distinct_batch [OF wf] by simp
  moreover have "\<forall>c \<in> set cs. mem_held s' (ID (Task c)) (Token c) \<and> mem_task_at s' (ID (Task c)) = Some (Task c) \<and>
         Queue (Task c) = q \<and> LeaseExpiresAt (Task c) = Some (now + l)"
  proof
    fix c assume "c \<in> set cs"
    then obtain r where r: "lookup s (ID (Task c)) = Some r" "Queue (env r) = q"
      "lookup s' (ID (Task c)) = Some (claimRec now l (Token c) r)" "Task c = env (claimRec now l (Token c) r)"
      using claimed_spec [OF wf room C] by blast
    have "wf_store s'" using wf_ClaimDue [OF wf room, of now q limit l] C by simp
    then have "Token c \<noteq> []"
      using wf_storeD(2) [OF _ r(3)] by (auto simp: wf_rec_def)
    then show "mem_held s' (ID (Task c)) (Token c) \<and> mem_task_at s' (ID (Task c)) = Some (Task c) \<and>
         Queue (Task c) = q \<and> LeaseExpiresAt (Task c) = Some (now + l)"
      using r by (simp add: mem_held_iff mem_task_at_def)
  qed
  moreover have "\<forall>k. k \<notin> (\<lambda>c. ID (Task c)) ` set cs \<longrightarrow> mem_task_at s' k = mem_task_at s k"
  proof (intro allI impI)
    fix k assume "k \<notin> (\<lambda>c. ID (Task c)) ` set cs"
    then have "k \<notin> fst ` set ?b" using ids by (metis list.set_map)
    then show "mem_task_at s' k = mem_task_at s k" by (simp add: s'_def mem_task_at_def claimLoop_other)
  qed
  ultimately show "int (length cs) \<le> max 0 limit \<and> distinct (map (\<lambda>c. ID (Task c)) cs) \<and>
      (\<forall>c \<in> set cs. mem_held s' (ID (Task c)) (Token c) \<and> mem_task_at s' (ID (Task c)) = Some (Task c) \<and>
         Queue (Task c) = q \<and> LeaseExpiresAt (Task c) = Some (now + l)) \<and>
      (\<forall>k. k \<notin> (\<lambda>c. ID (Task c)) ` set cs \<longrightarrow> mem_task_at s' k = mem_task_at s k)"
    by blast
qed

end
