(* ===== verification/Go_Float.thy ===== *)
theory Go_Float
  imports Rdq_Prelude "HOL-Library.Log_Nat"
begin

text \<open>
  Go's \<open>float64\<close> as the policy and rate-limit code uses it: IEEE 754 binary64 values as
  rationals with the two infinities and NaN, every arithmetic operation rounding its exact
  result to the nearest representable value, ties to even. The two zeros are identified; the
  code never tells them apart. The conversion of an out-of-range float to an integer, which the
  language leaves to the implementation, is a parameter.
\<close>

section \<open>Rounding\<close>

definition pow2 :: "int \<Rightarrow> rat" where
  "pow2 e = (if 0 \<le> e then 2 ^ nat e else 1 / 2 ^ nat (- e))"

definition round_even :: "rat \<Rightarrow> int" where
  "round_even q = (let f = \<lfloor>q\<rfloor>; d = q - of_int f in
     if d < 1 / 2 then f else if d > 1 / 2 then f + 1 else if even f then f else f + 1)"

text \<open>The binary exponent of a positive rational.\<close>

definition ilog2 :: "rat \<Rightarrow> int" where
  "ilog2 q = (let (a, b) = quotient_of q; k = bitlen a - bitlen b
     in if pow2 k \<le> q then k else k - 1)"

definition ulp_exp :: "rat \<Rightarrow> int" where
  "ulp_exp q = max (ilog2 q - 52) (- 1074)"

definition round_mag :: "rat \<Rightarrow> rat" where
  "round_mag q = of_int (round_even (q / pow2 (ulp_exp q))) * pow2 (ulp_exp q)"

datatype f64 = Fin rat | PInf | NInf | NaN

definition round_f64 :: "rat \<Rightarrow> f64" where
  "round_f64 q =
     (if q = 0 then Fin 0
      else if q > 0 then (if round_mag q \<ge> pow2 1024 then PInf else Fin (round_mag q))
      else (if round_mag (- q) \<ge> pow2 1024 then NInf else Fin (- round_mag (- q))))"

section \<open>Comparison\<close>

fun f_lt :: "f64 \<Rightarrow> f64 \<Rightarrow> bool" where
  "f_lt (Fin a) (Fin b) = (a < b)"
| "f_lt (Fin a) PInf = True"
| "f_lt NInf (Fin b) = True"
| "f_lt NInf PInf = True"
| "f_lt _ _ = False"

fun f_le :: "f64 \<Rightarrow> f64 \<Rightarrow> bool" where
  "f_le (Fin a) (Fin b) = (a \<le> b)"
| "f_le (Fin a) PInf = True"
| "f_le NInf (Fin b) = True"
| "f_le NInf PInf = True"
| "f_le PInf PInf = True"
| "f_le NInf NInf = True"
| "f_le _ _ = False"

fun f_eq :: "f64 \<Rightarrow> f64 \<Rightarrow> bool" where
  "f_eq NaN _ = False"
| "f_eq _ NaN = False"
| "f_eq a b = (a = b)"

section \<open>Arithmetic\<close>

fun f_add :: "f64 \<Rightarrow> f64 \<Rightarrow> f64" where
  "f_add (Fin a) (Fin b) = round_f64 (a + b)"
| "f_add NaN _ = NaN"
| "f_add _ NaN = NaN"
| "f_add PInf NInf = NaN"
| "f_add NInf PInf = NaN"
| "f_add PInf _ = PInf"
| "f_add _ PInf = PInf"
| "f_add NInf _ = NInf"
| "f_add _ NInf = NInf"

fun f_neg :: "f64 \<Rightarrow> f64" where
  "f_neg (Fin a) = Fin (- a)"
| "f_neg PInf = NInf"
| "f_neg NInf = PInf"
| "f_neg NaN = NaN"

definition f_sub :: "f64 \<Rightarrow> f64 \<Rightarrow> f64" where
  "f_sub a b = f_add a (f_neg b)"

fun f_mul :: "f64 \<Rightarrow> f64 \<Rightarrow> f64" where
  "f_mul (Fin a) (Fin b) = round_f64 (a * b)"
| "f_mul NaN _ = NaN"
| "f_mul _ NaN = NaN"
| "f_mul (Fin a) PInf = (if a = 0 then NaN else if a > 0 then PInf else NInf)"
| "f_mul (Fin a) NInf = (if a = 0 then NaN else if a > 0 then NInf else PInf)"
| "f_mul PInf (Fin b) = (if b = 0 then NaN else if b > 0 then PInf else NInf)"
| "f_mul NInf (Fin b) = (if b = 0 then NaN else if b > 0 then NInf else PInf)"
| "f_mul PInf PInf = PInf"
| "f_mul NInf NInf = PInf"
| "f_mul _ _ = NInf"

text \<open>Division of finite values by a positive finite value, the only form the code uses.\<close>

fun f_div :: "f64 \<Rightarrow> f64 \<Rightarrow> f64" where
  "f_div (Fin a) (Fin b) = (if b = 0 then (if a = 0 then NaN else if a > 0 then PInf else NInf)
     else round_f64 (a / b))"
| "f_div (Fin a) PInf = Fin 0"
| "f_div (Fin a) NInf = Fin 0"
| "f_div PInf (Fin b) = (if b \<ge> 0 then PInf else NInf)"
| "f_div NInf (Fin b) = (if b \<ge> 0 then NInf else PInf)"
| "f_div _ _ = NaN"

section \<open>Conversions\<close>

definition f_of_int :: "int \<Rightarrow> f64" where
  "f_of_int n = round_f64 (of_int n)"

definition trunc_rat :: "rat \<Rightarrow> int" where
  "trunc_rat q = (if q \<ge> 0 then \<lfloor>q\<rfloor> else - \<lfloor>- q\<rfloor>)"

text \<open>\<open>int64(x)\<close>: truncation towards zero; \<open>oob\<close> is what the implementation gives when the
  truncated value is not an int64.\<close>

definition int64_of_f64 :: "(f64 \<Rightarrow> int) \<Rightarrow> f64 \<Rightarrow> int" where
  "int64_of_f64 oob x = (case x of
      Fin q \<Rightarrow> if min_int64 \<le> trunc_rat q \<and> trunc_rat q \<le> max_int64 then trunc_rat q else oob x
    | _ \<Rightarrow> oob x)"

section \<open>\<open>math.Pow\<close> at a non-negative integral exponent\<close>

text \<open>\<open>Frexp\<close> of a positive finite value: a fraction in [1/2, 1) and a binary exponent.\<close>

definition frexp :: "rat \<Rightarrow> rat \<times> int" where
  "frexp q = (let e = ilog2 q + 1 in (q / pow2 e, e))"

definition f_ldexp :: "f64 \<Rightarrow> int \<Rightarrow> f64" where
  "f_ldexp x e = (case x of Fin q \<Rightarrow> round_f64 (q * pow2 e) | _ \<Rightarrow> x)"

text \<open>The multiplication loop over the bits of the exponent.\<close>

function pow_loop :: "int \<Rightarrow> f64 \<Rightarrow> int \<Rightarrow> f64 \<Rightarrow> int \<Rightarrow> f64 \<times> int" where
  "pow_loop i a1 ae x1 xe =
     (if i \<le> 0 then (a1, ae)
      else if xe < - 4096 \<or> 4096 < xe then (a1, ae + xe)
      else let (a1, ae) = (if odd i then (f_mul a1 x1, ae + xe) else (a1, ae));
               x2 = f_mul x1 x1; xe2 = 2 * xe;
               (x3, xe3) = (if f_lt x2 (Fin (1 / 2)) then (f_add x2 x2, xe2 - 1) else (x2, xe2))
           in pow_loop (i div 2) a1 ae x3 xe3)"
  by pat_completeness auto
termination by (relation "measure (\<lambda>(i, _). nat i)") auto

declare pow_loop.simps [simp del]

definition PowInt :: "f64 \<Rightarrow> int \<Rightarrow> f64" where
  "PowInt x y =
     (if y = 0 \<or> x = Fin 1 then Fin 1
      else if y = 1 then x
      else case x of
          NaN \<Rightarrow> NaN
        | PInf \<Rightarrow> PInf
        | NInf \<Rightarrow> if odd y then NInf else PInf
        | Fin q \<Rightarrow>
            if q = 0 then Fin 0
            else if y \<ge> 2 ^ 63 then
              (if q = - 1 then Fin 1 else if \<bar>q\<bar> < 1 then Fin 0 else PInf)
            else let (f, e) = frexp \<bar>q\<bar>;
                     x1 = (if q < 0 then - f else f);
                     (a1, ae) = pow_loop y (Fin 1) 0 (Fin x1) e
                 in f_ldexp a1 ae)"

text \<open>The exponents the code passes are floats of non-negative integers.\<close>

definition Pow :: "f64 \<Rightarrow> f64 \<Rightarrow> f64" where
  "Pow x y = (case y of Fin k \<Rightarrow> PowInt x \<lfloor>k\<rfloor> | _ \<Rightarrow> NaN)"

section \<open>Facts on rounding\<close>

lemma pow2_powi: "pow2 e = 2 powi e"
  by (simp add: pow2_def power_int_def inverse_eq_divide power_one_over)

lemma pow2_pos [simp]: "0 < pow2 e"
  by (simp add: pow2_powi)

lemma pow2_nonneg [simp]: "0 \<le> pow2 e"
  using pow2_pos [of e] by linarith

lemma pow2_nonzero [simp]: "pow2 e \<noteq> 0"
  using pow2_pos [of e] by linarith

lemma pow2_add: "pow2 (a + b) = pow2 a * pow2 b"
  by (simp add: pow2_powi power_int_add)

lemma pow2_diff: "pow2 (a - b) = pow2 a / pow2 b"
  by (simp add: pow2_powi power_int_diff)

lemma pow2_mono: "a \<le> b \<Longrightarrow> pow2 a \<le> pow2 b"
  by (simp add: pow2_powi power_int_increasing)

lemma pow2_strict: "a < b \<Longrightarrow> pow2 a < pow2 b"
  by (simp add: pow2_powi power_int_strict_increasing)

lemma div_pow2_mono: "q \<le> r \<Longrightarrow> q / pow2 u \<le> r / pow2 u"
  by (rule divide_right_mono) simp_all

lemma pow2_int: "0 \<le> e \<Longrightarrow> pow2 e = of_int (2 ^ nat e)"
  by (simp add: pow2_def)

lemma pow2_simps [simp]: "pow2 0 = 1" "pow2 1 = 2"
  by (simp_all add: pow2_def)

lemma round_even_cases: "round_even q = \<lfloor>q\<rfloor> \<or> round_even q = \<lfloor>q\<rfloor> + 1"
  by (auto simp: round_even_def Let_def)

lemma round_even_mono: "q \<le> r \<Longrightarrow> round_even q \<le> round_even r"
proof (cases "\<lfloor>q\<rfloor> = \<lfloor>r\<rfloor>")
  case False
  assume "q \<le> r"
  then have "\<lfloor>q\<rfloor> < \<lfloor>r\<rfloor>" using False floor_mono [of q r] by linarith
  then show ?thesis using round_even_cases [of q] round_even_cases [of r] by linarith
next
  case True
  assume "q \<le> r"
  then show ?thesis using True by (auto simp: round_even_def Let_def)
qed

lemma round_even_of_int [simp]: "round_even (of_int n) = n"
  by (simp add: round_even_def)

lemma ilog2_bounds:
  assumes "0 < q"
  shows "pow2 (ilog2 q) \<le> q \<and> q < pow2 (ilog2 q + 1)"
proof -
  obtain a b where ab: "quotient_of q = (a, b)" by (cases "quotient_of q")
  have b: "b > 0" and q: "q = of_int a / of_int b"
    using ab quotient_of_denom_pos quotient_of_div by auto
  then have a: "a > 0" using assms by (simp add: zero_less_divide_iff)
  define i j where "i = bitlen a" and "j = bitlen b"
  have i: "i \<ge> 1" and j: "j \<ge> 1"
    using a b by (simp_all add: i_def j_def bitlen_alt_def)
  have bounds: "pow2 (i - 1) \<le> of_int a" "of_int a < pow2 i" "pow2 (j - 1) \<le> of_int b" "of_int b < pow2 j"
    using bitlen_bounds [OF a] bitlen_bounds [OF b] i j
    by (simp_all add: pow2_int i_def j_def flip: of_int_le_iff of_int_less_iff)
  have "q < pow2 i / pow2 (j - 1)"
    unfolding q using bounds a b by (intro frac_less) auto
  then have up: "q < pow2 (i - j + 1)"
    by (simp add: pow2_diff [symmetric] algebra_simps)
  have "pow2 (i - 1) / pow2 j \<le> q"
    unfolding q using bounds a b by (intro frac_le) auto
  then have lo: "pow2 (i - j - 1) \<le> q"
    by (simp add: pow2_diff [symmetric] algebra_simps)
  have "ilog2 q = (if pow2 (i - j) \<le> q then i - j else i - j - 1)"
    by (simp add: ilog2_def ab i_def j_def Let_def)
  then show ?thesis using up lo by (auto simp: not_le)
qed

lemma ilog2_unique: "pow2 e \<le> q \<Longrightarrow> q < pow2 (e + 1) \<Longrightarrow> ilog2 q = e"
proof -
  assume e: "pow2 e \<le> q" "q < pow2 (e + 1)"
  then have q: "0 < q" using pow2_pos [of e] by linarith
  note b = ilog2_bounds [OF q]
  have "\<not> ilog2 q + 1 \<le> e"
    using pow2_mono [of "ilog2 q + 1" e] b e by linarith
  moreover have "\<not> e + 1 \<le> ilog2 q"
    using pow2_mono [of "e + 1" "ilog2 q"] b e by linarith
  ultimately show ?thesis by simp
qed

lemma ilog2_mono: "0 < q \<Longrightarrow> q \<le> r \<Longrightarrow> ilog2 q \<le> ilog2 r"
proof (rule ccontr)
  assume q: "0 < q" "q \<le> r" and "\<not> ilog2 q \<le> ilog2 r"
  then have "pow2 (ilog2 r + 1) \<le> pow2 (ilog2 q)" by (intro pow2_mono) simp
  then show False using ilog2_bounds [of q] ilog2_bounds [of r] q by linarith
qed

text \<open>Rounding at a coarser or equal unit never crosses a power of two that both units divide.\<close>

lemma round_unit_le:
  assumes "u \<le> e" "q \<le> pow2 e"
  shows "of_int (round_even (q / pow2 u)) * pow2 u \<le> pow2 e"
proof -
  have "q / pow2 u \<le> pow2 (e - u)" using div_pow2_mono [OF assms(2)] by (simp add: pow2_diff)
  then have "round_even (q / pow2 u) \<le> 2 ^ nat (e - u)"
    using round_even_mono [of "q / pow2 u" "of_int (2 ^ nat (e - u))"] assms(1)
    by (simp add: pow2_int flip: of_int_power)
  then have "(of_int (round_even (q / pow2 u)) :: rat) \<le> pow2 (e - u)"
    using assms(1) by (simp add: pow2_int flip: of_int_le_iff)
  then show ?thesis by (simp add: pow2_diff pos_le_divide_eq)
qed

lemma round_unit_ge:
  assumes "u \<le> e" "pow2 e \<le> q"
  shows "pow2 e \<le> of_int (round_even (q / pow2 u)) * pow2 u"
proof -
  have "pow2 (e - u) \<le> q / pow2 u" using div_pow2_mono [OF assms(2)] by (simp add: pow2_diff)
  then have "2 ^ nat (e - u) \<le> round_even (q / pow2 u)"
    using round_even_mono [of "of_int (2 ^ nat (e - u))" "q / pow2 u"] assms(1)
    by (simp add: pow2_int flip: of_int_power)
  then have "pow2 (e - u) \<le> (of_int (round_even (q / pow2 u)) :: rat)"
    using assms(1) by (simp add: pow2_int flip: of_int_le_iff)
  then show ?thesis by (simp add: pow2_diff pos_divide_le_eq)
qed

lemma round_mag_mono:
  assumes "0 < q" "q \<le> r"
  shows "round_mag q \<le> round_mag r"
proof (cases "ulp_exp q = ulp_exp r")
  case True
  have "q / pow2 (ulp_exp q) \<le> r / pow2 (ulp_exp q)" using assms(2) by (rule div_pow2_mono)
  then have "round_even (q / pow2 (ulp_exp q)) \<le> round_even (r / pow2 (ulp_exp q))"
    by (rule round_even_mono)
  then show ?thesis unfolding round_mag_def True by (simp add: mult_right_mono)
next
  case False
  have le: "ilog2 q \<le> ilog2 r" using ilog2_mono [OF assms] .
  then have lt: "ilog2 q < ilog2 r" "ulp_exp q \<le> ilog2 r" "ulp_exp r \<le> ilog2 r"
    using False by (auto simp: ulp_exp_def max_def split: if_splits)
  have "q < pow2 (ilog2 q + 1)" "pow2 (ilog2 r) \<le> r"
    using ilog2_bounds [of q] ilog2_bounds [of r] assms by auto
  moreover have "pow2 (ilog2 q + 1) \<le> pow2 (ilog2 r)" using lt by (intro pow2_mono) simp
  ultimately show ?thesis
    unfolding round_mag_def
    using round_unit_le [OF lt(2), of q] round_unit_ge [OF lt(3), of r] by linarith
qed

lemma round_mag_nonneg: "0 < q \<Longrightarrow> 0 \<le> round_mag q"
  using round_even_mono [of 0 "q / pow2 (ulp_exp q)"] round_even_of_int [of 0]
  by (simp add: round_mag_def)

lemma round_mag_exact: "q / pow2 (ulp_exp q) = of_int n \<Longrightarrow> round_mag q = q"
  unfolding round_mag_def by (metis nonzero_eq_divide_eq pow2_nonzero round_even_of_int)

lemma round_f64_mono: "q \<le> r \<Longrightarrow> f_le (round_f64 q) (round_f64 r)"
  using round_mag_mono [of q r] round_mag_mono [of "- r" "- q"] round_mag_nonneg [of r]
    round_mag_nonneg [of "- q"] pow2_pos [of 1024]
  by (cases q "0 :: rat" rule: linorder_cases; cases r "0 :: rat" rule: linorder_cases)
    (auto simp: round_f64_def)

lemma round_f64_pow2:
  assumes "- 1022 \<le> e" "e < 1024"
  shows "round_f64 (pow2 e) = Fin (pow2 e)"
proof -
  have "ilog2 (pow2 e) = e" by (rule ilog2_unique) (simp_all add: pow2_strict)
  then have "ulp_exp (pow2 e) \<le> e" using assms by (simp add: ulp_exp_def)
  then have "pow2 e / pow2 (ulp_exp (pow2 e)) = of_int (2 ^ nat (e - ulp_exp (pow2 e)))"
    by (simp add: pow2_diff [symmetric] pow2_int)
  then have "round_mag (pow2 e) = pow2 e" by (rule round_mag_exact)
  then show ?thesis using pow2_strict [OF assms(2)] by (simp add: round_f64_def)
qed

lemma round_f64_int:
  assumes "\<bar>n\<bar> \<le> 2 ^ 53"
  shows "round_f64 (of_int n) = Fin (of_int n)"
proof -
  have pos: "round_mag (of_int m) = of_int m \<and> (of_int m :: rat) < pow2 1024"
    if "0 < m" "m \<le> 2 ^ 53" for m :: int
  proof -
    let ?q = "of_int m :: rat"
    have q: "0 < ?q" "?q \<le> pow2 53" using that by (simp_all add: pow2_int flip: of_int_le_iff)
    have e: "0 \<le> ilog2 ?q"
      using ilog2_mono [of 1 ?q] ilog2_unique [of 0 1] that by simp
    have e2: "ilog2 ?q \<le> 53"
      using ilog2_mono [OF q] ilog2_unique [of 53 "pow2 53"] by (simp add: pow2_strict)
    have u: "ulp_exp ?q = ilog2 ?q - 52" using e by (simp add: ulp_exp_def)
    have "\<exists>k. ?q / pow2 (ulp_exp ?q) = of_int k"
    proof (cases "ilog2 ?q = 53")
      case True
      then have "pow2 53 \<le> ?q" using ilog2_bounds [OF q(1)] by simp
      then have "?q = pow2 53" using q by simp
      then show ?thesis using u True by (simp add: pow2_diff [symmetric] pow2_int)
    next
      case False
      then have "?q / pow2 (ulp_exp ?q) = ?q * pow2 (52 - ilog2 ?q)"
        unfolding u using pow2_diff [of 52 "ilog2 ?q"] pow2_diff [of "ilog2 ?q" 52] by simp
      also have "\<dots> = of_int (m * 2 ^ nat (52 - ilog2 ?q))"
        using False e2 by (simp add: pow2_int)
      finally show ?thesis by blast
    qed
    then have "round_mag ?q = ?q" using round_mag_exact by blast
    moreover have "pow2 53 < pow2 1024" by (rule pow2_strict) simp
    ultimately show ?thesis using q by simp
  qed
  show ?thesis
    using pos [of n] pos [of "- n"] assms
    by (cases n "0 :: int" rule: linorder_cases) (auto simp: round_f64_def not_le)
qed

lemma f_of_int_exact: "\<bar>n\<bar> \<le> 2 ^ 53 \<Longrightarrow> f_of_int n = Fin (of_int n)"
  by (simp add: f_of_int_def round_f64_int)

lemma f_of_int_mono: "m \<le> n \<Longrightarrow> f_le (f_of_int m) (f_of_int n)"
  unfolding f_of_int_def by (rule round_f64_mono) simp

section \<open>Lower bounds\<close>

lemma f_le_trans: "f_le a b \<Longrightarrow> f_le b c \<Longrightarrow> f_le a c"
  by (cases a; cases b; cases c) auto

lemma f_mul_ge:
  assumes "f_le (Fin a) x" "f_le (Fin b) y" "0 < a" "0 < b"
  shows "f_le (round_f64 (a * b)) (f_mul x y)"
proof (cases "x = PInf \<or> y = PInf")
  case True
  then have "f_mul x y = PInf" using assms by (cases x; cases y) auto
  then show ?thesis by (simp add: round_f64_def)
next
  case False
  then obtain p q where xy: "x = Fin p" "y = Fin q" "a \<le> p" "b \<le> q"
    using assms(1,2) by (cases x; cases y) auto
  then have "a * b \<le> p * q" using assms(3,4) by (intro mult_mono) auto
  then show ?thesis by (simp add: xy round_f64_mono)
qed

lemma f_mul_ge_pow2:
  assumes "f_le (Fin (pow2 a)) x" "f_le (Fin (pow2 b)) y" "- 1022 \<le> a + b" "a + b < 1024"
  shows "f_le (Fin (pow2 (a + b))) (f_mul x y)"
  using f_mul_ge [OF assms(1,2)] round_f64_pow2 [OF assms(3,4)] by (simp add: pow2_add)

lemma f_add_ge:
  assumes "f_le (Fin a) x" "f_le (Fin b) y"
  shows "f_le (round_f64 (a + b)) (f_add x y)"
proof (cases "x = PInf \<or> y = PInf")
  case True
  then have "f_add x y = PInf" using assms by (cases x; cases y) auto
  then show ?thesis by (simp add: round_f64_def)
next
  case False
  then obtain p q where "x = Fin p" "y = Fin q" "a \<le> p" "b \<le> q"
    using assms by (cases x; cases y) auto
  then show ?thesis by (simp add: round_f64_mono)
qed

lemma half: "pow2 (- 1) = 1 / 2" "pow2 (- 2) = 1 / 4"
  by (simp_all add: pow2_def)

lemma pow_loop_ge:
  assumes "f_le (Fin (pow2 (- j))) a1" "j \<le> ae" "f_le (Fin (1 / 2)) x1" "1 \<le> xe" "0 \<le> j"
    "i < 2 ^ k" "j + int k \<le> 1000"
  shows "\<exists>j'. f_le (Fin (pow2 (- j'))) (fst (pow_loop i a1 ae x1 xe)) \<and>
    j' \<le> snd (pow_loop i a1 ae x1 xe)"
  using assms
proof (induction i a1 ae x1 xe arbitrary: j k rule: pow_loop.induct)
  case (1 i a1 ae x1 xe)
  show ?case
  proof (cases "i \<le> 0 \<or> xe < - 4096 \<or> 4096 < xe")
    case True
    then show ?thesis
      using "1.prems"(1,2,4) by (subst (1 2) pow_loop.simps) (auto intro!: exI [where x = j])
  next
    case False
    then obtain k' where k: "k = Suc k'" using "1.prems"(6) by (cases k) auto
    let ?a = "if odd i then f_mul a1 x1 else a1" and ?e = "if odd i then ae + xe else ae"
    let ?x2 = "f_mul x1 x1"
    let ?x3 = "if f_lt ?x2 (Fin (1 / 2)) then f_add ?x2 ?x2 else ?x2"
    let ?xe = "if f_lt ?x2 (Fin (1 / 2)) then 2 * xe - 1 else 2 * xe"
    let ?j = "if odd i then j + 1 else j"
    have step: "pow_loop i a1 ae x1 xe = pow_loop (i div 2) ?a ?e ?x3 ?xe"
      using False by (subst pow_loop.simps) (simp add: Let_def)
    have a: "f_le (Fin (pow2 (- ?j))) ?a" "?j \<le> ?e" "0 \<le> ?j" "?j + int k' \<le> 1000"
      using f_mul_ge_pow2 [of "- j" a1 "- 1" x1] "1.prems" k by (auto simp: half)
    have x2: "f_le (Fin (pow2 (- 2))) ?x2"
      using f_mul_ge_pow2 [of "- 1" x1 "- 1" x1] "1.prems"(3) by (simp add: half)
    then have x3: "f_le (Fin (1 / 2)) ?x3"
      using f_add_ge [OF x2 x2] round_f64_pow2 [of "- 1"]
      by (cases ?x2) (auto simp: half not_less)
    have "i div 2 < 2 ^ k'" using "1.prems"(6) k by auto
    moreover have "1 \<le> ?xe" using "1.prems"(4) by auto
    ultimately show ?thesis
      unfolding step using False a x3 by (intro "1.IH" [of "(?a, ?e)" _ _ _ _ "(?x3, ?xe)"]) (auto simp: Let_def)
  qed
qed

lemma PowInt_ge_one:
  assumes "f_le (Fin 1) x" "0 \<le> k"
  shows "f_le (Fin 1) (PowInt x k)"
proof (cases "k = 0 \<or> x = Fin 1 \<or> k = 1 \<or> x = PInf")
  case True
  then show ?thesis using assms by (auto simp: PowInt_def)
next
  case False
  then obtain q where q: "x = Fin q" "1 < q" using assms by (cases x) auto
  show ?thesis
  proof (cases "k \<ge> 2 ^ 63")
    case True
    then show ?thesis using False q by (auto simp: PowInt_def)
  next
    case less: False
    let ?f = "q / pow2 (ilog2 q + 1)" and ?e = "ilog2 q + 1"
    have b: "pow2 (ilog2 q) \<le> q" using ilog2_bounds [of q] q by simp
    have "0 \<le> ilog2 q" using ilog2_mono [of 1 q] ilog2_unique [of 0 1] q by simp
    moreover have "1 / 2 \<le> ?f" using b by (simp add: pow2_add pos_le_divide_eq)
    ultimately obtain j where j: "f_le (Fin (pow2 (- j))) (fst (pow_loop k (Fin 1) 0 (Fin ?f) ?e))"
      "j \<le> snd (pow_loop k (Fin 1) 0 (Fin ?f) ?e)"
      using pow_loop_ge [of 0 "Fin 1" 0 "Fin ?f" ?e k 63] less by auto
    let ?a = "fst (pow_loop k (Fin 1) 0 (Fin ?f) ?e)" and ?ae = "snd (pow_loop k (Fin 1) 0 (Fin ?f) ?e)"
    have "f_le (Fin 1) (f_ldexp ?a ?ae)"
    proof (cases ?a)
      case (Fin p)
      have "pow2 0 \<le> pow2 (- j) * pow2 ?ae"
        unfolding pow2_add [symmetric] using j(2) by (intro pow2_mono) simp
      also have "\<dots> \<le> p * pow2 ?ae" using j(1) Fin by (intro mult_right_mono) auto
      finally have "f_le (round_f64 1) (round_f64 (p * pow2 ?ae))" by (intro round_f64_mono) simp
      then show ?thesis using round_f64_pow2 [of 0] by (simp add: f_ldexp_def Fin)
    qed (use j(1) in \<open>auto simp: f_ldexp_def\<close>)
    then show ?thesis
      using False less q by (simp add: PowInt_def frexp_def Let_def split_beta)
  qed
qed

lemma round_between:
  assumes "of_int a \<le> q" "q \<le> of_int b" "\<bar>a\<bar> \<le> 2 ^ 53" "\<bar>b\<bar> \<le> 2 ^ 53"
  shows "\<exists>r. round_f64 q = Fin r \<and> of_int a \<le> r \<and> r \<le> of_int b"
proof -
  have "f_le (Fin (of_int a)) (round_f64 q)" "f_le (round_f64 q) (Fin (of_int b))"
    using round_f64_mono [OF assms(1)] round_f64_mono [OF assms(2)] round_f64_int [OF assms(3)]
      round_f64_int [OF assms(4)] by simp_all
  then show ?thesis by (cases "round_f64 q") auto
qed

end
