(* ===== verification/Config.thy ===== *)
theory Config
  imports Go_Float Go_Strconv Envelope
begin

text \<open>
  The queue-configuration contract (\<open>core/config\<close>): the schema, the per-key merge of the
  defaults under a queue, the value rules, and the loader. A pointer-typed key is an option,
  \<open>None\<close> meaning that the document does not set it; a slice-typed key is an optional list. The
  YAML decoder and the URL parser are parameters: a document arrives decoded, and
  \<open>urlParse\<close> gives a URL's scheme and host, or \<open>None\<close> for its parse error.
\<close>

section \<open>Schema\<close>

definition KnownConfigVersion :: int where "KnownConfigVersion = 1"
definition VersionMismatchRunLatest :: string where "VersionMismatchRunLatest = ''run-latest''"
definition VersionMismatchDeadLetter :: string where "VersionMismatchDeadLetter = ''dead-letter''"
definition ProtocolHTTP :: string where "ProtocolHTTP = ''http''"
definition ProtocolGRPC :: string where "ProtocolGRPC = ''grpc''"
definition AuthNone :: string where "AuthNone = ''none''"
definition AuthBearer :: string where "AuthBearer = ''bearer''"
definition AuthHeader :: string where "AuthHeader = ''header''"
definition secretRefEnvScheme :: string where "secretRefEnvScheme = ''env:''"

record rate =
  Count :: int
  Per :: duration

record status_matcher =
  Code :: int
  Class :: string

record retry_config =
  MaxAttempts :: "int option"
  InitialBackoff :: "duration option"
  BackoffMultiplier :: "f64 option"
  MaxBackoff :: "duration option"
  Jitter :: "f64 option"

record execution_config =
  Lease :: "duration option"
  HandlerTimeout :: "duration option"
  Heartbeat :: "bool option"

record limits_config =
  MaxPayloadSize :: "int option"
  TTLSucceeded :: "duration option"

record worker_config =
  BatchSize :: "int option"
  PollInterval :: "duration option"
  Concurrency :: "int option"
  RateLimit :: "rate option"

record classification_config =
  Retryable_globs :: "string list option"
  Permanent_globs :: "string list option"

record handler_config =
  VersionMismatch :: "string option"

record sync_retry_config =
  SAttempts :: "int option"
  SBackoff :: "duration option"

record callback_auth =
  AType :: "string option"
  SecretRef :: "string option"

record response_mapping =
  RetryableStatus :: "status_matcher list option"
  PermanentStatus :: "status_matcher list option"

record callback_config =
  Protocol :: "string option"
  URL :: "string option"
  CTimeout :: "duration option"
  CAuth :: "callback_auth option"
  ResponseMapping :: "response_mapping option"

record queue_config =
  QRetry :: "retry_config option"
  QExecution :: "execution_config option"
  QLimits :: "limits_config option"
  QWorker :: "worker_config option"
  QClassification :: "classification_config option"
  QHandler :: "handler_config option"
  QSyncRetry :: "sync_retry_config option"
  QCallback :: "callback_config option"

record config_doc =
  ConfigVersion :: int
  Defaults :: "queue_config option"
  Queues :: "queue_config option gomap"
  resolved :: "queue_config gomap"

definition empty_queue_config :: queue_config where
  "empty_queue_config = \<lparr>QRetry = None, QExecution = None, QLimits = None, QWorker = None,
     QClassification = None, QHandler = None, QSyncRetry = None, QCallback = None\<rparr>"

section \<open>Merging\<close>

definition override :: "'a option \<Rightarrow> 'a option \<Rightarrow> 'a option" where
  "override queue base = (case queue of Some v \<Rightarrow> Some v | None \<Rightarrow> base)"

definition overrideSlice :: "'a list option \<Rightarrow> 'a list option \<Rightarrow> 'a list option" where
  "overrideSlice queue base = (case queue of Some v \<Rightarrow> Some v | None \<Rightarrow> base)"

definition mergeRetry :: "retry_config option \<Rightarrow> retry_config option \<Rightarrow> retry_config option" where
  "mergeRetry base queue = (case base of None \<Rightarrow> queue | Some b \<Rightarrow>
     (case queue of None \<Rightarrow> Some b | Some q \<Rightarrow> Some
       \<lparr>MaxAttempts = override (MaxAttempts q) (MaxAttempts b),
        InitialBackoff = override (InitialBackoff q) (InitialBackoff b),
        BackoffMultiplier = override (BackoffMultiplier q) (BackoffMultiplier b),
        MaxBackoff = override (MaxBackoff q) (MaxBackoff b),
        Jitter = override (Jitter q) (Jitter b)\<rparr>))"

definition mergeExecution :: "execution_config option \<Rightarrow> execution_config option \<Rightarrow> execution_config option" where
  "mergeExecution base queue = (case base of None \<Rightarrow> queue | Some b \<Rightarrow>
     (case queue of None \<Rightarrow> Some b | Some q \<Rightarrow> Some
       \<lparr>Lease = override (Lease q) (Lease b),
        HandlerTimeout = override (HandlerTimeout q) (HandlerTimeout b),
        Heartbeat = override (Heartbeat q) (Heartbeat b)\<rparr>))"

definition mergeLimits :: "limits_config option \<Rightarrow> limits_config option \<Rightarrow> limits_config option" where
  "mergeLimits base queue = (case base of None \<Rightarrow> queue | Some b \<Rightarrow>
     (case queue of None \<Rightarrow> Some b | Some q \<Rightarrow> Some
       \<lparr>MaxPayloadSize = override (MaxPayloadSize q) (MaxPayloadSize b),
        TTLSucceeded = override (TTLSucceeded q) (TTLSucceeded b)\<rparr>))"

definition mergeWorker :: "worker_config option \<Rightarrow> worker_config option \<Rightarrow> worker_config option" where
  "mergeWorker base queue = (case base of None \<Rightarrow> queue | Some b \<Rightarrow>
     (case queue of None \<Rightarrow> Some b | Some q \<Rightarrow> Some
       \<lparr>BatchSize = override (BatchSize q) (BatchSize b),
        PollInterval = override (PollInterval q) (PollInterval b),
        Concurrency = override (Concurrency q) (Concurrency b),
        RateLimit = override (RateLimit q) (RateLimit b)\<rparr>))"

definition mergeClassification ::
  "classification_config option \<Rightarrow> classification_config option \<Rightarrow> classification_config option" where
  "mergeClassification base queue = (case base of None \<Rightarrow> queue | Some b \<Rightarrow>
     (case queue of None \<Rightarrow> Some b | Some q \<Rightarrow> Some
       \<lparr>Retryable_globs = overrideSlice (Retryable_globs q) (Retryable_globs b),
        Permanent_globs = overrideSlice (Permanent_globs q) (Permanent_globs b)\<rparr>))"

definition mergeHandler :: "handler_config option \<Rightarrow> handler_config option \<Rightarrow> handler_config option" where
  "mergeHandler base queue = (case base of None \<Rightarrow> queue | Some b \<Rightarrow>
     (case queue of None \<Rightarrow> Some b | Some q \<Rightarrow> Some
       \<lparr>VersionMismatch = override (VersionMismatch q) (VersionMismatch b)\<rparr>))"

definition mergeSyncRetry ::
  "sync_retry_config option \<Rightarrow> sync_retry_config option \<Rightarrow> sync_retry_config option" where
  "mergeSyncRetry base queue = (case base of None \<Rightarrow> queue | Some b \<Rightarrow>
     (case queue of None \<Rightarrow> Some b | Some q \<Rightarrow> Some
       \<lparr>SAttempts = override (SAttempts q) (SAttempts b),
        SBackoff = override (SBackoff q) (SBackoff b)\<rparr>))"

definition mergeCallbackAuth :: "callback_auth option \<Rightarrow> callback_auth option \<Rightarrow> callback_auth option" where
  "mergeCallbackAuth base queue = (case base of None \<Rightarrow> queue | Some b \<Rightarrow>
     (case queue of None \<Rightarrow> Some b | Some q \<Rightarrow> Some
       \<lparr>AType = override (AType q) (AType b), SecretRef = override (SecretRef q) (SecretRef b)\<rparr>))"

definition mergeResponseMapping ::
  "response_mapping option \<Rightarrow> response_mapping option \<Rightarrow> response_mapping option" where
  "mergeResponseMapping base queue = (case base of None \<Rightarrow> queue | Some b \<Rightarrow>
     (case queue of None \<Rightarrow> Some b | Some q \<Rightarrow> Some
       \<lparr>RetryableStatus = overrideSlice (RetryableStatus q) (RetryableStatus b),
        PermanentStatus = overrideSlice (PermanentStatus q) (PermanentStatus b)\<rparr>))"

definition mergeCallback :: "callback_config option \<Rightarrow> callback_config option \<Rightarrow> callback_config option" where
  "mergeCallback base queue = (case base of None \<Rightarrow> queue | Some b \<Rightarrow>
     (case queue of None \<Rightarrow> Some b | Some q \<Rightarrow> Some
       \<lparr>Protocol = override (Protocol q) (Protocol b),
        URL = override (URL q) (URL b),
        CTimeout = override (CTimeout q) (CTimeout b),
        CAuth = mergeCallbackAuth (CAuth b) (CAuth q),
        ResponseMapping = mergeResponseMapping (ResponseMapping b) (ResponseMapping q)\<rparr>))"

definition mergeQueueConfig :: "queue_config option \<Rightarrow> queue_config option \<Rightarrow> queue_config" where
  "mergeQueueConfig base queue =
     (let b = (case base of None \<Rightarrow> empty_queue_config | Some b \<Rightarrow> b);
          q = (case queue of None \<Rightarrow> empty_queue_config | Some q \<Rightarrow> q)
      in \<lparr>QRetry = mergeRetry (QRetry b) (QRetry q),
          QExecution = mergeExecution (QExecution b) (QExecution q),
          QLimits = mergeLimits (QLimits b) (QLimits q),
          QWorker = mergeWorker (QWorker b) (QWorker q),
          QClassification = mergeClassification (QClassification b) (QClassification q),
          QHandler = mergeHandler (QHandler b) (QHandler q),
          QSyncRetry = mergeSyncRetry (QSyncRetry b) (QSyncRetry q),
          QCallback = mergeCallback (QCallback b) (QCallback q)\<rparr>)"

section \<open>Validation\<close>

text \<open>A violated rule, by the key it is about; the error carries the block's path.\<close>

datatype config_rule =
    NotPositive string
  | MaxAttemptsBelowOne | MultiplierBelowOne | JitterOutOfRange
  | HandlerTimeoutAboveLease | PayloadSizeNotPositive | TTLNegative
  | BatchSizeBelowOne | ConcurrencyBelowOne | RateNotPositive
  | BadVersionMismatch | SyncAttemptsNegative | SyncBackoffNegative
  | BadProtocol | URLMissing | URLUnparsable | URLNotAbsolute | URLScheme
  | CallbackTimeoutAboveHandlerTimeout
  | BadAuthType | SecretRefMissing | SecretRefScheme | SecretRefEmpty

datatype config_error =
    RuleError string config_rule
  | QueueNameError name_error
  | VersionMissing | VersionNewer
  | EmptyDocument | DecodeError | MultipleDocuments
  | ErrUnknownQueue string

definition requirePositive :: "duration option \<Rightarrow> string \<Rightarrow> string \<Rightarrow> config_error option" where
  "requirePositive d path field = (case d of None \<Rightarrow> None
     | Some v \<Rightarrow> if v \<le> 0 then Some (RuleError path (NotPositive field)) else None)"

definition first_error :: "'e option \<Rightarrow> 'e option \<Rightarrow> 'e option" where
  "first_error e k = (case e of Some err \<Rightarrow> Some err | None \<Rightarrow> k)"

definition validateRetry :: "retry_config option \<Rightarrow> string \<Rightarrow> config_error option" where
  "validateRetry rc path = (case rc of None \<Rightarrow> None | Some r \<Rightarrow>
     (if (case MaxAttempts r of None \<Rightarrow> False | Some n \<Rightarrow> n < 1)
      then Some (RuleError path MaxAttemptsBelowOne)
      else if (case BackoffMultiplier r of None \<Rightarrow> False | Some m \<Rightarrow> f_lt m (Fin 1))
      then Some (RuleError path MultiplierBelowOne)
      else if (case Jitter r of None \<Rightarrow> False | Some j \<Rightarrow> f_lt j (Fin 0) \<or> f_lt (Fin 1) j)
      then Some (RuleError path JitterOutOfRange)
      else first_error (requirePositive (InitialBackoff r) path ''retry.initial_backoff'')
        (requirePositive (MaxBackoff r) path ''retry.max_backoff'')))"

definition validateExecution :: "execution_config option \<Rightarrow> string \<Rightarrow> config_error option" where
  "validateExecution ec path = (case ec of None \<Rightarrow> None | Some e \<Rightarrow>
     first_error (requirePositive (Lease e) path ''execution.lease'')
     (first_error (requirePositive (HandlerTimeout e) path ''execution.handler_timeout'')
       (case (Lease e, HandlerTimeout e) of
          (Some l, Some t) \<Rightarrow> if t > l then Some (RuleError path HandlerTimeoutAboveLease) else None
        | _ \<Rightarrow> None)))"

definition validateLimits :: "limits_config option \<Rightarrow> string \<Rightarrow> config_error option" where
  "validateLimits lc path = (case lc of None \<Rightarrow> None | Some l \<Rightarrow>
     (if (case MaxPayloadSize l of None \<Rightarrow> False | Some n \<Rightarrow> n \<le> 0)
      then Some (RuleError path PayloadSizeNotPositive)
      else if (case TTLSucceeded l of None \<Rightarrow> False | Some t \<Rightarrow> t < 0)
      then Some (RuleError path TTLNegative)
      else None))"

definition validateWorker :: "worker_config option \<Rightarrow> string \<Rightarrow> config_error option" where
  "validateWorker wc path = (case wc of None \<Rightarrow> None | Some w \<Rightarrow>
     (if (case BatchSize w of None \<Rightarrow> False | Some n \<Rightarrow> n < 1)
      then Some (RuleError path BatchSizeBelowOne)
      else if (case Concurrency w of None \<Rightarrow> False | Some n \<Rightarrow> n < 1)
      then Some (RuleError path ConcurrencyBelowOne)
      else first_error (requirePositive (PollInterval w) path ''worker.poll_interval'')
        (if (case RateLimit w of None \<Rightarrow> False | Some r \<Rightarrow> Count r \<le> 0 \<or> Per r \<le> 0)
         then Some (RuleError path RateNotPositive) else None)))"

definition validateHandler :: "handler_config option \<Rightarrow> string \<Rightarrow> config_error option" where
  "validateHandler hc path = (case hc of None \<Rightarrow> None | Some h \<Rightarrow>
     (case VersionMismatch h of None \<Rightarrow> None
      | Some v \<Rightarrow> if v = VersionMismatchRunLatest \<or> v = VersionMismatchDeadLetter then None
          else Some (RuleError path BadVersionMismatch)))"

definition validateSyncRetry :: "sync_retry_config option \<Rightarrow> string \<Rightarrow> config_error option" where
  "validateSyncRetry sc path = (case sc of None \<Rightarrow> None | Some s \<Rightarrow>
     (if (case SAttempts s of None \<Rightarrow> False | Some n \<Rightarrow> n < 0)
      then Some (RuleError path SyncAttemptsNegative)
      else if (case SBackoff s of None \<Rightarrow> False | Some d \<Rightarrow> d < 0)
      then Some (RuleError path SyncBackoffNegative)
      else None))"

definition validateSecretRef :: "string \<Rightarrow> string \<Rightarrow> config_error option" where
  "validateSecretRef ref path =
     (if \<not> HasPrefix ref secretRefEnvScheme then Some (RuleError path SecretRefScheme)
      else if drop (length secretRefEnvScheme) ref = [] then Some (RuleError path SecretRefEmpty)
      else None)"

definition validateCallbackAuth :: "callback_auth option \<Rightarrow> string \<Rightarrow> config_error option" where
  "validateCallbackAuth ac path = (case ac of None \<Rightarrow> None | Some a \<Rightarrow>
     (let authType = (case AType a of None \<Rightarrow> AuthNone | Some t \<Rightarrow> t) in
      if \<not> (authType = AuthNone \<or> authType = AuthBearer \<or> authType = AuthHeader)
      then Some (RuleError path BadAuthType)
      else case SecretRef a of
          Some ref \<Rightarrow> validateSecretRef ref path
        | None \<Rightarrow> if authType = AuthBearer \<or> authType = AuthHeader
            then Some (RuleError path SecretRefMissing) else None))"

type_synonym url_parser = "string \<Rightarrow> (string \<times> string) option"

definition validateCallbackURL ::
  "url_parser \<Rightarrow> string \<Rightarrow> string option \<Rightarrow> string \<Rightarrow> config_error option" where
  "validateCallbackURL urlParse raw protocol path = (case urlParse raw of
      None \<Rightarrow> Some (RuleError path URLUnparsable)
    | Some (scheme, host) \<Rightarrow>
        if scheme = [] \<or> host = [] then Some (RuleError path URLNotAbsolute)
        else if (protocol = None \<or> protocol = Some ProtocolHTTP) \<and> scheme \<noteq> ''http'' \<and> scheme \<noteq> ''https''
        then Some (RuleError path URLScheme)
        else None)"

definition validateCallback :: "url_parser \<Rightarrow> queue_config \<Rightarrow> string \<Rightarrow> config_error option" where
  "validateCallback urlParse qc path = (case QCallback qc of None \<Rightarrow> None | Some c \<Rightarrow>
     (if (case Protocol c of None \<Rightarrow> False | Some p \<Rightarrow> \<not> (p = ProtocolHTTP \<or> p = ProtocolGRPC))
      then Some (RuleError path BadProtocol)
      else case URL c of
          None \<Rightarrow> Some (RuleError path URLMissing)
        | Some u \<Rightarrow>
            if u = [] then Some (RuleError path URLMissing)
            else first_error (validateCallbackURL urlParse u (Protocol c) path)
              (first_error (requirePositive (CTimeout c) path ''callback.timeout'')
                (case (CTimeout c, Option.bind (QExecution qc) HandlerTimeout) of
                   (Some t, Some h) \<Rightarrow>
                     if t > h then Some (RuleError path CallbackTimeoutAboveHandlerTimeout)
                     else validateCallbackAuth (CAuth c) path
                 | _ \<Rightarrow> validateCallbackAuth (CAuth c) path))))"

definition validateQueueConfig :: "url_parser \<Rightarrow> queue_config option \<Rightarrow> string \<Rightarrow> config_error option" where
  "validateQueueConfig urlParse qco path = (case qco of None \<Rightarrow> None | Some qc \<Rightarrow>
     first_error (validateRetry (QRetry qc) path)
    (first_error (validateExecution (QExecution qc) path)
    (first_error (validateLimits (QLimits qc) path)
    (first_error (validateWorker (QWorker qc) path)
    (first_error (validateHandler (QHandler qc) path)
    (first_error (validateSyncRetry (QSyncRetry qc) path)
    (validateCallback urlParse qc path)))))))"

definition ValidateQueueConfig :: "url_parser \<Rightarrow> queue_config option \<Rightarrow> string \<Rightarrow> config_error option" where
  "ValidateQueueConfig urlParse qc queue = validateQueueConfig urlParse qc (''queues.'' @ queue)"

definition validateVersion :: "int \<Rightarrow> config_error option" where
  "validateVersion v = (if v < 1 then Some VersionMissing
     else if v > KnownConfigVersion then Some VersionNewer else None)"

section \<open>Loading\<close>

text \<open>What the strict YAML decoder yields for the first document, and whether a second follows.\<close>

datatype decoded = DecodeEOF | DecodeFailed | Decoded config_doc bool

fun loadQueues :: "url_parser \<Rightarrow> queue_config option \<Rightarrow> queue_config option gomap \<Rightarrow>
    queue_config gomap \<Rightarrow> config_error + queue_config gomap" where
  "loadQueues urlParse defs [] acc = Inr acc"
| "loadQueues urlParse defs ((name, qc) # qs) acc =
     (case ValidateQueue name of Some e \<Rightarrow> Inl (QueueNameError e)
      | None \<Rightarrow>
          let merged = mergeQueueConfig defs qc in
          case validateQueueConfig urlParse (Some merged) (''queues.'' @ name) of
            Some e \<Rightarrow> Inl e
          | None \<Rightarrow> loadQueues urlParse defs qs (AList.update name merged acc))"

definition Load :: "url_parser \<Rightarrow> decoded \<Rightarrow> config_error + config_doc" where
  "Load urlParse dec = (case dec of
      DecodeEOF \<Rightarrow> Inl EmptyDocument
    | DecodeFailed \<Rightarrow> Inl DecodeError
    | Decoded c another \<Rightarrow>
        if another then Inl MultipleDocuments
        else case validateVersion (ConfigVersion c) of Some e \<Rightarrow> Inl e
        | None \<Rightarrow> (case validateQueueConfig urlParse (Defaults c) ''defaults'' of Some e \<Rightarrow> Inl e
          | None \<Rightarrow> (case loadQueues urlParse (Defaults c) (Queues c) [] of
                Inl e \<Rightarrow> Inl e
              | Inr rs \<Rightarrow> Inr (c\<lparr>resolved := rs\<rparr>))))"

definition Resolved :: "config_doc \<Rightarrow> string \<Rightarrow> config_error + queue_config" where
  "Resolved c queue = (case map_of (resolved c) queue of
      None \<Rightarrow> Inl (ErrUnknownQueue queue) | Some qc \<Rightarrow> Inr qc)"

definition QueueNames :: "config_doc \<Rightarrow> string list" where
  "QueueNames c = sort (map fst (Queues c))"

end
