(* ===== verification/Config_Units.thy ===== *)
theory Config_Units
  imports Config
begin

text \<open>
  The scalar types of the configuration schema (\<open>core/config/units.go\<close>): rates, status
  matchers, and the integer wire form of durations. The written forms of all scalars, in YAML and
  in JSON, are in Config_Scalars.
\<close>

section \<open>White space\<close>

text \<open>The UTF-8 encodings of the code points \<open>unicode.IsSpace\<close> accepts.\<close>

definition spaces :: "string list" where
  "spaces = map (\<lambda>n. [char_of (n :: nat)]) [9, 10, 11, 12, 13, 32] @
     [[CHR 0xC2, CHR 0x85], [CHR 0xC2, CHR 0xA0], [CHR 0xE1, CHR 0x9A, CHR 0x80]] @
     map (\<lambda>n. [CHR 0xE2, CHR 0x80, char_of (n :: nat)])
       [128, 129, 130, 131, 132, 133, 134, 135, 136, 137, 138, 168, 169, 175] @
     [[CHR 0xE2, CHR 0x81, CHR 0x9F], [CHR 0xE3, CHR 0x80, CHR 0x80]]"

function trimLeft :: "string list \<Rightarrow> string \<Rightarrow> string" where
  "trimLeft sps s = (case find (\<lambda>sp. sp \<noteq> [] \<and> prefix sp s) sps of
      None \<Rightarrow> s | Some sp \<Rightarrow> trimLeft sps (drop (length sp) s))"
  by pat_completeness auto
termination
proof (relation "measure (\<lambda>(sps, s). length s)")
  fix sps :: "string list" and s sp
  assume "find (\<lambda>sp. sp \<noteq> [] \<and> prefix sp s) sps = Some sp"
  then have "sp \<noteq> []" "prefix sp s" by (auto simp: find_Some_iff)
  then show "((sps, drop (length sp) s), sps, s) \<in> measure (\<lambda>(sps, s). length s)"
    by (cases s) auto
qed simp

declare trimLeft.simps [simp del]

definition TrimSpace :: "string \<Rightarrow> string" where
  "TrimSpace s = rev (trimLeft (map rev spaces) (rev (trimLeft spaces s)))"

section \<open>Rates\<close>

definition second :: duration where "second = 1000000000"

definition ratePeriods :: "duration gomap" where
  "ratePeriods = [(''s'', second), (''m'', 60 * second), (''h'', 3600 * second)]"

datatype rate_error = RateNoSlash | RateBadCount | RateBadPeriod

definition parseRate :: "string \<Rightarrow> rate_error + rate" where
  "parseRate s = (case Cut1 s CHR ''/'' of
      None \<Rightarrow> Inl RateNoSlash
    | Some (before, after) \<Rightarrow> (case ParseInt (TrimSpace before) of
        None \<Rightarrow> Inl RateBadCount
      | Some n \<Rightarrow> (case map_of ratePeriods (TrimSpace after) of
          None \<Rightarrow> Inl RateBadPeriod
        | Some period \<Rightarrow> Inr \<lparr>Count = n, Per = period\<rparr>)))"

text \<open>The canonical form of a rate whose period is one of the table's; \<open>durString\<close> is the
  library's rendering of any other duration.\<close>

definition Rate_String :: "(duration \<Rightarrow> string) \<Rightarrow> rate \<Rightarrow> string" where
  "Rate_String durString r = (case find (\<lambda>(sfx, d). d = Per r) ratePeriods of
      Some (sfx, d) \<Rightarrow> FormatInt (Count r) @ ''/'' @ sfx
    | None \<Rightarrow> FormatInt (Count r) @ ''/'' @ durString (Per r))"

text \<open>\<open>Duration.Seconds\<close>: whole seconds plus the fraction, each converted and added as floats.\<close>

definition Seconds :: "duration \<Rightarrow> f64" where
  "Seconds d = (let q = \<bar>d\<bar> div second; r = \<bar>d\<bar> mod second; sec = sgn d * q; nsec = sgn d * r
     in f_add (f_of_int sec) (f_div (f_of_int nsec) (f_of_int second)))"

definition PerSecond :: "rate \<Rightarrow> f64" where
  "PerSecond r = (if Per r \<le> 0 then Fin 0 else f_div (f_of_int (Count r)) (Seconds (Per r)))"

section \<open>Integer wire forms\<close>

definition millisecond :: duration where "millisecond = 1000000"

definition Duration_MarshalJSON :: "duration \<Rightarrow> string" where
  "Duration_MarshalJSON d = FormatInt (sgn d * (\<bar>d\<bar> div millisecond))"

text \<open>On the integer the JSON decoder yields; the multiplication is an int64 one.\<close>

definition Duration_UnmarshalJSON :: "int \<Rightarrow> duration" where
  "Duration_UnmarshalJSON ms = wrap64 (ms * millisecond)"

section \<open>Status matchers\<close>

definition Matches :: "status_matcher \<Rightarrow> int \<Rightarrow> bool" where
  "Matches m status =
     (if Code m > 0 then status = Code m
      else if length (Class m) = 3 then
        (let c = int (of_char (Class m ! 0)) - 48 in status \<ge> c * 100 \<and> status < (c + 1) * 100)
      else False)"

definition validStatusClass :: "string \<Rightarrow> bool" where
  "validStatusClass class \<longleftrightarrow> length class = 3 \<and> class ! 0 \<ge> CHR ''1'' \<and> class ! 0 \<le> CHR ''5'' \<and>
     class ! 1 = CHR ''x'' \<and> class ! 2 = CHR ''x''"

text \<open>A matcher as the decoders build it, from an integer or from a string.\<close>

definition matcherFromCode :: "int \<Rightarrow> status_matcher option" where
  "matcherFromCode code =
     (if code < 100 \<or> code > 599 then None else Some \<lparr>Code = code, Class = []\<rparr>)"

definition matcherFromClass :: "string \<Rightarrow> status_matcher option" where
  "matcherFromClass class = (if validStatusClass class then Some \<lparr>Code = 0, Class = class\<rparr> else None)"

definition StatusMatcher_String :: "status_matcher \<Rightarrow> string" where
  "StatusMatcher_String m = (if Code m > 0 then FormatInt (Code m) else Class m)"

section \<open>Facts\<close>

lemma trimLeft_id: "find (\<lambda>sp. sp \<noteq> [] \<and> prefix sp s) sps = None \<Longrightarrow> trimLeft sps s = s"
  by (subst trimLeft.simps) simp

text \<open>Text made of printable ASCII characters is not trimmed.\<close>

lemma TrimSpace_ascii:
  assumes "\<forall>c \<in> set s. 32 < (of_char c :: nat) \<and> (of_char c :: nat) < 128"
  shows "TrimSpace s = s"
proof -
  have no: "find (\<lambda>sp. sp \<noteq> [] \<and> prefix sp t) sps = None"
    if "\<forall>c \<in> set t. 32 < (of_char c :: nat) \<and> (of_char c :: nat) < 128"
      "\<forall>sp \<in> set sps. \<exists>c \<in> set sp. (of_char c :: nat) \<le> 32 \<or> 128 \<le> (of_char c :: nat)" for t sps
    using that unfolding find_None_iff by (metis leD not_less set_mono_prefix subsetD)
  have "\<forall>sp \<in> set spaces. \<exists>c \<in> set sp. (of_char c :: nat) \<le> 32 \<or> 128 \<le> (of_char c :: nat)"
    by code_simp
  then show ?thesis
    using no [of s spaces] no [of "rev s" "map rev spaces"] assms
    by (simp add: TrimSpace_def trimLeft_id)
qed

lemma digit_ascii: "digit_val c \<noteq> None \<Longrightarrow> 47 < (of_char c :: nat) \<and> (of_char c :: nat) < 58"
  by (auto simp: digit_val_def Let_def split: if_splits)

lemma FormatInt_ascii:
  assumes "c \<in> set (FormatInt n)"
  shows "32 < (of_char c :: nat) \<and> (of_char c :: nat) < 128 \<and> c \<noteq> CHR ''/''"
proof (cases "c = CHR ''-''")
  case False
  then have "digit_val c \<noteq> None"
    using assms FormatUint_digits by (auto simp: FormatInt_def split: if_splits)
  then show ?thesis using digit_ascii [of c] by auto
qed simp

text \<open>A rate written in one of the three periods is read back from its canonical form: the
  text the admin API returns for a rate limit loads as the same rate.\<close>

theorem rate_roundtrip:
  assumes "Per r \<in> {second, 60 * second, 3600 * second}" "min_int64 \<le> Count r" "Count r \<le> max_int64"
  shows "parseRate (Rate_String durString r) = Inr r"
proof -
  obtain sfx where s: "sfx \<in> {''s'', ''m'', ''h''}" "map_of ratePeriods sfx = Some (Per r)"
    "find (\<lambda>(sfx, d). d = Per r) ratePeriods = Some (sfx, Per r)"
  proof -
    from assms(1) consider "Per r = second" | "Per r = 60 * second" | "Per r = 3600 * second"
      by blast
    then show ?thesis
    proof cases
      case 1
      then show ?thesis using that [of "''s''"] by (simp add: ratePeriods_def second_def)
    next
      case 2
      then show ?thesis using that [of "''m''"] by (simp add: ratePeriods_def second_def)
    next
      case 3
      then show ?thesis using that [of "''h''"] by (simp add: ratePeriods_def second_def)
    qed
  qed
  have "CHR ''/'' \<notin> set (FormatInt (Count r))" using FormatInt_ascii by blast
  then have c: "Cut1 (FormatInt (Count r) @ CHR ''/'' # sfx) CHR ''/'' = Some (FormatInt (Count r), sfx)"
    by (rule Cut1_append)
  have t: "TrimSpace (FormatInt (Count r)) = FormatInt (Count r)" "TrimSpace sfx = sfx"
    using FormatInt_ascii s(1) by (auto intro!: TrimSpace_ascii)
  show ?thesis
    using assms(2,3) by (simp add: Rate_String_def s(2,3) parseRate_def c t ParseInt_FormatInt)
qed

theorem rate_roundtrip_witness:
  "parseRate (Rate_String (\<lambda>_. []) \<lparr>Count = 100, Per = second\<rparr>) = Inr \<lparr>Count = 100, Per = second\<rparr>"
  by (rule rate_roundtrip) simp_all

end
