(* ===== verification/Glob.thy ===== *)
theory Glob
  imports Rdq_Prelude
begin

text \<open>
  The wildcard matcher of the classification layer (\<open>core/policy/glob.go\<close>): the two-pointer
  backtracking loop, and its equivalence with a matcher defined by recursion on the pattern.
\<close>

section \<open>The matcher of the source\<close>

text \<open>The main loop; \<open>star\<close> is \<open>None\<close> where the source has -1. The result is the final pattern
  index, or \<open>None\<close> where the source returns false from inside the loop.\<close>

function glob_loop :: "string \<Rightarrow> string \<Rightarrow> nat \<Rightarrow> nat \<Rightarrow> nat option \<Rightarrow> nat \<Rightarrow> nat option" where
  "glob_loop pattern s px sx star mark =
     (if sx < length s then
        if px < length pattern \<and> pattern ! px = CHR ''*'' then
          glob_loop pattern s (px + 1) sx (Some px) sx
        else if px < length pattern \<and> (pattern ! px = CHR ''?'' \<or> pattern ! px = s ! sx) then
          glob_loop pattern s (px + 1) (sx + 1) star mark
        else (case star of
            Some st \<Rightarrow> glob_loop pattern s (st + 1) (mark + 1) star (mark + 1)
          | None \<Rightarrow> None)
      else Some px)"
  by pat_completeness auto
termination
proof (relation "measures [\<lambda>(p, s, px, sx, star, mark). length s - min mark sx,
    \<lambda>(p, s, px, sx, star, mark). length p - px]", goal_cases)
  case (2 pattern s px sx star mark)
  then show ?case by (cases "min mark sx = sx") auto
next
  case (3 pattern s px sx star mark)
  then show ?case by (cases "mark \<le> sx") auto
next
  case (4 pattern s px sx star mark st)
  then have "length s - min (mark + 1) (mark + 1) < length s - min mark sx" by (auto simp: min_def)
  then show ?case by simp
qed simp

declare glob_loop.simps [simp del]

fun glob_tail :: "string \<Rightarrow> nat \<Rightarrow> nat \<Rightarrow> nat" where
  "glob_tail pattern px 0 = px"
| "glob_tail pattern px (Suc n) =
     (if px < length pattern \<and> pattern ! px = CHR ''*'' then glob_tail pattern (px + 1) n else px)"

definition Glob :: "string \<Rightarrow> string \<Rightarrow> bool" where
  "Glob pattern s =
     (case glob_loop pattern s 0 0 None 0 of None \<Rightarrow> False
      | Some px \<Rightarrow> glob_tail pattern px (length pattern) = length pattern)"

section \<open>The reference matcher\<close>

fun glob_spec :: "string \<Rightarrow> string \<Rightarrow> bool" where
  "glob_spec [] s \<longleftrightarrow> s = []"
| "glob_spec (c # p) s \<longleftrightarrow>
     (if c = CHR ''*'' then \<exists>k \<in> {0..length s}. glob_spec p (drop k s)
      else s \<noteq> [] \<and> (c = CHR ''?'' \<or> c = hd s) \<and> glob_spec p (tl s))"

abbreviation rest :: "string \<Rightarrow> string \<Rightarrow> nat \<Rightarrow> nat \<Rightarrow> bool" where
  "rest p s i k \<equiv> glob_spec (drop i p) (drop k s)"

lemma rest_star:
  assumes "i < length p" "p ! i = CHR ''*''" "k \<le> length s"
  shows "rest p s i k \<longleftrightarrow> (\<exists>k' \<ge> k. k' \<le> length s \<and> rest p s (Suc i) k')"
proof -
  have "rest p s i k \<longleftrightarrow> (\<exists>j \<le> length s - k. rest p s (Suc i) (j + k))"
    using assms by (auto simp: Cons_nth_drop_Suc [symmetric] Bex_def)
  also have "\<dots> \<longleftrightarrow> (\<exists>k' \<ge> k. k' \<le> length s \<and> rest p s (Suc i) k')"
  proof
    assume "\<exists>j \<le> length s - k. rest p s (Suc i) (j + k)"
    then show "\<exists>k' \<ge> k. k' \<le> length s \<and> rest p s (Suc i) k'"
      using assms(3) by (metis add_leD2 le_add2 le_diff_conv2)
  next
    assume "\<exists>k' \<ge> k. k' \<le> length s \<and> rest p s (Suc i) k'"
    then obtain k' where "k \<le> k'" "k' \<le> length s" "rest p s (Suc i) k'" by blast
    then show "\<exists>j \<le> length s - k. rest p s (Suc i) (j + k)"
      by (intro exI [where x = "k' - k"]) simp
  qed
  finally show ?thesis .
qed

lemma rest_char:
  assumes "i < length p" "p ! i \<noteq> CHR ''*''"
  shows "rest p s i k \<longleftrightarrow> k < length s \<and> (p ! i = CHR ''?'' \<or> p ! i = s ! k) \<and> rest p s (Suc i) (Suc k)"
  using assms by (cases "k < length s") (auto simp: Cons_nth_drop_Suc [symmetric] hd_drop_conv_nth tl_drop)

text \<open>A stretch of the pattern without a star consumes exactly its own length.\<close>

lemma rest_starfree:
  assumes "rest p s i k" "i + d \<le> length p" "\<And>j. i \<le> j \<Longrightarrow> j < i + d \<Longrightarrow> p ! j \<noteq> CHR ''*''"
    "k \<le> length s"
  shows "k + d \<le> length s \<and> rest p s (i + d) (k + d)"
  using assms
proof (induction d arbitrary: i k)
  case (Suc d)
  then have "k < length s" "rest p s (Suc i) (Suc k)" using rest_char [where i = i and p = p and s = s and k = k] by auto
  then show ?case using Suc.IH [of "Suc i" "Suc k"] Suc.prems by auto
qed simp

section \<open>Equivalence\<close>

definition glob_inv :: "string \<Rightarrow> string \<Rightarrow> nat \<Rightarrow> nat \<Rightarrow> nat option \<Rightarrow> nat \<Rightarrow> bool" where
  "glob_inv p s px sx star mark \<longleftrightarrow> px \<le> length p \<and> sx \<le> length s \<and>
     (case star of None \<Rightarrow> True
      | Some st \<Rightarrow> st < px \<and> mark \<le> sx \<and> px - Suc st = sx - mark \<and>
          (\<forall>j. Suc st \<le> j \<and> j < px \<longrightarrow> p ! j \<noteq> CHR ''*''))"

text \<open>What the loop still has to decide: the rest matches here, or after the last star absorbs
  more of the subject.\<close>

definition glob_open :: "string \<Rightarrow> string \<Rightarrow> nat \<Rightarrow> nat \<Rightarrow> nat option \<Rightarrow> nat \<Rightarrow> bool" where
  "glob_open p s px sx star mark \<longleftrightarrow> rest p s px sx \<or>
     (case star of None \<Rightarrow> False
      | Some st \<Rightarrow> \<exists>k > mark. k \<le> length s \<and> rest p s (Suc st) k)"

lemma glob_tail_spec:
  "length p - px \<le> n \<Longrightarrow> px \<le> length p \<Longrightarrow> glob_tail p px n = length p \<longleftrightarrow> glob_spec (drop px p) []"
proof (induction n arbitrary: px)
  case (Suc n)
  then show ?case
    by (cases "px < length p") (auto simp: Cons_nth_drop_Suc [symmetric])
qed simp

lemma open_later:
  assumes "glob_inv p s px sx (Some st) mark" "k > mark" "k \<le> length s" "rest p s (Suc st) k"
  shows "k + (sx - mark) \<le> length s \<and> rest p s px (k + (sx - mark))"
proof -
  have "Suc st + (sx - mark) = px" using assms(1) by (auto simp: glob_inv_def)
  then show ?thesis
    using rest_starfree [OF assms(4), of "sx - mark"] assms(1,3) by (auto simp: glob_inv_def)
qed

lemma open_at_end:
  assumes "glob_inv p s px (length s) star mark"
  shows "glob_open p s px (length s) star mark \<longleftrightarrow> glob_spec (drop px p) []"
proof (cases star)
  case (Some st)
  have "\<not> (k > mark \<and> k \<le> length s \<and> rest p s (Suc st) k)" for k
    using open_later [of p s px "length s" st mark k] assms Some
    by (auto simp: glob_inv_def)
  then show ?thesis by (auto simp: glob_open_def Some)
qed (simp add: glob_open_def)

lemma open_star:
  assumes "glob_inv p s px sx star mark" "px < length p" "p ! px = CHR ''*''" "sx < length s"
  shows "glob_inv p s (Suc px) sx (Some px) sx"
    and "glob_open p s (Suc px) sx (Some px) sx \<longleftrightarrow> glob_open p s px sx star mark"
proof -
  show "glob_inv p s (Suc px) sx (Some px) sx" using assms by (auto simp: glob_inv_def)
  have "glob_open p s (Suc px) sx (Some px) sx \<longleftrightarrow> rest p s px sx"
    using rest_star [OF assms(2,3), of sx s] assms(4) unfolding glob_open_def
    by (auto simp: order.order_iff_strict)
  moreover have "rest p s px sx" if st: "star = Some st" "k > mark" "k \<le> length s" "rest p s (Suc st) k" for st k
  proof -
    have "k + (sx - mark) \<le> length s" "rest p s px (k + (sx - mark))"
      using open_later [of p s px sx st mark k] assms(1) st by auto
    then obtain k' where "k' \<ge> k + (sx - mark)" "k' \<le> length s" "rest p s (Suc px) k'"
      using rest_star [OF assms(2,3)] by blast
    moreover have "k + (sx - mark) \<ge> sx" using st assms(1) by (auto simp: glob_inv_def)
    ultimately show ?thesis
      using rest_star [OF assms(2,3), of sx s] assms(4) by (meson less_imp_le order_trans)
  qed
  ultimately show "glob_open p s (Suc px) sx (Some px) sx \<longleftrightarrow> glob_open p s px sx star mark"
    by (auto simp: glob_open_def split: option.splits)
qed

lemma glob_loop_spec:
  assumes "glob_inv p s px sx star mark"
  shows "(case glob_loop p s px sx star mark of None \<Rightarrow> False
      | Some px' \<Rightarrow> px' \<le> length p \<and> glob_spec (drop px' p) []) \<longleftrightarrow> glob_open p s px sx star mark"
  using assms
proof (induction p s px sx star mark rule: glob_loop.induct)
  case (1 p s px sx star mark)
  consider (fin) "sx = length s"
    | (star) "sx < length s" "px < length p" "p ! px = CHR ''*''"
    | (char) "sx < length s" "px < length p" "p ! px \<noteq> CHR ''*''" "p ! px = CHR ''?'' \<or> p ! px = s ! sx"
    | (miss) "sx < length s" "\<not> (px < length p \<and> p ! px = CHR ''*'')"
        "\<not> (px < length p \<and> (p ! px = CHR ''?'' \<or> p ! px = s ! sx))"
    using "1.prems" by (fastforce simp: glob_inv_def)
  then show ?case
  proof cases
    case fin
    then show ?thesis
      using open_at_end [of p s px star mark] "1.prems"
      by (simp add: glob_loop.simps [of p s px "length s"] glob_inv_def)
  next
    case star
    then show ?thesis
      using "1.IH"(1) open_star [OF "1.prems"] by (simp add: glob_loop.simps [of p s px sx])
  next
    case char
    have "glob_inv p s (Suc px) (Suc sx) star mark"
      using "1.prems" char by (auto simp: glob_inv_def less_Suc_eq Suc_diff_le split: option.splits)
    moreover have "glob_open p s (Suc px) (Suc sx) star mark \<longleftrightarrow> glob_open p s px sx star mark"
      using char rest_char [where i = px and p = p and s = s and k = sx] by (simp add: glob_open_def)
    ultimately show ?thesis
      using "1.IH"(2) char by (simp add: glob_loop.simps [of p s px sx])
  next
    case miss
    have no: "\<not> rest p s px sx"
      using miss rest_char [where i = px and p = p and s = s and k = sx] "1.prems" by (cases "px < length p") (auto simp: glob_inv_def)
    have step: "glob_loop p s px sx star mark =
        (case star of Some st \<Rightarrow> glob_loop p s (st + 1) (mark + 1) star (mark + 1) | None \<Rightarrow> None)"
      using miss by (subst glob_loop.simps) auto
    show ?thesis
    proof (cases star)
      case None
      then show ?thesis using step no by (simp add: glob_open_def)
    next
      case (Some st)
      have inv: "glob_inv p s (Suc st) (Suc mark) star (Suc mark)"
        using "1.prems" miss Some by (auto simp: glob_inv_def)
      have "glob_open p s (Suc st) (Suc mark) star (Suc mark) \<longleftrightarrow> glob_open p s px sx star mark"
      proof -
        have "Suc mark \<le> length s" using inv by (simp add: glob_inv_def)
        then have "rest p s (Suc st) (Suc mark) \<or> (\<exists>k > Suc mark. k \<le> length s \<and> rest p s (Suc st) k) \<longleftrightarrow>
            (\<exists>k > mark. k \<le> length s \<and> rest p s (Suc st) k)"
          by (metis Suc_lessD Suc_lessI lessI)
        then show ?thesis using no Some by (simp add: glob_open_def)
      qed
      then show ?thesis
        using "1.IH"(3) miss Some inv step by simp
    qed
  qed
qed

lemma Glob_spec: "Glob pattern s \<longleftrightarrow> glob_spec pattern s"
proof -
  have inv: "glob_inv pattern s 0 0 None 0" by (simp add: glob_inv_def)
  have tail: "glob_tail pattern px (length pattern) = length pattern \<longleftrightarrow>
      px \<le> length pattern \<and> glob_spec (drop px pattern) []" for px
  proof (cases "px \<le> length pattern")
    case False
    then have "glob_tail pattern px (length pattern) = px" by (cases pattern) simp_all
    then show ?thesis using False by simp
  qed (simp add: glob_tail_spec)
  show ?thesis
    using glob_loop_spec [OF inv] unfolding Glob_def tail by (simp add: glob_open_def)
qed

text \<open>C22: the linear two-pointer wildcard matcher terminates and decides exactly the language of the
  pattern: a star stands for any run of characters, a question mark for any one character, every
  other character for itself, and the whole subject must be matched.\<close>

theorem Glob_correct: "Glob pattern s \<longleftrightarrow> glob_spec pattern s"
  by (rule Glob_spec)

end
