(* ===== verification/Policy.thy ===== *)
theory Policy
  imports Config Glob
begin

text \<open>
  The engine's decision functions (\<open>core/policy\<close>): the classification ladder of a failed
  attempt and the retry backoff. A Go error value is a tree: its identity, its dynamic type
  name, its text, the forced decision when its type implements \<open>Classified\<close>, and what its
  \<open>Unwrap\<close> method returns. An error type that customises \<open>errors.Is\<close> or \<open>errors.As\<close> by
  methods of its own is outside the model; no type of the sources does.
\<close>

section \<open>Errors\<close>

datatype decision = DecisionRetryable | DecisionPermanent | DecisionOther nat

datatype go_error =
    GoErr (e_id: nat) (e_type: string) (e_msg: string) (e_class: "decision option") (e_unwrap: go_unwrap)
and go_unwrap = NoUnwrap | Unwrap1 "go_error option" | UnwrapN "go_error list"

text \<open>The pre-order walk of \<open>errors.Is\<close> and \<open>errors.As\<close>: the first node a test accepts.\<close>

fun errors_find :: "(go_error \<Rightarrow> 'a option) \<Rightarrow> go_error \<Rightarrow> 'a option"
  and errors_find_list :: "(go_error \<Rightarrow> 'a option) \<Rightarrow> go_error list \<Rightarrow> 'a option" where
  "errors_find p (GoErr i t m c u) =
     (case p (GoErr i t m c u) of Some x \<Rightarrow> Some x
      | None \<Rightarrow> (case u of
          NoUnwrap \<Rightarrow> None
        | Unwrap1 None \<Rightarrow> None
        | Unwrap1 (Some e) \<Rightarrow> errors_find p e
        | UnwrapN es \<Rightarrow> errors_find_list p es))"
| "errors_find_list p [] = None"
| "errors_find_list p (e # es) =
     (case errors_find p e of Some x \<Rightarrow> Some x | None \<Rightarrow> errors_find_list p es)"

definition errors_Is :: "go_error option \<Rightarrow> nat \<Rightarrow> bool" where
  "errors_Is err target = (case err of None \<Rightarrow> False
     | Some e \<Rightarrow> errors_find (\<lambda>x. if e_id x = target then Some () else None) e \<noteq> None)"

definition errors_As_type :: "go_error option \<Rightarrow> (string \<Rightarrow> bool) \<Rightarrow> bool" where
  "errors_As_type err T = (case err of None \<Rightarrow> False
     | Some e \<Rightarrow> errors_find (\<lambda>x. if T (e_type x) then Some () else None) e \<noteq> None)"

definition errors_As_Classified :: "go_error option \<Rightarrow> decision option" where
  "errors_As_Classified err = (case err of None \<Rightarrow> None | Some e \<Rightarrow> errors_find e_class e)"

section \<open>Classification\<close>

definition Decision_Outcome :: "decision \<Rightarrow> outcome" where
  "Decision_Outcome d = (if d = DecisionPermanent then OutcomePermanentFailure else OutcomeRetryableFailure)"

datatype layer = LayerDefault | LayerConfigGlob | LayerCodeClassifier | LayerWrapper | LayerOutcomeMapper

record verdict =
  Decision :: decision
  Layer :: layer

text \<open>The two wrappers; the identity of the wrapper value is immaterial.\<close>

definition wrapped :: "go_error option \<Rightarrow> decision \<Rightarrow> go_error" where
  "wrapped err dec = GoErr 0 ''policy.wrapped'' (case err of None \<Rightarrow> [] | Some e \<Rightarrow> e_msg e)
     (Some dec) (Unwrap1 err)"

definition Permanent :: "go_error option \<Rightarrow> go_error" where
  "Permanent err = wrapped err DecisionPermanent"

definition Retryable :: "go_error option \<Rightarrow> go_error" where
  "Retryable err = wrapped err DecisionRetryable"

record code_rule =
  rule_match :: "go_error option \<Rightarrow> bool"
  rule_decision :: decision

definition IsRule :: "nat \<Rightarrow> decision \<Rightarrow> code_rule" where
  "IsRule target d = \<lparr>rule_match = (\<lambda>err. errors_Is err target), rule_decision = d\<rparr>"

definition AsRule :: "(string \<Rightarrow> bool) \<Rightarrow> decision \<Rightarrow> code_rule" where
  "AsRule T d = \<lparr>rule_match = (\<lambda>err. errors_As_type err T), rule_decision = d\<rparr>"

record classifier =
  Mapper :: "(go_error option \<Rightarrow> decision option) option"
  CodeRules :: "code_rule list"
  CConfig :: "classification_config option"

definition globs :: "string list option \<Rightarrow> string list" where
  "globs g = (case g of None \<Rightarrow> [] | Some ps \<Rightarrow> ps)"

definition matchGlobs :: "classification_config option \<Rightarrow> string \<Rightarrow> decision option" where
  "matchGlobs cfg errType = (case cfg of None \<Rightarrow> None
     | Some c \<Rightarrow>
         if list_ex (\<lambda>p. Glob p errType) (globs (Permanent_globs c)) then Some DecisionPermanent
         else if list_ex (\<lambda>p. Glob p errType) (globs (Retryable_globs c)) then Some DecisionRetryable
         else None)"

definition Classify :: "classifier \<Rightarrow> go_error option \<Rightarrow> string \<Rightarrow> verdict" where
  "Classify c err errType =
     (case Option.bind (Mapper c) (\<lambda>m. m err) of
        Some d \<Rightarrow> \<lparr>Decision = d, Layer = LayerOutcomeMapper\<rparr>
      | None \<Rightarrow> (case errors_As_Classified err of
          Some d \<Rightarrow> \<lparr>Decision = d, Layer = LayerWrapper\<rparr>
        | None \<Rightarrow> (case find (\<lambda>r. rule_match r err) (CodeRules c) of
            Some r \<Rightarrow> \<lparr>Decision = rule_decision r, Layer = LayerCodeClassifier\<rparr>
          | None \<Rightarrow> (case matchGlobs (CConfig c) errType of
              Some d \<Rightarrow> \<lparr>Decision = d, Layer = LayerConfigGlob\<rparr>
            | None \<Rightarrow> \<lparr>Decision = DecisionRetryable, Layer = LayerDefault\<rparr>))))"

fun ErrorType_of :: "go_error \<Rightarrow> string" where
  "ErrorType_of (GoErr i t m c (Unwrap1 (Some e))) = ErrorType_of e"
| "ErrorType_of (GoErr i t m c u) = t"

definition ErrorType :: "go_error option \<Rightarrow> string" where
  "ErrorType err = (case err of None \<Rightarrow> [] | Some e \<Rightarrow> ErrorType_of e)"

section \<open>Backoff\<close>

record backoff =
  Initial :: duration
  Multiplier :: f64
  BMax :: duration
  BJitter :: f64

definition baseDelay :: "(f64 \<Rightarrow> int) \<Rightarrow> backoff \<Rightarrow> int \<Rightarrow> duration" where
  "baseDelay oob b n0 =
     (let n = (if n0 < 1 then 1 else n0);
          scaled = f_mul (f_of_int (Initial b)) (Pow (Multiplier b) (f_of_int (n - 1)))
      in if BMax b > 0 \<and> f_le (f_of_int (BMax b)) scaled then BMax b
         else if f_le (f_of_int max_int64) scaled then max_int64
         else int64_of_f64 oob scaled)"

text \<open>\<open>rnd\<close> is what the random source returns; it is read only when there is jitter.\<close>

definition Delay :: "(f64 \<Rightarrow> int) \<Rightarrow> backoff \<Rightarrow> int \<Rightarrow> f64 \<Rightarrow> duration" where
  "Delay oob b n rnd =
     (let base = baseDelay oob b n in
      if f_le (BJitter b) (Fin 0) then base
      else let factor = f_add (Fin 1) (f_mul (BJitter b) (f_sub (f_mul (Fin 2) rnd) (Fin 1)));
               d = int64_of_f64 oob (f_mul (f_of_int base) factor)
           in if d < 0 then 0 else d)"

definition BackoffFromConfig :: "retry_config option \<Rightarrow> backoff option" where
  "BackoffFromConfig rc = (case rc of None \<Rightarrow> None
     | Some r \<Rightarrow> (case (InitialBackoff r, BackoffMultiplier r, MaxBackoff r, Jitter r) of
         (Some i, Some m, Some x, Some j) \<Rightarrow> Some \<lparr>Initial = i, Multiplier = m, BMax = x, BJitter = j\<rparr>
       | _ \<Rightarrow> None))"

end
