(* ===== verification/Go_Float_Error.thy ===== *)
theory Go_Float_Error
  imports Go_Float
begin

text \<open>
  How far rounding moves a value, and where it does not: the error of one operation on values of a
  bounded size, and the exactness of \<open>math.Pow\<close> on integers whose power is at most 2 to the 53.
\<close>

section \<open>Error of one rounding\<close>

lemma round_even_error: "\<bar>of_int (round_even q) - q\<bar> \<le> 1 / 2"
proof -
  have "of_int \<lfloor>q\<rfloor> \<le> q" "q < of_int \<lfloor>q\<rfloor> + 1" by linarith+
  then show ?thesis unfolding round_even_def Let_def by (auto simp: abs_le_iff)
qed

lemma round_mag_error: "\<bar>round_mag q - q\<bar> \<le> pow2 (ulp_exp q) / 2"
proof -
  let ?u = "pow2 (ulp_exp q)"
  have "round_mag q - q = (of_int (round_even (q / ?u)) - q / ?u) * ?u"
    by (simp add: round_mag_def left_diff_distrib)
  then have "\<bar>round_mag q - q\<bar> = \<bar>of_int (round_even (q / ?u)) - q / ?u\<bar> * ?u" by (simp add: abs_mult)
  also have "\<dots> \<le> 1 / 2 * ?u" using round_even_error by (rule mult_right_mono) simp
  finally show ?thesis by simp
qed

lemma round_mag_close:
  assumes "0 < q" "q < pow2 k" "- 1021 \<le> k"
  shows "\<bar>round_mag q - q\<bar> \<le> pow2 (k - 54)"
proof -
  have "\<not> k \<le> ilog2 q" using ilog2_bounds [OF assms(1)] pow2_mono [of k "ilog2 q"] assms(2) by auto
  then have "ulp_exp q \<le> k - 53" using assms(3) by (simp add: ulp_exp_def)
  then have "pow2 (ulp_exp q) \<le> pow2 (k - 53)" by (rule pow2_mono)
  also have "pow2 (k - 53) = 2 * pow2 (k - 54)" using pow2_add [of 1 "k - 54"] by simp
  finally show ?thesis using round_mag_error [of q] by linarith
qed

text \<open>A value of magnitude at most 2 to the k moves by at most 2 to the (k - 54).\<close>

lemma round_error:
  assumes "\<bar>q\<bar> \<le> pow2 k" "- 1021 \<le> k" "k < 1024"
  shows "\<exists>r. round_f64 q = Fin r \<and> \<bar>r - q\<bar> \<le> pow2 (k - 54) \<and> \<bar>r\<bar> \<le> pow2 k"
proof -
  have e: "round_f64 (pow2 k) = Fin (pow2 k)" using assms by (intro round_f64_pow2) auto
  have pos: "round_mag q \<le> pow2 k \<and> 0 \<le> round_mag q \<and> \<bar>round_mag q - q\<bar> \<le> pow2 (k - 54)" if "0 < q" "q \<le> pow2 k" for q
  proof -
    have rk: "round_mag (pow2 k) = pow2 k" using e by (auto simp: round_f64_def split: if_splits)
    have "\<bar>round_mag q - q\<bar> \<le> pow2 (k - 54)"
      using round_mag_close [OF that(1) _ assms(2)] that(2) rk by (cases "q = pow2 k") auto
    then show ?thesis using round_mag_mono [OF that] round_mag_nonneg [OF that(1)] rk by simp
  qed
  have big: "pow2 k < pow2 1024" using assms(3) by (rule pow2_strict)
  show ?thesis
  proof (cases q "0 :: rat" rule: linorder_cases)
    case less
    then show ?thesis using pos [of "- q"] assms(1) big by (auto simp: round_f64_def)
  next
    case greater
    then show ?thesis using pos [of q] assms(1) big by (auto simp: round_f64_def)
  qed (simp add: round_f64_def)
qed

section \<open>Exact powers\<close>

text \<open>An integer of at most 53 bits, shifted, is a float.\<close>

lemma round_f64_scaled:
  assumes "0 \<le> n" "n \<le> 2 ^ 53" "- 1000 \<le> e" "e \<le> 0"
  shows "round_f64 (of_int n * pow2 e) = Fin (of_int n * pow2 e)"
proof -
  have pos: "round_mag (of_int m * pow2 e) = of_int m * pow2 e \<and> of_int m * pow2 e < pow2 1024"
    if m: "0 < m" "m \<le> 2 ^ 53" for m :: int
  proof -
    let ?q = "of_int m :: rat"
    have q: "0 < ?q" "?q \<le> pow2 53" using m by (simp_all add: pow2_int flip: of_int_le_iff)
    have "0 \<le> ilog2 ?q" using ilog2_mono [of 1 ?q] ilog2_unique [of 0 1] m by simp
    note b = ilog2_bounds [OF q(1)]
    have "ilog2 (?q * pow2 e) = ilog2 ?q + e"
      using b by (intro ilog2_unique) (simp_all add: pow2_add algebra_simps)
    then have u: "ulp_exp (?q * pow2 e) = ulp_exp ?q + e"
      using \<open>0 \<le> ilog2 ?q\<close> assms(3) by (simp add: ulp_exp_def)
    have r: "round_mag ?q = ?q"
      using round_f64_int [of m] m by (auto simp: round_f64_def split: if_splits)
    have "?q * pow2 e / pow2 (ulp_exp ?q + e) = ?q / pow2 (ulp_exp ?q)" by (simp add: pow2_add)
    then have "round_mag (?q * pow2 e) = round_mag ?q * pow2 e" by (simp add: round_mag_def u pow2_add)
    moreover have "?q * pow2 e \<le> pow2 53 * pow2 0"
      using q pow2_mono [OF assms(4)] by (intro mult_mono) auto
    moreover have "pow2 53 < pow2 1024" by (rule pow2_strict) simp
    ultimately show ?thesis using r by simp
  qed
  show ?thesis
    using pos [of n] assms(1,2) by (cases "n = 0") (auto simp: round_f64_def)
qed

text \<open>A fraction in [1/2, 1) and an exponent that stand for an integer of at least two.\<close>

definition stands_for :: "rat \<Rightarrow> int \<Rightarrow> int \<Rightarrow> bool" where
  "stands_for x xe X \<longleftrightarrow> 1 / 2 \<le> x \<and> x < 1 \<and> x * pow2 xe = of_int X \<and> 2 \<le> X \<and> X \<le> 2 ^ 53"

lemma stands_for_exp:
  assumes "stands_for x xe X"
  shows "1 \<le> xe" "xe \<le> 54" "pow2 xe \<le> of_int (X * X)"
proof -
  have x: "1 / 2 \<le> x" "x < 1" "x * pow2 xe = of_int X" "2 \<le> X" "X \<le> 2 ^ 53" using assms by (simp_all add: stands_for_def)
  have "1 / 2 * pow2 xe \<le> x * pow2 xe" using x(1) by (rule mult_right_mono) simp
  then have up: "pow2 xe \<le> 2 * of_int X" using x(3) by simp
  have "x * pow2 xe \<le> 1 * pow2 xe" using x(2) by (intro mult_right_mono) auto
  then have lo: "of_int X \<le> pow2 xe" using x(3) by simp
  have "(2 :: rat) \<le> of_int X" using x(4) by simp
  show "1 \<le> xe"
  proof (rule ccontr)
    assume "\<not> 1 \<le> xe"
    then have "pow2 xe \<le> pow2 0" by (intro pow2_mono) simp
    then show False using lo \<open>2 \<le> of_int X\<close> by simp
  qed
  have "(of_int X :: rat) \<le> of_int (2 ^ 53)" using x(5) by (simp only: of_int_le_iff)
  then have "pow2 xe \<le> pow2 54" using up by (simp add: pow2_int)
  then show "xe \<le> 54" using pow2_strict [of 54 xe] by fastforce
  have "2 * X \<le> X * X" using x(4) by (intro mult_right_mono) auto
  then have "(of_int (2 * X) :: rat) \<le> of_int (X * X)" by (simp only: of_int_le_iff)
  then show "pow2 xe \<le> of_int (X * X)" using up by simp
qed

lemma pow2_shift:
  assumes "z * pow2 e = w"
  shows "z = w * pow2 (- e)"
proof -
  have "pow2 (- e) = 1 / pow2 e" using pow2_diff [of 0 e] by simp
  then show ?thesis using assms by auto
qed

lemma int_mult_ge1: "1 \<le> x \<Longrightarrow> 1 \<le> y \<Longrightarrow> 1 \<le> x * (y :: int)"
  using mult_mono [of 1 x 1 y] by simp

lemma exact_mul:
  assumes "a * pow2 ae = of_int A" "x * pow2 xe = of_int X" "0 \<le> A * X" "A * X \<le> 2 ^ 53" "0 \<le> ae + xe" "ae + xe \<le> 1000"
  shows "f_mul (Fin a) (Fin x) = Fin (a * x)" "a * x * pow2 (ae + xe) = of_int (A * X)"
proof -
  show eq: "a * x * pow2 (ae + xe) = of_int (A * X)" using assms(1,2) by (simp add: pow2_add algebra_simps)
  then have "a * x = of_int (A * X) * pow2 (- (ae + xe))" by (rule pow2_shift)
  then show "f_mul (Fin a) (Fin x) = Fin (a * x)"
    using round_f64_scaled [of "A * X" "- (ae + xe)"] assms by simp
qed

lemma stands_for_square:
  assumes s: "stands_for x xe X" and X: "X * X \<le> 2 ^ 53"
  shows "\<exists>y ye. (if f_lt (f_mul (Fin x) (Fin x)) (Fin (1 / 2))
      then (f_add (f_mul (Fin x) (Fin x)) (f_mul (Fin x) (Fin x)), 2 * xe - 1) else (f_mul (Fin x) (Fin x), 2 * xe)) = (Fin y, ye) \<and>
    stands_for y ye (X * X)"
proof -
  have x: "1 / 2 \<le> x" "x < 1" "x * pow2 xe = of_int X" "2 \<le> X" using s by (simp_all add: stands_for_def)
  note e = stands_for_exp [OF s]
  have "0 \<le> X * X" "0 \<le> xe + xe" "xe + xe \<le> 1000" using e by auto
  note m = exact_mul [OF x(3) x(3) this(1) X this(2,3)]
  have sq: "f_mul (Fin x) (Fin x) = Fin (x * x)" by (rule m(1))
  have sq2: "x * x * pow2 (2 * xe) = of_int (X * X)" unfolding mult_2 by (rule m(2))
  have "1 / 2 * (1 / 2) \<le> x * x" using x by (intro mult_mono) auto
  moreover have "x * x < 1 * 1" using x by (intro mult_strict_mono) auto
  ultimately have r: "1 / 4 \<le> x * x" "x * x < 1" by simp_all
  have "2 * 2 \<le> X * X" using x(4) by (intro mult_mono) auto
  then have big: "2 \<le> X * X" by simp
  show ?thesis
  proof (cases "x * x < 1 / 2")
    case True
    have d: "(x * x + x * x) * pow2 (2 * xe - 1) = of_int (X * X)"
      using sq2 by (simp add: pow2_diff)
    then have "x * x + x * x = of_int (X * X) * pow2 (- (2 * xe - 1))" by (rule pow2_shift)
    then have "f_add (Fin (x * x)) (Fin (x * x)) = Fin (x * x + x * x)"
      using round_f64_scaled [of "X * X" "- (2 * xe - 1)"] X big e by simp
    then show ?thesis using True sq d r X big by (simp add: stands_for_def)
  next
    case False
    then show ?thesis using sq sq2 r X big by (simp add: stands_for_def)
  qed
qed

lemma pow_loop_exact:
  assumes "stands_for x xe X" "a * pow2 ae = of_int A" "1 \<le> A" "0 \<le> ae" "pow2 ae \<le> of_int (A * A)" "A * X ^ nat i \<le> 2 ^ 53" "0 \<le> i"
  shows "\<exists>b be. pow_loop i (Fin a) ae (Fin x) xe = (Fin b, be) \<and> b * pow2 be = of_int (A * X ^ nat i)"
  using assms
proof (induction "nat i" arbitrary: i x xe X a ae A rule: less_induct)
  case less
  show ?case
  proof (cases "i = 0")
    case True
    then show ?thesis using less.prems(2) by (subst pow_loop.simps) simp
  next
    case False
    then have i: "0 < i" using less.prems(7) by simp
    have X: "2 \<le> X" using less.prems(1) by (simp add: stands_for_def)
    note e = stands_for_exp [OF less.prems(1)]
    have split: "A * X ^ nat i = (if odd i then A * X else A) * (X * X) ^ nat (i div 2)"
    proof -
      have "nat i = 2 * nat (i div 2) + (if odd i then 1 else 0)"
      proof (cases "odd i")
        case True
        then obtain j where j: "i = 2 * j + 1" by (rule oddE)
        then have "0 \<le> j" using i by linarith
        then show ?thesis using j by (simp add: nat_add_distrib nat_mult_distrib)
      next
        case False
        then obtain j where j: "i = 2 * j" by (auto elim: evenE)
        then show ?thesis using i by (simp add: nat_mult_distrib)
      qed
      then show ?thesis by (simp add: power_add power_mult power2_eq_square)
    qed
    have XX: "1 \<le> (X * X) ^ nat (i div 2)" using X by (simp add: one_le_power int_mult_ge1)
    define B where "B = (if odd i then A * X else A)"
    have B: "1 \<le> B" using X less.prems(3) by (auto simp: B_def intro: int_mult_ge1)
    have "B * 1 \<le> B * (X * X) ^ nat (i div 2)" using XX B by (intro mult_left_mono) auto
    then have B53: "B \<le> 2 ^ 53" using split less.prems(6) by (simp add: B_def)
    have ae: "ae \<le> 106"
    proof -
      have "A \<le> B" using X less.prems(3) by (simp add: B_def)
      then have "A * A \<le> 2 ^ 53 * 2 ^ 53" using B53 less.prems(3) by (intro mult_mono) auto
      then have "(of_int (A * A) :: rat) \<le> of_int (2 ^ 53 * 2 ^ 53)" by (simp only: of_int_le_iff)
      then have "pow2 ae \<le> pow2 106" using less.prems(5) by (simp add: pow2_int)
      then show ?thesis using pow2_strict [of 106 ae] by fastforce
    qed
    obtain b be where b: "(if odd i then (f_mul (Fin a) (Fin x), ae + xe) else (Fin a, ae)) = (Fin b, be)"
      "b * pow2 be = of_int B" "0 \<le> be" "pow2 be \<le> of_int (B * B)"
    proof (cases "odd i")
      case True
      have "x * pow2 xe = of_int X" using less.prems(1) by (simp add: stands_for_def)
      note m = exact_mul [OF less.prems(2) this, of]
      have "pow2 ae * pow2 xe \<le> of_int (A * A) * of_int (X * X)" using less.prems(5) e(3) by (intro mult_mono) auto
      then have "pow2 (ae + xe) \<le> of_int (A * X * (A * X))" by (simp add: pow2_add algebra_simps)
      then show ?thesis
        using that [of "a * x" "ae + xe"] m True B B53 e less.prems(4) ae by (simp add: B_def)
    next
      case False
      then show ?thesis using that less.prems by (simp add: B_def)
    qed
    have step: "pow_loop i (Fin a) ae (Fin x) xe =
        (case (if f_lt (f_mul (Fin x) (Fin x)) (Fin (1 / 2))
           then (f_add (f_mul (Fin x) (Fin x)) (f_mul (Fin x) (Fin x)), 2 * xe - 1) else (f_mul (Fin x) (Fin x), 2 * xe)) of
         (y, ye) \<Rightarrow> pow_loop (i div 2) (Fin b) be y ye)"
      using i e b(1) by (subst pow_loop.simps) (simp add: Let_def split_beta)
    show ?thesis
    proof (cases "i div 2 = 0")
      case True
      have "pow_loop 0 (Fin b) be y ye = (Fin b, be)" for y ye by (subst pow_loop.simps) simp
      then show ?thesis using step True split b(2) by (simp add: B_def split_beta)
    next
      case h: False
      then have "1 \<le> nat (i div 2)" using i by simp
      then have "(X * X) ^ 1 \<le> (X * X) ^ nat (i div 2)" using X by (intro power_increasing) (auto intro: int_mult_ge1)
      moreover have "1 * (X * X) ^ nat (i div 2) \<le> B * (X * X) ^ nat (i div 2)" using B XX by (intro mult_right_mono) auto
      ultimately have "X * X \<le> 2 ^ 53" using split less.prems(6) by (simp add: B_def)
      from stands_for_square [OF less.prems(1) this] obtain y ye where y: "pow_loop i (Fin a) ae (Fin x) xe = pow_loop (i div 2) (Fin b) be (Fin y) ye"
        "stands_for y ye (X * X)" using step by auto
      have "nat (i div 2) < nat i" using i by simp
      from less.hyps [OF this y(2) b(2) B b(3,4)] show ?thesis
        using y(1) split less.prems(6) i by (simp add: B_def)
    qed
  qed
qed

text \<open>\<open>math.Pow\<close> of integers is exact as long as the power has at most 53 bits.\<close>

lemma PowInt_exact:
  assumes "1 \<le> m" "0 \<le> k" "m ^ nat k \<le> 2 ^ 53"
  shows "PowInt (Fin (of_int m)) k = Fin (of_int (m ^ nat k))"
proof (cases "m = 1 \<or> k \<le> 1")
  case True
  then have "m = 1 \<or> k = 0 \<or> k = 1" using assms(2) by linarith
  then show ?thesis by (auto simp: PowInt_def)
next
  case False
  then have m: "2 \<le> m" "2 \<le> k" using assms(1) by auto
  have "2 ^ nat k \<le> m ^ nat k" using m by (intro power_mono) auto
  then have "(2 :: int) ^ nat k \<le> 2 ^ 53" using assms(3) by linarith
  then have k: "k \<le> 53" using power_le_imp_le_exp [of "2 :: int" "nat k" 53] by simp
  have "m ^ 1 \<le> m ^ nat k" using m by (intro power_increasing) auto
  then have m53: "m \<le> 2 ^ 53" using assms(3) by simp
  let ?q = "of_int m :: rat" and ?e = "ilog2 (of_int m) + 1"
  have q: "0 < ?q" using m by simp
  note b = ilog2_bounds [OF q]
  have s: "stands_for (?q / pow2 ?e) ?e m"
    using b m m53 by (auto simp: stands_for_def pow2_add pos_le_divide_eq pos_divide_less_eq)
  obtain c ce where c: "pow_loop k (Fin 1) 0 (Fin (?q / pow2 ?e)) ?e = (Fin c, ce)" "c * pow2 ce = of_int (m ^ nat k)"
    using pow_loop_exact [OF s, of 1 0 1 k] assms(3) m by auto
  have "round_f64 (of_int (m ^ nat k)) = Fin (of_int (m ^ nat k))"
    using assms(1,3) by (intro round_f64_int) simp
  then show ?thesis
    using False m k c by (simp add: PowInt_def frexp_def Let_def f_ldexp_def)
qed

end
