(* ===== verification/Policy_Props.thy ===== *)
theory Policy_Props
  imports Policy Go_Float_Error
begin

text \<open>
  Properties of the classification ladder and of the retry backoff.
\<close>

section \<open>The classification ladder\<close>

text \<open>Context added around an error by plain single-error wrapping, as \<open>fmt.Errorf\<close> with
  \<open>%w\<close> adds it: types that do not force a decision.\<close>

fun add_context :: "(nat \<times> string \<times> string) list \<Rightarrow> go_error \<Rightarrow> go_error" where
  "add_context [] e = e"
| "add_context ((i, t, m) # ws) e = GoErr i t m None (Unwrap1 (Some (add_context ws e)))"

lemma classified_add_context:
  "errors_As_Classified (Some (add_context ws e)) = errors_As_Classified (Some e)"
  by (induction ws e rule: add_context.induct) (simp_all add: errors_As_Classified_def)

lemma ErrorType_add_context: "ErrorType (Some (add_context ws e)) = ErrorType (Some e)"
  by (induction ws e rule: add_context.induct) (simp_all add: ErrorType_def)

lemma classified_wrapped: "errors_As_Classified (Some (wrapped err d)) = Some d"
  by (simp add: errors_As_Classified_def wrapped_def)

text \<open>A handler that marks its error permanent or retryable decides the outcome: unless the
  queue's outcome mapper claims the error, the outermost mark in the chain wins over every code
  rule and every configured pattern, through any context wrapped around it, and the reported
  error type is still that of the cause.\<close>

theorem wrapper_decides:
  assumes "Option.bind (Mapper c) (\<lambda>m. m (Some (add_context ws (wrapped (Some e) d)))) = None"
  shows "Classify c (Some (add_context ws (wrapped (Some e) d))) t =
      \<lparr>Decision = d, Layer = LayerWrapper\<rparr>
    \<and> ErrorType (Some (add_context ws (wrapped (Some e) d))) = ErrorType (Some e)"
proof
  show "Classify c (Some (add_context ws (wrapped (Some e) d))) t =
      \<lparr>Decision = d, Layer = LayerWrapper\<rparr>"
    using assms by (simp add: Classify_def classified_add_context classified_wrapped)
  show "ErrorType (Some (add_context ws (wrapped (Some e) d))) = ErrorType (Some e)"
    unfolding ErrorType_add_context by (simp add: ErrorType_def wrapped_def)
qed

definition sample_error :: go_error where
  "sample_error = GoErr 7 ''*net.OpError'' ''connection refused'' None NoUnwrap"

theorem wrapper_decides_witness:
  "Classify \<lparr>Mapper = None, CodeRules = [IsRule 7 DecisionRetryable], CConfig = None\<rparr>
     (Some (add_context [(1, ''*fmt.wrapError'', ''charge: connection refused'')]
        (wrapped (Some sample_error) DecisionPermanent))) ''*net.OpError'' =
     \<lparr>Decision = DecisionPermanent, Layer = LayerWrapper\<rparr>"
  using wrapper_decides [of "\<lparr>Mapper = None, CodeRules = [IsRule 7 DecisionRetryable], CConfig = None\<rparr>"
      "[(1, ''*fmt.wrapError'', ''charge: connection refused'')]" sample_error DecisionPermanent
      "''*net.OpError''"] by simp

text \<open>When no mapper, mark or code rule decides, the configured patterns do: an error type in the
  language of a permanent pattern is permanent even when a retryable pattern matches it too,
  otherwise one matched by a retryable pattern is retryable, and one matched by nothing is
  retryable by default.\<close>

theorem globs_decide:
  assumes "Option.bind (Mapper c) (\<lambda>m. m err) = None" "errors_As_Classified err = None"
    "\<forall>r \<in> set (CodeRules c). \<not> rule_match r err" "CConfig c = Some cfg"
  shows "((\<exists>p \<in> set (globs (Permanent_globs cfg)). glob_spec p t) \<longrightarrow>
      Classify c err t = \<lparr>Decision = DecisionPermanent, Layer = LayerConfigGlob\<rparr>)
    \<and> ((\<forall>p \<in> set (globs (Permanent_globs cfg)). \<not> glob_spec p t) \<and>
        (\<exists>p \<in> set (globs (Retryable_globs cfg)). glob_spec p t) \<longrightarrow>
      Classify c err t = \<lparr>Decision = DecisionRetryable, Layer = LayerConfigGlob\<rparr>)
    \<and> ((\<forall>p \<in> set (globs (Permanent_globs cfg)) \<union> set (globs (Retryable_globs cfg)). \<not> glob_spec p t) \<longrightarrow>
      Classify c err t = \<lparr>Decision = DecisionRetryable, Layer = LayerDefault\<rparr>)"
proof -
  have f: "find (\<lambda>r. rule_match r err) (CodeRules c) = None"
    using assms(3) by (auto simp: find_None_iff)
  have m: "matchGlobs (CConfig c) t =
      (if \<exists>p \<in> set (globs (Permanent_globs cfg)). glob_spec p t then Some DecisionPermanent
       else if \<exists>p \<in> set (globs (Retryable_globs cfg)). glob_spec p t then Some DecisionRetryable else None)"
    by (simp add: matchGlobs_def assms(4) list_ex_iff Glob_spec)
  show ?thesis
    unfolding Classify_def assms(1,2) f m option.case by auto
qed

definition sample_globs :: classification_config where
  "sample_globs = \<lparr>Retryable_globs = Some [''java.net.*''], Permanent_globs = Some [''*.SocketTimeout'']\<rparr>"

theorem globs_decide_witness:
  "Classify \<lparr>Mapper = None, CodeRules = [], CConfig = Some sample_globs\<rparr> None ''java.net.SocketTimeout'' =
     \<lparr>Decision = DecisionPermanent, Layer = LayerConfigGlob\<rparr>"
proof -
  have "Glob ''*.SocketTimeout'' ''java.net.SocketTimeout''" by code_simp
  then have "\<exists>p \<in> set (globs (Permanent_globs sample_globs)). glob_spec p ''java.net.SocketTimeout''"
    by (simp only: Glob_spec) (simp add: globs_def sample_globs_def)
  then show ?thesis
    using globs_decide [of "\<lparr>Mapper = None, CodeRules = [], CConfig = Some sample_globs\<rparr>" None sample_globs
        "''java.net.SocketTimeout''"]
    by (simp add: errors_As_Classified_def)
qed

section \<open>Backoff\<close>

definition valid_backoff :: "backoff \<Rightarrow> bool" where
  "valid_backoff b \<longleftrightarrow> 0 < Initial b \<and> Initial b \<le> 2 ^ 52 \<and> 0 < BMax b \<and> BMax b \<le> 2 ^ 52 \<and>
     f_le (Fin 1) (Multiplier b) \<and> f_le (Fin 0) (BJitter b) \<and> f_le (BJitter b) (Fin 1)"

lemma f_of_int_Fin:
  assumes "0 \<le> n" "n \<le> max_int64"
  shows "\<exists>q \<ge> 0. f_of_int n = Fin q"
proof -
  have "f_le (f_of_int 0) (f_of_int n)" using assms(1) by (rule f_of_int_mono)
  moreover have "f_le (f_of_int n) (round_f64 (pow2 63))"
    unfolding f_of_int_def using assms(2) by (intro round_f64_mono) (simp add: pow2_def)
  ultimately show ?thesis
    by (cases "f_of_int n") (auto simp: f_of_int_exact round_f64_pow2)
qed

lemma Pow_ge_one:
  assumes "f_le (Fin 1) x" "0 \<le> n" "n \<le> max_int64"
  shows "f_le (Fin 1) (Pow x (f_of_int n))"
  using f_of_int_Fin [OF assms(2,3)] PowInt_ge_one [OF assms(1)] by (auto simp: Pow_def)

lemma scaled_ge:
  assumes "0 < i" "i \<le> 2 ^ 53" "f_le (Fin 1) m" "1 \<le> n" "n \<le> max_int64"
  shows "f_le (Fin (of_int i)) (f_mul (f_of_int i) (Pow m (f_of_int (n - 1))))"
proof -
  have "f_of_int i = Fin (of_int i)" using assms by (intro f_of_int_exact) simp
  moreover have "f_le (Fin 1) (Pow m (f_of_int (n - 1)))" using assms by (intro Pow_ge_one) auto
  moreover have "round_f64 (of_int i) = Fin (of_int i)" using assms by (intro round_f64_int) simp
  ultimately show ?thesis
    using f_mul_ge [of "of_int i" "f_of_int i" 1 "Pow m (f_of_int (n - 1))"] assms(1) by simp
qed

lemma int64_of_Fin:
  assumes "0 \<le> q" "\<lfloor>q\<rfloor> \<le> max_int64"
  shows "int64_of_f64 oob (Fin q) = \<lfloor>q\<rfloor>"
proof -
  have t: "trunc_rat q = \<lfloor>q\<rfloor>" using assms(1) by (simp add: trunc_rat_def)
  have "0 \<le> \<lfloor>q\<rfloor>" using assms(1) by simp
  then have "min_int64 \<le> \<lfloor>q\<rfloor> \<and> \<lfloor>q\<rfloor> \<le> max_int64" using assms(2) by linarith
  then show ?thesis unfolding int64_of_f64_def f64.case t by (simp only: simp_thms if_True)
qed

text \<open>The value is the same whatever the machine does with floats out of the integer range.\<close>

lemma baseDelay_bounds:
  assumes "valid_backoff b" "n \<le> max_int64"
  shows "\<exists>x. (\<forall>oob. baseDelay oob b n = x) \<and> min (Initial b) (BMax b) \<le> x \<and> x \<le> BMax b"
proof -
  let ?n = "if n < 1 then 1 else n"
  let ?s = "f_mul (f_of_int (Initial b)) (Pow (Multiplier b) (f_of_int (?n - 1)))"
  have v: "0 < Initial b" "Initial b \<le> 2 ^ 53" "0 < BMax b" "BMax b \<le> 2 ^ 53" "f_le (Fin 1) (Multiplier b)"
    using assms(1) by (auto simp: valid_backoff_def)
  have ge: "f_le (Fin (of_int (Initial b))) ?s"
    using v assms(2) by (intro scaled_ge) auto
  have mx: "f_of_int (BMax b) = Fin (of_int (BMax b))" using v by (intro f_of_int_exact) simp
  show ?thesis
  proof (cases "f_le (f_of_int (BMax b)) ?s")
    case True
    then have "\<forall>oob. baseDelay oob b n = BMax b" using v(3) unfolding baseDelay_def Let_def by simp
    then show ?thesis by auto
  next
    case False
    then obtain q where q: "?s = Fin q" "of_int (Initial b) \<le> q" "q < of_int (BMax b)"
      using ge mx by (cases ?s) auto
    have "\<not> f_le (f_of_int max_int64) ?s"
    proof
      assume "f_le (f_of_int max_int64) ?s"
      moreover have "f_le (f_of_int (BMax b)) (f_of_int max_int64)" using v by (intro f_of_int_mono) simp
      ultimately show False using False f_le_trans by blast
    qed
    then have B: "baseDelay oob b n = int64_of_f64 oob (Fin q)" for oob
      using False q(1) unfolding baseDelay_def Let_def by simp
    have lo: "Initial b \<le> \<lfloor>q\<rfloor>" using q(2) by (simp add: le_floor_iff)
    have hi: "\<lfloor>q\<rfloor> \<le> BMax b" using q(3) by linarith
    have "int64_of_f64 oob (Fin q) = \<lfloor>q\<rfloor>" for oob
    proof (rule int64_of_Fin)
      show "0 \<le> q" using lo v(1) by linarith
      have "BMax b \<le> 9007199254740992" using v(4) by simp
      then show "\<lfloor>q\<rfloor> \<le> max_int64" using hi by linarith
    qed
    then show ?thesis using B lo hi by (intro exI [where x = "\<lfloor>q\<rfloor>"]) simp
  qed
qed

text \<open>With an integral multiplier the base delay is the documented formula, exactly, while the power has at most 53 bits.\<close>

lemma baseDelay_formula:
  assumes "valid_backoff b" "Multiplier b = Fin (of_int m)" "1 \<le> n" "n \<le> max_int64" "m ^ nat (n - 1) \<le> 2 ^ 53"
  shows "baseDelay oob b n = min (Initial b * m ^ nat (n - 1)) (BMax b)"
proof -
  let ?S = "Initial b * m ^ nat (n - 1)"
  have v: "0 < Initial b" "Initial b \<le> 2 ^ 53" "0 < BMax b" "BMax b \<le> 2 ^ 53" "1 \<le> m"
    using assms(1,2) by (auto simp: valid_backoff_def)
  have pow: "Pow (Multiplier b) (f_of_int (n - 1)) = Fin (of_int (m ^ nat (n - 1)))"
  proof (cases "m = 1")
    case True
    obtain q where "f_of_int (n - 1) = Fin q" using f_of_int_Fin [of "n - 1"] assms(3,4) by auto
    then show ?thesis using True assms(2) by (simp add: Pow_def PowInt_def)
  next
    case False
    then have "2 ^ nat (n - 1) \<le> m ^ nat (n - 1)" using v(5) by (intro power_mono) auto
    then have "(2 :: int) ^ nat (n - 1) \<le> 2 ^ 53" using assms(5) by linarith
    then have "n - 1 \<le> 53" using power_le_imp_le_exp [of "2 :: int" "nat (n - 1)" 53] by simp
    then have "f_of_int (n - 1) = Fin (of_int (n - 1))" using assms(3) by (intro f_of_int_exact) simp
    then show ?thesis using PowInt_exact [OF v(5) _ assms(5)] assms(2,3) by (simp add: Pow_def)
  qed
  have i: "f_of_int (Initial b) = Fin (of_int (Initial b))" and mx: "f_of_int (BMax b) = Fin (of_int (BMax b))"
    using v by (simp_all add: f_of_int_exact)
  have scaled: "f_mul (f_of_int (Initial b)) (Pow (Multiplier b) (f_of_int (n - 1))) = round_f64 (of_int ?S)"
    by (simp add: pow i)
  have S: "0 \<le> ?S" using v by simp
  have cap: "f_le (f_of_int (BMax b)) (round_f64 (of_int ?S)) \<longleftrightarrow> BMax b \<le> ?S"
  proof (cases "?S \<le> 2 ^ 53")
    case True
    then have "round_f64 (of_int ?S) = Fin (of_int ?S)" using S by (intro round_f64_int) simp
    then show ?thesis unfolding mx by (simp only: f_le.simps of_int_le_iff)
  next
    case False
    then have "f_le (round_f64 (of_int (BMax b))) (round_f64 (of_int ?S))" using v by (intro round_f64_mono) (simp only: of_int_le_iff)
    then show ?thesis using False v by (simp add: f_of_int_def)
  qed
  show ?thesis
  proof (cases "BMax b \<le> ?S")
    case True
    then show ?thesis using cap scaled v(3) assms(3) by (simp add: baseDelay_def Let_def)
  next
    case False
    then have le: "?S \<le> 2 ^ 53" using v by linarith
    then have r: "round_f64 (of_int ?S) = Fin (of_int ?S)" using S by (intro round_f64_int) simp
    have "\<not> f_le (f_of_int max_int64) (round_f64 (of_int ?S))"
    proof
      assume "f_le (f_of_int max_int64) (round_f64 (of_int ?S))"
      moreover have "f_le (f_of_int (BMax b)) (f_of_int max_int64)" using v by (intro f_of_int_mono) simp
      ultimately show False using False cap f_le_trans by blast
    qed
    moreover have "int64_of_f64 oob (Fin (of_int ?S)) = ?S"
    proof -
      have "?S \<le> max_int64" using le by simp
      then have "\<lfloor>of_int ?S :: rat\<rfloor> \<le> max_int64" by (simp only: floor_of_int)
      moreover have "0 \<le> (of_int ?S :: rat)" using S by (simp only: of_int_0_le_iff)
      ultimately show ?thesis using int64_of_Fin [of "of_int ?S" oob] by (simp only: floor_of_int)
    qed
    ultimately have "baseDelay oob b n = ?S"
      unfolding baseDelay_def Let_def using assms(3) cap False scaled r by simp
    then show ?thesis using False by simp
  qed
qed

text \<open>The jitter factor is within three parts in 2 to the 53 of its exact value.\<close>

lemma jitter_factor:
  assumes "0 \<le> p" "p \<le> 1" "0 \<le> r" "r \<le> 1"
  shows "\<exists>f. f_add (Fin 1) (f_mul (Fin p) (f_sub (f_mul (Fin 2) (Fin r)) (Fin 1))) = Fin f \<and> 0 \<le> f \<and> f \<le> 2 \<and>
    \<bar>f - (1 + p * (2 * r - 1))\<bar> \<le> 3 * pow2 (- 53)"
proof -
  have h: "pow2 (- 54) = pow2 (- 53) / 2" by (simp add: pow2_def)
  obtain a where a: "round_f64 (2 * r) = Fin a" "\<bar>a - 2 * r\<bar> \<le> pow2 (- 53)" "0 \<le> a" "a \<le> 2"
    using round_error [of "2 * r" 1] round_between [of 0 "2 * r" 2] assms by auto
  obtain c where c: "round_f64 (a - 1) = Fin c" "\<bar>c - (a - 1)\<bar> \<le> pow2 (- 54)" "\<bar>c\<bar> \<le> 1"
    using round_error [of "a - 1" 0] a(3,4) by (auto simp: abs_le_iff)
  have pc: "\<bar>p * c\<bar> \<le> 1"
    using assms c(3) mult_mono [of "\<bar>p\<bar>" 1 "\<bar>c\<bar>" 1] by (simp add: abs_mult)
  obtain d where d: "round_f64 (p * c) = Fin d" "\<bar>d - p * c\<bar> \<le> pow2 (- 54)" "\<bar>d\<bar> \<le> 1"
    using round_error [of "p * c" 0] pc by auto
  obtain f where f: "round_f64 (1 + d) = Fin f" "\<bar>f - (1 + d)\<bar> \<le> pow2 (- 53)" "0 \<le> f" "f \<le> 2"
    using round_error [of "1 + d" 1] round_between [of 0 "1 + d" 2] d(3) by (auto simp: abs_le_iff)
  have "\<bar>c - (2 * r - 1)\<bar> \<le> pow2 (- 53) + pow2 (- 54)" using a(2) c(2) by (simp add: abs_le_iff)
  then have "p * \<bar>c - (2 * r - 1)\<bar> \<le> 1 * (pow2 (- 53) + pow2 (- 54))" using assms by (intro mult_mono) auto
  then have "\<bar>p * c - p * (2 * r - 1)\<bar> \<le> pow2 (- 53) + pow2 (- 54)"
    using assms(1) by (simp add: abs_mult flip: right_diff_distrib)
  then have "\<bar>f - (1 + p * (2 * r - 1))\<bar> \<le> 3 * pow2 (- 53)" using d(2) f(2) unfolding h by linarith
  then show ?thesis using a(1) c(1) d(1) f by (simp add: f_sub_def)
qed

text \<open>C23: the delay before a retry is the documented one to three nanoseconds. For a valid ladder whose delays are
  at most 2 to the 52 nanoseconds (52 days), whatever the attempt number: the base delay lies between the
  smaller of the initial delay and the cap, and the cap, and for an integral multiplier it is exactly
  min(initial * multiplier^(n - 1), max) while the power has at most 53 bits; the delay is the base without
  jitter, and with it within three nanoseconds of base * (1 + jitter * (2 * rnd - 1)), a point of
  base * [1 - jitter, 1 + jitter); it is never negative. The float arithmetic neither
  overflows nor leaves the integer range, so the result does not depend on how the machine converts an
  out-of-range float.\<close>

theorem Delay_bounds:
  assumes "valid_backoff b" "n \<le> max_int64" "BJitter b = Fin p" "0 \<le> r" "r < 1"
  shows "min (Initial b) (BMax b) \<le> baseDelay oob b n \<and> baseDelay oob b n \<le> BMax b
    \<and> (\<forall>m. Multiplier b = Fin (of_int m) \<and> 1 \<le> n \<and> m ^ nat (n - 1) \<le> 2 ^ 53 \<longrightarrow>
         baseDelay oob b n = min (Initial b * m ^ nat (n - 1)) (BMax b))
    \<and> (p = 0 \<longrightarrow> Delay oob b n (Fin r) = baseDelay oob b n)
    \<and> \<bar>of_int (Delay oob b n (Fin r)) - of_int (baseDelay oob b n) * (1 + p * (2 * r - 1))\<bar> \<le> 3
    \<and> 1 - p \<le> 1 + p * (2 * r - 1) \<and> (0 < p \<longrightarrow> 1 + p * (2 * r - 1) < 1 + p)
    \<and> 0 \<le> Delay oob b n (Fin r) \<and> Delay oob b n (Fin r) = Delay oob' b n (Fin r)"
proof -
  have v: "0 < Initial b" "0 < BMax b" "BMax b \<le> 2 ^ 52" using assms(1) by (auto simp: valid_backoff_def)
  obtain base where same: "\<And>oob. baseDelay oob b n = base" and
      bs: "min (Initial b) (BMax b) \<le> base" "base \<le> BMax b"
    using baseDelay_bounds [OF assms(1,2)] by blast
  have base: "0 \<le> base" "base \<le> 2 ^ 52" using bs v by linarith+
  have p: "0 \<le> p" "p \<le> 1" using assms(1,3) by (auto simp: valid_backoff_def)
  obtain f where f: "f_add (Fin 1) (f_mul (Fin p) (f_sub (f_mul (Fin 2) (Fin r)) (Fin 1))) = Fin f" "0 \<le> f" "f \<le> 2"
    "\<bar>f - (1 + p * (2 * r - 1))\<bar> \<le> 3 * pow2 (- 53)"
    using jitter_factor [OF p assms(4)] assms(5) by auto
  let ?E = "of_int base * (1 + p * (2 * r - 1))"
  have m: "f_of_int base = Fin (of_int base)" using base by (intro f_of_int_exact) simp
  have b52: "(of_int base :: rat) \<le> pow2 52" using base(2) by (simp add: pow2_int flip: of_int_le_iff)
  have "of_int base * f \<le> pow2 52 * 2" using base(1) b52 f by (intro mult_mono) auto
  also have "pow2 52 * 2 = pow2 53" using pow2_add [of 52 1] by simp
  finally have "\<bar>of_int base * f\<bar> \<le> pow2 53" using base(1) f(2) by simp
  then obtain x where x: "round_f64 (of_int base * f) = Fin x" "\<bar>x - of_int base * f\<bar> \<le> pow2 (- 1)" "\<bar>x\<bar> \<le> pow2 53"
    using round_error [of "of_int base * f" 53] by auto
  have x0: "0 \<le> x"
    using round_f64_mono [of 0 "of_int base * f"] x(1) base(1) f(2) by (simp add: round_f64_def split: if_splits)
  have "of_int base * \<bar>f - (1 + p * (2 * r - 1))\<bar> \<le> pow2 52 * (3 * pow2 (- 53))"
    using b52 f(4) base(1) by (intro mult_mono) auto
  also have "pow2 52 * (3 * pow2 (- 53)) = 3 / 2" by (simp add: pow2_def)
  finally have "\<bar>of_int base * f - ?E\<bar> \<le> 3 / 2" using base(1) by (simp add: abs_mult flip: right_diff_distrib)
  then have xE: "\<bar>x - ?E\<bar> \<le> 2" using x(2) unfolding half by linarith
  have fl: "of_int \<lfloor>x\<rfloor> \<le> x" "x < of_int \<lfloor>x\<rfloor> + 1" by linarith+
  have d: "int64_of_f64 o2 (Fin x) = \<lfloor>x\<rfloor>" for o2
  proof (rule int64_of_Fin [OF x0])
    have "of_int \<lfloor>x\<rfloor> \<le> (of_int (2 ^ 53) :: rat)" using x(3) x0 fl(1) by (simp add: pow2_int)
    then show "\<lfloor>x\<rfloor> \<le> max_int64" by (simp only: of_int_le_iff) simp
  qed
  have D: "Delay o2 b n (Fin r) = (if p \<le> 0 then base else \<lfloor>x\<rfloor>)" for o2
    using d [of o2] f(1) x(1) x0 assms(3) same m unfolding Delay_def Let_def by simp
  have close: "\<bar>of_int (Delay oob b n (Fin r)) - ?E\<bar> \<le> 3"
  proof (cases "p \<le> 0")
    case True
    then show ?thesis using D p by simp
  next
    case False
    then show ?thesis using D [of oob] xE fl by simp linarith
  qed
  have "p * (- 1) \<le> p * (2 * r - 1)" using p assms(4) by (intro mult_left_mono) auto
  moreover have "p * (2 * r - 1) < p * 1" if "0 < p" using that assms(5) by (intro mult_strict_left_mono) auto
  moreover have "0 \<le> Delay oob b n (Fin r)" using D [of oob] base(1) x0 by simp
  moreover have "\<forall>m. Multiplier b = Fin (of_int m) \<and> 1 \<le> n \<and> m ^ nat (n - 1) \<le> 2 ^ 53 \<longrightarrow>
      base = min (Initial b * m ^ nat (n - 1)) (BMax b)"
    using baseDelay_formula [OF assms(1) _ _ assms(2)] same by metis
  moreover have "p = 0 \<longrightarrow> Delay oob b n (Fin r) = base" using D [of oob] by simp
  moreover have "Delay oob b n (Fin r) = Delay oob' b n (Fin r)" using D [of oob] D [of oob'] by simp
  ultimately show ?thesis unfolding same using bs close by simp
qed

definition sample_backoff :: backoff where
  "sample_backoff = \<lparr>Initial = 1000000000, Multiplier = Fin 2, BMax = 60000000000, BJitter = Fin (1 / 4)\<rparr>"

theorem Delay_bounds_witness:
  "baseDelay (\<lambda>_. min_int64) sample_backoff 3 = 4000000000 \<and>
   \<bar>of_int (Delay (\<lambda>_. min_int64) sample_backoff 3 (Fin (3 / 4))) - (4500000000 :: rat)\<bar> \<le> 3"
proof -
  have "Multiplier sample_backoff = Fin (of_int 2)" "valid_backoff sample_backoff" "BJitter sample_backoff = Fin (1 / 4)"
    by (simp_all add: sample_backoff_def valid_backoff_def)
  note D = Delay_bounds [OF this(2) _ this(3), of 3 "3 / 4" "\<lambda>_. min_int64"] this(1)
  have b: "baseDelay (\<lambda>_. min_int64) sample_backoff 3 = 4000000000"
    using D by (auto simp: sample_backoff_def)
  moreover have "1 + 1 / 4 * (2 * (3 / 4) - 1) = (9 / 8 :: rat)" by simp
  ultimately show ?thesis using D(1) by simp
qed

end
