(* ===== verification/Rdq_Log.thy ===== *)
theory Rdq_Log
  imports Envelope Go_Strconv
begin

text \<open>
  Transition logging (\<open>core/log\<close>): the W3C trace context and the structured record written on
  every state change. The digest of a payload is a parameter, the hexadecimal SHA-256.
\<close>

section \<open>Trace context\<close>

definition HeaderTraceparent :: string where "HeaderTraceparent = ''traceparent''"

text \<open>A context carries at most one traceparent; the empty string is none.\<close>

definition ContextWithTraceparent :: "string \<Rightarrow> string \<Rightarrow> string" where
  "ContextWithTraceparent ctx tp = (if tp = [] then ctx else tp)"

definition TraceparentFromHeaders :: "string gomap \<Rightarrow> string" where
  "TraceparentFromHeaders headers = (case map_of headers HeaderTraceparent of None \<Rightarrow> [] | Some v \<Rightarrow> v)"

definition effectiveTraceparent :: "string \<Rightarrow> string gomap \<Rightarrow> string" where
  "effectiveTraceparent ctx headers = (if ctx \<noteq> [] then ctx else TraceparentFromHeaders headers)"

definition isHex :: "string \<Rightarrow> nat \<Rightarrow> bool" where
  "isHex s n \<longleftrightarrow> length s = n \<and>
     list_all (\<lambda>c. \<not> ((c < CHR ''0'' \<or> c > CHR ''9'') \<and> (c < CHR ''a'' \<or> c > CHR ''f''))) s"

definition isAllZero :: "string \<Rightarrow> bool" where
  "isAllZero s \<longleftrightarrow> list_all (\<lambda>c. c = CHR ''0'') s"

definition ParseTraceparent :: "string \<Rightarrow> (string \<times> string) option" where
  "ParseTraceparent tp = (case Split1 tp CHR ''-'' of
      [version, tid, sid, flags] \<Rightarrow>
        if \<not> isHex version 2 \<or> \<not> isHex tid 32 \<or> \<not> isHex sid 16 \<or> \<not> isHex flags 2 then None
        else if isAllZero tid \<or> isAllZero sid then None
        else Some (tid, sid)
    | _ \<Rightarrow> None)"

section \<open>Records\<close>

datatype attr_value = AString string | AInt int | ATime time

type_synonym attr = "string \<times> attr_value"

definition TransitionClaimed :: string where "TransitionClaimed = ''claimed''"
definition TransitionSucceeded :: string where "TransitionSucceeded = ''succeeded''"
definition TransitionRetried :: string where "TransitionRetried = ''retry_scheduled''"
definition TransitionDeadLettered :: string where "TransitionDeadLettered = ''dead_lettered''"
definition TransitionAbandoned :: string where "TransitionAbandoned = ''abandoned''"

definition PayloadAttrs :: "(bytes \<Rightarrow> string) \<Rightarrow> bytes option \<Rightarrow> attr list" where
  "PayloadAttrs sha payload = (let b = (case payload of None \<Rightarrow> [] | Some b \<Rightarrow> b) in
     (''payload_bytes'', AInt (int (length b))) #
     (if length b > 0 then [(''payload_sha256'', AString (sha b))] else []))"

definition Transition :: "(bytes \<Rightarrow> string) \<Rightarrow> string \<Rightarrow> string \<Rightarrow> envelope \<Rightarrow> attr list \<Rightarrow> attr list" where
  "Transition sha ctx t e attrs =
     [(''transition'', AString t), (''task_id'', AString (ID e)), (''queue'', AString (Queue e)),
      (''attempt_count'', AInt (AttemptCount e)), (''status'', AString (Status e))] @
     (let tp = effectiveTraceparent ctx (Headers e) in
      if tp = [] then []
      else case ParseTraceparent tp of None \<Rightarrow> []
        | Some (tid, sid) \<Rightarrow> [(''trace_id'', AString tid), (''span_id'', AString sid)]) @
     PayloadAttrs sha (Payload e) @ attrs"

section \<open>Properties\<close>

text \<open>C30: a transition record reveals nothing of a payload but its length and its digest: replacing
  the payload by any other with the same length and digest gives the same record, and the
  record says nothing of the task's attempts either.\<close>

theorem log_never_reveals_payload:
  assumes "length p = length p'" "sha p = sha p'"
  shows "Transition sha ctx t (e\<lparr>Payload := Some p\<rparr>) attrs =
    Transition sha ctx t (e\<lparr>Payload := Some p', Attempts := as\<rparr>) attrs"
proof -
  have "p = [] \<longleftrightarrow> p' = []" using assms(1) by (metis length_0_conv)
  then show ?thesis using assms by (simp add: Transition_def PayloadAttrs_def)
qed

definition logged_task :: envelope where
  "logged_task = \<lparr>EnvelopeVersion = 1, ID = ''01'', Queue = ''q'', HandlerRef = ''h'', HandlerVersion = [],
     Payload = None, PayloadContentType = [], PayloadRef = None, Headers = [],
     Status = StatusInFlight, AttemptCount = 0, RedriveCount = 0, NextAttemptAt = Some 0,
     LeaseExpiresAt = Some 9, CreatedAt = 0, Attempts = [], Residual = []\<rparr>"

theorem log_never_reveals_payload_witness:
  "Transition (\<lambda>_. ''digest'') [] TransitionClaimed (logged_task\<lparr>Payload := Some ''secret''\<rparr>) [] =
   Transition (\<lambda>_. ''digest'') [] TransitionClaimed (logged_task\<lparr>Payload := Some ''public'', Attempts := []\<rparr>) []"
  by (rule log_never_reveals_payload) simp_all

lemma Split1_four:
  assumes "CHR ''-'' \<notin> set a" "CHR ''-'' \<notin> set b" "CHR ''-'' \<notin> set c" "CHR ''-'' \<notin> set d"
  shows "Split1 (a @ CHR ''-'' # b @ CHR ''-'' # c @ CHR ''-'' # d) CHR ''-'' = [a, b, c, d]"
  using assms by (simp add: Split1_append Split1_no_sep)

lemma isHex_no_dash: "isHex s n \<Longrightarrow> CHR ''-'' \<notin> set s"
  by (auto simp: isHex_def list_all_iff)

lemma Split1_join: "concat (map (\<lambda>p. p @ [sep]) (Split1 s sep)) = s @ [sep]"
  by (induction s) (auto split: list.splits)

text \<open>The trace context is read exactly from well-formed traceparents: parsing succeeds on
  \<open>version-trace-span-flags\<close> with 2, 32, 16 and 2 lower-case hexadecimal digits and a trace and a
  span that are not all zeros, yields that trace and span, and fails on everything else.\<close>

theorem ParseTraceparent_iff:
  "ParseTraceparent tp = Some (tid, sid) \<longleftrightarrow>
     (\<exists>version flags. tp = version @ ''-'' @ tid @ ''-'' @ sid @ ''-'' @ flags \<and>
        isHex version 2 \<and> isHex tid 32 \<and> isHex sid 16 \<and> isHex flags 2 \<and>
        \<not> isAllZero tid \<and> \<not> isAllZero sid)"
  (is "?L \<longleftrightarrow> ?R")
proof
  assume ?L
  then obtain version flags where s: "Split1 tp CHR ''-'' = [version, tid, sid, flags]"
    and h: "isHex version 2" "isHex tid 32" "isHex sid 16" "isHex flags 2" "\<not> isAllZero tid" "\<not> isAllZero sid"
    by (auto simp: ParseTraceparent_def split: list.splits if_splits)
  have "tp = version @ ''-'' @ tid @ ''-'' @ sid @ ''-'' @ flags"
    using Split1_join [of "CHR ''-''" tp] by (simp add: s)
  then show ?R using h by blast
next
  assume ?R
  then obtain version flags where tp: "tp = version @ ''-'' @ tid @ ''-'' @ sid @ ''-'' @ flags"
    and h: "isHex version 2" "isHex tid 32" "isHex sid 16" "isHex flags 2" "\<not> isAllZero tid" "\<not> isAllZero sid"
    by blast
  have "Split1 tp CHR ''-'' = [version, tid, sid, flags]"
    using Split1_four [of version tid sid flags] h isHex_no_dash by (simp add: tp)
  then show ?L using h by (simp add: ParseTraceparent_def)
qed

end
