(* ===== verification/Registry.thy ===== *)
theory Registry
  imports Policy
begin

text \<open>
  The worker-side handler registry (\<open>core/registry\<close>): registration under a name, and the
  routing of a claimed task to a handler or to the dead-letter queue. A handler is its version
  and what its \<open>Handle\<close> does with a task; \<open>quote\<close> renders a name in an error message.
\<close>

datatype handler_result = Returned "go_error option" | Panicked string

record handler =
  Version :: string
  Handle :: "bool \<Rightarrow> envelope \<Rightarrow> handler_result"

datatype registry_error = ErrEmptyRef | ErrNilHandler | ErrDuplicateHandler string

definition ErrorTypeUnroutable :: string where "ErrorTypeUnroutable = ''rdq.Unroutable''"
definition ErrorTypeVersionMismatch :: string where
  "ErrorTypeVersionMismatch = ''rdq.HandlerVersionMismatch''"

record registry =
  handlers :: "handler gomap"

definition New_registry :: registry where
  "New_registry = \<lparr>handlers = []\<rparr>"

definition Register :: "registry \<Rightarrow> string \<Rightarrow> handler option \<Rightarrow> registry_error option \<times> registry" where
  "Register r ref h =
     (if ref = [] then (Some ErrEmptyRef, r)
      else case h of None \<Rightarrow> (Some ErrNilHandler, r)
      | Some h' \<Rightarrow>
          if map_of (handlers r) ref \<noteq> None then (Some (ErrDuplicateHandler ref), r)
          else (None, r\<lparr>handlers := AList.update ref h' (handlers r)\<rparr>))"

definition Lookup :: "registry \<Rightarrow> string \<Rightarrow> handler option" where
  "Lookup r ref = map_of (handlers r) ref"

definition Len :: "registry \<Rightarrow> nat" where
  "Len r = length (handlers r)"

type_synonym version_policy = string

definition PolicyRunLatest :: version_policy where "PolicyRunLatest = ''run-latest''"
definition PolicyDeadLetter :: version_policy where "PolicyDeadLetter = ''dead-letter''"

definition PolicyFrom :: "string \<Rightarrow> version_policy" where
  "PolicyFrom s = (if s = PolicyDeadLetter then PolicyDeadLetter else PolicyRunLatest)"

datatype resolution = ActionRun handler | ActionDeadLetter error_detail

definition Resolve :: "(string \<Rightarrow> string) \<Rightarrow> registry \<Rightarrow> envelope \<Rightarrow> version_policy \<Rightarrow> resolution" where
  "Resolve quote r task policy = (case Lookup r (HandlerRef task) of
      None \<Rightarrow> ActionDeadLetter \<lparr>ErrType = ErrorTypeUnroutable,
        Message = ''no handler registered for handler_ref '' @ quote (HandlerRef task),
        Detail = None, Stack = []\<rparr>
    | Some h \<Rightarrow>
        if HandlerVersion task = [] \<or> HandlerVersion task = Version h then ActionRun h
        else if PolicyFrom policy = PolicyDeadLetter then
          ActionDeadLetter \<lparr>ErrType = ErrorTypeVersionMismatch,
            Message = ''handler_version '' @ quote (HandlerVersion task) @
              '' does not match registered handler '' @ quote (Version h) @
              '' for handler_ref '' @ quote (HandlerRef task),
            Detail = None, Stack = []\<rparr>
        else ActionRun h)"

section \<open>Properties\<close>

text \<open>A registration session: the calls in order, each with its outcome ignored.\<close>

fun register_all :: "registry \<Rightarrow> (string \<times> handler option) list \<Rightarrow> registry" where
  "register_all r [] = r"
| "register_all r ((ref, h) # calls) = register_all (snd (Register r ref h)) calls"

lemma Register_Lookup:
  "Lookup (snd (Register r ref h)) k =
     (if k = ref \<and> ref \<noteq> [] \<and> Lookup r ref = None then h else Lookup r k)"
  by (auto simp: Register_def Lookup_def split: option.splits)

text \<open>The handler of the first call that could register a name.\<close>

fun first_registration :: "(string \<times> handler option) list \<Rightarrow> string \<Rightarrow> handler option" where
  "first_registration [] k = None"
| "first_registration ((ref, h) # calls) k =
     (if ref = k \<and> ref \<noteq> [] \<and> h \<noteq> None then h else first_registration calls k)"

lemma Lookup_register_all:
  "Lookup (register_all r calls) k =
     (case Lookup r k of Some h \<Rightarrow> Some h | None \<Rightarrow> first_registration calls k)"
  by (induction r calls rule: register_all.induct) (auto simp: Register_Lookup split: option.splits)

text \<open>What a resolution does: the error type it dead-letters with, or the handler it runs.\<close>

fun resolution_kind :: "resolution \<Rightarrow> string + handler" where
  "resolution_kind (ActionRun h) = Inr h"
| "resolution_kind (ActionDeadLetter e) = Inl (ErrType e)"

text \<open>After any sequence of registration calls, routing uses the first handler registered under
  the task's name and no later call replaces it. A name nobody registered is dead-lettered as
  unroutable; a registered handler runs when the task pins no version or its version, and under
  every policy but the strict one; under the strict policy a mismatched pin is dead-lettered
  with an error type of its own.\<close>

theorem Resolve_routes:
  "resolution_kind (Resolve quote (register_all New_registry calls) task pol) =
     (case first_registration calls (HandlerRef task) of
        None \<Rightarrow> Inl ''rdq.Unroutable''
      | Some h \<Rightarrow>
          if pol = ''dead-letter'' \<and> HandlerVersion task \<notin> {[], Version h}
          then Inl ''rdq.HandlerVersionMismatch'' else Inr h)"
proof -
  have "Lookup (register_all New_registry calls) (HandlerRef task) = first_registration calls (HandlerRef task)"
    by (simp add: Lookup_register_all) (simp add: Lookup_def New_registry_def)
  then show ?thesis
    by (auto simp: Resolve_def ErrorTypeUnroutable_def ErrorTypeVersionMismatch_def PolicyFrom_def
        PolicyDeadLetter_def PolicyRunLatest_def split: option.splits)
qed

end
