(* ===== verification/Ratelimit.thy ===== *)
theory Ratelimit
  imports Config_Units
begin

text \<open>
  The per-queue token bucket (\<open>core/engine/ratelimit.go\<close>). A method that reads the limiter's
  clock takes the reading as an argument.
\<close>

record limiter =
  ratePerSec :: f64
  burst :: f64
  tokens :: f64
  last_refill :: time

definition NewLimiter :: "rate option \<Rightarrow> time \<Rightarrow> limiter" where
  "NewLimiter rt now =
     (let l = \<lparr>ratePerSec = Fin 0, burst = Fin 0, tokens = Fin 0, last_refill = now\<rparr> in
      case rt of None \<Rightarrow> l
      | Some r \<Rightarrow>
          let perSec = PerSecond r in
          if f_le perSec (Fin 0) then l
          else let b0 = f_of_int (Count r); b = (if f_lt b0 (Fin 1) then Fin 1 else b0)
               in l\<lparr>ratePerSec := perSec, burst := b, tokens := b\<rparr>)"

definition Unlimited :: "limiter \<Rightarrow> bool" where
  "Unlimited l = f_eq (ratePerSec l) (Fin 0)"

definition refillLocked :: "time \<Rightarrow> limiter \<Rightarrow> limiter" where
  "refillLocked now l =
     (let elapsed = time_sub now (last_refill l) in
      if elapsed \<le> 0 then l
      else let t = f_add (tokens l) (f_mul (Seconds elapsed) (ratePerSec l))
           in l\<lparr>last_refill := now, tokens := (if f_lt (burst l) t then burst l else t)\<rparr>)"

definition AllowN :: "time \<Rightarrow> limiter \<Rightarrow> int \<Rightarrow> bool \<times> limiter" where
  "AllowN now l n =
     (if n \<le> 0 then (True, l)
      else if f_eq (ratePerSec l) (Fin 0) then (True, l)
      else let l' = refillLocked now l; need = f_of_int n
           in if f_lt (tokens l') need then (False, l')
              else (True, l'\<lparr>tokens := f_sub (tokens l') need\<rparr>))"

definition Allow :: "time \<Rightarrow> limiter \<Rightarrow> bool \<times> limiter" where
  "Allow now l = AllowN now l 1"

section \<open>The bucket invariant\<close>

text \<open>A limited bucket: a finite positive rate, a capacity of \<open>b\<close> tokens, and between none and
  \<open>b\<close> tokens in it.\<close>

definition bucket :: "int \<Rightarrow> limiter \<Rightarrow> bool" where
  "bucket b l \<longleftrightarrow> 1 \<le> b \<and> b \<le> 2 ^ 53 \<and> burst l = Fin (of_int b) \<and>
     (\<exists>p > 0. ratePerSec l = Fin p) \<and> (\<exists>t. tokens l = Fin t \<and> 0 \<le> t \<and> t \<le> of_int b)"

lemma round_f64_nonneg: "0 \<le> q \<Longrightarrow> f_le (Fin 0) (round_f64 q)"
  using round_f64_mono [of 0 q] by (simp add: round_f64_def [of 0])

lemma Seconds_nonneg:
  assumes "0 < d" "d \<le> max_int64"
  shows "\<exists>q \<ge> 0. Seconds d = Fin q"
proof -
  have sec: "second = 1000000000" by (simp add: second_def)
  have q: "0 \<le> d div second" "d div second \<le> 9223372036" "0 \<le> d mod second" "d mod second < second"
    using assms zdiv_mono1 [of d max_int64 second] by (simp_all add: sec pos_imp_zdiv_nonneg_iff)
  have a: "f_of_int (d div second) = Fin (of_int (d div second))"
    "f_of_int (d mod second) = Fin (of_int (d mod second))" "f_of_int second = Fin (of_int second)"
    using q f_of_int_exact [of second] by (auto intro!: f_of_int_exact simp: sec)
  have "of_int (d mod second) / of_int second \<le> (1 :: rat)" using q(3,4) by (simp add: sec)
  then obtain f where f: "round_f64 (of_int (d mod second) / of_int second) = Fin f" "0 \<le> f" "f \<le> 1"
    using round_between [of 0 "of_int (d mod second) / of_int second" 1] q(3) by (auto simp: sec)
  obtain g where "round_f64 (of_int (d div second) + f) = Fin g" "0 \<le> g"
    using round_between [of 0 "of_int (d div second) + f" "d div second + 1"] q f by auto
  then show ?thesis
    using assms(1) a f by (simp add: Seconds_def Let_def sec)
qed

lemma bucket_refill:
  assumes "bucket b l"
  shows "bucket b (refillLocked now l)"
proof (cases "time_sub now (last_refill l) \<le> 0")
  case False
  let ?e = "time_sub now (last_refill l)"
  obtain p t where l: "ratePerSec l = Fin p" "0 < p" "tokens l = Fin t" "0 \<le> t" "t \<le> of_int b" "burst l = Fin (of_int b)"
    using assms by (auto simp: bucket_def)
  obtain q where q: "Seconds ?e = Fin q" "0 \<le> q"
    using Seconds_nonneg [of ?e] False time_sub_range [of now "last_refill l"] by auto
  have m: "f_le (Fin 0) (f_mul (Seconds ?e) (ratePerSec l))"
    using l q by (simp add: round_f64_nonneg)
  then have "f_le (Fin 0) (f_add (tokens l) (f_mul (Seconds ?e) (ratePerSec l)))"
    using l(3,4) by (cases "f_mul (Seconds ?e) (ratePerSec l)") (auto simp: round_f64_nonneg)
  then show ?thesis
    using False assms l by (cases "f_add (tokens l) (f_mul (Seconds ?e) (ratePerSec l))")
      (auto simp: refillLocked_def Let_def bucket_def not_less)
qed (simp add: refillLocked_def assms)

lemma bucket_take:
  assumes "bucket b l" "tokens l = Fin t" "1 \<le> n" "n \<le> 2 ^ 53" "of_int n \<le> t"
  shows "\<exists>t'. f_sub (tokens l) (f_of_int n) = Fin t' \<and> 0 \<le> t' \<and> (\<forall>m. t \<le> of_int m \<and> m \<le> b \<longrightarrow> t' \<le> of_int (m - n))"
proof -
  have n: "f_of_int n = Fin (of_int n)" using assms by (intro f_of_int_exact) simp
  have b: "t \<le> of_int b" "b \<le> 2 ^ 53" using assms by (auto simp: bucket_def)
  have nb: "n \<le> b" using assms(5) b(1) by (meson of_int_le_iff order_trans)
  obtain t' where t': "round_f64 (t - of_int n) = Fin t'" "0 \<le> t'"
    using round_between [of 0 "t - of_int n" "b - n"] assms b nb by auto
  have "t' \<le> of_int (m - n)" if m: "t \<le> of_int m" "m \<le> b" for m
  proof -
    have "n \<le> m" using assms(5) m(1) by (meson of_int_le_iff order_trans)
    then show ?thesis
      using round_between [of 0 "t - of_int n" "m - n"] assms b m t' by auto
  qed
  then show ?thesis using t' n assms(2) by (simp add: f_sub_def)
qed

lemma bucket_AllowN:
  assumes "bucket b l" "AllowN now l n = (ok, l')" "n \<le> 2 ^ 53"
  shows "bucket b l'"
proof -
  let ?r = "refillLocked now l"
  have r: "bucket b ?r" using assms(1) by (rule bucket_refill)
  obtain t where t: "tokens ?r = Fin t" using r by (auto simp: bucket_def)
  consider "n \<le> 0" | "0 < n" "f_lt (tokens ?r) (f_of_int n)" | "0 < n" "\<not> f_lt (tokens ?r) (f_of_int n)"
    by fastforce
  then show ?thesis
  proof cases
    case 3
    have n: "f_of_int n = Fin (of_int n)" using assms(3) 3 by (intro f_of_int_exact) simp
    then have "of_int n \<le> t" using 3 t by (simp add: not_less)
    then obtain t' where t': "f_sub (tokens ?r) (f_of_int n) = Fin t'" "0 \<le> t'"
        "\<forall>m. t \<le> of_int m \<and> m \<le> b \<longrightarrow> t' \<le> of_int (m - n)"
      using bucket_take [OF r t _ assms(3)] 3 by auto
    have "t \<le> of_int b" using r t by (auto simp: bucket_def)
    then have "t' \<le> of_int (b - n)" using t'(3) by blast
    then have "t' \<le> of_int b" using 3 by simp
    moreover have "l' = ?r\<lparr>tokens := Fin t'\<rparr>"
      using assms 3 t' by (auto simp: AllowN_def Let_def bucket_def)
    ultimately show ?thesis using r t'(2) by (auto simp: bucket_def)
  qed (use assms r in \<open>auto simp: AllowN_def Let_def bucket_def split: if_splits\<close>)
qed

lemma bucket_NewLimiter:
  assumes "Per r \<in> {second, 60 * second, 3600 * second}" "1 \<le> Count r" "Count r \<le> 2 ^ 53"
    "NewLimiter (Some r) now = l"
  shows "bucket (Count r) l \<and> tokens l = burst l"
proof -
  have c: "f_of_int (Count r) = Fin (of_int (Count r))" using assms by (intro f_of_int_exact) simp
  have S: "Seconds (k * second) = Fin (of_int k)" if "1 \<le> k" "k \<le> 3600" for k
  proof -
    have "f_of_int k = Fin (of_int k)" "f_of_int 0 = Fin 0" "f_of_int second = Fin (of_int second)"
      using that f_of_int_exact [of k] f_of_int_exact [of 0] f_of_int_exact [of second] by (simp_all add: second_def)
    moreover have "round_f64 (of_int k) = Fin (of_int k)" using that by (intro round_f64_int) simp
    ultimately show ?thesis
      using that by (simp add: Seconds_def Let_def second_def abs_mult sgn_mult round_f64_def [of 0])
  qed
  obtain k where k: "Per r = k * second" "1 \<le> k" "k \<le> 3600"
    using assms(1) that [of 1] that [of 60] that [of 3600] by auto
  have "of_int (Count r) / of_int k \<le> (of_int (Count r) :: rat)"
    using k assms(2) by (simp add: divide_le_eq)
  then obtain p where p: "round_f64 (of_int (Count r) / of_int k) = Fin p" "0 \<le> p"
    using round_between [of 0 "of_int (Count r) / of_int k" "Count r"] k assms by auto
  have "pow2 (- 12) \<le> 1 / of_int k" using k by (simp add: pow2_def field_simps)
  also have "\<dots> \<le> of_int (Count r) / of_int k" using k assms(2) by (intro divide_right_mono) auto
  finally have "f_le (Fin (pow2 (- 12))) (round_f64 (of_int (Count r) / of_int k))"
    using round_f64_mono [of "pow2 (- 12)"] round_f64_pow2 [of "- 12"] by simp
  then have "pow2 (- 12) \<le> p" using p(1) by simp
  then have "0 < p" using pow2_pos [of "- 12"] by linarith
  have "PerSecond r = Fin p"
    using k S [of k] c p by (simp add: PerSecond_def second_def)
  then have "l = \<lparr>ratePerSec = Fin p, burst = Fin (of_int (Count r)), tokens = Fin (of_int (Count r)),
      last_refill = now\<rparr> \<and> 0 < p"
    using assms(2,4) \<open>0 < p\<close> by (auto simp: NewLimiter_def Let_def c split: if_splits)
  then show ?thesis using assms by (auto simp: bucket_def)
qed

text \<open>At one clock reading every token granted is taken from the bucket.\<close>

lemma Allow_takes:
  assumes "bucket b l" "tokens l = Fin t" "t \<le> of_int m" "m \<le> b" "time_sub now (last_refill l) \<le> 0"
    "Allow now l = (True, l')"
  shows "1 \<le> m \<and> bucket b l' \<and> last_refill l' = last_refill l \<and> (\<exists>t'. tokens l' = Fin t' \<and> t' \<le> of_int (m - 1))"
proof -
  have r: "refillLocked now l = l" using assms(5) by (simp add: refillLocked_def)
  have one: "f_of_int 1 = Fin 1" using f_of_int_exact [of 1] by simp
  have t1: "1 \<le> t" and l': "l' = l\<lparr>tokens := f_sub (tokens l) (f_of_int 1)\<rparr>"
    using assms(1,2,6) r one by (auto simp: Allow_def AllowN_def Let_def bucket_def split: if_splits)
  obtain t' where t': "f_sub (tokens l) (f_of_int 1) = Fin t'" "t' \<le> of_int (m - 1)"
    using bucket_take [OF assms(1,2), of 1] t1 assms(3,4) by auto
  have "(1 :: rat) \<le> of_int m" using t1 assms(3) by linarith
  then have "1 \<le> m" by simp
  moreover have "bucket b l'" using bucket_AllowN [OF assms(1)] assms(6) by (simp add: Allow_def)
  ultimately show ?thesis using t' l' by simp
qed

end
