(* ===== verification/Worker.thy ===== *)
theory Worker
  imports Registry Ratelimit Rdq_Log Spi
begin

text \<open>
  The worker runtime (\<open>core/engine/worker.go\<close>): the per-queue contract derived from the
  configuration, the claim loop, the processing of one claimed task to a durable outcome, and
  the retention sweeper. The worker's clock readings, the random value, the handler's result and
  what other goroutines do to the store meanwhile are inputs of each step; the log records, the
  metrics and the calls of the abandon hook are its output trace.
\<close>

section \<open>Queue contracts\<close>

definition errorTypeMaxAttempts :: string where
  "errorTypeMaxAttempts = ''rdq.MaxAttemptsExceeded''"

definition defaultSweepInterval :: duration where "defaultSweepInterval = 30 * second"
definition defaultSweepJitter :: f64 where "defaultSweepJitter = round_f64 (2 / 10)"

record queue_spec =
  sQueue :: string
  sMaxAttempts :: int
  sBackoff :: backoff
  sClassifier :: classifier
  sLease :: duration
  sHandlerTimeout :: duration
  sHeartbeat :: bool
  sBatchSize :: int
  sConcurrency :: int
  sPollInterval :: duration
  sRateLimit :: "rate option"
  sVersionPolicy :: version_policy
  sTTLSucceeded :: duration

datatype worker_error =
    NilConfig | MissingLease | MissingMaxAttempts | IncompleteBackoff
  | NilStore | NilRegistry | EmptyQueueName | NonPositiveLease string

definition SpecFromConfig :: "string \<Rightarrow> queue_config option \<Rightarrow> worker_error + queue_spec" where
  "SpecFromConfig queue qco = (case qco of None \<Rightarrow> Inl NilConfig
    | Some qc \<Rightarrow> (case Option.bind (QExecution qc) Lease of None \<Rightarrow> Inl MissingLease
    | Some lease \<Rightarrow> (case Option.bind (QRetry qc) MaxAttempts of None \<Rightarrow> Inl MissingMaxAttempts
    | Some maxAttempts \<Rightarrow> (case BackoffFromConfig (QRetry qc) of None \<Rightarrow> Inl IncompleteBackoff
    | Some bo \<Rightarrow>
        Inr
          \<lparr>sQueue = queue, sMaxAttempts = maxAttempts, sBackoff = bo,
           sClassifier = \<lparr>Mapper = None, CodeRules = [], CConfig = QClassification qc\<rparr>,
           sLease = lease,
           sHandlerTimeout = or_else (Option.bind (QExecution qc) HandlerTimeout) lease,
           sHeartbeat = or_else (Option.bind (QExecution qc) Heartbeat) False,
           sBatchSize = or_else (Option.bind (QWorker qc) BatchSize) 1,
           sConcurrency = or_else (Option.bind (QWorker qc) Concurrency) 1,
           sPollInterval = or_else (Option.bind (QWorker qc) PollInterval) (500 * millisecond),
           sRateLimit = Option.bind (QWorker qc) RateLimit,
           sVersionPolicy = (case Option.bind (QHandler qc) VersionMismatch of
               None \<Rightarrow> PolicyRunLatest | Some v \<Rightarrow> PolicyFrom v),
           sTTLSucceeded = or_else (Option.bind (QLimits qc) TTLSucceeded) 0\<rparr>))))"

section \<open>Construction\<close>

text \<open>A queue's live state: \<open>busy\<close> counts the occupied slots of the semaphore.\<close>

record queue_state =
  spec :: queue_spec
  busy :: int
  lim :: limiter

text \<open>\<open>recorder\<close>, \<open>hook\<close> and \<open>logger\<close> say whether the option installed one; \<open>errView\<close> gives the Go
  error behind a storage error, for its type name.\<close>

record worker =
  queues :: "queue_state list"
  sweepInterval :: duration
  sweepJitter :: f64
  drainTimeout :: duration
  recorder :: bool
  hook :: bool
  logger :: bool
  errView :: "spi_error \<Rightarrow> go_error"

definition normalizeSpec :: "queue_spec \<Rightarrow> worker_error + queue_spec" where
  "normalizeSpec s0 =
     (if sQueue s0 = [] then Inl EmptyQueueName
      else let s1 = (if sConcurrency s0 < 1 then s0\<lparr>sConcurrency := 1\<rparr> else s0);
               s2 = (if sBatchSize s1 < 1 then s1\<lparr>sBatchSize := 1\<rparr> else s1);
               s3 = (if sPollInterval s2 \<le> 0 then s2\<lparr>sPollInterval := 500 * millisecond\<rparr> else s2)
           in if sLease s3 \<le> 0 then Inl (NonPositiveLease (sQueue s3))
              else let s4 = (if sHandlerTimeout s3 \<le> 0 \<or> sHandlerTimeout s3 > sLease s3
                             then s3\<lparr>sHandlerTimeout := sLease s3\<rparr> else s3);
                       s5 = (if sMaxAttempts s4 < 1 then s4\<lparr>sMaxAttempts := 1\<rparr> else s4)
                   in Inr s5)"

fun addQueues :: "time \<Rightarrow> queue_spec list \<Rightarrow> worker \<Rightarrow> worker_error + worker" where
  "addQueues now [] w = Inr w"
| "addQueues now (s0 # ss) w = (case normalizeSpec s0 of Inl e \<Rightarrow> Inl e
    | Inr s \<Rightarrow> addQueues now ss
        (w\<lparr>queues := queues w @ [\<lparr>spec = s, busy = 0, lim = NewLimiter (sRateLimit s) now\<rparr>],
           drainTimeout := (if sLease s > drainTimeout w then sLease s else drainTimeout w)\<rparr>))"

definition NewWorker :: "bool \<Rightarrow> bool \<Rightarrow> time \<Rightarrow> queue_spec list \<Rightarrow> (worker \<Rightarrow> worker) list \<Rightarrow>
    worker_error + worker" where
  "NewWorker hasStore hasReg now specs opts =
     (if \<not> hasStore then Inl NilStore
      else if \<not> hasReg then Inl NilRegistry
      else let w0 = \<lparr>queues = [], sweepInterval = defaultSweepInterval,
             sweepJitter = defaultSweepJitter, drainTimeout = 0, recorder = False, hook = False,
             logger = False, errView = (\<lambda>_. GoErr 0 ''*errors.errorString'' [] None NoUnwrap)\<rparr>;
             w1 = fold (\<lambda>opt w. opt w) opts w0
           in case addQueues now specs w1 of Inl e \<Rightarrow> Inl e
             | Inr w \<Rightarrow> Inr (if drainTimeout w \<le> 0 then w\<lparr>drainTimeout := defaultSweepInterval\<rparr> else w))"

section \<open>Outputs\<close>

datatype worker_event =
    Logged string envelope "attr list"
  | ClaimLatency string duration
  | HandlerDuration string duration bool
  | SuccessAfterRetry string
  | DLQArrival string
  | IncrRetry string
  | AbandonHook envelope spi_error

definition log_transition :: "worker \<Rightarrow> string \<Rightarrow> envelope \<Rightarrow> attr list \<Rightarrow> worker_event list" where
  "log_transition w t task attrs = (if logger w then [Logged t task attrs] else [])"

definition record_metric :: "worker \<Rightarrow> worker_event \<Rightarrow> worker_event list" where
  "record_metric w m = (if recorder w then [m] else [])"

section \<open>The claim loop\<close>

fun grantTokens :: "time \<Rightarrow> limiter \<Rightarrow> nat \<Rightarrow> int \<Rightarrow> int \<times> limiter" where
  "grantTokens now l 0 granted = (granted, l)"
| "grantTokens now l (Suc left) granted =
     (case Allow now l of (True, l') \<Rightarrow> grantTokens now l' left (granted + 1)
      | (False, l') \<Rightarrow> (granted, l'))"

text \<open>The inputs of a poll: whether the run context is cancelled, the limiter's clock reading, the
  worker's clock around the claim, and the store's clock.\<close>

record poll_input =
  cancelled :: bool
  limNow :: time
  claimStart :: time
  claimEnd :: time
  storeNow :: time

definition pollOnce :: "worker \<Rightarrow> 's storage \<Rightarrow> poll_input \<Rightarrow> queue_state \<Rightarrow> 's \<Rightarrow>
    claimed list \<times> queue_state \<times> 's \<times> worker_event list" where
  "pollOnce w ops i q s =
     (if cancelled i then ([], q, s, [])
      else let free = sConcurrency (spec q) - busy q in
        if free \<le> 0 then ([], q, s, [])
        else let want = (if sBatchSize (spec q) < free then sBatchSize (spec q) else free);
                 (limit, l') = grantTokens (limNow i) (lim q) (nat want) 0;
                 q1 = q\<lparr>lim := l'\<rparr>
             in if limit \<le> 0 then ([], q1, s, [])
                else let (res, s') = st_ClaimDue ops (storeNow i) s (sQueue (spec q)) limit (sLease (spec q));
                         evs = record_metric w (ClaimLatency (sQueue (spec q)) (time_sub (claimEnd i) (claimStart i)))
                     in case res of Inl e \<Rightarrow> ([], q1, s', evs)
                        | Inr cs \<Rightarrow> (cs, q1\<lparr>busy := busy q + int (length cs)\<rparr>, s', evs))"

section \<open>Processing one task\<close>

definition abandon :: "worker \<Rightarrow> envelope \<Rightarrow> spi_error \<Rightarrow> worker_event list" where
  "abandon w task err =
     log_transition w TransitionAbandoned task
       [(''error_type'', AString (ErrorType (Some (errView w err))))] @
     (if hook w then [AbandonHook task err] else [])"

definition invokeHandler :: "handler \<Rightarrow> bool \<Rightarrow> envelope \<Rightarrow> go_error option" where
  "invokeHandler h ctxDone task = (case Handle h ctxDone task of
      Returned e \<Rightarrow> e
    | Panicked v \<Rightarrow> Some (GoErr 0 ''*errors.errorString'' (''handler panicked: '' @ v) None NoUnwrap))"

text \<open>The inputs of one handler run: whether the timeout fires before the handler returns, the
  heartbeat ticks (what others did to the store before each, and the store's clock at it),
  and what others do to the store between the last tick and the outcome write.\<close>

record 's run_input =
  startedAt :: time
  finishedAt :: time
  timedOut :: bool
  ticks :: "(('s \<Rightarrow> 's) \<times> time) list"
  meanwhile :: "'s \<Rightarrow> 's"
  rnd :: f64
  writeNow :: time

fun heartbeat :: "'s storage \<Rightarrow> task_id \<Rightarrow> claim_token \<Rightarrow> duration \<Rightarrow> (('s \<Rightarrow> 's) \<times> time) list \<Rightarrow>
    's \<Rightarrow> bool \<times> 's" where
  "heartbeat ops tid tok lease [] s = (False, s)"
| "heartbeat ops tid tok lease ((f, now) # ts) s =
     (case st_ExtendLease ops now (f s) tid tok lease of
        (err, s') \<Rightarrow> if err = Some ErrStaleClaim then (True, s')
          else heartbeat ops tid tok lease ts s')"

definition runHandler :: "'s storage \<Rightarrow> queue_spec \<Rightarrow> handler \<Rightarrow> envelope \<Rightarrow> claim_token \<Rightarrow>
    's run_input \<Rightarrow> 's \<Rightarrow> go_error option \<times> 's" where
  "runHandler ops sp h task tok i s =
     (let timeoutCancel = (sHandlerTimeout sp > 0 \<and> timedOut i);
          (lost, s') = (if sHeartbeat sp then heartbeat ops (ID task) tok (sLease sp) (ticks i) s
                        else (False, s))
      in (invokeHandler h (timeoutCancel \<or> lost) task, meanwhile i s'))"

definition deadLetter :: "worker \<Rightarrow> 's storage \<Rightarrow> queue_spec \<Rightarrow> time \<Rightarrow> time \<Rightarrow> envelope \<Rightarrow> claim_token \<Rightarrow>
    error_detail \<Rightarrow> 's \<Rightarrow> 's \<times> worker_event list" where
  "deadLetter w ops sp now wnow task tok e s =
     (let att = \<lparr>AttemptNo = int (length (Attempts task)) + 1, StartedAt = now, FinishedAt = Some now,
            Outcome = OutcomePermanentFailure, Err = Some e, AResidual = []\<rparr>;
          (res, s') = st_DeadLetter ops wnow s (ID task) tok att
      in (s', (case res of
           Some err \<Rightarrow> abandon w task err
         | None \<Rightarrow> log_transition w TransitionDeadLettered (task\<lparr>Status := StatusDead\<rparr>)
             [(''attempt_no'', AInt (AttemptNo att)), (''error_type'', AString (ErrType e))]) @
         record_metric w (DLQArrival (sQueue sp))))"

text \<open>The write of a run's outcome, after the handler has returned \<open>err\<close>.\<close>

definition finish :: "(f64 \<Rightarrow> int) \<Rightarrow> worker \<Rightarrow> 's storage \<Rightarrow> queue_spec \<Rightarrow> envelope \<Rightarrow> claim_token \<Rightarrow>
    's run_input \<Rightarrow> go_error option \<Rightarrow> 's \<Rightarrow> 's \<times> worker_event list" where
  "finish oob w ops sp task tok i err s =
     (let budgetNo = AttemptCount task + 1;
          historyNo = int (length (Attempts task)) + 1
      in case err of
        None \<Rightarrow>
          let att = \<lparr>AttemptNo = historyNo, StartedAt = startedAt i, FinishedAt = Some (finishedAt i),
                Outcome = OutcomeSuccess, Err = None, AResidual = []\<rparr>;
              (res, s') = st_Complete ops (writeNow i) s (ID task) tok att
          in (s', (case res of Some e \<Rightarrow> abandon w task e
               | None \<Rightarrow> log_transition w TransitionSucceeded (task\<lparr>Status := StatusSucceeded\<rparr>)
                   [(''attempt_no'', AInt historyNo)]) @
               (if AttemptCount task > 0 then record_metric w (SuccessAfterRetry (sQueue sp)) else []))
      | Some e \<Rightarrow>
          let errType = ErrorType err;
              verdict = Classify (sClassifier sp) err errType;
              att = \<lparr>AttemptNo = historyNo, StartedAt = startedAt i, FinishedAt = Some (finishedAt i),
                Outcome = Decision_Outcome (Decision verdict),
                Err = Some \<lparr>ErrType = errType, Message = e_msg e, Detail = None, Stack = []\<rparr>, AResidual = []\<rparr>;
              exhausted = (budgetNo \<ge> sMaxAttempts sp)
          in if Decision verdict = DecisionPermanent \<or> exhausted then
               (let (res, s') = st_DeadLetter ops (writeNow i) s (ID task) tok att
                in (s', (case res of Some de \<Rightarrow> abandon w task de
                     | None \<Rightarrow> log_transition w TransitionDeadLettered (task\<lparr>Status := StatusDead\<rparr>)
                         [(''attempt_no'', AInt historyNo), (''error_type'', AString errType)]) @
                     record_metric w (DLQArrival (sQueue sp))))
             else
               (let delay = Delay oob (sBackoff sp) budgetNo (rnd i);
                    nextAt = finishedAt i + delay;
                    (res, s') = st_Reschedule ops s (ID task) tok att nextAt
                in (s', (case res of Some re \<Rightarrow> abandon w task re
                     | None \<Rightarrow> log_transition w TransitionRetried
                         (task\<lparr>Status := StatusPending, NextAttemptAt := Some nextAt\<rparr>)
                         [(''attempt_no'', AInt historyNo), (''error_type'', AString errType),
                          (''next_attempt_at'', ATime nextAt)]) @
                     record_metric w (IncrRetry (sQueue sp)))))"

definition process :: "(string \<Rightarrow> string) \<Rightarrow> (f64 \<Rightarrow> int) \<Rightarrow> worker \<Rightarrow> registry \<Rightarrow> 's storage \<Rightarrow> queue_spec \<Rightarrow>
    claimed \<Rightarrow> 's run_input \<Rightarrow> 's \<Rightarrow> 's \<times> worker_event list" where
  "process quote oob w reg ops sp c i s =
     (let task = Task c; tok = Token c;
          pre = log_transition w TransitionClaimed task []
      in if AttemptCount task \<ge> sMaxAttempts sp then
           (let (s', evs) = deadLetter w ops sp (startedAt i) (writeNow i) task tok
                  \<lparr>ErrType = errorTypeMaxAttempts,
                   Message = ''max_attempts ('' @ FormatInt (sMaxAttempts sp) @ '') reached without a successful attempt'',
                   Detail = None, Stack = []\<rparr> s
            in (s', pre @ evs))
         else case Resolve quote reg task (sVersionPolicy sp) of
             ActionDeadLetter e \<Rightarrow>
               (let (s', evs) = deadLetter w ops sp (startedAt i) (writeNow i) task tok e s in (s', pre @ evs))
           | ActionRun h \<Rightarrow>
               (let (err, s1) = runHandler ops sp h task tok i s;
                    m = record_metric w (HandlerDuration (sQueue sp)
                      (time_sub (finishedAt i) (startedAt i)) (err = None));
                    (s2, evs) = finish oob w ops sp task tok i err s1
                in (s2, pre @ m @ evs)))"

section \<open>The sweeper\<close>

fun sweepOnce :: "'s storage \<Rightarrow> time \<Rightarrow> queue_state list \<Rightarrow> 's \<Rightarrow> 's" where
  "sweepOnce ops now [] s = s"
| "sweepOnce ops now (q # qs) s =
     (if sTTLSucceeded (spec q) \<le> 0 then sweepOnce ops now qs s
      else sweepOnce ops now qs
        (snd (st_PurgeSucceeded ops s (sQueue (spec q)) (now - sTTLSucceeded (spec q)))))"

definition jitteredSweep :: "(f64 \<Rightarrow> int) \<Rightarrow> worker \<Rightarrow> f64 \<Rightarrow> duration" where
  "jitteredSweep oob w r =
     (let base = sweepInterval w in
      if f_le (sweepJitter w) (Fin 0) then base
      else let factor = f_add (Fin 1) (f_mul (sweepJitter w) (f_sub (f_mul (Fin 2) r) (Fin 1)));
               d = int64_of_f64 oob (f_mul (f_of_int base) factor)
           in if d \<le> 0 then base else d)"

definition heartbeatInterval :: "duration \<Rightarrow> duration" where
  "heartbeatInterval lease =
     (let third = sgn lease * (\<bar>lease\<bar> div 3);
          iv = (if third \<le> 0 then lease else third)
      in if iv \<le> 0 then second else iv)"

end
