(* ===== verification/Worker_Props.thy ===== *)
theory Worker_Props
  imports Worker Memstore_Contract Memstore_Props
begin

text \<open>
  Properties of the worker runtime, proved for any backend that gives the storage contract and
  carried over to the in-memory store by its interpretation.
\<close>

section \<open>Processing a task\<close>

text \<open>What a run of a task ends in: the status it leaves and, for a retry, the next due time.\<close>

definition verdict_plan :: "(f64 \<Rightarrow> int) \<Rightarrow> queue_spec \<Rightarrow> envelope \<Rightarrow> time \<Rightarrow> f64 \<Rightarrow> go_error option \<Rightarrow>
    status \<times> time option" where
  "verdict_plan oob sp task finished r err = (case err of
      None \<Rightarrow> (StatusSucceeded, None)
    | Some e \<Rightarrow>
        if Decision (Classify (sClassifier sp) err (ErrorType err)) = DecisionPermanent \<or>
           AttemptCount task + 1 \<ge> sMaxAttempts sp
        then (StatusDead, None)
        else (StatusPending, Some (finished + Delay oob (sBackoff sp) (AttemptCount task + 1) r)))"

text \<open>The handler that processing a task invokes, if any.\<close>

definition chosen_handler :: "(string \<Rightarrow> string) \<Rightarrow> registry \<Rightarrow> queue_spec \<Rightarrow> envelope \<Rightarrow> handler option" where
  "chosen_handler quote reg sp task =
     (if AttemptCount task \<ge> sMaxAttempts sp then None
      else case Resolve quote reg task (sVersionPolicy sp) of
          ActionRun h \<Rightarrow> Some h | ActionDeadLetter e \<Rightarrow> None)"

text \<open>The store the outcome write meets, and the plan it carries out.\<close>

definition write_state :: "(string \<Rightarrow> string) \<Rightarrow> registry \<Rightarrow> 's storage \<Rightarrow> queue_spec \<Rightarrow> claimed \<Rightarrow>
    's run_input \<Rightarrow> 's \<Rightarrow> 's" where
  "write_state quote reg ops sp c i s = (case chosen_handler quote reg sp (Task c) of
      None \<Rightarrow> s | Some h \<Rightarrow> snd (runHandler ops sp h (Task c) (Token c) i s))"

definition process_plan :: "(string \<Rightarrow> string) \<Rightarrow> (f64 \<Rightarrow> int) \<Rightarrow> registry \<Rightarrow> 's storage \<Rightarrow> queue_spec \<Rightarrow> claimed \<Rightarrow>
    's run_input \<Rightarrow> 's \<Rightarrow> status \<times> time option" where
  "process_plan quote oob reg ops sp c i s = (case chosen_handler quote reg sp (Task c) of
      None \<Rightarrow> (StatusDead, None)
    | Some h \<Rightarrow> verdict_plan oob sp (Task c) (finishedAt i) (rnd i)
        (fst (runHandler ops sp h (Task c) (Token c) i s)))"

text \<open>The attempt that processing a task records.\<close>

definition dead_reason :: "(string \<Rightarrow> string) \<Rightarrow> registry \<Rightarrow> queue_spec \<Rightarrow> envelope \<Rightarrow> error_detail option" where
  "dead_reason quote reg sp task =
     (if AttemptCount task \<ge> sMaxAttempts sp then
        Some \<lparr>ErrType = errorTypeMaxAttempts,
          Message = ''max_attempts ('' @ FormatInt (sMaxAttempts sp) @ '') reached without a successful attempt'',
          Detail = None, Stack = []\<rparr>
      else case Resolve quote reg task (sVersionPolicy sp) of ActionDeadLetter e \<Rightarrow> Some e | ActionRun h \<Rightarrow> None)"

definition run_attempt :: "queue_spec \<Rightarrow> envelope \<Rightarrow> time \<Rightarrow> time \<Rightarrow> go_error option \<Rightarrow> attempt" where
  "run_attempt sp task started finished err =
     \<lparr>AttemptNo = int (length (Attempts task)) + 1, StartedAt = started, FinishedAt = Some finished,
      Outcome = (case err of None \<Rightarrow> OutcomeSuccess
        | Some e \<Rightarrow> Decision_Outcome (Decision (Classify (sClassifier sp) err (ErrorType err)))),
      Err = (case err of None \<Rightarrow> None
        | Some e \<Rightarrow> Some \<lparr>ErrType = ErrorType err, Message = e_msg e, Detail = None, Stack = []\<rparr>),
      AResidual = []\<rparr>"

definition process_attempt :: "(string \<Rightarrow> string) \<Rightarrow> registry \<Rightarrow> 's storage \<Rightarrow> queue_spec \<Rightarrow> claimed \<Rightarrow>
    's run_input \<Rightarrow> 's \<Rightarrow> attempt" where
  "process_attempt quote reg ops sp c i s = (case chosen_handler quote reg sp (Task c) of
      None \<Rightarrow> \<lparr>AttemptNo = int (length (Attempts (Task c))) + 1, StartedAt = startedAt i,
        FinishedAt = Some (startedAt i), Outcome = OutcomePermanentFailure,
        Err = dead_reason quote reg sp (Task c), AResidual = []\<rparr>
    | Some h \<Rightarrow> run_attempt sp (Task c) (startedAt i) (finishedAt i)
        (fst (runHandler ops sp h (Task c) (Token c) i s)))"

lemma process_attempt_no:
  "AttemptNo (process_attempt quote reg ops sp c i s) = int (length (Attempts (Task c))) + 1"
  by (simp add: process_attempt_def run_attempt_def split: option.split)

context fenced_storage
begin

lemma finish_held:
  assumes "inv s" "held s (ID task) tok" "task_at s (ID task) = Some e"
    "(st, nextAt) = verdict_plan oob sp task (finishedAt i) (rnd i) err"
    "att = run_attempt sp task (startedAt i) (finishedAt i) err" "fits s (ID task) att"
  shows "only_changes task_at (ID task) (settled st (map_option stamp nextAt) (kept att) e) s
    (fst (finish oob w ops sp task tok i err s))"
proof (cases err)
  case None
  obtain s' where "st_Complete ops (writeNow i) s (ID task) tok att = (None, s')"
    "only_changes task_at (ID task) (settled StatusSucceeded None (kept att) e) s s'"
    using complete_held [OF assms(1-3,6)] by blast
  then show ?thesis
    using None assms(4,5) by (simp add: finish_def Let_def verdict_plan_def run_attempt_def)
next
  case (Some x)
  let ?v = "Classify (sClassifier sp) err (ErrorType err)"
  let ?next = "finishedAt i + Delay oob (sBackoff sp) (AttemptCount task + 1) (rnd i)"
  obtain s1 where d: "st_DeadLetter ops (writeNow i) s (ID task) tok att = (None, s1)"
    "only_changes task_at (ID task) (settled StatusDead None (kept att) e) s s1"
    using dead_held [OF assms(1-3,6)] by blast
  obtain s2 where r: "st_Reschedule ops s (ID task) tok att ?next = (None, s2)"
    "only_changes task_at (ID task) (settled StatusPending (Some (stamp ?next)) (kept att) e) s s2"
    using reschedule_held [OF assms(1-3,6)] by blast
  show ?thesis
    using Some assms(4,5) d r
    by (cases "Decision ?v = DecisionPermanent \<or> AttemptCount task + 1 \<ge> sMaxAttempts sp")
      (auto simp: finish_def Let_def verdict_plan_def run_attempt_def)
qed

lemma process_unfold:
  "fst (process quote oob w reg ops sp c i s) = (case chosen_handler quote reg sp (Task c) of
      Some h \<Rightarrow> fst (finish oob w ops sp (Task c) (Token c) i
        (fst (runHandler ops sp h (Task c) (Token c) i s)) (write_state quote reg ops sp c i s))
    | None \<Rightarrow> fst (deadLetter w ops sp (startedAt i) (writeNow i) (Task c) (Token c)
        (the (dead_reason quote reg sp (Task c))) s))"
  by (auto simp: chosen_handler_def dead_reason_def write_state_def process_def Let_def split_beta
      split: option.split resolution.splits if_splits)

lemma no_handler_reason: "chosen_handler quote reg sp task = None \<Longrightarrow> \<exists>d. dead_reason quote reg sp task = Some d"
  by (auto simp: chosen_handler_def dead_reason_def split: resolution.splits if_splits)

lemma process_held:
  assumes "s1 = write_state quote reg ops sp c i s" "inv s1" "held s1 (ID (Task c)) (Token c)"
    "task_at s1 (ID (Task c)) = Some e" "(st, nextAt) = process_plan quote oob reg ops sp c i s"
    "att = process_attempt quote reg ops sp c i s" "fits s1 (ID (Task c)) att"
  shows "only_changes task_at (ID (Task c)) (settled st (map_option stamp nextAt) (kept att) e) s1
    (fst (process quote oob w reg ops sp c i s))"
proof (cases "chosen_handler quote reg sp (Task c)")
  case None
  then have s: "s1 = s" "st = StatusDead" "nextAt = None"
    using assms(1,5) by (simp_all add: write_state_def process_plan_def)
  obtain s' where "st_DeadLetter ops (writeNow i) s (ID (Task c)) (Token c) att = (None, s')"
    "only_changes task_at (ID (Task c)) (settled StatusDead None (kept att) e) s s'"
    using dead_held [OF assms(2-4,7)] s(1) by blast
  then show ?thesis
    using None s assms(6) no_handler_reason [OF None]
    by (auto simp: process_unfold deadLetter_def Let_def process_attempt_def)
next
  case (Some h)
  then have "(st, nextAt) = verdict_plan oob sp (Task c) (finishedAt i) (rnd i)
      (fst (runHandler ops sp h (Task c) (Token c) i s))"
    "att = run_attempt sp (Task c) (startedAt i) (finishedAt i) (fst (runHandler ops sp h (Task c) (Token c) i s))"
    using assms(5,6) by (simp_all add: process_plan_def process_attempt_def)
  from finish_held [OF assms(2-4) this assms(7)] show ?thesis
    using process_unfold [of quote oob w reg sp c i s] Some assms(1) by simp
qed

text \<open>A store that refuses the attempt of the run and changes nothing is left as the write met it.\<close>

lemma process_refused:
  assumes "s1 = write_state quote reg ops sp c i s" "att = process_attempt quote reg ops sp c i s"
    "\<And>now. snd (st_Complete ops now s1 (ID (Task c)) (Token c) att) = s1"
    "\<And>now. snd (st_DeadLetter ops now s1 (ID (Task c)) (Token c) att) = s1"
    "\<And>t. snd (st_Reschedule ops s1 (ID (Task c)) (Token c) att t) = s1"
  shows "fst (process quote oob w reg ops sp c i s) = s1"
proof (cases "chosen_handler quote reg sp (Task c)")
  case None
  then have "s1 = s" using assms(1) by (simp add: write_state_def)
  then show ?thesis
    using None assms(2,4) no_handler_reason [OF None]
    by (auto simp: process_unfold deadLetter_def Let_def process_attempt_def split_beta)
next
  case (Some h)
  then have "att = run_attempt sp (Task c) (startedAt i) (finishedAt i) (fst (runHandler ops sp h (Task c) (Token c) i s))"
    using assms(2) by (simp add: process_attempt_def)
  then have "fst (finish oob w ops sp (Task c) (Token c) i (fst (runHandler ops sp h (Task c) (Token c) i s)) s1) = s1"
    using assms(3-5) by (auto simp: finish_def Let_def split_beta run_attempt_def split: option.split)
  then show ?thesis using Some assms(1) by (simp add: process_unfold)
qed

lemma process_stale:
  assumes "s1 = write_state quote reg ops sp c i s" "inv s1" "\<not> held s1 (ID (Task c)) (Token c)"
  shows "fst (process quote oob w reg ops sp c i s) = s1"
  using complete_stale [OF assms(2,3)] dead_stale [OF assms(2,3)] reschedule_stale [OF assms(2,3)]
  by (intro process_refused [OF assms(1) refl]) (metis snd_conv)+

end

text \<open>C5: processing a claimed task settles it exactly once and as the policy says, or leaves it
  alone. If the claim is still held when the outcome is written, the task and no other
  changes: a task out of attempts or without a handler is dead; a handler that returns no error
  leaves it succeeded; one whose error is permanent, or that was the last attempt, leaves it
  dead; any other error leaves it pending, due after the backoff delay. The attempt of the
  run, numbered one past the history the worker saw, is recorded. If the claim was lost meanwhile, the write
  changes nothing.\<close>

theorem process_settles_task:
  assumes "s1 = write_state quote reg memstore sp c i s" "mem_inv s1"
    "(st, nextAt) = process_plan quote oob reg memstore sp c i s"
    "att = process_attempt quote reg memstore sp c i s"
  shows "AttemptNo att = int (length (Attempts (Task c))) + 1
    \<and> (\<forall>e. mem_held s1 (ID (Task c)) (Token c) \<and> mem_task_at s1 (ID (Task c)) = Some e \<longrightarrow>
        only_changes mem_task_at (ID (Task c)) (settled st nextAt att e) s1
          (fst (process quote oob w reg memstore sp c i s)))
    \<and> (\<not> mem_held s1 (ID (Task c)) (Token c) \<longrightarrow> fst (process quote oob w reg memstore sp c i s) = s1)"
  using mem.process_held [OF assms(1,2) _ _ assms(3,4)] mem.process_stale [OF assms(1,2)] assms(4)
  by (simp add: option.map_ident process_attempt_no)

definition sample_spec :: queue_spec where
  "sample_spec = \<lparr>sQueue = ''q'', sMaxAttempts = 3,
     sBackoff = \<lparr>Initial = 1000000000, Multiplier = Fin 2, BMax = 60000000000, BJitter = Fin 0\<rparr>,
     sClassifier = \<lparr>Mapper = None, CodeRules = [], CConfig = None\<rparr>, sLease = 10, sHandlerTimeout = 10,
     sHeartbeat = False, sBatchSize = 1, sConcurrency = 2, sPollInterval = 500, sRateLimit = None,
     sVersionPolicy = PolicyRunLatest, sTTLSucceeded = 100\<rparr>"

definition sample_reg :: registry where
  "sample_reg = \<lparr>handlers = [(''h'', \<lparr>Version = ''v1'', Handle = (\<lambda>ctxDone task. Returned None)\<rparr>)]\<rparr>"

definition sample_claim :: claimed where
  "sample_claim = \<lparr>Task = the (mem_task_at sample_claimed ''a''), Token = ''ct-1''\<rparr>"

definition sample_input :: "store run_input" where
  "sample_input = \<lparr>startedAt = 6, finishedAt = 8, timedOut = False, ticks = [], meanwhile = (\<lambda>s. s),
     rnd = Fin 0, writeNow = 8\<rparr>"

definition sample_worker :: worker where
  "sample_worker = \<lparr>queues = [], sweepInterval = defaultSweepInterval, sweepJitter = Fin 0,
     drainTimeout = 10, recorder = True, hook = True, logger = True,
     errView = (\<lambda>_. GoErr 0 ''*errors.errorString'' [] None NoUnwrap)\<rparr>"

lemma sample_claim_facts:
  "ID (Task sample_claim) = ''a''" "AttemptCount (Task sample_claim) = 0"
  "HandlerRef (Task sample_claim) = ''h''" "HandlerVersion (Task sample_claim) = []"
  "Token sample_claim = ''ct-1''"
  by code_simp+

lemma sample_inv: "mem_inv sample_claimed"
  by (simp add: mem_inv_def wf_sample_claimed sample_claimed_room)

lemma sample_write:
  "write_state quote sample_reg memstore sample_spec sample_claim sample_input sample_claimed = sample_claimed"
  "process_plan quote oob sample_reg memstore sample_spec sample_claim sample_input sample_claimed =
     (StatusSucceeded, None)"
proof -
  have "chosen_handler quote sample_reg sample_spec (Task sample_claim) =
      Some \<lparr>Version = ''v1'', Handle = (\<lambda>ctxDone task. Returned None)\<rparr>"
    by (simp add: chosen_handler_def sample_claim_facts Resolve_def sample_spec_def Lookup_def sample_reg_def)
  then show "write_state quote sample_reg memstore sample_spec sample_claim sample_input sample_claimed = sample_claimed"
    "process_plan quote oob sample_reg memstore sample_spec sample_claim sample_input sample_claimed = (StatusSucceeded, None)"
    by (simp_all add: write_state_def process_plan_def runHandler_def sample_input_def sample_spec_def
        invokeHandler_def verdict_plan_def Let_def)
qed

theorem process_settles_task_witness:
  "status_at (fst (process (\<lambda>s. s) (\<lambda>_. 0) sample_worker sample_reg memstore sample_spec sample_claim
     sample_input sample_claimed)) ''a'' = Some StatusSucceeded"
proof -
  let ?s = "fst (process (\<lambda>s. s) (\<lambda>_. 0) sample_worker sample_reg memstore sample_spec sample_claim
     sample_input sample_claimed)"
  obtain r where r: "lookup sample_claimed ''a'' = Some r" "Status (env r) = StatusInFlight" "token r = ''ct-1''"
    using sample_claimed_a by auto
  then have "mem_held sample_claimed (ID (Task sample_claim)) (Token sample_claim)"
    "mem_task_at sample_claimed (ID (Task sample_claim)) = Some (env r)"
    by (simp_all add: mem_held_iff mem_task_at_def sample_claim_facts)
  then obtain att where "only_changes mem_task_at ''a'' (settled StatusSucceeded None att (env r)) sample_claimed ?s"
    using process_settles_task [where quote = "\<lambda>s. s" and oob = "\<lambda>_. 0" and w = sample_worker,
        OF sample_write(1) [symmetric] sample_inv sample_write(2) [symmetric] refl]
    unfolding sample_claim_facts(1) by blast
  then show ?thesis
    by (auto simp: only_changes_def mem_task_at_def settled_def)
qed

section \<open>The attempt budget\<close>

text \<open>The claims a run hands out, in order.\<close>

fun issued :: "mem_event \<Rightarrow> store \<Rightarrow> claimed list" where
  "issued (EvClaimDue now q limit l) s = (case fst (ClaimDue now s q limit l) of Inl e \<Rightarrow> [] | Inr cs \<Rightarrow> cs)"
| "issued _ s = []"

fun run_claims :: "store \<Rightarrow> mem_event list \<Rightarrow> claimed list" where
  "run_claims s [] = []"
| "run_claims s (ev # evs) = issued ev s @ run_claims (mem_exec ev s) evs"

text \<open>How far a task is: its redrives, and the attempts made or under way since the last one.\<close>

definition progress :: "taskrec option \<Rightarrow> int \<times> int" where
  "progress x = (case x of None \<Rightarrow> (0, 0)
     | Some r \<Rightarrow> (RedriveCount (env r), AttemptCount (env r) + (if Status (env r) = StatusInFlight then 1 else 0)))"

definition claim_progress :: "claimed \<Rightarrow> int \<times> int" where
  "claim_progress c = (RedriveCount (Task c), AttemptCount (Task c))"

lemma progress_step:
  assumes "task_step s x y" "y \<noteq> None" "x = None \<longrightarrow> s = s"
  shows "progress x \<le> progress y"
  using assms
proof (induction rule: task_step.induct)
  case (ts_claim r now n l)
  then show ?case
    using isDue_status [OF ts_claim(1)] by (auto simp: progress_def claimRec_history less_eq_prod_def)
next
  case (ts_enqueue e)
  then show ?case by (auto simp: progress_def fresh_task_def less_eq_prod_def)
qed (auto simp: progress_def record_effects Let_def redriveRec_pow_simps less_eq_prod_def)

lemma progress_exec:
  assumes "wf_store s" "mem_guard ev s" "\<not> removes ev"
  shows "progress (lookup s k) \<le> progress (lookup (mem_exec ev s) k)"
proof (cases "lookup s k")
  case None
  then show ?thesis
    using task_step_exec [OF assms(1,2), of k] progress_step [of s None "lookup (mem_exec ev s) k"]
    by (cases "lookup (mem_exec ev s) k") auto
next
  case (Some r)
  then show ?thesis
    using kept_step [OF assms Some] progress_step by fastforce
qed

lemma issued_progress:
  assumes "wf_store s" "mem_guard ev s" "c \<in> set (issued ev s)"
  shows "claim_progress c = progress (lookup s (ID (Task c)))"
    "claim_progress c < progress (lookup (mem_exec ev s) (ID (Task c)))"
proof -
  obtain now q limit l cs s' where ev: "ev = EvClaimDue now q limit l"
    "ClaimDue now s q limit l = (Inr cs, s')" "c \<in> set cs"
    using assms(3) by (cases ev) (auto simp: ClaimDue_batch split: sum.splits)
  then have room: "claim_room s" using assms(2) by simp
  obtain r where r: "lookup s (ID (Task c)) = Some r" "isDue r now"
    "lookup s' (ID (Task c)) = Some (claimRec now l (Token c) r)" "Task c = env (claimRec now l (Token c) r)"
    using claimed_spec [OF assms(1) room ev(2)] ev(3) by blast
  show "claim_progress c = progress (lookup s (ID (Task c)))"
    using r(1,4) isDue_status [OF r(2)] by (auto simp: claim_progress_def progress_def claimRec_history)
  show "claim_progress c < progress (lookup (mem_exec ev s) (ID (Task c)))"
    using r ev by (simp add: claim_progress_def progress_def less_prod_def)
qed

lemma issued_distinct:
  assumes "wf_store s" "mem_guard ev s"
  shows "distinct (map (\<lambda>c. ID (Task c)) (issued ev s))"
proof (cases ev)
  case (EvClaimDue now q limit l)
  then have room: "claim_room s" using assms(2) by simp
  show ?thesis
    using claimed_ids [OF assms(1) room ClaimDue_batch] distinct_batch [OF assms(1)]
    by (simp add: EvClaimDue ClaimDue_batch)
qed simp_all

text \<open>The claims of one task, in the order they are handed out, make strict progress.\<close>

lemma run_claims_progress:
  assumes "mem_run s evs s'" "wf_store s" "\<forall>ev \<in> set evs. \<not> removes ev"
  shows "sorted_wrt (<) (map claim_progress (filter (\<lambda>c. ID (Task c) = k) (run_claims s evs))) \<and>
    (\<forall>c \<in> set (run_claims s evs). ID (Task c) = k \<longrightarrow> progress (lookup s k) \<le> claim_progress c)"
  using assms
proof (induction rule: mem_run.induct)
  case (run_cons ev s evs s')
  let ?s = "mem_exec ev s"
  have wf: "wf_store ?s" using run_cons wf_exec by blast
  have IH: "sorted_wrt (<) (map claim_progress (filter (\<lambda>c. ID (Task c) = k) (run_claims ?s evs)))"
    "\<forall>c \<in> set (run_claims ?s evs). ID (Task c) = k \<longrightarrow> progress (lookup ?s k) \<le> claim_progress c"
    using run_cons wf by auto
  have step: "progress (lookup s k) \<le> progress (lookup ?s k)"
    using run_cons by (intro progress_exec) auto
  have now: "claim_progress c = progress (lookup s k) \<and> claim_progress c < progress (lookup ?s k)"
    if "c \<in> set (issued ev s)" "ID (Task c) = k" for c
    using issued_progress [OF run_cons.prems(1) run_cons.hyps(1) that(1)] that(2) by simp
  have one: "length (filter (\<lambda>c. ID (Task c) = k) (issued ev s)) \<le> 1"
    using issued_distinct [OF run_cons.prems(1) run_cons.hyps(1)]
    by (rule distinct_key_filter)
  have "claim_progress c < claim_progress d"
    if "c \<in> set (issued ev s)" "ID (Task c) = k" "d \<in> set (run_claims ?s evs)" "ID (Task d) = k" for c d
  proof -
    have "progress (lookup ?s k) \<le> claim_progress d" using IH(2) that(3,4) by blast
    then show ?thesis using now [OF that(1,2)] by (meson less_le_trans)
  qed
  then have "sorted_wrt (<) (map claim_progress (filter (\<lambda>c. ID (Task c) = k) (run_claims s (ev # evs))))"
    using IH(1) one by (cases "filter (\<lambda>c. ID (Task c) = k) (issued ev s)")
      (auto simp: sorted_wrt_append filter_eq_Cons_iff)
  then show ?case
    using now step IH(2) by (auto intro: order_trans)
qed simp

lemma run_claims_count:
  assumes "mem_run s evs s'" "wf_store s" "c \<in> set (run_claims s evs)"
  shows "0 \<le> AttemptCount (Task c)"
  using assms
proof (induction rule: mem_run.induct)
  case (run_cons ev s evs s')
  show ?case
  proof (cases "c \<in> set (issued ev s)")
    case True
    obtain now q limit l cs s1 where ev: "ev = EvClaimDue now q limit l"
      "ClaimDue now s q limit l = (Inr cs, s1)" "c \<in> set cs"
      using True by (cases ev) (auto simp: ClaimDue_batch split: sum.splits)
    then obtain r where "lookup s (ID (Task c)) = Some r" "Task c = env (claimRec now l (Token c) r)"
      using claimed_spec [OF run_cons.prems(1)] run_cons.hyps(1) by fastforce
    then show ?thesis
      using wf_storeD(2) [OF run_cons.prems(1)] by (auto simp: wf_rec_def claimRec_history)
  next
    case False
    then show ?thesis using run_cons wf_exec by auto
  qed
qed simp

text \<open>
  Whether processing a claim invokes a handler, read off its own output: with a recorder attached
  the worker reports the duration of every invocation.
\<close>

fun is_invocation :: "worker_event \<Rightarrow> bool" where
  "is_invocation (HandlerDuration q d ok) = True"
| "is_invocation _ = False"

definition handler_ran :: "(string \<Rightarrow> string) \<Rightarrow> (f64 \<Rightarrow> int) \<Rightarrow> worker \<Rightarrow> registry \<Rightarrow> 's storage \<Rightarrow> queue_spec \<Rightarrow>
    claimed \<Rightarrow> 's run_input \<Rightarrow> 's \<Rightarrow> bool" where
  "handler_ran quote oob w reg ops sp c i s \<longleftrightarrow>
     list_ex is_invocation (snd (process quote oob (w\<lparr>recorder := True\<rparr>) reg ops sp c i s))"

lemma handler_ran_chosen:
  "handler_ran quote oob w reg ops sp c i s \<longleftrightarrow> chosen_handler quote reg sp (Task c) \<noteq> None"
proof -
  have log: "\<not> list_ex is_invocation (log_transition w' t task attrs)" for w' t task attrs
    by (simp add: log_transition_def)
  have dead: "\<not> list_ex is_invocation (snd (deadLetter w' ops sp now wnow task tok d s'))" for w' now wnow task tok d s'
    by (auto simp: deadLetter_def Let_def split_beta log record_metric_def abandon_def split: option.split)
  show ?thesis
    by (auto simp: handler_ran_def process_def Let_def split_beta log dead record_metric_def chosen_handler_def
        split: resolution.splits)
qed

text \<open>C9: no handler runs more often than the queue's attempt limit allows. Take any run of the store
  without purges, however claims, lost leases, outcome writes and redrives interleave, and let the worker process
  each claim the run hands out, each with inputs and on a store state of its own. The claims of a
  task made between two of its redrives whose processing invokes a handler number at most the maximum of
  attempts. (A purge may remove a task whose id is then submitted anew and starts with a fresh
  budget; purges are therefore left out.)\<close>

theorem attempts_within_budget:
  assumes "mem_run New evs s" "\<forall>ev \<in> set evs. \<not> removes ev" "0 \<le> sMaxAttempts sp"
  shows "int (length (filter (\<lambda>c. ID (Task c) = k \<and> RedriveCount (Task c) = n \<and>
      handler_ran quote oob w reg memstore sp c (input c) (now_store c)) (run_claims New evs))) \<le> sMaxAttempts sp"
proof -
  let ?ran = "\<lambda>c. handler_ran quote oob w reg memstore sp c (input c) (now_store c)"
  let ?cs = "filter (\<lambda>c. ID (Task c) = k) (run_claims New evs)"
  let ?runs = "filter (\<lambda>c. RedriveCount (Task c) = n \<and> ?ran c) ?cs"
  have sorted: "sorted_wrt (<) (map claim_progress ?cs)" and low: "\<forall>c \<in> set ?cs. (0, 0) \<le> claim_progress c"
    using run_claims_progress [OF assms(1) wf_New assms(2), of k] by (auto simp: progress_def New_def)
  have "sorted_wrt (\<lambda>c d. claim_progress c < claim_progress d) ?runs"
    by (rule sorted_wrt_filter) (rule sorted [unfolded sorted_wrt_map])
  then have "sorted_wrt (<) (map (\<lambda>c. AttemptCount (Task c)) ?runs)"
    unfolding sorted_wrt_map
    by (rule sorted_wrt_mono_rel [rotated]) (auto simp: claim_progress_def less_prod_def)
  then have d: "distinct (map (\<lambda>c. AttemptCount (Task c)) ?runs)"
    by (simp add: strict_sorted_iff)
  have range: "0 \<le> AttemptCount (Task c) \<and> AttemptCount (Task c) < sMaxAttempts sp" if "c \<in> set ?runs" for c
    using that run_claims_count [OF assms(1) wf_New] by (auto simp: handler_ran_chosen chosen_handler_def split: if_splits)
  have "set (map (\<lambda>c. AttemptCount (Task c)) ?runs) \<subseteq> {0..<sMaxAttempts sp}" using range by auto
  then have "card (set (map (\<lambda>c. AttemptCount (Task c)) ?runs)) \<le> card {0..<sMaxAttempts sp}"
    by (rule card_mono [rotated]) simp
  then have "int (length ?runs) \<le> sMaxAttempts sp"
    using distinct_card [OF d] assms(3) by simp
  then show ?thesis by (simp add: conj_commute conj_left_commute)
qed

theorem attempts_within_budget_witness:
  "handler_ran (\<lambda>s. s) (\<lambda>_. 0) sample_worker sample_reg memstore sample_spec sample_claim sample_input sample_claimed \<and>
   int (length (filter (\<lambda>c. ID (Task c) = ''a'' \<and> RedriveCount (Task c) = 0 \<and>
      handler_ran (\<lambda>s. s) (\<lambda>_. 0) sample_worker sample_reg memstore sample_spec c sample_input sample_claimed)
    (run_claims New [EvEnqueue (sample_task ''a''), EvEnqueue (sample_task ''b''), EvClaimDue 5 ''q'' 1 10]))) \<le> 3"
  using attempts_within_budget [OF sample_run, of sample_spec]
  by (simp add: sample_spec_def handler_ran_chosen chosen_handler_def sample_claim_facts Resolve_def Lookup_def sample_reg_def)

section \<open>Polling\<close>

lemma grantTokens_Suc:
  "grantTokens now l (Suc n) granted =
     (if fst (Allow now l) then grantTokens now (snd (Allow now l)) n (granted + 1) else (granted, snd (Allow now l)))"
  by (cases "Allow now l") (simp split: bool.split)

lemma grantTokens_range:
  "granted \<le> fst (grantTokens now l n granted) \<and> fst (grantTokens now l n granted) \<le> granted + int n"
proof (induction n arbitrary: l granted)
  case (Suc n)
  show ?case
    using Suc [of "granted + 1" "snd (Allow now l)"] by (simp only: grantTokens_Suc) auto
qed simp

lemma grantTokens_bucket:
  assumes "bucket b l" "tokens l = Fin t" "t \<le> of_int m" "m \<le> b" "0 \<le> m" "time_sub now (last_refill l) \<le> 0"
  shows "fst (grantTokens now l n granted) \<le> granted + m"
  using assms
proof (induction n arbitrary: l granted t m)
  case (Suc n)
  obtain ok l' where a: "Allow now l = (ok, l')" by (cases "Allow now l")
  show ?case
  proof (cases ok)
    case True
    then obtain t' where t': "1 \<le> m" "bucket b l'" "last_refill l' = last_refill l" "tokens l' = Fin t'" "t' \<le> of_int (m - 1)"
      using Allow_takes [OF Suc.prems(1-4,6)] a by auto
    have "fst (grantTokens now l' n (granted + 1)) \<le> granted + 1 + (m - 1)"
      using t' Suc.prems by (intro Suc.IH [of l' t']) auto
    then show ?thesis using a True by simp
  qed (use Suc.prems a in simp)
qed simp

lemma grantTokens_keeps: "bucket b l \<Longrightarrow> bucket b (snd (grantTokens now l n granted))"
proof (induction n arbitrary: l granted)
  case (Suc n)
  have "bucket b (snd (Allow now l))"
    using bucket_AllowN [OF Suc.prems, of now 1] by (cases "AllowN now l 1") (auto simp: Allow_def)
  then show ?case using Suc.IH by (simp only: grantTokens_Suc) simp
qed simp

lemma bucket_after_refill:
  assumes "bucket b l"
  shows "time_sub now (last_refill (refillLocked now l)) \<le> 0 \<and> Allow now l = Allow now (refillLocked now l)"
proof -
  have "last_refill (refillLocked now l) \<ge> now"
    by (auto simp: refillLocked_def Let_def)
  then have *: "time_sub now (last_refill (refillLocked now l)) \<le> 0" by simp
  then have "refillLocked now (refillLocked now l) = refillLocked now l" by (simp add: refillLocked_def [of _ "refillLocked now l"])
  moreover have "ratePerSec (refillLocked now l) = ratePerSec l" by (simp add: refillLocked_def Let_def)
  ultimately show ?thesis using * assms by (auto simp: Allow_def AllowN_def Let_def bucket_def)
qed

text \<open>A rate-limited queue never claims more in one poll than its bucket holds: for a limiter
  built from a configured rate, in any state its calls lead to, one poll is granted at most the
  configured count, at most what it asked for, and the bucket stays between empty and full.\<close>

theorem grant_within_burst:
  assumes "bucket b l"
  shows "0 \<le> fst (grantTokens now l want 0) \<and> fst (grantTokens now l want 0) \<le> min b (int want) \<and>
    bucket b (snd (grantTokens now l want 0))"
proof -
  let ?r = "refillLocked now l"
  have same: "grantTokens now l (Suc n) 0 = grantTokens now ?r (Suc n) 0" for n
    using bucket_after_refill [OF assms, of now] by simp
  obtain t where "tokens ?r = Fin t" "t \<le> of_int b" "0 \<le> b"
    using bucket_refill [OF assms, of now] by (auto simp: bucket_def)
  then have "fst (grantTokens now ?r want 0) \<le> 0 + b"
    using bucket_after_refill [OF assms, of now] by (intro grantTokens_bucket [OF bucket_refill [OF assms]]) auto
  then have "fst (grantTokens now l want 0) \<le> b"
    using same assms by (cases want) (auto simp: bucket_def)
  then show ?thesis
    using grantTokens_range [of 0 now l want] grantTokens_keeps [OF assms] by simp
qed

theorem grant_within_burst_witness:
  "fst (grantTokens 5 (NewLimiter (Some \<lparr>Count = 3, Per = second\<rparr>) 0) 10 0) \<le> 3"
proof -
  have "bucket 3 (NewLimiter (Some \<lparr>Count = 3, Per = second\<rparr>) 0)"
    using bucket_NewLimiter [of "\<lparr>Count = 3, Per = second\<rparr>" 0] by simp
  then show ?thesis using grant_within_burst [of 3 "NewLimiter (Some \<lparr>Count = 3, Per = second\<rparr>) 0" 5 10] by simp
qed

context claiming_storage
begin

lemma poll_slots:
  assumes "inv s" "0 \<le> busy q" "busy q \<le> sConcurrency (spec q)"
    "pollOnce w ops i q s = (cs, q', s', evs)"
  shows "busy q' = busy q + int (length cs) \<and> busy q' \<le> sConcurrency (spec q') \<and> spec q' = spec q \<and>
    int (length cs) \<le> max 0 (sBatchSize (spec q)) \<and>
    (\<forall>c \<in> set cs. held s' (ID (Task c)) (Token c) \<and> task_at s' (ID (Task c)) = Some (Task c) \<and>
       Queue (Task c) = sQueue (spec q))"
proof -
  let ?free = "sConcurrency (spec q) - busy q"
  let ?want = "if sBatchSize (spec q) < ?free then sBatchSize (spec q) else ?free"
  let ?g = "grantTokens (limNow i) (lim q) (nat ?want) 0"
  show ?thesis
  proof (cases "cancelled i \<or> ?free \<le> 0 \<or> fst ?g \<le> 0")
    case True
    then have "cs = [] \<and> busy q' = busy q \<and> spec q' = spec q"
      using assms(4) by (auto simp: pollOnce_def Let_def split_beta split: if_splits)
    then show ?thesis using assms(3) by simp
  next
    case False
    obtain res s2 where c: "st_ClaimDue ops (storeNow i) s (sQueue (spec q)) (fst ?g) (sLease (spec q)) = (res, s2)"
      by fastforce
    show ?thesis
    proof (cases res)
      case (Inl err)
      then have "cs = [] \<and> busy q' = busy q \<and> spec q' = spec q"
        using assms(4) False c by (auto simp: pollOnce_def Let_def split_beta)
      then show ?thesis using assms(3) by simp
    next
      case (Inr ds)
      note d = claim_result [OF assms(1) c [unfolded Inr]]
      have r: "cs = ds" "s' = s2" "busy q' = busy q + int (length ds)" "spec q' = spec q"
        using assms(4) False c Inr by (auto simp: pollOnce_def Let_def split_beta)
      have "fst ?g \<le> int (nat ?want)" using grantTokens_range [of 0 "limNow i" "lim q" "nat ?want"] by simp
      then have n: "int (length ds) \<le> int (nat ?want)" using d by linarith
      have "int (nat ?want) \<le> ?free" "int (nat ?want) \<le> max 0 (sBatchSize (spec q))"
        using False by auto
      then have "int (length ds) \<le> ?free" "int (length ds) \<le> max 0 (sBatchSize (spec q))"
        using n by linarith+
      then show ?thesis using d r by simp
    qed
  qed
qed

end

text \<open>A poll never oversubscribes a queue: it takes one concurrency slot per task it claims, never
  exceeds the queue's concurrency or its batch size, and every task it dispatches is one of the queue's,
  in flight under the token the handler is given.\<close>

theorem poll_within_concurrency:
  assumes "mem_inv s" "0 \<le> busy q" "busy q \<le> sConcurrency (spec q)"
    "pollOnce w memstore i q s = (cs, q', s', evs)"
  shows "busy q' = busy q + int (length cs) \<and> busy q' \<le> sConcurrency (spec q') \<and>
    int (length cs) \<le> max 0 (sBatchSize (spec q)) \<and>
    (\<forall>c \<in> set cs. mem_held s' (ID (Task c)) (Token c) \<and> mem_task_at s' (ID (Task c)) = Some (Task c) \<and>
       Queue (Task c) = sQueue (spec q))"
  using mem.poll_slots [OF assms] by blast

definition sample_state :: queue_state where
  "sample_state = \<lparr>spec = sample_spec, busy = 1, lim = NewLimiter None 0\<rparr>"

definition sample_poll :: poll_input where
  "sample_poll = \<lparr>cancelled = False, limNow = 20, claimStart = 20, claimEnd = 21, storeNow = 20\<rparr>"

theorem poll_within_concurrency_witness:
  "case pollOnce sample_worker memstore sample_poll sample_state sample_claimed of
     (cs, q', s', evs) \<Rightarrow> busy q' \<le> 2"
proof -
  obtain cs q' s' evs where p: "pollOnce sample_worker memstore sample_poll sample_state sample_claimed = (cs, q', s', evs)"
    by (metis prod_cases4)
  have b: "0 \<le> busy sample_state" "busy sample_state \<le> sConcurrency (spec sample_state)"
    by (simp_all add: sample_state_def sample_spec_def)
  have "spec q' = spec sample_state" using mem.poll_slots [OF sample_inv b p] by blast
  then have "busy q' \<le> sConcurrency (spec sample_state)"
    using poll_within_concurrency [OF sample_inv b p] by simp
  then have "busy q' \<le> 2" by (simp add: sample_state_def sample_spec_def)
  then show ?thesis unfolding p by simp
qed

section \<open>Construction\<close>

definition runnable :: "queue_spec \<Rightarrow> bool" where
  "runnable sp \<longleftrightarrow> sQueue sp \<noteq> [] \<and> 1 \<le> sConcurrency sp \<and> 1 \<le> sBatchSize sp \<and> 0 < sPollInterval sp \<and>
     0 < sLease sp \<and> 0 < sHandlerTimeout sp \<and> sHandlerTimeout sp \<le> sLease sp \<and> 1 \<le> sMaxAttempts sp"

lemma normalizeSpec_runnable: "normalizeSpec s0 = Inr s \<Longrightarrow> runnable s"
  by (auto simp: normalizeSpec_def Let_def runnable_def millisecond_def split: if_splits)

lemma normalizeSpec_id: "runnable s \<Longrightarrow> normalizeSpec s = Inr s"
  by (simp add: normalizeSpec_def Let_def runnable_def)

lemma addQueues_keeps:
  assumes "addQueues now ss w = Inr w'" "\<forall>q \<in> set (queues w). runnable (spec q) \<and> busy q = 0 \<and> sLease (spec q) \<le> drainTimeout w"
  shows "(\<forall>q \<in> set (queues w'). runnable (spec q) \<and> busy q = 0 \<and> sLease (spec q) \<le> drainTimeout w') \<and>
    drainTimeout w \<le> drainTimeout w' \<and> length (queues w') = length (queues w) + length ss"
  using assms
proof (induction now ss w rule: addQueues.induct)
  case (2 now s0 ss w)
  obtain s where s: "normalizeSpec s0 = Inr s" using "2.prems"(1) by (cases "normalizeSpec s0") auto
  let ?w = "w\<lparr>queues := queues w @ [\<lparr>spec = s, busy = 0, lim = NewLimiter (sRateLimit s) now\<rparr>],
    drainTimeout := (if sLease s > drainTimeout w then sLease s else drainTimeout w)\<rparr>"
  have a: "addQueues now ss ?w = Inr w'" using "2.prems"(1) s by simp
  have "\<forall>q \<in> set (queues ?w). runnable (spec q) \<and> busy q = 0 \<and> sLease (spec q) \<le> drainTimeout ?w"
    using "2.prems"(2) normalizeSpec_runnable [OF s] by auto
  note h = "2.IH" [OF s a this]
  have "drainTimeout w \<le> drainTimeout ?w" by simp
  then have "drainTimeout w \<le> drainTimeout w'" using h by linarith
  then show ?case using h by simp
qed auto

text \<open>A worker that was constructed is safe to run: it has one queue per spec given, all slots free;
  each has a name, at least one attempt, slot and task per batch, a positive lease and poll
  interval, and a handler timeout that ends within the lease; and stopping it waits at least
  the longest lease, so an in-flight handler is given the time its lease allows.\<close>

theorem NewWorker_runnable:
  assumes "NewWorker hasStore hasReg now specs opts = Inr w"
    "queues (fold (\<lambda>opt w. opt w) opts w0) = []"
    "w0 = \<lparr>queues = [], sweepInterval = defaultSweepInterval, sweepJitter = defaultSweepJitter, drainTimeout = 0,
       recorder = False, hook = False, logger = False,
       errView = (\<lambda>_. GoErr 0 ''*errors.errorString'' [] None NoUnwrap)\<rparr>"
  shows "length (queues w) = length specs \<and> 0 < drainTimeout w \<and>
    (\<forall>q \<in> set (queues w). runnable (spec q) \<and> busy q = 0 \<and> sLease (spec q) \<le> drainTimeout w)"
proof -
  obtain w' where w': "addQueues now specs (fold (\<lambda>opt w. opt w) opts w0) = Inr w'"
    "w = (if drainTimeout w' \<le> 0 then w'\<lparr>drainTimeout := defaultSweepInterval\<rparr> else w')"
    using assms(1,3) by (auto simp: NewWorker_def Let_def split: if_splits sum.splits)
  have k: "\<forall>q \<in> set (queues w'). runnable (spec q) \<and> busy q = 0 \<and> sLease (spec q) \<le> drainTimeout w'"
    "length (queues w') = length specs"
    using addQueues_keeps [OF w'(1)] assms(2) by auto
  then show ?thesis
    using w'(2) by (auto simp: defaultSweepInterval_def second_def)
qed

theorem NewWorker_runnable_witness:
  "\<exists>w. NewWorker True True 0 [sample_spec\<lparr>sHandlerTimeout := 0, sMaxAttempts := 0\<rparr>] [] = Inr w \<and>
     (\<forall>q \<in> set (queues w). runnable (spec q))"
proof -
  have "normalizeSpec (sample_spec\<lparr>sHandlerTimeout := 0, sMaxAttempts := 0\<rparr>) = Inr (sample_spec\<lparr>sMaxAttempts := 1\<rparr>)"
    by (simp add: normalizeSpec_def sample_spec_def)
  then obtain w where "NewWorker True True 0 [sample_spec\<lparr>sHandlerTimeout := 0, sMaxAttempts := 0\<rparr>] [] = Inr w"
    by (simp add: NewWorker_def Let_def)
  then show ?thesis using NewWorker_runnable [OF _ _ refl, of True True 0 _ "[]" w] by auto
qed

section \<open>Sweeping and pacing\<close>

lemma sweepOnce_seqs:
  "wf_store s \<Longrightarrow> wf_store (sweepOnce memstore now qs s)"
  by (induction qs arbitrary: s) (auto intro: wf_PurgeSucceeded)

text \<open>The sweeper removes exactly the tasks that succeeded and outlived the retention of one of the
  worker's queues: never a pending, in-flight or dead task, never a task of a queue without
  retention, and it leaves every other task as it is.\<close>

theorem sweep_removes_only_expired:
  assumes "wf_store s"
  shows "lookup (sweepOnce memstore now qs s) k =
    (case lookup s k of None \<Rightarrow> None
     | Some r \<Rightarrow> if Status (env r) = StatusSucceeded \<and>
           (\<exists>q \<in> set qs. 0 < sTTLSucceeded (spec q) \<and> Queue (env r) = sQueue (spec q) \<and>
              terminalAt r < now - sTTLSucceeded (spec q))
         then None else Some r)"
  using assms
proof (induction qs arbitrary: s)
  case (Cons q qs)
  show ?case
  proof (cases "sTTLSucceeded (spec q) \<le> 0")
    case True
    then show ?thesis using Cons.IH [OF Cons.prems] by (auto split: option.splits)
  next
    case False
    let ?s = "snd (PurgeSucceeded s (sQueue (spec q)) (now - sTTLSucceeded (spec q)))"
    have "wf_store ?s" using Cons.prems by (rule wf_PurgeSucceeded)
    from Cons.IH [OF this] show ?thesis
      using False by (auto simp: PurgeSucceeded_lookup [OF Cons.prems] purgeableSucceeded_def split: option.splits)
  qed
qed (auto split: option.splits)

theorem sweep_removes_only_expired_witness:
  "lookup (sweepOnce memstore 1000 [sample_state] sample_claimed) ''a'' = lookup sample_claimed ''a''"
  using sweep_removes_only_expired [OF wf_sample_claimed, of 1000 "[sample_state]" "''a''"] sample_claimed_a(2)
  by (auto split: option.splits)

text \<open>Heartbeats are frequent enough to keep a lease: the interval between two of them is positive,
  never longer than the lease, and for any lease of at least three nanoseconds three intervals fit in
  one lease, so two extensions come before expiry even when one is late by a whole interval.\<close>

theorem heartbeat_keeps_lease:
  assumes "0 < lease"
  shows "0 < heartbeatInterval lease \<and> heartbeatInterval lease \<le> lease \<and>
    (3 \<le> lease \<longrightarrow> 3 * heartbeatInterval lease \<le> lease)"
  using assms by (auto simp: heartbeatInterval_def Let_def)

theorem heartbeat_keeps_lease_witness: "3 * heartbeatInterval 10 \<le> 10"
  using heartbeat_keeps_lease [of 10] by simp

end
