(* ===== verification/Server_Auth.thy ===== *)
theory Server_Auth
  imports Glob Config_Units
begin

text \<open>
  Authentication and authorization of the server (\<open>server/auth\<close>): ordered roles, grants of a
  role on the queues of a pattern, the token file and the bearer credential.
\<close>

section \<open>Roles and grants\<close>

datatype role = RoleNone | RoleSubmitter | RoleOperator | RoleAdmin

fun Role_int :: "role \<Rightarrow> int" where
  "Role_int RoleNone = 0"
| "Role_int RoleSubmitter = 1"
| "Role_int RoleOperator = 2"
| "Role_int RoleAdmin = 3"

instantiation role :: linorder
begin
definition less_eq_role :: "role \<Rightarrow> role \<Rightarrow> bool" where "less_eq_role r s \<longleftrightarrow> Role_int r \<le> Role_int s"
definition less_role :: "role \<Rightarrow> role \<Rightarrow> bool" where "less_role r s \<longleftrightarrow> Role_int r < Role_int s"
instance
proof
  fix x y :: role
  show "x \<le> y \<Longrightarrow> y \<le> x \<Longrightarrow> x = y"
    by (cases x; cases y) (simp_all add: less_eq_role_def)
qed (auto simp: less_eq_role_def less_role_def)
end

fun Role_String :: "role \<Rightarrow> string" where
  "Role_String RoleSubmitter = ''submitter''"
| "Role_String RoleOperator = ''operator''"
| "Role_String RoleAdmin = ''admin''"
| "Role_String RoleNone = ''none''"

definition ParseRole :: "string \<Rightarrow> role option" where
  "ParseRole s =
     (if s = ''submitter'' then Some RoleSubmitter
      else if s = ''operator'' then Some RoleOperator
      else if s = ''admin'' then Some RoleAdmin
      else None)"

record grant =
  GQueue :: string
  GRole :: role

record principal =
  PName :: string
  Grants :: "grant list"

definition Allows :: "principal \<Rightarrow> string \<Rightarrow> role \<Rightarrow> bool" where
  "Allows p queue need \<longleftrightarrow> list_ex (\<lambda>g. GRole g \<ge> need \<and> Glob (GQueue g) queue) (Grants p)"

definition AllowsGlobal :: "principal \<Rightarrow> role \<Rightarrow> bool" where
  "AllowsGlobal p need \<longleftrightarrow> list_ex (\<lambda>g. GRole g \<ge> need \<and> GQueue g = ''*'') (Grants p)"

section \<open>The token file\<close>

record grant_entry =
  geQueue :: string
  geRole :: string

record principal_entry =
  peName :: string
  peToken :: string
  peGrants :: "grant_entry list"

type_synonym token_store = "principal gomap"

datatype token_error =
    TokenFileMalformed
  | NameRequired nat
  | TokenRequired string
  | TokenDuplicate string
  | GrantRequired string
  | GrantQueueRequired string nat
  | GrantRoleUnknown string nat string

fun parseGrants :: "string \<Rightarrow> nat \<Rightarrow> grant_entry list \<Rightarrow> token_error + grant list" where
  "parseGrants name j [] = Inr []"
| "parseGrants name j (ge # ges) =
     (if geQueue ge = [] then Inl (GrantQueueRequired name j)
      else case ParseRole (geRole ge) of
          None \<Rightarrow> Inl (GrantRoleUnknown name j (geRole ge))
        | Some r \<Rightarrow> (case parseGrants name (Suc j) ges of
              Inl e \<Rightarrow> Inl e
            | Inr gs \<Rightarrow> Inr (\<lparr>GQueue = geQueue ge, GRole = r\<rparr> # gs)))"

fun parsePrincipals :: "token_store \<Rightarrow> nat \<Rightarrow> principal_entry list \<Rightarrow> token_error + token_store" where
  "parsePrincipals byToken i [] = Inr byToken"
| "parsePrincipals byToken i (pe # pes) =
     (if peName pe = [] then Inl (NameRequired i)
      else if peToken pe = [] then Inl (TokenRequired (peName pe))
      else if map_of byToken (peToken pe) \<noteq> None then Inl (TokenDuplicate (peName pe))
      else if peGrants pe = [] then Inl (GrantRequired (peName pe))
      else case parseGrants (peName pe) 0 (peGrants pe) of
          Inl e \<Rightarrow> Inl e
        | Inr gs \<Rightarrow> parsePrincipals ((peToken pe, \<lparr>PName = peName pe, Grants = gs\<rparr>) # byToken) (Suc i) pes)"

text \<open>The argument is the decoded document, \<open>None\<close> when the strict JSON decoder refuses it.\<close>

definition ParseTokenStore :: "principal_entry list option \<Rightarrow> token_error + token_store" where
  "ParseTokenStore tf = (case tf of None \<Rightarrow> Inl TokenFileMalformed | Some pes \<Rightarrow> parsePrincipals [] 0 pes)"

definition Lookup_token :: "token_store \<Rightarrow> string \<Rightarrow> principal option" where
  "Lookup_token ts token = map_of ts token"

section \<open>The bearer credential\<close>

definition ascii_lower :: "char \<Rightarrow> char" where
  "ascii_lower c = (if CHR ''A'' \<le> c \<and> c \<le> CHR ''Z'' then char_of (of_char c + 32 :: nat) else c)"

text \<open>\<open>strings.EqualFold\<close> against a literal of ASCII letters that no other rune folds to.\<close>

definition EqualFold_ascii :: "string \<Rightarrow> string \<Rightarrow> bool" where
  "EqualFold_ascii s t \<longleftrightarrow> map ascii_lower s = map ascii_lower t"

definition BearerToken :: "string \<Rightarrow> string option" where
  "BearerToken authorization =
     (if length authorization \<le> 7 \<or> \<not> EqualFold_ascii (take 7 authorization) ''bearer '' then None
      else let tok = TrimSpace (drop 7 authorization) in
        if tok = [] then None else Some tok)"

definition Authenticate :: "token_store \<Rightarrow> string \<Rightarrow> principal option" where
  "Authenticate store authorization =
     (case BearerToken authorization of None \<Rightarrow> None | Some tok \<Rightarrow> Lookup_token store tok)"

section \<open>Lemmas\<close>

lemma role_le_simps [simp]:
  "RoleNone \<le> r" "RoleSubmitter \<le> RoleOperator" "RoleSubmitter \<le> RoleAdmin" "RoleOperator \<le> RoleAdmin"
  "\<not> RoleOperator \<le> RoleSubmitter" "\<not> RoleAdmin \<le> RoleSubmitter" "\<not> RoleAdmin \<le> RoleOperator"
  "\<not> RoleSubmitter \<le> RoleNone" "\<not> RoleOperator \<le> RoleNone" "\<not> RoleAdmin \<le> RoleNone"
  by (cases r) (simp_all add: less_eq_role_def)

lemma Allows_iff:
  "Allows p q need \<longleftrightarrow> (\<exists>g \<in> set (Grants p). need \<le> GRole g \<and> glob_spec (GQueue g) q)"
  by (auto simp: Allows_def list_ex_iff Glob_spec)

lemma Allows_mono: "Allows p q need \<Longrightarrow> need' \<le> need \<Longrightarrow> Allows p q need'"
  by (auto simp: Allows_iff intro: order_trans)

lemma ParseRole_Some: "ParseRole s = Some r \<longleftrightarrow> r \<noteq> RoleNone \<and> s = Role_String r"
  by (cases r) (auto simp: ParseRole_def)

text \<open>What a token-file entry grants: its name and its grants, the role names resolved.\<close>

definition grant_of :: "grant_entry \<Rightarrow> grant" where
  "grant_of ge = \<lparr>GQueue = geQueue ge, GRole = the (ParseRole (geRole ge))\<rparr>"

definition principal_of :: "principal_entry \<Rightarrow> principal" where
  "principal_of pe = \<lparr>PName = peName pe, Grants = map grant_of (peGrants pe)\<rparr>"

definition complete_entry :: "principal_entry \<Rightarrow> bool" where
  "complete_entry pe \<longleftrightarrow> peName pe \<noteq> [] \<and> peToken pe \<noteq> [] \<and> peGrants pe \<noteq> [] \<and>
     (\<forall>ge \<in> set (peGrants pe). geQueue ge \<noteq> [] \<and> (\<exists>r. ParseRole (geRole ge) = Some r \<and> r \<noteq> RoleNone))"

lemma parseGrants_grant_of:
  "parseGrants name j ges = Inr gs \<longleftrightarrow>
     gs = map grant_of ges \<and>
     (\<forall>ge \<in> set ges. geQueue ge \<noteq> [] \<and> (\<exists>r. ParseRole (geRole ge) = Some r \<and> r \<noteq> RoleNone))"
proof (induction name j ges arbitrary: gs rule: parseGrants.induct)
  case (2 name j ge ges)
  show ?case
  proof (cases "ParseRole (geRole ge)")
    case (Some r)
    then have "r \<noteq> RoleNone" by (simp add: ParseRole_Some)
    with Some 2 show ?thesis
      by (cases "geQueue ge = []"; cases "parseGrants name (Suc j) ges") (auto simp: grant_of_def)
  qed auto
qed auto

lemma parsePrincipals_Inr:
  "parsePrincipals bt i pes = Inr ts \<Longrightarrow>
     (\<forall>pe \<in> set pes. complete_entry pe \<and> map_of bt (peToken pe) = None) \<and> distinct (map peToken pes) \<and>
     (\<forall>t p. map_of ts t = Some p \<longleftrightarrow>
        map_of bt t = Some p \<or> (\<exists>pe \<in> set pes. peToken pe = t \<and> p = principal_of pe))"
proof (induction bt i pes arbitrary: ts rule: parsePrincipals.induct)
  case (2 bt i pe pes)
  from 2(2) have c: "peName pe \<noteq> []" "peToken pe \<noteq> []" "map_of bt (peToken pe) = None" "peGrants pe \<noteq> []"
    by (simp_all split: if_splits)
  with 2(2) obtain gs where gs: "parseGrants (peName pe) 0 (peGrants pe) = Inr gs"
    and rest: "parsePrincipals ((peToken pe, \<lparr>PName = peName pe, Grants = gs\<rparr>) # bt) (Suc i) pes = Inr ts"
    by (auto split: sum.splits)
  have pe: "complete_entry pe" "\<lparr>PName = peName pe, Grants = gs\<rparr> = principal_of pe"
    using c gs by (auto simp: complete_entry_def principal_of_def parseGrants_grant_of)
  note ih = 2(1) [OF _ _ _ _ gs rest, unfolded pe(2), simplified c, simplified]
  show ?case
    using ih c pe(1) by (auto split: if_splits)
qed simp

text \<open>C28: a token file the server accepts authenticates exactly the callers it names: a request is
  the principal of an entry when and only when its bearer token is that entry's, no two
  entries share a token, and every entry names its principal and gives it at least one grant,
  each of a known role on a non-empty queue pattern.\<close>

theorem token_file_authenticates:
  assumes "ParseTokenStore (Some pes) = Inr ts"
  shows "(\<forall>pe \<in> set pes. complete_entry pe) \<and> distinct (map peToken pes) \<and>
    (\<forall>header p. Authenticate ts header = Some p \<longleftrightarrow>
       (\<exists>pe \<in> set pes. BearerToken header = Some (peToken pe) \<and> p = principal_of pe))"
proof -
  note p = parsePrincipals_Inr [of "[]" 0 pes ts]
  have "\<forall>t p. map_of ts t = Some p \<longleftrightarrow> (\<exists>pe \<in> set pes. peToken pe = t \<and> p = principal_of pe)"
    using p assms by (simp add: ParseTokenStore_def)
  then have "Authenticate ts header = Some p \<longleftrightarrow>
      (\<exists>pe \<in> set pes. BearerToken header = Some (peToken pe) \<and> p = principal_of pe)" for header p
    by (auto simp: Authenticate_def Lookup_token_def split: option.splits)
  then show ?thesis using p assms by (simp add: ParseTokenStore_def)
qed

definition sample_entries :: "principal_entry list" where
  "sample_entries =
     [\<lparr>peName = ''ops'', peToken = ''tok1'',
       peGrants = [\<lparr>geQueue = ''payments.*'', geRole = ''operator''\<rparr>, \<lparr>geQueue = ''*'', geRole = ''submitter''\<rparr>]\<rparr>,
      \<lparr>peName = ''root'', peToken = ''tok2'', peGrants = [\<lparr>geQueue = ''*'', geRole = ''admin''\<rparr>]\<rparr>]"

theorem token_file_authenticates_witness:
  "Authenticate (projr (ParseTokenStore (Some sample_entries))) ''Bearer tok2'' =
     Some \<lparr>PName = ''root'', Grants = [\<lparr>GQueue = ''*'', GRole = RoleAdmin\<rparr>]\<rparr>"
proof -
  have ok: "ParseTokenStore (Some sample_entries) = Inr (projr (ParseTokenStore (Some sample_entries)))"
    by code_simp
  have "BearerToken ''Bearer tok2'' = Some ''tok2''" by code_simp
  then show ?thesis
    using token_file_authenticates [OF ok]
    by (auto simp: sample_entries_def principal_of_def grant_of_def ParseRole_def)
qed

end
