(* ===== verification/Server_Config.thy ===== *)
theory Server_Config
  imports Config Go_Strconv Config_Units
begin

text \<open>
  The server's configuration (\<open>server/config\<close>): the in-memory store of per-queue configuration
  with its pause flags, the allowlist of callback targets, and the resolution of secret
  references. \<open>net/url\<close> parsing, \<open>strings.ToLower\<close> and the process environment are parameters.
\<close>

section \<open>The configuration store\<close>

record mem_cfg =
  qc :: "queue_config option"
  apiWritten :: bool

record cfg_store =
  configs :: "mem_cfg gomap"
  paused :: "bool gomap"

record entry =
  EConfig :: "queue_config option"
  EPaused :: bool

datatype store_error = QueueNotFound | StoreFailed string

definition NewMemStore :: cfg_store where
  "NewMemStore = \<lparr>configs = [], paused = []\<rparr>"

definition seedOne :: "string \<times> queue_config option \<Rightarrow> cfg_store \<Rightarrow> cfg_store" where
  "seedOne nq m = (case nq of (name, q) \<Rightarrow>
     (case map_of (configs m) name of
        Some c \<Rightarrow> if apiWritten c then m
                  else m\<lparr>configs := AList.update name \<lparr>qc = q, apiWritten = False\<rparr> (configs m)\<rparr>
      | None \<Rightarrow> m\<lparr>configs := AList.update name \<lparr>qc = q, apiWritten = False\<rparr> (configs m)\<rparr>))"

definition Seed :: "config_doc \<Rightarrow> cfg_store \<Rightarrow> cfg_store" where
  "Seed cfg m = fold seedOne (Queues cfg) m"

definition IsPaused :: "cfg_store \<Rightarrow> string \<Rightarrow> bool" where
  "IsPaused m queue = (case map_of (paused m) queue of None \<Rightarrow> False | Some b \<Rightarrow> b)"

definition Get_config :: "cfg_store \<Rightarrow> string \<Rightarrow> store_error + entry" where
  "Get_config m queue = (case map_of (configs m) queue of
      None \<Rightarrow> Inl QueueNotFound
    | Some c \<Rightarrow> Inr \<lparr>EConfig = qc c, EPaused = IsPaused m queue\<rparr>)"

definition Put_config :: "string \<Rightarrow> queue_config \<Rightarrow> cfg_store \<Rightarrow> store_error option \<times> cfg_store" where
  "Put_config queue q m =
     (None, m\<lparr>configs := AList.update queue \<lparr>qc = Some q, apiWritten = True\<rparr> (configs m)\<rparr>)"

definition Delete_config :: "string \<Rightarrow> cfg_store \<Rightarrow> store_error option \<times> cfg_store" where
  "Delete_config queue m = (case map_of (configs m) queue of
      None \<Rightarrow> (Some QueueNotFound, m)
    | Some _ \<Rightarrow> (None, m\<lparr>configs := AList.delete queue (configs m), paused := AList.delete queue (paused m)\<rparr>))"

definition List_config :: "cfg_store \<Rightarrow> store_error + string list" where
  "List_config m = Inr (sort (map fst (configs m)))"

definition SetPaused :: "string \<Rightarrow> bool \<Rightarrow> cfg_store \<Rightarrow> store_error option \<times> cfg_store" where
  "SetPaused queue b m = (None, if b then m\<lparr>paused := AList.update queue True (paused m)\<rparr>
     else m\<lparr>paused := AList.delete queue (paused m)\<rparr>)"

section \<open>The callback allowlist\<close>

record url =
  Scheme :: string
  Host :: string
  UPath :: string

type_synonym url_parse = "string \<Rightarrow> url option"

record allow_entry =
  aScheme :: string
  aHost :: string
  aPrefix :: string

datatype server_config_error =
    EmptyEntry
  | EntryNotURL string
  | EntryNoHost string
  | NotOnAllowlist string string
  | SecretNotEnv string
  | SecretNoName string
  | SecretUnset string
  | SecretEmpty string

fun contains :: "string \<Rightarrow> string \<Rightarrow> bool" where
  "contains [] p = (p = [])"
| "contains (c # s) p = (prefix p (c # s) \<or> contains s p)"

definition TrimSuffix :: "string \<Rightarrow> string \<Rightarrow> string" where
  "TrimSuffix s p = (case CutSuffix s p of None \<Rightarrow> s | Some t \<Rightarrow> t)"

definition parseEntry :: "url_parse \<Rightarrow> (string \<Rightarrow> string) \<Rightarrow> string \<Rightarrow> server_config_error + allow_entry" where
  "parseEntry urlParse lower raw = (let e = TrimSpace raw in
     if e = [] then Inl EmptyEntry
     else if contains e ''://'' then
       (case urlParse e of
          None \<Rightarrow> Inl (EntryNotURL raw)
        | Some u \<Rightarrow> if Host u = [] then Inl (EntryNoHost raw)
            else Inr \<lparr>aScheme = lower (Scheme u), aHost = lower (Host u), aPrefix = TrimSuffix (UPath u) ''/''\<rparr>)
     else
       (case urlParse (''//'' @ e) of
          None \<Rightarrow> Inl (EntryNoHost raw)
        | Some u \<Rightarrow> if Host u = [] then Inl (EntryNoHost raw)
            else Inr \<lparr>aScheme = [], aHost = lower (Host u), aPrefix = []\<rparr>))"

fun ParseAllowlist :: "url_parse \<Rightarrow> (string \<Rightarrow> string) \<Rightarrow> string list \<Rightarrow> server_config_error + allow_entry list" where
  "ParseAllowlist urlParse lower [] = Inr []"
| "ParseAllowlist urlParse lower (raw # raws) = (case parseEntry urlParse lower raw of
      Inl e \<Rightarrow> Inl e
    | Inr a \<Rightarrow> (case ParseAllowlist urlParse lower raws of Inl e \<Rightarrow> Inl e | Inr as \<Rightarrow> Inr (a # as)))"

definition pathHasPrefix :: "string \<Rightarrow> string \<Rightarrow> bool" where
  "pathHasPrefix path p =
     (if \<not> HasPrefix path p then False
      else let rest = drop (length p) path in rest = [] \<or> hd rest = CHR ''/'')"

definition entryAllows :: "(string \<Rightarrow> string) \<Rightarrow> url \<Rightarrow> allow_entry \<Rightarrow> bool" where
  "entryAllows lower u e =
     (if aScheme e \<noteq> [] \<and> aScheme e \<noteq> lower (Scheme u) then False
      else if aHost e \<noteq> lower (Host u) then False
      else if aPrefix e \<noteq> [] \<and> \<not> pathHasPrefix (UPath u) (aPrefix e) then False
      else True)"

definition Allowlist_Allows :: "url_parse \<Rightarrow> (string \<Rightarrow> string) \<Rightarrow> allow_entry list \<Rightarrow> string \<Rightarrow> bool" where
  "Allowlist_Allows urlParse lower al rawURL = (case urlParse rawURL of
      None \<Rightarrow> False
    | Some u \<Rightarrow> Host u \<noteq> [] \<and> list_ex (entryAllows lower u) al)"

definition ResolveSecretRef :: "(string \<Rightarrow> string option) \<Rightarrow> string \<Rightarrow> server_config_error + bytes" where
  "ResolveSecretRef env ref = (case CutPrefix ref secretRefEnvScheme of
      None \<Rightarrow> Inl (SecretNotEnv ref)
    | Some name \<Rightarrow>
        if name = [] then Inl (SecretNoName ref)
        else case env name of
            None \<Rightarrow> Inl (SecretUnset ref)
          | Some v \<Rightarrow> if v = [] then Inl (SecretEmpty ref) else Inr v)"

definition validateCallbackOf :: "url_parse \<Rightarrow> (string \<Rightarrow> string) \<Rightarrow> (string \<Rightarrow> string option) \<Rightarrow> allow_entry list \<Rightarrow>
    string \<Rightarrow> queue_config option \<Rightarrow> server_config_error option" where
  "validateCallbackOf urlParse lower env al name q =
     (case Option.bind q QCallback of None \<Rightarrow> None | Some cb \<Rightarrow>
      case URL cb of None \<Rightarrow> None | Some raw \<Rightarrow>
        if \<not> Allowlist_Allows urlParse lower al raw then Some (NotOnAllowlist name raw)
        else case Option.bind (CAuth cb) SecretRef of
            None \<Rightarrow> None
          | Some ref \<Rightarrow> (case ResolveSecretRef env ref of Inl e \<Rightarrow> Some e | Inr _ \<Rightarrow> None))"

fun firstFailure :: "('a \<Rightarrow> 'e option) \<Rightarrow> 'a list \<Rightarrow> 'e option" where
  "firstFailure check [] = None"
| "firstFailure check (x # xs) = (case check x of Some e \<Rightarrow> Some e | None \<Rightarrow> firstFailure check xs)"

definition ValidateCallbacks :: "url_parse \<Rightarrow> (string \<Rightarrow> string) \<Rightarrow> (string \<Rightarrow> string option) \<Rightarrow> string list \<Rightarrow>
    queue_config option gomap \<Rightarrow> server_config_error option" where
  "ValidateCallbacks urlParse lower env allowlist queues = (case ParseAllowlist urlParse lower allowlist of
      Inl e \<Rightarrow> Some e
    | Inr al \<Rightarrow> firstFailure (\<lambda>name. validateCallbackOf urlParse lower env al name (the (map_of queues name)))
        (sort (map fst queues)))"

section \<open>The store interface\<close>

text \<open>The \<open>Store\<close> interface, as a record of operations over a backend state.\<close>

record 'c config_store =
  cs_Get :: "'c \<Rightarrow> string \<Rightarrow> store_error + entry"
  cs_Put :: "string \<Rightarrow> queue_config \<Rightarrow> 'c \<Rightarrow> store_error option \<times> 'c"
  cs_Delete :: "string \<Rightarrow> 'c \<Rightarrow> store_error option \<times> 'c"
  cs_List :: "'c \<Rightarrow> store_error + string list"
  cs_IsPaused :: "'c \<Rightarrow> string \<Rightarrow> bool"
  cs_SetPaused :: "string \<Rightarrow> bool \<Rightarrow> 'c \<Rightarrow> store_error option \<times> 'c"

definition memcfg :: "cfg_store config_store" where
  "memcfg = \<lparr>cs_Get = Get_config, cs_Put = Put_config, cs_Delete = Delete_config, cs_List = List_config,
     cs_IsPaused = IsPaused, cs_SetPaused = SetPaused\<rparr>"

section \<open>Lemmas\<close>

text \<open>Whether a queue's configuration was written through the API.\<close>

definition api_owned :: "cfg_store \<Rightarrow> string \<Rightarrow> bool" where
  "api_owned m name = (case map_of (configs m) name of None \<Rightarrow> False | Some c \<Rightarrow> apiWritten c)"

lemma seedOne_if:
  "seedOne (n, q) m = (if api_owned m n then m
     else m\<lparr>configs := AList.update n \<lparr>qc = q, apiWritten = False\<rparr> (configs m)\<rparr>)"
  by (simp add: seedOne_def api_owned_def split: option.splits)

lemma seedOne_paused [simp]: "paused (seedOne nq m) = paused m"
  by (cases nq) (simp add: seedOne_if)

lemma seedOne_lookup:
  "map_of (configs (seedOne (n, q) m)) name =
     (if name = n \<and> \<not> api_owned m n then Some \<lparr>qc = q, apiWritten = False\<rparr> else map_of (configs m) name)"
  by (simp add: seedOne_if)

lemma seedOne_api [simp]: "api_owned (seedOne nq m) name = api_owned m name"
  by (cases nq) (auto simp: api_owned_def seedOne_lookup)

lemma seed_fold:
  "distinct (map fst qs) \<Longrightarrow> paused (fold seedOne qs m) = paused m \<and>
     map_of (configs (fold seedOne qs m)) name =
     (if api_owned m name then map_of (configs m) name
      else case map_of qs name of Some q \<Rightarrow> Some \<lparr>qc = q, apiWritten = False\<rparr> | None \<Rightarrow> map_of (configs m) name)"
proof (induction qs arbitrary: m)
  case (Cons nq qs)
  obtain n q where nq: "nq = (n, q)" by (cases nq)
  have "map_of qs n = None" using Cons.prems nq by (auto simp: map_of_eq_None_iff)
  with nq Cons.IH [of "seedOne (n, q) m"] Cons.prems show ?case
    by (simp add: seedOne_lookup split: option.splits)
qed simp

lemma seed_lookup:
  "distinct (map fst (Queues cfg)) \<Longrightarrow> paused (Seed cfg m) = paused m \<and>
     map_of (configs (Seed cfg m)) name =
     (if api_owned m name then map_of (configs m) name
      else case map_of (Queues cfg) name of Some q \<Rightarrow> Some \<lparr>qc = q, apiWritten = False\<rparr>
         | None \<Rightarrow> map_of (configs m) name)"
  unfolding Seed_def by (rule seed_fold)

lemma seeds_keep_api:
  assumes "\<forall>cfg \<in> set cfgs. distinct (map fst (Queues cfg))" "api_owned m name"
  shows "map_of (configs (fold Seed cfgs m)) name = map_of (configs m) name \<and> paused (fold Seed cfgs m) = paused m"
  using assms
proof (induction cfgs arbitrary: m)
  case (Cons cfg cfgs)
  have s: "map_of (configs (Seed cfg m)) name = map_of (configs m) name" "paused (Seed cfg m) = paused m"
    using seed_lookup [of cfg m name] Cons.prems by simp_all
  then have "api_owned (Seed cfg m) name" using Cons.prems(2) by (simp add: api_owned_def)
  then show ?case using Cons.IH [of "Seed cfg m"] Cons.prems(1) s by simp
qed simp

text \<open>Configuration written through the API survives restarts: after a write, any sequence of boots
  that seed the store from configuration files leaves the written configuration and the pause
  flag in force, while a queue never written through the API always has the configuration of the
  last file that names it.\<close>

theorem api_config_wins:
  assumes "\<forall>cfg \<in> set cfgs. distinct (map fst (Queues cfg))"
  shows "Get_config (fold Seed cfgs (snd (Put_config queue q m))) queue =
      Inr \<lparr>EConfig = Some q, EPaused = IsPaused m queue\<rparr>
    \<and> (\<forall>cfg \<in> set cfgs. \<forall>name w. map_of (Queues cfg) name = Some w \<and> \<not> api_owned m name \<longrightarrow>
         Get_config (Seed cfg m) name = Inr \<lparr>EConfig = w, EPaused = IsPaused m name\<rparr>)"
proof
  let ?m = "snd (Put_config queue q m)"
  have p: "map_of (configs ?m) queue = Some \<lparr>qc = Some q, apiWritten = True\<rparr>" "paused ?m = paused m"
    by (simp_all add: Put_config_def)
  then have "api_owned ?m queue" by (simp add: api_owned_def)
  from seeds_keep_api [OF assms this] p
  show "Get_config (fold Seed cfgs ?m) queue = Inr \<lparr>EConfig = Some q, EPaused = IsPaused m queue\<rparr>"
    by (simp add: Get_config_def IsPaused_def)
next
  show "\<forall>cfg \<in> set cfgs. \<forall>name w. map_of (Queues cfg) name = Some w \<and> \<not> api_owned m name \<longrightarrow>
      Get_config (Seed cfg m) name = Inr \<lparr>EConfig = w, EPaused = IsPaused m name\<rparr>"
  proof (intro ballI allI impI)
    fix cfg name w
    assume "cfg \<in> set cfgs" "map_of (Queues cfg) name = Some w \<and> \<not> api_owned m name"
    then show "Get_config (Seed cfg m) name = Inr \<lparr>EConfig = w, EPaused = IsPaused m name\<rparr>"
      using assms seed_lookup [of cfg m name] unfolding Get_config_def IsPaused_def by auto
  qed
qed

definition sample_doc :: config_doc where
  "sample_doc = \<lparr>ConfigVersion = 1, Defaults = None, Queues = [(''q'', None), (''r'', None)], resolved = []\<rparr>"

theorem api_config_wins_witness:
  "Get_config (Seed sample_doc (Seed sample_doc (snd (Put_config ''q'' empty_queue_config NewMemStore)))) ''q'' =
     Inr \<lparr>EConfig = Some empty_queue_config, EPaused = False\<rparr>"
  using api_config_wins [of "[sample_doc, sample_doc]" "''q''" empty_queue_config NewMemStore]
  by (simp add: sample_doc_def NewMemStore_def IsPaused_def)

lemma pathHasPrefix_iff: "pathHasPrefix path p \<longleftrightarrow> path = p \<or> (\<exists>rest. path = p @ CHR ''/'' # rest)"
proof
  assume h: "pathHasPrefix path p"
  then obtain rest where "path = p @ rest"
    by (auto simp: pathHasPrefix_def HasPrefix_prefix prefix_def split: if_splits)
  with h show "path = p \<or> (\<exists>rest. path = p @ CHR ''/'' # rest)"
    by (cases rest) (auto simp: pathHasPrefix_def)
next
  assume "path = p \<or> (\<exists>rest. path = p @ CHR ''/'' # rest)"
  then show "pathHasPrefix path p"
    using HasPrefix_append [of p "[]"] HasPrefix_append [of p] by (auto simp: pathHasPrefix_def)
qed

lemma firstFailure_None: "firstFailure check xs = None \<longleftrightarrow> (\<forall>x \<in> set xs. check x = None)"
  by (induction xs) (auto split: option.splits)

lemma list_all2_set1: "list_all2 P xs ys \<Longrightarrow> x \<in> set xs \<Longrightarrow> \<exists>y \<in> set ys. P x y"
  by (induction xs ys rule: list_all2_induct) auto

lemma list_all2_set2: "list_all2 P xs ys \<Longrightarrow> y \<in> set ys \<Longrightarrow> \<exists>x \<in> set xs. P x y"
  by (induction xs ys rule: list_all2_induct) auto

lemma ParseAllowlist_entries:
  "ParseAllowlist urlParse lower raws = Inr al \<Longrightarrow> list_all2 (\<lambda>raw a. parseEntry urlParse lower raw = Inr a) raws al"
  by (induction raws arbitrary: al) (auto split: sum.splits)

text \<open>
  What an allowlist entry covers: the same host whatever the letter case, the scheme the entry
  names if it names one, and the path of the entry or one below it.
\<close>

definition covers :: "url_parse \<Rightarrow> (string \<Rightarrow> string) \<Rightarrow> string \<Rightarrow> url \<Rightarrow> bool" where
  "covers urlParse lower raw u \<longleftrightarrow> (\<exists>a. parseEntry urlParse lower raw = Inr a \<and> lower (Host u) = aHost a \<and>
     (aScheme a = [] \<or> lower (Scheme u) = aScheme a) \<and>
     (aPrefix a = [] \<or> UPath u = aPrefix a \<or> (\<exists>rest. UPath u = aPrefix a @ CHR ''/'' # rest)))"

lemma Allows_covers:
  assumes "ParseAllowlist urlParse lower raws = Inr al"
  shows "Allowlist_Allows urlParse lower al target \<longleftrightarrow>
    (\<exists>u. urlParse target = Some u \<and> Host u \<noteq> [] \<and> (\<exists>raw \<in> set raws. covers urlParse lower raw u))"
proof -
  have e: "entryAllows lower u a \<longleftrightarrow> lower (Host u) = aHost a \<and>
      (aScheme a = [] \<or> lower (Scheme u) = aScheme a) \<and>
      (aPrefix a = [] \<or> UPath u = aPrefix a \<or> (\<exists>rest. UPath u = aPrefix a @ CHR ''/'' # rest))" for u a
    by (auto simp: entryAllows_def pathHasPrefix_iff)
  note l = ParseAllowlist_entries [OF assms]
  have fwd: "\<exists>raw \<in> set raws. parseEntry urlParse lower raw = Inr a" if "a \<in> set al" for a
    using list_all2_set2 [OF l that] .
  have bwd: "\<exists>a \<in> set al. parseEntry urlParse lower raw = Inr a" if "raw \<in> set raws" for raw
    using list_all2_set1 [OF l that] .
  have "list_ex (entryAllows lower u) al \<longleftrightarrow> (\<exists>raw \<in> set raws. covers urlParse lower raw u)" for u
  proof
    assume "list_ex (entryAllows lower u) al"
    then obtain a where "a \<in> set al" "entryAllows lower u a" by (auto simp: list_ex_iff)
    with fwd show "\<exists>raw \<in> set raws. covers urlParse lower raw u" unfolding covers_def e by blast
  next
    assume "\<exists>raw \<in> set raws. covers urlParse lower raw u"
    then obtain raw a where ra: "raw \<in> set raws" "parseEntry urlParse lower raw = Inr a" "entryAllows lower u a"
      unfolding covers_def e by blast
    with bwd have "a \<in> set al" by force
    with ra(3) show "list_ex (entryAllows lower u) al" by (auto simp: list_ex_iff)
  qed
  then show ?thesis by (auto simp: Allowlist_Allows_def split: option.splits)
qed

text \<open>When the callbacks of a configuration are accepted, every queue's target is on the operator's
  allowlist: the URL parses with a host, and some entry has its host and scheme and, as text, a prefix
  of its path (dot segments are not resolved, see \<open>allowlist_accepts_dot_segments\<close>); and the secret it
  names is an environment variable that is set and not empty.\<close>

theorem accepted_callbacks_on_allowlist:
  assumes "ValidateCallbacks urlParse lower getenv allowlist queues = None" "map_of queues name = Some (Some q)"
    "QCallback q = Some cb" "URL cb = Some target"
  shows "(\<exists>u. urlParse target = Some u \<and> Host u \<noteq> [] \<and> (\<exists>raw \<in> set allowlist. covers urlParse lower raw u))
    \<and> (\<forall>a ref. CAuth cb = Some a \<and> SecretRef a = Some ref \<longrightarrow>
         (\<exists>var v. ref = ''env:'' @ var \<and> var \<noteq> [] \<and> getenv var = Some v \<and> v \<noteq> []))"
proof -
  obtain al where al: "ParseAllowlist urlParse lower allowlist = Inr al"
    using assms(1) by (auto simp: ValidateCallbacks_def split: sum.splits)
  have "name \<in> fst ` set queues" using assms(2) by (metis domI dom_map_of_conv_image_fst)
  then have "validateCallbackOf urlParse lower getenv al name (Some q) = None"
    using assms(1,2) al by (auto simp: ValidateCallbacks_def firstFailure_None)
  then have v: "Allowlist_Allows urlParse lower al target"
    "\<forall>ref. Option.bind (CAuth cb) SecretRef = Some ref \<longrightarrow> (\<exists>v. ResolveSecretRef getenv ref = Inr v)"
    using assms(3,4) by (auto simp: validateCallbackOf_def split: if_splits option.splits sum.splits)
  have "\<exists>var v. ref = ''env:'' @ var \<and> var \<noteq> [] \<and> getenv var = Some v \<and> v \<noteq> []"
    if "ResolveSecretRef getenv ref = Inr w" for ref w
    using that HasPrefix_prefix [of ref "''env:''"]
    by (auto simp: ResolveSecretRef_def secretRefEnvScheme_def CutPrefix_def prefix_def
        split: option.splits if_splits)
  then show ?thesis using v Allows_covers [OF al] by fastforce
qed

definition sample_parse :: url_parse where
  "sample_parse s =
     (if s = ''https://h/hooks'' then Some \<lparr>Scheme = ''https'', Host = ''h'', UPath = ''/hooks''\<rparr>
      else if s = ''https://h/hooks/x'' then Some \<lparr>Scheme = ''https'', Host = ''h'', UPath = ''/hooks/x''\<rparr>
      else if s = ''https://h/hooks/../admin'' then Some \<lparr>Scheme = ''https'', Host = ''h'', UPath = ''/hooks/../admin''\<rparr>
      else None)"

definition sample_callback :: "string \<Rightarrow> callback_config" where
  "sample_callback target = \<lparr>Protocol = None, URL = Some target, CTimeout = None,
     CAuth = Some \<lparr>AType = None, SecretRef = Some ''env:TOK''\<rparr>, ResponseMapping = None\<rparr>"

definition sample_queues :: "string \<Rightarrow> queue_config option gomap" where
  "sample_queues target = [(''q'', Some (empty_queue_config\<lparr>QCallback := Some (sample_callback target)\<rparr>))]"

lemma sample_accepted:
  "ValidateCallbacks sample_parse (\<lambda>s. s) (\<lambda>v. if v = ''TOK'' then Some ''s3'' else None) [''https://h/hooks'']
     (sample_queues ''https://h/hooks/x'') = None"
  by code_simp

theorem accepted_callbacks_on_allowlist_witness:
  "\<exists>u. sample_parse ''https://h/hooks/x'' = Some u \<and> covers sample_parse (\<lambda>s. s) ''https://h/hooks'' u"
proof -
  have q: "map_of (sample_queues ''https://h/hooks/x'') ''q'' =
      Some (Some (empty_queue_config\<lparr>QCallback := Some (sample_callback ''https://h/hooks/x'')\<rparr>))"
    by (simp add: sample_queues_def)
  show ?thesis
    using accepted_callbacks_on_allowlist [OF sample_accepted q, of "sample_callback ''https://h/hooks/x''"
        "''https://h/hooks/x''"]
    by (auto simp: sample_callback_def)
qed

text \<open>The path is compared as written: a target that climbs out of the listed subtree is accepted.\<close>

lemma allowlist_accepts_dot_segments:
  "ValidateCallbacks sample_parse (\<lambda>s. s) (\<lambda>v. if v = ''TOK'' then Some ''s3'' else None) [''https://h/hooks'']
     (sample_queues ''https://h/hooks/../admin'') = None"
  by code_simp

end
