(* ===== verification/Ulid.thy ===== *)
theory Ulid
  imports Rdq_Prelude "HOL-Library.Word"
begin

text \<open>
  Task ids (\<open>core/envelope/codec.go\<close>): a 128-bit identifier, 48 bits of millisecond time and 80
  random bits, with its 26-character Crockford base 32 text. The random bytes are a
  parameter, \<open>None\<close> when the source of randomness fails.
\<close>

unbundle bit_operations_syntax

type_synonym byte = "8 word"
type_synonym ulid = "byte list"

definition ulidEnc :: string where "ulidEnc = ''0123456789ABCDEFGHJKMNPQRSTVWXYZ''"

text \<open>The decoding table: the position of a character in the alphabet, \<open>0xFF\<close> elsewhere.\<close>

definition ulidDec :: "char \<Rightarrow> byte" where
  "ulidDec c = (if c \<in> set ulidEnc then of_nat (length (takeWhile (\<lambda>e. e \<noteq> c) ulidEnc)) else 0xFF)"

datatype ulid_error = UlidLength nat | UlidCharacter char | UlidOverflow

definition ulid_unpack :: "(nat \<Rightarrow> byte) \<Rightarrow> ulid" where
  "ulid_unpack d =
        [
         push_bit 5 (d 0) OR d 1,
         push_bit 3 (d 2) OR drop_bit 2 (d 3),
         push_bit 6 (d 3) OR push_bit 1 (d 4) OR drop_bit 4 (d 5),
         push_bit 4 (d 5) OR drop_bit 1 (d 6),
         push_bit 7 (d 6) OR push_bit 2 (d 7) OR drop_bit 3 (d 8),
         push_bit 5 (d 8) OR d 9,
         push_bit 3 (d 10) OR drop_bit 2 (d 11),
         push_bit 6 (d 11) OR push_bit 1 (d 12) OR drop_bit 4 (d 13),
         push_bit 4 (d 13) OR drop_bit 1 (d 14),
         push_bit 7 (d 14) OR push_bit 2 (d 15) OR drop_bit 3 (d 16),
         push_bit 5 (d 16) OR d 17,
         push_bit 3 (d 18) OR drop_bit 2 (d 19),
         push_bit 6 (d 19) OR push_bit 1 (d 20) OR drop_bit 4 (d 21),
         push_bit 4 (d 21) OR drop_bit 1 (d 22),
         push_bit 7 (d 22) OR push_bit 2 (d 23) OR drop_bit 3 (d 24),
         push_bit 5 (d 24) OR d 25]"

definition ParseULID :: "string \<Rightarrow> ulid_error + ulid" where
  "ParseULID s =
     (if length s \<noteq> 26 then Inl (UlidLength (length s))
      else case find (\<lambda>c. ulidDec c = 0xFF) s of
          Some c \<Rightarrow> Inl (UlidCharacter c)
        | None \<Rightarrow>
            if ulidDec (s ! 0) > 7 then Inl UlidOverflow
            else Inr (ulid_unpack (\<lambda>i. ulidDec (s ! i))))"

definition ulid_pack :: "(nat \<Rightarrow> byte) \<Rightarrow> byte list" where
  "ulid_pack b =
        [
         drop_bit 5 (b 0 AND 224),
         b 0 AND 31,
         drop_bit 3 (b 1 AND 248),
         push_bit 2 (b 1 AND 7) OR drop_bit 6 (b 2 AND 192),
         drop_bit 1 (b 2 AND 62),
         push_bit 4 (b 2 AND 1) OR drop_bit 4 (b 3 AND 240),
         push_bit 1 (b 3 AND 15) OR drop_bit 7 (b 4 AND 128),
         drop_bit 2 (b 4 AND 124),
         push_bit 3 (b 4 AND 3) OR drop_bit 5 (b 5 AND 224),
         b 5 AND 31,
         drop_bit 3 (b 6 AND 248),
         push_bit 2 (b 6 AND 7) OR drop_bit 6 (b 7 AND 192),
         drop_bit 1 (b 7 AND 62),
         push_bit 4 (b 7 AND 1) OR drop_bit 4 (b 8 AND 240),
         push_bit 1 (b 8 AND 15) OR drop_bit 7 (b 9 AND 128),
         drop_bit 2 (b 9 AND 124),
         push_bit 3 (b 9 AND 3) OR drop_bit 5 (b 10 AND 224),
         b 10 AND 31,
         drop_bit 3 (b 11 AND 248),
         push_bit 2 (b 11 AND 7) OR drop_bit 6 (b 12 AND 192),
         drop_bit 1 (b 12 AND 62),
         push_bit 4 (b 12 AND 1) OR drop_bit 4 (b 13 AND 240),
         push_bit 1 (b 13 AND 15) OR drop_bit 7 (b 14 AND 128),
         drop_bit 2 (b 14 AND 124),
         push_bit 3 (b 14 AND 3) OR drop_bit 5 (b 15 AND 224),
         b 15 AND 31]"

definition ULID_String :: "ulid \<Rightarrow> string" where
  "ULID_String u = map (\<lambda>w. ulidEnc ! unat w) (ulid_pack (\<lambda>i. u ! i))"

definition NewULIDAt :: "time \<Rightarrow> byte list option \<Rightarrow> ulid option" where
  "NewULIDAt t rnd = (let ms = word_of_int (t div 1000000) :: 64 word in
     map_option (\<lambda>r. [ucast (drop_bit 40 ms), ucast (drop_bit 32 ms), ucast (drop_bit 24 ms),
                      ucast (drop_bit 16 ms), ucast (drop_bit 8 ms), ucast ms] @ r) rnd)"

definition ULID_Time :: "ulid \<Rightarrow> time" where
  "ULID_Time u = (let b = (\<lambda>i. ucast (u ! i) :: 64 word) in
     sint (push_bit 40 (b 0) OR push_bit 32 (b 1) OR push_bit 24 (b 2) OR
           push_bit 16 (b 3) OR push_bit 8 (b 4) OR b 5) * 1000000)"

section \<open>Digits\<close>

lemma ulidEnc_length [simp]: "length ulidEnc = 32"
  by (simp add: ulidEnc_def)

lemma ulid_digits: "\<forall>k < 32. ulidDec (ulidEnc ! k) = of_nat k"
  by code_simp

lemma ulidDec_Enc: "unat w < 32 \<Longrightarrow> ulidDec (ulidEnc ! unat w) = w"
  using ulid_digits by simp

lemma ulidDec_cases:
  assumes "ulidDec c \<noteq> 0xFF"
  shows "unat (ulidDec c) < 32 \<and> ulidEnc ! unat (ulidDec c) = c"
proof -
  from assms have "c \<in> set ulidEnc" by (auto simp: ulidDec_def split: if_splits)
  then obtain k where k: "k < 32" "c = ulidEnc ! k"
    by (auto simp: in_set_conv_nth)
  with ulid_digits have "ulidDec c = of_nat k" by simp
  with k show ?thesis by (simp add: unat_of_nat)
qed

lemma byte_eqI:
  fixes a b :: byte
  assumes "bit a 0 = bit b 0" "bit a 1 = bit b 1" "bit a 2 = bit b 2" "bit a 3 = bit b 3"
    "bit a 4 = bit b 4" "bit a 5 = bit b 5" "bit a 6 = bit b 6" "bit a 7 = bit b 7"
  shows "a = b"
proof (rule bit_eqI)
  fix n
  assume "possible_bit TYPE(byte) n"
  then have "n < 8" by simp
  then have "n = 0 \<or> n = 1 \<or> n = 2 \<or> n = 3 \<or> n = 4 \<or> n = 5 \<or> n = 6 \<or> n = 7" by arith
  with assms show "bit a n = bit b n" by blast
qed

lemma low_bits: "unat (w :: byte) < 2 ^ k \<longleftrightarrow> (\<forall>n \<ge> k. \<not> bit w n)"
proof -
  have "unat w < 2 ^ k \<longleftrightarrow> take_bit k (unat w) = unat w"
    by (simp add: take_bit_nat_eq_self_iff)
  also have "\<dots> \<longleftrightarrow> take_bit k w = w"
    by (simp add: word_unat_eq_iff unsigned_take_bit_eq)
  also have "\<dots> \<longleftrightarrow> (\<forall>n \<ge> k. \<not> bit w n)"
    by (metis bit_eqI bit_take_bit_iff not_le)
  finally show ?thesis .
qed

lemma bit_byte: "bit (w :: byte) n \<Longrightarrow> n < 8"
  using bit_imp_le_length [of w n] by simp

lemma bit_byte_over: "8 \<le> n \<Longrightarrow> \<not> bit (w :: byte) n"
  using bit_byte [of w n] by linarith

lemma digit_bits: "unat (w :: byte) < 32 \<longleftrightarrow> \<not> bit w 5 \<and> \<not> bit w 6 \<and> \<not> bit w 7"
proof -
  have "n = 5 \<or> n = 6 \<or> n = 7" if "5 \<le> n" "bit w n" for n
    using bit_byte [OF that(2)] that(1) by arith
  then show ?thesis using low_bits [of w 5] by auto
qed

lemma octal_bits: "unat (w :: byte) < 8 \<longleftrightarrow> \<not> bit w 3 \<and> \<not> bit w 4 \<and> \<not> bit w 5 \<and> \<not> bit w 6 \<and> \<not> bit w 7"
proof -
  have "n = 3 \<or> n = 4 \<or> n = 5 \<or> n = 6 \<or> n = 7" if "3 \<le> n" "bit w n" for n
    using bit_byte [OF that(2)] that(1) by arith
  then show ?thesis using low_bits [of w 3] by auto
qed

lemmas byte_bits = bit_push_bit_iff bit_drop_bit_eq bit_and_iff bit_or_iff o_apply

lemma pack_digit: "w \<in> set (ulid_pack b) \<Longrightarrow> unat w < 32"
  unfolding digit_bits ulid_pack_def by (auto simp: byte_bits)

text \<open>The eight bytes of text digits of five bytes, put back together.\<close>

lemma join_digits:
  fixes a b c d e :: byte
  shows "push_bit 5 (drop_bit 5 (a AND 224)) OR (a AND 31) = a"
    "push_bit 3 (drop_bit 3 (a AND 248)) OR drop_bit 2 (push_bit 2 (a AND 7) OR drop_bit 6 (b AND 192)) = a"
    "push_bit 6 (push_bit 2 (a AND 7) OR drop_bit 6 (b AND 192)) OR push_bit 1 (drop_bit 1 (b AND 62)) OR
       drop_bit 4 (push_bit 4 (b AND 1) OR drop_bit 4 (c AND 240)) = b"
    "push_bit 4 (push_bit 4 (b AND 1) OR drop_bit 4 (c AND 240)) OR
       drop_bit 1 (push_bit 1 (c AND 15) OR drop_bit 7 (d AND 128)) = c"
    "push_bit 7 (push_bit 1 (c AND 15) OR drop_bit 7 (d AND 128)) OR push_bit 2 (drop_bit 2 (d AND 124)) OR
       drop_bit 3 (push_bit 3 (d AND 3) OR drop_bit 5 (e AND 224)) = d"
    "push_bit 5 (push_bit 3 (d AND 3) OR drop_bit 5 (e AND 224)) OR (e AND 31) = e"
  by (rule byte_eqI; simp only: byte_bits; (simp; fail)?; (simp add: numeral_2_eq_2 numeral_3_eq_3; fail)?)+

lemma pack_length [simp]: "length (ulid_pack b) = 26"
  by (simp add: ulid_pack_def)

lemma unpack_length [simp]: "length (ulid_unpack d) = 16"
  by (simp add: ulid_unpack_def)

text \<open>The elements of a list of 26.\<close>

definition list26 :: "(nat \<Rightarrow> 'a) \<Rightarrow> 'a list" where
  "list26 p = [p 0, p 1, p 2, p 3, p 4, p 5, p 6, p 7, p 8, p 9, p 10, p 11, p 12, 
     p 13, p 14, p 15, p 16, p 17, p 18, p 19, p 20, p 21, p 22, p 23, p 24, p 25]"

lemma list26_length [simp]: "length (list26 p) = 26"
  by (simp add: list26_def)

lemma list26_nth: "i < 26 \<Longrightarrow> list26 p ! i = p i"
proof -
  have "[0..<26] = list26 (\<lambda>i. i)" by code_simp
  then have "list26 p = map p [0..<26]" by (simp add: list26_def)
  then show "i < 26 \<Longrightarrow> list26 p ! i = p i" by simp
qed

lemma unpack_pack:
  "ulid_unpack (\<lambda>i. ulid_pack b ! i) =
     [b 0, b 1, b 2, b 3, b 4, b 5, b 6, b 7, b 8, b 9, b 10, b 11, b 12, b 13, b 14, b 15]"
proof -
  define p where "p i = ulid_pack b ! i" for i
  have "list26 p = ulid_pack b"
    by (rule nth_equalityI) (simp_all add: list26_nth p_def)
  note eq = this [unfolded ulid_pack_def list26_def list.inject]
  show ?thesis
    unfolding p_def [symmetric] ulid_unpack_def
    by (insert eq, elim conjE) (simp (no_asm_simp) only: join_digits)
qed

text \<open>The digits of five bytes put together from eight digits.\<close>

lemma split_digits:
  fixes p q r s t u v w :: byte
  assumes "unat p < 32" "unat q < 32" "unat r < 32" "unat s < 32" "unat t < 32" "unat u < 32"
    "unat v < 32" "unat w < 32"
  shows "drop_bit 3 ((push_bit 3 p OR drop_bit 2 q) AND 248) = p"
    "push_bit 2 ((push_bit 3 p OR drop_bit 2 q) AND 7) OR
       drop_bit 6 ((push_bit 6 q OR push_bit 1 r OR drop_bit 4 s) AND 192) = q"
    "drop_bit 1 ((push_bit 6 q OR push_bit 1 r OR drop_bit 4 s) AND 62) = r"
    "push_bit 4 ((push_bit 6 q OR push_bit 1 r OR drop_bit 4 s) AND 1) OR
       drop_bit 4 ((push_bit 4 s OR drop_bit 1 t) AND 240) = s"
    "push_bit 1 ((push_bit 4 s OR drop_bit 1 t) AND 15) OR
       drop_bit 7 ((push_bit 7 t OR push_bit 2 u OR drop_bit 3 v) AND 128) = t"
    "drop_bit 2 ((push_bit 7 t OR push_bit 2 u OR drop_bit 3 v) AND 124) = u"
    "push_bit 3 ((push_bit 7 t OR push_bit 2 u OR drop_bit 3 v) AND 3) OR
       drop_bit 5 ((push_bit 5 v OR w) AND 224) = v"
    "(push_bit 5 v OR w) AND 31 = w"
proof -
  note low = assms [unfolded digit_bits] bit_byte_over
  show "drop_bit 3 ((push_bit 3 p OR drop_bit 2 q) AND 248) = p"
    "push_bit 2 ((push_bit 3 p OR drop_bit 2 q) AND 7) OR
       drop_bit 6 ((push_bit 6 q OR push_bit 1 r OR drop_bit 4 s) AND 192) = q"
    "drop_bit 1 ((push_bit 6 q OR push_bit 1 r OR drop_bit 4 s) AND 62) = r"
    "push_bit 4 ((push_bit 6 q OR push_bit 1 r OR drop_bit 4 s) AND 1) OR
       drop_bit 4 ((push_bit 4 s OR drop_bit 1 t) AND 240) = s"
    "push_bit 1 ((push_bit 4 s OR drop_bit 1 t) AND 15) OR
       drop_bit 7 ((push_bit 7 t OR push_bit 2 u OR drop_bit 3 v) AND 128) = t"
    "drop_bit 2 ((push_bit 7 t OR push_bit 2 u OR drop_bit 3 v) AND 124) = u"
    "push_bit 3 ((push_bit 7 t OR push_bit 2 u OR drop_bit 3 v) AND 3) OR
       drop_bit 5 ((push_bit 5 v OR w) AND 224) = v"
    "(push_bit 5 v OR w) AND 31 = w"
  by (rule byte_eqI; simp only: byte_bits; (simp add: low; fail)?;
      (simp add: low numeral_2_eq_2 numeral_3_eq_3; fail)?)+
qed

lemma top_digit:
  fixes p q :: byte
  assumes "unat p < 8" "unat q < 32"
  shows "drop_bit 5 ((push_bit 5 p OR q) AND 224) = p"
  by (rule byte_eqI; simp only: byte_bits; (simp add: assms [unfolded digit_bits octal_bits] bit_byte_over; fail)?)

lemma pack_unpack:
  assumes "\<And>i. i < 26 \<Longrightarrow> unat (d i) < 32" "unat (d 0) < 8"
  shows "ulid_pack (\<lambda>i. ulid_unpack d ! i) = list26 d"
proof -
  define b where "b i = ulid_unpack d ! i" for i
  have "[b 0, b 1, b 2, b 3, b 4, b 5, b 6, b 7, b 8, b 9, b 10, b 11, b 12, b 13, b 14, b 15] = ulid_unpack d"
    unfolding b_def ulid_unpack_def by (simp del: push_bit_Suc drop_bit_Suc)
  note eq = this [unfolded ulid_unpack_def list.inject]
  have d0: "unat (d 0) < 32" using assms(2) by linarith
  have dd: "unat (d 1) < 32" "unat (d 2) < 32" "unat (d 3) < 32" "unat (d 4) < 32" "unat (d 5) < 32" 
    "unat (d 6) < 32" "unat (d 7) < 32" "unat (d 8) < 32" "unat (d 9) < 32" "unat (d 10) < 32" 
    "unat (d 11) < 32" "unat (d 12) < 32" "unat (d 13) < 32" "unat (d 14) < 32" "unat (d 15) < 32" 
    "unat (d 16) < 32" "unat (d 17) < 32" "unat (d 18) < 32" "unat (d 19) < 32" "unat (d 20) < 32" 
    "unat (d 21) < 32" "unat (d 22) < 32" "unat (d 23) < 32" "unat (d 24) < 32" "unat (d 25) < 32"
    by (simp_all add: assms)
  note groups = split_digits [OF dd(2) dd(3) dd(4) dd(5) dd(6) dd(7) dd(8) dd(9)]
      split_digits [OF dd(10) dd(11) dd(12) dd(13) dd(14) dd(15) dd(16) dd(17)]
      split_digits [OF dd(18) dd(19) dd(20) dd(21) dd(22) dd(23) dd(24) dd(25)]
      top_digit [OF assms(2) dd(1)] split_digits(8) [OF d0 d0 d0 d0 d0 d0 d0 dd(1)]
  show ?thesis
    unfolding b_def [symmetric] ulid_pack_def list26_def
    by (insert eq, elim conjE) (simp (no_asm_simp) only: groups)
qed

section \<open>Round trips\<close>

lemma ParseULID_Inr:
  "ParseULID s = Inr u \<longleftrightarrow>
     length s = 26 \<and> (\<forall>c \<in> set s. ulidDec c \<noteq> 0xFF) \<and> unat (ulidDec (s ! 0)) < 8 \<and>
     u = ulid_unpack (\<lambda>i. ulidDec (s ! i))"
proof -
  have seven: "\<not> (7 :: byte) < w \<longleftrightarrow> unat w < 8" for w :: byte
    by (simp add: word_less_nat_alt) linarith
  show ?thesis
    unfolding ParseULID_def
    by (auto simp: find_None_iff find_Some_iff seven [symmetric] split: option.splits if_splits)
qed

lemma unpack_cong:
  assumes "\<And>i. i < 26 \<Longrightarrow> d i = e i"
  shows "ulid_unpack d = ulid_unpack e"
  by (simp only: ulid_unpack_def assms)

lemma ParseULID_String:
  assumes "length u = 16"
  shows "ParseULID (ULID_String u) = Inr u"
proof -
  let ?p = "ulid_pack (\<lambda>i. u ! i)"
  have dec: "ulidDec (ULID_String u ! i) = ?p ! i" if "i < 26" for i
    using that pack_digit [OF nth_mem, of i "\<lambda>i. u ! i"]
    by (simp add: ULID_String_def ulidDec_Enc)
  have "?p ! 0 = drop_bit 5 (u ! 0 AND 224)" by (simp add: ulid_pack_def)
  then have top: "unat (?p ! 0) < 8"
    by (simp only: octal_bits byte_bits) (simp add: bit_byte_over)
  have "[u ! 0, u ! 1, u ! 2, u ! 3, u ! 4, u ! 5, u ! 6, u ! 7, u ! 8, u ! 9, u ! 10, u ! 11, u ! 12, u ! 13,
      u ! 14, u ! 15] = map (\<lambda>i. u ! i) [0, 1, 2, 3, 4, 5, 6, 7, 8, 9, 10, 11, 12, 13, 14, 15]"
    by simp
  also have "[0, 1, 2, 3, 4, 5, 6, 7, 8, 9, 10, 11, 12, 13, 14, 15] = [0..<16]" by code_simp
  finally have bytes: "ulid_unpack (\<lambda>i. ?p ! i) = u"
    using assms map_nth [of u] by (simp only: unpack_pack)
  have "ulidDec c \<noteq> 0xFF" if "c \<in> set (ULID_String u)" for c
  proof -
    from that obtain i where "i < 26" "c = ULID_String u ! i"
      by (auto simp: in_set_conv_nth ULID_String_def)
    moreover from this have "unat (?p ! i) < 32" using pack_digit [OF nth_mem] by simp
    ultimately show ?thesis using dec [of i] by auto
  qed
  moreover have "ulid_unpack (\<lambda>i. ulidDec (ULID_String u ! i)) = u"
    using unpack_cong [OF dec] bytes by simp
  moreover have "length (ULID_String u) = 26" by (simp add: ULID_String_def)
  ultimately show ?thesis
    using top dec [of 0] by (simp add: ParseULID_Inr)
qed

lemma ULID_String_Parse:
  assumes "ParseULID s = Inr u"
  shows "ULID_String u = s \<and> length u = 16"
proof -
  have s: "length s = 26" "\<forall>c \<in> set s. ulidDec c \<noteq> 0xFF" "unat (ulidDec (s ! 0)) < 8"
    and u: "u = ulid_unpack (\<lambda>i. ulidDec (s ! i))"
    using assms by (simp_all add: ParseULID_Inr)
  have d: "unat (ulidDec (s ! i)) < 32 \<and> ulidEnc ! unat (ulidDec (s ! i)) = s ! i" if "i < 26" for i
    using that s(1,2) ulidDec_cases nth_mem by metis
  have "ulid_pack (\<lambda>i. u ! i) = list26 (\<lambda>i. ulidDec (s ! i))"
    unfolding u by (rule pack_unpack) (use d s(3) in auto)
  then have "ULID_String u = map (\<lambda>w. ulidEnc ! unat w) (list26 (\<lambda>i. ulidDec (s ! i)))"
    by (simp add: ULID_String_def)
  also have "\<dots> = s"
    by (rule nth_equalityI) (simp_all add: s(1) list26_nth d)
  finally show ?thesis by (simp add: u)
qed

lemma bit_byte_at:
  fixes ms :: "64 word"
  assumes "k \<le> 56"
  shows "bit (push_bit k (ucast (ucast (drop_bit k ms) :: byte) :: 64 word)) n \<longleftrightarrow> k \<le> n \<and> n < k + 8 \<and> bit ms n"
  using assms by (auto simp: bit_push_bit_iff bit_ucast_iff bit_drop_bit_eq dest: bit_imp_le_length)

lemma join_bytes:
  fixes ms :: "64 word"
  shows "push_bit 40 (ucast (ucast (drop_bit 40 ms) :: byte)) OR push_bit 32 (ucast (ucast (drop_bit 32 ms) :: byte)) OR
    push_bit 24 (ucast (ucast (drop_bit 24 ms) :: byte)) OR push_bit 16 (ucast (ucast (drop_bit 16 ms) :: byte)) OR
    push_bit 8 (ucast (ucast (drop_bit 8 ms) :: byte)) OR push_bit 0 (ucast (ucast (drop_bit 0 ms) :: byte)) = take_bit 48 ms"
  by (rule bit_eqI) (auto simp: bit_or_iff bit_byte_at bit_take_bit_iff simp del: push_bit_0_id drop_bit_0)

lemma ULID_Time_New:
  assumes "0 \<le> t" "t < 2 ^ 48 * 1000000" "NewULIDAt t rnd = Some u"
  shows "ULID_Time u = t div 1000000 * 1000000"
proof -
  let ?n = "t div 1000000"
  let ?ms = "word_of_int ?n :: 64 word"
  obtain r where u: "u = [ucast (drop_bit 40 ?ms), ucast (drop_bit 32 ?ms), ucast (drop_bit 24 ?ms),
      ucast (drop_bit 16 ?ms), ucast (drop_bit 8 ?ms), ucast ?ms] @ r"
    using assms(3) by (auto simp: NewULIDAt_def Let_def)
  have n: "0 \<le> ?n" "?n < 2 ^ 48" using assms(1,2) by linarith+
  have "ULID_Time u = sint (take_bit 48 ?ms) * 1000000"
    unfolding u ULID_Time_def Let_def join_bytes [symmetric] by simp
  also have "take_bit 48 ?ms = ?ms"
    using n take_bit_int_eq_self [of ?n 48] by (simp add: take_bit_of_int)
  also have "sint ?ms = ?n"
    using n by (simp add: sint_uint uint_word_of_int signed_take_bit_int_eq_self)
  finally show ?thesis .
qed

text \<open>C25: an id and its text determine each other: the text of any 128-bit id parses back to it,
  and the parser accepts only texts that are the canonical text of the id it returns. An id
  made at a time of the representable range keeps that time to the millisecond.\<close>

theorem ULID_roundtrip:
  "(\<forall>u. length u = 16 \<longrightarrow> ParseULID (ULID_String u) = Inr u) \<and>
   (\<forall>s u. ParseULID s = Inr u \<longrightarrow> ULID_String u = s \<and> length u = 16) \<and>
   (\<forall>t rnd u. 0 \<le> t \<and> t < 2 ^ 48 * 1000000 \<and> NewULIDAt t rnd = Some u \<longrightarrow>
      ULID_Time u = t div 1000000 * 1000000)"
  using ParseULID_String ULID_String_Parse ULID_Time_New by blast

theorem ULID_roundtrip_witness:
  "ParseULID (ULID_String (1 # 144 # replicate 14 7)) = Inr (1 # 144 # replicate 14 7) \<and>
   ULID_Time (the (NewULIDAt 1784800000123456789 (Some (replicate 10 7)))) = 1784800000123000000"
proof -
  let ?u = "the (NewULIDAt 1784800000123456789 (Some (replicate 10 7)))"
  have n: "NewULIDAt 1784800000123456789 (Some (replicate 10 7)) = Some ?u"
    by (simp add: NewULIDAt_def Let_def)
  have "ULID_Time ?u = 1784800000123456789 div 1000000 * 1000000"
    by (rule ULID_roundtrip [THEN conjunct2, THEN conjunct2, rule_format]) (use n in simp)
  then show ?thesis using ULID_roundtrip by simp
qed

end
