(* ===== verification/Submit.thy ===== *)
theory Submit
  imports Ulid Envelope
begin

text \<open>
  Building a task for submission (\<open>sdk-go/submit\<close>): the options, the validation and the choice
  of the id. The wall clock, the source of randomness and SHA-256 are parameters.
\<close>

definition reservedHeaderPrefix :: string where "reservedHeaderPrefix = ''rdq.''"
definition DefaultContentType :: string where "DefaultContentType = ''application/octet-stream''"

record submit_options =
  oHeaders :: "string gomap"
  oContentType :: string
  oHandlerVersion :: string
  oIdempotencyKey :: string
  oExplicitID :: string
  oNow :: "time option"

definition no_options :: submit_options where
  "no_options = \<lparr>oHeaders = [], oContentType = [], oHandlerVersion = [], oIdempotencyKey = [],
     oExplicitID = [], oNow = None\<rparr>"

type_synonym submit_option = "submit_options \<Rightarrow> submit_options"

definition WithHeaders :: "string gomap \<Rightarrow> submit_option" where
  "WithHeaders h opts = opts\<lparr>oHeaders := fold (\<lambda>(k, v) m. AList.update k v m) h (oHeaders opts)\<rparr>"

definition WithHeader :: "string \<Rightarrow> string \<Rightarrow> submit_option" where
  "WithHeader key v opts = opts\<lparr>oHeaders := AList.update key v (oHeaders opts)\<rparr>"

definition WithContentType :: "string \<Rightarrow> submit_option" where
  "WithContentType ct opts = opts\<lparr>oContentType := ct\<rparr>"

definition WithHandlerVersion :: "string \<Rightarrow> submit_option" where
  "WithHandlerVersion v opts = opts\<lparr>oHandlerVersion := v\<rparr>"

definition WithIdempotencyKey :: "string \<Rightarrow> submit_option" where
  "WithIdempotencyKey key opts = opts\<lparr>oIdempotencyKey := key\<rparr>"

definition WithID :: "string \<Rightarrow> submit_option" where
  "WithID tid opts = opts\<lparr>oExplicitID := tid\<rparr>"

definition WithClock :: "time \<Rightarrow> submit_option" where
  "WithClock t opts = opts\<lparr>oNow := Some t\<rparr>"

datatype submit_error =
    SubmitName name_error
  | HeaderKeyEmpty
  | HeaderReserved string
  | IDAndKey
  | InvalidID ulid_error
  | IDGeneration

text \<open>A header key the submission refuses; the first one in the map's iteration order is reported.\<close>

definition header_error :: "string \<Rightarrow> submit_error option" where
  "header_error k =
     (if k = [] then Some HeaderKeyEmpty
      else if length reservedHeaderPrefix \<le> length k \<and>
              take (length reservedHeaderPrefix) k = reservedHeaderPrefix then Some (HeaderReserved k)
      else None)"

fun checkHeaders :: "string gomap \<Rightarrow> submit_error option" where
  "checkHeaders [] = None"
| "checkHeaders ((k, v) # h) = (case header_error k of Some e \<Rightarrow> Some e | None \<Rightarrow> checkHeaders h)"

definition deriveID :: "(bytes \<Rightarrow> byte list) \<Rightarrow> string \<Rightarrow> string \<Rightarrow> ulid" where
  "deriveID sha256 queue key = take 16 (sha256 (queue @ [CHR 0x00] @ key))"

definition resolveID :: "(bytes \<Rightarrow> byte list) \<Rightarrow> byte list option \<Rightarrow> submit_options \<Rightarrow> string \<Rightarrow> time \<Rightarrow>
    submit_error + string" where
  "resolveID sha256 rnd opts queue ts =
     (if oExplicitID opts \<noteq> [] then
        (case ParseULID (oExplicitID opts) of Inl e \<Rightarrow> Inl (InvalidID e) | Inr _ \<Rightarrow> Inr (oExplicitID opts))
      else if oIdempotencyKey opts \<noteq> [] then Inr (ULID_String (deriveID sha256 queue (oIdempotencyKey opts)))
      else case NewULIDAt ts rnd of None \<Rightarrow> Inl IDGeneration | Some u \<Rightarrow> Inr (ULID_String u))"

text \<open>
  The whole of \<open>Submit\<close>, up to the order of the checks. The copies it makes of the payload and
  of the headers are values here.
\<close>

definition Submit :: "(bytes \<Rightarrow> byte list) \<Rightarrow> byte list option \<Rightarrow> time \<Rightarrow> string \<Rightarrow> string \<Rightarrow> bytes option \<Rightarrow>
    submit_option list \<Rightarrow> submit_error + envelope" where
  "Submit sha256 rnd wall queue handlerRef payload opts = (let o' = fold (\<lambda>opt acc. opt acc) opts no_options in
     case ValidateQueue queue of Some e \<Rightarrow> Inl (SubmitName e) | None \<Rightarrow>
     case ValidateHandlerRef handlerRef of Some e \<Rightarrow> Inl (SubmitName e) | None \<Rightarrow>
     case checkHeaders (oHeaders o') of Some e \<Rightarrow> Inl e | None \<Rightarrow>
     if oExplicitID o' \<noteq> [] \<and> oIdempotencyKey o' \<noteq> [] then Inl IDAndKey
     else let ts = or_else (oNow o') wall in
     case resolveID sha256 rnd o' queue ts of Inl e \<Rightarrow> Inl e | Inr tid \<Rightarrow>
       Inr \<lparr>EnvelopeVersion = WriteVersion, ID = tid, Queue = queue, HandlerRef = handlerRef,
            HandlerVersion = oHandlerVersion o', Payload = payload,
            PayloadContentType = (if oContentType o' = [] then DefaultContentType else oContentType o'),
            PayloadRef = None, Headers = oHeaders o', Status = StatusPending,
            AttemptCount = 0, RedriveCount = 0, NextAttemptAt = Some ts, LeaseExpiresAt = None,
            CreatedAt = ts, Attempts = [], Residual = []\<rparr>)"

section \<open>Lemmas\<close>

lemma checkHeaders_None: "checkHeaders h = None \<longleftrightarrow> (\<forall>k \<in> fst ` set h. header_error k = None)"
  by (induction h rule: checkHeaders.induct) (auto split: option.splits)

lemma header_error_None: "header_error k = None \<longleftrightarrow> k \<noteq> [] \<and> \<not> prefix reservedHeaderPrefix k"
proof -
  have "length reservedHeaderPrefix \<le> length k \<and> take (length reservedHeaderPrefix) k = reservedHeaderPrefix \<longleftrightarrow>
      prefix reservedHeaderPrefix k"
    by (metis append_eq_conv_conj prefix_def prefix_length_le)
  then show ?thesis by (simp add: header_error_def)
qed

lemma Submit_Inr:
  assumes "Submit sha256 rnd wall queue handlerRef payload opts = Inr e"
    and "o' = fold (\<lambda>opt acc. opt acc) opts no_options"
  shows "ValidateQueue queue = None \<and> ValidateHandlerRef handlerRef = None \<and> checkHeaders (oHeaders o') = None \<and>
    (oExplicitID o' = [] \<or> oIdempotencyKey o' = []) \<and>
    resolveID sha256 rnd o' queue (or_else (oNow o') wall) = Inr (ID e) \<and>
    e = \<lparr>EnvelopeVersion = WriteVersion, ID = ID e, Queue = queue, HandlerRef = handlerRef,
            HandlerVersion = oHandlerVersion o', Payload = payload,
            PayloadContentType = (if oContentType o' = [] then DefaultContentType else oContentType o'),
            PayloadRef = None, Headers = oHeaders o', Status = StatusPending,
            AttemptCount = 0, RedriveCount = 0, NextAttemptAt = Some (or_else (oNow o') wall), LeaseExpiresAt = None,
            CreatedAt = or_else (oNow o') wall, Attempts = [], Residual = []\<rparr>"
  using assms by (auto simp: Submit_def Let_def split: option.splits if_splits sum.splits)

lemma resolveID_ULID:
  assumes "resolveID sha256 rnd opts queue ts = Inr tid" "length (sha256 (queue @ [CHR 0x00] @ oIdempotencyKey opts)) = 32"
    "\<forall>r. rnd = Some r \<longrightarrow> length r = 10"
  shows "\<exists>u. ParseULID tid = Inr u"
  using assms
  by (auto simp: resolveID_def deriveID_def NewULIDAt_def Let_def ParseULID_String
      split: if_splits sum.splits option.splits)

end
