(* ===== verification/Submit_Props.thy ===== *)
theory Submit_Props
  imports Submit Memstore_Props
begin

text \<open>
  What a submission guarantees: the envelope it builds is one the store may enqueue, and repeating a
  submission under an idempotency key does not duplicate a task that is stored.
\<close>

definition applied :: "submit_option list \<Rightarrow> submit_options" where
  "applied opts = fold (\<lambda>opt acc. opt acc) opts no_options"

lemmas Submit_built = Submit_Inr [OF _ applied_def]

text \<open>SHA-256 gives 32 bytes and the source of randomness the ten bytes asked for.\<close>

definition entropy_ok :: "(bytes \<Rightarrow> byte list) \<Rightarrow> byte list option \<Rightarrow> bool" where
  "entropy_ok sha256 rnd \<longleftrightarrow> (\<forall>b. length (sha256 b) = 32) \<and> (\<forall>r. rnd = Some r \<longrightarrow> length r = 10)"

lemma Submit_task:
  assumes "Submit sha256 rnd wall queue handlerRef payload opts = Inr e" "entropy_ok sha256 rnd"
  shows "fresh_task e \<and> NextAttemptAt e = Some (CreatedAt e) \<and>
    ValidateQueue (Queue e) = None \<and> ValidateHandlerRef (HandlerRef e) = None \<and>
    Queue e = queue \<and> HandlerRef e = handlerRef \<and> Payload e = payload \<and> PayloadContentType e \<noteq> [] \<and>
    (\<exists>u. ParseULID (ID e) = Inr u) \<and>
    (\<forall>k \<in> fst ` set (Headers e). k \<noteq> [] \<and> \<not> prefix reservedHeaderPrefix k)"
proof -
  note b = Submit_built [OF assms(1)]
  have e: "e = \<lparr>EnvelopeVersion = WriteVersion, ID = ID e, Queue = queue, HandlerRef = handlerRef,
            HandlerVersion = oHandlerVersion (applied opts), Payload = payload,
            PayloadContentType = (if oContentType (applied opts) = [] then DefaultContentType else oContentType (applied opts)),
            PayloadRef = None, Headers = oHeaders (applied opts), Status = StatusPending,
            AttemptCount = 0, RedriveCount = 0, NextAttemptAt = Some (or_else (oNow (applied opts)) wall),
            LeaseExpiresAt = None,
            CreatedAt = or_else (oNow (applied opts)) wall, Attempts = [], Residual = []\<rparr>" (is "_ = ?e")
    using b by blast
  have tid: "\<exists>u. ParseULID (ID e) = Inr u"
    using b assms(2) resolveID_ULID by (auto simp: entropy_ok_def)
  have "fresh_task ?e" by (simp add: fresh_task_def)
  then have "fresh_task e" using e by simp
  moreover have "NextAttemptAt ?e = Some (CreatedAt ?e)" by simp
  then have "NextAttemptAt e = Some (CreatedAt e)" using e by simp
  moreover have "Queue e = queue" "HandlerRef e = handlerRef" "Payload e = payload"
      "Headers e = oHeaders (applied opts)" "PayloadContentType e \<noteq> []"
    by (subst e; simp add: DefaultContentType_def)+
  ultimately show ?thesis
    using b tid by (simp add: checkHeaders_None header_error_None)
qed

text \<open>C27: a submission that succeeds builds a new task: pending, due at its creation time, never
  attempted, for the queue, handler and payload given, under legal names, with a well-formed
  id and no header key that is empty or reserved for the system.\<close>

theorem Submit_builds_task:
  assumes "Submit sha256 rnd wall queue handlerRef payload opts = Inr e" "entropy_ok sha256 rnd"
  shows "fresh_task e \<and> NextAttemptAt e = Some (CreatedAt e) \<and>
    ValidateQueue (Queue e) = None \<and> ValidateHandlerRef (HandlerRef e) = None \<and>
    Queue e = queue \<and> HandlerRef e = handlerRef \<and> Payload e = payload \<and> PayloadContentType e \<noteq> [] \<and>
    (\<exists>u. ParseULID (ID e) = Inr u) \<and>
    (\<forall>k \<in> fst ` set (Headers e). k \<noteq> [] \<and> \<not> prefix reservedHeaderPrefix k)"
  using assms by (rule Submit_task)

theorem Submit_builds_task_witness:
  "\<exists>e. Submit (\<lambda>_. replicate 32 7) None 5 ''q'' ''h'' (Some ''x'') [WithIdempotencyKey ''k''] = Inr e \<and> fresh_task e"
proof -
  obtain e where e: "Submit (\<lambda>_. replicate 32 7) None 5 ''q'' ''h'' (Some ''x'') [WithIdempotencyKey ''k''] = Inr e"
    by (auto simp: Submit_def Let_def ValidateQueue_def ValidateHandlerRef_def validateName_def nameRE_match_def
        MaxNameLen_def name_char_def WithIdempotencyKey_def no_options_def resolveID_def less_eq_char_def)
  have "entropy_ok (\<lambda>_. replicate 32 7) None" by (simp add: entropy_ok_def)
  from Submit_builds_task [OF e this] e show ?thesis by blast
qed

lemma Submit_key_ID:
  assumes "Submit sha256 rnd wall queue handlerRef payload opts = Inr e" "oIdempotencyKey (applied opts) = key" "key \<noteq> []"
  shows "ID e = ULID_String (deriveID sha256 queue key) \<and> Queue e = queue"
proof -
  note b = Submit_built [OF assms(1)]
  then have "oExplicitID (applied opts) = []" using assms(2,3) by auto
  then have "ID e = ULID_String (deriveID sha256 queue key)"
    using b assms(2,3) by (auto simp: resolveID_def)
  moreover have "Queue e = queue" using b by (metis envelope.select_convs(3))
  ultimately show ?thesis by blast
qed

text \<open>C26: repeating a submission under the same idempotency key is safe while the task is stored. Take a task so
  built that has been accepted, any run of the store after it, and a second one built later for the
  same queue and key, from other randomness, with any payload and handler. If the run had no purge,
  enqueueing the second one succeeds and leaves the store exactly as it is. In a run with purges: if a task
  with that id is stored the enqueue changes nothing, and succeeds unless that task belongs to another
  queue; if the task was purged the second one is stored as a new task, and no other task changes.\<close>

theorem resubmission_is_idempotent:
  assumes "Submit sha256 rnd wall queue h p opts = Inr e" "Submit sha256 rnd' wall' queue h' p' opts' = Inr e'"
    "oIdempotencyKey (applied opts) = key" "oIdempotencyKey (applied opts') = key" "key \<noteq> []"
    "mem_run New evs0 s" "Enqueue s e = (None, s1)" "mem_run s1 evs s2"
  shows "((\<forall>ev \<in> set evs. \<not> removes ev) \<longrightarrow> Enqueue s2 e' = (None, s2)) \<and>
    (\<forall>r. lookup s2 (ID e) = Some r \<longrightarrow>
       Enqueue s2 e' = (if Queue (env r) = queue then None else Some ErrIDConflict, s2)) \<and>
    (lookup s2 (ID e) = None \<longrightarrow>
       (\<exists>s3. Enqueue s2 e' = (None, s3) \<and> map_option env (lookup s3 (ID e)) = Some e' \<and>
          (\<forall>k. k \<noteq> ID e \<longrightarrow> lookup s3 k = lookup s2 k)))"
proof -
  have same: "ID e' = ID e" "Queue e' = queue" "Queue e = queue"
    using Submit_key_ID [OF assms(1,3,5)] Submit_key_ID [OF assms(2,4,5)] by simp_all
  have fresh: "fresh_task e" using Submit_built [OF assms(1)]
    by (metis (no_types, lifting) envelope.select_convs fresh_task_def option.distinct(1))
  obtain r where r: "lookup s1 (ID e) = Some r" "Queue (env r) = queue"
    using assms(7) same(3)
    by (auto simp: Enqueue_def lookup_simps split: option.splits if_splits)
  have run1: "mem_run New (evs0 @ [EvEnqueue e]) s1"
    using mem_run_append [OF assms(6)] mem_run.run_cons [of "EvEnqueue e" s "[]"] mem_run.run_nil fresh assms(7)
    by simp
  have "Enqueue s2 e' = (None, s2)" if kept: "\<forall>ev \<in> set evs. \<not> removes ev"
  proof -
    obtain r' where "lookup s2 (ID e) = Some r'" "identity (env r') = identity (env r)"
      using history_kept [OF run1 r(1) assms(8) kept] by blast
    then show ?thesis using same r(2) by (auto simp: Enqueue_def identity_def)
  qed
  then show ?thesis using same by (auto simp: Enqueue_def)
qed

theorem resubmission_is_idempotent_witness:
  "\<exists>e e'. Submit (\<lambda>_. replicate 32 7) None 5 ''q'' ''h'' None [WithIdempotencyKey ''k''] = Inr e \<and>
     Submit (\<lambda>_. replicate 32 7) None 9 ''q'' ''g'' (Some ''x'') [WithIdempotencyKey ''k''] = Inr e' \<and>
     Enqueue (snd (Enqueue New e)) e' = (None, snd (Enqueue New e))"
proof -
  let ?o = "[WithIdempotencyKey ''k'']"
  note defs = Submit_def Let_def ValidateQueue_def ValidateHandlerRef_def validateName_def nameRE_match_def
    MaxNameLen_def name_char_def WithIdempotencyKey_def no_options_def resolveID_def less_eq_char_def
  obtain e where e: "Submit (\<lambda>_. replicate 32 7) None 5 ''q'' ''h'' None ?o = Inr e"
    by (auto simp: defs)
  obtain e' where e': "Submit (\<lambda>_. replicate 32 7) None 9 ''q'' ''g'' (Some ''x'') ?o = Inr e'"
    by (auto simp: defs)
  have key: "oIdempotencyKey (applied ?o) = ''k''"
    by (simp add: applied_def WithIdempotencyKey_def)
  have "Enqueue New e = (None, snd (Enqueue New e))"
    by (simp add: Enqueue_def New_def)
  from resubmission_is_idempotent [OF e e' key key _ mem_run.run_nil this mem_run.run_nil]
  show ?thesis using e e' by auto
qed

end
