(* ===== verification/Server_Http.thy ===== *)
theory Server_Http
  imports Server_Auth Server_Config Submit Spi Rdq_Log
begin

text \<open>
  The HTTP surface of the server (\<open>server/http\<close>): the problem contract, the handlers of the task,
  dead-letter, pause and configuration routes, the routing tree and the authorization
  boundary in front of it. A handler is a function of the request and the server's state.
  Decoded bodies, the clock and the randomness of a request are fields of the request;
  the texts of error values and the hash are a record of parameters.
\<close>

section \<open>Problems\<close>

type_synonym problem_code = string

definition CodeNotFound :: problem_code where "CodeNotFound = ''NOT_FOUND''"
definition CodeMethodNotAllowed :: problem_code where "CodeMethodNotAllowed = ''METHOD_NOT_ALLOWED''"
definition CodeUnauthenticated :: problem_code where "CodeUnauthenticated = ''UNAUTHENTICATED''"
definition CodeForbidden :: problem_code where "CodeForbidden = ''FORBIDDEN''"
definition CodeQueueNotFound :: problem_code where "CodeQueueNotFound = ''QUEUE_NOT_FOUND''"
definition CodeIDConflict :: problem_code where "CodeIDConflict = ''ID_CONFLICT''"
definition CodePayloadTooLarge :: problem_code where "CodePayloadTooLarge = ''PAYLOAD_TOO_LARGE''"
definition CodeInvalidTask :: problem_code where "CodeInvalidTask = ''INVALID_TASK''"
definition CodeStaleCursor :: problem_code where "CodeStaleCursor = ''STALE_CURSOR''"
definition CodeConflict :: problem_code where "CodeConflict = ''CONFLICT''"
definition CodeRateLimited :: problem_code where "CodeRateLimited = ''RATE_LIMITED''"
definition CodeStorageUnavailable :: problem_code where "CodeStorageUnavailable = ''STORAGE_UNAVAILABLE''"
definition CodeInternal :: problem_code where "CodeInternal = ''INTERNAL''"

lemmas code_defs = CodeNotFound_def CodeMethodNotAllowed_def CodeUnauthenticated_def CodeForbidden_def
  CodeQueueNotFound_def CodeIDConflict_def CodePayloadTooLarge_def CodeInvalidTask_def CodeStaleCursor_def
  CodeConflict_def CodeRateLimited_def CodeStorageUnavailable_def CodeInternal_def

record problem_def =
  pdStatus :: int
  pdTitle :: string

definition problemDefs :: "problem_def gomap" where
  "problemDefs =
     [(CodeNotFound, \<lparr>pdStatus = 404, pdTitle = ''Not Found''\<rparr>),
      (CodeMethodNotAllowed, \<lparr>pdStatus = 405, pdTitle = ''Method Not Allowed''\<rparr>),
      (CodeUnauthenticated, \<lparr>pdStatus = 401, pdTitle = ''Unauthenticated''\<rparr>),
      (CodeForbidden, \<lparr>pdStatus = 403, pdTitle = ''Forbidden''\<rparr>),
      (CodeQueueNotFound, \<lparr>pdStatus = 404, pdTitle = ''Queue Not Found''\<rparr>),
      (CodeIDConflict, \<lparr>pdStatus = 409, pdTitle = ''Task ID Conflict''\<rparr>),
      (CodePayloadTooLarge, \<lparr>pdStatus = 413, pdTitle = ''Payload Too Large''\<rparr>),
      (CodeInvalidTask, \<lparr>pdStatus = 422, pdTitle = ''Invalid Task''\<rparr>),
      (CodeStaleCursor, \<lparr>pdStatus = 409, pdTitle = ''Stale Cursor''\<rparr>),
      (CodeConflict, \<lparr>pdStatus = 409, pdTitle = ''Conflict''\<rparr>),
      (CodeRateLimited, \<lparr>pdStatus = 429, pdTitle = ''Rate Limited''\<rparr>),
      (CodeStorageUnavailable, \<lparr>pdStatus = 503, pdTitle = ''Storage Unavailable''\<rparr>),
      (CodeInternal, \<lparr>pdStatus = 500, pdTitle = ''Internal Server Error''\<rparr>)]"

record problem =
  PType :: string
  PTitle :: string
  PStatus :: int
  PDetail :: string
  PInstance :: string
  PCode :: problem_code
  retryAfter :: duration

type_synonym problem_option = "problem \<Rightarrow> problem"

definition WithDetail :: "string \<Rightarrow> problem_option" where
  "WithDetail d p = p\<lparr>PDetail := d\<rparr>"

definition WithRetryAfter :: "duration \<Rightarrow> problem_option" where
  "WithRetryAfter d p = p\<lparr>retryAfter := d\<rparr>"

definition problemTypeBase :: string where "problemTypeBase = ''https://rdq.dev/problems/''"

definition NewProblem :: "problem_code \<Rightarrow> string \<Rightarrow> problem_option list \<Rightarrow> problem" where
  "NewProblem code inst opts =
     (let (code', d) = (case map_of problemDefs code of
          None \<Rightarrow> (CodeInternal, the (map_of problemDefs CodeInternal))
        | Some d \<Rightarrow> (code, d))
      in fold (\<lambda>opt p. opt p) opts
           \<lparr>PType = problemTypeBase @ code', PTitle = pdTitle d, PStatus = pdStatus d, PDetail = [],
            PInstance = inst, PCode = code', retryAfter = 0\<rparr>)"

section \<open>Requests, responses and the server\<close>

datatype 'a decode = TooLarge | BadJSON string | Decoded_body 'a

record submit_request =
  rID :: string
  rHandlerRef :: string
  rPayload :: "bytes option"
  rContentType :: string
  rHeaders :: "string gomap"

record selector_request =
  rIDs :: "task_id list"
  rFilter :: "dlq_filter option"

record batch_item =
  Index :: nat
  IStatus :: int
  IEnvelope :: "envelope option"
  IError :: "problem option"

text \<open>
  A request below \<open>/v1\<close>. Its path is given by its segments, each percent-decoded on its own,
  which is what the routing of \<open>net/http\<close> matches; \<open>URL.Path\<close> is their decoded
  concatenation. \<open>DotSegments\<close> tells whether the path as sent has a segment \<open>.\<close> or \<open>..\<close>, which the router cleans away
  by a redirect. The bodies are what the JSON decoder gives at each of the types the
  handlers decode, or the decoder's error text (task bodies are also cut off at a limit); \<open>Now\<close> is the clock and \<open>Rnd\<close> the random bytes of the \<open>i\<close>-th id made.
\<close>

record request =
  Method :: string
  Segments :: "string list"
  DotSegments :: bool
  Authorization :: string
  Traceparent :: string
  Query :: "string gomap"
  TaskBody :: "submit_request decode"
  TasksBody :: "submit_request list decode"
  SelectorBody :: "string + selector_request"
  ConfigBody :: "string + queue_config"
  Now :: time
  Rnd :: "nat \<Rightarrow> byte list option"

definition URL_Path :: "request \<Rightarrow> string" where
  "URL_Path r = concat (map (\<lambda>s. CHR ''/'' # s) (Segments r))"

datatype response_body =
    NoBody
  | ProblemBody problem
  | TaskOut envelope
  | BatchOut "batch_item list"
  | DLQOut "envelope list" cursor
  | CountOut int
  | StatsOut int int int int
  | QueuesOut "(string \<times> bool) list"
  | ConfigOut string "queue_config option" bool

record response =
  RStatus :: int
  RHeaders :: "string gomap"
  RBody :: response_body

definition ActionRedrive :: string where "ActionRedrive = ''redrive''"
definition ActionPurge :: string where "ActionPurge = ''purge''"
definition ActionPause :: string where "ActionPause = ''pause''"
definition ActionResume :: string where "ActionResume = ''resume''"
definition ActionConfigWrite :: string where "ActionConfigWrite = ''config_write''"
definition AuditSuccess :: string where "AuditSuccess = ''success''"
definition AuditFailure :: string where "AuditFailure = ''failure''"

record audit_record =
  ATimestamp :: time
  APrincipal :: string
  AAction :: string
  AQueue :: string
  ASelector :: string
  ACount :: int
  AOutcome :: string
  AErrorMessage :: string

text \<open>The server: the backends with their states, and what the sink has been given.\<close>

record ('s, 'c) server =
  storage_of :: "'s storage option"
  store_of :: 's
  configStore :: "'c config_store option"
  cfg_of :: 'c
  authz :: "token_store option"
  maxPayloadBytes :: int
  pausedSet :: "string list"
  auditSink :: bool
  auditLog :: "audit_record list"

text \<open>Parameters: SHA-256, RFC 3339 parsing, URL parsing, and the text of each kind of error.\<close>

record http_lib =
  lib_sha256 :: "bytes \<Rightarrow> byte list"
  lib_time :: "string \<Rightarrow> time option"
  lib_url :: url_parser
  spiText :: "spi_error \<Rightarrow> string"
  submitText :: "submit_error \<Rightarrow> string"
  nameText :: "name_error \<Rightarrow> string"
  configText :: "config_error \<Rightarrow> string"
  storeText :: "store_error \<Rightarrow> string"

definition emit :: "audit_record \<Rightarrow> ('s, 'c) server \<Rightarrow> ('s, 'c) server" where
  "emit r s = (if auditSink s then s\<lparr>auditLog := auditLog s @ [r]\<rparr> else s)"

definition WriteProblem :: "problem \<Rightarrow> response" where
  "WriteProblem p =
     (let retry = (if retryAfter p \<le> 0 \<and> (PStatus p = 429 \<or> PStatus p = 503) then second else retryAfter p);
          secs = retry div second;
          secs' = (if retry mod second \<noteq> 0 \<or> secs = 0 then secs + 1 else secs)
      in \<lparr>RStatus = PStatus p,
          RHeaders = (if retry > 0 then [(''Retry-After'', FormatInt secs')] else []) @
            [(''Content-Type'', ''application/problem+json'')],
          RBody = ProblemBody p\<rparr>)"

definition Error :: "request \<Rightarrow> problem_code \<Rightarrow> problem_option list \<Rightarrow> response" where
  "Error r code opts = WriteProblem (NewProblem code (URL_Path r) opts)"

definition add_header :: "string \<Rightarrow> string \<Rightarrow> response \<Rightarrow> response" where
  "add_header k v resp = resp\<lparr>RHeaders := (k, v) # RHeaders resp\<rparr>"

definition writeJSON :: "int \<Rightarrow> response_body \<Rightarrow> response" where
  "writeJSON status b = \<lparr>RStatus = status, RHeaders = [(''Content-Type'', ''application/json'')], RBody = b\<rparr>"

definition noContent :: response where
  "noContent = \<lparr>RStatus = 204, RHeaders = [], RBody = NoBody\<rparr>"

text \<open>The answers that depend on the request alone: a missing backend and a body that does not decode.\<close>

definition noStorage :: "request \<Rightarrow> response" where
  "noStorage r = Error r CodeStorageUnavailable [WithDetail ''storage not configured'']"

definition noConfigStore :: "request \<Rightarrow> response" where
  "noConfigStore r = Error r CodeStorageUnavailable [WithDetail ''config store not configured'']"

definition bodyTooLarge :: "request \<Rightarrow> response" where
  "bodyTooLarge r = Error r CodePayloadTooLarge [WithDetail ''request body exceeds limit'']"

definition badJSON :: "request \<Rightarrow> string \<Rightarrow> response" where
  "badJSON r msg = Error r CodeInvalidTask [WithDetail (''invalid JSON: '' @ msg)]"

section \<open>The data plane\<close>

definition mergeTraceparent :: "string gomap \<Rightarrow> string \<Rightarrow> string gomap" where
  "mergeTraceparent headers tp =
     (if map_of headers HeaderTraceparent \<noteq> None then headers
      else if tp = [] then headers
      else if ParseTraceparent tp = None then headers
      else AList.update HeaderTraceparent tp headers)"

definition buildEnvelope :: "http_lib \<Rightarrow> int \<Rightarrow> time \<Rightarrow> byte list option \<Rightarrow> string \<Rightarrow> string \<Rightarrow> submit_request \<Rightarrow>
    string \<Rightarrow> problem + envelope" where
  "buildEnvelope lib maxPayload wall rnd inst queue req tp =
     (if rContentType req = [] then
        Inl (NewProblem CodeInvalidTask inst [WithDetail ''payload_content_type is required''])
      else if int (length (or_else (rPayload req) [])) > maxPayload then
        Inl (NewProblem CodePayloadTooLarge inst [])
      else
        let headers = mergeTraceparent (rHeaders req) tp;
            opts = (if rID req \<noteq> [] then [WithID (rID req)] else []) @ [WithContentType (rContentType req)] @
              (if headers \<noteq> [] then [WithHeaders headers] else [])
        in case Submit (lib_sha256 lib) rnd wall queue (rHandlerRef req) (rPayload req) opts of
             Inl e \<Rightarrow> Inl (NewProblem CodeInvalidTask inst [WithDetail (submitText lib e)])
           | Inr e \<Rightarrow> Inr e)"

definition enqueueAndGet :: "http_lib \<Rightarrow> 's storage \<Rightarrow> string \<Rightarrow> envelope \<Rightarrow> 's \<Rightarrow> (problem + envelope) \<times> 's" where
  "enqueueAndGet lib st inst e s = (case st_Enqueue st s e of
      (Some ErrIDConflict, s') \<Rightarrow>
        (Inl (NewProblem CodeIDConflict inst [WithDetail ''task id already exists in a different queue'']), s')
    | (Some err, s') \<Rightarrow> (Inl (NewProblem CodeInternal inst [WithDetail (''enqueue: '' @ spiText lib err)]), s')
    | (None, s') \<Rightarrow> (case st_Get st s' (ID e) of
          Inl err \<Rightarrow> (Inl (NewProblem CodeInternal inst [WithDetail (''get after enqueue: '' @ spiText lib err)]), s')
        | Inr stored \<Rightarrow> (Inr stored, s')))"

definition submitOne :: "http_lib \<Rightarrow> 's storage \<Rightarrow> int \<Rightarrow> request \<Rightarrow> nat \<Rightarrow> string \<Rightarrow> submit_request \<Rightarrow> 's \<Rightarrow>
    (problem + envelope) \<times> 's" where
  "submitOne lib st maxPayload r i queue req s =
     (case buildEnvelope lib maxPayload (Now r) (Rnd r i) (URL_Path r) queue req (Traceparent r) of
        Inl p \<Rightarrow> (Inl p, s)
      | Inr e \<Rightarrow> enqueueAndGet lib st (URL_Path r) e s)"

definition handleSubmitTask :: "http_lib \<Rightarrow> string \<Rightarrow> request \<Rightarrow> ('s, 'c) server \<Rightarrow> response \<times> ('s, 'c) server" where
  "handleSubmitTask lib queue r s = (case storage_of s of
      None \<Rightarrow> (noStorage r, s)
    | Some st \<Rightarrow> (case TaskBody r of
          TooLarge \<Rightarrow> (bodyTooLarge r, s)
        | BadJSON msg \<Rightarrow> (badJSON r msg, s)
        | Decoded_body req \<Rightarrow> (case submitOne lib st (maxPayloadBytes s) r 0 queue req (store_of s) of
              (Inl p, s') \<Rightarrow> (WriteProblem p, s\<lparr>store_of := s'\<rparr>)
            | (Inr stored, s') \<Rightarrow> (writeJSON 202 (TaskOut stored), s\<lparr>store_of := s'\<rparr>))))"

fun batchLoop :: "http_lib \<Rightarrow> 's storage \<Rightarrow> int \<Rightarrow> request \<Rightarrow> string \<Rightarrow> nat \<Rightarrow> submit_request list \<Rightarrow> 's \<Rightarrow>
    batch_item list \<times> 's" where
  "batchLoop lib st maxPayload r queue i [] s = ([], s)"
| "batchLoop lib st maxPayload r queue i (req # reqs) s =
     (let (res, s') = submitOne lib st maxPayload r i queue req s;
          item = (case res of
              Inl p \<Rightarrow> \<lparr>Index = i, IStatus = PStatus p, IEnvelope = None, IError = Some p\<rparr>
            | Inr stored \<Rightarrow> \<lparr>Index = i, IStatus = 202, IEnvelope = Some stored, IError = None\<rparr>);
          (items, s'') = batchLoop lib st maxPayload r queue (Suc i) reqs s'
      in (item # items, s''))"

definition handleBatchSubmit :: "http_lib \<Rightarrow> string \<Rightarrow> request \<Rightarrow> ('s, 'c) server \<Rightarrow> response \<times> ('s, 'c) server" where
  "handleBatchSubmit lib queue r s = (case storage_of s of
      None \<Rightarrow> (noStorage r, s)
    | Some st \<Rightarrow> (case TasksBody r of
          TooLarge \<Rightarrow> (bodyTooLarge r, s)
        | BadJSON msg \<Rightarrow> (badJSON r msg, s)
        | Decoded_body reqs \<Rightarrow>
            let (items, s') = batchLoop lib st (maxPayloadBytes s) r queue 0 reqs (store_of s)
            in (writeJSON 207 (BatchOut items), s\<lparr>store_of := s'\<rparr>)))"

definition handleGetTask :: "http_lib \<Rightarrow> task_id \<Rightarrow> request \<Rightarrow> ('s, 'c) server \<Rightarrow> response \<times> ('s, 'c) server" where
  "handleGetTask lib tid r s = (case storage_of s of
      None \<Rightarrow> (noStorage r, s)
    | Some st \<Rightarrow> (case st_Get st (store_of s) tid of
          Inl ErrNotFound \<Rightarrow> (Error r CodeNotFound [WithDetail (''no task with id '' @ tid)], s)
        | Inl e \<Rightarrow> (Error r CodeInternal [WithDetail (''storage: '' @ spiText lib e)], s)
        | Inr task \<Rightarrow> (writeJSON 200 (TaskOut task), s)))"

section \<open>The dead-letter plane\<close>

text \<open>\<open>url.Values.Get\<close>: the first value of a key, empty when absent.\<close>

definition query_Get :: "request \<Rightarrow> string \<Rightarrow> string" where
  "query_Get r k = (case map_of (Query r) k of None \<Rightarrow> [] | Some v \<Rightarrow> v)"

text \<open>An optional query parameter: absent, ill formed or a value.\<close>

definition optional_param :: "(string \<Rightarrow> 'a option) \<Rightarrow> string \<Rightarrow> unit + 'a option" where
  "optional_param parse v = (if v = [] then Inr None
     else case parse v of None \<Rightarrow> Inl () | Some x \<Rightarrow> Inr (Some x))"

definition parse_limit :: "string \<Rightarrow> int option" where
  "parse_limit v = (case ParseInt v of None \<Rightarrow> None | Some n \<Rightarrow> if n \<le> 0 then None else Some n)"

definition handleDLQList :: "http_lib \<Rightarrow> string \<Rightarrow> request \<Rightarrow> ('s, 'c) server \<Rightarrow> response \<times> ('s, 'c) server" where
  "handleDLQList lib queue r s = (case storage_of s of
      None \<Rightarrow> (noStorage r, s)
    | Some st \<Rightarrow>
       (case optional_param (lib_time lib) (query_Get r ''from'') of
          Inl _ \<Rightarrow> (Error r CodeInvalidTask [WithDetail ''from: must be RFC3339 time''], s)
        | Inr from \<Rightarrow>
       (case optional_param (lib_time lib) (query_Get r ''to'') of
          Inl _ \<Rightarrow> (Error r CodeInvalidTask [WithDetail ''to: must be RFC3339 time''], s)
        | Inr until \<Rightarrow>
       (case optional_param parse_limit (query_Get r ''limit'') of
          Inl _ \<Rightarrow> (Error r CodeInvalidTask [WithDetail ''limit: must be a positive integer''], s)
        | Inr limit \<Rightarrow>
       (case st_DLQList st (store_of s) queue
            \<lparr>FErrorType = query_Get r ''error_type'', FHandlerRef = query_Get r ''handler_ref'',
             DeadLetteredAfter = from, DeadLetteredBefore = until, IncludeAttempts = False\<rparr>
            \<lparr>Limit = or_else limit 0, After = query_Get r ''cursor''\<rparr> of
          Inl ErrStaleCursor \<Rightarrow> (Error r CodeStaleCursor [WithDetail ''pagination cursor is no longer valid''], s)
        | Inl e \<Rightarrow> (Error r CodeInternal [WithDetail (''storage: '' @ spiText lib e)], s)
        | Inr (tasks, next) \<Rightarrow> (writeJSON 200 (DLQOut tasks next), s))))))"

definition collectPageSize :: int where "collectPageSize = 500"

partial_function (option) collectByFilter :: "'s storage \<Rightarrow> 's \<Rightarrow> string \<Rightarrow> dlq_filter \<Rightarrow> cursor \<Rightarrow> task_id list \<Rightarrow>
    (spi_error + task_id list) option" where
  "collectByFilter st s queue f after ids =
     (case st_DLQList st s queue f \<lparr>Limit = collectPageSize, After = after\<rparr> of
        Inl e \<Rightarrow> Some (Inl e)
      | Inr (tasks, next) \<Rightarrow>
          (let ids' = ids @ map ID tasks in
           if next = [] then Some (Inr ids') else collectByFilter st s queue f next ids'))"

fun strings_Join :: "string list \<Rightarrow> string \<Rightarrow> string" where
  "strings_Join [] sep = []"
| "strings_Join [x] sep = x"
| "strings_Join (x # y # xs) sep = x @ sep @ strings_Join (y # xs) sep"

definition selectorDescription :: "selector_request \<Rightarrow> string" where
  "selectorDescription req =
     (if length (rIDs req) > 0 then
        (if length (rIDs req) \<le> 3 then ''ids:['' @ strings_Join (rIDs req) '','' @ '']''
         else ''ids:'' @ FormatInt (int (length (rIDs req))))
      else case rFilter req of
          Some f \<Rightarrow>
            (let parts = (if FErrorType f \<noteq> [] then [''error_type:'' @ FErrorType f] else []) @
                         (if FHandlerRef f \<noteq> [] then [''handler_ref:'' @ FHandlerRef f] else [])
             in if parts \<noteq> [] then ''filter:{'' @ strings_Join parts '','' @ ''}'' else ''filter:{}'')
        | None \<Rightarrow> ''all'')"

type_synonym 's dlq_op = "'s \<Rightarrow> string \<Rightarrow> selector \<Rightarrow> (spi_error + int) \<times> 's"

definition mutate_audit :: "request \<Rightarrow> string \<Rightarrow> string \<Rightarrow> string \<Rightarrow> selector_request \<Rightarrow> int \<Rightarrow> string \<Rightarrow> string \<Rightarrow>
    audit_record" where
  "mutate_audit r who action queue req n outcome msg =
     \<lparr>ATimestamp = Now r, APrincipal = who, AAction = action, AQueue = queue,
      ASelector = selectorDescription req, ACount = n, AOutcome = outcome, AErrorMessage = msg\<rparr>"

text \<open>The second half of the shared body: run the operation on the final selector and report it.\<close>

definition mutateSelected :: "http_lib \<Rightarrow> 's dlq_op \<Rightarrow> string \<Rightarrow> string \<Rightarrow> string \<Rightarrow> request \<Rightarrow> selector_request \<Rightarrow>
    selector \<Rightarrow> ('s, 'c) server \<Rightarrow> response \<times> ('s, 'c) server" where
  "mutateSelected lib op action who queue r req sel s = (case op (store_of s) queue sel of
      (Inl e, s') \<Rightarrow>
        (Error r CodeInternal [WithDetail (''storage: '' @ spiText lib e)],
         emit (mutate_audit r who action queue req (-1) AuditFailure (spiText lib e)) (s\<lparr>store_of := s'\<rparr>))
    | (Inr n, s') \<Rightarrow>
        (writeJSON 200 (CountOut n),
         emit (mutate_audit r who action queue req n AuditSuccess []) (s\<lparr>store_of := s'\<rparr>)))"

definition handleDLQMutate :: "http_lib \<Rightarrow> ('s storage \<Rightarrow> 's dlq_op) \<Rightarrow> string \<Rightarrow> string \<Rightarrow> string \<Rightarrow> request \<Rightarrow>
    ('s, 'c) server \<Rightarrow> (response \<times> ('s, 'c) server) option" where
  "handleDLQMutate lib op action who queue r s = (case storage_of s of
      None \<Rightarrow> Some (noStorage r, s)
    | Some st \<Rightarrow> (case SelectorBody r of
          Inl msg \<Rightarrow> Some (badJSON r msg, s)
        | Inr req \<Rightarrow>
            if rIDs req \<noteq> [] \<and> rFilter req \<noteq> None then
              Some (Error r CodeInvalidTask [WithDetail ''supply ids or filter, not both''], s)
            else (case rFilter req of
                Some f \<Rightarrow>
                  if FilterPushdown (st_Capabilities st) then
                    Some (mutateSelected lib (op st) action who queue r req \<lparr>IDs = rIDs req, Filter = Some f\<rparr> s)
                  else (case collectByFilter st (store_of s) queue f [] [] of
                      None \<Rightarrow> None
                    | Some (Inl e) \<Rightarrow>
                        Some (Error r CodeInternal [WithDetail (''dlq scan: '' @ spiText lib e)],
                          emit (mutate_audit r who action queue req (-1) AuditFailure (spiText lib e)) s)
                    | Some (Inr ids) \<Rightarrow>
                        Some (mutateSelected lib (op st) action who queue r req \<lparr>IDs = ids, Filter = None\<rparr> s))
              | None \<Rightarrow> Some (mutateSelected lib (op st) action who queue r req \<lparr>IDs = rIDs req, Filter = None\<rparr> s))))"

definition handleRedrive :: "http_lib \<Rightarrow> string \<Rightarrow> string \<Rightarrow> request \<Rightarrow> ('s, 'c) server \<Rightarrow>
    (response \<times> ('s, 'c) server) option" where
  "handleRedrive lib who queue r s =
     handleDLQMutate lib (\<lambda>st s0 q sel. st_Redrive st (Now r) s0 q sel) ActionRedrive who queue r s"

definition handlePurge :: "http_lib \<Rightarrow> string \<Rightarrow> string \<Rightarrow> request \<Rightarrow> ('s, 'c) server \<Rightarrow>
    (response \<times> ('s, 'c) server) option" where
  "handlePurge lib who queue r s =
     handleDLQMutate lib (\<lambda>st s0 q sel. st_Purge st s0 q sel) ActionPurge who queue r s"

definition Milliseconds :: "duration \<Rightarrow> int" where
  "Milliseconds d = (if d < 0 then - (- d div 1000000) else d div 1000000)"

definition handleStats :: "http_lib \<Rightarrow> string \<Rightarrow> request \<Rightarrow> ('s, 'c) server \<Rightarrow> response \<times> ('s, 'c) server" where
  "handleStats lib queue r s = (case storage_of s of
      None \<Rightarrow> (noStorage r, s)
    | Some st \<Rightarrow> (case st_Stats st (Now r) (store_of s) queue of
          Inl e \<Rightarrow> (Error r CodeInternal [WithDetail (''storage: '' @ spiText lib e)], s)
        | Inr t \<Rightarrow> (writeJSON 200 (StatsOut (Pending t) (InFlight t) (DLQDepth t) (Milliseconds (OldestPendingAge t))), s)))"

section \<open>Pause and resume\<close>

definition setPausedBoth :: "string \<Rightarrow> bool \<Rightarrow> ('s, 'c) server \<Rightarrow> ('s, 'c) server" where
  "setPausedBoth queue b s =
     (let s1 = s\<lparr>pausedSet := (if b then List.insert queue (pausedSet s) else filter (\<lambda>q. q \<noteq> queue) (pausedSet s))\<rparr>
      in case configStore s1 of
           None \<Rightarrow> s1
         | Some cs \<Rightarrow> s1\<lparr>cfg_of := snd (cs_SetPaused cs queue b (cfg_of s1))\<rparr>)"

definition pause_audit :: "request \<Rightarrow> string \<Rightarrow> string \<Rightarrow> string \<Rightarrow> audit_record" where
  "pause_audit r who action queue =
     \<lparr>ATimestamp = Now r, APrincipal = who, AAction = action, AQueue = queue, ASelector = [],
      ACount = -1, AOutcome = AuditSuccess, AErrorMessage = []\<rparr>"

definition handleAdminQueueAction :: "string \<Rightarrow> request \<Rightarrow> ('s, 'c) server \<Rightarrow> response \<times> ('s, 'c) server" where
  "handleAdminQueueAction who r s =
     (let path = URL_Path r;
          tail = or_else (CutPrefix path ''/admin/queues/'') path;
          target = (case CutSuffix tail '':pause'' of Some q \<Rightarrow> Some (q, True)
             | None \<Rightarrow> (case CutSuffix tail '':resume'' of Some q \<Rightarrow> Some (q, False) | None \<Rightarrow> None))
      in case target of
           None \<Rightarrow> (Error r CodeNotFound [WithDetail (''no route matches '' @ path)], s)
         | Some (queue, b) \<Rightarrow>
             if queue = [] \<or> CHR ''/'' \<in> set queue then
               (Error r CodeNotFound [WithDetail ''invalid queue name in path''], s)
             else if Method r \<noteq> ''POST'' then
               (add_header ''Allow'' ''POST'' (Error r CodeMethodNotAllowed [WithDetail ''only POST is allowed on this path'']), s)
             else
               (noContent, emit (pause_audit r who (if b then ActionPause else ActionResume) queue) (setPausedBoth queue b s)))"

definition Server_IsPaused :: "('s, 'c) server \<Rightarrow> string \<Rightarrow> bool" where
  "Server_IsPaused s queue = (case configStore s of
      Some cs \<Rightarrow> cs_IsPaused cs (cfg_of s) queue
    | None \<Rightarrow> queue \<in> set (pausedSet s))"

section \<open>The configuration plane\<close>

definition handleListQueues :: "http_lib \<Rightarrow> request \<Rightarrow> ('s, 'c) server \<Rightarrow> response \<times> ('s, 'c) server" where
  "handleListQueues lib r s = (case configStore s of
      None \<Rightarrow> (noConfigStore r, s)
    | Some cs \<Rightarrow> (case cs_List cs (cfg_of s) of
          Inl e \<Rightarrow> (Error r CodeInternal [WithDetail (''config store: '' @ storeText lib e)], s)
        | Inr names \<Rightarrow> (writeJSON 200 (QueuesOut (map (\<lambda>n. (n, cs_IsPaused cs (cfg_of s) n)) names)), s)))"

definition badQueueName :: "http_lib \<Rightarrow> request \<Rightarrow> name_error \<Rightarrow> response" where
  "badQueueName lib r e = Error r CodeQueueNotFound [WithDetail (''invalid queue name: '' @ nameText lib e)]"

definition notConfigured :: "request \<Rightarrow> string \<Rightarrow> response" where
  "notConfigured r queue = Error r CodeQueueNotFound [WithDetail (''queue '' @ queue @ '' is not configured'')]"

definition handleGetQueueConfig :: "http_lib \<Rightarrow> string \<Rightarrow> request \<Rightarrow> ('s, 'c) server \<Rightarrow>
    response \<times> ('s, 'c) server" where
  "handleGetQueueConfig lib queue r s = (case configStore s of
      None \<Rightarrow> (noConfigStore r, s)
    | Some cs \<Rightarrow> (case ValidateQueue queue of
          Some e \<Rightarrow> (badQueueName lib r e, s)
        | None \<Rightarrow> (case cs_Get cs (cfg_of s) queue of
              Inl QueueNotFound \<Rightarrow> (notConfigured r queue, s)
            | Inl e \<Rightarrow> (Error r CodeInternal [WithDetail (''config store: '' @ storeText lib e)], s)
            | Inr ent \<Rightarrow> (writeJSON 200 (ConfigOut queue (EConfig ent) (EPaused ent)), s))))"

definition config_audit :: "request \<Rightarrow> string \<Rightarrow> string \<Rightarrow> string \<Rightarrow> string \<Rightarrow> audit_record" where
  "config_audit r who queue outcome msg =
     \<lparr>ATimestamp = Now r, APrincipal = who, AAction = ActionConfigWrite, AQueue = queue, ASelector = [],
      ACount = -1, AOutcome = outcome, AErrorMessage = msg\<rparr>"

definition handlePutQueueConfig :: "http_lib \<Rightarrow> string \<Rightarrow> string \<Rightarrow> request \<Rightarrow> ('s, 'c) server \<Rightarrow>
    response \<times> ('s, 'c) server" where
  "handlePutQueueConfig lib who queue r s = (case configStore s of
      None \<Rightarrow> (noConfigStore r, s)
    | Some cs \<Rightarrow> (case ValidateQueue queue of
          Some e \<Rightarrow> (badQueueName lib r e, s)
        | None \<Rightarrow> (case ConfigBody r of
              Inl msg \<Rightarrow> (Error r CodeInvalidTask [WithDetail (''invalid config JSON: '' @ msg)], s)
            | Inr q \<Rightarrow> (case ValidateQueueConfig (lib_url lib) (Some q) queue of
                  Some e \<Rightarrow> (Error r CodeInvalidTask [WithDetail (configText lib e)], s)
                | None \<Rightarrow> (case cs_Put cs queue q (cfg_of s) of
                      (Some e, c') \<Rightarrow>
                        (Error r CodeInternal [WithDetail (''config store: '' @ storeText lib e)],
                         emit (config_audit r who queue AuditFailure (storeText lib e)) (s\<lparr>cfg_of := c'\<rparr>))
                    | (None, c') \<Rightarrow>
                        (writeJSON 200 (ConfigOut queue (Some q) (cs_IsPaused cs c' queue)),
                         emit (config_audit r who queue AuditSuccess []) (s\<lparr>cfg_of := c'\<rparr>)))))))"

definition handleQueueConfig :: "http_lib \<Rightarrow> string \<Rightarrow> string \<Rightarrow> request \<Rightarrow> ('s, 'c) server \<Rightarrow>
    response \<times> ('s, 'c) server" where
  "handleQueueConfig lib who queue r s =
     (if Method r = ''GET'' then handleGetQueueConfig lib queue r s
      else if Method r = ''PUT'' then handlePutQueueConfig lib who queue r s
      else (add_header ''Allow'' ''GET, PUT''
              (Error r CodeMethodNotAllowed [WithDetail ''only GET and PUT are allowed on this path'']), s))"

definition handleDeleteQueue :: "http_lib \<Rightarrow> string \<Rightarrow> request \<Rightarrow> ('s, 'c) server \<Rightarrow> response \<times> ('s, 'c) server" where
  "handleDeleteQueue lib queue r s = (case configStore s of
      None \<Rightarrow> (noConfigStore r, s)
    | Some cs \<Rightarrow> (case ValidateQueue queue of
          Some e \<Rightarrow> (badQueueName lib r e, s)
        | None \<Rightarrow>
            (let busy = (case storage_of s of None \<Rightarrow> Inr False
                  | Some st \<Rightarrow> (case st_Stats st (Now r) (store_of s) queue of
                      Inl e \<Rightarrow> Inl e
                    | Inr t \<Rightarrow> Inr (Pending t > 0 \<or> InFlight t > 0 \<or> DLQDepth t > 0)))
             in case busy of
                  Inl e \<Rightarrow> (Error r CodeInternal [WithDetail (''storage: '' @ spiText lib e)], s)
                | Inr True \<Rightarrow> (Error r CodeConflict [WithDetail
                    (''queue '' @ queue @ '' is not empty (pending/in-flight/dlq tasks exist)'')], s)
                | Inr False \<Rightarrow> (case cs_Delete cs queue (cfg_of s) of
                      (Some QueueNotFound, c') \<Rightarrow> (notConfigured r queue, s\<lparr>cfg_of := c'\<rparr>)
                    | (Some e, c') \<Rightarrow> (Error r CodeInternal [WithDetail (''config store: '' @ storeText lib e)], s\<lparr>cfg_of := c'\<rparr>)
                    | (None, c') \<Rightarrow> (noContent, s\<lparr>cfg_of := c'\<rparr>)))))"

section \<open>The authorization boundary\<close>

record auth_op =
  opRole :: role
  opQueue :: string
  opGlobal :: bool
  opFromTask :: bool
  opTaskID :: task_id

definition queueOp :: "role \<Rightarrow> string \<Rightarrow> auth_op" where
  "queueOp rl q = \<lparr>opRole = rl, opQueue = q, opGlobal = False, opFromTask = False, opTaskID = []\<rparr>"

definition globalOp :: "role \<Rightarrow> auth_op" where
  "globalOp rl = \<lparr>opRole = rl, opQueue = [], opGlobal = True, opFromTask = False, opTaskID = []\<rparr>"

definition taskOp :: "role \<Rightarrow> task_id \<Rightarrow> auth_op" where
  "taskOp rl tid = \<lparr>opRole = rl, opQueue = [], opGlobal = False, opFromTask = True, opTaskID = tid\<rparr>"

text \<open>\<open>strings.Trim\<close> with a single character.\<close>

definition Trim1 :: "string \<Rightarrow> char \<Rightarrow> string" where
  "Trim1 s c = rev (dropWhile (\<lambda>d. d = c) (rev (dropWhile (\<lambda>d. d = c) s)))"

definition hasName :: "string option \<Rightarrow> bool" where
  "hasName opt = (case opt of None \<Rightarrow> False | Some q \<Rightarrow> q \<noteq> [])"

definition classifySegs :: "string \<Rightarrow> string list \<Rightarrow> auth_op option" where
  "classifySegs meth segs =
     (if segs ! 0 = ''tasks'' then
        (if length segs = 2 \<and> meth = ''GET'' \<and> segs ! 1 \<noteq> [] then Some (taskOp RoleSubmitter (segs ! 1)) else None)
      else if segs ! 0 = ''queues'' then
        (if length segs = 3 \<and> segs ! 1 \<noteq> [] then
           (let queue = segs ! 1; t = segs ! 2 in
            if t = ''tasks'' \<and> meth = ''POST'' \<or> t = ''tasks:batch'' \<and> meth = ''POST'' \<or> t = ''stats'' \<and> meth = ''GET''
            then Some (queueOp RoleSubmitter queue)
            else if t = ''dlq'' \<and> meth = ''GET'' \<or> t = ''dlq:redrive'' \<and> meth = ''POST'' \<or> t = ''dlq:purge'' \<and> meth = ''POST''
            then Some (queueOp RoleOperator queue)
            else None)
         else None)
      else if segs ! 0 = ''admin'' then
        (if length segs = 2 \<and> segs ! 1 = ''queues'' \<and> meth = ''GET'' then Some (globalOp RoleAdmin)
         else if length segs \<ge> 3 \<and> segs ! 1 = ''queues'' then
           (let x = segs ! 2; simple = (length segs = 3 \<and> meth = ''POST'') in
            if simple \<and> hasName (CutSuffix x '':pause'')
            then Some (queueOp RoleOperator (the (CutSuffix x '':pause'')))
            else if simple \<and> hasName (CutSuffix x '':resume'')
            then Some (queueOp RoleOperator (the (CutSuffix x '':resume'')))
            else if length segs = 3 \<and> meth = ''DELETE'' \<and> CHR '':'' \<notin> set x then Some (queueOp RoleAdmin x)
            else if length segs = 4 \<and> segs ! 3 = ''config'' \<and> x \<noteq> [] \<and> (meth = ''GET'' \<or> meth = ''PUT'')
            then Some (queueOp RoleAdmin x)
            else None)
         else None)
      else None)"

definition classifyAuthOp :: "string \<Rightarrow> string \<Rightarrow> auth_op option" where
  "classifyAuthOp meth path = classifySegs meth (Split1 (Trim1 path CHR ''/'') CHR ''/'')"

definition authorize :: "http_lib \<Rightarrow> request \<Rightarrow> ('s, 'c) server \<Rightarrow> principal \<Rightarrow> auth_op \<Rightarrow> problem + bool" where
  "authorize lib r s p oper =
     (if opGlobal oper then Inr (AllowsGlobal p (opRole oper))
      else if opFromTask oper then
        (case storage_of s of
           None \<Rightarrow> Inl (NewProblem CodeStorageUnavailable (URL_Path r) [WithDetail ''storage not configured''])
         | Some st \<Rightarrow> (case st_Get st (store_of s) (opTaskID oper) of
               Inl ErrNotFound \<Rightarrow> Inl (NewProblem CodeNotFound (URL_Path r) [WithDetail (''no task with id '' @ opTaskID oper)])
             | Inl e \<Rightarrow> Inl (NewProblem CodeInternal (URL_Path r) [WithDetail (''storage: '' @ spiText lib e)])
             | Inr task \<Rightarrow> Inr (Allows p (Queue task) (opRole oper))))
      else Inr (Allows p (opQueue oper) (opRole oper)))"

section \<open>Routing\<close>

definition only :: "string \<Rightarrow> (request \<Rightarrow> ('s, 'c) server \<Rightarrow> (response \<times> ('s, 'c) server) option) \<Rightarrow> request \<Rightarrow>
    ('s, 'c) server \<Rightarrow> (response \<times> ('s, 'c) server) option" where
  "only meth h r s =
     (if Method r \<noteq> meth then
        Some (add_header ''Allow'' meth
          (Error r CodeMethodNotAllowed [WithDetail (''only '' @ meth @ '' is allowed on this path'')]), s)
      else h r s)"

definition handleNotFound :: "request \<Rightarrow> ('s, 'c) server \<Rightarrow> response \<times> ('s, 'c) server" where
  "handleNotFound r s = (Error r CodeNotFound [WithDetail (''no route matches '' @ URL_Path r)], s)"

text \<open>A redirect by the router, to a cleaned path or to the subtree; its target is not modelled.\<close>

definition redirect :: response where
  "redirect = \<lparr>RStatus = 301, RHeaders = [], RBody = NoBody\<rparr>"

definition clean :: "request \<Rightarrow> bool" where
  "clean r \<longleftrightarrow> Segments r \<noteq> [] \<and> [] \<notin> set (butlast (Segments r)) \<and> \<not> DotSegments r"

text \<open>
  The routing tree of \<open>/v1\<close> as \<open>net/http\<close> resolves it: a literal segment before a wildcard, a
  wildcard before a subtree, a pattern with a method before one without, and \<open>HEAD\<close> served
  by a \<open>GET\<close> pattern. \<open>who\<close> is the name of the authenticated caller.
\<close>

definition v1Handler :: "http_lib \<Rightarrow> string \<Rightarrow> request \<Rightarrow> ('s, 'c) server \<Rightarrow> (response \<times> ('s, 'c) server) option" where
  "v1Handler lib who r s = (case Segments r of
      [a, b] \<Rightarrow>
        if a = ''tasks'' \<and> b \<noteq> [] then only ''GET'' (\<lambda>r s. Some (handleGetTask lib b r s)) r s
        else if a = ''admin'' \<and> b = ''queues'' then
          (if Method r = ''GET'' \<or> Method r = ''HEAD'' then Some (handleListQueues lib r s) else Some (redirect, s))
        else Some (handleNotFound r s)
    | [a, b, c] \<Rightarrow>
        if a = ''queues'' \<and> c = ''tasks'' then only ''POST'' (\<lambda>r s. Some (handleSubmitTask lib b r s)) r s
        else if a = ''queues'' \<and> c = ''tasks:batch'' then only ''POST'' (\<lambda>r s. Some (handleBatchSubmit lib b r s)) r s
        else if a = ''queues'' \<and> c = ''dlq'' then only ''GET'' (\<lambda>r s. Some (handleDLQList lib b r s)) r s
        else if a = ''queues'' \<and> c = ''dlq:redrive'' then only ''POST'' (handleRedrive lib who b) r s
        else if a = ''queues'' \<and> c = ''dlq:purge'' then only ''POST'' (handlePurge lib who b) r s
        else if a = ''queues'' \<and> c = ''stats'' then only ''GET'' (\<lambda>r s. Some (handleStats lib b r s)) r s
        else if a = ''admin'' \<and> b = ''queues'' then
          (if Method r = ''DELETE'' \<and> c \<noteq> [] then Some (handleDeleteQueue lib c r s)
           else Some (handleAdminQueueAction who r s))
        else Some (handleNotFound r s)
    | a # b # c # d # ds \<Rightarrow>
        if a = ''admin'' \<and> b = ''queues'' then
          (if d = ''config'' \<and> ds = [] then Some (handleQueueConfig lib who c r s)
           else Some (handleAdminQueueAction who r s))
        else Some (handleNotFound r s)
    | _ \<Rightarrow> Some (handleNotFound r s))"

definition authMiddleware :: "http_lib \<Rightarrow> token_store \<Rightarrow> request \<Rightarrow> ('s, 'c) server \<Rightarrow>
    (response \<times> ('s, 'c) server) option" where
  "authMiddleware lib ts r s = (case Authenticate ts (Authorization r) of
      None \<Rightarrow> Some (add_header ''WWW-Authenticate'' ''Bearer''
          (Error r CodeUnauthenticated [WithDetail ''missing or invalid bearer token'']), s)
    | Some p \<Rightarrow> (case classifyAuthOp (Method r) (URL_Path r) of
          None \<Rightarrow> v1Handler lib (PName p) r s
        | Some oper \<Rightarrow> (case authorize lib r s p oper of
              Inl prob \<Rightarrow> Some (WriteProblem prob, s)
            | Inr False \<Rightarrow> Some (Error r CodeForbidden [WithDetail
                (''principal '' @ PName p @ '' lacks '' @ Role_String (opRole oper) @ '' on this queue'')], s)
            | Inr True \<Rightarrow> v1Handler lib (PName p) r s)))"

definition withAuth :: "http_lib \<Rightarrow> request \<Rightarrow> ('s, 'c) server \<Rightarrow> (response \<times> ('s, 'c) server) option" where
  "withAuth lib r s = (case authz s of None \<Rightarrow> v1Handler lib ''anonymous'' r s | Some ts \<Rightarrow> authMiddleware lib ts r s)"

definition serve_v1 :: "http_lib \<Rightarrow> request \<Rightarrow> ('s, 'c) server \<Rightarrow> (response \<times> ('s, 'c) server) option" where
  "serve_v1 lib r s = (if clean r then withAuth lib r s else Some (redirect, s))"

section \<open>Outside the boundary\<close>

datatype front_body = HealthOut string | ReadyOut string "string gomap" | MetricsOut string

text \<open>
  The routes outside \<open>/v1\<close> and what the front of the server is wired with: the readiness
  probes with the error each reports for this request, the metrics handler, the logger.
\<close>

record front =
  probes :: "(string \<times> string option) list"
  metricsHandler :: "(request \<Rightarrow> front_body) option"
  hasLogger :: bool

datatype answer = V1 response | Front int front_body

fun runProbes :: "(string \<times> string option) list \<Rightarrow> bool \<Rightarrow> string gomap \<Rightarrow> bool \<times> string gomap" where
  "runProbes [] ready checks = (ready, checks)"
| "runProbes ((name, err) # ps) ready checks = (case err of
      Some e \<Rightarrow> runProbes ps False (AList.update name e checks)
    | None \<Rightarrow> runProbes ps ready (AList.update name ''ok'' checks))"

definition handleHealthz :: answer where
  "handleHealthz = Front 200 (HealthOut ''ok'')"

definition handleReadyz :: "front \<Rightarrow> request \<Rightarrow> answer" where
  "handleReadyz fr r = (case runProbes (probes fr) True [] of
      (False, _) \<Rightarrow> V1 (WriteProblem (NewProblem CodeStorageUnavailable (URL_Path r)
          [WithDetail ''one or more dependencies are not reachable'']))
    | (True, checks) \<Rightarrow> Front 200 (ReadyOut ''ready'' checks))"

definition handleMetrics :: "front \<Rightarrow> request \<Rightarrow> answer" where
  "handleMetrics fr r = (case metricsHandler fr of
      None \<Rightarrow> V1 (Error r CodeNotFound [WithDetail ''/metrics not configured''])
    | Some h \<Rightarrow> Front 200 (h r))"

definition only_get :: "request \<Rightarrow> answer \<Rightarrow> answer" where
  "only_get r a = (if Method r \<noteq> ''GET'' then V1 (add_header ''Allow'' ''GET''
     (Error r CodeMethodNotAllowed [WithDetail ''only GET is allowed on this path''])) else a)"

definition buildHandler :: "http_lib \<Rightarrow> front \<Rightarrow> request \<Rightarrow> ('s, 'c) server \<Rightarrow> (answer \<times> ('s, 'c) server) option" where
  "buildHandler lib fr r s =
     (if \<not> clean r then Some (V1 redirect, s)
      else case Segments r of
        [a] \<Rightarrow>
          if a = ''healthz'' then Some (only_get r handleHealthz, s)
          else if a = ''readyz'' then Some (only_get r (handleReadyz fr r), s)
          else if a = ''metrics'' then Some (only_get r (handleMetrics fr r), s)
          else if a = ''v1'' then Some (V1 redirect, s)
          else Some (V1 (fst (handleNotFound r s)), s)
      | a # b # bs \<Rightarrow>
          if a = ''v1'' then map_option (\<lambda>(resp, s'). (V1 resp, s')) (serve_v1 lib (r\<lparr>Segments := b # bs\<rparr>) s)
          else Some (V1 (fst (handleNotFound r s)), s)
      | [] \<Rightarrow> Some (V1 (fst (handleNotFound r s)), s))"

definition answer_status :: "answer \<Rightarrow> int" where
  "answer_status a = (case a of V1 resp \<Rightarrow> RStatus resp | Front st _ \<Rightarrow> st)"

text \<open>The access record: method, path, status and trace; never the body.\<close>

definition withLogging :: "front \<Rightarrow> request \<Rightarrow> answer \<Rightarrow> duration \<Rightarrow> attr list option" where
  "withLogging fr r a took = (if \<not> hasLogger fr then None else
     Some ([(''method'', AString (Method r)), (''path'', AString (URL_Path r)),
            (''status'', AInt (answer_status a)), (''duration_ms'', AInt (Milliseconds took))] @
           (case ParseTraceparent (Traceparent r) of
              Some (tid, sid) \<Rightarrow> [(''trace_id'', AString tid), (''span_id'', AString sid)]
            | None \<Rightarrow> [])))"

end
