(* ===== verification/Server_Http_Props.thy ===== *)
theory Server_Http_Props
  imports Server_Http
begin

text \<open>
  Safety of the HTTP surface: nothing below \<open>/v1\<close> has an effect without a token of the token file and, up to
  two gaps that are stated, the grant the role matrix asks for; every error answer keeps the problem contract, and
  every dead-letter or configuration change is audited.
\<close>

section \<open>Paths\<close>

lemma URL_Path_split:
  assumes "segs \<noteq> []" "\<forall>x \<in> set segs. CHR ''/'' \<notin> set x"
  shows "Split1 (tl (concat (map (\<lambda>x. CHR ''/'' # x) segs))) CHR ''/'' = segs"
  using assms
proof (induction segs)
  case (Cons x segs)
  show ?case
  proof (cases segs)
    case Nil
    with Cons.prems show ?thesis by (simp add: Split1_no_sep)
  next
    case (Cons y ys)
    with Cons.IH Cons.prems have "Split1 (tl (concat (map (\<lambda>x. CHR ''/'' # x) segs))) CHR ''/'' = segs" by simp
    with Cons Cons.prems show ?thesis by (simp add: Split1_append)
  qed
qed simp

lemma concat_map_last: "xs \<noteq> [] \<Longrightarrow> concat (map f xs) = concat (map f (butlast xs)) @ f (last xs)"
  by (induction xs) auto

lemma Trim1_path:
  assumes "segs \<noteq> []" "\<forall>x \<in> set segs. CHR ''/'' \<notin> set x" "hd segs \<noteq> []" "last segs \<noteq> []"
  shows "Trim1 (concat (map (\<lambda>x. CHR ''/'' # x) segs)) CHR ''/'' = tl (concat (map (\<lambda>x. CHR ''/'' # x) segs))"
proof -
  let ?p = "concat (map (\<lambda>x. CHR ''/'' # x) segs)"
  obtain x xs where segs: "segs = x # xs" using assms(1) by (cases segs) auto
  obtain c cs where x: "x = c # cs" "c \<noteq> CHR ''/''" using assms(2,3) segs by (cases x) auto
  then have front: "dropWhile (\<lambda>d. d = CHR ''/'') ?p = tl ?p" using segs by simp
  have "?p = concat (map (\<lambda>x. CHR ''/'' # x) (butlast segs)) @ CHR ''/'' # last segs"
    by (rule concat_map_last [OF assms(1)])
  moreover have "last (last segs) \<noteq> CHR ''/''"
    using assms by (metis last_in_set)
  ultimately have l: "last ?p \<noteq> CHR ''/''" using assms(4) by simp
  have "tl ?p \<noteq> []" using segs x by simp
  moreover from this have "last (tl ?p) = last ?p" by (rule last_tl [OF disjI2])
  ultimately have "dropWhile (\<lambda>d. d = CHR ''/'') (rev (tl ?p)) = rev (tl ?p)"
    using l by (cases "tl ?p" rule: rev_cases) auto
  then show ?thesis by (simp add: Trim1_def front)
qed

lemma classify_path:
  assumes "Segments r \<noteq> []" "hd (Segments r) \<noteq> []" "last (Segments r) \<noteq> []"
    "\<forall>x \<in> set (Segments r). CHR ''/'' \<notin> set x"
  shows "classifyAuthOp m (URL_Path r) = classifySegs m (Segments r)"
  using assms by (simp add: classifyAuthOp_def URL_Path_def Trim1_path URL_Path_split)

section \<open>Effects\<close>

text \<open>A request has an effect when it changes the server or is answered with success.\<close>

definition effect :: "response \<Rightarrow> 'a \<Rightarrow> 'a \<Rightarrow> bool" where
  "effect resp s s' \<longleftrightarrow> s' \<noteq> s \<or> 200 \<le> RStatus resp \<and> RStatus resp < 300"

lemma NewProblem_detail:
  "map_of problemDefs code = Some d \<Longrightarrow>
     NewProblem code inst [WithDetail msg] =
       \<lparr>PType = problemTypeBase @ code, PTitle = pdTitle d, PStatus = pdStatus d, PDetail = msg,
        PInstance = inst, PCode = code, retryAfter = 0\<rparr>"
  by (simp add: NewProblem_def WithDetail_def)

lemma problem_statuses [simp]:
  "map_of problemDefs CodeNotFound = Some \<lparr>pdStatus = 404, pdTitle = ''Not Found''\<rparr>"
  "map_of problemDefs CodeMethodNotAllowed = Some \<lparr>pdStatus = 405, pdTitle = ''Method Not Allowed''\<rparr>"
  "map_of problemDefs CodeUnauthenticated = Some \<lparr>pdStatus = 401, pdTitle = ''Unauthenticated''\<rparr>"
  "map_of problemDefs CodeForbidden = Some \<lparr>pdStatus = 403, pdTitle = ''Forbidden''\<rparr>"
  "map_of problemDefs CodeQueueNotFound = Some \<lparr>pdStatus = 404, pdTitle = ''Queue Not Found''\<rparr>"
  "map_of problemDefs CodeIDConflict = Some \<lparr>pdStatus = 409, pdTitle = ''Task ID Conflict''\<rparr>"
  "map_of problemDefs CodePayloadTooLarge = Some \<lparr>pdStatus = 413, pdTitle = ''Payload Too Large''\<rparr>"
  "map_of problemDefs CodeInvalidTask = Some \<lparr>pdStatus = 422, pdTitle = ''Invalid Task''\<rparr>"
  "map_of problemDefs CodeStaleCursor = Some \<lparr>pdStatus = 409, pdTitle = ''Stale Cursor''\<rparr>"
  "map_of problemDefs CodeConflict = Some \<lparr>pdStatus = 409, pdTitle = ''Conflict''\<rparr>"
  "map_of problemDefs CodeStorageUnavailable = Some \<lparr>pdStatus = 503, pdTitle = ''Storage Unavailable''\<rparr>"
  "map_of problemDefs CodeInternal = Some \<lparr>pdStatus = 500, pdTitle = ''Internal Server Error''\<rparr>"
  by (simp_all add: problemDefs_def code_defs)

lemma WriteProblem_status [simp]: "RStatus (WriteProblem p) = PStatus p"
  by (simp add: WriteProblem_def Let_def)

lemma Error_status [simp]:
  "map_of problemDefs code = Some d \<Longrightarrow> RStatus (Error r code [WithDetail msg]) = pdStatus d"
  by (simp add: Error_def NewProblem_detail)

lemma add_header_status [simp]: "RStatus (add_header k v resp) = RStatus resp"
  by (simp add: add_header_def)

lemma fixed_statuses [simp]:
  "RStatus (noStorage r) = 503" "RStatus (noConfigStore r) = 503" "RStatus (bodyTooLarge r) = 413"
  "RStatus (badJSON r msg) = 422" "RStatus (badQueueName lib r e) = 404" "RStatus (notConfigured r q) = 404"
  "RStatus noContent = 204" "RStatus redirect = 301" "RStatus (writeJSON st b) = st"
  by (simp_all add: noStorage_def noConfigStore_def bodyTooLarge_def badJSON_def badQueueName_def notConfigured_def
      noContent_def redirect_def writeJSON_def)

lemma only_effect:
  "only m h r s = Some (resp, s') \<Longrightarrow> effect resp s s' \<Longrightarrow> Method r = m \<and> h r s = Some (resp, s')"
  by (auto simp: only_def effect_def split: if_splits)

lemma notFound_effect: "handleNotFound r s = (resp, s') \<Longrightarrow> \<not> effect resp s s'"
  by (auto simp: handleNotFound_def effect_def)

lemma action_effect:
  assumes "handleAdminQueueAction who r s = (resp, s')" "effect resp s s'"
    "Segments r = ''admin'' # ''queues'' # x # xs" "\<forall>y \<in> set (x # xs). CHR ''/'' \<notin> set y"
  shows "Method r = ''POST'' \<and> xs = [] \<and> (\<exists>q. q \<noteq> [] \<and> (x = q @ '':pause'' \<or> x = q @ '':resume''))"
proof -
  let ?t = "concat (map (\<lambda>y. CHR ''/'' # y) xs)"
  have path: "CutPrefix (URL_Path r) ''/admin/queues/'' = Some (x @ ?t)"
    using assms(3) CutPrefix_append [of "''/admin/queues/''" "x @ ?t"] by (simp add: URL_Path_def)
  obtain q where q: "q \<noteq> []" "CHR ''/'' \<notin> set q" "Method r = ''POST''"
    "x @ ?t = q @ '':pause'' \<or> x @ ?t = q @ '':resume''"
    using assms(1,2) path
    by (auto simp: handleAdminQueueAction_def Let_def effect_def CutSuffix_Some
        split: option.splits if_splits prod.splits)
  then have "set (x @ ?t) = set q \<union> set '':pause'' \<or> set (x @ ?t) = set q \<union> set '':resume''"
    by (elim disjE) (simp_all only: set_append simp_thms)
  moreover have "CHR ''/'' \<notin> set q \<union> set '':pause''" "CHR ''/'' \<notin> set q \<union> set '':resume''"
    using q(2) by simp_all
  ultimately have "CHR ''/'' \<notin> set (x @ ?t)" by (elim disjE) (erule ssubst, assumption)+
  then have "CHR ''/'' \<notin> set ?t" by simp
  then have "xs = []" by (cases xs) auto
  with q show ?thesis by auto
qed

lemma delete_effect:
  assumes "handleDeleteQueue lib q r s = (resp, s')" "effect resp s s'"
  shows "CHR '':'' \<notin> set q"
proof -
  have "ValidateQueue q = None"
    using assms by (auto simp: handleDeleteQueue_def effect_def split: option.splits)
  then show ?thesis
    by (auto simp: ValidateQueue_def validateName_def nameRE_match_def list_all_iff name_char_def less_eq_char_def
        split: if_splits)
qed

lemma config_effect:
  "handleQueueConfig lib who q r s = (resp, s') \<Longrightarrow> effect resp s s' \<Longrightarrow> Method r = ''GET'' \<or> Method r = ''PUT''"
  by (auto simp: handleQueueConfig_def effect_def split: if_splits)

section \<open>Authorization\<close>

text \<open>
  The role matrix: what a request below \<open>/v1\<close> needs. Reading or submitting tasks and reading
  statistics needs the submitter role on the queue, for a task the queue it is stored in;
  dead-letter operations, pause and resume the operator role; configuration and deletion the
  admin role; listing all queues an admin grant on every queue.
\<close>

definition permitted :: "principal \<Rightarrow> request \<Rightarrow> ('s, 'c) server \<Rightarrow> bool" where
  "permitted p r s = (case Segments r of
      [a, b] \<Rightarrow>
        if a = ''tasks'' then
          (\<exists>st task. storage_of s = Some st \<and> st_Get st (store_of s) b = Inr task \<and> Allows p (Queue task) RoleSubmitter)
        else a = ''admin'' \<and> b = ''queues'' \<and> AllowsGlobal p RoleAdmin
    | [a, b, c] \<Rightarrow>
        if a = ''queues'' then Allows p b (if c \<in> {''tasks'', ''tasks:batch'', ''stats''} then RoleSubmitter else RoleOperator)
        else a = ''admin'' \<and> b = ''queues'' \<and>
          (if Method r = ''DELETE'' then Allows p c RoleAdmin
           else \<exists>q. (c = q @ '':pause'' \<or> c = q @ '':resume'') \<and> Allows p q RoleOperator)
    | [a, b, c, d] \<Rightarrow> a = ''admin'' \<and> b = ''queues'' \<and> d = ''config'' \<and> Allows p c RoleAdmin
    | _ \<Rightarrow> False)"

lemma CutSuffix_pause: "CutSuffix (q @ '':pause'') '':pause'' = Some q"
  by (rule CutSuffix_append)

lemma CutSuffix_resume:
  "CutSuffix (q @ '':resume'') '':resume'' = Some q" "CutSuffix (q @ '':resume'') '':pause'' = None"
proof -
  show "CutSuffix (q @ '':resume'') '':resume'' = Some q" by (rule CutSuffix_append)
  have False if "q @ '':resume'' = t @ '':pause''" for t
  proof -
    from that have "rev (q @ '':resume'') = rev (t @ '':pause'')" by (rule arg_cong)
    then show False by simp
  qed
  then show "CutSuffix (q @ '':resume'') '':pause'' = None"
    using CutSuffix_Some [of "q @ '':resume''" "'':pause''"] by (cases "CutSuffix (q @ '':resume'') '':pause''") auto
qed

lemma list_shapes:
  "length xs < 2 \<or> (\<exists>a b. xs = [a, b]) \<or> (\<exists>a b c. xs = [a, b, c]) \<or> (\<exists>a b c d ds. xs = a # b # c # d # ds)"
  by (cases xs; cases "tl xs"; cases "tl (tl xs)"; cases "tl (tl (tl xs))") auto

text \<open>A request with an effect is one the classification knows.\<close>

lemma effect_classified:
  assumes "v1Handler lib who r s = Some (resp, s')" "effect resp s s'" "clean r" "Method r \<noteq> ''HEAD''"
    "\<forall>x \<in> set (Segments r). CHR ''/'' \<notin> set x"
  shows "last (Segments r) \<noteq> [] \<and> hd (Segments r) \<noteq> [] \<and> classifySegs (Method r) (Segments r) \<noteq> None"
proof -
  note nf = notFound_effect
  have no: "\<not> effect redirect s s" by (simp add: effect_def)
  consider a b where "Segments r = [a, b]" | a b c where "Segments r = [a, b, c]"
    | a b c d ds where "Segments r = a # b # c # d # ds" | "length (Segments r) < 2"
    using list_shapes [of "Segments r"] by blast
  then show ?thesis
  proof cases
    case 1
    then show ?thesis
      using assms(1-4) nf [of r s resp s'] no only_effect [OF _ assms(2)]
      by (auto simp: v1Handler_def classifySegs_def clean_def split: if_splits)
  next
    case 2
    note seg = 2
    show ?thesis
    proof (cases "a = ''queues''")
      case True
      then show ?thesis
        using seg assms(1,2,3) nf [of r s resp s'] only_effect [OF _ assms(2)]
        by (auto simp: v1Handler_def classifySegs_def clean_def split: if_splits)
    next
      case False
      with seg assms(1,2) nf [of r s resp s'] have ab: "a = ''admin''" "b = ''queues''"
        by (auto simp: v1Handler_def split: if_splits)
      show ?thesis
      proof (cases "Method r = ''DELETE'' \<and> c \<noteq> []")
        case True
        with seg ab assms(1) have "handleDeleteQueue lib c r s = (resp, s')" by (simp add: v1Handler_def)
        from delete_effect [OF this assms(2)] True seg ab show ?thesis
          by (simp add: classifySegs_def Let_def)
      next
        case False
        with seg ab assms(1) have "handleAdminQueueAction who r s = (resp, s')" by (auto simp: v1Handler_def)
        from action_effect [OF this assms(2), of c "[]"] seg ab assms(5) obtain q where
          "Method r = ''POST''" "q \<noteq> []" "c = q @ '':pause'' \<or> c = q @ '':resume''" by auto
        with seg ab show ?thesis
          by (auto simp: classifySegs_def Let_def hasName_def CutSuffix_pause CutSuffix_resume)
      qed
    qed
  next
    case 3
    then show ?thesis
      using assms nf [of r s resp s'] action_effect [OF _ assms(2), of _ r c "d # ds"] config_effect [OF _ assms(2)]
      by (auto simp: v1Handler_def classifySegs_def clean_def split: if_splits)
  next
    case 4
    then show ?thesis
      using assms(1,2) nf [of r s resp s'] by (auto simp: v1Handler_def split: list.splits)
  qed
qed

lemma queueOp_authorized: "authorize lib r s p (queueOp rl q) = Inr True \<longleftrightarrow> Allows p q rl"
  by (simp add: authorize_def queueOp_def)

lemma globalOp_authorized: "authorize lib r s p (globalOp rl) = Inr True \<longleftrightarrow> AllowsGlobal p rl"
  by (simp add: authorize_def globalOp_def)

lemma taskOp_authorized:
  "authorize lib r s p (taskOp rl tid) = Inr True \<longleftrightarrow>
     (\<exists>st task. storage_of s = Some st \<and> st_Get st (store_of s) tid = Inr task \<and> Allows p (Queue task) rl)"
  by (auto simp: authorize_def taskOp_def split: option.splits sum.splits spi_error.splits)

lemmas op_authorized = queueOp_authorized globalOp_authorized taskOp_authorized

text \<open>What the classification asks for is what the role matrix asks for.\<close>

lemma classified_permitted:
  assumes "classifySegs (Method r) (Segments r) = Some oper" "authorize lib r s p oper = Inr True" "Segments r \<noteq> []"
  shows "permitted p r s"
proof -
  obtain a as where seg: "Segments r = a # as" using assms(3) by (cases "Segments r") auto
  from assms(1) seg consider (task) "a = ''tasks''" | (queue) "a = ''queues''" | (admin) "a = ''admin''"
    by (auto simp: classifySegs_def split: if_splits)
  then show ?thesis
  proof cases
    case task
    with assms(1) seg obtain b where "as = [b]" "oper = taskOp RoleSubmitter b"
      by (auto simp: classifySegs_def length_Suc_conv numeral_2_eq_2 split: if_splits)
    with assms(2) seg task show ?thesis by (simp add: permitted_def op_authorized)
  next
    case queue
    with assms(1) seg have "length as = 2" by (simp add: classifySegs_def split: if_splits)
    then obtain b c where as: "as = [b, c]" by (cases as; cases "tl as"; cases "tl (tl as)") auto
    have "oper = queueOp (if c \<in> {''tasks'', ''tasks:batch'', ''stats''} then RoleSubmitter else RoleOperator) b"
      using assms(1) unfolding seg as queue classifySegs_def
      by (cases "c = ''tasks'' \<or> c = ''tasks:batch'' \<or> c = ''stats''") (auto simp: Let_def split: if_splits)
    with assms(2) seg queue as show ?thesis by (auto simp: permitted_def op_authorized)
  next
    case admin
    note adm = admin assms(1) seg
    show ?thesis
    proof (cases "length as = 1")
      case True
      with adm have "as = [''queues'']" "oper = globalOp RoleAdmin"
        by (auto simp: classifySegs_def length_Suc_conv split: if_splits)
      with assms(2) seg admin show ?thesis by (simp add: permitted_def op_authorized)
    next
      case False
      with adm obtain c cs where as: "as = ''queues'' # c # cs"
        by (cases as; cases "tl as") (auto simp: classifySegs_def split: if_splits)
      from adm as consider q where "cs = []" "Method r = ''POST''" "c = q @ '':pause'' \<or> c = q @ '':resume''"
          "oper = queueOp RoleOperator q"
        | "cs = []" "Method r = ''DELETE''" "oper = queueOp RoleAdmin c"
        | "cs = [''config'']" "oper = queueOp RoleAdmin c"
        by (auto simp: classifySegs_def Let_def hasName_def CutSuffix_Some length_Suc_conv
            split: if_splits option.splits)
      then show ?thesis
        using assms(2) seg admin as by cases (auto simp: permitted_def op_authorized)
    qed
  qed
qed

lemma authorize_problem: "authorize lib r s p oper = Inl prob \<Longrightarrow> 400 \<le> PStatus prob"
  by (auto simp: authorize_def NewProblem_detail split: if_splits option.splits sum.splits spi_error.splits)

lemma middleware_effect:
  assumes "authMiddleware lib ts r s = Some (resp, s')" "effect resp s s'"
  shows "\<exists>p. Authenticate ts (Authorization r) = Some p \<and> v1Handler lib (PName p) r s = Some (resp, s') \<and>
    (\<forall>oper. classifyAuthOp (Method r) (URL_Path r) = Some oper \<longrightarrow> authorize lib r s p oper = Inr True)"
proof (cases "Authenticate ts (Authorization r)")
  case None
  then show ?thesis using assms by (auto simp: authMiddleware_def effect_def)
next
  case (Some p)
  show ?thesis
  proof (cases "classifyAuthOp (Method r) (URL_Path r)")
    case None
    with Some assms show ?thesis by (simp add: authMiddleware_def)
  next
    case (Some oper)
    note oper = this
    show ?thesis
    proof (cases "authorize lib r s p oper")
      case (Inl prob)
      then show ?thesis
        using assms oper \<open>Authenticate _ _ = _\<close> authorize_problem [OF Inl]
        by (auto simp: authMiddleware_def effect_def)
    next
      case (Inr b)
      then show ?thesis
        using assms oper \<open>Authenticate _ _ = _\<close>
        by (cases b) (auto simp: authMiddleware_def effect_def)
    qed
  qed
qed

text \<open>The one thing \<open>HEAD\<close> achieves is the answer to the listing of all queues.\<close>

lemma head_effect:
  assumes "v1Handler lib who r s = Some (resp, s')" "effect resp s s'" "Method r = ''HEAD''"
  shows "Segments r = [''admin'', ''queues''] \<and> s' = s"
proof -
  note nf = notFound_effect
  have act: "\<not> effect resp s s'" if "handleAdminQueueAction who r s = (resp, s')"
    using that assms(3) by (auto simp: handleAdminQueueAction_def Let_def effect_def split: option.splits if_splits prod.splits)
  have list: "s' = s" if "handleListQueues lib r s = (resp, s')"
    using that by (auto simp: handleListQueues_def split: option.splits sum.splits)
  consider a b where "Segments r = [a, b]" | a b c where "Segments r = [a, b, c]"
    | a b c d ds where "Segments r = a # b # c # d # ds" | "length (Segments r) < 2"
    using list_shapes [of "Segments r"] by blast
  then show ?thesis
  proof cases
    case 1
    then show ?thesis
      using assms nf [of r s resp s'] list only_effect [OF _ assms(2)] by (auto simp: v1Handler_def split: if_splits)
  next
    case 2
    then show ?thesis
      using assms nf [of r s resp s'] act only_effect [OF _ assms(2)] by (auto simp: v1Handler_def split: if_splits)
  next
    case 3
    then show ?thesis
      using assms nf [of r s resp s'] act config_effect [of lib who c r s resp s'] by (auto simp: v1Handler_def split: if_splits)
  next
    case 4
    then show ?thesis
      using assms(1,2) nf [of r s resp s'] by (auto simp: v1Handler_def split: list.splits)
  qed
qed

text \<open>C31: behind the authorization boundary, what a request below \<open>/v1\<close> needs to have an effect, that is, to change the
  tasks, the configuration, the pause state or the audit trail, or to be answered with success. Its bearer
  token is always one of the token file's. If no path segment carries an encoded slash and the method is
  not \<open>HEAD\<close>, the caller holds the role the matrix asks for on the queue concerned. A \<open>HEAD\<close> request has no
  effect but the answer to the listing of all queues, which it gets without that role. (A segment with an encoded
  slash escapes the role check: see \<open>encoded_slash_skips_classification\<close>.)\<close>

theorem effects_need_grant:
  assumes "authz s = Some ts" "serve_v1 lib r s = Some (resp, s')" "effect resp s s'"
  shows "\<exists>p. Authenticate ts (Authorization r) = Some p \<and>
    (Method r = ''HEAD'' \<longrightarrow> Segments r = [''admin'', ''queues''] \<and> s' = s) \<and>
    (Method r \<noteq> ''HEAD'' \<and> (\<forall>x \<in> set (Segments r). CHR ''/'' \<notin> set x) \<longrightarrow> permitted p r s)"
proof -
  have c: "clean r" and m: "authMiddleware lib ts r s = Some (resp, s')"
    using assms by (auto simp: serve_v1_def withAuth_def effect_def split: if_splits)
  obtain p where p: "Authenticate ts (Authorization r) = Some p" "v1Handler lib (PName p) r s = Some (resp, s')"
    "\<And>oper. classifyAuthOp (Method r) (URL_Path r) = Some oper \<Longrightarrow> authorize lib r s p oper = Inr True"
    using middleware_effect [OF m assms(3)] by blast
  have "permitted p r s" if slash: "Method r \<noteq> ''HEAD''" "\<forall>x \<in> set (Segments r). CHR ''/'' \<notin> set x"
  proof -
    note e = effect_classified [OF p(2) assms(3) c slash]
    have "Segments r \<noteq> []" using c by (simp add: clean_def)
    with e slash(2) obtain oper where op: "classifyAuthOp (Method r) (URL_Path r) = Some oper"
      "classifySegs (Method r) (Segments r) = Some oper"
      using classify_path [of r "Method r"] by auto
    have "authorize lib r s p oper = Inr True" using p(3) op(1) .
    with classified_permitted [OF op(2)] \<open>Segments r \<noteq> []\<close> show ?thesis by blast
  qed
  then show ?thesis using p(1) head_effect [OF p(2) assms(3)] by blast
qed

section \<open>A concrete server\<close>

definition sample_lib :: http_lib where
  "sample_lib = \<lparr>lib_sha256 = (\<lambda>_. replicate 32 7), lib_time = (\<lambda>_. None), lib_url = (\<lambda>_. None), spiText = (\<lambda>_. []),
     submitText = (\<lambda>_. []), nameText = (\<lambda>_. []), configText = (\<lambda>_. []), storeText = (\<lambda>_. [])\<rparr>"

definition sample_server :: "(unit, cfg_store) server" where
  "sample_server = \<lparr>storage_of = None, store_of = (), configStore = Some memcfg, cfg_of = NewMemStore,
     authz = Some [(''tok2'', \<lparr>PName = ''root'', Grants = [\<lparr>GQueue = ''*'', GRole = RoleAdmin\<rparr>]\<rparr>)],
     maxPayloadBytes = 1000, pausedSet = [], auditSink = True, auditLog = []\<rparr>"

definition sample_request :: "string \<Rightarrow> string list \<Rightarrow> string \<Rightarrow> request" where
  "sample_request meth segs auth = \<lparr>Method = meth, Segments = segs, DotSegments = False, Authorization = auth, Traceparent = [],
     Query = [], TaskBody = TooLarge, TasksBody = TooLarge, SelectorBody = Inl [], ConfigBody = Inr empty_queue_config,
     Now = 7, Rnd = (\<lambda>_. None)\<rparr>"

lemma sample_listing:
  "map_option (RStatus \<circ> fst)
     (serve_v1 sample_lib (sample_request ''GET'' [''admin'', ''queues''] ''Bearer tok2'') sample_server) = Some 200"
  by code_simp

theorem effects_need_grant_witness:
  "\<exists>p. Authenticate (the (authz sample_server)) ''Bearer tok2'' = Some p \<and> AllowsGlobal p RoleAdmin"
proof -
  let ?r = "sample_request ''GET'' [''admin'', ''queues''] ''Bearer tok2''"
  have ts: "authz sample_server = Some (the (authz sample_server))" by (simp add: sample_server_def)
  obtain resp s' where run: "serve_v1 sample_lib ?r sample_server = Some (resp, s')" "RStatus resp = 200"
    using sample_listing by auto
  have "\<exists>p. Authenticate (the (authz sample_server)) (Authorization ?r) = Some p \<and> permitted p ?r sample_server"
    using effects_need_grant [OF ts run(1)] by (auto simp: effect_def run(2) sample_request_def)
  then show ?thesis by (auto simp: sample_request_def permitted_def)
qed

text \<open>
  Both exceptions are real: \<open>HEAD\<close> reaches the listing of all queues, and a task id with
  an encoded slash the task lookup, without a grant check.
\<close>

lemma head_skips_grant_check:
  "map_option (RStatus \<circ> fst) (serve_v1 sample_lib (sample_request ''HEAD'' [''admin'', ''queues''] ''Bearer t'')
     (sample_server\<lparr>authz := Some [(''t'', \<lparr>PName = ''nobody'', Grants = []\<rparr>)]\<rparr>)) = Some 200"
  by code_simp

lemma encoded_slash_skips_classification:
  "classifyAuthOp ''GET'' (URL_Path (sample_request ''GET'' [''tasks'', ''a/b''] [])) = None \<and>
   map_option (RStatus \<circ> fst) (v1Handler sample_lib who (sample_request ''GET'' [''tasks'', ''a/b''] []) sample_server) = Some 503"
  by (simp add: classifyAuthOp_def classifySegs_def URL_Path_def sample_request_def Trim1_def v1Handler_def only_def
      handleGetTask_def sample_server_def)

section \<open>Audit\<close>

text \<open>The name a request acts under.\<close>

definition caller :: "('s, 'c) server \<Rightarrow> request \<Rightarrow> string" where
  "caller s r = (case authz s of None \<Rightarrow> ''anonymous''
     | Some ts \<Rightarrow> (case Authenticate ts (Authorization r) of None \<Rightarrow> ''anonymous'' | Some p \<Rightarrow> PName p))"

text \<open>A step that leaves one audit record of the caller, or leaves the server as it was.\<close>

definition audited :: "string \<Rightarrow> request \<Rightarrow> ('s, 'c) server \<Rightarrow> response \<Rightarrow> ('s, 'c) server \<Rightarrow> bool" where
  "audited who r s resp s' \<longleftrightarrow> s' = s \<or> (\<exists>rec. auditLog s' = auditLog s @ [rec] \<and> APrincipal rec = who \<and>
     ATimestamp rec = Now r \<and> (AOutcome rec = AuditSuccess \<longleftrightarrow> RStatus resp < 300) \<and>
     AOutcome rec \<in> {AuditSuccess, AuditFailure})"

lemma audited_same [simp]: "audited who r s resp s"
  by (simp add: audited_def)

lemma emit_log [simp]: "auditSink s \<Longrightarrow> auditLog (emit rec s) = auditLog s @ [rec]"
  by (simp add: emit_def)

lemma audit_outcomes [simp]: "AuditFailure \<noteq> AuditSuccess" "AuditSuccess \<noteq> AuditFailure"
  by (simp_all add: AuditFailure_def AuditSuccess_def)

lemma mutateSelected_audited:
  "auditSink s \<Longrightarrow> mutateSelected lib op action who queue r req sel s = (resp, s') \<Longrightarrow> audited who r s resp s'"
  by (auto simp: mutateSelected_def audited_def mutate_audit_def split: prod.splits sum.splits)

lemma mutate_audited:
  assumes "auditSink s" "handleDLQMutate lib op action who queue r s = Some (resp, s')"
  shows "audited who r s resp s'"
proof (cases "s' = s")
  case False
  then obtain st req where st: "storage_of s = Some st" "SelectorBody r = Inr req"
    using assms(2) by (auto simp: handleDLQMutate_def split: option.splits sum.splits)
  then have "(\<exists>sel. mutateSelected lib (op st) action who queue r req sel s = (resp, s')) \<or>
      (\<exists>msg e. resp = Error r CodeInternal [WithDetail msg] \<and>
         s' = emit (mutate_audit r who action queue req (-1) AuditFailure e) s)"
    using assms(2) False
    by (auto simp: handleDLQMutate_def split: option.splits if_splits sum.splits)
  then show ?thesis
  proof (elim disjE exE)
    fix sel
    assume "mutateSelected lib (op st) action who queue r req sel s = (resp, s')"
    then show ?thesis by (rule mutateSelected_audited [OF assms(1)])
  next
    fix msg e
    assume "resp = Error r CodeInternal [WithDetail msg] \<and>
      s' = emit (mutate_audit r who action queue req (-1) AuditFailure e) s"
    then show ?thesis using assms(1) by (simp add: audited_def mutate_audit_def)
  qed
qed simp

lemma setPausedBoth_audit [simp]:
  "auditLog (setPausedBoth q b s) = auditLog s" "auditSink (setPausedBoth q b s) = auditSink s"
  by (simp_all add: setPausedBoth_def Let_def split: option.splits)

lemma action_audited:
  "auditSink s \<Longrightarrow> handleAdminQueueAction who r s = (resp, s') \<Longrightarrow> audited who r s resp s'"
  by (auto simp: handleAdminQueueAction_def Let_def audited_def pause_audit_def split: option.splits if_splits)

lemma put_config_audited:
  "auditSink s \<Longrightarrow> handlePutQueueConfig lib who q r s = (resp, s') \<Longrightarrow> audited who r s resp s'"
  by (auto simp: handlePutQueueConfig_def audited_def config_audit_def split: option.splits sum.splits prod.splits)

lemma readers_keep:
  "handleGetTask lib tid r s = (resp, s') \<Longrightarrow> s' = s" "handleDLQList lib q r s = (resp, s') \<Longrightarrow> s' = s"
  "handleStats lib q r s = (resp, s') \<Longrightarrow> s' = s" "handleListQueues lib r s = (resp, s') \<Longrightarrow> s' = s"
  "handleGetQueueConfig lib q r s = (resp, s') \<Longrightarrow> s' = s" "handleNotFound r s = (resp, s') \<Longrightarrow> s' = s"
  by (auto simp: handleGetTask_def handleDLQList_def handleStats_def handleListQueues_def handleGetQueueConfig_def
      handleNotFound_def split: option.splits sum.splits spi_error.splits prod.splits store_error.splits)

lemma config_audited:
  "auditSink s \<Longrightarrow> handleQueueConfig lib who q r s = (resp, s') \<Longrightarrow> audited who r s resp s'"
  using put_config_audited readers_keep(5)
  by (fastforce simp: handleQueueConfig_def split: if_splits)

lemma only_audited:
  "only m h r s = Some (resp, s') \<Longrightarrow> (h r s = Some (resp, s') \<Longrightarrow> audited who r s resp s') \<Longrightarrow> audited who r s resp s'"
  by (auto simp: only_def split: if_splits)

lemma v1_audited:
  assumes "auditSink s" "v1Handler lib who r s = Some (resp, s')" "Method r \<noteq> ''DELETE''"
    "last (Segments r) \<notin> {''tasks'', ''tasks:batch''}"
  shows "audited who r s resp s'"
proof -
  note keep = readers_keep [where r = r and s = s and resp = resp and s' = s']
  consider a b where "Segments r = [a, b]" | a b c where "Segments r = [a, b, c]"
    | a b c d ds where "Segments r = a # b # c # d # ds" | "length (Segments r) < 2"
    using list_shapes [of "Segments r"] by blast
  then show ?thesis
  proof cases
    case 1
    have "s' = s"
      using 1 assms(2) keep by (auto simp: v1Handler_def only_def split: if_splits)
    then show ?thesis by simp
  next
    case 2
    from assms(2,3,4) 2 consider
        "only ''GET'' (\<lambda>r s. Some (handleDLQList lib b r s)) r s = Some (resp, s')"
      | "only ''POST'' (handleRedrive lib who b) r s = Some (resp, s')"
      | "only ''POST'' (handlePurge lib who b) r s = Some (resp, s')"
      | "only ''GET'' (\<lambda>r s. Some (handleStats lib b r s)) r s = Some (resp, s')"
      | "handleAdminQueueAction who r s = (resp, s')" | "handleNotFound r s = (resp, s')"
      by (auto simp: v1Handler_def split: if_splits)
    then show ?thesis
      using mutate_audited [OF assms(1)] action_audited [OF assms(1)]
      by cases (auto elim!: only_audited dest: keep(2,3,6) simp: handleRedrive_def handlePurge_def)
  next
    case 3
    then show ?thesis
      using assms(2) keep(6) action_audited [OF assms(1)] config_audited [OF assms(1)]
      by (auto simp: v1Handler_def split: if_splits)
  next
    case 4
    then show ?thesis
      using assms(2) keep(6) by (auto simp: v1Handler_def split: list.splits)
  qed
qed

text \<open>C32: every change through the operator and configuration routes is audited. With an audit sink, a
  request that changes the server and is neither a submission nor a queue deletion appends
  exactly one record, with the caller's name and the time, that says success exactly when
  the answer does.\<close>

theorem mutations_are_audited:
  assumes "auditSink s" "serve_v1 lib r s = Some (resp, s')" "s' \<noteq> s" "Method r \<noteq> ''DELETE''"
    "last (Segments r) \<notin> {''tasks'', ''tasks:batch''}"
  shows "\<exists>rec. auditLog s' = auditLog s @ [rec] \<and> APrincipal rec = caller s r \<and> ATimestamp rec = Now r \<and>
    (AOutcome rec = ''success'' \<longleftrightarrow> RStatus resp < 300)"
proof -
  have "v1Handler lib (caller s r) r s = Some (resp, s')"
  proof (cases "authz s")
    case None
    with assms(2,3) show ?thesis by (simp add: serve_v1_def withAuth_def caller_def split: if_splits)
  next
    case (Some ts)
    with assms(2,3) have "authMiddleware lib ts r s = Some (resp, s')"
      by (simp add: serve_v1_def withAuth_def split: if_splits)
    moreover have "effect resp s s'" using assms(3) by (simp add: effect_def)
    ultimately show ?thesis using middleware_effect [of lib ts r s resp s'] Some by (auto simp: caller_def)
  qed
  from v1_audited [OF assms(1) this assms(4,5)] assms(3) show ?thesis
    by (auto simp: audited_def AuditSuccess_def)
qed

lemma sample_put:
  "map_option (RStatus \<circ> fst) (serve_v1 sample_lib
     (sample_request ''PUT'' [''admin'', ''queues'', ''q'', ''config''] ''Bearer tok2'') sample_server) = Some 200 \<and>
   map_option (configs \<circ> cfg_of \<circ> snd) (serve_v1 sample_lib
     (sample_request ''PUT'' [''admin'', ''queues'', ''q'', ''config''] ''Bearer tok2'') sample_server) \<noteq> Some []"
  by code_simp

theorem mutations_are_audited_witness:
  "\<exists>resp s' rec. serve_v1 sample_lib (sample_request ''PUT'' [''admin'', ''queues'', ''q'', ''config''] ''Bearer tok2'')
     sample_server = Some (resp, s') \<and> auditLog s' = [rec] \<and> AOutcome rec = ''success''"
proof -
  let ?r = "sample_request ''PUT'' [''admin'', ''queues'', ''q'', ''config''] ''Bearer tok2''"
  obtain resp s' where run: "serve_v1 sample_lib ?r sample_server = Some (resp, s')" "RStatus resp = 200"
    "configs (cfg_of s') \<noteq> []"
    using sample_put by auto
  have "s' \<noteq> sample_server" using run(3) by (auto simp: sample_server_def NewMemStore_def)
  then have "\<exists>rec. auditLog s' = auditLog sample_server @ [rec] \<and> APrincipal rec = caller sample_server ?r \<and>
      ATimestamp rec = Now ?r \<and> (AOutcome rec = ''success'' \<longleftrightarrow> RStatus resp < 300)"
    by (intro mutations_are_audited [OF _ run(1)]) (simp_all add: sample_server_def sample_request_def)
  with run show ?thesis by (auto simp: sample_server_def)
qed

text \<open>A queue deletion changes the configuration and leaves no record.\<close>

lemma deletion_is_not_audited:
  "(case serve_v1 sample_lib (sample_request ''DELETE'' [''admin'', ''queues'', ''q''] ''Bearer tok2'')
      (sample_server\<lparr>cfg_of := snd (Put_config ''q'' empty_queue_config NewMemStore)\<rparr>) of
      None \<Rightarrow> False | Some (resp, s') \<Rightarrow> RStatus resp = 204 \<and> configs (cfg_of s') = [] \<and> auditLog s' = [])"
  by code_simp

section \<open>The problem contract\<close>

text \<open>
  An error answer is a problem document of a stable code, under the status the code stands for,
  and one that asks the client to retry says when.
\<close>

definition problem_ok :: "problem \<Rightarrow> bool" where
  "problem_ok p \<longleftrightarrow> map_option pdStatus (map_of problemDefs (PCode p)) = Some (PStatus p)"

definition contract :: "response \<Rightarrow> bool" where
  "contract resp \<longleftrightarrow> (400 \<le> RStatus resp \<longrightarrow>
     map_of (RHeaders resp) ''Content-Type'' = Some ''application/problem+json'' \<and>
     (\<exists>p. RBody resp = ProblemBody p \<and> PStatus p = RStatus resp \<and> problem_ok p) \<and>
     (RStatus resp \<in> {429, 503} \<longrightarrow> (\<exists>n \<ge> 1. map_of (RHeaders resp) ''Retry-After'' = Some (FormatInt n))))"

lemma contract_WriteProblem [simp]: "problem_ok p \<Longrightarrow> contract (WriteProblem p)"
proof -
  let ?retry = "if retryAfter p \<le> 0 \<and> (PStatus p = 429 \<or> PStatus p = 503) then second else retryAfter p"
  have "0 < ?retry \<Longrightarrow> 1 \<le> (if ?retry mod second \<noteq> 0 \<or> ?retry div second = 0 then ?retry div second + 1 else ?retry div second)"
    by (auto simp: second_def pos_imp_zdiv_nonneg_iff intro: order_le_neq_trans)
  then show "problem_ok p \<Longrightarrow> contract (WriteProblem p)"
    by (auto simp: contract_def WriteProblem_def Let_def second_def)
      (rule exI [where x = "retryAfter p div 1000000000 + 1"], simp)+
qed

lemma problem_ok_New [simp]: "problem_ok (NewProblem code inst [WithDetail d])" "problem_ok (NewProblem code inst [])"
  by (auto simp: problem_ok_def NewProblem_def WithDetail_def Let_def split: option.splits)

lemma contract_Error [simp]: "contract (Error r code [WithDetail d])"
  by (simp add: Error_def)

lemma contract_header [simp]:
  "contract resp \<Longrightarrow> contract (add_header ''Allow'' v resp)"
  "contract resp \<Longrightarrow> contract (add_header ''WWW-Authenticate'' v resp)"
  by (simp_all add: contract_def add_header_def)

lemma contract_fixed [simp]:
  "contract (noStorage r)" "contract (noConfigStore r)" "contract (bodyTooLarge r)" "contract (badJSON r msg)"
  "contract (badQueueName lib r e)" "contract (notConfigured r q)" "contract noContent" "contract redirect"
  "st < 400 \<Longrightarrow> contract (writeJSON st b)"
  by (simp_all add: noStorage_def noConfigStore_def bodyTooLarge_def badJSON_def badQueueName_def notConfigured_def)
    (simp_all add: contract_def noContent_def redirect_def writeJSON_def)

lemma submitOne_problem: "submitOne lib st mx r i q req s = (Inl p, s') \<Longrightarrow> problem_ok p"
  by (auto simp: submitOne_def buildEnvelope_def enqueueAndGet_def Let_def
      split: sum.splits if_splits prod.splits option.splits spi_error.splits)

lemma authorize_problem_ok: "authorize lib r s p oper = Inl prob \<Longrightarrow> problem_ok prob"
  by (auto simp: authorize_def split: if_splits option.splits sum.splits spi_error.splits)

lemma mutate_contract: "handleDLQMutate lib op action who q r s = Some (resp, s') \<Longrightarrow> contract resp"
  by (auto simp: handleDLQMutate_def mutateSelected_def split: option.splits sum.splits if_splits prod.splits)

lemma handlers_contract:
  "contract (fst (handleSubmitTask lib q r s))" "contract (fst (handleBatchSubmit lib q r s))"
  "contract (fst (handleGetTask lib tid r s))" "contract (fst (handleDLQList lib q r s))"
  "contract (fst (handleStats lib q r s))" "contract (fst (handleListQueues lib r s))"
  "contract (fst (handleQueueConfig lib who q r s))" "contract (fst (handleDeleteQueue lib q r s))"
  "contract (fst (handleAdminQueueAction who r s))" "contract (fst (handleNotFound r s))"
  by (auto simp: handleSubmitTask_def handleBatchSubmit_def handleGetTask_def handleDLQList_def handleStats_def
      handleListQueues_def handleQueueConfig_def handleGetQueueConfig_def handlePutQueueConfig_def handleDeleteQueue_def
      handleAdminQueueAction_def handleNotFound_def Let_def submitOne_problem
      split: option.splits decode.splits sum.splits prod.splits spi_error.splits store_error.splits bool.splits)

lemma only_contract:
  "only m h r s = Some (resp, s') \<Longrightarrow> (h r s = Some (resp, s') \<Longrightarrow> contract resp) \<Longrightarrow> contract resp"
  by (auto simp: only_def split: if_splits)

lemma fst_contract: "contract (fst x) \<Longrightarrow> x = (resp, s') \<Longrightarrow> contract resp"
  by auto

lemmas handler_contracts = handlers_contract [THEN fst_contract]

lemma v1_contract: "v1Handler lib who r s = Some (resp, s') \<Longrightarrow> contract resp"
  using list_shapes [of "Segments r"]
  by (auto simp: v1Handler_def handleRedrive_def handlePurge_def elim!: only_contract mutate_contract
      dest: handler_contracts split: list.splits if_splits)

text \<open>C33: every error the API answers is a problem document with a stable code, under the status that code
  stands for, and every answer that asks the client to come back later says after how many
  seconds, at least one. This holds of every route, with and without an authorizer.\<close>

theorem errors_are_problems:
  assumes "serve_v1 lib r s = Some (resp, s')" "400 \<le> RStatus resp"
  shows "map_of (RHeaders resp) ''Content-Type'' = Some ''application/problem+json''
    \<and> (\<exists>p. RBody resp = ProblemBody p \<and> PStatus p = RStatus resp \<and>
         map_option pdStatus (map_of problemDefs (PCode p)) = Some (RStatus resp))
    \<and> (RStatus resp \<in> {429, 503} \<longrightarrow> (\<exists>n \<ge> 1. map_of (RHeaders resp) ''Retry-After'' = Some (FormatInt n)))"
proof -
  have "contract resp" if "authMiddleware lib ts r s = Some (resp, s')" for ts
    using that v1_contract [of lib _ r s resp s'] authorize_problem_ok [of lib r s]
    by (auto simp: authMiddleware_def split: option.splits sum.splits bool.splits)
  then have "contract resp"
    using assms(1) v1_contract by (auto simp: serve_v1_def withAuth_def split: if_splits option.splits)
  with assms(2) show ?thesis by (auto simp: contract_def problem_ok_def)
qed

lemma sample_unauthenticated:
  "map_option (RStatus \<circ> fst) (serve_v1 sample_lib (sample_request ''GET'' [''admin'', ''queues''] []) sample_server) = Some 401"
  by code_simp

theorem errors_are_problems_witness:
  "\<exists>resp s' p. serve_v1 sample_lib (sample_request ''GET'' [''admin'', ''queues''] []) sample_server = Some (resp, s') \<and>
     RBody resp = ProblemBody p \<and> PStatus p = 401"
proof -
  obtain resp s' where run: "serve_v1 sample_lib (sample_request ''GET'' [''admin'', ''queues''] []) sample_server = Some (resp, s')"
    "RStatus resp = 401"
    using sample_unauthenticated by auto
  from errors_are_problems [OF run(1)] run show ?thesis by auto
qed

end
