(* ===== verification/Server_Http_Store.thy ===== *)
theory Server_Http_Store
  imports Server_Http_Props Memstore_Props Submit_Props
begin

text \<open>
  The HTTP surface over the in-memory store: redriving or purging by filter through the
  streaming path is the native filter operation, deletion is guarded, and a submission is
  stored or reported.
\<close>

section \<open>Streaming a filter\<close>

lemma collectByFilter_all:
  assumes "wf_store s" "decodeCursor after = Inr a" "st_DLQList st = DLQList"
  shows "collectByFilter st s q f after ids = Some (Inr (ids @ map fst (dlqMatched s q f a)))"
  using assms
proof (induction "length (dlqMatched s q f a)" arbitrary: after a ids rule: less_induct)
  case less
  let ?m = "dlqMatched s q f a"
  let ?pg = "\<lparr>Limit = collectPageSize, After = after\<rparr>"
  let ?n = "page_size ?pg"
  have n: "?n = 500" by (simp add: page_size_def collectPageSize_def)
  have view: "ID (page_view f kr) = fst kr" if "kr \<in> set ?m" for kr
  proof -
    obtain k r where kr: "kr = (k, r)" by (rule prod.exhaust)
    then have "ID (env r) = k"
      using less.prems(1) that by (auto simp: set_dlqMatched wf_rec_def dest: wf_storeD(2))
    then show ?thesis by (simp add: kr page_view_def)
  qed
  then have ids: "map (\<lambda>kr. ID (page_view f kr)) (take ?n ?m) = map fst (take ?n ?m)"
    by (intro map_cong refl) (auto dest: in_set_takeD)
  have page: "DLQList s q f ?pg = Inr (map (page_view f) (take ?n ?m),
      if ?n < length ?m then encodeCursor (rdlqSeq (snd (last (take ?n ?m)))) else [])"
    using less.prems(2) by (simp add: DLQList_unfold Let_def)
  show ?case
  proof (cases "?n < length ?m")
    case False
    then show ?thesis
      using page less.prems(3)
      by (subst collectByFilter.simps) (simp add: view comp_def)
  next
    case True
    let ?c = "encodeCursor (rdlqSeq (snd (last (take ?n ?m))))"
    have d: "dlqMatched s q f (rdlqSeq (snd (last (take ?n ?m)))) = drop ?n ?m"
      using dlqMatched_after [OF less.prems(1) page_size_pos] True by simp
    have "collectByFilter st s q f ?c (ids @ map fst (take ?n ?m)) =
        Some (Inr ((ids @ map fst (take ?n ?m)) @ map fst (drop ?n ?m)))"
      unfolding d [symmetric]
      by (rule less.hyps) (use less.prems(1,3) True n in \<open>simp_all add: d [unfolded n] decode_encodeCursor\<close>)
    then show ?thesis
      using True page less.prems(3)
      by (subst collectByFilter.simps) (simp add: ids comp_def encodeCursor_nonempty flip: map_append)
  qed
qed

text \<open>The server over the in-memory store, with or without native filters.\<close>

definition over :: "bool \<Rightarrow> (store, 'c) server \<Rightarrow> (store, 'c) server" where
  "over native s = s\<lparr>storage_of := Some (memstore\<lparr>st_Capabilities := Capabilities\<lparr>FilterPushdown := native\<rparr>\<rparr>)\<rparr>"

lemma selectDead_count:
  assumes "wf_store s" "distinct (IDs sel)"
  shows "length (selectDead s q sel) = card {k. \<exists>r. lookup s k = Some r \<and> isDead q r \<and> selects sel k r}"
proof -
  have "{k. \<exists>r. lookup s k = Some r \<and> isDead q r \<and> selects sel k r} = set (map fst (selectDead s q sel))"
    using selected_keys [OF assms(1), of _ q sel] by auto
  then show ?thesis using distinct_card [OF distinct_selectDead [OF assms, of q]] by simp
qed

text \<open>Collecting the ids first selects the same dead tasks as the filter itself.\<close>

lemma collected_selects:
  assumes "wf_store s" "lookup s k = Some r" "isDead q r"
  shows "selects \<lparr>IDs = map fst (dlqMatched s q f 0), Filter = None\<rparr> k r \<longleftrightarrow>
    selects \<lparr>IDs = [], Filter = Some f\<rparr> k r"
proof -
  have seq: "0 < rdlqSeq r"
    using wf_storeD(2) [OF assms(1,2)] assms(3) by (simp add: wf_rec_def isDead_def)
  have "k \<in> set (map fst (dlqMatched s q f 0)) \<longleftrightarrow> matchFilter r f"
    using set_dlqMatched [OF assms(1), of k _ q f 0] assms(2,3) seq by force
  then show ?thesis by (auto simp: selects_def)
qed

lemma collected_distinct: "wf_store s \<Longrightarrow> distinct (map fst (dlqMatched s q f a))"
  using wf_storeD(1) [of s] by (auto simp: dlqMatched_def distinct_map inj_on_def filter_id_conv intro: distinct_filter)

lemma collected_same:
  fixes q f
  assumes "wf_store s"
  defines "ids \<equiv> \<lparr>IDs = map fst (dlqMatched s q f 0), Filter = None\<rparr>" and "native \<equiv> \<lparr>IDs = [], Filter = Some f\<rparr>"
  shows "fst (Redrive now s q ids) = fst (Redrive now s q native)"
    "lookup (snd (Redrive now s q ids)) k = lookup (snd (Redrive now s q native)) k"
    "fst (Purge s q ids) = fst (Purge s q native)"
    "lookup (snd (Purge s q ids)) k = lookup (snd (Purge s q native)) k"
proof -
  have d: "distinct (IDs ids)" "distinct (IDs native)"
    using collected_distinct [OF assms(1)] by (simp_all add: ids_def native_def)
  note sel = collected_selects [OF assms(1), of _ _ q f, folded ids_def native_def]
  have "{k. \<exists>r. lookup s k = Some r \<and> isDead q r \<and> selects ids k r} =
      {k. \<exists>r. lookup s k = Some r \<and> isDead q r \<and> selects native k r}"
    using sel by blast
  then have "length (selectDead s q ids) = length (selectDead s q native)"
    by (simp add: selectDead_count [OF assms(1)] d)
  then show "fst (Redrive now s q ids) = fst (Redrive now s q native)" "fst (Purge s q ids) = fst (Purge s q native)"
    by (simp_all add: Redrive_def Purge_def Let_def)
  show "lookup (snd (Redrive now s q ids)) k = lookup (snd (Redrive now s q native)) k"
    using sel by (auto simp: Redrive_lookup [OF assms(1)] d split: option.splits)
  show "lookup (snd (Purge s q ids)) k = lookup (snd (Purge s q native)) k"
    using sel by (auto simp: Purge_lookup [OF assms(1)] split: option.splits)
qed

lemma storage_fields:
  "st_Redrive memstore = Redrive" "st_Purge memstore = Purge" "st_DLQList memstore = DLQList"
  "st_Stats memstore = Stats" "st_Get memstore = Get" "st_Enqueue memstore = Enqueue"
  by (simp_all add: memstore_def)

text \<open>C34: redriving or purging by filter over a backend without native filters, which the server does by
  paging through the dead-letter list and collecting ids, always returns, answers with the
  same count, writes the same audit record and leaves every task as the native filter would.\<close>

theorem streamed_filter_equals_native:
  assumes "wf_store (store_of s)" "SelectorBody r = Inr \<lparr>rIDs = [], rFilter = Some f\<rparr>"
    "handle = handleRedrive lib who q r \<or> handle = handlePurge lib who q r"
  shows "\<exists>resp s1 s2. handle (over True s) = Some (resp, s1) \<and> handle (over False s) = Some (resp, s2) \<and>
    RStatus resp = 200 \<and> auditLog s1 = auditLog s2 \<and> (\<forall>k. lookup (store_of s1) k = lookup (store_of s2) k)"
proof -
  let ?st = "memstore\<lparr>st_Capabilities := Capabilities\<lparr>FilterPushdown := False\<rparr>\<rparr>"
  have c: "collectByFilter ?st (store_of s) q f [] [] = Some (Inr (map fst (dlqMatched (store_of s) q f 0)))"
    using collectByFilter_all [OF assms(1), of "[]" 0 ?st q f "[]"] by (simp add: decodeCursor_def storage_fields)
  note same = collected_same [OF assms(1)]
  from assms(3) show ?thesis
  proof
    assume h: "handle = handleRedrive lib who q r"
    show ?thesis
      using same(1) [of "Now r"] same(2) [of "Now r"]
      unfolding h
      by (simp add: handleRedrive_def handleDLQMutate_def over_def assms(2) c mutateSelected_def Redrive_def
          Let_def storage_fields emit_def)
  next
    assume h: "handle = handlePurge lib who q r"
    show ?thesis
      using same(3,4) unfolding h
      by (simp add: handlePurge_def handleDLQMutate_def over_def assms(2) c mutateSelected_def Purge_def
          Let_def storage_fields emit_def)
  qed
qed

definition sample_over :: "store \<Rightarrow> (store, cfg_store) server" where
  "sample_over st = \<lparr>storage_of = Some memstore, store_of = st, configStore = Some memcfg, cfg_of = NewMemStore,
     authz = None, maxPayloadBytes = 1000, pausedSet = [], auditSink = True, auditLog = []\<rparr>"

theorem streamed_filter_equals_native_witness:
  "\<exists>resp s1 s2. handleRedrive sample_lib ''op'' ''q'' (sample_request ''POST'' [] []\<lparr>SelectorBody := Inr \<lparr>rIDs = [], rFilter = Some no_filter\<rparr>\<rparr>)
       (over True (sample_over sample_dead)) = Some (resp, s1) \<and>
     handleRedrive sample_lib ''op'' ''q'' (sample_request ''POST'' [] []\<lparr>SelectorBody := Inr \<lparr>rIDs = [], rFilter = Some no_filter\<rparr>\<rparr>)
       (over False (sample_over sample_dead)) = Some (resp, s2) \<and>
     lookup (store_of s1) ''a'' = lookup (store_of s2) ''a''"
proof -
  let ?r = "sample_request ''POST'' [] []\<lparr>SelectorBody := Inr \<lparr>rIDs = [], rFilter = Some no_filter\<rparr>\<rparr>"
  have "wf_store (store_of (sample_over sample_dead))" by (simp add: sample_over_def wf_sample_dead)
  from streamed_filter_equals_native [OF this, of ?r no_filter "handleRedrive sample_lib ''op'' ''q'' ?r"]
  show ?thesis by fastforce
qed

section \<open>Submission and deletion\<close>

definition sample_submission :: submit_request where
  "sample_submission = \<lparr>rID = ''01ARZ3NDEKTSV4RRFFQ69G5FAV'', rHandlerRef = ''h'', rPayload = Some ''x'',
     rContentType = ''text/plain'', rHeaders = []\<rparr>"

lemma buildEnvelope_task:
  assumes "buildEnvelope lib mx wall rnd inst q req tp = Inr e" "entropy_ok (lib_sha256 lib) rnd"
  shows "fresh_task e \<and> Queue e = q \<and> (rID req \<noteq> [] \<longrightarrow> ID e = rID req)"
proof -
  let ?h = "mergeTraceparent (rHeaders req) tp"
  let ?o = "(if rID req \<noteq> [] then [WithID (rID req)] else []) @ [WithContentType (rContentType req)] @
    (if ?h \<noteq> [] then [WithHeaders ?h] else [])"
  have sub: "Submit (lib_sha256 lib) rnd wall q (rHandlerRef req) (rPayload req) ?o = Inr e"
    using assms(1) by (auto simp: buildEnvelope_def Let_def split: if_splits sum.splits)
  have "oExplicitID (applied ?o) = rID req"
    by (simp add: applied_def WithID_def WithContentType_def WithHeaders_def no_options_def)
  then have "ID e = rID req" if "rID req \<noteq> []"
    using Submit_built [OF sub] that by (auto simp: resolveID_def split: sum.splits)
  then show ?thesis using Submit_task [OF sub assms(2)] by blast
qed

lemma problem_status_codes: "problem_ok p \<Longrightarrow> PStatus p \<noteq> 202"
  by (auto simp: problem_ok_def problemDefs_def split: if_splits)

text \<open>C35: a submission is stored or refused. When the server answers a submission with 202, the answer
  holds the task stored under its id, for the queue of the path and under the id asked for; every
  other task is as before, and a repeat of a known id changes nothing. Any other answer
  leaves every task as it was.\<close>

theorem submission_stored_or_refused:
  assumes "storage_of s = Some memstore" "entropy_ok (lib_sha256 lib) (Rnd r 0)"
    "handleSubmitTask lib q r s = (resp, s')" "wf_store (store_of s)"
  shows "(RStatus resp = 202 \<longrightarrow> (\<exists>req e. TaskBody r = Decoded_body req \<and> RBody resp = TaskOut e \<and> Queue e = q \<and>
        (rID req \<noteq> [] \<longrightarrow> ID e = rID req) \<and>
        map_option env (lookup (store_of s') (ID e)) = Some e \<and>
        (\<forall>k. k \<noteq> ID e \<longrightarrow> lookup (store_of s') k = lookup (store_of s) k) \<and>
        (lookup (store_of s) (ID e) \<noteq> None \<longrightarrow> s' = s)))
    \<and> (RStatus resp \<noteq> 202 \<longrightarrow> store_of s' = store_of s)"
proof (cases "TaskBody r")
  case (Decoded_body req)
  let ?m = "maxPayloadBytes s"
  show ?thesis
  proof (cases "buildEnvelope lib ?m (Now r) (Rnd r 0) (URL_Path r) q req (Traceparent r)")
    case (Inl p)
    then have "resp = WriteProblem p" "s' = s" "problem_ok p"
      using assms(1,3) Decoded_body submitOne_problem [of lib memstore ?m r 0 q req "store_of s" p]
      by (auto simp: handleSubmitTask_def submitOne_def)
    moreover have "PStatus p \<noteq> 202" using \<open>problem_ok p\<close> problem_status_codes by blast
    ultimately show ?thesis by simp
  next
    case (Inr e)
    have e: "Queue e = q" "rID req \<noteq> [] \<longrightarrow> ID e = rID req" "fresh_task e"
      using buildEnvelope_task [OF Inr assms(2)] by auto
    have h: "handleSubmitTask lib q r s = (case enqueueAndGet lib memstore (URL_Path r) e (store_of s) of
        (Inl p, s1) \<Rightarrow> (WriteProblem p, s\<lparr>store_of := s1\<rparr>)
      | (Inr stored, s1) \<Rightarrow> (writeJSON 202 (TaskOut stored), s\<lparr>store_of := s1\<rparr>))"
      using assms(1) Decoded_body Inr by (simp add: handleSubmitTask_def submitOne_def)
    show ?thesis
    proof (cases "lookup (store_of s) (ID e)")
      case None
      then show ?thesis
        using assms(3) h e Decoded_body
        by (auto simp: enqueueAndGet_def storage_fields Enqueue_def Get_def writeJSON_def)
    next
      case (Some old)
      have "ID (env old) = ID e" using wf_storeD(2) [OF assms(4) Some] by (simp add: wf_rec_def)
      with Some show ?thesis
        using assms(3) h e Decoded_body
        by (cases "Queue (env old) = q")
          (auto simp: enqueueAndGet_def storage_fields Enqueue_def Get_def writeJSON_def NewProblem_detail)
    qed
  qed
qed (use assms in \<open>auto simp: handleSubmitTask_def\<close>)

text \<open>C36: a queue is deleted only when it is empty: over the in-memory store, the server answers a deletion
  with success only if no task of the queue is pending, in flight or dead.\<close>

theorem deletion_only_when_empty:
  assumes "wf_store (store_of s)" "storage_of s = Some memstore" "handleDeleteQueue lib q r s = (resp, s')"
    "RStatus resp = 204" "lookup (store_of s) k = Some t" "Queue (env t) = q"
  shows "Status (env t) = StatusSucceeded"
proof -
  obtain st where st: "Stats (Now r) (store_of s) q = Inr st"
    "Pending st = int (card {k. \<exists>t. lookup (store_of s) k = Some t \<and> Queue (env t) = q \<and> Status (env t) = StatusPending})"
    "InFlight st = int (card {k. \<exists>t. lookup (store_of s) k = Some t \<and> Queue (env t) = q \<and> Status (env t) = StatusInFlight})"
    "DLQDepth st = int (card {k. \<exists>t. lookup (store_of s) k = Some t \<and> isDead q t})"
    using Stats_spec [OF assms(1)] by blast
  have "\<not> Pending st > 0 \<and> \<not> InFlight st > 0 \<and> \<not> DLQDepth st > 0"
    using assms(2,3,4) st(1)
    by (auto simp: handleDeleteQueue_def storage_fields split: option.splits prod.splits store_error.splits)
  moreover have "finite {k. \<exists>t. lookup (store_of s) k = Some t \<and> P t}" for P
    by (rule finite_subset [OF _ finite_dom_map_of [of "tasks (store_of s)"]]) auto
  ultimately have "\<not> (\<exists>t. lookup (store_of s) k = Some t \<and> Queue (env t) = q \<and> Status (env t) = StatusPending)"
    "\<not> (\<exists>t. lookup (store_of s) k = Some t \<and> Queue (env t) = q \<and> Status (env t) = StatusInFlight)"
    "\<not> (\<exists>t. lookup (store_of s) k = Some t \<and> isDead q t)"
    unfolding st(2-4) by (simp_all add: card_gt_0_iff) 
  moreover have "Status_Valid (Status (env t))" using wf_storeD(2) [OF assms(1,5)] by (simp add: wf_rec_def)
  ultimately show ?thesis using assms(5,6) by (auto simp: Status_Valid_def isDead_def)
qed

theorem deletion_only_when_empty_witness:
  "\<exists>resp s'. handleDeleteQueue sample_lib ''z'' (sample_request ''DELETE'' [] [])
     ((sample_over sample_dead)\<lparr>cfg_of := snd (Put_config ''z'' empty_queue_config NewMemStore)\<rparr>) = (resp, s') \<and>
     RStatus resp = 204 \<and> (\<forall>k t. lookup sample_dead k = Some t \<and> Queue (env t) = ''z'' \<longrightarrow> Status (env t) = StatusSucceeded)"
proof -
  let ?s = "(sample_over sample_dead)\<lparr>cfg_of := snd (Put_config ''z'' empty_queue_config NewMemStore)\<rparr>"
  have ok: "RStatus (fst (handleDeleteQueue sample_lib ''z'' (sample_request ''DELETE'' [] []) ?s)) = 204"
    by code_simp
  obtain resp s' where run: "handleDeleteQueue sample_lib ''z'' (sample_request ''DELETE'' [] []) ?s = (resp, s')"
    by (rule prod.exhaust)
  have "wf_store (store_of ?s)" "storage_of ?s = Some memstore" by (simp_all add: sample_over_def wf_sample_dead)
  note guard = deletion_only_when_empty [OF this run]
  show ?thesis using guard ok run by (auto simp: sample_over_def)
qed

theorem submission_stored_or_refused_witness:
  "\<exists>resp s' e. handleSubmitTask sample_lib ''q''
     (sample_request ''POST'' [] []\<lparr>TaskBody := Decoded_body sample_submission\<rparr>) (sample_over New) = (resp, s') \<and>
     RBody resp = TaskOut e \<and> map_option env (lookup (store_of s') (ID e)) = Some e"
proof -
  let ?r = "sample_request ''POST'' [] []\<lparr>TaskBody := Decoded_body sample_submission\<rparr>"
  have ok: "RStatus (fst (handleSubmitTask sample_lib ''q'' ?r (sample_over New))) = 202" by code_simp
  obtain resp s' where run: "handleSubmitTask sample_lib ''q'' ?r (sample_over New) = (resp, s')"
    by (rule prod.exhaust)
  have "storage_of (sample_over New) = Some memstore" "entropy_ok (lib_sha256 sample_lib) (Rnd ?r 0)"
    "wf_store (store_of (sample_over New))"
    by (simp_all add: sample_over_def entropy_ok_def sample_lib_def sample_request_def wf_New)
  from submission_stored_or_refused [OF this(1,2) run this(3)] ok run show ?thesis by auto
qed

end
