(* ===== verification/Callback.thy ===== *)
theory Callback
  imports Policy Config_Units Go_Strconv
begin

text \<open>
  Callback delivery (\<open>server/callback\<close>): the request's headers, its signature, and the
  classification of what came back. The keyed hash, JSON validity and quoting and the status
  texts are parameters; the exchange itself is an input, what the HTTP client reported.
\<close>

section \<open>Hexadecimal text and signatures\<close>

definition hex_char :: "nat \<Rightarrow> char" where
  "hex_char n = ''0123456789abcdef'' ! n"

definition hex_val :: "char \<Rightarrow> nat option" where
  "hex_val c = (let n = of_char c :: nat in
     if CHR ''0'' \<le> c \<and> c \<le> CHR ''9'' then Some (n - 48)
     else if CHR ''a'' \<le> c \<and> c \<le> CHR ''f'' then Some (n - 87)
     else if CHR ''A'' \<le> c \<and> c \<le> CHR ''F'' then Some (n - 55)
     else None)"

fun hex_EncodeToString :: "bytes \<Rightarrow> string" where
  "hex_EncodeToString [] = []"
| "hex_EncodeToString (b # bs) =
     (let n = of_char b :: nat in hex_char (n div 16) # hex_char (n mod 16) # hex_EncodeToString bs)"

fun hex_DecodeString :: "string \<Rightarrow> bytes option" where
  "hex_DecodeString [] = Some []"
| "hex_DecodeString [c] = None"
| "hex_DecodeString (c # d # s) = (case (hex_val c, hex_val d, hex_DecodeString s) of
      (Some h, Some l, Some bs) \<Rightarrow> Some (char_of (16 * h + l) # bs)
    | _ \<Rightarrow> None)"

definition SignatureHeader :: string where "SignatureHeader = ''X-RDQ-Signature''"

definition tag :: "(bytes \<Rightarrow> bytes \<Rightarrow> bytes) \<Rightarrow> bytes \<Rightarrow> bytes \<Rightarrow> int \<Rightarrow> string" where
  "tag hmac secret body ts = hex_EncodeToString (hmac secret (FormatInt ts @ ''.'' @ body))"

definition Sign :: "(bytes \<Rightarrow> bytes \<Rightarrow> bytes) \<Rightarrow> bytes \<Rightarrow> bytes \<Rightarrow> int \<Rightarrow> string" where
  "Sign hmac secret body ts = ''t='' @ FormatInt ts @ '',v1='' @ tag hmac secret body ts"

datatype signature_error = BadTimestamp string | MissingField | NotHex | Mismatch

fun parseParts :: "string list \<Rightarrow> int option \<Rightarrow> string option \<Rightarrow> signature_error + int option \<times> string option" where
  "parseParts [] ts v1 = Inr (ts, v1)"
| "parseParts (part # parts) ts v1 = (case Cut1 (TrimSpace part) CHR ''='' of
      None \<Rightarrow> parseParts parts ts v1
    | Some (k, v) \<Rightarrow>
        if k = ''t'' then (case ParseInt v of None \<Rightarrow> Inl (BadTimestamp v) | Some n \<Rightarrow> parseParts parts (Some n) v1)
        else if k = ''v1'' then parseParts parts ts (Some v)
        else parseParts parts ts v1)"

definition ParseSignature :: "string \<Rightarrow> signature_error + int \<times> string" where
  "ParseSignature header = (case parseParts (Split1 header CHR '','') None None of
      Inl e \<Rightarrow> Inl e
    | Inr (Some ts, Some v1) \<Rightarrow> Inr (ts, v1)
    | Inr _ \<Rightarrow> Inl MissingField)"

definition Verify :: "(bytes \<Rightarrow> bytes \<Rightarrow> bytes) \<Rightarrow> bytes \<Rightarrow> bytes \<Rightarrow> string \<Rightarrow> signature_error + int" where
  "Verify hmac secret body header = (case ParseSignature header of
      Inl e \<Rightarrow> Inl e
    | Inr (ts, v1) \<Rightarrow> (case hex_DecodeString v1 of
          None \<Rightarrow> Inl NotHex
        | Some want \<Rightarrow>
            if hex_DecodeString (tag hmac secret body ts) = Some want then Inr ts else Inl Mismatch))"

section \<open>Headers\<close>

text \<open>\<open>http.Header\<close> keys are canonicalized when they are valid tokens and kept as they are otherwise.\<close>

definition ascii_upper :: "char \<Rightarrow> char" where
  "ascii_upper c = (if CHR ''a'' \<le> c \<and> c \<le> CHR ''z'' then char_of (of_char c - 32 :: nat) else c)"

definition ascii_low :: "char \<Rightarrow> char" where
  "ascii_low c = (if CHR ''A'' \<le> c \<and> c \<le> CHR ''Z'' then char_of (of_char c + 32 :: nat) else c)"

definition token_char :: "char \<Rightarrow> bool" where
  "token_char c \<longleftrightarrow> (CHR ''a'' \<le> c \<and> c \<le> CHR ''z'') \<or> (CHR ''A'' \<le> c \<and> c \<le> CHR ''Z'') \<or>
     (CHR ''0'' \<le> c \<and> c \<le> CHR ''9'') \<or> c \<in> set ''!#$%&*+-.^_|~'' \<or> c = CHR 0x27 \<or> c = CHR 0x60"

fun canon_from :: "bool \<Rightarrow> string \<Rightarrow> string" where
  "canon_from upper [] = []"
| "canon_from upper (c # cs) = (if upper then ascii_upper c else ascii_low c) # canon_from (c = CHR ''-'') cs"

definition CanonicalHeaderKey :: "string \<Rightarrow> string" where
  "CanonicalHeaderKey k = (if list_all token_char k then canon_from True k else k)"

definition Header_Set :: "string \<Rightarrow> string \<Rightarrow> string gomap \<Rightarrow> string gomap" where
  "Header_Set k v h = AList.update (CanonicalHeaderKey k) v h"

definition HeaderTaskID :: string where "HeaderTaskID = ''X-RDQ-Task-Id''"
definition HeaderQueue :: string where "HeaderQueue = ''X-RDQ-Queue''"
definition HeaderHandlerRef :: string where "HeaderHandlerRef = ''X-RDQ-Handler-Ref''"
definition HeaderAttempt :: string where "HeaderAttempt = ''X-RDQ-Attempt''"
definition maxDetailBytes :: nat where "maxDetailBytes = 4096"

datatype auth_mode = CbNone | CbBearer | CbHeader | CbHMAC

record target =
  TURL :: string
  TContentType :: string
  TTimeout :: duration
  TAuth :: auth_mode
  HeaderName :: string
  Secret :: bytes
  TMapping :: "response_mapping option"

record cb_task =
  CID :: string
  CQueue :: string
  CHandlerRef :: string
  CAttempt :: int
  CPayload :: bytes
  CHeaders :: "string gomap"

text \<open>\<open>now\<close> is the dispatcher's clock in seconds since the epoch.\<close>

definition setHeaders :: "(bytes \<Rightarrow> bytes \<Rightarrow> bytes) \<Rightarrow> int \<Rightarrow> target \<Rightarrow> cb_task \<Rightarrow> string gomap \<Rightarrow> string gomap" where
  "setHeaders hmac now t task h0 =
     (let h1 = fold (\<lambda>(k, v) h. Header_Set k v h) (CHeaders task) h0;
          ct = (if TContentType t = [] then ''application/octet-stream'' else TContentType t);
          h2 = Header_Set HeaderAttempt (FormatInt (CAttempt task))
                 (Header_Set HeaderHandlerRef (CHandlerRef task)
                 (Header_Set HeaderQueue (CQueue task)
                 (Header_Set HeaderTaskID (CID task)
                 (Header_Set ''Content-Type'' ct h1))))
      in case TAuth t of
           CbBearer \<Rightarrow> Header_Set ''Authorization'' (''Bearer '' @ Secret t) h2
         | CbHeader \<Rightarrow> if HeaderName t \<noteq> [] then Header_Set (HeaderName t) (Secret t) h2 else h2
         | CbHMAC \<Rightarrow> Header_Set SignatureHeader (Sign hmac (Secret t) (CPayload task) now) h2
         | CbNone \<Rightarrow> h2)"

section \<open>Outcomes\<close>

definition matchers :: "status_matcher list option \<Rightarrow> status_matcher list" where
  "matchers l = or_else l []"

definition matchExact :: "status_matcher list option \<Rightarrow> int \<Rightarrow> bool" where
  "matchExact l status = list_ex (\<lambda>m. Code m > 0 \<and> Matches m status) (matchers l)"

definition matchClass :: "status_matcher list option \<Rightarrow> int \<Rightarrow> bool" where
  "matchClass l status = list_ex (\<lambda>m. Code m = 0 \<and> Matches m status) (matchers l)"

definition classifyStatus :: "int \<Rightarrow> response_mapping option \<Rightarrow> decision" where
  "classifyStatus status rm =
     (let dflt = (if status \<ge> 400 \<and> status < 500 then DecisionPermanent else DecisionRetryable) in
      case rm of None \<Rightarrow> dflt | Some rm \<Rightarrow>
        if matchExact (PermanentStatus rm) status then DecisionPermanent
        else if matchExact (RetryableStatus rm) status then DecisionRetryable
        else if matchClass (PermanentStatus rm) status then DecisionPermanent
        else if matchClass (RetryableStatus rm) status then DecisionRetryable
        else dflt)"

definition captureDetail :: "(bytes \<Rightarrow> bool) \<Rightarrow> (string \<Rightarrow> bytes) \<Rightarrow> bytes \<Rightarrow> bytes option" where
  "captureDetail jsonValid jsonQuote body =
     (let raw = take (maxDetailBytes + 1) body in
      if raw = [] then None
      else let truncated = length raw > maxDetailBytes;
               raw' = (if truncated then take maxDetailBytes raw else raw)
           in if \<not> truncated \<and> jsonValid raw' then Some raw'
              else Some (jsonQuote (if truncated then raw' @ TruncationMarker else raw')))"

record result =
  ROutcome :: outcome
  ResStatus :: int
  RError :: "error_detail option"

definition Success :: "result \<Rightarrow> bool" where
  "Success r \<longleftrightarrow> ROutcome r = OutcomeSuccess"

text \<open>
  The course of a delivery: the request could not be built, the client reported an error,
  which may be a timeout, or a response arrived.
\<close>

datatype exchange = NotBuilt string | TransportError bool string | Response int bytes

definition transportFailure :: "bool \<Rightarrow> string \<Rightarrow> result" where
  "transportFailure isTimeout msg =
     \<lparr>ROutcome = Decision_Outcome DecisionRetryable, ResStatus = 0,
      RError = Some \<lparr>ErrType = (if isTimeout then ''TIMEOUT'' else ''TRANSPORT_ERROR''), Message = msg,
        Detail = None, Stack = []\<rparr>\<rparr>"

definition Dispatch :: "(bytes \<Rightarrow> bool) \<Rightarrow> (string \<Rightarrow> bytes) \<Rightarrow> (int \<Rightarrow> string) \<Rightarrow> target \<Rightarrow> exchange \<Rightarrow>
    string + result" where
  "Dispatch jsonValid jsonQuote statusText t x = (case x of
      NotBuilt msg \<Rightarrow> Inl (''callback: build request: '' @ msg)
    | TransportError isTimeout msg \<Rightarrow> Inr (transportFailure isTimeout msg)
    | Response status body \<Rightarrow>
        if status \<ge> 200 \<and> status < 300 then
          Inr \<lparr>ROutcome = OutcomeSuccess, ResStatus = status, RError = None\<rparr>
        else
          Inr \<lparr>ROutcome = Decision_Outcome (classifyStatus status (TMapping t)), ResStatus = status,
              RError = Some \<lparr>ErrType = ''HTTP_'' @ FormatInt status,
                Message = ''callback returned '' @ FormatInt status @ '' '' @ statusText status,
                Detail = captureDetail jsonValid jsonQuote body, Stack = []\<rparr>\<rparr>)"

section \<open>Signatures\<close>

lemma hex_val_char: "n < 16 \<Longrightarrow> hex_val (hex_char n) = Some n"
proof -
  have "\<forall>n < 16. hex_val (hex_char n) = Some n" by code_simp
  then show "n < 16 \<Longrightarrow> hex_val (hex_char n) = Some n" by blast
qed

lemma hex_roundtrip: "hex_DecodeString (hex_EncodeToString bs) = Some bs"
proof (induction bs)
  case (Cons b bs)
  have "(of_char b :: nat) div 16 < 16" by (rule less_mult_imp_div_less) simp
  moreover have "16 * ((of_char b :: nat) div 16) + of_char b mod 16 = of_char b" by simp
  ultimately show ?case using Cons by (simp add: Let_def hex_val_char)
qed simp

lemma hex_chars: "c \<in> set (hex_EncodeToString bs) \<Longrightarrow> c \<in> set ''0123456789abcdef''"
proof (induction bs)
  case (Cons b bs)
  have "(of_char b :: nat) div 16 < 16" by (rule less_mult_imp_div_less) simp
  then have "hex_char (of_char b div 16) \<in> set ''0123456789abcdef''" "hex_char (of_char b mod 16) \<in> set ''0123456789abcdef''"
    unfolding hex_char_def by (auto intro!: nth_mem simp del: list.set)
  moreover have "c = hex_char (of_char b div 16) \<or> c = hex_char (of_char b mod 16) \<or> c \<in> set (hex_EncodeToString bs)"
    using Cons.prems by (simp add: Let_def)
  ultimately show ?case using Cons.IH by blast
qed simp

lemma FormatInt_chars: "c \<in> set (FormatInt n) \<Longrightarrow> c = CHR ''-'' \<or> digit_val c \<noteq> None"
  using FormatUint_digits by (auto simp: FormatInt_def split: if_splits)

lemma printable_parts:
  "c \<in> set (''t='' @ FormatInt ts) \<Longrightarrow> 32 < (of_char c :: nat) \<and> (of_char c :: nat) < 128 \<and> c \<noteq> CHR '',''"
  "c \<in> set (''v1='' @ hex_EncodeToString bs) \<Longrightarrow> 32 < (of_char c :: nat) \<and> (of_char c :: nat) < 128 \<and> c \<noteq> CHR '',''"
proof -
  have "digit_val (CHR '','') = None" by (simp add: digit_val_def)
  then show "c \<in> set (''t='' @ FormatInt ts) \<Longrightarrow> 32 < (of_char c :: nat) \<and> (of_char c :: nat) < 128 \<and> c \<noteq> CHR '',''"
    using FormatInt_ascii [of c ts] FormatInt_chars [of c ts] by auto
  show "c \<in> set (''v1='' @ hex_EncodeToString bs) \<Longrightarrow> 32 < (of_char c :: nat) \<and> (of_char c :: nat) < 128 \<and> c \<noteq> CHR '',''"
    using hex_chars [of c bs] by auto
qed

lemma ParseSignature_Sign:
  assumes "min_int64 \<le> ts" "ts \<le> max_int64"
  shows "ParseSignature (Sign hmac secret body ts) = Inr (ts, tag hmac secret body ts)"
proof -
  let ?a = "''t='' @ FormatInt ts" and ?b = "''v1='' @ tag hmac secret body ts"
  have comma: "CHR '','' \<notin> set ?a" "CHR '','' \<notin> set ?b"
    using printable_parts(1) [of "CHR '',''" ts] printable_parts(2) [of "CHR '',''"] unfolding tag_def by blast+
  have "Sign hmac secret body ts = ?a @ CHR '','' # ?b" by (simp add: Sign_def)
  then have split: "Split1 (Sign hmac secret body ts) CHR '','' = [?a, ?b]"
    by (simp only: Split1_append [OF comma(1)] Split1_no_sep [OF comma(2)])
  have trim: "TrimSpace ?a = ?a" "TrimSpace ?b = ?b"
    using printable_parts unfolding tag_def by (blast intro: TrimSpace_ascii)+
  have cut: "Cut1 ?a CHR ''='' = Some (''t'', FormatInt ts)" "Cut1 ?b CHR ''='' = Some (''v1'', tag hmac secret body ts)"
    by simp_all
  show ?thesis
    unfolding ParseSignature_def split
    by (simp only: parseParts.simps trim cut option.case prod.case ParseInt_FormatInt [OF assms]) simp
qed

text \<open>C37: a signed callback can be verified and not altered. The signature header of a body and a
  timestamp verifies for that body and returns that timestamp; conversely a header that
  verifies carries the keyed hash of the timestamp it claims and the body received, so
  when the hash has no collision under the secret a header made for one body verifies for no other.\<close>

theorem signature_binds_body:
  assumes "min_int64 \<le> ts" "ts \<le> max_int64"
  shows "Verify hmac secret body (Sign hmac secret body ts) = Inr ts
    \<and> (\<forall>header body' ts'. Verify hmac secret body' header = Inr ts' \<longrightarrow>
         (\<exists>v1. ParseSignature header = Inr (ts', v1) \<and>
            hex_DecodeString v1 = Some (hmac secret (FormatInt ts' @ ''.'' @ body'))))
    \<and> (inj (hmac secret) \<longrightarrow> (\<forall>body' ts'. Verify hmac secret body' (Sign hmac secret body ts) = Inr ts' \<longrightarrow>
         body' = body \<and> ts' = ts))"
proof (intro conjI allI impI)
  show "Verify hmac secret body (Sign hmac secret body ts) = Inr ts"
    by (simp add: Verify_def ParseSignature_Sign [OF assms] tag_def hex_roundtrip)
next
  fix header body' ts'
  assume "Verify hmac secret body' header = Inr ts'"
  then show "\<exists>v1. ParseSignature header = Inr (ts', v1) \<and>
      hex_DecodeString v1 = Some (hmac secret (FormatInt ts' @ ''.'' @ body'))"
    by (auto simp: Verify_def tag_def hex_roundtrip split: sum.splits option.splits if_splits)
next
  fix body' ts'
  assume "inj (hmac secret)" "Verify hmac secret body' (Sign hmac secret body ts) = Inr ts'"
  then show "body' = body" "ts' = ts"
    by (auto simp: Verify_def ParseSignature_Sign [OF assms] tag_def hex_roundtrip dest: injD split: if_splits)
qed

theorem signature_binds_body_witness:
  "Verify (\<lambda>k m. k @ m) ''key'' ''body'' (Sign (\<lambda>k m. k @ m) ''key'' ''body'' 17) = Inr 17 \<and>
   Verify (\<lambda>k m. k @ m) ''key'' ''other'' (Sign (\<lambda>k m. k @ m) ''key'' ''body'' 17) \<noteq> Inr 17"
proof -
  have "inj (\<lambda>m. ''key'' @ m)" by (auto intro: injI)
  then show ?thesis using signature_binds_body [of 17 "\<lambda>k m. k @ m" "''key''" "''body''"] by auto
qed

section \<open>Outcome of a delivery\<close>

lemma matchExact_iff: "matchExact l status \<longleftrightarrow> (\<exists>m \<in> set (matchers l). 0 < Code m \<and> Code m = status)"
  by (auto simp: matchExact_def list_ex_iff Matches_def)

lemma matchClass_iff: "matchClass l status \<longleftrightarrow> (\<exists>m \<in> set (matchers l). Code m = 0 \<and> Matches m status)"
  by (auto simp: matchClass_def list_ex_iff)

lemma Decision_Outcome_simps:
  "Decision_Outcome d = OutcomePermanentFailure \<longleftrightarrow> d = DecisionPermanent" "Decision_Outcome d \<noteq> OutcomeSuccess"
  "OutcomeSuccess \<noteq> OutcomePermanentFailure"
  by (simp_all add: Decision_Outcome_def OutcomePermanentFailure_def OutcomeRetryableFailure_def OutcomeSuccess_def)

lemma classifyStatus_permanent:
  "classifyStatus status rm = DecisionPermanent \<longleftrightarrow> (case rm of
      None \<Rightarrow> status \<in> {400..<500}
    | Some rm \<Rightarrow>
        if matchExact (PermanentStatus rm) status \<or> matchExact (RetryableStatus rm) status
        then matchExact (PermanentStatus rm) status
        else if matchClass (PermanentStatus rm) status \<or> matchClass (RetryableStatus rm) status
        then matchClass (PermanentStatus rm) status
        else status \<in> {400..<500})"
  by (auto simp: classifyStatus_def Let_def split: option.splits)

text \<open>Only an answer can end a task. A delivery that got no answer is always to be retried; any 2xx
  answer is a success whatever the mapping says; any other answer is permanent exactly when
  the most specific rule that matches it says so, an exact code before a class, permanent
  before retryable, and 4xx when no rule matches.\<close>

theorem delivery_outcome:
  "(\<forall>late msg. Dispatch jv jq stx t (TransportError late msg) = Inr (transportFailure late msg) \<and>
      ROutcome (transportFailure late msg) = OutcomeRetryableFailure)
   \<and> (\<forall>status body. \<exists>res. Dispatch jv jq stx t (Response status body) = Inr res \<and> ResStatus res = status \<and>
      (Success res \<longleftrightarrow> status \<in> {200..<300}) \<and>
      (ROutcome res = OutcomePermanentFailure \<longleftrightarrow> status \<notin> {200..<300} \<and>
        (case TMapping t of
           None \<Rightarrow> status \<in> {400..<500}
         | Some rm \<Rightarrow>
             if \<exists>m \<in> set (matchers (PermanentStatus rm) @ matchers (RetryableStatus rm)). 0 < Code m \<and> Code m = status
             then \<exists>m \<in> set (matchers (PermanentStatus rm)). 0 < Code m \<and> Code m = status
             else if \<exists>m \<in> set (matchers (PermanentStatus rm) @ matchers (RetryableStatus rm)). Code m = 0 \<and> Matches m status
             then \<exists>m \<in> set (matchers (PermanentStatus rm)). Code m = 0 \<and> Matches m status
             else status \<in> {400..<500})))"
proof (intro conjI allI)
  fix status body
  let ?e = "\<lambda>l. matchExact l status" and ?c = "\<lambda>l. matchClass l status"
  show "\<exists>res. Dispatch jv jq stx t (Response status body) = Inr res \<and> ResStatus res = status \<and>
      (Success res \<longleftrightarrow> status \<in> {200..<300}) \<and>
      (ROutcome res = OutcomePermanentFailure \<longleftrightarrow> status \<notin> {200..<300} \<and>
        (case TMapping t of
           None \<Rightarrow> status \<in> {400..<500}
         | Some rm \<Rightarrow>
             if \<exists>m \<in> set (matchers (PermanentStatus rm) @ matchers (RetryableStatus rm)). 0 < Code m \<and> Code m = status
             then \<exists>m \<in> set (matchers (PermanentStatus rm)). 0 < Code m \<and> Code m = status
             else if \<exists>m \<in> set (matchers (PermanentStatus rm) @ matchers (RetryableStatus rm)). Code m = 0 \<and> Matches m status
             then \<exists>m \<in> set (matchers (PermanentStatus rm)). Code m = 0 \<and> Matches m status
             else status \<in> {400..<500}))"
    unfolding set_append bex_Un matchExact_iff [symmetric] matchClass_iff [symmetric] classifyStatus_permanent [symmetric]
    by (auto simp: Dispatch_def Success_def Decision_Outcome_simps)
qed (simp_all add: Dispatch_def transportFailure_def Decision_Outcome_def)

section \<open>Headers of a delivery\<close>

text \<open>The names the dispatcher controls, as they stand on the wire.\<close>

lemma canonical_names:
  "CanonicalHeaderKey HeaderTaskID = ''X-Rdq-Task-Id''" "CanonicalHeaderKey HeaderQueue = ''X-Rdq-Queue''"
  "CanonicalHeaderKey HeaderHandlerRef = ''X-Rdq-Handler-Ref''" "CanonicalHeaderKey HeaderAttempt = ''X-Rdq-Attempt''"
  "CanonicalHeaderKey SignatureHeader = ''X-Rdq-Signature''" "CanonicalHeaderKey ''Authorization'' = ''Authorization''"
  "CanonicalHeaderKey ''Content-Type'' = ''Content-Type''"
  by code_simp+

text \<open>A task cannot disguise its delivery. Whatever headers the task carries, in whatever spelling, the
  delivery's task id, queue, handler and attempt are the task's own, a bearer credential is
  the target's secret, and a signature header verifies for the payload and the time of
  dispatch; only a target whose own credential header takes one of these names is excepted.\<close>

theorem headers_not_shadowed:
  assumes "TAuth t = CbHeader \<longrightarrow> CanonicalHeaderKey (HeaderName t) \<notin>
      {''X-Rdq-Task-Id'', ''X-Rdq-Queue'', ''X-Rdq-Handler-Ref'', ''X-Rdq-Attempt''}"
    "min_int64 \<le> now" "now \<le> max_int64" "h = setHeaders hmac now t task h0"
  shows "map_of h ''X-Rdq-Task-Id'' = Some (CID task) \<and> map_of h ''X-Rdq-Queue'' = Some (CQueue task)
    \<and> map_of h ''X-Rdq-Handler-Ref'' = Some (CHandlerRef task)
    \<and> map_of h ''X-Rdq-Attempt'' = Some (FormatInt (CAttempt task))
    \<and> (TAuth t = CbBearer \<longrightarrow> map_of h ''Authorization'' = Some (''Bearer '' @ Secret t))
    \<and> (TAuth t = CbHMAC \<longrightarrow> (\<exists>sig. map_of h ''X-Rdq-Signature'' = Some sig \<and>
          Verify hmac (Secret t) (CPayload task) sig = Inr now))"
proof -
  have v: "Verify hmac (Secret t) (CPayload task) (Sign hmac (Secret t) (CPayload task) now) = Inr now"
    by (simp add: Verify_def ParseSignature_Sign [OF assms(2,3)] tag_def hex_roundtrip)
  show ?thesis
    using assms(1) unfolding assms(4) setHeaders_def Let_def Header_Set_def canonical_names
    by (cases "TAuth t") (auto simp: v)
qed

theorem headers_not_shadowed_witness:
  "map_of (setHeaders (\<lambda>k m. m) 17 \<lparr>TURL = ''u'', TContentType = [], TTimeout = 0, TAuth = CbHMAC, HeaderName = [],
       Secret = ''s'', TMapping = None\<rparr>
     \<lparr>CID = ''1'', CQueue = ''q'', CHandlerRef = ''h'', CAttempt = 2, CPayload = ''p'',
      CHeaders = [(''x-rdq-task-id'', ''forged'')]\<rparr> []) ''X-Rdq-Task-Id'' = Some ''1''"
proof -
  let ?t = "\<lparr>TURL = ''u'', TContentType = [], TTimeout = 0, TAuth = CbHMAC, HeaderName = [],
       Secret = ''s'', TMapping = None\<rparr>"
  let ?k = "\<lparr>CID = ''1'', CQueue = ''q'', CHandlerRef = ''h'', CAttempt = 2, CPayload = ''p'',
      CHeaders = [(''x-rdq-task-id'', ''forged'')]\<rparr>"
  have "map_of (setHeaders (\<lambda>k m. m) 17 ?t ?k []) ''X-Rdq-Task-Id'' = Some (CID ?k)"
    by (rule conjunct1 [OF headers_not_shadowed [OF _ _ _ refl]]) simp_all
  then show ?thesis by simp
qed

end
