(* ===== verification/Postgres.thy ===== *)
theory Postgres
  imports Spi Go_Strconv Go_Base64 Config_Units
begin

text \<open>
  The PostgreSQL backend (\<open>storage/postgres\<close>): the mapping between envelopes and rows, and each
  method as the transaction it runs. The three tables are lists of rows in the order a scan
  would meet them, a SQL statement is a function on them, and a method whose transaction fails
  leaves the database as it was. What the database server and driver do is a parameter: the
  precision of a timestamp, the normal form of a JSON document, which texts the server
  accepts, the UUIDs it generates, the order in which an update returns rows and the collation of
  ids; so is \<open>encoding/json\<close>. Rows locked by other sessions are part of the state.
\<close>

section \<open>Rows and tables\<close>

record task_row =
  tID :: string
  tQueue :: string
  tEnvelopeVersion :: int
  tHandlerRef :: string
  tHandlerVersion :: "string option"
  tPayload :: "bytes option"
  tPayloadContentType :: string
  tPayloadRef :: "string option"
  tHeaders :: bytes
  tStatus :: string
  tAttemptCount :: int
  tRedriveCount :: int
  tNextAttemptAt :: "time option"
  tLeaseExpiresAt :: "time option"
  tCreatedAt :: time
  tResidual :: bytes

record attempt_row =
  aTaskID :: string
  aAttemptNo :: int
  aStartedAt :: time
  aFinishedAt :: "time option"
  aOutcome :: string
  aErrorType :: "string option"
  aErrorMessage :: "string option"
  aErrorDetail :: "bytes option"
  aErrorStack :: "string option"
  aResidual :: bytes

record live_row = task_row +
  claim_token :: "string option"

record dlq_row = task_row +
  dead_lettered_at :: time
  error_type :: "string option"

record pg =
  rdq_task :: "live_row list"
  rdq_dlq_task :: "dlq_row list"
  rdq_attempt :: "attempt_row list"
  due_notes :: "string list"
  uuids :: nat
  row_locks :: "string list"

datatype sql_error = UniqueViolation | CheckViolation | NotNullViolation | OutOfRange | InvalidText | InvalidJson

record pg_lib =
  ts :: "time \<Rightarrow> time"
  make_interval :: "f64 \<Rightarrow> duration"
  jsonb :: "bytes \<Rightarrow> bytes option"
  text_ok :: "string \<Rightarrow> bool"
  gen_random_uuid :: "nat \<Rightarrow> string"
  update_order :: "live_row list \<Rightarrow> live_row list"
  collate :: "string \<Rightarrow> string"
  sql_message :: "sql_error \<Rightarrow> string"
  marshalStrings :: "string gomap \<Rightarrow> bytes"
  unmarshalStrings :: "bytes \<Rightarrow> string + string gomap"
  marshalRaw :: "bytes gomap \<Rightarrow> string + bytes"
  unmarshalRaw :: "bytes \<Rightarrow> string + bytes gomap"

abbreviation pg_failure :: "pg_lib \<Rightarrow> string \<Rightarrow> sql_error \<Rightarrow> spi_error" where
  "pg_failure lib pre e \<equiv> ErrBackend (''rdq/postgres: '' @ pre @ '': '' @ sql_message lib e)"

section \<open>Envelopes and rows\<close>

definition emptyToNil :: "string \<Rightarrow> string option" where
  "emptyToNil s = (if s = [] then None else Some s)"

definition nilToEmpty :: "string option \<Rightarrow> string" where
  "nilToEmpty s = (case s of None \<Rightarrow> [] | Some v \<Rightarrow> v)"

definition encodeStringMap :: "pg_lib \<Rightarrow> string gomap \<Rightarrow> bytes" where
  "encodeStringMap lib m = (if m = [] then ''{}'' else marshalStrings lib m)"

definition decodeStringMap :: "pg_lib \<Rightarrow> bytes \<Rightarrow> string + string gomap" where
  "decodeStringMap lib b = (if b = [] then Inr [] else unmarshalStrings lib b)"

definition encodeResidual :: "pg_lib \<Rightarrow> bytes gomap \<Rightarrow> string + bytes" where
  "encodeResidual lib m = (if m = [] then Inr ''{}'' else marshalRaw lib m)"

definition decodeResidual :: "pg_lib \<Rightarrow> bytes \<Rightarrow> string + bytes gomap" where
  "decodeResidual lib b = (if b = [] then Inr [] else unmarshalRaw lib b)"

definition taskRowFromEnvelope :: "pg_lib \<Rightarrow> envelope \<Rightarrow> spi_error + task_row" where
  "taskRowFromEnvelope lib e = (case encodeResidual lib (Residual e) of
      Inl m \<Rightarrow> Inl (ErrBackend (''rdq/postgres: encoding residual: '' @ m))
    | Inr residual \<Rightarrow> Inr
        \<lparr>tID = ID e, tQueue = Queue e, tEnvelopeVersion = EnvelopeVersion e, tHandlerRef = HandlerRef e,
         tHandlerVersion = emptyToNil (HandlerVersion e), tPayload = Payload e,
         tPayloadContentType = PayloadContentType e, tPayloadRef = PayloadRef e,
         tHeaders = encodeStringMap lib (Headers e), tStatus = Status e,
         tAttemptCount = AttemptCount e, tRedriveCount = RedriveCount e,
         tNextAttemptAt = NextAttemptAt e, tLeaseExpiresAt = LeaseExpiresAt e,
         tCreatedAt = CreatedAt e, tResidual = residual\<rparr>)"

definition attemptRowFromAttempt :: "pg_lib \<Rightarrow> task_id \<Rightarrow> attempt \<Rightarrow> spi_error + attempt_row" where
  "attemptRowFromAttempt lib taskID a = (case encodeResidual lib (AResidual a) of
      Inl m \<Rightarrow> Inl (ErrBackend (''rdq/postgres: encoding attempt '' @ FormatInt (AttemptNo a) @ '' residual: '' @ m))
    | Inr residual \<Rightarrow> Inr
        (let row = \<lparr>aTaskID = taskID, aAttemptNo = AttemptNo a, aStartedAt = StartedAt a,
               aFinishedAt = FinishedAt a, aOutcome = Outcome a, aErrorType = None, aErrorMessage = None,
               aErrorDetail = None, aErrorStack = None, aResidual = residual\<rparr>
         in case Err a of None \<Rightarrow> row
            | Some d \<Rightarrow> row\<lparr>aErrorType := Some (ErrType d), aErrorMessage := Some (Message d),
                aErrorStack := emptyToNil (Stack d),
                aErrorDetail := (case Detail d of None \<Rightarrow> None | Some b \<Rightarrow> if b = [] then None else Some b)\<rparr>))"

fun attemptRowsFrom :: "pg_lib \<Rightarrow> task_id \<Rightarrow> attempt list \<Rightarrow> spi_error + attempt_row list" where
  "attemptRowsFrom lib taskID [] = Inr []"
| "attemptRowsFrom lib taskID (a # as) = (case attemptRowFromAttempt lib taskID a of
      Inl e \<Rightarrow> Inl e
    | Inr row \<Rightarrow> (case attemptRowsFrom lib taskID as of Inl e \<Rightarrow> Inl e | Inr rows \<Rightarrow> Inr (row # rows)))"

definition attemptRowsFromEnvelope :: "pg_lib \<Rightarrow> envelope \<Rightarrow> spi_error + attempt_row list" where
  "attemptRowsFromEnvelope lib e = attemptRowsFrom lib (ID e) (Attempts e)"

definition attemptFromRow :: "pg_lib \<Rightarrow> attempt_row \<Rightarrow> spi_error + attempt" where
  "attemptFromRow lib r = (case decodeResidual lib (aResidual r) of
      Inl m \<Rightarrow> Inl (ErrBackend (''rdq/postgres: decoding attempt '' @ FormatInt (aAttemptNo r) @ '' residual: '' @ m))
    | Inr residual \<Rightarrow> Inr
        \<lparr>AttemptNo = aAttemptNo r, StartedAt = aStartedAt r, FinishedAt = aFinishedAt r, Outcome = aOutcome r,
         Err = (case aErrorType r of None \<Rightarrow> None
           | Some t \<Rightarrow> Some \<lparr>ErrType = t, Message = nilToEmpty (aErrorMessage r),
               Detail = (case aErrorDetail r of None \<Rightarrow> None | Some b \<Rightarrow> if b = [] then None else Some b),
               Stack = nilToEmpty (aErrorStack r)\<rparr>),
         AResidual = residual\<rparr>)"

fun attemptsFromRows :: "pg_lib \<Rightarrow> attempt_row list \<Rightarrow> spi_error + attempt list" where
  "attemptsFromRows lib [] = Inr []"
| "attemptsFromRows lib (r # rs) = (case attemptFromRow lib r of
      Inl e \<Rightarrow> Inl e
    | Inr a \<Rightarrow> (case attemptsFromRows lib rs of Inl e \<Rightarrow> Inl e | Inr as \<Rightarrow> Inr (a # as)))"

definition envelopeFromRows :: "pg_lib \<Rightarrow> 'a task_row_scheme \<Rightarrow> attempt_row list \<Rightarrow> spi_error + envelope" where
  "envelopeFromRows lib t attempts = (case decodeStringMap lib (tHeaders t) of
      Inl m \<Rightarrow> Inl (ErrBackend (''rdq/postgres: decoding headers: '' @ m))
    | Inr headers \<Rightarrow> (case decodeResidual lib (tResidual t) of
        Inl m \<Rightarrow> Inl (ErrBackend (''rdq/postgres: decoding residual: '' @ m))
      | Inr residual \<Rightarrow> (case attemptsFromRows lib attempts of
          Inl e \<Rightarrow> Inl e
        | Inr as \<Rightarrow> Inr
            \<lparr>EnvelopeVersion = tEnvelopeVersion t, ID = tID t, Queue = tQueue t, HandlerRef = tHandlerRef t,
             HandlerVersion = nilToEmpty (tHandlerVersion t), Payload = tPayload t,
             PayloadContentType = tPayloadContentType t, PayloadRef = tPayloadRef t, Headers = headers,
             Status = tStatus t, AttemptCount = tAttemptCount t, RedriveCount = tRedriveCount t,
             NextAttemptAt = tNextAttemptAt t, LeaseExpiresAt = tLeaseExpiresAt t, CreatedAt = tCreatedAt t,
             Attempts = as, Residual = residual\<rparr>)))"

definition terminalErrorType :: "envelope \<Rightarrow> string option" where
  "terminalErrorType e = (if Attempts e = [] then None
     else case Err (last (Attempts e)) of None \<Rightarrow> None | Some d \<Rightarrow> Some (ErrType d))"

section \<open>Binding values and checking constraints\<close>

text \<open>
  Binding a row's values for a statement and the column types and constraints of
  \<open>migrations/0001_init.up.sql\<close>: timestamps take the column's precision, JSON its normal form,
  texts and integers that the column type cannot hold are refused.
\<close>

definition int4 :: "int \<Rightarrow> bool" where
  "int4 n \<longleftrightarrow> - (2 ^ 31) \<le> n \<and> n < 2 ^ 31"

definition texts_ok :: "pg_lib \<Rightarrow> string list \<Rightarrow> bool" where
  "texts_ok lib xs = list_all (text_ok lib) xs"

definition opt_text :: "string option \<Rightarrow> string list" where
  "opt_text x = (case x of None \<Rightarrow> [] | Some v \<Rightarrow> [v])"

definition bind_task :: "pg_lib \<Rightarrow> task_row \<Rightarrow> sql_error + task_row" where
  "bind_task lib r =
     (if \<not> texts_ok lib ([tID r, tQueue r, tHandlerRef r, tPayloadContentType r, tStatus r] @
           opt_text (tHandlerVersion r) @ opt_text (tPayloadRef r)) then Inl InvalidText
      else if \<not> (int4 (tEnvelopeVersion r) \<and> int4 (tAttemptCount r) \<and> int4 (tRedriveCount r)) then Inl OutOfRange
      else case (jsonb lib (tHeaders r), jsonb lib (tResidual r)) of
        (Some h, Some x) \<Rightarrow>
          if tPayload r = None then Inl NotNullViolation
          else if tStatus r \<notin> {StatusPending, StatusInFlight, StatusSucceeded} then Inl CheckViolation
          else Inr (r\<lparr>tHeaders := h, tResidual := x, tNextAttemptAt := map_option (ts lib) (tNextAttemptAt r),
            tLeaseExpiresAt := map_option (ts lib) (tLeaseExpiresAt r), tCreatedAt := ts lib (tCreatedAt r)\<rparr>)
      | _ \<Rightarrow> Inl InvalidJson)"

definition bind_attempt :: "pg_lib \<Rightarrow> attempt_row \<Rightarrow> sql_error + attempt_row" where
  "bind_attempt lib r =
     (let detail = (case aErrorDetail r of None \<Rightarrow> Some None | Some b \<Rightarrow> map_option Some (jsonb lib b)) in
      if \<not> texts_ok lib ([aTaskID r, aOutcome r] @ opt_text (aErrorType r) @ opt_text (aErrorMessage r) @
           opt_text (aErrorStack r)) then Inl InvalidText
      else if \<not> int4 (aAttemptNo r) then Inl OutOfRange
      else case (detail, jsonb lib (aResidual r)) of
        (Some d, Some x) \<Rightarrow>
          if \<not> Outcome_Valid (aOutcome r) then Inl CheckViolation
          else Inr (r\<lparr>aErrorDetail := d, aResidual := x, aStartedAt := ts lib (aStartedAt r),
            aFinishedAt := map_option (ts lib) (aFinishedAt r)\<rparr>)
      | _ \<Rightarrow> Inl InvalidJson)"

text \<open>The unique key of \<open>rdq_attempt\<close>.\<close>

definition add_attempt :: "attempt_row \<Rightarrow> pg \<Rightarrow> sql_error + pg" where
  "add_attempt r s =
     (if list_ex (\<lambda>x. aTaskID x = aTaskID r \<and> aAttemptNo x = aAttemptNo r) (rdq_attempt s) then Inl UniqueViolation
      else Inr (s\<lparr>rdq_attempt := rdq_attempt s @ [r]\<rparr>))"

definition insertAttempt :: "pg_lib \<Rightarrow> attempt_row \<Rightarrow> pg \<Rightarrow> sql_error + pg" where
  "insertAttempt lib r s = (case bind_attempt lib r of Inl e \<Rightarrow> Inl e | Inr row \<Rightarrow> add_attempt row s)"

fun insertAttempts :: "pg_lib \<Rightarrow> attempt_row list \<Rightarrow> pg \<Rightarrow> sql_error + pg" where
  "insertAttempts lib [] s = Inr s"
| "insertAttempts lib (r # rs) s = (case insertAttempt lib r s of Inl e \<Rightarrow> Inl e | Inr s' \<Rightarrow> insertAttempts lib rs s')"

definition loadAttempts :: "pg \<Rightarrow> task_id \<Rightarrow> attempt_row list" where
  "loadAttempts s taskID = sort_key aAttemptNo (filter (\<lambda>a. aTaskID a = taskID) (rdq_attempt s))"

section \<open>Enqueueing\<close>

definition lookupQueue :: "pg \<Rightarrow> task_id \<Rightarrow> string option" where
  "lookupQueue s tid = (case filter (\<lambda>r. tID r = tid) (rdq_task s) of
      r # _ \<Rightarrow> Some (tQueue r)
    | [] \<Rightarrow> (case filter (\<lambda>r. tID r = tid) (rdq_dlq_task s) of r # _ \<Rightarrow> Some (tQueue r) | [] \<Rightarrow> None))"

definition notifyDue :: "string \<Rightarrow> pg \<Rightarrow> pg" where
  "notifyDue queue s = s\<lparr>due_notes := due_notes s @ [queue]\<rparr>"

text \<open>
  The second half of \<open>Enqueue\<close>, from the insert on. It runs on the database as it is then, which
  other sessions may have changed since the lookup; \<open>ON CONFLICT DO NOTHING\<close> covers \<open>rdq_task\<close>.
\<close>

definition enqueueInsert :: "pg_lib \<Rightarrow> pg \<Rightarrow> task_row \<Rightarrow> attempt_row list \<Rightarrow> spi_error option \<times> pg" where
  "enqueueInsert lib s row attempts = (case bind_task lib row of
      Inl e \<Rightarrow> (Some (pg_failure lib ''Enqueue insert'' e), s)
    | Inr row' \<Rightarrow>
        if list_ex (\<lambda>r. tID r = tID row') (rdq_task s) then
          (if lookupQueue s (tID row) \<noteq> Some (tQueue row) then (Some ErrIDConflict, s) else (None, s))
        else
          (case insertAttempts lib attempts
             (s\<lparr>rdq_task := rdq_task s @ [task_row.extend row' (live_row.fields None)]\<rparr>) of
             Inl e \<Rightarrow> (Some (pg_failure lib ''Enqueue recording attempt'' e), s)
           | Inr s' \<Rightarrow> (None, notifyDue (tQueue row') s')))"

definition pg_Enqueue :: "pg_lib \<Rightarrow> pg \<Rightarrow> envelope \<Rightarrow> spi_error option \<times> pg" where
  "pg_Enqueue lib s task = (case taskRowFromEnvelope lib task of
      Inl e \<Rightarrow> (Some e, s)
    | Inr row \<Rightarrow> (case attemptRowsFromEnvelope lib task of
        Inl e \<Rightarrow> (Some e, s)
      | Inr attempts \<Rightarrow>
          if \<not> text_ok lib (tID row) then (Some (pg_failure lib ''Enqueue lookup'' InvalidText), s)
          else (case lookupQueue s (tID row) of
              Some existingQueue \<Rightarrow>
                if existingQueue \<noteq> tQueue row then (Some ErrIDConflict, s) else (None, s)
            | None \<Rightarrow> enqueueInsert lib s row attempts)))"

section \<open>Claiming\<close>

text \<open>SQL comparison with a possibly null column, and its place in an ascending order.\<close>

definition at_most :: "time option \<Rightarrow> time \<Rightarrow> bool" where
  "at_most t now = (case t of None \<Rightarrow> False | Some v \<Rightarrow> v \<le> now)"

definition nulls_last :: "time option \<Rightarrow> bool \<times> time" where
  "nulls_last t = (case t of None \<Rightarrow> (True, 0) | Some v \<Rightarrow> (False, v))"

definition dueRow :: "time \<Rightarrow> string \<Rightarrow> live_row \<Rightarrow> bool" where
  "dueRow now queue r \<longleftrightarrow> tQueue r = queue \<and>
     (tStatus r = StatusPending \<and> at_most (tNextAttemptAt r) now \<or>
      tStatus r = StatusInFlight \<and> at_most (tLeaseExpiresAt r) now)"

definition dueRows :: "time \<Rightarrow> pg \<Rightarrow> string \<Rightarrow> int \<Rightarrow> live_row list" where
  "dueRows now s queue limit = take (nat limit)
     (sort_key (\<lambda>r. nulls_last (tNextAttemptAt r))
       (filter (\<lambda>r. dueRow now queue r \<and> tID r \<notin> set (row_locks s)) (rdq_task s)))"

record claimed_row =
  crow :: task_row
  ctoken :: claim_token
  prevStatus :: string
  prevLease :: "time option"

definition leased :: "time \<Rightarrow> claim_token \<Rightarrow> live_row \<Rightarrow> live_row" where
  "leased until tok r = r\<lparr>tStatus := StatusInFlight, tLeaseExpiresAt := Some until, claim_token := Some tok\<rparr>"

definition claimSQL :: "pg_lib \<Rightarrow> time \<Rightarrow> pg \<Rightarrow> string \<Rightarrow> int \<Rightarrow> f64 \<Rightarrow> claimed_row list \<times> pg" where
  "claimSQL lib now s queue limit secs =
     (let rows = update_order lib (dueRows now s queue limit);
          until = now + make_interval lib secs;
          toks = map (gen_random_uuid lib) [uuids s..<uuids s + length rows];
          issued = zip (map tID rows) toks
      in (map (\<lambda>(r, tok). \<lparr>crow = task_row.truncate (leased until tok r), ctoken = tok,
                prevStatus = tStatus r, prevLease = tLeaseExpiresAt r\<rparr>) (zip rows toks),
          s\<lparr>rdq_task := map (\<lambda>r. case map_of issued (tID r) of None \<Rightarrow> r | Some tok \<Rightarrow> leased until tok r) (rdq_task s),
            uuids := uuids s + length rows\<rparr>))"

definition nextAttemptNo :: "pg \<Rightarrow> task_id \<Rightarrow> int" where
  "nextAttemptNo s tid = (case map aAttemptNo (filter (\<lambda>a. aTaskID a = tid) (rdq_attempt s)) of
      [] \<Rightarrow> 0 | n # ns \<Rightarrow> fold max ns n) + 1"

definition leaseExpiredRow :: "pg_lib \<Rightarrow> time \<Rightarrow> task_id \<Rightarrow> time option \<Rightarrow> int \<Rightarrow> attempt_row" where
  "leaseExpiredRow lib now tid lapsed n = \<lparr>aTaskID = tid, aAttemptNo = n,
     aStartedAt = (case lapsed of None \<Rightarrow> now | Some t \<Rightarrow> ts lib t), aFinishedAt = Some now,
     aOutcome = OutcomeLeaseExpired, aErrorType = Some ''rdq.LeaseExpired'',
     aErrorMessage = Some ''lease expired before an outcome was reported'', aErrorDetail = None,
     aErrorStack = None, aResidual = ''{}''\<rparr>"

definition insertLeaseExpired :: "pg_lib \<Rightarrow> time \<Rightarrow> task_id \<Rightarrow> time option \<Rightarrow> pg \<Rightarrow> sql_error + pg" where
  "insertLeaseExpired lib now tid lapsed s =
     (if \<not> int4 (nextAttemptNo s tid) then Inl OutOfRange
      else add_attempt (leaseExpiredRow lib now tid lapsed (nextAttemptNo s tid)) s)"

definition countAttempt :: "task_id \<Rightarrow> pg \<Rightarrow> sql_error + pg" where
  "countAttempt tid s =
     (if list_ex (\<lambda>r. tID r = tid \<and> \<not> int4 (tAttemptCount r + 1)) (rdq_task s) then Inl OutOfRange
      else Inr (s\<lparr>rdq_task := map (\<lambda>r. if tID r = tid then r\<lparr>tAttemptCount := tAttemptCount r + 1\<rparr> else r) (rdq_task s)\<rparr>))"

fun reclaimLoop :: "pg_lib \<Rightarrow> time \<Rightarrow> claimed_row list \<Rightarrow> pg \<Rightarrow> spi_error + claimed_row list \<times> pg" where
  "reclaimLoop lib now [] s = Inr ([], s)"
| "reclaimLoop lib now (cr # crs) s =
     (if prevStatus cr \<noteq> StatusInFlight then
        (case reclaimLoop lib now crs s of Inl e \<Rightarrow> Inl e | Inr (crs', s') \<Rightarrow> Inr (cr # crs', s'))
      else case insertLeaseExpired lib now (tID (crow cr)) (prevLease cr) s of
        Inl e \<Rightarrow> Inl (pg_failure lib ''recording lease-expired attempt'' e)
      | Inr s1 \<Rightarrow> (case countAttempt (tID (crow cr)) s1 of
          Inl e \<Rightarrow> Inl (pg_failure lib ''counting lease-expired attempt'' e)
        | Inr s2 \<Rightarrow> (case reclaimLoop lib now crs s2 of
            Inl e \<Rightarrow> Inl e
          | Inr (crs', s') \<Rightarrow>
              Inr (cr\<lparr>crow := (crow cr)\<lparr>tAttemptCount := tAttemptCount (crow cr) + 1\<rparr>\<rparr> # crs', s'))))"

fun assembleLoop :: "pg_lib \<Rightarrow> claimed_row list \<Rightarrow> pg \<Rightarrow> spi_error + claimed list" where
  "assembleLoop lib [] s = Inr []"
| "assembleLoop lib (cr # crs) s = (case envelopeFromRows lib (crow cr) (loadAttempts s (tID (crow cr))) of
      Inl e \<Rightarrow> Inl e
    | Inr e \<Rightarrow> (case assembleLoop lib crs s of
        Inl er \<Rightarrow> Inl er | Inr cs \<Rightarrow> Inr (\<lparr>Task = e, Token = ctoken cr\<rparr> # cs)))"

definition pg_ClaimDue :: "pg_lib \<Rightarrow> time \<Rightarrow> pg \<Rightarrow> string \<Rightarrow> int \<Rightarrow> duration \<Rightarrow> (spi_error + claimed list) \<times> pg" where
  "pg_ClaimDue lib now s queue limit lease =
     (if limit \<le> 0 then (Inr [], s)
      else if \<not> text_ok lib queue then (Inl (pg_failure lib ''claim query'' InvalidText), s)
      else case claimSQL lib now s queue limit (Seconds lease) of
        (rows, s1) \<Rightarrow> (case reclaimLoop lib now rows s1 of
            Inl e \<Rightarrow> (Inl e, s)
          | Inr (rows', s2) \<Rightarrow> (case assembleLoop lib rows' s2 of
              Inl e \<Rightarrow> (Inl e, s) | Inr cs \<Rightarrow> (Inr cs, s2))))"

section \<open>Spending a claim\<close>

definition fence :: "task_id \<Rightarrow> claim_token \<Rightarrow> live_row \<Rightarrow> bool" where
  "fence tid tok r \<longleftrightarrow> tID r = tid \<and> tStatus r = StatusInFlight \<and> claim_token r = Some tok"

text \<open>A fenced update: the rows it affects and the table it leaves, or a value out of range.\<close>

definition updateFenced :: "pg_lib \<Rightarrow> task_id \<Rightarrow> claim_token \<Rightarrow> (live_row \<Rightarrow> live_row) \<Rightarrow> pg \<Rightarrow> sql_error + nat \<times> pg" where
  "updateFenced lib tid tok upd s =
     (if \<not> texts_ok lib [tid, tok] then Inl InvalidText
      else if list_ex (\<lambda>r. fence tid tok r \<and> \<not> int4 (tAttemptCount (upd r))) (rdq_task s) then Inl OutOfRange
      else Inr (length (filter (fence tid tok) (rdq_task s)),
        s\<lparr>rdq_task := map (\<lambda>r. if fence tid tok r then upd r else r) (rdq_task s)\<rparr>))"

definition staleIfNoRows :: "nat \<Rightarrow> spi_error option" where
  "staleIfNoRows n = (if n = 0 then Some ErrStaleClaim else None)"

definition pg_ExtendLease :: "pg_lib \<Rightarrow> time \<Rightarrow> pg \<Rightarrow> task_id \<Rightarrow> claim_token \<Rightarrow> duration \<Rightarrow> spi_error option \<times> pg" where
  "pg_ExtendLease lib now s tid tok lease =
     (case updateFenced lib tid tok (\<lambda>r. r\<lparr>tLeaseExpiresAt := Some (now + make_interval lib (Seconds lease))\<rparr>) s of
        Inl e \<Rightarrow> (Some (pg_failure lib ''extending lease'' e), s)
      | Inr (n, s') \<Rightarrow> (staleIfNoRows n, s'))"

text \<open>The outcome's statement and the attempt's insert commit together or not at all.\<close>

definition spendClaim :: "pg_lib \<Rightarrow> task_id \<Rightarrow> attempt \<Rightarrow> (pg \<Rightarrow> spi_error + pg) \<Rightarrow> pg \<Rightarrow> spi_error option \<times> pg" where
  "spendClaim lib tid att update s = (case attemptRowFromAttempt lib tid att of
      Inl e \<Rightarrow> (Some e, s)
    | Inr row \<Rightarrow> (case update s of
        Inl e \<Rightarrow> (Some e, s)
      | Inr s1 \<Rightarrow> (case insertAttempt lib row s1 of
          Inl e \<Rightarrow> (Some (pg_failure lib ''recording attempt'' e), s)
        | Inr s2 \<Rightarrow> (None, s2))))"

text \<open>The error of a failed statement reaches the caller as the driver reports it.\<close>

definition outcomeUpdate :: "pg_lib \<Rightarrow> task_id \<Rightarrow> claim_token \<Rightarrow> (live_row \<Rightarrow> live_row) \<Rightarrow> pg \<Rightarrow> spi_error + pg" where
  "outcomeUpdate lib tid tok upd s = (case updateFenced lib tid tok upd s of
      Inl e \<Rightarrow> Inl (ErrBackend (sql_message lib e))
    | Inr (n, s') \<Rightarrow> (case staleIfNoRows n of Some e \<Rightarrow> Inl e | None \<Rightarrow> Inr s'))"

definition pg_Reschedule :: "pg_lib \<Rightarrow> pg \<Rightarrow> task_id \<Rightarrow> claim_token \<Rightarrow> attempt \<Rightarrow> time \<Rightarrow> spi_error option \<times> pg" where
  "pg_Reschedule lib s tid tok att nextAt = spendClaim lib tid att
     (\<lambda>s. case outcomeUpdate lib tid tok (\<lambda>r. r\<lparr>tStatus := StatusPending, tNextAttemptAt := Some (ts lib nextAt),
              tLeaseExpiresAt := None, claim_token := None, tAttemptCount := tAttemptCount r + 1\<rparr>) s of
        Inl e \<Rightarrow> Inl e
      | Inr s' \<Rightarrow> Inr (s'\<lparr>due_notes := due_notes s' @ map tQueue (filter (\<lambda>r. tID r = tid) (rdq_task s'))\<rparr>)) s"

definition pg_Complete :: "pg_lib \<Rightarrow> time \<Rightarrow> pg \<Rightarrow> task_id \<Rightarrow> claim_token \<Rightarrow> attempt \<Rightarrow> spi_error option \<times> pg" where
  "pg_Complete lib now s tid tok att = spendClaim lib tid att
     (outcomeUpdate lib tid tok (\<lambda>r. r\<lparr>tStatus := StatusSucceeded, tNextAttemptAt := None,
        tLeaseExpiresAt := None, claim_token := None, tAttemptCount := tAttemptCount r + 1\<rparr>)) s"

definition deadRow :: "time \<Rightarrow> string option \<Rightarrow> live_row \<Rightarrow> dlq_row" where
  "deadRow now errType r = task_row.extend
     ((task_row.truncate r)\<lparr>tStatus := StatusDead, tAttemptCount := tAttemptCount r + 1,
        tNextAttemptAt := None, tLeaseExpiresAt := None\<rparr>) (dlq_row.fields now errType)"

definition deadLetterSQL :: "pg_lib \<Rightarrow> time \<Rightarrow> task_id \<Rightarrow> claim_token \<Rightarrow> string option \<Rightarrow> pg \<Rightarrow> sql_error + nat \<times> pg" where
  "deadLetterSQL lib now tid tok errType s =
     (let moved = filter (fence tid tok) (rdq_task s) in
      if \<not> texts_ok lib ([tid, tok] @ opt_text errType) then Inl InvalidText
      else if list_ex (\<lambda>r. \<not> int4 (tAttemptCount r + 1)) moved then Inl OutOfRange
      else if list_ex (\<lambda>r. list_ex (\<lambda>d. tID d = tID r) (rdq_dlq_task s)) moved then Inl UniqueViolation
      else Inr (length moved, s\<lparr>rdq_task := filter (\<lambda>r. \<not> fence tid tok r) (rdq_task s),
        rdq_dlq_task := rdq_dlq_task s @ map (deadRow now errType) moved\<rparr>))"

definition pg_DeadLetter :: "pg_lib \<Rightarrow> time \<Rightarrow> pg \<Rightarrow> task_id \<Rightarrow> claim_token \<Rightarrow> attempt \<Rightarrow> spi_error option \<times> pg" where
  "pg_DeadLetter lib now s tid tok att = spendClaim lib tid att
     (\<lambda>s. case deadLetterSQL lib now tid tok
              (case Err att of None \<Rightarrow> None | Some d \<Rightarrow> emptyToNil (ErrType d)) s of
        Inl e \<Rightarrow> Inl (pg_failure lib ''dead-lettering'' e)
      | Inr (n, s') \<Rightarrow> (case staleIfNoRows n of Some e \<Rightarrow> Inl e | None \<Rightarrow> Inr s')) s"

section \<open>Dead letters\<close>

definition defaultDLQPageLimit :: int where "defaultDLQPageLimit = 100"
definition dlqCursorPrefix :: string where "dlqCursorPrefix = ''pgdlq1:''"

definition encodeDLQCursor :: "time \<Rightarrow> task_id \<Rightarrow> cursor" where
  "encodeDLQCursor deadAt tid = b64_encode (dlqCursorPrefix @ FormatInt deadAt @ '':'' @ tid)"

definition decodeDLQCursor :: "cursor \<Rightarrow> spi_error + (time \<times> task_id) option" where
  "decodeDLQCursor c =
     (if c = [] then Inr None
      else case b64_decode c of None \<Rightarrow> Inl ErrStaleCursor
        | Some raw \<Rightarrow>
            if \<not> HasPrefix raw dlqCursorPrefix then Inl ErrStaleCursor
            else case Cut1 (drop (length dlqCursorPrefix) raw) CHR '':'' of None \<Rightarrow> Inl ErrStaleCursor
              | Some (n, tid) \<Rightarrow> (case ParseInt n of None \<Rightarrow> Inl ErrStaleCursor | Some nanos \<Rightarrow> Inr (Some (nanos, tid))))"

text \<open>The pushed-down filter conditions; a comparison with a null error type is not true.\<close>

definition filterCond :: "pg_lib \<Rightarrow> dlq_filter \<Rightarrow> dlq_row \<Rightarrow> bool" where
  "filterCond lib f r \<longleftrightarrow>
     (FHandlerRef f \<noteq> [] \<longrightarrow> tHandlerRef r = FHandlerRef f) \<and>
     (FErrorType f \<noteq> [] \<longrightarrow> error_type r = Some (FErrorType f)) \<and>
     (case DeadLetteredAfter f of None \<Rightarrow> True | Some t \<Rightarrow> ts lib t \<le> dead_lettered_at r) \<and>
     (case DeadLetteredBefore f of None \<Rightarrow> True | Some t \<Rightarrow> dead_lettered_at r < ts lib t)"

definition filter_texts :: "dlq_filter \<Rightarrow> string list" where
  "filter_texts f = filter (\<lambda>x. x \<noteq> []) [FHandlerRef f, FErrorType f]"

definition pageKey :: "pg_lib \<Rightarrow> dlq_row \<Rightarrow> time \<times> string" where
  "pageKey lib r = (dead_lettered_at r, collate lib (tID r))"

definition dlqRows :: "pg_lib \<Rightarrow> pg \<Rightarrow> string \<Rightarrow> dlq_filter \<Rightarrow> (time \<times> task_id) option \<Rightarrow> dlq_row list" where
  "dlqRows lib s queue f after = sort_key (pageKey lib)
     (filter (\<lambda>r. tQueue r = queue \<and> filterCond lib f r \<and>
        (case after of None \<Rightarrow> True | Some (t, tid) \<Rightarrow> (ts lib t, collate lib tid) < pageKey lib r)) (rdq_dlq_task s))"

fun pageEnvelopes :: "pg_lib \<Rightarrow> bool \<Rightarrow> pg \<Rightarrow> dlq_row list \<Rightarrow> spi_error + envelope list" where
  "pageEnvelopes lib withAttempts s [] = Inr []"
| "pageEnvelopes lib withAttempts s (r # rs) =
     (case envelopeFromRows lib r (if withAttempts then loadAttempts s (tID r) else []) of
        Inl e \<Rightarrow> Inl e
      | Inr e \<Rightarrow> (case pageEnvelopes lib withAttempts s rs of Inl er \<Rightarrow> Inl er | Inr es \<Rightarrow> Inr (e # es)))"

definition pg_DLQList :: "pg_lib \<Rightarrow> pg \<Rightarrow> string \<Rightarrow> dlq_filter \<Rightarrow> page \<Rightarrow> spi_error + (envelope list \<times> cursor)" where
  "pg_DLQList lib s queue f pg =
     (case decodeDLQCursor (After pg) of Inl e \<Rightarrow> Inl e
      | Inr after \<Rightarrow>
          if \<not> texts_ok lib (queue # filter_texts f @ (case after of None \<Rightarrow> [] | Some (t, tid) \<Rightarrow> [tid]))
          then Inl (pg_failure lib ''DLQList query'' InvalidText)
          else let limit = (if Limit pg \<le> 0 then defaultDLQPageLimit else Limit pg);
                   collected = take (nat (limit + 1)) (dlqRows lib s queue f after);
                   (collected', nxt) =
                     (if int (length collected) > limit then
                        let m = take (nat limit) collected
                        in (m, encodeDLQCursor (dead_lettered_at (last m)) (tID (last m)))
                      else (collected, []))
               in case pageEnvelopes lib (IncludeAttempts f) s collected' of
                    Inl e \<Rightarrow> Inl e | Inr es \<Rightarrow> Inr (es, nxt))"

text \<open>The row of a task, in whichever table it lives.\<close>

definition row_of :: "pg \<Rightarrow> task_id \<Rightarrow> task_row option" where
  "row_of s tid = (case filter (\<lambda>r. tID r = tid) (rdq_task s) of
      r # _ \<Rightarrow> Some (task_row.truncate r)
    | [] \<Rightarrow> (case filter (\<lambda>r. tID r = tid) (rdq_dlq_task s) of
        r # _ \<Rightarrow> Some (task_row.truncate r) | [] \<Rightarrow> None))"

definition pg_Get :: "pg_lib \<Rightarrow> pg \<Rightarrow> task_id \<Rightarrow> spi_error + envelope" where
  "pg_Get lib s tid =
     (if \<not> text_ok lib tid then Inl (pg_failure lib ''Get query'' InvalidText)
      else case row_of s tid of None \<Rightarrow> Inl ErrNotFound
        | Some row \<Rightarrow> envelopeFromRows lib row (loadAttempts s tid))"

text \<open>What a selector selects in a queue's dead letters; \<open>None\<close> when it selects nothing at all.\<close>

definition dlqSelectorClause :: "pg_lib \<Rightarrow> string \<Rightarrow> selector \<Rightarrow> (dlq_row \<Rightarrow> bool) option" where
  "dlqSelectorClause lib queue sel =
     (if IDs sel \<noteq> [] then Some (\<lambda>r. tQueue r = queue \<and> tID r \<in> set (IDs sel))
      else case Filter sel of None \<Rightarrow> None
        | Some f \<Rightarrow> Some (\<lambda>r. tQueue r = queue \<and> filterCond lib f r))"

definition selector_texts :: "string \<Rightarrow> selector \<Rightarrow> string list" where
  "selector_texts queue sel = queue # (if IDs sel \<noteq> [] then IDs sel
     else case Filter sel of None \<Rightarrow> [] | Some f \<Rightarrow> filter_texts f)"

definition redrivenRow :: "time \<Rightarrow> dlq_row \<Rightarrow> live_row" where
  "redrivenRow now r = task_row.extend
     ((task_row.truncate r)\<lparr>tStatus := StatusPending, tAttemptCount := 0, tRedriveCount := tRedriveCount r + 1,
        tNextAttemptAt := Some now, tLeaseExpiresAt := None\<rparr>) (live_row.fields None)"

definition pg_Redrive :: "pg_lib \<Rightarrow> time \<Rightarrow> pg \<Rightarrow> string \<Rightarrow> selector \<Rightarrow> (spi_error + int) \<times> pg" where
  "pg_Redrive lib now s queue sel = (case dlqSelectorClause lib queue sel of
      None \<Rightarrow> (Inr 0, s)
    | Some P \<Rightarrow>
        let moved = filter P (rdq_dlq_task s) in
        if \<not> texts_ok lib (selector_texts queue sel) then (Inl (pg_failure lib ''Redrive'' InvalidText), s)
        else if list_ex (\<lambda>r. \<not> int4 (tRedriveCount r + 1)) moved then (Inl (pg_failure lib ''Redrive'' OutOfRange), s)
        else if list_ex (\<lambda>r. list_ex (\<lambda>l. tID l = tID r) (rdq_task s)) moved
        then (Inl (pg_failure lib ''Redrive'' UniqueViolation), s)
        else (Inr (int (length moved)), s\<lparr>rdq_task := rdq_task s @ map (redrivenRow now) moved,
          rdq_dlq_task := filter (\<lambda>r. \<not> P r) (rdq_dlq_task s)\<rparr>))"

definition dropAttempts :: "task_id list \<Rightarrow> attempt_row list \<Rightarrow> attempt_row list" where
  "dropAttempts ids as = filter (\<lambda>a. aTaskID a \<notin> set ids) as"

definition pg_Purge :: "pg_lib \<Rightarrow> pg \<Rightarrow> string \<Rightarrow> selector \<Rightarrow> (spi_error + int) \<times> pg" where
  "pg_Purge lib s queue sel = (case dlqSelectorClause lib queue sel of
      None \<Rightarrow> (Inr 0, s)
    | Some P \<Rightarrow>
        if \<not> texts_ok lib (selector_texts queue sel) then (Inl (pg_failure lib ''Purge'' InvalidText), s)
        else let purged = map tID (filter P (rdq_dlq_task s)) in
          (Inr (int (length purged)), s\<lparr>rdq_dlq_task := filter (\<lambda>r. \<not> P r) (rdq_dlq_task s),
             rdq_attempt := dropAttempts purged (rdq_attempt s)\<rparr>))"

section \<open>Operations\<close>

definition sql_min :: "time list \<Rightarrow> time option" where
  "sql_min xs = (case xs of [] \<Rightarrow> None | t # us \<Rightarrow> Some (fold min us t))"

definition sql_max :: "time list \<Rightarrow> time option" where
  "sql_max xs = (case xs of [] \<Rightarrow> None | t # us \<Rightarrow> Some (fold max us t))"

definition pg_Stats :: "pg_lib \<Rightarrow> time \<Rightarrow> pg \<Rightarrow> string \<Rightarrow> spi_error + stats" where
  "pg_Stats lib now s queue =
     (if \<not> text_ok lib queue then Inl (pg_failure lib ''Stats'' InvalidText)
      else let pending = filter (\<lambda>r. tQueue r = queue \<and> tStatus r = StatusPending) (rdq_task s);
               age = (case sql_min (map tCreatedAt pending) of None \<Rightarrow> 0 | Some t \<Rightarrow> time_sub now t)
           in Inr \<lparr>Pending = int (length pending),
                InFlight = int (length (filter (\<lambda>r. tQueue r = queue \<and> tStatus r = StatusInFlight) (rdq_task s))),
                DLQDepth = int (length (filter (\<lambda>r. tQueue r = queue) (rdq_dlq_task s))),
                OldestPendingAge = (if age > 0 then age else 0)\<rparr>)"

definition completedAt :: "pg \<Rightarrow> live_row \<Rightarrow> time" where
  "completedAt s r = (case sql_max (List.map_filter aFinishedAt (filter (\<lambda>a. aTaskID a = tID r) (rdq_attempt s))) of
     None \<Rightarrow> tCreatedAt r | Some t \<Rightarrow> t)"

definition pg_PurgeSucceeded :: "pg_lib \<Rightarrow> pg \<Rightarrow> string \<Rightarrow> time \<Rightarrow> (spi_error + int) \<times> pg" where
  "pg_PurgeSucceeded lib s queue olderThan =
     (if \<not> text_ok lib queue then (Inl (pg_failure lib ''PurgeSucceeded'' InvalidText), s)
      else let P = (\<lambda>r. tQueue r = queue \<and> tStatus r = StatusSucceeded \<and> completedAt s r < ts lib olderThan);
               purged = map tID (filter P (rdq_task s))
           in (Inr (int (length purged)), s\<lparr>rdq_task := filter (\<lambda>r. \<not> P r) (rdq_task s),
                rdq_attempt := dropAttempts purged (rdq_attempt s)\<rparr>))"

definition pg_Capabilities :: capabilities where
  "pg_Capabilities = \<lparr>Notify = True, FilterPushdown = True, BatchEnqueue = False\<rparr>"

text \<open>
  \<open>WaitDue\<close> over the notifications its connection receives, in order: how many it consumes
  before it returns, or none when the wait ends without one for its queue.
\<close>

fun waitDue :: "string \<Rightarrow> string list \<Rightarrow> nat option" where
  "waitDue queue [] = None"
| "waitDue queue (payload # notes) =
     (if payload = queue then Some 1 else map_option Suc (waitDue queue notes))"

definition postgres :: "pg_lib \<Rightarrow> pg storage" where
  "postgres lib = \<lparr>st_Enqueue = pg_Enqueue lib, st_ClaimDue = pg_ClaimDue lib, st_ExtendLease = pg_ExtendLease lib,
     st_Reschedule = pg_Reschedule lib, st_Complete = pg_Complete lib, st_DeadLetter = pg_DeadLetter lib,
     st_DLQList = pg_DLQList lib, st_Get = pg_Get lib, st_Redrive = pg_Redrive lib, st_Purge = pg_Purge lib,
     st_Stats = pg_Stats lib, st_PurgeSucceeded = pg_PurgeSucceeded lib, st_Capabilities = pg_Capabilities\<rparr>"

end
