(* ===== verification/Postgres_Inv.thy ===== *)
theory Postgres_Inv
  imports Postgres Storage_Contract
begin

text \<open>
  The invariant of the PostgreSQL tables and the storage contract over them: a task lives in one
  of the two task tables, every attempt belongs to a task, a row is in flight exactly while
  it carries a token of its own. The lemmas give the effect of each statement on the task a
  reader would see.
\<close>

section \<open>Assumptions on the server and driver\<close>

text \<open>
  Generated UUIDs differ and are acceptable texts, an update returns each row it changed once, and
  a JSON object that was encoded and accepted by the server decodes again, as does the empty object.
\<close>

definition pg_lib_ok :: "pg_lib \<Rightarrow> bool" where
  "pg_lib_ok lib \<longleftrightarrow> inj (gen_random_uuid lib) \<and> (\<forall>n. text_ok lib (gen_random_uuid lib n)) \<and>
     (\<forall>rows. mset (update_order lib rows) = mset rows) \<and>
     (\<forall>m b b'. encodeResidual lib m = Inr b \<and> jsonb lib b = Some b' \<longrightarrow> (\<exists>m'. decodeResidual lib b' = Inr m')) \<and>
     (\<forall>m b'. jsonb lib (encodeStringMap lib m) = Some b' \<longrightarrow> (\<exists>m'. decodeStringMap lib b' = Inr m')) \<and>
     (\<exists>m'. decodeResidual lib ''{}'' = Inr m')"

lemma pg_lib_okD:
  assumes "pg_lib_ok lib"
  shows "inj (gen_random_uuid lib)" "text_ok lib (gen_random_uuid lib n)" "mset (update_order lib rows) = mset rows"
    "encodeResidual lib m = Inr b \<Longrightarrow> jsonb lib b = Some b' \<Longrightarrow> \<exists>m'. decodeResidual lib b' = Inr m'"
    "jsonb lib (encodeStringMap lib h) = Some b' \<Longrightarrow> \<exists>m'. decodeStringMap lib b' = Inr m'"
    "\<exists>m'. decodeResidual lib ''{}'' = Inr m'"
  using assms unfolding pg_lib_ok_def by blast+

section \<open>The invariant\<close>

definition live_ids :: "pg \<Rightarrow> string list" where "live_ids s = map tID (rdq_task s)"
definition dead_ids :: "pg \<Rightarrow> string list" where "dead_ids s = map tID (rdq_dlq_task s)"

definition readable :: "pg_lib \<Rightarrow> 'a task_row_scheme \<Rightarrow> bool" where
  "readable lib r \<longleftrightarrow> (\<exists>h. decodeStringMap lib (tHeaders r) = Inr h) \<and> (\<exists>m. decodeResidual lib (tResidual r) = Inr m) \<and>
     text_ok lib (tID r)"

definition wf_live :: "pg_lib \<Rightarrow> nat \<Rightarrow> live_row \<Rightarrow> bool" where
  "wf_live lib n r \<longleftrightarrow> readable lib r \<and> tStatus r \<in> {StatusPending, StatusInFlight, StatusSucceeded} \<and>
     int4 (tAttemptCount r) \<and> (tStatus r = StatusPending \<longrightarrow> tNextAttemptAt r \<noteq> None) \<and>
     (if tStatus r = StatusInFlight then tLeaseExpiresAt r \<noteq> None \<and> (\<exists>i < n. claim_token r = Some (gen_random_uuid lib i))
      else tLeaseExpiresAt r = None \<and> claim_token r = None)"

definition wf_dead :: "pg_lib \<Rightarrow> dlq_row \<Rightarrow> bool" where
  "wf_dead lib r \<longleftrightarrow> readable lib r \<and> tStatus r = StatusDead \<and> tNextAttemptAt r = None \<and> tLeaseExpiresAt r = None"

text \<open>No two rows carry the same token.\<close>

definition own_tokens :: "live_row list \<Rightarrow> bool" where
  "own_tokens rows \<longleftrightarrow> (\<forall>r \<in> set rows. \<forall>r' \<in> set rows. claim_token r = claim_token r' \<and> claim_token r \<noteq> None \<longrightarrow> r = r')"

definition pg_wf :: "pg_lib \<Rightarrow> pg \<Rightarrow> bool" where
  "pg_wf lib s \<longleftrightarrow> distinct (live_ids s @ dead_ids s) \<and>
     (\<forall>r \<in> set (rdq_task s). wf_live lib (uuids s) r) \<and> (\<forall>r \<in> set (rdq_dlq_task s). wf_dead lib r) \<and>
     own_tokens (rdq_task s) \<and> distinct (map (\<lambda>a. (aTaskID a, aAttemptNo a)) (rdq_attempt s)) \<and>
     (\<forall>a \<in> set (rdq_attempt s). aTaskID a \<in> set (live_ids s @ dead_ids s) \<and> (\<exists>x. attemptFromRow lib a = Inr x))"

definition pg_inv :: "pg_lib \<Rightarrow> pg \<Rightarrow> bool" where
  "pg_inv lib s \<longleftrightarrow> pg_lib_ok lib \<and> pg_wf lib s"

definition pg_task_at :: "pg_lib \<Rightarrow> pg \<Rightarrow> task_id \<Rightarrow> envelope option" where
  "pg_task_at lib s k = (case row_of s k of None \<Rightarrow> None
     | Some row \<Rightarrow> (case envelopeFromRows lib row (loadAttempts s k) of Inl e \<Rightarrow> None | Inr e \<Rightarrow> Some e))"

definition pg_held :: "pg \<Rightarrow> task_id \<Rightarrow> claim_token \<Rightarrow> bool" where
  "pg_held s k tok \<longleftrightarrow> (\<exists>r \<in> set (rdq_task s). fence k tok r)"

text \<open>What the database keeps of an attempt, and which attempts it can append to a task's history.\<close>

definition kept_map :: "pg_lib \<Rightarrow> bytes gomap \<Rightarrow> bytes gomap" where
  "kept_map lib m = (case encodeResidual lib m of Inl e \<Rightarrow> []
     | Inr b \<Rightarrow> (case jsonb lib b of None \<Rightarrow> []
         | Some b' \<Rightarrow> (case decodeResidual lib b' of Inl e \<Rightarrow> [] | Inr m' \<Rightarrow> m')))"

definition kept_detail :: "pg_lib \<Rightarrow> bytes option \<Rightarrow> bytes option" where
  "kept_detail lib d = (case d of None \<Rightarrow> None
     | Some b \<Rightarrow> if b = [] then None else (case jsonb lib b of None \<Rightarrow> None | Some b' \<Rightarrow> if b' = [] then None else Some b'))"

definition pg_kept :: "pg_lib \<Rightarrow> attempt \<Rightarrow> attempt" where
  "pg_kept lib att = att\<lparr>StartedAt := ts lib (StartedAt att), FinishedAt := map_option (ts lib) (FinishedAt att),
     Err := map_option (\<lambda>d. d\<lparr>Detail := kept_detail lib (Detail d)\<rparr>) (Err att),
     AResidual := kept_map lib (AResidual att)\<rparr>"

definition pg_fits :: "pg_lib \<Rightarrow> pg \<Rightarrow> task_id \<Rightarrow> attempt \<Rightarrow> bool" where
  "pg_fits lib s k att \<longleftrightarrow>
     (\<exists>row row'. attemptRowFromAttempt lib k att = Inr row \<and> bind_attempt lib row = Inr row') \<and>
     (\<forall>a \<in> set (rdq_attempt s). aTaskID a = k \<longrightarrow> aAttemptNo a < AttemptNo att) \<and>
     (\<forall>r \<in> set (rdq_task s). tID r = k \<longrightarrow> int4 (tAttemptCount r + 1))"

definition pg_expiry :: "pg_lib \<Rightarrow> time \<Rightarrow> duration \<Rightarrow> time" where
  "pg_expiry lib now l = now + make_interval lib (Seconds l)"

section \<open>Tables\<close>

lemma filter_id_map:
  "(\<And>r. tID (g r) = tID r) \<Longrightarrow> filter (\<lambda>r. tID r = k) (map g rows) = map g (filter (\<lambda>r. tID r = k) rows)"
  by (simp add: filter_map comp_def)

lemma filter_id_single:
  assumes "distinct (map tID rows)" "r \<in> set rows"
  shows "filter (\<lambda>x. tID x = tID r) rows = [r]"
  using assms by (induction rows) (auto simp: filter_empty_conv rev_image_eqI dest: rev_image_eqI)

lemma distinct_split:
  "distinct (live_ids s @ dead_ids s) \<longleftrightarrow> distinct (map tID (rdq_task s)) \<and> distinct (map tID (rdq_dlq_task s)) \<and>
     (\<forall>r \<in> set (rdq_task s). \<forall>d \<in> set (rdq_dlq_task s). tID r \<noteq> tID d)"
  by (auto simp: live_ids_def dead_ids_def)

lemma truncate_simps [simp]:
  "tID (task_row.truncate r) = tID r" "tQueue (task_row.truncate r) = tQueue r"
  "tStatus (task_row.truncate r) = tStatus r" "tAttemptCount (task_row.truncate r) = tAttemptCount r"
  "tEnvelopeVersion (task_row.truncate r) = tEnvelopeVersion r" "tHandlerRef (task_row.truncate r) = tHandlerRef r"
  "tHandlerVersion (task_row.truncate r) = tHandlerVersion r" "tPayload (task_row.truncate r) = tPayload r"
  "tPayloadContentType (task_row.truncate r) = tPayloadContentType r" "tPayloadRef (task_row.truncate r) = tPayloadRef r"
  "tHeaders (task_row.truncate r) = tHeaders r" "tRedriveCount (task_row.truncate r) = tRedriveCount r"
  "tNextAttemptAt (task_row.truncate r) = tNextAttemptAt r" "tLeaseExpiresAt (task_row.truncate r) = tLeaseExpiresAt r"
  "tCreatedAt (task_row.truncate r) = tCreatedAt r" "tResidual (task_row.truncate r) = tResidual r"
  by (simp_all add: task_row.truncate_def)

lemma row_of_live:
  assumes "distinct (live_ids s @ dead_ids s)" "r \<in> set (rdq_task s)"
  shows "row_of s (tID r) = Some (task_row.truncate r)"
  using assms(1) filter_id_single [OF _ assms(2)] unfolding distinct_split by (simp add: row_of_def)

lemma row_of_dead:
  assumes "distinct (live_ids s @ dead_ids s)" "d \<in> set (rdq_dlq_task s)"
  shows "row_of s (tID d) = Some (task_row.truncate d)"
proof -
  have "filter (\<lambda>r. tID r = tID d) (rdq_task s) = []"
    using assms unfolding distinct_split by (auto simp: filter_empty_conv)
  then show ?thesis
    using assms(1) filter_id_single [OF _ assms(2)] unfolding distinct_split by (simp add: row_of_def)
qed

lemma row_of_None: "row_of s k = None \<longleftrightarrow> k \<notin> set (live_ids s @ dead_ids s)"
proof -
  have "filter (\<lambda>r. tID r = k) (rdq_task s) = [] \<longleftrightarrow> k \<notin> set (live_ids s)"
    "filter (\<lambda>r. tID r = k) (rdq_dlq_task s) = [] \<longleftrightarrow> k \<notin> set (dead_ids s)"
    by (auto simp: live_ids_def dead_ids_def filter_empty_conv)
  then show ?thesis by (auto simp: row_of_def split: list.split)
qed

text \<open>A task's view depends only on the rows that carry its id.\<close>

lemma task_at_cong:
  assumes "filter (\<lambda>r. tID r = k) (rdq_task s') = filter (\<lambda>r. tID r = k) (rdq_task s)"
    "filter (\<lambda>r. tID r = k) (rdq_dlq_task s') = filter (\<lambda>r. tID r = k) (rdq_dlq_task s)"
    "filter (\<lambda>a. aTaskID a = k) (rdq_attempt s') = filter (\<lambda>a. aTaskID a = k) (rdq_attempt s)"
  shows "pg_task_at lib s' k = pg_task_at lib s k"
  unfolding pg_task_at_def row_of_def loadAttempts_def assms ..

lemma envelope_truncate [simp]: "envelopeFromRows lib (task_row.truncate r) as = envelopeFromRows lib r as"
  by (simp add: envelopeFromRows_def task_row.truncate_def split: sum.split)

section \<open>Histories\<close>

lemma insort_key_snoc: "f x \<le> f a \<Longrightarrow> insort_key f x (ys @ [a]) = insort_key f x ys @ [a]"
  by (induction ys) auto

lemma sort_key_snoc: "\<forall>x \<in> set xs. f x \<le> f a \<Longrightarrow> sort_key f (xs @ [a]) = sort_key f xs @ [a]"
  by (induction xs) (auto simp: insort_key_snoc)

lemma attemptsFromRows_snoc:
  assumes "attemptsFromRows lib rs = Inr as" "attemptFromRow lib r = Inr a"
  shows "attemptsFromRows lib (rs @ [r]) = Inr (as @ [a])"
  using assms by (induction rs arbitrary: as) (auto split: sum.splits)

lemma attemptsFromRows_total:
  "\<forall>r \<in> set rs. \<exists>a. attemptFromRow lib r = Inr a \<Longrightarrow> \<exists>as. attemptsFromRows lib rs = Inr as"
  by (induction rs) (auto split: sum.splits)

lemma set_loadAttempts [simp]: "set (loadAttempts s k) = {a \<in> set (rdq_attempt s). aTaskID a = k}"
  by (auto simp: loadAttempts_def)

lemma history_readable: "pg_wf lib s \<Longrightarrow> \<exists>as. attemptsFromRows lib (loadAttempts s k) = Inr as"
  by (rule attemptsFromRows_total) (simp add: pg_wf_def)

lemma loadAttempts_snoc:
  assumes "aTaskID a = k" "\<forall>x \<in> set (rdq_attempt s). aTaskID x = k \<longrightarrow> aAttemptNo x \<le> aAttemptNo a"
    "rdq_attempt s' = rdq_attempt s @ [a]"
  shows "loadAttempts s' k = loadAttempts s k @ [a]"
  using assms by (simp add: loadAttempts_def sort_key_snoc)

lemma readable_envelope:
  assumes "readable lib r" "attemptsFromRows lib rs = Inr as"
  shows "\<exists>e. envelopeFromRows lib r rs = Inr e"
  using assms by (auto simp: readable_def envelopeFromRows_def)

text \<open>The row an attempt becomes reads back as what the database keeps of it.\<close>

lemma bind_attempt_Inr:
  assumes "bind_attempt lib r = Inr r'"
  obtains d x where "jsonb lib (aResidual r) = Some x"
    "(case aErrorDetail r of None \<Rightarrow> Some None | Some b \<Rightarrow> map_option Some (jsonb lib b)) = Some d"
    "r' = r\<lparr>aErrorDetail := d, aResidual := x, aStartedAt := ts lib (aStartedAt r),
      aFinishedAt := map_option (ts lib) (aFinishedAt r)\<rparr>"
    "texts_ok lib ([aTaskID r, aOutcome r] @ opt_text (aErrorType r) @ opt_text (aErrorMessage r) @ opt_text (aErrorStack r))"
  using assms unfolding bind_attempt_def Let_def by (fastforce split: if_splits option.splits)

lemma attempt_row:
  assumes "attemptRowFromAttempt lib k att = Inr row"
  obtains res where "encodeResidual lib (AResidual att) = Inr res"
    "row = \<lparr>aTaskID = k, aAttemptNo = AttemptNo att, aStartedAt = StartedAt att, aFinishedAt = FinishedAt att,
      aOutcome = Outcome att, aErrorType = map_option ErrType (Err att), aErrorMessage = map_option Message (Err att),
      aErrorDetail = (case Err att of None \<Rightarrow> None | Some d \<Rightarrow>
        (case Detail d of None \<Rightarrow> None | Some b \<Rightarrow> if b = [] then None else Some b)),
      aErrorStack = (case Err att of None \<Rightarrow> None | Some d \<Rightarrow> emptyToNil (Stack d)), aResidual = res\<rparr>"
  using assms unfolding attemptRowFromAttempt_def Let_def by (cases "Err att") (auto split: sum.splits)

lemma nilToEmpty_emptyToNil [simp]: "nilToEmpty (emptyToNil x) = x"
  by (simp add: nilToEmpty_def emptyToNil_def)

lemma nilToEmpty_Some [simp]: "nilToEmpty (Some x) = x"
  by (simp add: nilToEmpty_def)

lemma kept_read:
  assumes "pg_lib_ok lib" "attemptRowFromAttempt lib k att = Inr row" "bind_attempt lib row = Inr row'"
  shows "attemptFromRow lib row' = Inr (pg_kept lib att)" "aTaskID row' = k" "aAttemptNo row' = AttemptNo att"
proof -
  obtain res where res: "encodeResidual lib (AResidual att) = Inr res" and
    row: "row = \<lparr>aTaskID = k, aAttemptNo = AttemptNo att, aStartedAt = StartedAt att, aFinishedAt = FinishedAt att,
      aOutcome = Outcome att, aErrorType = map_option ErrType (Err att), aErrorMessage = map_option Message (Err att),
      aErrorDetail = (case Err att of None \<Rightarrow> None | Some d \<Rightarrow>
        (case Detail d of None \<Rightarrow> None | Some b \<Rightarrow> if b = [] then None else Some b)),
      aErrorStack = (case Err att of None \<Rightarrow> None | Some d \<Rightarrow> emptyToNil (Stack d)), aResidual = res\<rparr>"
    by (rule attempt_row [OF assms(2)])
  obtain d x where x: "jsonb lib (aResidual row) = Some x" and
    d: "(case aErrorDetail row of None \<Rightarrow> Some None | Some b \<Rightarrow> map_option Some (jsonb lib b)) = Some d" and
    row': "row' = row\<lparr>aErrorDetail := d, aResidual := x, aStartedAt := ts lib (aStartedAt row),
      aFinishedAt := map_option (ts lib) (aFinishedAt row)\<rparr>"
    by (rule bind_attempt_Inr [OF assms(3)])
  show "aTaskID row' = k" "aAttemptNo row' = AttemptNo att" by (simp_all add: row' row)
  obtain m where m: "decodeResidual lib x = Inr m"
    using pg_lib_okD(4) [OF assms(1) res, of x] x by (auto simp: row)
  have km: "kept_map lib (AResidual att) = m" using x by (simp add: kept_map_def res row m)
  show "attemptFromRow lib row' = Inr (pg_kept lib att)"
  proof (cases "Err att")
    case None
    then show ?thesis by (auto simp: attemptFromRow_def row' row m pg_kept_def km intro!: attempt.equality)
  next
    case (Some e)
    have "(case d of None \<Rightarrow> None | Some b \<Rightarrow> if b = [] then None else Some b) = kept_detail lib (Detail e)"
      using d Some by (auto simp: row kept_detail_def split: option.splits if_splits)
    then show ?thesis using Some
      by (auto simp: attemptFromRow_def row' row m pg_kept_def km intro!: attempt.equality error_detail.equality)
  qed
qed

section \<open>Writes to a held claim\<close>

lemma pg_wfD:
  assumes "pg_wf lib s"
  shows "distinct (live_ids s @ dead_ids s)" "\<And>r. r \<in> set (rdq_task s) \<Longrightarrow> wf_live lib (uuids s) r"
    "\<And>r. r \<in> set (rdq_dlq_task s) \<Longrightarrow> wf_dead lib r"
    "\<And>a. a \<in> set (rdq_attempt s) \<Longrightarrow> aTaskID a \<in> set (live_ids s @ dead_ids s) \<and> (\<exists>x. attemptFromRow lib a = Inr x)"
    "distinct (map (\<lambda>a. (aTaskID a, aAttemptNo a)) (rdq_attempt s))"
    "\<And>r r'. r \<in> set (rdq_task s) \<Longrightarrow> r' \<in> set (rdq_task s) \<Longrightarrow> claim_token r = claim_token r' \<Longrightarrow>
       claim_token r \<noteq> None \<Longrightarrow> r = r'"
  using assms unfolding pg_wf_def own_tokens_def by blast+

lemma held_row:
  assumes "pg_wf lib s" "pg_held s k tok"
  obtains r where "r \<in> set (rdq_task s)" "fence k tok r" "tID r = k" "filter (fence k tok) (rdq_task s) = [r]"
    "filter (\<lambda>x. tID x = k) (rdq_task s) = [r]" "filter (\<lambda>d. tID d = k) (rdq_dlq_task s) = []"
    "row_of s k = Some (task_row.truncate r)"
proof -
  obtain r where r: "r \<in> set (rdq_task s)" "fence k tok r" using assms(2) by (auto simp: pg_held_def)
  then have k: "tID r = k" by (simp add: fence_def)
  note d = pg_wfD(1) [OF assms(1)]
  have one: "filter (\<lambda>x. tID x = k) (rdq_task s) = [r]"
    using filter_id_single [OF _ r(1)] d unfolding distinct_split k by simp
  have "filter (fence k tok) (rdq_task s) = filter (fence k tok) (filter (\<lambda>x. tID x = k) (rdq_task s))"
    by (auto simp: fence_def intro!: filter_cong)
  then have "filter (fence k tok) (rdq_task s) = [r]" by (simp add: one r(2))
  moreover have "filter (\<lambda>d. tID d = k) (rdq_dlq_task s) = []"
    using d r(1) k unfolding distinct_split by (metis (mono_tags, lifting) filter_False)
  ultimately show thesis using that [of r] r k one row_of_live [OF d r(1)] by simp
qed

lemma stale_rows: "\<not> pg_held s k tok \<Longrightarrow> filter (fence k tok) (rdq_task s) = []"
  by (auto simp: pg_held_def filter_empty_conv)

lemma held_texts:
  assumes "pg_inv lib s" "r \<in> set (rdq_task s)" "fence k tok r"
  shows "texts_ok lib [k, tok]"
proof -
  have "wf_live lib (uuids s) r" using assms(1,2) by (simp add: pg_inv_def pg_wf_def)
  then show ?thesis
    using assms(1,3) by (auto simp: wf_live_def fence_def readable_def texts_ok_def pg_inv_def pg_lib_ok_def)
qed

text \<open>The transaction of an outcome, once its statement has found the claim.\<close>

lemma spendClaim_fits:
  assumes "pg_lib_ok lib" "pg_fits lib s k att" "update s = Inr s1" "rdq_attempt s1 = rdq_attempt s"
  shows "\<exists>row. spendClaim lib k att update s = (None, s1\<lparr>rdq_attempt := rdq_attempt s @ [row]\<rparr>) \<and>
    attemptFromRow lib row = Inr (pg_kept lib att) \<and> aTaskID row = k \<and> aAttemptNo row = AttemptNo att \<and>
    (\<forall>x \<in> set (rdq_attempt s). aTaskID x = k \<longrightarrow> aAttemptNo x < aAttemptNo row)"
proof -
  obtain row row' where f: "attemptRowFromAttempt lib k att = Inr row" "bind_attempt lib row = Inr row'"
    "\<forall>a \<in> set (rdq_attempt s). aTaskID a = k \<longrightarrow> aAttemptNo a < AttemptNo att"
    using assms(2) by (auto simp: pg_fits_def)
  note kr = kept_read [OF assms(1) f(1,2)]
  have "add_attempt row' s1 = Inr (s1\<lparr>rdq_attempt := rdq_attempt s @ [row']\<rparr>)"
    using f(3) kr(2,3) assms(4) by (auto simp: add_attempt_def list_ex_iff)
  then show ?thesis
    using f kr assms(3) by (intro exI [where x = row']) (simp add: spendClaim_def insertAttempt_def)
qed

text \<open>How the task looks after its row and history have changed.\<close>

lemma settled_view:
  assumes "pg_wf lib s" "pg_task_at lib s k = Some e" "row_of s k = Some t" "row_of s' k = Some t'"
    "t' = t\<lparr>tStatus := st, tNextAttemptAt := nx, tLeaseExpiresAt := None, tAttemptCount := tAttemptCount t + 1\<rparr>"
    "loadAttempts s' k = loadAttempts s k @ [row]" "attemptFromRow lib row = Inr a"
  shows "pg_task_at lib s' k = Some (settled st nx a e)"
proof -
  obtain as where as: "attemptsFromRows lib (loadAttempts s k) = Inr as" using history_readable [OF assms(1)] by blast
  note as' = attemptsFromRows_snoc [OF as assms(7)]
  show ?thesis
    using assms(2) by (auto simp: pg_task_at_def assms(3-6) envelopeFromRows_def as as' settled_def split: sum.splits)
qed

lemma row_of_single: "filter (\<lambda>r. tID r = k) (rdq_task s) = [r] \<Longrightarrow> row_of s k = Some (task_row.truncate r)"
  by (simp add: row_of_def)

lemma updateFenced_held:
  assumes "pg_inv lib s" "pg_held s k tok" "\<And>r. tID (upd r) = tID r"
    "\<forall>r \<in> set (rdq_task s). tID r = k \<longrightarrow> int4 (tAttemptCount (upd r))"
  obtains r s' where "updateFenced lib k tok upd s = Inr (1, s')" "r \<in> set (rdq_task s)" "fence k tok r"
    "row_of s k = Some (task_row.truncate r)" "filter (\<lambda>x. tID x = k) (rdq_task s') = [upd r]"
    "s' = s\<lparr>rdq_task := map (\<lambda>r. if fence k tok r then upd r else r) (rdq_task s)\<rparr>"
    "\<And>k'. k' \<noteq> k \<Longrightarrow> filter (\<lambda>x. tID x = k') (rdq_task s') = filter (\<lambda>x. tID x = k') (rdq_task s)"
proof -
  have wf: "pg_wf lib s" using assms(1) by (simp add: pg_inv_def)
  obtain r where r: "r \<in> set (rdq_task s)" "fence k tok r" "tID r = k" "filter (fence k tok) (rdq_task s) = [r]"
    "filter (\<lambda>x. tID x = k) (rdq_task s) = [r]" "row_of s k = Some (task_row.truncate r)"
    using held_row [OF wf assms(2)] by metis
  let ?g = "\<lambda>r. if fence k tok r then upd r else r"
  let ?s = "s\<lparr>rdq_task := map ?g (rdq_task s)\<rparr>"
  have g: "tID (?g r) = tID r" for r using assms(3) by simp
  have "filter (\<lambda>x. tID x = k') (map ?g (rdq_task s)) = filter (\<lambda>x. tID x = k') (rdq_task s)" if "k' \<noteq> k" for k'
    unfolding filter_id_map [OF g] using that by (intro map_idI) (auto simp: fence_def)
  moreover have "filter (\<lambda>x. tID x = k) (map ?g (rdq_task s)) = [upd r]"
    unfolding filter_id_map [OF g] r(5) by (simp add: r(2))
  moreover have "updateFenced lib k tok upd s = Inr (1, ?s)"
    using held_texts [OF assms(1) r(1,2)] assms(4) r(4) by (auto simp: updateFenced_def list_ex_iff fence_def)
  ultimately show thesis using that [of ?s r] r by simp
qed

lemma updateFenced_stale:
  assumes "\<not> pg_held s k tok"
  shows "updateFenced lib k tok upd s = Inl InvalidText \<or> updateFenced lib k tok upd s = Inr (0, s)"
proof -
  have "\<not> fence k tok r" if "r \<in> set (rdq_task s)" for r using assms that by (auto simp: pg_held_def)
  then have "map (\<lambda>r. if fence k tok r then upd r else r) (rdq_task s) = rdq_task s"
    "\<not> list_ex (\<lambda>r. fence k tok r \<and> \<not> int4 (tAttemptCount (upd r))) (rdq_task s)"
    by (auto simp: list_ex_iff intro: map_idI)
  then show ?thesis using stale_rows [OF assms] by (simp add: updateFenced_def)
qed

lemma pg_stale:
  assumes "\<not> pg_held s k tok"
  shows "\<exists>err. pg_Complete lib now s k tok att = (Some err, s)" "\<exists>err. pg_DeadLetter lib now s k tok att = (Some err, s)"
    "\<exists>err. pg_Reschedule lib s k tok att nextAt = (Some err, s)" "\<exists>err. pg_ExtendLease lib now s k tok l = (Some err, s)"
proof -
  have u: "outcomeUpdate lib k tok upd s \<noteq> Inr s'" for upd s'
    using updateFenced_stale [OF assms, of lib upd] by (auto simp: outcomeUpdate_def staleIfNoRows_def)
  show "\<exists>err. pg_Complete lib now s k tok att = (Some err, s)" "\<exists>err. pg_Reschedule lib s k tok att nextAt = (Some err, s)"
    using u by (auto simp: pg_Complete_def pg_Reschedule_def spendClaim_def split: sum.splits)
  show "\<exists>err. pg_DeadLetter lib now s k tok att = (Some err, s)"
    using stale_rows [OF assms]
    by (auto simp: pg_DeadLetter_def spendClaim_def deadLetterSQL_def staleIfNoRows_def Let_def split: sum.splits)
  show "\<exists>err. pg_ExtendLease lib now s k tok l = (Some err, s)"
    using updateFenced_stale [OF assms, of lib "\<lambda>r. r\<lparr>tLeaseExpiresAt := Some (now + make_interval lib (Seconds l))\<rparr>"]
    by (auto simp: pg_ExtendLease_def staleIfNoRows_def)
qed

text \<open>Each outcome write to a held claim changes its task and no other.\<close>

lemma spent_only_changes:
  assumes "pg_wf lib s" "pg_task_at lib s k = Some e" "row_of s k = Some t" "row_of s' k = Some t'"
    "t' = t\<lparr>tStatus := st, tNextAttemptAt := nx, tLeaseExpiresAt := None, tAttemptCount := tAttemptCount t + 1\<rparr>"
    "rdq_attempt s' = rdq_attempt s @ [row]" "attemptFromRow lib row = Inr a" "aTaskID row = k"
    "\<forall>x \<in> set (rdq_attempt s). aTaskID x = k \<longrightarrow> aAttemptNo x < aAttemptNo row"
    "\<And>k'. k' \<noteq> k \<Longrightarrow> filter (\<lambda>r. tID r = k') (rdq_task s') = filter (\<lambda>r. tID r = k') (rdq_task s)"
    "\<And>k'. k' \<noteq> k \<Longrightarrow> filter (\<lambda>r. tID r = k') (rdq_dlq_task s') = filter (\<lambda>r. tID r = k') (rdq_dlq_task s)"
  shows "only_changes (pg_task_at lib) k (settled st nx a e) s s'"
proof -
  have "loadAttempts s' k = loadAttempts s k @ [row]"
    using assms(9) by (intro loadAttempts_snoc [OF assms(8) _ assms(6)]) (simp add: order_less_imp_le)
  then have "pg_task_at lib s' k = Some (settled st nx a e)" using settled_view [OF assms(1-5) _ assms(7)] by blast
  moreover have "pg_task_at lib s' k' = pg_task_at lib s k'" if "k' \<noteq> k" for k'
    using that assms(8) by (intro task_at_cong assms(10,11)) (simp_all add: assms(6))
  ultimately show ?thesis by (simp add: only_changes_def)
qed

lemma spent_update:
  assumes inv: "pg_inv lib s" and h: "pg_held s k tok" and e: "pg_task_at lib s k = Some e" and f: "pg_fits lib s k att"
    and upd: "\<And>r. tID (upd r) = tID r" "\<And>r. task_row.truncate (upd r) = (task_row.truncate r)
      \<lparr>tStatus := st, tNextAttemptAt := nx, tLeaseExpiresAt := None, tAttemptCount := tAttemptCount r + 1\<rparr>"
    and post: "\<And>s1. rdq_attempt (post s1) = rdq_attempt s1" "\<And>s1. rdq_task (post s1) = rdq_task s1"
      "\<And>s1. rdq_dlq_task (post s1) = rdq_dlq_task s1"
    and update: "update = (\<lambda>s. case outcomeUpdate lib k tok upd s of Inl e \<Rightarrow> Inl e | Inr s' \<Rightarrow> Inr (post s'))"
  shows "\<exists>s'. spendClaim lib k att update s = (None, s') \<and>
    only_changes (pg_task_at lib) k (settled st nx (pg_kept lib att) e) s s'"
proof -
  have wf: "pg_wf lib s" and ok: "pg_lib_ok lib" using inv by (simp_all add: pg_inv_def)
  have c: "tAttemptCount (upd r) = tAttemptCount r + 1" for r
    using arg_cong [OF upd(2) [of r], of tAttemptCount] by simp
  then have "\<forall>r \<in> set (rdq_task s). tID r = k \<longrightarrow> int4 (tAttemptCount (upd r))" using f by (simp add: pg_fits_def)
  note held = updateFenced_held [OF inv h upd(1) this]
  obtain r s1 where u: "updateFenced lib k tok upd s = Inr (1, s1)" "row_of s k = Some (task_row.truncate r)"
    "filter (\<lambda>x. tID x = k) (rdq_task s1) = [upd r]"
    "s1 = s\<lparr>rdq_task := map (\<lambda>r. if fence k tok r then upd r else r) (rdq_task s)\<rparr>"
    "\<And>k'. k' \<noteq> k \<Longrightarrow> filter (\<lambda>x. tID x = k') (rdq_task s1) = filter (\<lambda>x. tID x = k') (rdq_task s)"
    by (rule held) blast
  have up: "update s = Inr (post s1)" by (simp add: update outcomeUpdate_def u(1) staleIfNoRows_def)
  have same: "rdq_attempt (post s1) = rdq_attempt s" by (simp add: post u(4))
  obtain row where row: "spendClaim lib k att update s = (None, (post s1)\<lparr>rdq_attempt := rdq_attempt s @ [row]\<rparr>)"
    "attemptFromRow lib row = Inr (pg_kept lib att)" "aTaskID row = k"
    "\<forall>x \<in> set (rdq_attempt s). aTaskID x = k \<longrightarrow> aAttemptNo x < aAttemptNo row"
    using spendClaim_fits [OF ok f, of update, OF up same] by blast
  let ?s = "(post s1)\<lparr>rdq_attempt := rdq_attempt s @ [row]\<rparr>"
  have "row_of ?s k = Some (task_row.truncate (upd r))"
    using u(3) post(2) by (intro row_of_single) simp
  then have "only_changes (pg_task_at lib) k (settled st nx (pg_kept lib att) e) s ?s"
    using u(5) by (intro spent_only_changes [OF wf e u(2) _ _ _ row(2-4)]) (simp_all add: upd(2) post u(4))
  then show ?thesis using row(1) by blast
qed

lemma pg_complete_held:
  assumes "pg_inv lib s" "pg_held s k tok" "pg_task_at lib s k = Some e" "pg_fits lib s k att"
  shows "\<exists>s'. pg_Complete lib now s k tok att = (None, s') \<and>
    only_changes (pg_task_at lib) k (settled StatusSucceeded None (pg_kept lib att) e) s s'"
  unfolding pg_Complete_def
  by (rule spent_update [OF assms, where post = "\<lambda>s. s" and upd = "\<lambda>r. r\<lparr>tStatus := StatusSucceeded,
        tNextAttemptAt := None, tLeaseExpiresAt := None, claim_token := None, tAttemptCount := tAttemptCount r + 1\<rparr>"])
    (simp_all add: task_row.truncate_def fun_eq_iff split: sum.split)

lemma pg_reschedule_held:
  assumes "pg_inv lib s" "pg_held s k tok" "pg_task_at lib s k = Some e" "pg_fits lib s k att"
  shows "\<exists>s'. pg_Reschedule lib s k tok att nextAt = (None, s') \<and>
    only_changes (pg_task_at lib) k (settled StatusPending (Some (ts lib nextAt)) (pg_kept lib att) e) s s'"
  unfolding pg_Reschedule_def
  by (rule spent_update [OF assms,
        where post = "\<lambda>s'. s'\<lparr>due_notes := due_notes s' @ map tQueue (filter (\<lambda>r. tID r = k) (rdq_task s'))\<rparr>"
        and upd = "\<lambda>r. r\<lparr>tStatus := StatusPending, tNextAttemptAt := Some (ts lib nextAt), tLeaseExpiresAt := None,
          claim_token := None, tAttemptCount := tAttemptCount r + 1\<rparr>"])
    (simp_all add: task_row.truncate_def fun_eq_iff split: sum.split)

lemma pg_dead_held:
  assumes "pg_inv lib s" "pg_held s k tok" "pg_task_at lib s k = Some e" "pg_fits lib s k att"
  shows "\<exists>s'. pg_DeadLetter lib now s k tok att = (None, s') \<and>
    only_changes (pg_task_at lib) k (settled StatusDead None (pg_kept lib att) e) s s'"
proof -
  have wf: "pg_wf lib s" and ok: "pg_lib_ok lib" using assms(1) by (simp_all add: pg_inv_def)
  obtain r where r: "r \<in> set (rdq_task s)" "fence k tok r" "tID r = k" "filter (fence k tok) (rdq_task s) = [r]"
    "filter (\<lambda>x. tID x = k) (rdq_task s) = [r]" "filter (\<lambda>d. tID d = k) (rdq_dlq_task s) = []"
    "row_of s k = Some (task_row.truncate r)" by (rule held_row [OF wf assms(2)])
  let ?et = "case Err att of None \<Rightarrow> None | Some d \<Rightarrow> emptyToNil (ErrType d)"
  let ?d = "deadRow now ?et r"
  let ?s = "s\<lparr>rdq_task := filter (\<lambda>r. \<not> fence k tok r) (rdq_task s), rdq_dlq_task := rdq_dlq_task s @ [?d]\<rparr>"
  let ?upd = "\<lambda>s. case deadLetterSQL lib now k tok ?et s of Inl e \<Rightarrow> Inl (pg_failure lib ''dead-lettering'' e)
    | Inr (n, s') \<Rightarrow> (case staleIfNoRows n of Some e \<Rightarrow> Inl e | None \<Rightarrow> Inr s')"
  obtain row row' where f: "attemptRowFromAttempt lib k att = Inr row" "bind_attempt lib row = Inr row'"
    using assms(4) by (auto simp: pg_fits_def)
  have "texts_ok lib (opt_text ?et)"
    by (rule attempt_row [OF f(1)], rule bind_attempt_Inr [OF f(2)])
      (auto simp: texts_ok_def opt_text_def emptyToNil_def split: option.splits)
  then have "texts_ok lib ([k, tok] @ opt_text ?et)"
    using held_texts [OF assms(1) r(1,2)] by (simp add: texts_ok_def)
  moreover have "\<not> list_ex (\<lambda>d. tID d = tID r) (rdq_dlq_task s)"
    using r(3,6) by (auto simp: list_ex_iff filter_empty_conv)
  moreover have "int4 (tAttemptCount r + 1)" using assms(4) r(1,3) by (simp add: pg_fits_def)
  ultimately have "deadLetterSQL lib now k tok ?et s = Inr (1, ?s)" by (simp add: deadLetterSQL_def r(4) Let_def)
  then have up: "?upd s = Inr ?s" by (simp add: staleIfNoRows_def)
  obtain row where row: "spendClaim lib k att ?upd s = (None, ?s\<lparr>rdq_attempt := rdq_attempt s @ [row]\<rparr>)"
    "attemptFromRow lib row = Inr (pg_kept lib att)" "aTaskID row = k"
    "\<forall>x \<in> set (rdq_attempt s). aTaskID x = k \<longrightarrow> aAttemptNo x < aAttemptNo row"
    using spendClaim_fits [OF ok assms(4), of ?upd, OF up] by auto
  have t: "task_row.truncate ?d = (task_row.truncate r)\<lparr>tStatus := StatusDead, tNextAttemptAt := None,
      tLeaseExpiresAt := None, tAttemptCount := tAttemptCount (task_row.truncate r) + 1\<rparr>"
    by (simp add: deadRow_def task_row.defs dlq_row.defs)
  have idd: "tID ?d = k" by (simp add: deadRow_def task_row.defs dlq_row.defs r(3))
  let ?s' = "?s\<lparr>rdq_attempt := rdq_attempt s @ [row]\<rparr>"
  have gone: "filter (\<lambda>x. tID x = k) (filter (\<lambda>r. \<not> fence k tok r) (rdq_task s)) = []"
  proof -
    have "filter (\<lambda>x. tID x = k) (filter (\<lambda>r. \<not> fence k tok r) (rdq_task s)) =
        filter (\<lambda>r. \<not> fence k tok r) (filter (\<lambda>x. tID x = k) (rdq_task s))" by (simp add: conj_commute)
    then show ?thesis by (simp add: r(2,5))
  qed
  have "row_of ?s' k = Some (task_row.truncate ?d)"
    using gone r(6) idd by (simp add: row_of_def)
  moreover have "filter (\<lambda>x. tID x = k') (filter (\<lambda>r. \<not> fence k tok r) (rdq_task s)) = filter (\<lambda>x. tID x = k') (rdq_task s)"
    if "k' \<noteq> k" for k' using that by (auto simp: fence_def intro!: filter_cong)
  ultimately have "only_changes (pg_task_at lib) k (settled StatusDead None (pg_kept lib att) e) s ?s'"
    using idd by (intro spent_only_changes [OF wf assms(3) r(7) _ t _ row(2-4)]) simp_all
  then show ?thesis using row(1) by (auto simp: pg_DeadLetter_def)
qed

section \<open>Preservation of the invariant\<close>

lemma pg_wf_fields [simp]:
  "pg_wf lib (s\<lparr>due_notes := x\<rparr>) = pg_wf lib s" "pg_wf lib (s\<lparr>row_locks := y\<rparr>) = pg_wf lib s"
  by (simp_all add: pg_wf_def live_ids_def dead_ids_def)

lemma own_tokens_sub:
  assumes "own_tokens rows" "\<And>r. r \<in> set rows' \<Longrightarrow> r \<in> set rows \<or> claim_token r = None"
  shows "own_tokens rows'"
  unfolding own_tokens_def
proof (intro ballI impI)
  fix r r' assume "r \<in> set rows'" "r' \<in> set rows'" "claim_token r = claim_token r' \<and> claim_token r \<noteq> None"
  then show "r = r'" using assms(1) assms(2) [of r] assms(2) [of r'] unfolding own_tokens_def by metis
qed

lemma wf_live_mono: "wf_live lib m r \<Longrightarrow> m \<le> n \<Longrightarrow> wf_live lib n r"
  unfolding wf_live_def by (metis order.strict_trans2)

lemma wf_update:
  assumes "pg_wf lib s" "\<And>r. r \<in> set (rdq_task s) \<Longrightarrow> tID (g r) = tID r \<and> wf_live lib n (g r)" "uuids s \<le> n"
    "\<And>r r'. r \<in> set (rdq_task s) \<Longrightarrow> r' \<in> set (rdq_task s) \<Longrightarrow> claim_token (g r) = claim_token (g r') \<Longrightarrow>
       claim_token (g r) \<noteq> None \<Longrightarrow> r = r'"
  shows "pg_wf lib (s\<lparr>rdq_task := map g (rdq_task s), uuids := n\<rparr>)"
proof -
  have "live_ids (s\<lparr>rdq_task := map g (rdq_task s), uuids := n\<rparr>) = live_ids s"
    using assms(2) by (simp add: live_ids_def)
  moreover have "dead_ids (s\<lparr>rdq_task := map g (rdq_task s), uuids := n\<rparr>) = dead_ids s" by (simp add: dead_ids_def)
  moreover have "own_tokens (map g (rdq_task s))"
    unfolding own_tokens_def set_map using assms(4) by blast
  ultimately show ?thesis
    using assms(1,2) by (simp add: pg_wf_def)
qed

lemma wf_add_attempt:
  assumes "pg_wf lib s" "aTaskID a \<in> set (live_ids s @ dead_ids s)" "attemptFromRow lib a = Inr x" "add_attempt a s = Inr s'"
  shows "pg_wf lib s'" "s' = s\<lparr>rdq_attempt := rdq_attempt s @ [a]\<rparr>"
proof -
  show s': "s' = s\<lparr>rdq_attempt := rdq_attempt s @ [a]\<rparr>"
    using assms(4) by (auto simp: add_attempt_def split: if_splits)
  have "(aTaskID a, aAttemptNo a) \<notin> (\<lambda>a. (aTaskID a, aAttemptNo a)) ` set (rdq_attempt s)"
    using assms(4) by (auto simp: add_attempt_def list_ex_iff split: if_splits)
  moreover have "live_ids s' = live_ids s" "dead_ids s' = dead_ids s" by (simp_all add: s' live_ids_def dead_ids_def)
  ultimately show "pg_wf lib s'" using assms(1-3) by (simp add: pg_wf_def s')
qed

text \<open>Statements that keep a row's token or clear it.\<close>

lemma wf_fenced:
  assumes "pg_wf lib s" "updateFenced lib k tok upd s = Inr (n, s')"
    "\<And>r. wf_live lib (uuids s) r \<Longrightarrow> tStatus r = StatusInFlight \<Longrightarrow> int4 (tAttemptCount (upd r)) \<Longrightarrow>
       tID (upd r) = tID r \<and> wf_live lib (uuids s) (upd r) \<and> claim_token (upd r) \<in> {None, claim_token r}"
  shows "pg_wf lib s'" "rdq_attempt s' = rdq_attempt s" "live_ids s' = live_ids s" "dead_ids s' = dead_ids s" "uuids s' = uuids s"
proof -
  let ?g = "\<lambda>r. if fence k tok r then upd r else r"
  have s': "s' = s\<lparr>rdq_task := map ?g (rdq_task s), uuids := uuids s\<rparr>" and
    c: "\<And>r. r \<in> set (rdq_task s) \<Longrightarrow> fence k tok r \<Longrightarrow> int4 (tAttemptCount (upd r))"
    using assms(2) by (auto simp: updateFenced_def list_ex_iff split: if_splits)
  have g: "tID (?g r) = tID r \<and> wf_live lib (uuids s) (?g r) \<and> claim_token (?g r) \<in> {None, claim_token r}"
    if "r \<in> set (rdq_task s)" for r
    using assms(3) [of r] c [OF that] pg_wfD(2) [OF assms(1) that] by (auto simp: fence_def)
  have "r = r'" if "r \<in> set (rdq_task s)" "r' \<in> set (rdq_task s)" "claim_token (?g r) = claim_token (?g r')"
    "claim_token (?g r) \<noteq> None" for r r'
  proof -
    have "claim_token r = claim_token r' \<and> claim_token r \<noteq> None" using g [OF that(1)] g [OF that(2)] that(3,4) by auto
    then show ?thesis using pg_wfD(6) [OF assms(1) that(1,2)] by blast
  qed
  then show "pg_wf lib s'" unfolding s' using g by (intro wf_update [OF assms(1)]) auto
  show "rdq_attempt s' = rdq_attempt s" "dead_ids s' = dead_ids s" "uuids s' = uuids s" by (simp_all add: s' dead_ids_def)
  show "live_ids s' = live_ids s" using g by (simp add: s' live_ids_def)
qed

lemma pg_wf_ExtendLease:
  assumes "pg_wf lib s"
  shows "pg_wf lib (snd (pg_ExtendLease lib now s k tok l))"
proof (cases "updateFenced lib k tok (\<lambda>r. r\<lparr>tLeaseExpiresAt := Some (now + make_interval lib (Seconds l))\<rparr>) s")
  case (Inr x)
  obtain n s' where x: "x = (n, s')" by fastforce
  have "pg_wf lib s'"
    by (rule wf_fenced(1) [OF assms Inr [unfolded x]]) (auto simp: wf_live_def readable_def)
  then show ?thesis using Inr x by (simp add: pg_ExtendLease_def)
qed (simp add: pg_ExtendLease_def assms)

lemma fenced_id:
  assumes "updateFenced lib k tok upd s = Inr (n, s')" "n \<noteq> 0"
  shows "k \<in> set (live_ids s)"
  using assms by (auto simp: updateFenced_def live_ids_def fence_def filter_empty_conv split: if_splits)

text \<open>An outcome whose statement keeps the invariant and finds its task keeps it as a whole.\<close>

lemma wf_spendClaim:
  assumes "pg_inv lib s" "\<And>s1. update s = Inr s1 \<Longrightarrow> pg_wf lib s1 \<and> k \<in> set (live_ids s1 @ dead_ids s1)"
  shows "pg_wf lib (snd (spendClaim lib k att update s))"
proof (cases "fst (spendClaim lib k att update s)")
  case None
  obtain row s1 s2 where d: "attemptRowFromAttempt lib k att = Inr row" "update s = Inr s1" "insertAttempt lib row s1 = Inr s2"
    "snd (spendClaim lib k att update s) = s2"
    using None by (auto simp: spendClaim_def split: sum.splits)
  obtain row' where b: "bind_attempt lib row = Inr row'" "add_attempt row' s1 = Inr s2"
    using d(3) by (auto simp: insertAttempt_def split: sum.splits)
  have "pg_lib_ok lib" using assms(1) by (simp add: pg_inv_def)
  note kr = kept_read [OF this d(1) b(1)]
  show ?thesis using wf_add_attempt(1) [of lib s1 row', OF _ _ kr(1) b(2)] assms(2) [OF d(2)] kr(2) d(4) by simp
next
  case (Some e)
  then have "snd (spendClaim lib k att update s) = s" by (auto simp: spendClaim_def split: sum.splits)
  then show ?thesis using assms(1) by (simp add: pg_inv_def)
qed

lemma wf_outcomeUpdate:
  assumes "pg_wf lib s" "outcomeUpdate lib k tok upd s = Inr s1"
    "\<And>r. wf_live lib (uuids s) r \<Longrightarrow> tStatus r = StatusInFlight \<Longrightarrow> int4 (tAttemptCount (upd r)) \<Longrightarrow>
       tID (upd r) = tID r \<and> wf_live lib (uuids s) (upd r) \<and> claim_token (upd r) \<in> {None, claim_token r}"
  shows "pg_wf lib s1 \<and> k \<in> set (live_ids s1)"
proof -
  obtain n where n: "updateFenced lib k tok upd s = Inr (n, s1)" "n \<noteq> 0"
    using assms(2) by (auto simp: outcomeUpdate_def staleIfNoRows_def split: sum.splits if_splits)
  show ?thesis using wf_fenced [OF assms(1) n(1) assms(3)] fenced_id [OF n] by simp
qed

lemma pg_wf_Complete: "pg_inv lib s \<Longrightarrow> pg_wf lib (snd (pg_Complete lib now s k tok att))"
  unfolding pg_Complete_def
  by (rule wf_spendClaim) (auto dest!: wf_outcomeUpdate [rotated] simp: pg_inv_def wf_live_def readable_def)

lemma pg_wf_Reschedule: "pg_inv lib s \<Longrightarrow> pg_wf lib (snd (pg_Reschedule lib s k tok att nextAt))"
  unfolding pg_Reschedule_def
  by (rule wf_spendClaim)
    (auto dest!: wf_outcomeUpdate [rotated] simp: pg_inv_def wf_live_def readable_def live_ids_def dead_ids_def split: sum.splits)

end
