(* ===== verification/Postgres_Ops.thy ===== *)
theory Postgres_Ops
  imports Postgres_Inv
begin

text \<open>
  The remaining operations on the tables: what each keeps of the invariant and does to the tasks a
  reader sees, the effect of a claiming transaction, and the interpretation of the storage
  contract.
\<close>

section \<open>Extending a lease\<close>

lemma pg_extend_held:
  assumes "pg_inv lib s" "pg_held s k tok" "pg_task_at lib s k = Some e"
  shows "\<exists>s'. pg_ExtendLease lib now s k tok l = (None, s') \<and>
    only_changes (pg_task_at lib) k (e\<lparr>LeaseExpiresAt := Some (pg_expiry lib now l)\<rparr>) s s' \<and> pg_held s' k tok \<and> pg_inv lib s'"
proof -
  let ?upd = "\<lambda>r. r\<lparr>tLeaseExpiresAt := Some (now + make_interval lib (Seconds l))\<rparr>"
  have wf: "pg_wf lib s" using assms(1) by (simp add: pg_inv_def)
  have c: "\<forall>r \<in> set (rdq_task s). tID r = k \<longrightarrow> int4 (tAttemptCount (?upd r))"
    using pg_wfD(2) [OF wf] by (simp add: wf_live_def)
  have t: "tID (?upd r) = tID r" for r :: live_row by simp
  obtain r s' where u: "updateFenced lib k tok ?upd s = Inr (1, s')" "r \<in> set (rdq_task s)" "fence k tok r"
    "row_of s k = Some (task_row.truncate r)" "filter (\<lambda>x. tID x = k) (rdq_task s') = [?upd r]"
    "s' = s\<lparr>rdq_task := map (\<lambda>r. if fence k tok r then ?upd r else r) (rdq_task s)\<rparr>"
    "\<And>k'. k' \<noteq> k \<Longrightarrow> filter (\<lambda>x. tID x = k') (rdq_task s') = filter (\<lambda>x. tID x = k') (rdq_task s)"
    by (rule updateFenced_held [OF assms(1,2) t c]) blast
  have ex: "pg_ExtendLease lib now s k tok l = (None, s')"
    by (simp add: pg_ExtendLease_def u(1) staleIfNoRows_def)
  have "?upd r \<in> set (rdq_task s')" using u(5) by (metis filter_is_subset list.set_intros(1) subsetD)
  moreover have "fence k tok (?upd r)" using u(3) by (simp add: fence_def)
  ultimately have held: "pg_held s' k tok" unfolding pg_held_def by (rule rev_bexI)
  have "row_of s' k = Some (task_row.truncate (?upd r))" using u(5) by (rule row_of_single)
  moreover have "loadAttempts s' k = loadAttempts s k" by (simp add: loadAttempts_def u(6))
  ultimately have "pg_task_at lib s' k = Some (e\<lparr>LeaseExpiresAt := Some (pg_expiry lib now l)\<rparr>)"
    using assms(3) by (auto simp: pg_task_at_def u(4) envelopeFromRows_def pg_expiry_def split: sum.splits)
  moreover have "pg_task_at lib s' k' = pg_task_at lib s k'" if "k' \<noteq> k" for k'
    by (rule task_at_cong [OF u(7) [OF that]]) (simp_all add: u(6))
  moreover have "pg_inv lib s'"
    using pg_wf_ExtendLease [OF wf, of now k tok l] assms(1) ex by (simp add: pg_inv_def)
  ultimately show ?thesis using ex held by (simp add: only_changes_def)
qed

section \<open>Moving and removing tasks\<close>

lemma wf_move:
  assumes "pg_wf lib s" "distinct (map tID live @ map tID dead)" "set (map tID live @ map tID dead) = set (live_ids s @ dead_ids s)"
    "\<And>r. r \<in> set live \<Longrightarrow> wf_live lib (uuids s) r" "\<And>d. d \<in> set dead \<Longrightarrow> wf_dead lib d"
    "\<And>r. r \<in> set live \<Longrightarrow> r \<in> set (rdq_task s) \<or> claim_token r = None"
  shows "pg_wf lib (s\<lparr>rdq_task := live, rdq_dlq_task := dead\<rparr>)"
proof -
  have "own_tokens live"
    by (rule own_tokens_sub [of "rdq_task s"]) (use assms(1,6) in \<open>auto simp: pg_wf_def\<close>)
  moreover have "aTaskID a \<in> set (map tID live @ map tID dead) \<and> (\<exists>x. attemptFromRow lib a = Inr x)"
    if "a \<in> set (rdq_attempt s)" for a using pg_wfD(4) [OF assms(1) that] unfolding assms(3) .
  ultimately show ?thesis
    using assms(2,4,5) pg_wfD(5) [OF assms(1)] unfolding pg_wf_def live_ids_def dead_ids_def by simp
qed

lemma deadRow_simps [simp]:
  "tID (deadRow now et r) = tID r" "tQueue (deadRow now et r) = tQueue r" "tStatus (deadRow now et r) = StatusDead"
  "readable lib (deadRow now et r) = readable lib r" "tNextAttemptAt (deadRow now et r) = None"
  "tLeaseExpiresAt (deadRow now et r) = None" "dead_lettered_at (deadRow now et r) = now" "error_type (deadRow now et r) = et"
  by (simp_all add: deadRow_def task_row.defs dlq_row.defs readable_def)

lemma deadLetterSQL_row:
  assumes "pg_wf lib s" "deadLetterSQL lib now k tok et s = Inr (n, s1)" "n \<noteq> 0"
  obtains r where "r \<in> set (rdq_task s)" "fence k tok r" "tID r = k" "filter (\<lambda>x. tID x = k) (rdq_task s) = [r]"
    "s1 = s\<lparr>rdq_task := filter (\<lambda>x. tID x \<noteq> k) (rdq_task s), rdq_dlq_task := rdq_dlq_task s @ [deadRow now et r]\<rparr>"
proof -
  let ?m = "filter (fence k tok) (rdq_task s)"
  have d: "length ?m = n" "s1 = s\<lparr>rdq_task := filter (\<lambda>r. \<not> fence k tok r) (rdq_task s),
      rdq_dlq_task := rdq_dlq_task s @ map (deadRow now et) ?m\<rparr>"
    using assms(2) by (auto simp: deadLetterSQL_def Let_def split: if_splits)
  then have "pg_held s k tok" using assms(3) by (auto simp: pg_held_def filter_empty_conv)
  from held_row [OF assms(1) this] obtain r where r: "r \<in> set (rdq_task s)" "fence k tok r" "tID r = k" "?m = [r]"
    "filter (\<lambda>x. tID x = k) (rdq_task s) = [r]" by blast
  have "tID x = k \<longleftrightarrow> fence k tok x" if "x \<in> set (rdq_task s)" for x
  proof
    assume "tID x = k"
    then have "x \<in> set (filter (\<lambda>x. tID x = k) (rdq_task s))" using that by simp
    then show "fence k tok x" using r(2,5) by simp
  qed (simp add: fence_def)
  then have "filter (\<lambda>r. \<not> fence k tok r) (rdq_task s) = filter (\<lambda>x. tID x \<noteq> k) (rdq_task s)"
    by (auto intro: filter_cong)
  then show thesis using that [OF r(1,2,3,5)] d(2) r(4) by simp
qed

lemma wf_deadLetterSQL:
  assumes "pg_wf lib s" "deadLetterSQL lib now k tok et s = Inr (n, s1)" "n \<noteq> 0"
  shows "pg_wf lib s1 \<and> k \<in> set (live_ids s1 @ dead_ids s1)"
proof -
  obtain r where r: "r \<in> set (rdq_task s)" "fence k tok r" "tID r = k"
    "s1 = s\<lparr>rdq_task := filter (\<lambda>x. tID x \<noteq> k) (rdq_task s), rdq_dlq_task := rdq_dlq_task s @ [deadRow now et r]\<rparr>"
    by (rule deadLetterSQL_row [OF assms]) blast
  have "pg_wf lib s1"
    unfolding r(4)
  proof (rule wf_move [OF assms(1)])
    show "distinct (map tID (filter (\<lambda>x. tID x \<noteq> k) (rdq_task s)) @ map tID (rdq_dlq_task s @ [deadRow now et r]))"
      using pg_wfD(1) [OF assms(1)] r(1,3) unfolding distinct_split by (auto simp: distinct_map_filter)
    show "set (map tID (filter (\<lambda>x. tID x \<noteq> k) (rdq_task s)) @ map tID (rdq_dlq_task s @ [deadRow now et r])) =
        set (live_ids s @ dead_ids s)" using r(1,3) by (auto simp: live_ids_def dead_ids_def)
    show "wf_dead lib d" if "d \<in> set (rdq_dlq_task s @ [deadRow now et r])" for d
      using that pg_wfD(3) [OF assms(1)] pg_wfD(2) [OF assms(1) r(1)] by (auto simp: wf_dead_def wf_live_def)
  qed (use pg_wfD(2) [OF assms(1)] in auto)
  then show ?thesis using r(3) by (simp add: r(4) dead_ids_def)
qed

lemma pg_wf_DeadLetter:
  assumes "pg_inv lib s"
  shows "pg_wf lib (snd (pg_DeadLetter lib now s k tok att))"
  unfolding pg_DeadLetter_def
  by (rule wf_spendClaim [OF assms])
    (use assms in \<open>auto simp: pg_inv_def staleIfNoRows_def split: sum.splits if_splits dest!: wf_deadLetterSQL [rotated]\<close>)

text \<open>Removing tasks together with their attempts.\<close>

lemma wf_remove:
  assumes "pg_wf lib s" "s' = s\<lparr>rdq_task := filter P (rdq_task s), rdq_dlq_task := filter Q (rdq_dlq_task s),
      rdq_attempt := dropAttempts gone (rdq_attempt s)\<rparr>"
    "\<And>r. r \<in> set (rdq_task s) \<Longrightarrow> \<not> P r \<Longrightarrow> tID r \<in> set gone"
    "\<And>r. r \<in> set (rdq_dlq_task s) \<Longrightarrow> \<not> Q r \<Longrightarrow> tID r \<in> set gone"
  shows "pg_wf lib s'"
proof -
  have "own_tokens (filter P (rdq_task s))"
    by (rule own_tokens_sub [of "rdq_task s"]) (use assms(1) in \<open>auto simp: pg_wf_def\<close>)
  moreover have "aTaskID a \<in> set (live_ids s' @ dead_ids s')" if "a \<in> set (rdq_attempt s')" for a
  proof -
    have a: "aTaskID a \<in> set (live_ids s @ dead_ids s)" "aTaskID a \<notin> set gone"
      using that pg_wfD(4) [OF assms(1), of a] by (auto simp: assms(2) dropAttempts_def)
    then show ?thesis using assms(3,4) by (fastforce simp: assms(2) live_ids_def dead_ids_def)
  qed
  moreover have "distinct (live_ids s' @ dead_ids s')"
    using pg_wfD(1) [OF assms(1)] by (auto simp: assms(2) live_ids_def dead_ids_def distinct_map_filter)
  moreover have "\<exists>x. attemptFromRow lib a = Inr x" if "a \<in> set (rdq_attempt s')" for a
    using that pg_wfD(4) [OF assms(1), of a] by (auto simp: assms(2) dropAttempts_def)
  ultimately show ?thesis
    using assms(1) unfolding pg_wf_def by (auto simp: assms(2) dropAttempts_def distinct_map_filter)
qed

lemma pg_wf_Purge:
  assumes "pg_wf lib s"
  shows "pg_wf lib (snd (pg_Purge lib s q sel))"
proof (cases "dlqSelectorClause lib q sel")
  case (Some P)
  have "pg_wf lib (s\<lparr>rdq_dlq_task := filter (\<lambda>r. \<not> P r) (rdq_dlq_task s),
      rdq_attempt := dropAttempts (map tID (filter P (rdq_dlq_task s))) (rdq_attempt s)\<rparr>)"
    by (rule wf_remove [OF assms, where P = "\<lambda>r. True"]) auto
  then show ?thesis using assms Some by (simp add: pg_Purge_def Let_def)
qed (simp add: pg_Purge_def assms)

lemma pg_wf_PurgeSucceeded:
  assumes "pg_wf lib s"
  shows "pg_wf lib (snd (pg_PurgeSucceeded lib s q t))"
proof -
  let ?P = "\<lambda>r. tQueue r = q \<and> tStatus r = StatusSucceeded \<and> completedAt s r < ts lib t"
  have "pg_wf lib (s\<lparr>rdq_task := filter (\<lambda>r. \<not> ?P r) (rdq_task s),
      rdq_attempt := dropAttempts (map tID (filter ?P (rdq_task s))) (rdq_attempt s)\<rparr>)"
    by (rule wf_remove [OF assms, where Q = "\<lambda>r. True"]) auto
  then show ?thesis using assms by (simp add: pg_PurgeSucceeded_def Let_def)
qed

lemma redrivenRow_simps [simp]:
  "tID (redrivenRow now r) = tID r" "tQueue (redrivenRow now r) = tQueue r" "tStatus (redrivenRow now r) = StatusPending"
  "readable lib (redrivenRow now r) = readable lib r" "tNextAttemptAt (redrivenRow now r) = Some now"
  "tLeaseExpiresAt (redrivenRow now r) = None" "claim_token (redrivenRow now r) = None" "tAttemptCount (redrivenRow now r) = 0"
  by (simp_all add: redrivenRow_def task_row.defs live_row.defs readable_def)

lemma pg_wf_Redrive:
  assumes "pg_wf lib s"
  shows "pg_wf lib (snd (pg_Redrive lib now s q sel))"
proof (cases "dlqSelectorClause lib q sel")
  case (Some P)
  let ?m = "filter P (rdq_dlq_task s)"
  have "pg_wf lib (s\<lparr>rdq_task := rdq_task s @ map (redrivenRow now) ?m, rdq_dlq_task := filter (\<lambda>r. \<not> P r) (rdq_dlq_task s)\<rparr>)"
  proof (rule wf_move [OF assms])
    show "distinct (map tID (rdq_task s @ map (redrivenRow now) ?m) @ map tID (filter (\<lambda>r. \<not> P r) (rdq_dlq_task s)))"
      using pg_wfD(1) [OF assms] unfolding distinct_split by (auto simp: comp_def distinct_map_filter distinct_map inj_on_def)
    show "set (map tID (rdq_task s @ map (redrivenRow now) ?m) @ map tID (filter (\<lambda>r. \<not> P r) (rdq_dlq_task s))) =
        set (live_ids s @ dead_ids s)" by (auto simp: live_ids_def dead_ids_def)
    have "wf_live lib (uuids s) (redrivenRow now d)" if "wf_dead lib d" for d
      using that by (simp add: wf_live_def wf_dead_def int4_def)
    then show "wf_live lib (uuids s) r" if "r \<in> set (rdq_task s @ map (redrivenRow now) ?m)" for r
      using that pg_wfD(2,3) [OF assms] by auto
  qed (use pg_wfD(3) [OF assms] in auto)
  then show ?thesis using assms Some by (simp add: pg_Redrive_def Let_def)
qed (simp add: pg_Redrive_def assms)

section \<open>Enqueueing\<close>

lemma extend_live_simps [simp]:
  "tID (task_row.extend row (live_row.fields None)) = tID row" "tStatus (task_row.extend row (live_row.fields None)) = tStatus row"
  "tQueue (task_row.extend row (live_row.fields None)) = tQueue row"
  "claim_token (task_row.extend row (live_row.fields None)) = None"
  "readable lib (task_row.extend row (live_row.fields None)) = readable lib row"
  "tAttemptCount (task_row.extend row (live_row.fields None)) = tAttemptCount row"
  "tNextAttemptAt (task_row.extend row (live_row.fields None)) = tNextAttemptAt row"
  "tLeaseExpiresAt (task_row.extend row (live_row.fields None)) = tLeaseExpiresAt row"
  "task_row.truncate (task_row.extend row (live_row.fields None)) = row"
  by (simp_all add: task_row.defs live_row.defs readable_def)

lemma lookupQueue_None: "lookupQueue s k = None \<longleftrightarrow> k \<notin> set (live_ids s @ dead_ids s)"
proof -
  have "filter (\<lambda>r. tID r = k) (rdq_task s) = [] \<longleftrightarrow> k \<notin> set (live_ids s)"
    "filter (\<lambda>r. tID r = k) (rdq_dlq_task s) = [] \<longleftrightarrow> k \<notin> set (dead_ids s)"
    by (auto simp: live_ids_def dead_ids_def filter_empty_conv)
  then show ?thesis by (auto simp: lookupQueue_def split: list.split)
qed

lemma bind_task_Inr:
  assumes "bind_task lib r = Inr r'"
  obtains h x where "jsonb lib (tHeaders r) = Some h" "jsonb lib (tResidual r) = Some x" "tPayload r \<noteq> None"
    "texts_ok lib [tID r, tQueue r]" "int4 (tAttemptCount r)" "tStatus r \<in> {StatusPending, StatusInFlight, StatusSucceeded}"
    "r' = r\<lparr>tHeaders := h, tResidual := x, tNextAttemptAt := map_option (ts lib) (tNextAttemptAt r),
       tLeaseExpiresAt := map_option (ts lib) (tLeaseExpiresAt r), tCreatedAt := ts lib (tCreatedAt r)\<rparr>"
proof -
  have t: "texts_ok lib [tID r, tQueue r]" "int4 (tAttemptCount r)"
    using assms by (auto simp: bind_task_def texts_ok_def split: if_splits)
  show thesis
    using assms that [OF _ _ _ t] unfolding bind_task_def by (auto split: if_splits option.splits)
qed

text \<open>A task that is accepted for the first time, and the row it becomes.\<close>

lemma Enqueue_new:
  assumes "pg_lib_ok lib" "pg_Enqueue lib s e = (None, s')" "lookupQueue s (ID e) = None" "Attempts e = []"
  obtains row where "readable lib row" "tID row = ID e" "tQueue row = Queue e" "tStatus row = Status e"
    "int4 (tAttemptCount row)" "tNextAttemptAt row = map_option (ts lib) (NextAttemptAt e)" "tHandlerRef row = HandlerRef e"
    "tLeaseExpiresAt row = map_option (ts lib) (LeaseExpiresAt e)" "tStatus row \<in> {StatusPending, StatusInFlight, StatusSucceeded}"
    "tAttemptCount row = AttemptCount e" "tRedriveCount row = RedriveCount e" "tPayload row = Payload e" "Payload e \<noteq> None"
    "s' = notifyDue (Queue e) (s\<lparr>rdq_task := rdq_task s @ [task_row.extend row (live_row.fields None)]\<rparr>)"
proof -
  obtain row where row: "taskRowFromEnvelope lib e = Inr row"
    using assms(2) by (auto simp: pg_Enqueue_def split: sum.splits)
  then obtain res where res: "encodeResidual lib (Residual e) = Inr res" "tResidual row = res" "tID row = ID e"
    "tHeaders row = encodeStringMap lib (Headers e)" "tQueue row = Queue e" "tStatus row = Status e"
    "tAttemptCount row = AttemptCount e" "tNextAttemptAt row = NextAttemptAt e" "tHandlerRef row = HandlerRef e"
    "tLeaseExpiresAt row = LeaseExpiresAt e" "tRedriveCount row = RedriveCount e" "tPayload row = Payload e"
    by (auto simp: taskRowFromEnvelope_def split: sum.splits)
  have ins: "enqueueInsert lib s row [] = (None, s')"
    using assms(2) row res(3) assms(3,4) by (auto simp: pg_Enqueue_def attemptRowsFromEnvelope_def split: if_splits)
  then obtain row' where b: "bind_task lib row = Inr row'" by (auto simp: enqueueInsert_def split: sum.splits)
  obtain h x where x: "jsonb lib (tHeaders row) = Some h" "jsonb lib (tResidual row) = Some x" "tPayload row \<noteq> None"
    "texts_ok lib [tID row, tQueue row]" "int4 (tAttemptCount row)" "tStatus row \<in> {StatusPending, StatusInFlight, StatusSucceeded}"
    "row' = row\<lparr>tHeaders := h, tResidual := x, tNextAttemptAt := map_option (ts lib) (tNextAttemptAt row),
       tLeaseExpiresAt := map_option (ts lib) (tLeaseExpiresAt row), tCreatedAt := ts lib (tCreatedAt row)\<rparr>"
    by (rule bind_task_Inr [OF b])
  have "\<not> list_ex (\<lambda>r. tID r = tID row') (rdq_task s)"
    using assms(3) x(7) res(3) by (force simp: lookupQueue_None list_ex_iff live_ids_def)
  then have s': "s' = notifyDue (Queue e) (s\<lparr>rdq_task := rdq_task s @ [task_row.extend row' (live_row.fields None)]\<rparr>)"
    using ins b x(7) res(5) by (simp add: enqueueInsert_def)
  have "readable lib row'"
    using pg_lib_okD(4) [OF assms(1) res(1), of x] pg_lib_okD(5) [OF assms(1), of "Headers e" h] x(1,2,4) res
    by (auto simp: readable_def x(7) texts_ok_def)
  then show thesis using that [of row'] s' x(3,5,6) res by (simp add: x(7))
qed

lemma Enqueue_other:
  assumes "pg_Enqueue lib s e = (err, s')" "err \<noteq> None \<or> lookupQueue s (ID e) \<noteq> None"
  shows "s' = s"
proof -
  have id: "tID row = ID e" if "taskRowFromEnvelope lib e = Inr row" for row
    using that by (auto simp: taskRowFromEnvelope_def split: sum.splits)
  show ?thesis
    using assms id by (auto simp: pg_Enqueue_def enqueueInsert_def split: sum.splits option.splits if_splits)
qed

lemma pg_wf_Enqueue:
  assumes "pg_inv lib s" "Attempts e = []" "Status e = StatusPending" "NextAttemptAt e \<noteq> None" "LeaseExpiresAt e = None"
  shows "pg_wf lib (snd (pg_Enqueue lib s e))"
proof -
  have wf: "pg_wf lib s" and ok: "pg_lib_ok lib" using assms(1) by (simp_all add: pg_inv_def)
  obtain err s' where E: "pg_Enqueue lib s e = (err, s')" by fastforce
  show ?thesis
  proof (cases "err \<noteq> None \<or> lookupQueue s (ID e) \<noteq> None")
    case True
    then show ?thesis using Enqueue_other [OF E] wf E by simp
  next
    case False
    then have E': "pg_Enqueue lib s e = (None, s')" and new: "lookupQueue s (ID e) = None" using E by auto
    obtain row where row: "readable lib row" "tID row = ID e" "tStatus row = Status e" "int4 (tAttemptCount row)"
      "tNextAttemptAt row = map_option (ts lib) (NextAttemptAt e)" "tLeaseExpiresAt row = map_option (ts lib) (LeaseExpiresAt e)"
      "s' = notifyDue (Queue e) (s\<lparr>rdq_task := rdq_task s @ [task_row.extend row (live_row.fields None)]\<rparr>)"
      by (rule Enqueue_new [OF ok E' new assms(2)]) blast
    let ?r = "task_row.extend row (live_row.fields None)"
    have "ID e \<notin> set (live_ids s @ dead_ids s)" using new by (simp add: lookupQueue_None)
    then have "distinct (map tID (rdq_task s @ [?r]) @ dead_ids s)"
      using pg_wfD(1) [OF wf] row(2) by (simp add: live_ids_def dead_ids_def)
    moreover have "wf_live lib (uuids s) ?r" using row assms by (simp add: wf_live_def)
    moreover have "own_tokens (rdq_task s @ [?r])"
      by (rule own_tokens_sub [of "rdq_task s"]) (use wf in \<open>auto simp: pg_wf_def\<close>)
    ultimately have "pg_wf lib (s\<lparr>rdq_task := rdq_task s @ [?r]\<rparr>)"
      using wf unfolding pg_wf_def by (auto simp: live_ids_def dead_ids_def)
    then show ?thesis using E' row(7) by (simp add: notifyDue_def)
  qed
qed

end
