(* ===== verification/Postgres_Claim.thy ===== *)
theory Postgres_Claim
  imports Postgres_Ops
begin

text \<open>
  The effect of a claiming transaction: the rows it leases, the attempts it records for leases
  that ran out, and the tasks it returns; with it the interpretation of the storage contract.
\<close>

section \<open>The rows claimed\<close>

definition claimRows :: "pg_lib \<Rightarrow> time \<Rightarrow> pg \<Rightarrow> string \<Rightarrow> int \<Rightarrow> live_row list" where
  "claimRows lib now s q limit = update_order lib (dueRows now s q limit)"

lemma dueRows_row: "r \<in> set (dueRows now s q limit) \<Longrightarrow> r \<in> set (rdq_task s) \<and> dueRow now q r \<and> tID r \<notin> set (row_locks s)"
  by (auto simp: dueRows_def dest!: in_set_takeD)

lemma distinct_dueRows:
  assumes "distinct (map tID (rdq_task s))"
  shows "distinct (map tID (dueRows now s q limit))"
proof -
  let ?f = "filter (\<lambda>r. dueRow now q r \<and> tID r \<notin> set (row_locks s)) (rdq_task s)"
  have "mset (map tID (sort_key (\<lambda>r. nulls_last (tNextAttemptAt r)) ?f)) = mset (map tID ?f)" by simp
  moreover have "distinct (map tID ?f)" using assms by (rule distinct_map_filter)
  ultimately have "distinct (map tID (sort_key (\<lambda>r. nulls_last (tNextAttemptAt r)) ?f))"
    using mset_eq_imp_distinct_iff by blast
  then show ?thesis by (simp add: dueRows_def take_map [symmetric])
qed

lemma claimRows_facts:
  assumes "pg_inv lib s"
  shows "set (claimRows lib now s q limit) = set (dueRows now s q limit)" "distinct (map tID (claimRows lib now s q limit))"
    "length (claimRows lib now s q limit) \<le> nat limit"
    "r \<in> set (claimRows lib now s q limit) \<Longrightarrow> r \<in> set (rdq_task s) \<and> dueRow now q r \<and> tID r \<notin> set (row_locks s)"
proof -
  have m: "mset (claimRows lib now s q limit) = mset (dueRows now s q limit)"
    using assms by (simp add: claimRows_def pg_inv_def pg_lib_okD(3))
  then show set: "set (claimRows lib now s q limit) = set (dueRows now s q limit)" by (rule mset_eq_setD)
  have "distinct (map tID (rdq_task s))"
    using assms pg_wfD(1) [of lib s] unfolding pg_inv_def distinct_split by blast
  moreover have "mset (map tID (claimRows lib now s q limit)) = mset (map tID (dueRows now s q limit))" using m by simp
  ultimately show "distinct (map tID (claimRows lib now s q limit))"
    using distinct_dueRows mset_eq_imp_distinct_iff by blast
  show "length (claimRows lib now s q limit) \<le> nat limit"
    using mset_eq_length [OF m] by (simp add: dueRows_def)
  show "r \<in> set (claimRows lib now s q limit) \<Longrightarrow> r \<in> set (rdq_task s) \<and> dueRow now q r \<and> tID r \<notin> set (row_locks s)"
    using set dueRows_row by blast
qed

section \<open>Recording lost attempts\<close>

definition reclaimed :: "claimed_row list \<Rightarrow> string set" where
  "reclaimed crs = {tID (crow cr) |cr. cr \<in> set crs \<and> prevStatus cr = StatusInFlight}"

definition recount :: "claimed_row \<Rightarrow> claimed_row" where
  "recount cr = (if prevStatus cr = StatusInFlight
     then cr\<lparr>crow := (crow cr)\<lparr>tAttemptCount := tAttemptCount (crow cr) + 1\<rparr>\<rparr> else cr)"

definition counted :: "string set \<Rightarrow> live_row \<Rightarrow> live_row" where
  "counted ids r = (if tID r \<in> ids then r\<lparr>tAttemptCount := tAttemptCount r + 1\<rparr> else r)"

abbreviation attempts_of :: "pg \<Rightarrow> task_id \<Rightarrow> attempt_row list" where
  "attempts_of s k \<equiv> filter (\<lambda>a. aTaskID a = k) (rdq_attempt s)"

lemma nextAttemptNo_cong: "attempts_of s' k = attempts_of s k \<Longrightarrow> nextAttemptNo s' k = nextAttemptNo s k"
  by (simp add: nextAttemptNo_def)

lemma fold_max_ge: "x \<in> set (n # ns) \<Longrightarrow> x \<le> fold max ns (n :: int)"
  using Max_ge [of "set (n # ns)" x] by (simp only: Max.set_eq_fold [of n ns]) simp

lemma nextAttemptNo_gt: "a \<in> set (attempts_of s k) \<Longrightarrow> aAttemptNo a < nextAttemptNo s k"
proof -
  assume "a \<in> set (attempts_of s k)"
  then have "aAttemptNo a \<in> set (map aAttemptNo (attempts_of s k))" by simp
  then show ?thesis
    using fold_max_ge by (cases "map aAttemptNo (attempts_of s k)") (fastforce simp: nextAttemptNo_def)+
qed

lemma insertLeaseExpired_Inr:
  assumes "insertLeaseExpired lib now k lapsed s = Inr s'"
  shows "s' = s\<lparr>rdq_attempt := rdq_attempt s @ [leaseExpiredRow lib now k lapsed (nextAttemptNo s k)]\<rparr>"
  using assms by (auto simp: insertLeaseExpired_def add_attempt_def split: if_splits)

lemma countAttempt_Inr:
  assumes "countAttempt k s = Inr s'"
  shows "s' = s\<lparr>rdq_task := map (counted {k}) (rdq_task s)\<rparr>"
    "\<And>r. r \<in> set (rdq_task s) \<Longrightarrow> tID r = k \<Longrightarrow> int4 (tAttemptCount r + 1)"
  using assms by (auto simp: countAttempt_def counted_def list_ex_iff split: if_splits)

lemma counted_id [simp]: "tID (counted ids r) = tID r" "claim_token (counted ids r) = claim_token r"
  by (simp_all add: counted_def)

lemma counted_insert: "tID (crow cr) = k \<Longrightarrow> k \<notin> ids \<Longrightarrow> counted ids (counted {k} r) = counted (insert k ids) r"
  by (auto simp: counted_def)

lemma leaseExpiredRow_read: "pg_lib_ok lib \<Longrightarrow> \<exists>a. attemptFromRow lib (leaseExpiredRow lib now k lapsed n) = Inr a"
  using pg_lib_okD(6) by (fastforce simp: attemptFromRow_def leaseExpiredRow_def)

lemma reclaimLoop_effect:
  assumes "reclaimLoop lib now crs s = Inr (crs', s')" "distinct (map (\<lambda>cr. tID (crow cr)) crs)"
  shows "crs' = map recount crs \<and> rdq_task s' = map (counted (reclaimed crs)) (rdq_task s) \<and>
    rdq_dlq_task s' = rdq_dlq_task s \<and> uuids s' = uuids s \<and>
    (\<forall>k. k \<notin> reclaimed crs \<longrightarrow> attempts_of s' k = attempts_of s k) \<and>
    (\<forall>cr \<in> set crs. prevStatus cr = StatusInFlight \<longrightarrow> attempts_of s' (tID (crow cr)) =
       attempts_of s (tID (crow cr)) @ [leaseExpiredRow lib now (tID (crow cr)) (prevLease cr) (nextAttemptNo s (tID (crow cr)))])"
  using assms
proof (induction crs arbitrary: s crs')
  case Nil
  then show ?case by (simp add: reclaimed_def counted_def)
next
  case (Cons cr crs)
  let ?k = "tID (crow cr)"
  have new: "?k \<notin> reclaimed crs" using Cons.prems(2) by (auto simp: reclaimed_def)
  show ?case
  proof (cases "prevStatus cr = StatusInFlight")
    case False
    then obtain crs1 where l: "reclaimLoop lib now crs s = Inr (crs1, s')" "crs' = cr # crs1"
      using Cons.prems(1) by (auto split: sum.splits)
    moreover have "reclaimed (cr # crs) = reclaimed crs" using False by (auto simp: reclaimed_def)
    ultimately show ?thesis using Cons.IH [OF l(1)] Cons.prems(2) False by (simp add: recount_def)
  next
    case True
    then obtain s1 s2 crs1 where l: "insertLeaseExpired lib now ?k (prevLease cr) s = Inr s1" "countAttempt ?k s1 = Inr s2"
      "reclaimLoop lib now crs s2 = Inr (crs1, s')" "crs' = recount cr # crs1"
      using Cons.prems(1) by (auto simp: recount_def split: sum.splits)
    note s1 = insertLeaseExpired_Inr [OF l(1)] and s2 = countAttempt_Inr(1) [OF l(2)]
    let ?x = "leaseExpiredRow lib now ?k (prevLease cr) (nextAttemptNo s ?k)"
    have x: "aTaskID ?x = ?k" by (simp add: leaseExpiredRow_def)
    have at: "attempts_of s2 k = attempts_of s k @ (if k = ?k then [?x] else [])" for k using x by (simp add: s2 s1)
    have rc: "reclaimed (cr # crs) = insert ?k (reclaimed crs)" using True by (auto simp: reclaimed_def)
    have IH: "crs1 = map recount crs" "rdq_task s' = map (counted (reclaimed crs)) (rdq_task s2)"
      "rdq_dlq_task s' = rdq_dlq_task s2" "uuids s' = uuids s2"
      "\<And>k. k \<notin> reclaimed crs \<Longrightarrow> attempts_of s' k = attempts_of s2 k"
      "\<And>c. c \<in> set crs \<Longrightarrow> prevStatus c = StatusInFlight \<Longrightarrow> attempts_of s' (tID (crow c)) = attempts_of s2 (tID (crow c)) @
         [leaseExpiredRow lib now (tID (crow c)) (prevLease c) (nextAttemptNo s2 (tID (crow c)))]"
      using Cons.IH [OF l(3)] Cons.prems(2) by auto
    have "rdq_task s' = map (counted (reclaimed (cr # crs))) (rdq_task s)"
      using new by (simp add: IH(2) s2 s1 rc counted_insert)
    moreover have "attempts_of s' (tID (crow c)) = attempts_of s (tID (crow c)) @
         [leaseExpiredRow lib now (tID (crow c)) (prevLease c) (nextAttemptNo s (tID (crow c)))]"
      if "c \<in> set (cr # crs)" "prevStatus c = StatusInFlight" for c
    proof (cases "c \<in> set crs")
      case True
      then have "tID (crow c) \<in> (\<lambda>cr. tID (crow cr)) ` set crs" by (rule imageI)
      then have "tID (crow c) \<noteq> ?k" using Cons.prems(2) by auto
      then have "attempts_of s2 (tID (crow c)) = attempts_of s (tID (crow c))" by (simp add: at)
      then show ?thesis using IH(6) [OF True that(2)] nextAttemptNo_cong by metis
    next
      case False
      then show ?thesis using that IH(5) [OF new] by (simp add: at)
    qed
    ultimately show ?thesis using IH l(4) at rc by (simp add: s2 s1)
  qed
qed

lemma wf_reclaimLoop:
  assumes "reclaimLoop lib now crs s = Inr (crs', s')" "pg_wf lib s" "pg_lib_ok lib"
    "\<forall>cr \<in> set crs. tID (crow cr) \<in> set (live_ids s)"
  shows "pg_wf lib s'"
  using assms
proof (induction crs arbitrary: s crs')
  case (Cons cr crs)
  let ?k = "tID (crow cr)"
  show ?case
  proof (cases "prevStatus cr = StatusInFlight")
    case False
    then obtain crs1 where "reclaimLoop lib now crs s = Inr (crs1, s')"
      using Cons.prems(1) by (auto split: sum.splits)
    then show ?thesis using Cons by auto
  next
    case True
    then obtain s1 s2 crs1 where l: "insertLeaseExpired lib now ?k (prevLease cr) s = Inr s1" "countAttempt ?k s1 = Inr s2"
      "reclaimLoop lib now crs s2 = Inr (crs1, s')"
      using Cons.prems(1) by (auto split: sum.splits)
    let ?x = "leaseExpiredRow lib now ?k (prevLease cr) (nextAttemptNo s ?k)"
    have a: "add_attempt ?x s = Inr s1" using l(1) by (simp add: insertLeaseExpired_def split: if_splits)
    obtain x where x: "attemptFromRow lib ?x = Inr x" using leaseExpiredRow_read [OF Cons.prems(3)] by blast
    have id: "aTaskID ?x \<in> set (live_ids s @ dead_ids s)" using Cons.prems(4) by (simp add: leaseExpiredRow_def)
    note wf1 = wf_add_attempt [OF Cons.prems(2) id x a]
    note c = countAttempt_Inr [OF l(2)]
    have "pg_wf lib (s1\<lparr>rdq_task := map (counted {?k}) (rdq_task s1), uuids := uuids s1\<rparr>)"
    proof (rule wf_update [OF wf1(1)])
      fix r assume r: "r \<in> set (rdq_task s1)"
      then show "tID (counted {?k} r) = tID r \<and> wf_live lib (uuids s1) (counted {?k} r)"
        using pg_wfD(2) [OF wf1(1) r] c(2) [OF r] by (auto simp: counted_def wf_live_def readable_def)
    qed (use pg_wfD(6) [OF wf1(1)] in auto)
    then have "pg_wf lib s2" by (simp add: c(1))
    moreover have "live_ids s2 = live_ids s" by (simp add: c(1) wf1(2) live_ids_def comp_def)
    ultimately show ?thesis using Cons.IH [OF l(3)] Cons.prems(3,4) by simp
  qed
qed simp

section \<open>The claiming transaction\<close>

definition claimedLive :: "time \<Rightarrow> claim_token \<Rightarrow> live_row \<Rightarrow> live_row" where
  "claimedLive until tok r = (leased until tok r)
     \<lparr>tAttemptCount := tAttemptCount r + (if tStatus r = StatusInFlight then 1 else 0)\<rparr>"

definition claimIssued :: "pg_lib \<Rightarrow> time \<Rightarrow> pg \<Rightarrow> string \<Rightarrow> int \<Rightarrow> (string \<times> claim_token) list" where
  "claimIssued lib now s q limit = (let rows = claimRows lib now s q limit
     in zip (map tID rows) (map (gen_random_uuid lib) [uuids s..<uuids s + length rows]))"

lemma length_issued [simp]: "length (claimIssued lib now s q limit) = length (claimRows lib now s q limit)"
  by (simp add: claimIssued_def Let_def)

lemma issued_nth:
  "i < length (claimRows lib now s q limit) \<Longrightarrow> claimIssued lib now s q limit ! i =
     (tID (claimRows lib now s q limit ! i), gen_random_uuid lib (uuids s + i))"
  by (simp add: claimIssued_def Let_def)

lemma issued_ids: "map fst (claimIssued lib now s q limit) = map tID (claimRows lib now s q limit)"
  by (simp add: claimIssued_def Let_def)

lemma issued_None:
  assumes "pg_inv lib s"
  shows "map_of (claimIssued lib now s q limit) k = None \<longleftrightarrow> k \<notin> tID ` set (claimRows lib now s q limit)"
  by (metis issued_ids list.set_map map_of_eq_None_iff)

lemma issued_Some:
  assumes "pg_inv lib s" "i < length (claimRows lib now s q limit)"
  shows "map_of (claimIssued lib now s q limit) (tID (claimRows lib now s q limit ! i)) = Some (gen_random_uuid lib (uuids s + i))"
proof -
  have "claimIssued lib now s q limit ! i \<in> set (claimIssued lib now s q limit)" using assms(2) by (intro nth_mem) simp
  then show ?thesis
    using claimRows_facts(2) [OF assms(1)] assms(2) by (intro map_of_is_SomeI) (simp_all add: issued_ids issued_nth)
qed

lemma issued_row:
  assumes "pg_inv lib s" "r \<in> set (rdq_task s)" "map_of (claimIssued lib now s q limit) (tID r) = Some tok"
  shows "\<exists>i < length (claimRows lib now s q limit). claimRows lib now s q limit ! i = r \<and> tok = gen_random_uuid lib (uuids s + i)"
proof -
  let ?rows = "claimRows lib now s q limit"
  obtain i where i: "i < length ?rows" "tID (?rows ! i) = tID r"
    using assms(3) issued_None [OF assms(1), of now q limit "tID r"] by (auto simp: in_set_conv_nth)
  have "?rows ! i \<in> set (rdq_task s)" using claimRows_facts(4) [OF assms(1)] nth_mem [OF i(1)] by blast
  moreover have "distinct (map tID (rdq_task s))"
    using assms(1) pg_wfD(1) [of lib s] unfolding pg_inv_def distinct_split by blast
  ultimately have "?rows ! i = r" using assms(2) i(2) by (metis distinct_map inj_onD)
  then show ?thesis using i issued_Some [OF assms(1) i(1)] assms(3) by auto
qed

lemma leased_simps [simp]:
  "tID (leased u tok r) = tID r" "tQueue (leased u tok r) = tQueue r" "claim_token (leased u tok r) = Some tok"
  "tStatus (leased u tok r) = StatusInFlight" "tLeaseExpiresAt (leased u tok r) = Some u"
  "tAttemptCount (leased u tok r) = tAttemptCount r" "readable lib (leased u tok r) = readable lib r"
  "tNextAttemptAt (leased u tok r) = tNextAttemptAt r"
  by (simp_all add: leased_def readable_def)

lemma claimedLive_simps [simp]:
  "tID (claimedLive u tok r) = tID r" "tQueue (claimedLive u tok r) = tQueue r" "claim_token (claimedLive u tok r) = Some tok"
  "tStatus (claimedLive u tok r) = StatusInFlight" "tLeaseExpiresAt (claimedLive u tok r) = Some u"
  by (simp_all add: claimedLive_def)

text \<open>The lease statement, and the invariant after it.\<close>

definition leaseIssued :: "(string \<times> claim_token) list \<Rightarrow> time \<Rightarrow> live_row \<Rightarrow> live_row" where
  "leaseIssued issued until r = (case map_of issued (tID r) of None \<Rightarrow> r | Some tok \<Rightarrow> leased until tok r)"

lemma wf_lease:
  assumes "pg_inv lib s"
  shows "pg_wf lib (s\<lparr>rdq_task := map (leaseIssued (claimIssued lib now s q limit) until) (rdq_task s),
    uuids := uuids s + length (claimRows lib now s q limit)\<rparr>)"
proof -
  have wf: "pg_wf lib s" and inj: "inj (gen_random_uuid lib)" using assms by (simp_all add: pg_inv_def pg_lib_okD(1))
  let ?is = "claimIssued lib now s q limit"
  let ?g = "leaseIssued ?is until"
  let ?n = "uuids s + length (claimRows lib now s q limit)"
  have tok: "(\<exists>i < length (claimRows lib now s q limit). claimRows lib now s q limit ! i = r \<and>
        claim_token (?g r) = Some (gen_random_uuid lib (uuids s + i))) \<or>
      ?g r = r \<and> (\<forall>y. claim_token r = Some y \<longrightarrow> (\<exists>j < uuids s. y = gen_random_uuid lib j))"
    if "r \<in> set (rdq_task s)" for r
  proof (cases "map_of ?is (tID r)")
    case None
    then show ?thesis using pg_wfD(2) [OF wf that] by (auto simp: leaseIssued_def wf_live_def split: if_splits)
  next
    case (Some t)
    then show ?thesis using issued_row [OF assms that Some] by (auto simp: leaseIssued_def)
  qed
  show ?thesis
  proof (rule wf_update [OF wf])
    fix r assume r: "r \<in> set (rdq_task s)"
    show "tID (?g r) = tID r \<and> wf_live lib ?n (?g r)"
    proof (cases "map_of ?is (tID r)")
      case None
      then show ?thesis using wf_live_mono [OF pg_wfD(2) [OF wf r], of ?n] by (simp add: leaseIssued_def)
    next
      case (Some t)
      obtain i where "i < length (claimRows lib now s q limit)" "t = gen_random_uuid lib (uuids s + i)"
        using issued_row [OF assms r Some] by blast
      then have "\<exists>j < ?n. t = gen_random_uuid lib j" by (intro exI [where x = "uuids s + i"]) simp
      then show ?thesis using Some pg_wfD(2) [OF wf r] by (simp add: leaseIssued_def wf_live_def)
    qed
  next
    fix r r' assume r: "r \<in> set (rdq_task s)" "r' \<in> set (rdq_task s)" "claim_token (?g r) = claim_token (?g r')" "claim_token (?g r) \<noteq> None"
    obtain y where y: "claim_token (?g r) = Some y" "claim_token (?g r') = Some y" using r(3,4) by auto
    consider (new) i j where "claimRows lib now s q limit ! i = r" "claimRows lib now s q limit ! j = r'"
        "y = gen_random_uuid lib (uuids s + i)" "y = gen_random_uuid lib (uuids s + j)"
      | (mixed) i j where "j < uuids s" "y = gen_random_uuid lib (uuids s + i)" "y = gen_random_uuid lib j"
      | (old) "?g r = r" "?g r' = r'"
      using tok [OF r(1)] tok [OF r(2)] y by fastforce
    then show "r = r'"
    proof cases
      case new
      then have "i = j" using injD [OF inj, of "uuids s + i" "uuids s + j"] by simp
      then show ?thesis using new by simp
    next
      case mixed
      then show ?thesis using injD [OF inj, of "uuids s + i" j] by simp
    next
      case old
      then show ?thesis using y pg_wfD(6) [OF wf r(1,2)] by simp
    qed
  qed simp
qed

lemma assembleLoop_Inr:
  assumes "assembleLoop lib crs s = Inr cs"
  shows "length cs = length crs \<and> (\<forall>i < length crs. \<exists>e. cs ! i = \<lparr>Task = e, Token = ctoken (crs ! i)\<rparr> \<and>
    envelopeFromRows lib (crow (crs ! i)) (loadAttempts s (tID (crow (crs ! i)))) = Inr e)"
  using assms
proof (induction crs arbitrary: cs)
  case (Cons cr crs)
  then obtain e cs1 where c: "envelopeFromRows lib (crow cr) (loadAttempts s (tID (crow cr))) = Inr e"
    "assembleLoop lib crs s = Inr cs1" "cs = \<lparr>Task = e, Token = ctoken cr\<rparr> # cs1" by (auto split: sum.splits)
  show ?case
    using Cons.IH [OF c(2)] c(1,3) by (auto simp: less_Suc_eq_0_disj)
qed simp

lemma envelope_fields:
  "envelopeFromRows lib t as = Inr e \<Longrightarrow> ID e = tID t \<and> Queue e = tQueue t \<and> Status e = tStatus t \<and>
     LeaseExpiresAt e = tLeaseExpiresAt t \<and> AttemptCount e = tAttemptCount t \<and> RedriveCount e = tRedriveCount t \<and>
     HandlerRef e = tHandlerRef t \<and> Payload e = tPayload t \<and> NextAttemptAt e = tNextAttemptAt t \<and> attemptsFromRows lib as = Inr (Attempts e)"
  by (auto simp: envelopeFromRows_def split: sum.splits)

lemma ClaimDue_effect:
  assumes inv: "pg_inv lib s" and C: "pg_ClaimDue lib now s q limit l = (Inr cs, s')" and pos: "0 < limit"
  defines "rows \<equiv> claimRows lib now s q limit" and "until \<equiv> pg_expiry lib now l"
  shows "pg_wf lib s'" "length cs = length rows" "rdq_dlq_task s' = rdq_dlq_task s" "uuids s' = uuids s + length rows"
    "rdq_task s' = map (\<lambda>r. case map_of (claimIssued lib now s q limit) (tID r) of None \<Rightarrow> r
       | Some tok \<Rightarrow> claimedLive until tok r) (rdq_task s)"
    "\<And>i. i < length rows \<Longrightarrow> \<exists>e. cs ! i = \<lparr>Task = e, Token = gen_random_uuid lib (uuids s + i)\<rparr> \<and>
       envelopeFromRows lib (claimedLive until (gen_random_uuid lib (uuids s + i)) (rows ! i)) (loadAttempts s' (tID (rows ! i))) = Inr e"
    "\<And>r. r \<in> set rows \<Longrightarrow> tStatus r = StatusInFlight \<Longrightarrow> attempts_of s' (tID r) =
       attempts_of s (tID r) @ [leaseExpiredRow lib now (tID r) (tLeaseExpiresAt r) (nextAttemptNo s (tID r))]"
    "\<And>k. \<forall>r \<in> set rows. tID r = k \<longrightarrow> tStatus r \<noteq> StatusInFlight \<Longrightarrow> attempts_of s' k = attempts_of s k"
proof -
  let ?is = "claimIssued lib now s q limit"
  let ?toks = "map (gen_random_uuid lib) [uuids s..<uuids s + length rows]"
  define crs where "crs = map (\<lambda>(r, tok). \<lparr>crow = task_row.truncate (leased until tok r), ctoken = tok,
    prevStatus = tStatus r, prevLease = tLeaseExpiresAt r\<rparr>) (zip rows ?toks)"
  define s1 where "s1 = s\<lparr>rdq_task := map (leaseIssued ?is until) (rdq_task s), uuids := uuids s + length rows\<rparr>"
  have len: "length crs = length rows" by (simp add: crs_def)
  have nth: "crs ! i = \<lparr>crow = task_row.truncate (leased until (gen_random_uuid lib (uuids s + i)) (rows ! i)),
      ctoken = gen_random_uuid lib (uuids s + i), prevStatus = tStatus (rows ! i), prevLease = tLeaseExpiresAt (rows ! i)\<rparr>"
    if "i < length rows" for i using that by (simp add: crs_def)
  have "claimSQL lib now s q limit (Seconds l) = (crs, s1)"
    by (simp add: claimSQL_def Let_def crs_def s1_def rows_def claimRows_def claimIssued_def leaseIssued_def until_def pg_expiry_def)
  then obtain crs2 where R: "reclaimLoop lib now crs s1 = Inr (crs2, s')" and A: "assembleLoop lib crs2 s' = Inr cs"
    using C pos by (auto simp: pg_ClaimDue_def split: if_splits sum.splits)
  have ids: "map (\<lambda>cr. tID (crow cr)) crs = map tID rows"
    by (rule nth_equalityI) (simp_all add: len nth)
  have dist: "distinct (map (\<lambda>cr. tID (crow cr)) crs)" unfolding ids rows_def by (rule claimRows_facts(2) [OF inv])
  note E = reclaimLoop_effect [OF R dist]
  have rcl: "reclaimed crs = {tID r |r. r \<in> set rows \<and> tStatus r = StatusInFlight}"
  proof (intro set_eqI iffI)
    fix k assume "k \<in> reclaimed crs"
    then obtain i where "i < length rows" "k = tID (crow (crs ! i))" "prevStatus (crs ! i) = StatusInFlight"
      by (auto simp: reclaimed_def in_set_conv_nth len)
    then show "k \<in> {tID r |r. r \<in> set rows \<and> tStatus r = StatusInFlight}" by (auto simp: nth)
  next
    fix k assume "k \<in> {tID r |r. r \<in> set rows \<and> tStatus r = StatusInFlight}"
    then obtain i where i: "i < length rows" "k = tID (rows ! i)" "tStatus (rows ! i) = StatusInFlight"
      by (auto simp: in_set_conv_nth)
    then have "k = tID (crow (crs ! i))" "prevStatus (crs ! i) = StatusInFlight" by (simp_all add: nth)
    moreover have "crs ! i \<in> set crs" using i(1) by (intro nth_mem) (simp only: len)
    ultimately show "k \<in> reclaimed crs" unfolding reclaimed_def by blast
  qed
  show wf': "pg_wf lib s'"
  proof (rule wf_reclaimLoop [OF R])
    show "pg_wf lib s1" unfolding s1_def rows_def by (rule wf_lease [OF inv])
    show "pg_lib_ok lib" using inv by (simp add: pg_inv_def)
    have "tID r \<in> set (live_ids s1)" if "r \<in> set rows" for r
    proof -
      have "r \<in> set (rdq_task s)" using claimRows_facts(4) [OF inv] that unfolding rows_def by blast
      then show ?thesis by (force simp: s1_def live_ids_def leaseIssued_def split: option.split)
    qed
    moreover have "(\<lambda>cr. tID (crow cr)) ` set crs = tID ` set rows" using ids by (metis list.set_map)
    ultimately show "\<forall>cr \<in> set crs. tID (crow cr) \<in> set (live_ids s1)" by (metis (no_types, lifting) imageE imageI)
  qed
  show "rdq_dlq_task s' = rdq_dlq_task s" "uuids s' = uuids s + length rows" using E by (simp_all add: s1_def)
  have row: "counted (reclaimed crs) (leased until tok r) = claimedLive until tok r" if "r \<in> set rows" for r tok
  proof -
    have "tID r \<in> reclaimed crs \<longleftrightarrow> tStatus r = StatusInFlight"
      using that claimRows_facts(2) [OF inv, of now q limit] unfolding rcl rows_def distinct_map by (auto dest: inj_onD)
    then show ?thesis by (simp add: counted_def claimedLive_def leased_def)
  qed
  have "counted (reclaimed crs) (leaseIssued ?is until r) = (case map_of ?is (tID r) of None \<Rightarrow> r | Some tok \<Rightarrow> claimedLive until tok r)"
    if "r \<in> set (rdq_task s)" for r
  proof (cases "map_of ?is (tID r)")
    case None
    then have "tID r \<notin> reclaimed crs" using issued_None [OF inv] unfolding rcl rows_def by fastforce
    then show ?thesis using None by (simp add: leaseIssued_def counted_def)
  next
    case (Some tok)
    then have "r \<in> set rows" using issued_row [OF inv that Some] unfolding rows_def by (metis nth_mem)
    then show ?thesis using Some row by (simp add: leaseIssued_def)
  qed
  then show "rdq_task s' = map (\<lambda>r. case map_of ?is (tID r) of None \<Rightarrow> r | Some tok \<Rightarrow> claimedLive until tok r) (rdq_task s)"
    using E by (simp add: s1_def)
  have len2: "length crs2 = length rows" using E len by simp
  note A' = assembleLoop_Inr [OF A]
  show "length cs = length rows" using A' len2 by simp
  show "\<exists>e. cs ! i = \<lparr>Task = e, Token = gen_random_uuid lib (uuids s + i)\<rparr> \<and>
       envelopeFromRows lib (claimedLive until (gen_random_uuid lib (uuids s + i)) (rows ! i)) (loadAttempts s' (tID (rows ! i))) = Inr e"
    if i: "i < length rows" for i
  proof -
    let ?t = "gen_random_uuid lib (uuids s + i)"
    have c2: "crs2 ! i = recount (crs ! i)" using E i len by simp
    have t: "ctoken (crs2 ! i) = ?t" using i by (simp add: c2 recount_def nth)
    have w: "crow (crs2 ! i) = task_row.truncate (claimedLive until ?t (rows ! i))"
      using i by (simp add: c2 recount_def nth claimedLive_def leased_def task_row.truncate_def)
    show ?thesis using A' i unfolding len2 by (metis claimedLive_simps(1) envelope_truncate t truncate_simps(1) w)
  qed
  show "attempts_of s' (tID r) = attempts_of s (tID r) @ [leaseExpiredRow lib now (tID r) (tLeaseExpiresAt r) (nextAttemptNo s (tID r))]"
    if r: "r \<in> set rows" "tStatus r = StatusInFlight" for r
  proof -
    obtain i where i: "i < length rows" "rows ! i = r" using r(1) by (auto simp: in_set_conv_nth)
    then have "crs ! i \<in> set crs" using len by simp
    moreover have "nextAttemptNo s1 (tID r) = nextAttemptNo s (tID r)" by (rule nextAttemptNo_cong) (simp add: s1_def)
    ultimately show ?thesis using E i r(2) nth [OF i(1)] by (fastforce simp: s1_def)
  qed
  show "attempts_of s' k = attempts_of s k" if "\<forall>r \<in> set rows. tID r = k \<longrightarrow> tStatus r \<noteq> StatusInFlight" for k
  proof -
    have "k \<notin> reclaimed crs" using that unfolding rcl by blast
    then show ?thesis using E by (simp add: s1_def)
  qed
qed

section \<open>The storage contract\<close>

lemma pg_held_in_flight:
  assumes "pg_inv lib s" "pg_held s k tok"
  shows "\<exists>e. pg_task_at lib s k = Some e \<and> Status e = StatusInFlight"
proof -
  have wf: "pg_wf lib s" using assms(1) by (simp add: pg_inv_def)
  obtain r where r: "r \<in> set (rdq_task s)" "fence k tok r" "row_of s k = Some (task_row.truncate r)"
    by (rule held_row [OF wf assms(2)]) blast
  obtain as where as: "attemptsFromRows lib (loadAttempts s k) = Inr as" using history_readable [OF wf] by blast
  have "readable lib r" using pg_wfD(2) [OF wf r(1)] by (simp add: wf_live_def)
  from readable_envelope [OF this as] obtain e where e: "envelopeFromRows lib r (loadAttempts s k) = Inr e" by blast
  then show ?thesis using r envelope_fields [OF e] by (auto simp: pg_task_at_def fence_def)
qed

lemma postgres_ops [simp]:
  "st_Complete (postgres lib) = pg_Complete lib" "st_DeadLetter (postgres lib) = pg_DeadLetter lib"
  "st_Reschedule (postgres lib) = pg_Reschedule lib" "st_ExtendLease (postgres lib) = pg_ExtendLease lib"
  "st_ClaimDue (postgres lib) = pg_ClaimDue lib" "st_Enqueue (postgres lib) = pg_Enqueue lib"
  "st_PurgeSucceeded (postgres lib) = pg_PurgeSucceeded lib"
  by (simp_all add: postgres_def)

text \<open>A claimed task, as it was before and is after the call.\<close>

lemma claimed_task:
  assumes inv: "pg_inv lib s" and C: "pg_ClaimDue lib now s q limit l = (Inr cs, s')" and c: "c \<in> set cs"
  obtains i r where "i < length (claimRows lib now s q limit)" "r = claimRows lib now s q limit ! i" "r \<in> set (rdq_task s)"
    "Token c = gen_random_uuid lib (uuids s + i)" "ID (Task c) = tID r" "Queue (Task c) = q" "dueRow now q r" "0 < limit"
    "LeaseExpiresAt (Task c) = Some (pg_expiry lib now l)" "pg_task_at lib s' (tID r) = Some (Task c)"
    "claimedLive (pg_expiry lib now l) (Token c) r \<in> set (rdq_task s')" "cs ! i = c" "i < length cs"
proof -
  have pos: "0 < limit" using C c by (auto simp: pg_ClaimDue_def split: if_splits)
  let ?rows = "claimRows lib now s q limit"
  note E = ClaimDue_effect [OF inv C pos]
  obtain i where i: "i < length cs" "cs ! i = c" using c by (auto simp: in_set_conv_nth)
  then have il: "i < length ?rows" using E(2) by simp
  let ?r = "?rows ! i" and ?t = "gen_random_uuid lib (uuids s + i)"
  let ?new = "claimedLive (pg_expiry lib now l) ?t ?r"
  have r: "?r \<in> set (rdq_task s)" "dueRow now q ?r"
    using claimRows_facts(4) [OF inv] nth_mem [OF il] by blast+
  obtain e where e: "c = \<lparr>Task = e, Token = ?t\<rparr>" "envelopeFromRows lib ?new (loadAttempts s' (tID ?r)) = Inr e"
    using E(6) [OF il] i(2) by blast
  have new: "?new \<in> set (rdq_task s')"
    using r(1) issued_Some [OF inv il] by (force simp: E(5))
  have "row_of s' (tID ?r) = Some (task_row.truncate ?new)"
    using row_of_live [OF pg_wfD(1) [OF E(1)] new] by simp
  then have at: "pg_task_at lib s' (tID ?r) = Some e" using e(2) by (simp add: pg_task_at_def)
  have "tQueue ?r = q" using r(2) by (simp add: dueRow_def)
  then show thesis
    using that [OF il refl r(1)] e(1) envelope_fields [OF e(2)] r(2) pos at new i by simp
qed

lemma ClaimDue_nonpos: "\<not> 0 < limit \<Longrightarrow> pg_ClaimDue lib now s q limit l = (Inr [], s)"
  by (simp add: pg_ClaimDue_def)

lemma pg_claim_others:
  assumes inv: "pg_inv lib s" and C: "pg_ClaimDue lib now s q limit l = (Inr cs, s')" and pos: "0 < limit"
    and k: "k \<notin> tID ` set (claimRows lib now s q limit)"
  shows "pg_task_at lib s' k = pg_task_at lib s k"
proof (rule task_at_cong)
  note E = ClaimDue_effect [OF inv C pos]
  let ?h = "\<lambda>r. case map_of (claimIssued lib now s q limit) (tID r) of None \<Rightarrow> r | Some tok \<Rightarrow> claimedLive (pg_expiry lib now l) tok r"
  have h: "tID (?h r) = tID r" for r by (simp split: option.split)
  have "map_of (claimIssued lib now s q limit) k = None" using issued_None [OF inv] k by blast
  then show "filter (\<lambda>r. tID r = k) (rdq_task s') = filter (\<lambda>r. tID r = k) (rdq_task s)"
    unfolding E(5) filter_id_map [OF h] by (intro map_idI) auto
  show "filter (\<lambda>r. tID r = k) (rdq_dlq_task s') = filter (\<lambda>r. tID r = k) (rdq_dlq_task s)" by (simp add: E(3))
  show "attempts_of s' k = attempts_of s k" using k by (intro E(8)) auto
qed

lemma claimed_ids_rows:
  assumes inv: "pg_inv lib s" and C: "pg_ClaimDue lib now s q limit l = (Inr cs, s')" and pos: "0 < limit"
  shows "map (\<lambda>c. ID (Task c)) cs = map tID (claimRows lib now s q limit)"
proof (rule nth_equalityI)
  note E = ClaimDue_effect [OF inv C pos]
  show "length (map (\<lambda>c. ID (Task c)) cs) = length (map tID (claimRows lib now s q limit))" using E(2) by simp
  fix i assume i: "i < length (map (\<lambda>c. ID (Task c)) cs)"
  then have il: "i < length (claimRows lib now s q limit)" using E(2) by simp
  obtain e where "cs ! i = \<lparr>Task = e, Token = gen_random_uuid lib (uuids s + i)\<rparr>"
    "envelopeFromRows lib (claimedLive (pg_expiry lib now l) (gen_random_uuid lib (uuids s + i)) (claimRows lib now s q limit ! i))
       (loadAttempts s' (tID (claimRows lib now s q limit ! i))) = Inr e"
    using E(6) [OF il] by blast
  then show "map (\<lambda>c. ID (Task c)) cs ! i = map tID (claimRows lib now s q limit) ! i"
    using i il envelope_fields by fastforce
qed

interpretation pg: fenced_storage "postgres lib" "pg_inv lib" "pg_task_at lib" pg_held "pg_fits lib" "pg_kept lib" "ts lib"
  "pg_expiry lib" for lib
proof (unfold_locales, goal_cases)
  case 1 then show ?case by (rule pg_held_in_flight)
next
  case 2 then show ?case unfolding postgres_ops by (rule pg_complete_held)
next
  case 3 then show ?case unfolding postgres_ops by (rule pg_dead_held)
next
  case 4 then show ?case unfolding postgres_ops by (rule pg_reschedule_held)
next
  case 5 then show ?case unfolding postgres_ops by (rule pg_extend_held)
qed (unfold postgres_ops, (rule pg_stale, assumption)+)

interpretation pg: claiming_storage "postgres lib" "pg_inv lib" "pg_task_at lib" pg_held "pg_fits lib" "pg_kept lib" "ts lib"
  "pg_expiry lib" for lib
proof
  fix s now q limit l err s'
  show "pg_inv lib s \<Longrightarrow> st_ClaimDue (postgres lib) now s q limit l = (Inl err, s') \<Longrightarrow> s' = s"
    by (auto simp: pg_ClaimDue_def split: if_splits prod.splits sum.splits)
next
  fix s now q limit l cs s'
  assume inv: "pg_inv lib s" and "st_ClaimDue (postgres lib) now s q limit l = (Inr cs, s')"
  then have C: "pg_ClaimDue lib now s q limit l = (Inr cs, s')" by simp
  show "int (length cs) \<le> max 0 limit \<and> distinct (map (\<lambda>c. ID (Task c)) cs) \<and>
      (\<forall>c \<in> set cs. pg_held s' (ID (Task c)) (Token c) \<and> pg_task_at lib s' (ID (Task c)) = Some (Task c) \<and>
         Queue (Task c) = q \<and> LeaseExpiresAt (Task c) = Some (pg_expiry lib now l)) \<and>
      (\<forall>k. k \<notin> (\<lambda>c. ID (Task c)) ` set cs \<longrightarrow> pg_task_at lib s' k = pg_task_at lib s k)"
  proof (cases "0 < limit")
    case False
    then show ?thesis using ClaimDue_nonpos [OF False, of lib now s q l] C by simp
  next
    case True
    note ids = claimed_ids_rows [OF inv C True]
    have "length cs \<le> nat limit" using claimRows_facts(3) [OF inv, of now q limit] ids by (metis length_map)
    then have "int (length cs) \<le> max 0 limit" using True by simp
    moreover have "distinct (map (\<lambda>c. ID (Task c)) cs)" unfolding ids by (rule claimRows_facts(2) [OF inv])
    moreover have "pg_held s' (ID (Task c)) (Token c) \<and> pg_task_at lib s' (ID (Task c)) = Some (Task c) \<and>
         Queue (Task c) = q \<and> LeaseExpiresAt (Task c) = Some (pg_expiry lib now l)" if "c \<in> set cs" for c
      by (rule claimed_task [OF inv C that]) (auto simp: pg_held_def fence_def intro: rev_bexI)
    moreover have "pg_task_at lib s' k = pg_task_at lib s k" if "k \<notin> (\<lambda>c. ID (Task c)) ` set cs" for k
      using that ids pg_claim_others [OF inv C True, of k] by (metis list.set_map)
    ultimately show ?thesis by blast
  qed
qed

end
