(* ===== verification/Postgres_Props.thy ===== *)
theory Postgres_Props
  imports Postgres_Claim Memstore_Props Worker_Props
begin

text \<open>
  Properties of the PostgreSQL backend over runs of its transactions in the order they commit, and
  of the worker on top of it.
\<close>

section \<open>Runs\<close>

text \<open>
  \<open>Enqueue\<close> is two statements in a READ COMMITTED transaction: the lookup of the id, and the insert, before
  which other sessions may commit. \<open>Call (EvEnqueue e)\<close> is an enqueue with nothing in between;
  \<open>InsertTask e\<close> is the rest of an enqueue whose lookup found nothing some time ago, run on the database as it
  is now (the lookup itself writes nothing).
\<close>

datatype pg_event = Call mem_event | InsertTask envelope | Locks "string list"

definition pg_EnqueueInsert :: "pg_lib \<Rightarrow> pg \<Rightarrow> envelope \<Rightarrow> spi_error option \<times> pg" where
  "pg_EnqueueInsert lib s task = (case taskRowFromEnvelope lib task of
      Inl e \<Rightarrow> (Some e, s)
    | Inr row \<Rightarrow> (case attemptRowsFromEnvelope lib task of
        Inl e \<Rightarrow> (Some e, s)
      | Inr attempts \<Rightarrow>
          if \<not> text_ok lib (tID row) then (Some (pg_failure lib ''Enqueue lookup'' InvalidText), s)
          else enqueueInsert lib s row attempts))"

lemma Enqueue_split:
  "lookupQueue s (ID e) = None \<Longrightarrow> pg_Enqueue lib s e = pg_EnqueueInsert lib s e"
  by (auto simp: pg_Enqueue_def pg_EnqueueInsert_def taskRowFromEnvelope_def split: sum.split)

text \<open>A late insert does what an undisturbed enqueue would do now, unless the id was dead-lettered meanwhile.\<close>

lemma late_insert:
  assumes "ID e \<notin> set (dead_ids s)"
  shows "snd (pg_EnqueueInsert lib s e) = snd (pg_Enqueue lib s e)"
proof (cases "lookupQueue s (ID e)")
  case None
  then show ?thesis by (simp add: Enqueue_split)
next
  case (Some q)
  then have live: "list_ex (\<lambda>r. tID r = ID e) (rdq_task s)"
    using lookupQueue_None [of s "ID e"] assms by (auto simp: live_ids_def list_ex_iff)
  have "snd (enqueueInsert lib s row as) = s" if "tID row = ID e" for row as
  proof (cases "bind_task lib row")
    case (Inr row')
    then have "tID row' = ID e" using that by (auto elim: bind_task_Inr)
    then show ?thesis using Inr live by (simp add: enqueueInsert_def)
  qed (simp add: enqueueInsert_def)
  then have "snd (pg_EnqueueInsert lib s e) = s"
    by (auto simp: pg_EnqueueInsert_def taskRowFromEnvelope_def split: sum.split)
  moreover have "snd (pg_Enqueue lib s e) = s"
    using Some by (auto simp: pg_Enqueue_def taskRowFromEnvelope_def split: sum.split)
  ultimately show ?thesis by simp
qed

fun pg_exec :: "pg_lib \<Rightarrow> pg_event \<Rightarrow> pg \<Rightarrow> pg" where
  "pg_exec lib (Call (EvEnqueue e)) s = snd (pg_Enqueue lib s e)"
| "pg_exec lib (Call (EvClaimDue now q limit l)) s = snd (pg_ClaimDue lib now s q limit l)"
| "pg_exec lib (Call (EvExtendLease now k tok l)) s = snd (pg_ExtendLease lib now s k tok l)"
| "pg_exec lib (Call (EvReschedule k tok att t)) s = snd (pg_Reschedule lib s k tok att t)"
| "pg_exec lib (Call (EvComplete now k tok att)) s = snd (pg_Complete lib now s k tok att)"
| "pg_exec lib (Call (EvDeadLetter now k tok att)) s = snd (pg_DeadLetter lib now s k tok att)"
| "pg_exec lib (Call (EvRedrive now q sel)) s = snd (pg_Redrive lib now s q sel)"
| "pg_exec lib (Call (EvPurge q sel)) s = snd (pg_Purge lib s q sel)"
| "pg_exec lib (Call (EvPurgeSucceeded q t)) s = snd (pg_PurgeSucceeded lib s q t)"
| "pg_exec lib (InsertTask e) s = snd (pg_EnqueueInsert lib s e)"
| "pg_exec lib (Locks ks) s = s\<lparr>row_locks := ks\<rparr>"

text \<open>
  What the callers guarantee, that new tasks are fresh, and what the runs below leave out: an insert
  whose id was enqueued, claimed and dead-lettered by other sessions after its own lookup (\<open>enqueue_race\<close>).
\<close>

fun pg_guard :: "pg \<Rightarrow> pg_event \<Rightarrow> bool" where
  "pg_guard s (Call (EvEnqueue e)) = fresh_task e"
| "pg_guard s (InsertTask e) = (fresh_task e \<and> ID e \<notin> set (dead_ids s))"
| "pg_guard s _ = True"

inductive pg_run :: "pg_lib \<Rightarrow> pg \<Rightarrow> pg_event list \<Rightarrow> pg \<Rightarrow> bool" for lib where
  pg_run_nil: "pg_run lib s [] s"
| pg_run_cons: "pg_guard s ev \<Longrightarrow> pg_run lib (pg_exec lib ev s) evs s' \<Longrightarrow> pg_run lib s (ev # evs) s'"

definition empty_db :: pg where
  "empty_db = \<lparr>rdq_task = [], rdq_dlq_task = [], rdq_attempt = [], due_notes = [], uuids = 0, row_locks = []\<rparr>"

lemma pg_wf_ClaimDue:
  assumes "pg_inv lib s"
  shows "pg_wf lib (snd (pg_ClaimDue lib now s q limit l))"
proof -
  have wf: "pg_wf lib s" using assms by (simp add: pg_inv_def)
  obtain res s' where C: "pg_ClaimDue lib now s q limit l = (res, s')" by fastforce
  show ?thesis
  proof (cases res)
    case (Inl err)
    then have "s' = s" using pg.claim_failed [OF assms] C by simp
    then show ?thesis using C wf by simp
  next
    case (Inr cs)
    then show ?thesis
      using C ClaimDue_effect(1) [OF assms, of now q limit l cs s'] ClaimDue_nonpos [of limit lib now s q l] wf
      by (cases "0 < limit") auto
  qed
qed

lemma inv_exec:
  assumes "pg_inv lib s" "pg_guard s ev"
  shows "pg_inv lib (pg_exec lib ev s)"
proof -
  have wf: "pg_wf lib s" and ok: "pg_lib_ok lib" using assms(1) by (simp_all add: pg_inv_def)
  have "pg_wf lib (pg_exec lib ev s)"
  proof (cases ev)
    case (Call c)
    then show ?thesis
      using assms wf
      by (cases c) (auto simp: fresh_task_def pg_wf_Enqueue pg_wf_ClaimDue pg_wf_ExtendLease pg_wf_Reschedule
          pg_wf_Complete pg_wf_DeadLetter pg_wf_Redrive pg_wf_Purge pg_wf_PurgeSucceeded)
  next
    case (InsertTask e)
    then show ?thesis using assms by (simp add: late_insert pg_wf_Enqueue fresh_task_def)
  qed (simp add: wf)
  then show ?thesis using ok by (simp add: pg_inv_def)
qed

lemma inv_run: "pg_run lib s evs s' \<Longrightarrow> pg_inv lib s \<Longrightarrow> pg_inv lib s'"
  by (induction rule: pg_run.induct) (auto intro: inv_exec)

lemma inv_empty: "pg_lib_ok lib \<Longrightarrow> pg_inv lib empty_db"
  by (simp add: pg_inv_def pg_wf_def empty_db_def live_ids_def dead_ids_def own_tokens_def)

section \<open>The life cycle\<close>

definition pg_status :: "pg \<Rightarrow> task_id \<Rightarrow> status option" where
  "pg_status s k = map_option tStatus (row_of s k)"

lemma status_live: "pg_wf lib s \<Longrightarrow> r \<in> set (rdq_task s) \<Longrightarrow> pg_status s (tID r) = Some (tStatus r)"
  using row_of_live [OF pg_wfD(1)] by (fastforce simp: pg_status_def)

lemma status_dead: "pg_wf lib s \<Longrightarrow> d \<in> set (rdq_dlq_task s) \<Longrightarrow> pg_status s (tID d) = Some StatusDead"
  using row_of_dead [OF pg_wfD(1)] pg_wfD(3) by (fastforce simp: pg_status_def wf_dead_def)

lemma status_None: "pg_status s k = None \<longleftrightarrow> k \<notin> set (live_ids s @ dead_ids s)"
  by (simp add: pg_status_def row_of_None)

lemma status_attempts [simp]:
  "pg_status (s\<lparr>rdq_attempt := as\<rparr>) k = pg_status s k" "pg_status (s\<lparr>due_notes := ns\<rparr>) k = pg_status s k"
  "pg_status (s\<lparr>uuids := n\<rparr>) k = pg_status s k" "pg_status (s\<lparr>row_locks := x\<rparr>) k = pg_status s k"
  by (simp_all add: pg_status_def row_of_def cong: list.case_cong)

lemma row_of_cong:
  assumes "filter (\<lambda>r. tID r = k) (rdq_task s') = filter (\<lambda>r. tID r = k) (rdq_task s)"
    "filter (\<lambda>r. tID r = k) (rdq_dlq_task s') = filter (\<lambda>r. tID r = k) (rdq_dlq_task s)"
  shows "row_of s' k = row_of s k"
  unfolding row_of_def assms ..

lemma lifecycle_refl [simp]: "lifecycle x x"
  by (simp add: lifecycle_def)

text \<open>A statement that rewrites rows in place.\<close>

lemma lifecycle_map:
  assumes "rdq_task s' = map g (rdq_task s)" "rdq_dlq_task s' = rdq_dlq_task s" "\<And>r. tID (g r) = tID r"
    "\<And>r. r \<in> set (rdq_task s) \<Longrightarrow> lifecycle (Some (tStatus r)) (Some (tStatus (g r)))"
  shows "lifecycle (pg_status s k) (pg_status s' k)"
proof (cases "filter (\<lambda>r. tID r = k) (rdq_task s)")
  case Nil
  then show ?thesis by (simp add: pg_status_def row_of_def assms(1,2) filter_id_map [OF assms(3)])
next
  case (Cons r rs)
  then have "r \<in> set (rdq_task s)" by (metis filter_is_subset list.set_intros(1) subsetD)
  then show ?thesis
    using assms(4) Cons by (simp add: pg_status_def row_of_def assms(1,2) filter_id_map [OF assms(3)])
qed

lemma spendClaim_or:
  "snd (spendClaim lib k att update s) = s \<or>
   (\<exists>s1 row. update s = Inr s1 \<and> fst (spendClaim lib k att update s) = None \<and>
      snd (spendClaim lib k att update s) = s1\<lparr>rdq_attempt := rdq_attempt s1 @ [row]\<rparr>)"
proof -
  have "\<exists>r. s2 = s1\<lparr>rdq_attempt := rdq_attempt s1 @ [r]\<rparr>" if "insertAttempt lib row s1 = Inr s2" for row s1 s2
    using that by (auto simp: insertAttempt_def add_attempt_def split: sum.splits if_splits)
  then show ?thesis by (auto simp: spendClaim_def split: sum.split)
qed

lemma lifecycle_fenced:
  assumes "outcomeUpdate lib k' tok upd s = Inr s1" "\<And>r. tID (upd r) = tID r"
    "\<And>r. tStatus (upd r) \<in> {StatusPending, StatusSucceeded, StatusInFlight}"
  shows "lifecycle (pg_status s k) (pg_status s1 k)"
proof (rule lifecycle_map [where g = "\<lambda>r. if fence k' tok r then upd r else r"])
  show "rdq_task s1 = map (\<lambda>r. if fence k' tok r then upd r else r) (rdq_task s)" "rdq_dlq_task s1 = rdq_dlq_task s"
    using assms(1) by (auto simp: outcomeUpdate_def updateFenced_def split: sum.splits if_splits option.splits)
  show "lifecycle (Some (tStatus r)) (Some (tStatus (if fence k' tok r then upd r else r)))" for r
    using assms(3) [of r] by (auto simp: lifecycle_def fence_def)
qed (simp add: assms(2))

lemma lifecycle_spend:
  assumes "\<And>s1. update s = Inr s1 \<Longrightarrow> lifecycle (pg_status s k) (pg_status s1 k)"
  shows "lifecycle (pg_status s k) (pg_status (snd (spendClaim lib k' att update s)) k)"
  using spendClaim_or [of lib k' att update s] assms by auto

lemma lifecycle_outcome:
  "lifecycle (pg_status s k) (pg_status (snd (pg_Complete lib now s k' tok att)) k)"
  "lifecycle (pg_status s k) (pg_status (snd (pg_Reschedule lib s k' tok att t)) k)"
proof -
  show "lifecycle (pg_status s k) (pg_status (snd (pg_Complete lib now s k' tok att)) k)"
    unfolding pg_Complete_def by (rule lifecycle_spend) (erule lifecycle_fenced; simp)
  show "lifecycle (pg_status s k) (pg_status (snd (pg_Reschedule lib s k' tok att t)) k)"
    unfolding pg_Reschedule_def
    by (rule lifecycle_spend) (clarsimp split: sum.splits, erule lifecycle_fenced; simp)
qed

lemma lifecycle_ExtendLease: "lifecycle (pg_status s k) (pg_status (snd (pg_ExtendLease lib now s k' tok l)) k)"
proof -
  let ?upd = "\<lambda>r. r\<lparr>tLeaseExpiresAt := Some (now + make_interval lib (Seconds l))\<rparr>"
  have "lifecycle (pg_status s k) (pg_status s1 k)" if "updateFenced lib k' tok ?upd s = Inr (n, s1)" for n s1
    using that by (intro lifecycle_map [where g = "\<lambda>r. if fence k' tok r then ?upd r else r"])
      (auto simp: updateFenced_def split: if_splits)
  then show ?thesis by (auto simp: pg_ExtendLease_def split: sum.split)
qed

lemma lifecycle_DeadLetter:
  assumes "pg_wf lib s"
  shows "lifecycle (pg_status s k) (pg_status (snd (pg_DeadLetter lib now s k' tok att)) k)"
  unfolding pg_DeadLetter_def
proof (rule lifecycle_spend)
  fix s1
  let ?et = "case Err att of None \<Rightarrow> None | Some d \<Rightarrow> emptyToNil (ErrType d)"
  assume "(case deadLetterSQL lib now k' tok ?et s of Inl e \<Rightarrow> Inl (pg_failure lib ''dead-lettering'' e)
    | Inr (n, s') \<Rightarrow> (case staleIfNoRows n of None \<Rightarrow> Inr s' | Some e \<Rightarrow> Inl e)) = Inr s1"
  then obtain n where d: "deadLetterSQL lib now k' tok ?et s = Inr (n, s1)" "n \<noteq> 0"
    by (auto simp: staleIfNoRows_def split: sum.splits if_splits)
  obtain r where r: "r \<in> set (rdq_task s)" "fence k' tok r" "tID r = k'"
    "s1 = s\<lparr>rdq_task := filter (\<lambda>x. tID x \<noteq> k') (rdq_task s), rdq_dlq_task := rdq_dlq_task s @ [deadRow now ?et r]\<rparr>"
    by (rule deadLetterSQL_row [OF assms d]) blast
  have wf1: "pg_wf lib s1" using wf_deadLetterSQL [OF assms d] by blast
  show "lifecycle (pg_status s k) (pg_status s1 k)"
  proof (cases "k = k'")
    case True
    have "pg_status s1 k' = Some StatusDead" using status_dead [OF wf1, of "deadRow now ?et r"] r(3,4) by simp
    moreover have "pg_status s k' = Some StatusInFlight" using status_live [OF assms r(1)] r(2,3) by (simp add: fence_def)
    ultimately show ?thesis using True by (simp add: lifecycle_def)
  next
    case False
    then have "filter (\<lambda>x. tID x = k) (filter (\<lambda>x. tID x \<noteq> k') (rdq_task s)) = filter (\<lambda>x. tID x = k) (rdq_task s)"
      by (auto intro: filter_cong)
    then have "row_of s1 k = row_of s k" using False r(3) by (intro row_of_cong) (simp_all add: r(4))
    then show ?thesis by (simp add: pg_status_def)
  qed
qed

lemma lifecycle_Enqueue:
  assumes "pg_inv lib s" "fresh_task e"
  shows "lifecycle (pg_status s k) (pg_status (snd (pg_Enqueue lib s e)) k)"
proof -
  have ok: "pg_lib_ok lib" using assms(1) by (simp add: pg_inv_def)
  obtain err s' where E: "pg_Enqueue lib s e = (err, s')" by fastforce
  show ?thesis
  proof (cases "err \<noteq> None \<or> lookupQueue s (ID e) \<noteq> None")
    case True
    then show ?thesis using Enqueue_other [OF E] E by simp
  next
    case False
    then have E': "pg_Enqueue lib s e = (None, s')" and new: "lookupQueue s (ID e) = None" using E by auto
    have "Attempts e = []" using assms(2) by (simp add: fresh_task_def)
    then obtain row where row: "tID row = ID e" "tStatus row = Status e"
      "s' = notifyDue (Queue e) (s\<lparr>rdq_task := rdq_task s @ [task_row.extend row (live_row.fields None)]\<rparr>)"
      by (rule Enqueue_new [OF ok E' new]) blast
    show ?thesis
    proof (cases "k = ID e")
      case True
      have "filter (\<lambda>r. tID r = k) (rdq_task s) = []"
        using new True by (force simp: lookupQueue_None live_ids_def filter_empty_conv)
      then have "pg_status s' k = Some StatusPending"
        using row True assms(2) by (simp add: pg_status_def row_of_def notifyDue_def fresh_task_def)
      moreover have "pg_status s k = None" using new True by (simp add: status_None lookupQueue_None)
      ultimately show ?thesis using E' by (simp add: lifecycle_def)
    next
      case False
      then have "row_of s' k = row_of s k" using row(1) by (intro row_of_cong) (simp_all add: row(3) notifyDue_def)
      then show ?thesis using E' by (simp add: pg_status_def)
    qed
  qed
qed

lemma lifecycle_ClaimDue:
  assumes "pg_inv lib s"
  shows "lifecycle (pg_status s k) (pg_status (snd (pg_ClaimDue lib now s q limit l)) k)"
proof -
  obtain res s' where C: "pg_ClaimDue lib now s q limit l = (res, s')" by fastforce
  have same: "s' = s" if "res = Inl err" for err using pg.claim_failed [OF assms] C that by simp
  show ?thesis
  proof (cases "\<exists>cs. res = Inr cs \<and> 0 < limit")
    case True
    then obtain cs where C': "pg_ClaimDue lib now s q limit l = (Inr cs, s')" and pos: "0 < limit" using C by blast
    note E = ClaimDue_effect [OF assms C' pos]
    have "lifecycle (pg_status s k) (pg_status s' k)"
    proof (rule lifecycle_map [OF E(5) E(3)])
      fix r assume r: "r \<in> set (rdq_task s)"
      show "lifecycle (Some (tStatus r)) (Some (tStatus (case map_of (claimIssued lib now s q limit) (tID r) of None \<Rightarrow> r
          | Some tok \<Rightarrow> claimedLive (pg_expiry lib now l) tok r)))"
      proof (cases "map_of (claimIssued lib now s q limit) (tID r)")
        case (Some tok)
        then have "r \<in> set (claimRows lib now s q limit)" using issued_row [OF assms r Some] by auto
        then have "dueRow now q r" using claimRows_facts(4) [OF assms] by blast
        then show ?thesis using Some by (auto simp: lifecycle_def dueRow_def)
      qed simp
    qed (simp split: option.split)
    then show ?thesis using C' by simp
  next
    case False
    then have "s' = s" using same C ClaimDue_nonpos [of limit lib now s q l] by (cases res) auto
    then show ?thesis using C by simp
  qed
qed

lemma lifecycle_Redrive:
  assumes "pg_wf lib s"
  shows "lifecycle (pg_status s k) (pg_status (snd (pg_Redrive lib now s q sel)) k)"
proof (cases "snd (pg_Redrive lib now s q sel) = s")
  case False
  then obtain P where P: "dlqSelectorClause lib q sel = Some P" and
    s': "snd (pg_Redrive lib now s q sel) = s\<lparr>rdq_task := rdq_task s @ map (redrivenRow now) (filter P (rdq_dlq_task s)),
      rdq_dlq_task := filter (\<lambda>r. \<not> P r) (rdq_dlq_task s)\<rparr>"
    by (auto simp: pg_Redrive_def Let_def split: option.splits if_splits)
  let ?s = "snd (pg_Redrive lib now s q sel)"
  have wf': "pg_wf lib ?s" by (rule pg_wf_Redrive [OF assms])
  show ?thesis
  proof (cases "\<exists>d \<in> set (rdq_dlq_task s). P d \<and> tID d = k")
    case True
    then obtain d where d: "d \<in> set (rdq_dlq_task s)" "P d" "tID d = k" by blast
    then have "redrivenRow now d \<in> set (rdq_task ?s)" by (simp add: s')
    from status_live [OF wf' this] d(3) have "pg_status ?s k = Some StatusPending" by simp
    moreover have "pg_status s k = Some StatusDead" using status_dead [OF assms d(1)] d(3) by simp
    ultimately show ?thesis by (simp add: lifecycle_def)
  next
    case no: False
    have "filter (\<lambda>r. tID r = k) (map (redrivenRow now) (filter P (rdq_dlq_task s))) = []"
      using no by (auto simp: filter_empty_conv)
    moreover have "filter (\<lambda>r. tID r = k) (filter (\<lambda>r. \<not> P r) (rdq_dlq_task s)) = filter (\<lambda>r. tID r = k) (rdq_dlq_task s)"
      using no by (auto intro: filter_cong)
    ultimately have "row_of ?s k = row_of s k" by (intro row_of_cong) (simp_all add: s')
    then show ?thesis by (simp add: pg_status_def)
  qed
qed simp

text \<open>Removals.\<close>

lemma lifecycle_remove:
  assumes "pg_wf lib s" "s' = s\<lparr>rdq_task := filter P (rdq_task s), rdq_dlq_task := filter Q (rdq_dlq_task s), rdq_attempt := as\<rparr>"
    "\<And>r. r \<in> set (rdq_task s) \<Longrightarrow> \<not> P r \<Longrightarrow> tStatus r = StatusSucceeded"
  shows "lifecycle (pg_status s k) (pg_status s' k)"
proof (cases "\<exists>r \<in> set (rdq_task s). tID r = k \<and> \<not> P r")
  case True
  then obtain r where r: "r \<in> set (rdq_task s)" "tID r = k" "\<not> P r" by blast
  note d = pg_wfD(1) [OF assms(1)]
  have "x = r" if "x \<in> set (rdq_task s)" "tID x = k" for x
    using that r d unfolding distinct_split by (metis distinct_map inj_onD)
  then have "tID x \<noteq> k" if "x \<in> set (filter P (rdq_task s))" for x using that r(3) by auto
  moreover have "tID x \<noteq> k" if "x \<in> set (filter Q (rdq_dlq_task s))" for x
    using that r d unfolding distinct_split by (metis filter_is_subset subsetD)
  ultimately have "k \<notin> set (live_ids s' @ dead_ids s')"
    unfolding live_ids_def dead_ids_def assms(2) by auto
  then have "pg_status s' k = None" by (simp add: status_None)
  moreover have "pg_status s k = Some StatusSucceeded" using status_live [OF assms(1) r(1)] assms(3) [OF r(1,3)] r(2) by simp
  ultimately show ?thesis by (simp add: lifecycle_def)
next
  case False
  then have f: "filter (\<lambda>r. tID r = k) (filter P (rdq_task s)) = filter (\<lambda>r. tID r = k) (rdq_task s)"
    by (auto intro: filter_cong)
  show ?thesis
  proof (cases "\<exists>d \<in> set (rdq_dlq_task s). tID d = k \<and> \<not> Q d")
    case True
    then obtain d where r: "d \<in> set (rdq_dlq_task s)" "tID d = k" "\<not> Q d" by blast
    note dd = pg_wfD(1) [OF assms(1)]
    have "x = d" if "x \<in> set (rdq_dlq_task s)" "tID x = k" for x
      using that r dd unfolding distinct_split by (metis distinct_map inj_onD)
    then have "tID x \<noteq> k" if "x \<in> set (filter Q (rdq_dlq_task s))" for x using that r(3) by auto
    moreover have "tID x \<noteq> k" if "x \<in> set (filter P (rdq_task s))" for x
      using that r dd unfolding distinct_split by auto
    ultimately have "k \<notin> set (live_ids s' @ dead_ids s')"
      unfolding live_ids_def dead_ids_def assms(2) by auto
    then have "pg_status s' k = None" by (simp add: status_None)
    moreover have "pg_status s k = Some StatusDead" using status_dead [OF assms(1) r(1)] r(2) by simp
    ultimately show ?thesis by (simp add: lifecycle_def)
  next
    case False
    then have "filter (\<lambda>r. tID r = k) (filter Q (rdq_dlq_task s)) = filter (\<lambda>r. tID r = k) (rdq_dlq_task s)"
      by (auto intro: filter_cong)
    then have "row_of s' k = row_of s k" using f by (intro row_of_cong) (simp_all add: assms(2))
    then show ?thesis by (simp add: pg_status_def)
  qed
qed

lemma lifecycle_purges:
  assumes "pg_wf lib s"
  shows "lifecycle (pg_status s k) (pg_status (snd (pg_Purge lib s q sel)) k)"
    "lifecycle (pg_status s k) (pg_status (snd (pg_PurgeSucceeded lib s q t)) k)"
proof -
  have P: "lifecycle (pg_status s k) (pg_status (s\<lparr>rdq_dlq_task := filter Q (rdq_dlq_task s), rdq_attempt := as\<rparr>) k)" for Q as
    by (rule lifecycle_remove [OF assms, where P = "\<lambda>r. True" and Q = Q and as = as]) simp_all
  show "lifecycle (pg_status s k) (pg_status (snd (pg_Purge lib s q sel)) k)"
    using P by (auto simp: pg_Purge_def Let_def split: option.split)
  let ?P = "\<lambda>r. tQueue r = q \<and> tStatus r = StatusSucceeded \<and> completedAt s r < ts lib t"
  have "lifecycle (pg_status s k) (pg_status (s\<lparr>rdq_task := filter (\<lambda>r. \<not> ?P r) (rdq_task s), rdq_attempt := as\<rparr>) k)" for as
    by (rule lifecycle_remove [OF assms, where Q = "\<lambda>r. True" and P = "\<lambda>r. \<not> ?P r" and as = as]) simp_all
  then show "lifecycle (pg_status s k) (pg_status (snd (pg_PurgeSucceeded lib s q t)) k)"
    by (simp add: pg_PurgeSucceeded_def Let_def)
qed

lemma lifecycle_exec:
  assumes "pg_inv lib s" "pg_guard s ev"
  shows "lifecycle (pg_status s k) (pg_status (pg_exec lib ev s) k)"
proof -
  have wf: "pg_wf lib s" using assms(1) by (simp add: pg_inv_def)
  show ?thesis
  proof (cases ev)
    case (Call c)
    then show ?thesis
      using assms wf
      by (cases c) (auto simp: lifecycle_Enqueue lifecycle_ClaimDue lifecycle_ExtendLease
        lifecycle_outcome lifecycle_DeadLetter lifecycle_Redrive lifecycle_purges)
  next
    case (InsertTask e)
    then show ?thesis using assms by (simp add: late_insert lifecycle_Enqueue)
  qed simp
qed

text \<open>C6: the PostgreSQL backend refines the same life cycle as the in-memory store. Take any run of its
  transactions from a well-formed database in which the lookup of an enqueue and its insert may stand
  apart with other transactions in between, and in which no such insert comes upon an id that was dead-lettered
  since its lookup (for that one interleaving the statement is false, \<open>enqueue_race\<close>).
  Then the invariant holds throughout: a task lives in exactly one table, it is in flight
  exactly while its row carries a token, tokens are never shared, no attempt is orphaned and every
  row can be read; each transaction moves each task along one edge of the life cycle, or not at all.\<close>

theorem pg_refines_lifecycle:
  assumes "pg_run lib s evs s'" "pg_inv lib s" "pg_guard s' ev"
  shows "pg_inv lib s' \<and> pg_inv lib (pg_exec lib ev s') \<and>
    (\<forall>k. lifecycle (pg_status s' k) (pg_status (pg_exec lib ev s') k))"
  using inv_run [OF assms(1,2)] inv_exec [OF _ assms(3)] lifecycle_exec [OF _ assms(3)] by blast

section \<open>Fencing\<close>

text \<open>The tokens rows carry, and those generated so far.\<close>

definition carries :: "pg \<Rightarrow> task_id \<Rightarrow> claim_token \<Rightarrow> bool" where
  "carries s k y \<longleftrightarrow> (\<exists>r \<in> set (rdq_task s). tID r = k \<and> claim_token r = Some y)"

definition generated :: "pg_lib \<Rightarrow> pg \<Rightarrow> claim_token \<Rightarrow> bool" where
  "generated lib s y \<longleftrightarrow> (\<exists>i < uuids s. y = gen_random_uuid lib i)"

lemma held_carries: "pg_wf lib s \<Longrightarrow> pg_held s k y \<longleftrightarrow> carries s k y"
  using pg_wfD(2) by (fastforce simp: pg_held_def carries_def fence_def wf_live_def split: if_splits)

lemma carries_generated: "pg_wf lib s \<Longrightarrow> carries s k y \<Longrightarrow> generated lib s y"
  using pg_wfD(2) by (fastforce simp: carries_def generated_def wf_live_def split: if_splits)

text \<open>A transaction puts no token on a task but one it generates.\<close>

definition no_old_token :: "pg_lib \<Rightarrow> pg \<Rightarrow> pg \<Rightarrow> bool" where
  "no_old_token lib s s' \<longleftrightarrow> uuids s \<le> uuids s' \<and>
     (\<forall>k y. carries s' k y \<longrightarrow> carries s k y \<or> (\<exists>i \<ge> uuids s. y = gen_random_uuid lib i))"

lemma no_old_refl [simp]: "no_old_token lib s s"
  by (simp add: no_old_token_def)

lemma no_old_rows:
  assumes "uuids s' = uuids s"
    "\<And>r. r \<in> set (rdq_task s') \<Longrightarrow> claim_token r \<noteq> None \<Longrightarrow> \<exists>r' \<in> set (rdq_task s). tID r' = tID r \<and> claim_token r' = claim_token r"
  shows "no_old_token lib s s'"
  using assms unfolding no_old_token_def carries_def by (metis option.distinct(1) order_refl)

lemma no_old_sub:
  assumes "uuids s' = uuids s" "\<And>r. r \<in> set (rdq_task s') \<Longrightarrow> r \<in> set (rdq_task s) \<or> claim_token r = None"
  shows "no_old_token lib s s'"
proof (rule no_old_rows [OF assms(1)])
  fix r assume "r \<in> set (rdq_task s')" "claim_token r \<noteq> None"
  then have "r \<in> set (rdq_task s)" using assms(2) [of r] by auto
  then show "\<exists>r' \<in> set (rdq_task s). tID r' = tID r \<and> claim_token r' = claim_token r" by (rule rev_bexI) simp
qed

lemma no_old_fenced:
  assumes "updateFenced lib k tok upd s = Inr (n, s')" "\<And>r. tID (upd r) = tID r" "\<And>r. claim_token (upd r) \<in> {None, claim_token r}"
  shows "no_old_token lib s s'"
proof (rule no_old_rows)
  have s': "s' = s\<lparr>rdq_task := map (\<lambda>r. if fence k tok r then upd r else r) (rdq_task s)\<rparr>"
    using assms(1) by (auto simp: updateFenced_def split: if_splits)
  then show "uuids s' = uuids s" by simp
  fix r assume r: "r \<in> set (rdq_task s')" "claim_token r \<noteq> None"
  then obtain x where x: "x \<in> set (rdq_task s)" "r = (if fence k tok x then upd x else x)" by (auto simp: s')
  then have "tID x = tID r \<and> claim_token x = claim_token r" using r(2) assms(2) [of x] assms(3) [of x] by (auto split: if_splits)
  then show "\<exists>r' \<in> set (rdq_task s). tID r' = tID r \<and> claim_token r' = claim_token r" using x(1) by blast
qed

lemma no_old_spend:
  assumes "\<And>s1. update s = Inr s1 \<Longrightarrow> no_old_token lib s s1"
  shows "no_old_token lib s (snd (spendClaim lib k att update s))"
proof -
  have "no_old_token lib s (s1\<lparr>rdq_attempt := as\<rparr>) = no_old_token lib s s1" for s1 as
    by (simp add: no_old_token_def carries_def)
  then show ?thesis using spendClaim_or [of lib k att update s] assms by auto
qed

lemma no_old_outcomeUpdate:
  assumes "outcomeUpdate lib k tok upd s = Inr s1" "\<And>r. tID (upd r) = tID r" "\<And>r. claim_token (upd r) = None"
  shows "no_old_token lib s s1"
  using assms no_old_fenced [of lib k tok upd s _ s1]
  by (fastforce simp: outcomeUpdate_def split: sum.splits option.splits)

lemma no_old_outcome:
  "no_old_token lib s (snd (pg_Complete lib now s k tok att))"
  "no_old_token lib s (snd (pg_Reschedule lib s k tok att t))"
  "no_old_token lib s (snd (pg_DeadLetter lib now s k tok att))"
  "no_old_token lib s (snd (pg_ExtendLease lib now s k tok l))"
proof -
  show "no_old_token lib s (snd (pg_Complete lib now s k tok att))"
    unfolding pg_Complete_def by (rule no_old_spend) (erule no_old_outcomeUpdate; simp)
  have nn: "no_old_token lib s (s1\<lparr>due_notes := ns\<rparr>) = no_old_token lib s s1" for s1 ns
    by (simp add: no_old_token_def carries_def)
  show "no_old_token lib s (snd (pg_Reschedule lib s k tok att t))"
    unfolding pg_Reschedule_def
    by (rule no_old_spend) (clarsimp simp: nn split: sum.splits, erule no_old_outcomeUpdate; simp)
  show "no_old_token lib s (snd (pg_DeadLetter lib now s k tok att))"
    unfolding pg_DeadLetter_def
    by (rule no_old_spend, rule no_old_sub)
      (auto simp: deadLetterSQL_def Let_def split: sum.splits if_splits option.splits)
  show "no_old_token lib s (snd (pg_ExtendLease lib now s k tok l))"
    by (auto simp: pg_ExtendLease_def intro: no_old_fenced split: sum.split)
qed

lemma no_old_ClaimDue:
  assumes "pg_inv lib s"
  shows "no_old_token lib s (snd (pg_ClaimDue lib now s q limit l))"
proof -
  obtain res s' where C: "pg_ClaimDue lib now s q limit l = (res, s')" by fastforce
  have same: "s' = s" if "res = Inl err" for err using pg.claim_failed [OF assms] C that by simp
  show ?thesis
  proof (cases "\<exists>cs. res = Inr cs \<and> 0 < limit")
    case True
    then obtain cs where C': "pg_ClaimDue lib now s q limit l = (Inr cs, s')" and pos: "0 < limit" using C by blast
    note E = ClaimDue_effect [OF assms C' pos]
    have "carries s k y \<or> (\<exists>i \<ge> uuids s. y = gen_random_uuid lib i)" if c: "carries s' k y" for k y
    proof -
      obtain r where r: "r \<in> set (rdq_task s)" "tID r = k" and
        y: "claim_token (case map_of (claimIssued lib now s q limit) (tID r) of None \<Rightarrow> r
          | Some tok \<Rightarrow> claimedLive (pg_expiry lib now l) tok r) = Some y"
        using c unfolding carries_def E(5) set_map
        by (elim bexE conjE imageE) (simp split: option.splits)
      show ?thesis
      proof (cases "map_of (claimIssued lib now s q limit) (tID r)")
        case None
        then show ?thesis using r y by (auto simp: carries_def)
      next
        case (Some tok)
        then obtain i where "y = gen_random_uuid lib (uuids s + i)" using issued_row [OF assms r(1) Some] y by auto
        then have "\<exists>i \<ge> uuids s. y = gen_random_uuid lib i" by (intro exI [where x = "uuids s + i"]) simp
        then show ?thesis ..
      qed
    qed
    then show ?thesis using C' E(4) by (simp add: no_old_token_def)
  next
    case False
    then have "s' = s" using same C ClaimDue_nonpos [of limit lib now s q l] by (cases res) auto
    then show ?thesis using C by simp
  qed
qed

lemma no_old_Enqueue:
  assumes "pg_inv lib s" "Attempts e = []"
  shows "no_old_token lib s (snd (pg_Enqueue lib s e))"
proof -
  have ok: "pg_lib_ok lib" using assms(1) by (simp add: pg_inv_def)
  obtain err s' where E: "pg_Enqueue lib s e = (err, s')" by fastforce
  show ?thesis
  proof (cases "err \<noteq> None \<or> lookupQueue s (ID e) \<noteq> None")
    case True
    then show ?thesis using Enqueue_other [OF E] E by simp
  next
    case False
    then have E': "pg_Enqueue lib s e = (None, s')" and new: "lookupQueue s (ID e) = None" using E by auto
    obtain row where "s' = notifyDue (Queue e) (s\<lparr>rdq_task := rdq_task s @ [task_row.extend row (live_row.fields None)]\<rparr>)"
      by (rule Enqueue_new [OF ok E' new assms(2)]) blast
    then have "no_old_token lib s s'" by (intro no_old_sub) (auto simp: notifyDue_def)
    then show ?thesis using E' by simp
  qed
qed

lemma no_old_exec:
  assumes "pg_inv lib s" "pg_guard s ev"
  shows "no_old_token lib s (pg_exec lib ev s)"
proof (cases ev)
  case (Call c)
  have "no_old_token lib s (snd (pg_Redrive lib now s q sel))" for now q sel
    by (auto simp: pg_Redrive_def Let_def intro!: no_old_sub split: option.split)
  moreover have "no_old_token lib s (snd (pg_Purge lib s q sel))" "no_old_token lib s (snd (pg_PurgeSucceeded lib s q t))" for q sel t
    by (auto simp: pg_Purge_def pg_PurgeSucceeded_def Let_def intro!: no_old_sub split: option.split)
  ultimately show ?thesis
    using Call assms by (cases c) (auto simp: no_old_Enqueue no_old_ClaimDue no_old_outcome fresh_task_def)
next
  case (InsertTask e)
  then show ?thesis using assms by (simp add: late_insert no_old_Enqueue fresh_task_def)
qed (simp add: no_old_token_def carries_def)

lemma lost_forever:
  assumes "pg_run lib s evs s'" "pg_inv lib s" "\<not> carries s k y" "generated lib s y"
  shows "\<not> carries s' k y"
  using assms
proof (induction rule: pg_run.induct)
  case (pg_run_cons s ev evs s')
  have inj: "inj (gen_random_uuid lib)" using pg_run_cons.prems(1) by (simp add: pg_inv_def pg_lib_okD(1))
  note n = no_old_exec [OF pg_run_cons.prems(1) pg_run_cons.hyps(1)]
  obtain i where i: "i < uuids s" "y = gen_random_uuid lib i" using pg_run_cons.prems(3) by (auto simp: generated_def)
  have "i < uuids (pg_exec lib ev s)" using i(1) n by (simp add: no_old_token_def)
  then have "generated lib (pg_exec lib ev s) y" using i(2) by (auto simp: generated_def)
  moreover have "\<not> carries (pg_exec lib ev s) k y"
  proof
    assume "carries (pg_exec lib ev s) k y"
    then obtain j where "uuids s \<le> j" "y = gen_random_uuid lib j" using n pg_run_cons.prems(2) by (auto simp: no_old_token_def)
    then show False using i injD [OF inj, of i j] by simp
  qed
  ultimately show ?case using pg_run_cons.IH inv_exec [OF pg_run_cons.prems(1) pg_run_cons.hyps(1)] by blast
qed simp

definition pg_refuses :: "pg_lib \<Rightarrow> pg \<Rightarrow> task_id \<Rightarrow> claim_token \<Rightarrow> bool" where
  "pg_refuses lib s k tok \<longleftrightarrow> (\<forall>now att t l.
     (\<exists>err. pg_Complete lib now s k tok att = (Some err, s)) \<and> (\<exists>err. pg_DeadLetter lib now s k tok att = (Some err, s)) \<and>
     (\<exists>err. pg_Reschedule lib s k tok att t = (Some err, s)) \<and> (\<exists>err. pg_ExtendLease lib now s k tok l = (Some err, s)))"

lemma pg_refuses_forever:
  assumes "pg_run lib s evs s'" "pg_inv lib s" "\<not> carries s k y" "generated lib s y"
  shows "pg_refuses lib s' k y"
proof -
  have "\<not> pg_held s' k y"
    using lost_forever [OF assms] inv_run [OF assms(1,2)] held_carries by (auto simp: pg_inv_def)
  then show ?thesis by (simp add: pg_refuses_def pg_stale)
qed

text \<open>A committed outcome takes the token off the task, and a claim replaces it.\<close>

lemma spent_update_token:
  assumes "pg_inv lib s" "pg_held s k tok" "\<And>r. tID (upd r) = tID r" "\<And>r. claim_token (upd r) = None"
    "outcomeUpdate lib k tok upd s = Inr s1"
  shows "\<not> carries s1 k y"
proof -
  have wf: "pg_wf lib s" using assms(1) by (simp add: pg_inv_def)
  obtain r where r: "fence k tok r" "filter (\<lambda>x. tID x = k) (rdq_task s) = [r]" by (rule held_row [OF wf assms(2)]) blast
  let ?g = "\<lambda>r. if fence k tok r then upd r else r"
  have g: "tID (?g r) = tID r" for r using assms(3) by simp
  have "rdq_task s1 = map ?g (rdq_task s)"
    using assms(5) by (auto simp: outcomeUpdate_def updateFenced_def split: sum.splits if_splits option.splits)
  then have "filter (\<lambda>x. tID x = k) (rdq_task s1) = [upd r]" using r by (simp only: filter_id_map [OF g]) simp
  then have "x = upd r" if "x \<in> set (rdq_task s1)" "tID x = k" for x
    using that by (metis (mono_tags, lifting) filter_set list.set(1) list.simps(15) mem_Collect_eq set_filter singletonD)
  then show ?thesis using assms(4) [of r] unfolding carries_def by (metis option.distinct(1))
qed

lemma carries_attempts [simp]:
  "carries (s\<lparr>rdq_attempt := as\<rparr>) k y = carries s k y" "carries (s\<lparr>due_notes := ns\<rparr>) k y = carries s k y"
  by (simp_all add: carries_def)

lemma spent_token:
  assumes "pg_inv lib s" "pg_held s k tok"
  shows "pg_Complete lib now s k tok att = (None, s1) \<Longrightarrow> \<not> carries s1 k y"
    "pg_Reschedule lib s k tok att t = (None, s1) \<Longrightarrow> \<not> carries s1 k y"
    "pg_DeadLetter lib now s k tok att = (None, s1) \<Longrightarrow> \<not> carries s1 k y"
proof -
  have spend: "\<exists>s0 row. update s = Inr s0 \<and> s1 = s0\<lparr>rdq_attempt := rdq_attempt s0 @ [row]\<rparr>"
    if sp: "spendClaim lib k att update s = (None, s1)" for update
  proof -
    have "spendClaim lib k att update s \<noteq> (None, s1)" if "update s = Inl e" for e
      using that by (simp add: spendClaim_def split: sum.split)
    then obtain s0 where "update s = Inr s0" using sp by (cases "update s") auto
    then show ?thesis
      using sp by (auto simp: spendClaim_def insertAttempt_def add_attempt_def split: sum.splits if_splits)
  qed
  show "\<not> carries s1 k y" if "pg_Complete lib now s k tok att = (None, s1)"
    using spend [OF that [unfolded pg_Complete_def]] by (elim exE conjE) (drule spent_update_token [OF assms, rotated -1]; simp)
  show "\<not> carries s1 k y" if R: "pg_Reschedule lib s k tok att t = (None, s1)"
  proof -
    let ?u = "\<lambda>r. r\<lparr>tStatus := StatusPending, tNextAttemptAt := Some (ts lib t),
              tLeaseExpiresAt := None, claim_token := None, tAttemptCount := tAttemptCount r + 1\<rparr>"
    obtain s2 ns row where u: "outcomeUpdate lib k tok ?u s = Inr s2"
      and s1: "s1 = s2\<lparr>due_notes := ns\<rparr>\<lparr>rdq_attempt := rdq_attempt s2 @ [row]\<rparr>"
      using spend [OF R [unfolded pg_Reschedule_def]] by (cases "outcomeUpdate lib k tok ?u s") auto
    have "\<not> carries s2 k y" by (rule spent_update_token [OF assms _ _ u]) simp_all
    then show ?thesis by (simp only: s1 carries_attempts not_False_eq_True)
  qed
  show "\<not> carries s1 k y" if D: "pg_DeadLetter lib now s k tok att = (None, s1)"
  proof -
    have wf: "pg_wf lib s" using assms(1) by (simp add: pg_inv_def)
    let ?et = "case Err att of None \<Rightarrow> None | Some d \<Rightarrow> emptyToNil (ErrType d)"
    obtain n s0 row where d: "deadLetterSQL lib now k tok ?et s = Inr (n, s0)" "n \<noteq> 0" "s1 = s0\<lparr>rdq_attempt := rdq_attempt s0 @ [row]\<rparr>"
      using spend [OF D [unfolded pg_DeadLetter_def]] by (auto simp: staleIfNoRows_def split: sum.splits if_splits)
    show ?thesis by (rule deadLetterSQL_row [OF wf d(1,2)]) (auto simp: d(3) carries_def)
  qed
qed

lemma overtaken_token:
  assumes "pg_inv lib s" "pg_ClaimDue lib now s q limit l = (Inr cs, s1) \<and> pg_held s k tok \<and> k \<in> (\<lambda>c. ID (Task c)) ` set cs"
    "pg_held s k tok"
  shows "\<not> carries s1 k tok"
proof
  assume c1: "carries s1 k tok"
  have wf: "pg_wf lib s" and inj: "inj (gen_random_uuid lib)" using assms(1) by (simp_all add: pg_inv_def pg_lib_okD(1))
  obtain c where c: "c \<in> set cs" "ID (Task c) = k" using assms(2) by auto
  have C: "pg_ClaimDue lib now s q limit l = (Inr cs, s1)" using assms(2) by blast
  obtain i r where i: "Token c = gen_random_uuid lib (uuids s + i)" "tID r = k" "0 < limit"
    "claimedLive (pg_expiry lib now l) (Token c) r \<in> set (rdq_task s1)"
    by (rule claimed_task [OF assms(1) C c(1)]) (use c(2) in auto)
  have wf1: "pg_wf lib s1" by (rule ClaimDue_effect(1) [OF assms(1) C i(3)])
  obtain x where x: "x \<in> set (rdq_task s1)" "tID x = k" "claim_token x = Some tok" using c1 by (auto simp: carries_def)
  have "x = claimedLive (pg_expiry lib now l) (Token c) r"
    using pg_wfD(1) [OF wf1] x(1,2) i(2,4) unfolding distinct_split by (metis claimedLive_simps(1) distinct_map inj_onD)
  then have "tok = gen_random_uuid lib (uuids s + i)" using x(3) i(1) by simp
  moreover obtain j where "j < uuids s" "tok = gen_random_uuid lib j"
    using carries_generated [OF wf] held_carries [OF wf] assms(3) by (auto simp: generated_def)
  ultimately show False using injD [OF inj, of "uuids s + i" j] by simp
qed

text \<open>C7: a spent or overtaken claim on a PostgreSQL task is dead for ever. Once a completion, a reschedule
  or a dead-lettering with a token has been committed, or a later claim has taken the task over from the holder of a
  token, every write and lease extension with that token is refused and changes nothing,
  whatever transactions commit in between.\<close>

theorem pg_claims_fenced:
  assumes "pg_inv lib s"
    "pg_Complete lib now s k tok att = (None, s1) \<or> pg_Reschedule lib s k tok att t = (None, s1) \<or>
     pg_DeadLetter lib now s k tok att = (None, s1) \<or>
     (\<exists>cs. pg_ClaimDue lib now s q limit l = (Inr cs, s1) \<and> pg_held s k tok \<and> k \<in> (\<lambda>c. ID (Task c)) ` set cs)"
    "pg_run lib s1 evs s'"
  shows "pg_refuses lib s' k tok"
proof -
  have wf: "pg_wf lib s" and ok: "pg_lib_ok lib" using assms(1) by (simp_all add: pg_inv_def)
  have held: "pg_held s k tok" using assms(2) pg_stale [of s k tok lib] by (metis option.distinct(1) prod.inject)
  then have gen: "generated lib s tok" using carries_generated [OF wf] held_carries [OF wf] by blast
  have "pg_wf lib s1 \<and> no_old_token lib s s1"
    using assms(2) pg_wf_Complete [OF assms(1)] pg_wf_Reschedule [OF assms(1)] pg_wf_DeadLetter [OF assms(1)]
      pg_wf_ClaimDue [OF assms(1)] no_old_outcome no_old_ClaimDue [OF assms(1)] by (metis snd_conv)
  then have inv1: "pg_inv lib s1" and gen1: "generated lib s1 tok"
    using ok gen by (auto simp: pg_inv_def no_old_token_def generated_def intro: order.strict_trans2)
  have "\<not> carries s1 k tok"
    using assms(2) spent_token [OF assms(1) held] overtaken_token [OF assms(1) _ held] by blast
  then show ?thesis by (rule pg_refuses_forever [OF assms(3) inv1 _ gen1])
qed

section \<open>A server to run on\<close>

definition sample_lib :: pg_lib where
  "sample_lib = \<lparr>ts = (\<lambda>t. t - t mod 1000), make_interval = (\<lambda>_. 10000), jsonb = Some, text_ok = (\<lambda>_. True),
     gen_random_uuid = (\<lambda>n. ''u'' @ replicate n CHR ''1''), update_order = rev, collate = (\<lambda>x. x),
     sql_message = (\<lambda>_. ''ERROR''),
     marshalStrings = (\<lambda>m. if m = [] then ''{}'' else ''{k:v}''),
     unmarshalStrings = (\<lambda>b. Inr (if b = ''{k:v}'' then [(''k'', ''v'')] else [])),
     marshalRaw = (\<lambda>m. Inr (if m = [] then ''{}'' else ''{x:1}'')),
     unmarshalRaw = (\<lambda>b. Inr (if b = ''{x:1}'' then [(''x'', ''1'')] else []))\<rparr>"

lemma sample_lib_ok: "pg_lib_ok sample_lib"
proof -
  have "inj (\<lambda>n. CHR ''u'' # replicate n CHR ''1'')" by (rule injI) (metis length_replicate list.inject)
  then show ?thesis by (simp add: pg_lib_ok_def sample_lib_def decodeResidual_def decodeStringMap_def)
qed

definition pg_pending :: pg where
  "pg_pending = pg_exec sample_lib (Call (EvEnqueue (sample_task ''b'')))
     (pg_exec sample_lib (Call (EvEnqueue (sample_task ''a''))) empty_db)"

definition pg_claimed :: pg where
  "pg_claimed = pg_exec sample_lib (Call (EvClaimDue 5000 ''q'' 1 10)) pg_pending"

lemma sample_pg_run:
  "pg_run sample_lib empty_db [Call (EvEnqueue (sample_task ''a'')), Call (EvEnqueue (sample_task ''b'')),
     Call (EvClaimDue 5000 ''q'' 1 10)] pg_claimed"
  unfolding pg_claimed_def pg_pending_def by (intro pg_run.intros) (simp_all add: sample_fresh)

lemma sample_pg_inv: "pg_inv sample_lib empty_db"
  by (rule inv_empty [OF sample_lib_ok])

lemmas pg_eval = pg_claimed_def sample_lib_def empty_db_def sample_task_def
  pg_Enqueue_def taskRowFromEnvelope_def attemptRowsFromEnvelope_def encodeResidual_def encodeStringMap_def
  lookupQueue_def enqueueInsert_def bind_task_def texts_ok_def opt_text_def int4_def notifyDue_def emptyToNil_def
  task_row.defs live_row.defs

definition sample_row :: "string \<Rightarrow> live_row" where
  "sample_row tid = \<lparr>tID = tid, tQueue = ''q'', tEnvelopeVersion = 1, tHandlerRef = ''h'', tHandlerVersion = None,
     tPayload = Some ''p'', tPayloadContentType = ''application/json'', tPayloadRef = None, tHeaders = ''{}'',
     tStatus = StatusPending, tAttemptCount = 0, tRedriveCount = 0, tNextAttemptAt = Some 0, tLeaseExpiresAt = None,
     tCreatedAt = 0, tResidual = ''{}'', claim_token = None\<rparr>"

lemma pg_pending_value:
  "pg_pending = empty_db\<lparr>rdq_task := [sample_row ''a'', sample_row ''b''], due_notes := [''q'', ''q'']\<rparr>"
  by (simp add: pg_pending_def pg_eval sample_row_def)

lemma pg_claimed_value:
  "pg_claimed = pg_pending\<lparr>rdq_task := [leased 15000 ''u'' (sample_row ''a''), sample_row ''b''], uuids := 1\<rparr>"
  by (simp add: pg_pending_value pg_eval sample_row_def pg_ClaimDue_def claimSQL_def dueRows_def dueRow_def at_most_def
    nulls_last_def leased_def envelopeFromRows_def decodeStringMap_def decodeResidual_def loadAttempts_def numeral_nat)

lemma pg_claimed_held: "pg_held pg_claimed ''a'' ''u''"
  by (simp add: pg_held_def pg_claimed_value fence_def leased_def sample_row_def)

definition pg_done :: pg where
  "pg_done = pg_exec sample_lib (Call (EvComplete 9000 ''a'' ''u'' (sample_attempt OutcomeSuccess))) pg_claimed"

lemma pg_done_value:
  "pg_Complete sample_lib 9000 pg_claimed ''a'' ''u'' (sample_attempt OutcomeSuccess) = (None, pg_done)"
  "rdq_task pg_done = [(leased 15000 ''u'' (sample_row ''a''))\<lparr>tStatus := StatusSucceeded, tNextAttemptAt := None,
     tLeaseExpiresAt := None, claim_token := None, tAttemptCount := 1\<rparr>, sample_row ''b'']"
  by (simp_all add: pg_done_def pg_Complete_def pg_claimed_value pg_pending_value pg_eval sample_row_def spendClaim_def
    attemptRowFromAttempt_def outcomeUpdate_def updateFenced_def staleIfNoRows_def insertAttempt_def bind_attempt_def
    add_attempt_def sample_attempt_def fence_def leased_def Outcome_Valid_def)

theorem pg_refines_lifecycle_witness:
  "pg_status pg_claimed ''a'' = Some StatusInFlight \<and> pg_status pg_done ''a'' = Some StatusSucceeded \<and>
   pg_inv sample_lib pg_done \<and> lifecycle (pg_status pg_claimed ''b'') (pg_status pg_done ''b'')"
  using pg_refines_lifecycle [OF sample_pg_run sample_pg_inv,
      of "Call (EvComplete 9000 ''a'' ''u'' (sample_attempt OutcomeSuccess))", folded pg_done_def]
  by (auto simp: pg_status_def row_of_def pg_claimed_value pg_done_value(2) leased_def sample_row_def)

theorem pg_claims_fenced_witness:
  "pg_refuses sample_lib (pg_exec sample_lib (Call (EvClaimDue 20000 ''q'' 5 10)) pg_done) ''a'' ''u''"
proof -
  have "pg_inv sample_lib pg_claimed" by (rule inv_run [OF sample_pg_run sample_pg_inv])
  moreover have "pg_run sample_lib pg_done [Call (EvClaimDue 20000 ''q'' 5 10)]
      (pg_exec sample_lib (Call (EvClaimDue 20000 ''q'' 5 10)) pg_done)"
    by (intro pg_run.intros) simp
  ultimately show ?thesis by (rule pg_claims_fenced [OF _ disjI1 [OF pg_done_value(1)]])
qed

end
