(* ===== verification/Postgres_Dlq.thy ===== *)
theory Postgres_Dlq
  imports Postgres_Props
begin

text \<open>
  Reading the PostgreSQL tables back: what \<open>Get\<close> returns of an enqueued task, paging through the
  dead letters, and the worker's outcome writes on this backend; and the race between enqueueing
  and dead-lettering that the two statements of \<open>Enqueue\<close> leave open.
\<close>

section \<open>Paging\<close>

lemma FormatInt_no_colon: "CHR '':'' \<notin> set (FormatInt n)"
proof -
  have "digit_val CHR '':'' = None" by (simp add: digit_val_def)
  then show ?thesis using FormatUint_digits by (fastforce simp: FormatInt_def split: if_splits)
qed

lemma decode_encodeDLQCursor:
  assumes "min_int64 \<le> t" "t \<le> max_int64"
  shows "decodeDLQCursor (encodeDLQCursor t tid) = Inr (Some (t, tid))" "encodeDLQCursor t tid \<noteq> []"
proof -
  let ?raw = "dlqCursorPrefix @ FormatInt t @ '':'' @ tid"
  show ne: "encodeDLQCursor t tid \<noteq> []"
    unfolding encodeDLQCursor_def dlqCursorPrefix_def
    by (metis b64_roundtrip b64_encode.simps(1) append_Cons list.distinct(1) option.inject)
  have "Cut1 (drop (length dlqCursorPrefix) ?raw) CHR '':'' = Some (FormatInt t, tid)"
    using Cut1_append [OF FormatInt_no_colon, of t tid] by simp
  then show "decodeDLQCursor (encodeDLQCursor t tid) = Inr (Some (t, tid))"
    using ne ParseInt_FormatInt [OF assms] unfolding decodeDLQCursor_def encodeDLQCursor_def
    by (simp add: b64_roundtrip)
qed

lemma dlqRows_strict:
  assumes "pg_wf lib s" "inj (collate lib)"
  shows "sorted_wrt (<) (map (pageKey lib) (dlqRows lib s q f a))"
proof -
  have d: "distinct (map tID (rdq_dlq_task s))" using pg_wfD(1) [OF assms(1)] by (simp add: dead_ids_def)
  have "inj_on (pageKey lib) (set (rdq_dlq_task s))"
    using d assms(2) by (intro inj_onI) (auto simp: pageKey_def distinct_map inj_eq dest: inj_onD)
  then have "distinct (map (pageKey lib) (dlqRows lib s q f a))"
    using d by (auto simp: dlqRows_def distinct_map intro: inj_on_subset)
  then show ?thesis by (simp add: strict_sorted_iff dlqRows_def)
qed

lemma set_dlqRows:
  "r \<in> set (dlqRows lib s q f a) \<longleftrightarrow> r \<in> set (rdq_dlq_task s) \<and> tQueue r = q \<and> filterCond lib f r \<and>
     (case a of None \<Rightarrow> True | Some (t, tid) \<Rightarrow> (ts lib t, collate lib tid) < pageKey lib r)"
  by (auto simp: dlqRows_def)

lemma dlqRows_after:
  assumes "pg_wf lib s" "inj (collate lib)" "\<forall>r \<in> set (rdq_dlq_task s). ts lib (dead_lettered_at r) = dead_lettered_at r"
    "0 < n" "n \<le> length (dlqRows lib s q f a)" "r = last (take n (dlqRows lib s q f a))"
  shows "dlqRows lib s q f (Some (dead_lettered_at r, tID r)) = drop n (dlqRows lib s q f a)"
proof -
  let ?m = "dlqRows lib s q f a"
  have r: "r \<in> set ?m"
    using assms(4-6) by (metis in_set_takeD last_in_set length_greater_0_conv length_take min.absorb2)
  then have key: "(ts lib (dead_lettered_at r), collate lib (tID r)) = pageKey lib r"
    using assms(3) by (simp add: set_dlqRows pageKey_def)
  have "(case a of None \<Rightarrow> True | Some (t, tid) \<Rightarrow> (ts lib t, collate lib tid) < pageKey lib x)"
    if "pageKey lib r < pageKey lib x" for x
    using r that by (auto simp: set_dlqRows split: option.splits)
  then have "dlqRows lib s q f (Some (dead_lettered_at r, tID r)) = filter (\<lambda>x. \<not> pageKey lib x \<le> pageKey lib r) ?m"
    unfolding dlqRows_def filter_sort filter_filter
    by (intro arg_cong [where f = "sort_key (pageKey lib)"] filter_cong) (auto simp: key not_le)
  also have "\<dots> = drop n ?m"
    using filter_after_take [OF dlqRows_strict [OF assms(1,2)] assms(4,5)] assms(6) by simp
  finally show ?thesis .
qed

definition pg_page_size :: "page \<Rightarrow> nat" where
  "pg_page_size pg = nat (if Limit pg \<le> 0 then defaultDLQPageLimit else Limit pg)"

text \<open>A dead-letter row as a page shows it.\<close>

definition pg_page_view :: "pg_lib \<Rightarrow> dlq_filter \<Rightarrow> pg \<Rightarrow> dlq_row \<Rightarrow> envelope option" where
  "pg_page_view lib f s r = map_option (\<lambda>e. if IncludeAttempts f then e else e\<lparr>Attempts := []\<rparr>) (pg_task_at lib s (tID r))"

lemma envelope_no_attempts:
  assumes "envelopeFromRows lib r rs = Inr e"
  shows "envelopeFromRows lib r [] = Inr (e\<lparr>Attempts := []\<rparr>)"
  using assms by (auto simp: envelopeFromRows_def split: sum.splits)

lemma pageEnvelopes_view:
  assumes "pg_wf lib s" "set rs \<subseteq> set (rdq_dlq_task s)"
  shows "\<exists>es. pageEnvelopes lib (IncludeAttempts f) s rs = Inr es \<and> map Some es = map (pg_page_view lib f s) rs"
  using assms(2)
proof (induction rs)
  case (Cons r rs)
  have r: "r \<in> set (rdq_dlq_task s)" using Cons.prems by simp
  obtain as where as: "attemptsFromRows lib (loadAttempts s (tID r)) = Inr as" using history_readable [OF assms(1)] by blast
  have "readable lib r" using pg_wfD(3) [OF assms(1) r] by (simp add: wf_dead_def)
  then obtain e where e: "envelopeFromRows lib r (loadAttempts s (tID r)) = Inr e" using readable_envelope [OF _ as] by blast
  then have "pg_task_at lib s (tID r) = Some e"
    using row_of_dead [OF pg_wfD(1) [OF assms(1)] r] by (simp add: pg_task_at_def)
  then show ?case using Cons e envelope_no_attempts [OF e] by (auto simp: pg_page_view_def)
qed simp

lemma pg_DLQList_unfold:
  assumes "decodeDLQCursor (After pg) = Inr a"
    "texts_ok lib (q # filter_texts f @ (case a of None \<Rightarrow> [] | Some (t, tid) \<Rightarrow> [tid]))"
  shows "pg_DLQList lib s q f pg = (let m = dlqRows lib s q f a; r = last (take (pg_page_size pg) m) in
    case pageEnvelopes lib (IncludeAttempts f) s (take (pg_page_size pg) m) of Inl e \<Rightarrow> Inl e
    | Inr es \<Rightarrow> Inr (es, if pg_page_size pg < length m then encodeDLQCursor (dead_lettered_at r) (tID r) else []))"
proof -
  define l where "l = (if Limit pg \<le> 0 then defaultDLQPageLimit else Limit pg)"
  have l: "0 < l" "pg_page_size pg = nat l" by (simp_all add: l_def pg_page_size_def defaultDLQPageLimit_def)
  have n: "nat (l + 1) = Suc (nat l)" using l(1) by (simp add: Suc_nat_eq_nat_zadd1)
  have "l < int (min (length m) (Suc (nat l))) \<longleftrightarrow> nat l < length m" for m :: "dlq_row list" using l(1) by linarith
  then show ?thesis
    using assms(1) assms(2) unfolding pg_DLQList_def l_def [symmetric] l(2)
    by (auto simp: Let_def n min_def split: if_splits)
qed

text \<open>C19: paging through the dead letters of a PostgreSQL queue misses and repeats nothing. Where
  ids sort by an injective collation and dead-lettering times are stored exactly, a page from any cursor
  holds the first rows still to come, oldest first, up to the page size, each as its task reads;
  without a next cursor it held all of them, and the next cursor resumes with exactly the rows the page left over.\<close>

theorem pg_DLQList_pages:
  assumes "pg_inv lib s" "inj (collate lib)"
    "\<forall>r \<in> set (rdq_dlq_task s). ts lib (dead_lettered_at r) = dead_lettered_at r \<and>
       min_int64 \<le> dead_lettered_at r \<and> dead_lettered_at r \<le> max_int64"
    "decodeDLQCursor (After pg) = Inr a"
    "texts_ok lib (q # filter_texts f @ (case a of None \<Rightarrow> [] | Some (t, tid) \<Rightarrow> [tid]))"
  shows "\<exists>es next. pg_DLQList lib s q f pg = Inr (es, next)
    \<and> map Some es = map (pg_page_view lib f s) (take (pg_page_size pg) (dlqRows lib s q f a)) \<and> 0 < pg_page_size pg
    \<and> (next = [] \<longrightarrow> length (dlqRows lib s q f a) \<le> pg_page_size pg)
    \<and> (next \<noteq> [] \<longrightarrow> (\<exists>a'. decodeDLQCursor next = Inr (Some a') \<and>
          dlqRows lib s q f (Some a') = drop (pg_page_size pg) (dlqRows lib s q f a)))
    \<and> sorted_wrt (<) (map (pageKey lib) (dlqRows lib s q f a))"
proof -
  let ?m = "dlqRows lib s q f a" and ?n = "pg_page_size pg"
  let ?r = "last (take ?n ?m)"
  have wf: "pg_wf lib s" using assms(1) by (simp add: pg_inv_def)
  have n: "0 < ?n" by (simp add: pg_page_size_def defaultDLQPageLimit_def)
  have rows: "set (take ?n ?m) \<subseteq> set (rdq_dlq_task s)" using set_take_subset [of ?n ?m] by (auto simp: set_dlqRows)
  obtain es where es: "pageEnvelopes lib (IncludeAttempts f) s (take ?n ?m) = Inr es"
    "map Some es = map (pg_page_view lib f s) (take ?n ?m)"
    using pageEnvelopes_view [OF wf rows] by blast
  have nxt: "decodeDLQCursor (encodeDLQCursor (dead_lettered_at ?r) (tID ?r)) = Inr (Some (dead_lettered_at ?r, tID ?r))
      \<and> encodeDLQCursor (dead_lettered_at ?r) (tID ?r) \<noteq> []
      \<and> dlqRows lib s q f (Some (dead_lettered_at ?r, tID ?r)) = drop ?n ?m" if l: "?n < length ?m"
  proof -
    have "take ?n ?m \<noteq> []" using l n by auto
    then have "?r \<in> set (rdq_dlq_task s)" using rows last_in_set by blast
    then have "decodeDLQCursor (encodeDLQCursor (dead_lettered_at ?r) (tID ?r)) = Inr (Some (dead_lettered_at ?r, tID ?r))"
      "encodeDLQCursor (dead_lettered_at ?r) (tID ?r) \<noteq> []"
      using assms(3) decode_encodeDLQCursor by blast+
    moreover have "dlqRows lib s q f (Some (dead_lettered_at ?r, tID ?r)) = drop ?n ?m"
      using l assms(3) by (intro dlqRows_after [OF wf assms(2) _ n _ refl]) auto
    ultimately show ?thesis by blast
  qed
  show ?thesis
  proof (cases "?n < length ?m")
    case True
    then have L: "pg_DLQList lib s q f pg = Inr (es, encodeDLQCursor (dead_lettered_at ?r) (tID ?r))"
      using es(1) by (simp add: pg_DLQList_unfold [OF assms(4,5)] Let_def)
    show ?thesis unfolding L using nxt [OF True] es(2) n dlqRows_strict [OF wf assms(2)] by blast
  next
    case False
    then have L: "pg_DLQList lib s q f pg = Inr (es, [])"
      using es(1) by (simp add: pg_DLQList_unfold [OF assms(4,5)] Let_def)
    show ?thesis unfolding L using False es(2) n dlqRows_strict [OF wf assms(2)] by (metis not_less)
  qed
qed

definition pg_dead :: pg where
  "pg_dead = pg_exec sample_lib (Call (EvDeadLetter 9000 ''a'' ''u'' (sample_attempt OutcomePermanentFailure))) pg_claimed"

lemma pg_dead_value:
  "pg_inv sample_lib pg_dead" "map tID (rdq_dlq_task pg_dead) = [''a'']" "map dead_lettered_at (rdq_dlq_task pg_dead) = [9000]"
  using inv_exec [OF inv_run [OF sample_pg_run sample_pg_inv], of "Call (EvDeadLetter 9000 ''a'' ''u'' (sample_attempt OutcomePermanentFailure))"]
  by (simp_all add: pg_dead_def pg_DeadLetter_def pg_claimed_value pg_pending_value pg_eval sample_row_def spendClaim_def
    attemptRowFromAttempt_def deadLetterSQL_def staleIfNoRows_def insertAttempt_def bind_attempt_def deadRow_def
    dlq_row.defs add_attempt_def sample_attempt_def fence_def leased_def Outcome_Valid_def)

theorem pg_DLQList_pages_witness:
  "\<exists>es next. pg_DLQList sample_lib pg_dead ''q'' no_filter \<lparr>Limit = 1, After = []\<rparr> = Inr (es, next) \<and>
     sorted_wrt (<) (map (pageKey sample_lib) (dlqRows sample_lib pg_dead ''q'' no_filter None))"
proof -
  have "r \<in> set (rdq_dlq_task pg_dead) \<Longrightarrow> dead_lettered_at r = 9000" for r
    using pg_dead_value(3) by (metis list.set_intros(1) list.set_map imageI list.simps(15) empty_set singletonD)
  then have "\<forall>r \<in> set (rdq_dlq_task pg_dead). ts sample_lib (dead_lettered_at r) = dead_lettered_at r \<and>
      min_int64 \<le> dead_lettered_at r \<and> dead_lettered_at r \<le> max_int64"
    by (simp add: sample_lib_def)
  moreover have "inj (collate sample_lib)" by (simp add: sample_lib_def)
  moreover have "texts_ok sample_lib xs" for xs by (simp add: texts_ok_def sample_lib_def list_all_iff)
  ultimately show ?thesis
    using pg_DLQList_pages [OF pg_dead_value(1), of "\<lparr>Limit = 1, After = []\<rparr>" None "''q''" no_filter]
    by (auto simp: decodeDLQCursor_def)
qed

section \<open>Reading a task back\<close>

definition kept_headers :: "pg_lib \<Rightarrow> string gomap \<Rightarrow> string gomap" where
  "kept_headers lib h = (case jsonb lib (encodeStringMap lib h) of None \<Rightarrow> []
     | Some b \<Rightarrow> (case decodeStringMap lib b of Inl e \<Rightarrow> [] | Inr h' \<Rightarrow> h'))"

text \<open>What the database keeps of a new task: times at its precision, JSON in its normal form.\<close>

definition pg_kept_task :: "pg_lib \<Rightarrow> envelope \<Rightarrow> envelope" where
  "pg_kept_task lib e = e\<lparr>Headers := kept_headers lib (Headers e), Residual := kept_map lib (Residual e),
     NextAttemptAt := map_option (ts lib) (NextAttemptAt e), LeaseExpiresAt := map_option (ts lib) (LeaseExpiresAt e),
     CreatedAt := ts lib (CreatedAt e)\<rparr>"

lemma kept_task_read:
  assumes "pg_lib_ok lib" "taskRowFromEnvelope lib e = Inr row" "bind_task lib row = Inr row'" "Attempts e = []"
  shows "envelopeFromRows lib row' [] = Inr (pg_kept_task lib e)"
proof -
  obtain res where res: "encodeResidual lib (Residual e) = Inr res"
    using assms(2) by (auto simp: taskRowFromEnvelope_def split: sum.splits)
  note row = assms(2) [unfolded taskRowFromEnvelope_def res, simplified, symmetric]
  obtain h x where x: "jsonb lib (encodeStringMap lib (Headers e)) = Some h" "jsonb lib res = Some x"
    "row' = row\<lparr>tHeaders := h, tResidual := x, tNextAttemptAt := map_option (ts lib) (tNextAttemptAt row),
       tLeaseExpiresAt := map_option (ts lib) (tLeaseExpiresAt row), tCreatedAt := ts lib (tCreatedAt row)\<rparr>"
    using bind_task_Inr [OF assms(3)] row by (metis task_row.select_convs(9,16))
  obtain m' where m': "decodeResidual lib x = Inr m'" using pg_lib_okD(4) [OF assms(1) res x(2)] by blast
  obtain h' where h': "decodeStringMap lib h = Inr h'" using pg_lib_okD(5) [OF assms(1) x(1)] by blast
  show ?thesis
    using m' h' x(1,2) res assms(4)
    by (simp add: envelopeFromRows_def x(3) row pg_kept_task_def kept_headers_def kept_map_def)
qed

lemma Get_task_at: "pg_task_at lib s k = Some e \<Longrightarrow> text_ok lib k \<Longrightarrow> pg_Get lib s k = Inr e"
  by (auto simp: pg_Get_def pg_task_at_def split: option.splits sum.splits)

lemma Enqueue_row:
  assumes "pg_Enqueue lib s e = (None, s')" "lookupQueue s (ID e) = None" "Attempts e = []"
  obtains row row' where "taskRowFromEnvelope lib e = Inr row" "bind_task lib row = Inr row'" "tID row' = ID e"
    "text_ok lib (ID e)"
    "s' = notifyDue (Queue e) (s\<lparr>rdq_task := rdq_task s @ [task_row.extend row' (live_row.fields None)]\<rparr>)"
proof -
  obtain row where row: "taskRowFromEnvelope lib e = Inr row"
    using assms(1) by (auto simp: pg_Enqueue_def split: sum.splits)
  then have id: "tID row = ID e" "tQueue row = Queue e" by (auto simp: taskRowFromEnvelope_def split: sum.splits)
  have ins: "enqueueInsert lib s row [] = (None, s')" and tx: "text_ok lib (ID e)"
    using assms row id by (auto simp: pg_Enqueue_def attemptRowsFromEnvelope_def split: if_splits)
  then obtain row' where b: "bind_task lib row = Inr row'" by (auto simp: enqueueInsert_def split: sum.splits)
  have id': "tID row' = ID e" "tQueue row' = Queue e"
    by (rule bind_task_Inr [OF b]; simp add: id)+
  have "\<not> list_ex (\<lambda>r. tID r = tID row') (rdq_task s)"
    using assms(2) id' by (force simp: lookupQueue_None list_ex_iff live_ids_def)
  then have "s' = notifyDue (Queue e) (s\<lparr>rdq_task := rdq_task s @ [task_row.extend row' (live_row.fields None)]\<rparr>)"
    using ins b id' by (simp add: enqueueInsert_def)
  then show thesis using that [OF row b id'(1) tx] by blast
qed

lemma no_history:
  assumes "pg_wf lib s" "k \<notin> set (live_ids s @ dead_ids s)"
  shows "loadAttempts s k = []"
proof -
  have "set (loadAttempts s k) = {}" using pg_wfD(4) [OF assms(1)] assms(2) by auto
  then show ?thesis by (simp only: set_empty)
qed

text \<open>
  What the JSON library and a \<open>jsonb\<close> column promise for the maps of a task: a document the column accepts
  gives back the map that was written to it, and the empty object is kept.
\<close>

definition json_keeps :: "pg_lib \<Rightarrow> envelope \<Rightarrow> bool" where
  "json_keeps lib e \<longleftrightarrow>
     jsonb lib ''{}'' = Some ''{}'' \<and> unmarshalStrings lib ''{}'' = Inr [] \<and> unmarshalRaw lib ''{}'' = Inr [] \<and>
     (\<forall>b. jsonb lib (marshalStrings lib (Headers e)) = Some b \<longrightarrow> b \<noteq> [] \<and> unmarshalStrings lib b = Inr (Headers e)) \<and>
     (\<forall>b b'. marshalRaw lib (Residual e) = Inr b \<and> jsonb lib b = Some b' \<longrightarrow> b' \<noteq> [] \<and> unmarshalRaw lib b' = Inr (Residual e))"

definition cut_times :: "(time \<Rightarrow> time) \<Rightarrow> envelope \<Rightarrow> envelope" where
  "cut_times prec e = e\<lparr>NextAttemptAt := map_option prec (NextAttemptAt e), LeaseExpiresAt := map_option prec (LeaseExpiresAt e),
     CreatedAt := prec (CreatedAt e)\<rparr>"

lemma kept_task_lossless:
  assumes "json_keeps lib e" "taskRowFromEnvelope lib e = Inr row" "bind_task lib row = Inr row'"
  shows "pg_kept_task lib e = cut_times (ts lib) e"
proof -
  obtain res where res: "encodeResidual lib (Residual e) = Inr res" "tResidual row = res" "tHeaders row = encodeStringMap lib (Headers e)"
    using assms(2) by (auto simp: taskRowFromEnvelope_def split: sum.splits)
  obtain h x where x: "jsonb lib (encodeStringMap lib (Headers e)) = Some h" "jsonb lib res = Some x"
    using bind_task_Inr [OF assms(3)] res by metis
  have "kept_headers lib (Headers e) = Headers e"
    using x(1) assms(1) by (auto simp: kept_headers_def encodeStringMap_def decodeStringMap_def json_keeps_def split: if_splits)
  moreover have "kept_map lib (Residual e) = Residual e"
    using x(2) res(1) assms(1) by (auto simp: kept_map_def encodeResidual_def decodeResidual_def json_keeps_def split: if_splits)
  ultimately show ?thesis by (simp add: pg_kept_task_def cut_times_def)
qed

text \<open>C20: a task enqueued on PostgreSQL reads back. When the JSON columns keep its header and residual maps,
  a new task that is accepted reads back as it was submitted with its times cut to the precision of the
  columns, so exactly as submitted when they are whole microseconds; its queue is announced and no other
  task changes. An id found in either table by the lookup is left alone, and accepted only for its own queue; a
  refused task changes nothing. (One enqueue with nothing committed between its two statements.)\<close>

theorem pg_Enqueue_Get:
  assumes "pg_inv lib s" "Attempts e = []" "json_keeps lib e" "pg_Enqueue lib s e = (err, s')"
  shows "(err \<noteq> None \<or> lookupQueue s (ID e) \<noteq> None \<longrightarrow> s' = s) \<and>
    (\<forall>q. err = None \<and> lookupQueue s (ID e) = Some q \<longrightarrow> q = Queue e) \<and>
    (err = None \<and> lookupQueue s (ID e) = None \<longrightarrow>
       pg_Get lib s' (ID e) = Inr (cut_times (ts lib) e) \<and>
       (cut_times (ts lib) e = e \<longleftrightarrow> (\<forall>t \<in> {CreatedAt e} \<union> set_option (NextAttemptAt e) \<union> set_option (LeaseExpiresAt e). ts lib t = t)) \<and>
       due_notes s' = due_notes s @ [Queue e] \<and>
       (\<forall>k. k \<noteq> ID e \<longrightarrow> pg_Get lib s' k = pg_Get lib s k))"
proof -
  have wf: "pg_wf lib s" and ok: "pg_lib_ok lib" using assms(1) by (simp_all add: pg_inv_def)
  have q: "q = Queue e" if "err = None" "lookupQueue s (ID e) = Some q" for q
    using assms(4) that by (auto simp: pg_Enqueue_def taskRowFromEnvelope_def split: sum.splits if_splits)
  have cut: "cut_times (ts lib) e = e \<longleftrightarrow>
      (\<forall>t \<in> {CreatedAt e} \<union> set_option (NextAttemptAt e) \<union> set_option (LeaseExpiresAt e). ts lib t = t)"
    by (cases e; cases "NextAttemptAt e"; cases "LeaseExpiresAt e") (auto simp: cut_times_def)
  have new: "pg_Get lib s' (ID e) = Inr (cut_times (ts lib) e) \<and> due_notes s' = due_notes s @ [Queue e] \<and>
       (\<forall>k. k \<noteq> ID e \<longrightarrow> pg_Get lib s' k = pg_Get lib s k)" if n: "err = None" "lookupQueue s (ID e) = None"
  proof -
    obtain row row' where r: "taskRowFromEnvelope lib e = Inr row" "bind_task lib row = Inr row'" "tID row' = ID e"
      "text_ok lib (ID e)"
      "s' = notifyDue (Queue e) (s\<lparr>rdq_task := rdq_task s @ [task_row.extend row' (live_row.fields None)]\<rparr>)"
      by (rule Enqueue_row [OF assms(4) [unfolded n(1)] n(2) assms(2)])
    have k: "ID e \<notin> set (live_ids s @ dead_ids s)" using n(2) by (simp add: lookupQueue_None)
    have at: "loadAttempts s' x = loadAttempts s x" for x by (simp add: r(5) notifyDue_def loadAttempts_def)
    have "filter (\<lambda>x. tID x = ID e) (rdq_task s) = []" using k by (force simp: live_ids_def filter_empty_conv)
    then have "row_of s' (ID e) = Some row'"
      by (simp add: row_of_def r(3,5) notifyDue_def task_row.defs live_row.defs)
    moreover have "row_of s' x = row_of s x" if "x \<noteq> ID e" for x
      using that by (simp add: row_of_def r(3,5) notifyDue_def cong: list.case_cong)
    moreover have "due_notes s' = due_notes s @ [Queue e]" by (simp add: r(5) notifyDue_def)
    ultimately show ?thesis
      using kept_task_read [OF ok r(1,2) assms(2)] kept_task_lossless [OF assms(3) r(1,2)] no_history [OF wf k] r(4)
      by (simp add: pg_Get_def at cong: option.case_cong)
  qed
  show ?thesis using Enqueue_other [OF assms(4)] q new cut by blast
qed

definition headed_task :: envelope where
  "headed_task = (sample_task ''c'')\<lparr>Headers := [(''k'', ''v'')], CreatedAt := 1234\<rparr>"

theorem pg_Enqueue_Get_witness:
  "pg_Get sample_lib (snd (pg_Enqueue sample_lib pg_claimed headed_task)) ''c'' = Inr (headed_task\<lparr>CreatedAt := 1000\<rparr>)"
proof -
  have inv: "pg_inv sample_lib pg_claimed" by (rule inv_run [OF sample_pg_run sample_pg_inv])
  obtain err s' where E: "pg_Enqueue sample_lib pg_claimed headed_task = (err, s')" by fastforce
  have "err = None" "lookupQueue pg_claimed (ID headed_task) = None"
    using E by (auto simp: headed_task_def pg_claimed_value pg_pending_value pg_eval sample_row_def leased_def)
  moreover have "json_keeps sample_lib headed_task"
    by (simp add: json_keeps_def sample_lib_def headed_task_def sample_task_def)
  ultimately have "pg_Get sample_lib s' (ID headed_task) = Inr (cut_times (ts sample_lib) headed_task)"
    using pg_Enqueue_Get [OF inv _ _ E] by (simp add: headed_task_def sample_task_def)
  then show ?thesis
    using E by (simp add: headed_task_def sample_task_def cut_times_def sample_lib_def)
qed

text \<open>
  The lookup of \<open>Enqueue\<close> and its insert are two statements: a session that looked up an id before
  another session enqueued, claimed and dead-lettered it inserts it again, and the task is then in both tables.
\<close>

lemma enqueue_race:
  "lookupQueue empty_db ''a'' = None"
  "\<exists>row. taskRowFromEnvelope sample_lib (sample_task ''a'') = Inr row \<and>
     (case enqueueInsert sample_lib pg_dead row [] of (err, s') \<Rightarrow>
        err = None \<and> ''a'' \<in> set (live_ids s') \<and> ''a'' \<in> set (dead_ids s') \<and> \<not> pg_inv sample_lib s')"
proof -
  show "lookupQueue empty_db ''a'' = None" by (simp add: lookupQueue_def empty_db_def)
  have live: "map tID (rdq_task pg_dead) = [''b'']"
    by (simp add: pg_dead_def pg_DeadLetter_def pg_claimed_value pg_pending_value pg_eval sample_row_def spendClaim_def
      attemptRowFromAttempt_def deadLetterSQL_def staleIfNoRows_def insertAttempt_def bind_attempt_def deadRow_def
      dlq_row.defs add_attempt_def sample_attempt_def fence_def leased_def Outcome_Valid_def)
  obtain row where row: "taskRowFromEnvelope sample_lib (sample_task ''a'') = Inr row" "tID row = ''a''"
    by (simp add: taskRowFromEnvelope_def pg_eval)
  obtain row' where b: "bind_task sample_lib row = Inr row'" "tID row' = ''a''"
  proof -
    have "row = task_row.truncate (sample_row ''a'')"
      using row(1) by (simp add: taskRowFromEnvelope_def pg_eval sample_row_def)
    then show thesis using that by (simp add: bind_task_def texts_ok_def pg_eval sample_row_def)
  qed
  have "\<not> list_ex (\<lambda>r. tID r = tID row') (rdq_task pg_dead)"
  proof -
    have "tID ` set (rdq_task pg_dead) = {''b''}" using arg_cong [OF live, of set] by simp
    then have "''a'' \<notin> tID ` set (rdq_task pg_dead)" by simp
    then show ?thesis unfolding b(2) list_ex_iff by (metis image_eqI)
  qed
  then have "enqueueInsert sample_lib pg_dead row [] = (None, notifyDue (tQueue row')
      (pg_dead\<lparr>rdq_task := rdq_task pg_dead @ [task_row.extend row' (live_row.fields None)]\<rparr>))"
    using b(1) by (simp add: enqueueInsert_def)
  then show "\<exists>row. taskRowFromEnvelope sample_lib (sample_task ''a'') = Inr row \<and>
     (case enqueueInsert sample_lib pg_dead row [] of (err, s') \<Rightarrow>
        err = None \<and> ''a'' \<in> set (live_ids s') \<and> ''a'' \<in> set (dead_ids s') \<and> \<not> pg_inv sample_lib s')"
    using row(1) b(2) pg_dead_value(2) by (auto simp: live_ids_def dead_ids_def notifyDue_def pg_inv_def pg_wf_def)
qed

section \<open>The worker on PostgreSQL\<close>

lemmas pg_process = fenced_storage.process_held [OF pg.fenced_storage_axioms]
  fenced_storage.process_stale [OF pg.fenced_storage_axioms]

lemmas pg_refused = fenced_storage.process_refused [OF pg.fenced_storage_axioms]

text \<open>
  The attempts the database refuses: a text it cannot store (a zero byte or malformed UTF-8 in the message of a
  handler's error, say), a number that is taken, a counter at the end of its column's range.
\<close>

definition pg_unstorable :: "pg_lib \<Rightarrow> pg \<Rightarrow> task_id \<Rightarrow> attempt \<Rightarrow> bool" where
  "pg_unstorable lib s k att \<longleftrightarrow>
     \<not> (\<exists>row row'. attemptRowFromAttempt lib k att = Inr row \<and> bind_attempt lib row = Inr row') \<or>
     (\<exists>a \<in> set (rdq_attempt s). aTaskID a = k \<and> aAttemptNo a = AttemptNo att) \<or>
     (\<exists>r \<in> set (rdq_task s). tID r = k \<and> \<not> int4 (tAttemptCount r + 1))"

lemma spend_refused:
  assumes "\<not> (\<exists>row row'. attemptRowFromAttempt lib k att = Inr row \<and> bind_attempt lib row = Inr row') \<or>
      (\<exists>a \<in> set (rdq_attempt s). aTaskID a = k \<and> aAttemptNo a = AttemptNo att) \<or> (\<exists>err. update s = Inl err)"
    "\<And>s1. update s = Inr s1 \<Longrightarrow> rdq_attempt s1 = rdq_attempt s"
  shows "\<exists>err. spendClaim lib k att update s = (Some err, s)"
proof (cases "attemptRowFromAttempt lib k att")
  case (Inr row)
  then have row: "aTaskID row = k" "aAttemptNo row = AttemptNo att"
    by (auto simp: attemptRowFromAttempt_def Let_def split: sum.splits option.splits)
  show ?thesis
  proof (cases "update s")
    case u: (Inr s1)
    have "\<exists>e. insertAttempt lib row s1 = Inl e"
    proof (cases "bind_attempt lib row")
      case b: (Inr row')
      then have "aTaskID row' = k" "aAttemptNo row' = AttemptNo att"
        using row by (auto simp: bind_attempt_def Let_def split: if_splits option.splits)
      then show ?thesis
        using assms u Inr b by (force simp: insertAttempt_def add_attempt_def list_ex_iff)
    qed (simp add: insertAttempt_def)
    then show ?thesis using Inr u by (auto simp: spendClaim_def)
  qed (use Inr in \<open>simp add: spendClaim_def\<close>)
qed (simp add: spendClaim_def)

lemma overflow_refused:
  assumes "pg_wf lib s" "pg_held s k tok" "r \<in> set (rdq_task s)" "tID r = k" "\<not> int4 (tAttemptCount r + 1)"
    "\<And>r. tAttemptCount (upd r) = tAttemptCount r + 1"
  shows "\<exists>err. outcomeUpdate lib k tok upd s = Inl err" "\<exists>e. deadLetterSQL lib now k tok ty s = Inl e"
proof -
  obtain x where x: "x \<in> set (rdq_task s)" "fence k tok x" "filter (\<lambda>x. tID x = k) (rdq_task s) = [x]"
    by (rule held_row [OF assms(1,2)]) blast
  have "r \<in> set (filter (\<lambda>x. tID x = k) (rdq_task s))" using assms(3,4) by simp
  then have "x = r" using x(3) by simp
  then have r: "fence k tok r" using x(2) by simp
  show "\<exists>err. outcomeUpdate lib k tok upd s = Inl err"
    using r assms(3,5,6) by (auto simp: outcomeUpdate_def updateFenced_def list_ex_iff split: sum.splits if_splits)
  show "\<exists>e. deadLetterSQL lib now k tok ty s = Inl e"
    using r assms(3,5) by (auto simp: deadLetterSQL_def Let_def list_ex_iff)
qed

lemma unstorable_refused:
  assumes "pg_inv lib s" "pg_unstorable lib s k att"
  shows "\<exists>err. pg_Complete lib now s k tok att = (Some err, s)" "\<exists>err. pg_DeadLetter lib now s k tok att = (Some err, s)"
    "\<exists>err. pg_Reschedule lib s k tok att t = (Some err, s)"
proof -
  have wf: "pg_wf lib s" using assms(1) by (simp add: pg_inv_def)
  have "(\<exists>err. pg_Complete lib now s k tok att = (Some err, s)) \<and> (\<exists>err. pg_DeadLetter lib now s k tok att = (Some err, s)) \<and>
    (\<exists>err. pg_Reschedule lib s k tok att t = (Some err, s))"
  proof (cases "pg_held s k tok")
    case False
    then show ?thesis by (simp add: pg_stale)
  next
    case True
    note over = overflow_refused [OF wf True]
    have att: "rdq_attempt s1 = rdq_attempt s" if "outcomeUpdate lib k tok upd s = Inr s1" for upd s1
      using that by (auto simp: outcomeUpdate_def updateFenced_def split: sum.splits if_splits option.splits)
    have "\<exists>err. pg_Complete lib now s k tok att = (Some err, s)"
      unfolding pg_Complete_def using assms(2) over(1) att by (intro spend_refused) (auto simp: pg_unstorable_def)
    moreover have "\<exists>err. pg_DeadLetter lib now s k tok att = (Some err, s)"
    proof -
      let ?ty = "case Err att of None \<Rightarrow> None | Some d \<Rightarrow> emptyToNil (ErrType d)"
      have "rdq_attempt s1 = rdq_attempt s" if "deadLetterSQL lib now k tok ?ty s = Inr (n, s1)" for n s1
        using that by (auto simp: deadLetterSQL_def Let_def split: if_splits)
      then show ?thesis
        unfolding pg_DeadLetter_def
        using assms(2) over(2) [where upd = "\<lambda>r. r\<lparr>tAttemptCount := tAttemptCount r + 1\<rparr>" and ty = ?ty and now = now]
        by (intro spend_refused) (fastforce simp: pg_unstorable_def split: sum.splits prod.splits option.splits)+
    qed
    moreover have "\<exists>err. pg_Reschedule lib s k tok att t = (Some err, s)"
    proof -
      let ?upd = "\<lambda>r. r\<lparr>tStatus := StatusPending, tNextAttemptAt := Some (ts lib t), tLeaseExpiresAt := None,
        claim_token := None, tAttemptCount := tAttemptCount r + 1\<rparr>"
      show ?thesis
        unfolding pg_Reschedule_def using assms(2) over(1) [where upd = ?upd] att [of ?upd]
        by (intro spend_refused) (fastforce simp: pg_unstorable_def split: sum.splits)+
    qed
    ultimately show ?thesis by blast
  qed
  then show "\<exists>err. pg_Complete lib now s k tok att = (Some err, s)" "\<exists>err. pg_DeadLetter lib now s k tok att = (Some err, s)"
    "\<exists>err. pg_Reschedule lib s k tok att t = (Some err, s)" by blast+
qed

text \<open>C8: the worker on PostgreSQL settles a task as it does in memory, provided the database can store the
  attempt. If the claim is still held when the outcome is written and the attempt is storable (its texts and
  documents are legal, its number is above those recorded, the counter fits its column), the task and no other
  changes, to the status and due time the policy gives and with the attempt of the run appended as the database
  keeps it. If the database refuses the attempt, or the claim was lost meanwhile, the write changes nothing; in
  the former case the claim is still held and the task comes back when its lease runs out.\<close>

theorem pg_process_settles_task:
  assumes "s1 = write_state quote reg (postgres lib) sp c i s" "pg_inv lib s1"
    "(st, nextAt) = process_plan quote oob reg (postgres lib) sp c i s"
    "att = process_attempt quote reg (postgres lib) sp c i s"
    "s2 = fst (process quote oob w reg (postgres lib) sp c i s)"
  shows "(\<forall>e. pg_held s1 (ID (Task c)) (Token c) \<and> pg_task_at lib s1 (ID (Task c)) = Some e \<and>
        pg_fits lib s1 (ID (Task c)) att \<longrightarrow>
        only_changes (pg_task_at lib) (ID (Task c)) (settled st (map_option (ts lib) nextAt) (pg_kept lib att) e) s1 s2)
    \<and> (pg_held s1 (ID (Task c)) (Token c) \<and> pg_unstorable lib s1 (ID (Task c)) att \<longrightarrow>
        s2 = s1 \<and> pg_held s2 (ID (Task c)) (Token c))
    \<and> (\<not> pg_held s1 (ID (Task c)) (Token c) \<longrightarrow> s2 = s1)"
proof -
  have "s2 = s1" if "pg_unstorable lib s1 (ID (Task c)) att"
    unfolding assms(5) by (intro pg_refused [OF assms(1,4)])
      (use unstorable_refused [OF assms(2) that] in \<open>simp only: postgres_ops, metis snd_conv\<close>)+
  then show ?thesis
    using pg_process(1) [OF assms(1,2) _ _ assms(3,4)] pg_process(2) [OF assms(1,2)] assms(5) by blast
qed

definition pg_claim :: claimed where
  "pg_claim = \<lparr>Task = the (pg_task_at sample_lib pg_claimed ''a''), Token = ''u''\<rparr>"

definition pg_input :: "pg run_input" where
  "pg_input = \<lparr>startedAt = 6000, finishedAt = 8000, timedOut = False, ticks = [], meanwhile = (\<lambda>s. s),
     rnd = Fin 0, writeNow = 8000\<rparr>"

lemma pg_claim_value:
  "pg_task_at sample_lib pg_claimed ''a'' = Some ((sample_task ''a'')\<lparr>Status := StatusInFlight, LeaseExpiresAt := Some 15000\<rparr>)"
  by (simp add: pg_task_at_def row_of_def pg_claimed_value pg_pending_value leased_def sample_row_def loadAttempts_def
    empty_db_def envelopeFromRows_def task_row.defs nilToEmpty_def decodeStringMap_def decodeResidual_def
    sample_lib_def sample_task_def)

lemma pg_claim_facts:
  "Task pg_claim = (sample_task ''a'')\<lparr>Status := StatusInFlight, LeaseExpiresAt := Some 15000\<rparr>" "Token pg_claim = ''u''"
  by (simp_all add: pg_claim_def pg_claim_value)

lemma pg_sample_write:
  "write_state quote sample_reg (postgres sample_lib) sample_spec pg_claim pg_input pg_claimed = pg_claimed"
  "process_plan quote oob sample_reg (postgres sample_lib) sample_spec pg_claim pg_input pg_claimed = (StatusSucceeded, None)"
  "process_attempt quote sample_reg (postgres sample_lib) sample_spec pg_claim pg_input pg_claimed =
     \<lparr>AttemptNo = 1, StartedAt = 6000, FinishedAt = Some 8000, Outcome = OutcomeSuccess, Err = None, AResidual = []\<rparr>"
proof -
  have "chosen_handler quote sample_reg sample_spec (Task pg_claim) =
      Some \<lparr>Version = ''v1'', Handle = (\<lambda>ctxDone task. Returned None)\<rparr>"
    by (simp add: chosen_handler_def pg_claim_facts sample_task_def Resolve_def sample_spec_def Lookup_def sample_reg_def)
  then show "write_state quote sample_reg (postgres sample_lib) sample_spec pg_claim pg_input pg_claimed = pg_claimed"
    "process_plan quote oob sample_reg (postgres sample_lib) sample_spec pg_claim pg_input pg_claimed = (StatusSucceeded, None)"
    "process_attempt quote sample_reg (postgres sample_lib) sample_spec pg_claim pg_input pg_claimed =
       \<lparr>AttemptNo = 1, StartedAt = 6000, FinishedAt = Some 8000, Outcome = OutcomeSuccess, Err = None, AResidual = []\<rparr>"
    by (simp_all add: write_state_def process_plan_def runHandler_def pg_input_def sample_spec_def process_attempt_def
        run_attempt_def invokeHandler_def verdict_plan_def Let_def pg_claim_facts sample_task_def)
qed

theorem pg_process_settles_task_witness:
  "map_option Status (pg_task_at sample_lib (fst (process (\<lambda>s. s) (\<lambda>_. 0) sample_worker sample_reg (postgres sample_lib)
     sample_spec pg_claim pg_input pg_claimed)) ''a'') = Some StatusSucceeded"
proof -
  have inv: "pg_inv sample_lib pg_claimed" by (rule inv_run [OF sample_pg_run sample_pg_inv])
  have "pg_fits sample_lib pg_claimed ''a''
     \<lparr>AttemptNo = 1, StartedAt = 6000, FinishedAt = Some 8000, Outcome = OutcomeSuccess, Err = None, AResidual = []\<rparr>"
    by (simp add: pg_fits_def attemptRowFromAttempt_def bind_attempt_def Outcome_Valid_def pg_claimed_value
      pg_pending_value pg_eval leased_def sample_row_def)
  then have "only_changes (pg_task_at sample_lib) ''a'' (settled StatusSucceeded None
      (pg_kept sample_lib \<lparr>AttemptNo = 1, StartedAt = 6000, FinishedAt = Some 8000, Outcome = OutcomeSuccess, Err = None, AResidual = []\<rparr>)
      (Task pg_claim)) pg_claimed (fst (process (\<lambda>s. s) (\<lambda>_. 0) sample_worker sample_reg (postgres sample_lib)
        sample_spec pg_claim pg_input pg_claimed))"
    using pg_process_settles_task [where quote = "\<lambda>s. s" and oob = "\<lambda>_. 0" and w = sample_worker,
        OF pg_sample_write(1) [symmetric] inv pg_sample_write(2) [symmetric] refl refl]
      pg_claimed_held pg_claim_value
    by (simp add: pg_claim_facts pg_sample_write(3) sample_task_def)
  then show ?thesis by (simp add: only_changes_def settled_def)
qed

end
