(* ===== verification/Schema.thy ===== *)
theory Schema
  imports Go_Strconv Config_Units
begin

text \<open>
  The schema of the PostgreSQL backend (\<open>storage/postgres/schema.go\<close>): the embedded migration
  files, the runner that applies and rolls them back, each in a transaction of its own, and the two gates that keep an
  engine from a database of another version. The files and what the server does with a script are
  parameters; the scripts of \<open>migrations/\<close> are translated statement by statement.
\<close>

section \<open>Migration files\<close>

record migration =
  mVersion :: int
  mName :: string
  mUp :: string
  mDown :: string

record dir_entry =
  eName :: string
  eIsDir :: bool
  eBody :: string

definition TrimSuffix :: "string \<Rightarrow> string \<Rightarrow> string" where
  "TrimSuffix s suf = (if HasSuffix s suf then take (length s - length suf) s else s)"

text \<open>The text before and after the last occurrence of a character.\<close>

definition CutLast :: "string \<Rightarrow> char \<Rightarrow> (string \<times> string) option" where
  "CutLast s sep = map_option (\<lambda>(a, b). (rev b, rev a)) (Cut1 (rev s) sep)"

definition migration_error :: "string \<Rightarrow> string \<Rightarrow> string \<Rightarrow> string" where
  "migration_error pre s post = ''rdq/postgres: migration '' @ pre @ s @ post"

definition parseMigrationName :: "(string \<Rightarrow> string) \<Rightarrow> string \<Rightarrow> string + (int \<times> string \<times> string)" where
  "parseMigrationName quote filename =
     (case CutLast (TrimSuffix filename ''.sql'') CHR ''.'' of
        None \<Rightarrow> Inl (migration_error (quote filename) [] '' missing .up/.down suffix'')
      | Some (rest, direction) \<Rightarrow>
          if direction \<noteq> ''up'' \<and> direction \<noteq> ''down''
          then Inl (migration_error (quote filename) '' has unknown direction '' (quote direction))
          else (case Cut1 rest CHR ''_'' of
              None \<Rightarrow> Inl (migration_error (quote filename) [] '' missing NNNN_name prefix'')
            | Some (num, name) \<Rightarrow> (case ParseInt num of
                None \<Rightarrow> Inl (migration_error (quote filename) [] '' has non-numeric version'')
              | Some version \<Rightarrow> Inr (version, name, direction))))"

text \<open>\<open>%04d\<close>.\<close>

definition pad4 :: "int \<Rightarrow> string" where
  "pad4 v = (let ds = FormatUint (nat (abs v)); w = (if v < 0 then 3 else 4)
     in (if v < 0 then ''-'' else []) @ replicate (w - length ds) CHR ''0'' @ ds)"

fun lookupMigration :: "int \<Rightarrow> migration list \<Rightarrow> migration option" where
  "lookupMigration v [] = None"
| "lookupMigration v (m # ms) = (if mVersion m = v then Some m else lookupMigration v ms)"

fun putMigration :: "migration \<Rightarrow> migration list \<Rightarrow> migration list" where
  "putMigration x [] = [x]"
| "putMigration x (m # ms) = (if mVersion m = mVersion x then x # ms else m # putMigration x ms)"

fun collectMigrations :: "(string \<Rightarrow> string) \<Rightarrow> dir_entry list \<Rightarrow> migration list \<Rightarrow> string + migration list" where
  "collectMigrations quote [] byVersion = Inr byVersion"
| "collectMigrations quote (e # es) byVersion =
     (if eIsDir e \<or> \<not> HasSuffix (eName e) ''.sql'' then collectMigrations quote es byVersion
      else case parseMigrationName quote (eName e) of
        Inl err \<Rightarrow> Inl err
      | Inr (version, name, direction) \<Rightarrow>
          let m = (case lookupMigration version byVersion of
                None \<Rightarrow> \<lparr>mVersion = version, mName = name, mUp = [], mDown = []\<rparr> | Some m \<Rightarrow> m)
          in if mName m \<noteq> name
             then Inl (migration_error (pad4 version) '' has conflicting names '' (quote (mName m) @ '' and '' @ quote name))
             else collectMigrations quote es
               (putMigration (if direction = ''up'' then m\<lparr>mUp := eBody e\<rparr> else m\<lparr>mDown := eBody e\<rparr>) byVersion))"

fun checkScripts :: "migration list \<Rightarrow> string option" where
  "checkScripts [] = None"
| "checkScripts (m # ms) =
     (if TrimSpace (mUp m) = [] then Some (migration_error (pad4 (mVersion m)) ('' ('' @ mName m) '') is missing its up script'')
      else if TrimSpace (mDown m) = [] then Some (migration_error (pad4 (mVersion m)) ('' ('' @ mName m) '') is missing its down script'')
      else checkScripts ms)"

fun checkGaps :: "int \<Rightarrow> migration list \<Rightarrow> string option" where
  "checkGaps i [] = None"
| "checkGaps i (m # ms) =
     (if mVersion m \<noteq> i + 1
      then Some (''rdq/postgres: migration versions must be gap-free from 1; got '' @ FormatInt (mVersion m) @
             '' at position '' @ FormatInt (i + 1))
      else checkGaps (i + 1) ms)"

text \<open>\<open>iter\<close> is the order in which the runtime iterates over the map.\<close>

definition loadMigrations :: "(string \<Rightarrow> string) \<Rightarrow> (migration list \<Rightarrow> migration list) \<Rightarrow> dir_entry list \<Rightarrow> string + migration list" where
  "loadMigrations quote iter entries = (case collectMigrations quote entries [] of
      Inl err \<Rightarrow> Inl err
    | Inr byVersion \<Rightarrow> (case checkScripts (iter byVersion) of
        Some err \<Rightarrow> Inl err
      | None \<Rightarrow> (let migs = sort_key mVersion (iter byVersion) in
          case checkGaps 0 migs of Some err \<Rightarrow> Inl err | None \<Rightarrow> Inr migs)))"

section \<open>The database\<close>

text \<open>
  What the migrations change: the plain tables, the single-row table \<open>rdq_schema_version\<close> (its version, and the
  contract column that the fourth migration adds) and the runner's ledger.
\<close>

record gate_table =
  contract_column :: bool
  gate_row :: "(int \<times> int option) option"

record schema_db =
  ledger :: "(int \<times> string) list option"
  tables :: "string list"
  gate :: "gate_table option"

datatype schema_error = DuplicateTable | UndefinedTable | UndefinedColumn | DuplicateColumn | DuplicateKey | NullNotAllowed

datatype stmt =
    CreateTable string | DropTableIfExists string
  | CreateGate | DropGateIfExists | InsertVersion int | SetVersion int
  | AddContract | SetContract int int | ContractNotNull | DropContract

definition on_gate :: "(gate_table \<Rightarrow> schema_error + gate_table) \<Rightarrow> schema_db \<Rightarrow> schema_error + schema_db" where
  "on_gate f db = (case gate db of None \<Rightarrow> Inl UndefinedTable
     | Some g \<Rightarrow> (case f g of Inl e \<Rightarrow> Inl e | Inr g' \<Rightarrow> Inr (db\<lparr>gate := Some g'\<rparr>)))"

fun exec_stmt :: "stmt \<Rightarrow> schema_db \<Rightarrow> schema_error + schema_db" where
  "exec_stmt (CreateTable t) db =
     (if t \<in> set (tables db) then Inl DuplicateTable else Inr (db\<lparr>tables := tables db @ [t]\<rparr>))"
| "exec_stmt (DropTableIfExists t) db = Inr (db\<lparr>tables := removeAll t (tables db)\<rparr>)"
| "exec_stmt CreateGate db =
     (if gate db \<noteq> None then Inl DuplicateTable
      else Inr (db\<lparr>gate := Some \<lparr>contract_column = False, gate_row = None\<rparr>\<rparr>))"
| "exec_stmt DropGateIfExists db = Inr (db\<lparr>gate := None\<rparr>)"
| "exec_stmt (InsertVersion v) db = on_gate (\<lambda>g.
     if gate_row g \<noteq> None then Inl DuplicateKey else Inr (g\<lparr>gate_row := Some (v, None)\<rparr>)) db"
| "exec_stmt (SetVersion v) db = on_gate (\<lambda>g. Inr (g\<lparr>gate_row := map_option (\<lambda>(_, c). (v, c)) (gate_row g)\<rparr>)) db"
| "exec_stmt AddContract db = on_gate (\<lambda>g. if contract_column g then Inl DuplicateColumn
     else Inr (g\<lparr>contract_column := True, gate_row := map_option (\<lambda>(v, _). (v, None)) (gate_row g)\<rparr>)) db"
| "exec_stmt (SetContract c v) db = on_gate (\<lambda>g. if \<not> contract_column g then Inl UndefinedColumn
     else Inr (g\<lparr>gate_row := map_option (\<lambda>_. (v, Some c)) (gate_row g)\<rparr>)) db"
| "exec_stmt ContractNotNull db = on_gate (\<lambda>g. if \<not> contract_column g then Inl UndefinedColumn
     else case gate_row g of Some (v, None) \<Rightarrow> Inl NullNotAllowed | _ \<Rightarrow> Inr g) db"
| "exec_stmt DropContract db = on_gate (\<lambda>g. if \<not> contract_column g then Inl UndefinedColumn
     else Inr (g\<lparr>contract_column := False, gate_row := map_option (\<lambda>(v, _). (v, None)) (gate_row g)\<rparr>)) db"

fun exec_stmts :: "stmt list \<Rightarrow> schema_db \<Rightarrow> schema_error + schema_db" where
  "exec_stmts [] db = Inr db"
| "exec_stmts (s # ss) db = (case exec_stmt s db of Inl e \<Rightarrow> Inl e | Inr db' \<Rightarrow> exec_stmts ss db')"

text \<open>The files of \<open>storage/postgres/migrations\<close>.\<close>

definition init_up :: "stmt list" where
  "init_up = [CreateTable ''rdq_task'', CreateTable ''rdq_dlq_task'', CreateTable ''rdq_attempt'', CreateGate, InsertVersion 1]"

definition init_down :: "stmt list" where
  "init_down = [DropGateIfExists, DropTableIfExists ''rdq_attempt'', DropTableIfExists ''rdq_dlq_task'', DropTableIfExists ''rdq_task'']"

definition config_up :: "stmt list" where
  "config_up = [CreateTable ''rdq_queue_config'', SetVersion 2]"

definition config_down :: "stmt list" where
  "config_down = [DropTableIfExists ''rdq_queue_config'', SetVersion 1]"

definition audit_up :: "stmt list" where
  "audit_up = [CreateTable ''rdq_audit'', SetVersion 3]"

definition audit_down :: "stmt list" where
  "audit_down = [DropTableIfExists ''rdq_audit'', SetVersion 2]"

definition schema_contract_up :: "stmt list" where
  "schema_contract_up = [AddContract, SetContract 1 4, ContractNotNull]"

definition schema_contract_down :: "stmt list" where
  "schema_contract_down = [DropContract, SetVersion 3]"

definition scripts :: "(string \<times> stmt list) list" where
  "scripts = [(''0001_init.down.sql'', init_down), (''0001_init.up.sql'', init_up),
     (''0002_config.down.sql'', config_down), (''0002_config.up.sql'', config_up),
     (''0003_audit.down.sql'', audit_down), (''0003_audit.up.sql'', audit_up),
     (''0004_schema_contract.down.sql'', schema_contract_down), (''0004_schema_contract.up.sql'', schema_contract_up)]"

section \<open>The runner\<close>

record schema_lib =
  sl_quote :: "string \<Rightarrow> string"
  sl_range :: "migration list \<Rightarrow> migration list"
  sl_files :: "dir_entry list"
  sl_exec :: "string \<Rightarrow> schema_db \<Rightarrow> schema_error + schema_db"
  sl_message :: "schema_error \<Rightarrow> string"

definition ensureLedger :: "schema_db \<Rightarrow> schema_db" where
  "ensureLedger db = (if ledger db = None then db\<lparr>ledger := Some []\<rparr> else db)"

definition appliedVersions :: "schema_db \<Rightarrow> int list" where
  "appliedVersions db = (case ledger db of None \<Rightarrow> [] | Some l \<Rightarrow> map fst l)"

definition runInTx :: "(schema_db \<Rightarrow> schema_error + schema_db) \<Rightarrow> schema_db \<Rightarrow> schema_error option \<times> schema_db" where
  "runInTx fn db = (case fn db of Inl e \<Rightarrow> (Some e, db) | Inr db' \<Rightarrow> (None, db'))"

definition applyOne :: "schema_lib \<Rightarrow> migration \<Rightarrow> schema_db \<Rightarrow> schema_error + schema_db" where
  "applyOne lib m db = (case sl_exec lib (mUp m) db of Inl e \<Rightarrow> Inl e
     | Inr db' \<Rightarrow> (case ledger db' of None \<Rightarrow> Inl UndefinedTable
         | Some l \<Rightarrow> if mVersion m \<in> fst ` set l then Inl DuplicateKey
             else Inr (db'\<lparr>ledger := Some (l @ [(mVersion m, mName m)])\<rparr>)))"

definition rollBackOne :: "schema_lib \<Rightarrow> migration \<Rightarrow> schema_db \<Rightarrow> schema_error + schema_db" where
  "rollBackOne lib m db = (case sl_exec lib (mDown m) db of Inl e \<Rightarrow> Inl e
     | Inr db' \<Rightarrow> (case ledger db' of None \<Rightarrow> Inl UndefinedTable
         | Some l \<Rightarrow> Inr (db'\<lparr>ledger := Some (filter (\<lambda>(v, _). v \<noteq> mVersion m) l)\<rparr>)))"

definition step_error :: "schema_lib \<Rightarrow> string \<Rightarrow> migration \<Rightarrow> schema_error \<Rightarrow> string" where
  "step_error lib what m e = ''rdq/postgres: '' @ what @ '' migration '' @ pad4 (mVersion m) @ '' ('' @ mName m @ ''): '' @ sl_message lib e"

fun applyLoop :: "schema_lib \<Rightarrow> int list \<Rightarrow> migration list \<Rightarrow> schema_db \<Rightarrow> string option \<times> schema_db" where
  "applyLoop lib applied [] db = (None, db)"
| "applyLoop lib applied (m # ms) db =
     (if mVersion m \<in> set applied then applyLoop lib applied ms db
      else case runInTx (applyOne lib m) db of
        (Some e, db') \<Rightarrow> (Some (step_error lib ''applying'' m e), db')
      | (None, db') \<Rightarrow> applyLoop lib applied ms db')"

definition Migrate :: "schema_lib \<Rightarrow> schema_db \<Rightarrow> string option \<times> schema_db" where
  "Migrate lib db = (case loadMigrations (sl_quote lib) (sl_range lib) (sl_files lib) of
      Inl err \<Rightarrow> (Some err, db)
    | Inr migs \<Rightarrow> (let db1 = ensureLedger db in applyLoop lib (appliedVersions db1) migs db1))"

fun rollBackLoop :: "schema_lib \<Rightarrow> int list \<Rightarrow> int \<Rightarrow> migration list \<Rightarrow> schema_db \<Rightarrow> string option \<times> schema_db" where
  "rollBackLoop lib applied target [] db = (None, db)"
| "rollBackLoop lib applied target (m # ms) db =
     (if mVersion m \<notin> set applied \<or> mVersion m \<le> target then rollBackLoop lib applied target ms db
      else case runInTx (rollBackOne lib m) db of
        (Some e, db') \<Rightarrow> (Some (step_error lib ''rolling back'' m e), db')
      | (None, db') \<Rightarrow> rollBackLoop lib applied target ms db')"

definition MigrateDown :: "schema_lib \<Rightarrow> schema_db \<Rightarrow> int \<Rightarrow> string option \<times> schema_db" where
  "MigrateDown lib db target = (case loadMigrations (sl_quote lib) (sl_range lib) (sl_files lib) of
      Inl err \<Rightarrow> (Some err, db)
    | Inr migs \<Rightarrow> (let db1 = ensureLedger db in rollBackLoop lib (appliedVersions db1) target (rev migs) db1))"

section \<open>The gates\<close>

definition SchemaVersion :: int where "SchemaVersion = 4"
definition TaskContractVersion :: int where "TaskContractVersion = 1"

datatype gate_error = ErrSchemaNotInitialized | ErrSchemaVersionMismatch string | ErrScanNull

definition checkSchemaVersion :: "int \<Rightarrow> gate_error option" where
  "checkSchemaVersion dbVersion =
     (if dbVersion = SchemaVersion then None
      else if dbVersion > SchemaVersion then Some (ErrSchemaVersionMismatch
        (''database schema version '' @ FormatInt dbVersion @ '' is newer than this engine's '' @ FormatInt SchemaVersion @ ''; upgrade the engine''))
      else Some (ErrSchemaVersionMismatch
        (''database schema version '' @ FormatInt dbVersion @ '' is older than this engine's '' @ FormatInt SchemaVersion @ ''; run migrations'')))"

definition CheckSchemaVersion :: "schema_db \<Rightarrow> gate_error option" where
  "CheckSchemaVersion db = (case gate db of None \<Rightarrow> Some ErrSchemaNotInitialized
     | Some g \<Rightarrow> (case gate_row g of None \<Rightarrow> Some ErrSchemaNotInitialized
         | Some (version, _) \<Rightarrow> checkSchemaVersion version))"

definition checkTaskContract :: "int \<Rightarrow> gate_error option" where
  "checkTaskContract dbVersion =
     (if dbVersion = TaskContractVersion then None
      else if dbVersion > TaskContractVersion then Some (ErrSchemaVersionMismatch
        (''database task-contract version '' @ FormatInt dbVersion @ '' is newer than this worker's '' @ FormatInt TaskContractVersion @ ''; upgrade the worker''))
      else Some (ErrSchemaVersionMismatch
        (''database task-contract version '' @ FormatInt dbVersion @ '' is older than this worker's '' @ FormatInt TaskContractVersion @ ''; run migrations'')))"

text \<open>Scanning a null into an integer is an error of its own.\<close>

definition CheckTaskContract :: "schema_db \<Rightarrow> gate_error option" where
  "CheckTaskContract db = (case gate db of None \<Rightarrow> Some ErrSchemaNotInitialized
     | Some g \<Rightarrow>
         if \<not> contract_column g then Some ErrSchemaNotInitialized
         else (case gate_row g of None \<Rightarrow> Some ErrSchemaNotInitialized
           | Some (_, None) \<Rightarrow> Some ErrScanNull
           | Some (_, Some version) \<Rightarrow> checkTaskContract version))"

end
