(* ===== verification/Schema_Props.thy ===== *)
theory Schema_Props
  imports Schema "HOL-Library.Multiset"
begin

text \<open>
  The migration files load as four gap-free migrations, and the runner takes a database from any
  of their versions to any other, leaving it in exactly the shape that version has.
\<close>

section \<open>File names\<close>

lemma TrimSuffix_append [simp]: "TrimSuffix (s @ suf) suf = s"
  by (simp add: TrimSuffix_def HasSuffix_def)

lemma CutLast_append: "sep \<notin> set b \<Longrightarrow> CutLast (a @ sep # b) sep = Some (a, b)"
  using Cut1_append [of sep "rev b" "rev a"] by (simp add: CutLast_def)

lemma parse_name:
  assumes "ParseInt num = Some v" "CHR ''_'' \<notin> set num" "dir = ''up'' \<or> dir = ''down''"
  shows "parseMigrationName quote (num @ ''_'' @ name @ ''.'' @ dir @ ''.sql'') = Inr (v, name, dir)"
proof -
  have "TrimSuffix (num @ ''_'' @ name @ ''.'' @ dir @ ''.sql'') ''.sql'' = (num @ ''_'' @ name) @ CHR ''.'' # dir"
    using TrimSuffix_append [of "num @ ''_'' @ name @ ''.'' @ dir" "''.sql''"] by simp
  moreover have "CHR ''.'' \<notin> set dir" using assms(3) by auto
  ultimately show ?thesis
    using assms CutLast_append [of "CHR ''.''" dir "num @ ''_'' @ name"] Cut1_append [OF assms(2), of name]
    by (auto simp: parseMigrationName_def)
qed

section \<open>Loading\<close>

lemma checkScripts_None:
  "checkScripts ms = None \<longleftrightarrow> (\<forall>m \<in> set ms. TrimSpace (mUp m) \<noteq> [] \<and> TrimSpace (mDown m) \<noteq> [])"
  by (induction ms) auto

lemma checkGaps_None: "checkGaps i ms = None \<longleftrightarrow> map mVersion ms = map (\<lambda>j. i + 1 + int j) [0..<length ms]"
proof (induction ms arbitrary: i)
  case (Cons m ms)
  have "map (\<lambda>j. i + 1 + int j) [0..<Suc (length ms)] = (i + 1) # map (\<lambda>j. i + 1 + 1 + int j) [0..<length ms]"
    by (simp add: upt_conv_Cons map_Suc_upt [symmetric] comp_def del: upt_Suc)
  then show ?case using Cons.IH by auto
qed simp

lemma loadMigrations_gap_free:
  assumes "loadMigrations quote iter es = Inr migs"
  shows "map mVersion migs = map (\<lambda>j. 1 + int j) [0..<length migs] \<and>
    (\<forall>m \<in> set migs. TrimSpace (mUp m) \<noteq> [] \<and> TrimSpace (mDown m) \<noteq> [])"
proof -
  obtain by_version where b: "checkScripts (iter by_version) = None" "checkGaps 0 (sort_key mVersion (iter by_version)) = None"
    "migs = sort_key mVersion (iter by_version)"
    using assms by (auto simp: loadMigrations_def Let_def split: sum.splits option.splits)
  show ?thesis using b(1,2) unfolding b(3) [symmetric] checkScripts_None checkGaps_None by (auto simp: b(3))
qed

text \<open>What the repository embeds: the scripts, under their names.\<close>

definition embedded :: "schema_lib \<Rightarrow> bool" where
  "embedded lib \<longleftrightarrow> map eName (sl_files lib) = map fst scripts \<and>
     (\<forall>e \<in> set (sl_files lib). \<not> eIsDir e \<and> TrimSpace (eBody e) \<noteq> [] \<and>
        (\<forall>ss. map_of scripts (eName e) = Some ss \<longrightarrow> sl_exec lib (eBody e) = exec_stmts ss)) \<and>
     (\<forall>ms. mset (sl_range lib ms) = mset ms)"

definition is_migration :: "schema_lib \<Rightarrow> migration \<Rightarrow> int \<Rightarrow> stmt list \<Rightarrow> stmt list \<Rightarrow> bool" where
  "is_migration lib m v up down \<longleftrightarrow> mVersion m = v \<and> TrimSpace (mUp m) \<noteq> [] \<and> TrimSpace (mDown m) \<noteq> [] \<and>
     sl_exec lib (mUp m) = exec_stmts up \<and> sl_exec lib (mDown m) = exec_stmts down"

lemma parse_embedded:
  "parseMigrationName quote ''0001_init.down.sql'' = Inr (1, ''init'', ''down'')"
  "parseMigrationName quote ''0001_init.up.sql'' = Inr (1, ''init'', ''up'')"
  "parseMigrationName quote ''0002_config.down.sql'' = Inr (2, ''config'', ''down'')"
  "parseMigrationName quote ''0002_config.up.sql'' = Inr (2, ''config'', ''up'')"
  "parseMigrationName quote ''0003_audit.down.sql'' = Inr (3, ''audit'', ''down'')"
  "parseMigrationName quote ''0003_audit.up.sql'' = Inr (3, ''audit'', ''up'')"
  "parseMigrationName quote ''0004_schema_contract.down.sql'' = Inr (4, ''schema_contract'', ''down'')"
  "parseMigrationName quote ''0004_schema_contract.up.sql'' = Inr (4, ''schema_contract'', ''up'')"
proof -
  have n: "ParseInt ''0001'' = Some 1" "ParseInt ''0002'' = Some 2" "ParseInt ''0003'' = Some 3" "ParseInt ''0004'' = Some 4"
    by (simp_all add: ParseInt_def ParseUint_def digit_val_def)
  note p = parse_name [OF n(1), of "''down''" quote "''init''"] parse_name [OF n(1), of "''up''" quote "''init''"]
    parse_name [OF n(2), of "''down''" quote "''config''"] parse_name [OF n(2), of "''up''" quote "''config''"]
    parse_name [OF n(3), of "''down''" quote "''audit''"] parse_name [OF n(3), of "''up''" quote "''audit''"]
    parse_name [OF n(4), of "''down''" quote "''schema_contract''"] parse_name [OF n(4), of "''up''" quote "''schema_contract''"]
  show "parseMigrationName quote ''0001_init.down.sql'' = Inr (1, ''init'', ''down'')"
    "parseMigrationName quote ''0001_init.up.sql'' = Inr (1, ''init'', ''up'')"
    "parseMigrationName quote ''0002_config.down.sql'' = Inr (2, ''config'', ''down'')"
    "parseMigrationName quote ''0002_config.up.sql'' = Inr (2, ''config'', ''up'')"
    "parseMigrationName quote ''0003_audit.down.sql'' = Inr (3, ''audit'', ''down'')"
    "parseMigrationName quote ''0003_audit.up.sql'' = Inr (3, ''audit'', ''up'')"
    "parseMigrationName quote ''0004_schema_contract.down.sql'' = Inr (4, ''schema_contract'', ''down'')"
    "parseMigrationName quote ''0004_schema_contract.up.sql'' = Inr (4, ''schema_contract'', ''up'')"
    using p by simp_all
qed

lemma load_embedded:
  assumes "embedded lib"
  obtains m1 m2 m3 m4 where
    "loadMigrations (sl_quote lib) (sl_range lib) (sl_files lib) = Inr [m1, m2, m3, m4]"
    "is_migration lib m1 1 init_up init_down" "is_migration lib m2 2 config_up config_down"
    "is_migration lib m3 3 audit_up audit_down" "is_migration lib m4 4 schema_contract_up schema_contract_down"
proof -
  have names: "map eName (sl_files lib) = map fst scripts" using assms by (simp add: embedded_def)
  obtain d1 u1 d2 u2 d3 u3 d4 u4 where es: "sl_files lib = [d1, u1, d2, u2, d3, u3, d4, u4]"
    and nm: "eName d1 = ''0001_init.down.sql''" "eName u1 = ''0001_init.up.sql''" "eName d2 = ''0002_config.down.sql''"
      "eName u2 = ''0002_config.up.sql''" "eName d3 = ''0003_audit.down.sql''" "eName u3 = ''0003_audit.up.sql''"
      "eName d4 = ''0004_schema_contract.down.sql''" "eName u4 = ''0004_schema_contract.up.sql''"
    using names by (auto simp: scripts_def map_eq_Cons_conv)
  have e: "\<not> eIsDir x \<and> TrimSpace (eBody x) \<noteq> []"
    "map_of scripts (eName x) = Some ss \<Longrightarrow> sl_exec lib (eBody x) = exec_stmts ss"
    if "x \<in> set (sl_files lib)" for x ss
    using assms that by (auto simp: embedded_def)
  let ?m1 = "\<lparr>mVersion = 1, mName = ''init'', mUp = eBody u1, mDown = eBody d1\<rparr>"
  let ?m2 = "\<lparr>mVersion = 2, mName = ''config'', mUp = eBody u2, mDown = eBody d2\<rparr>"
  let ?m3 = "\<lparr>mVersion = 3, mName = ''audit'', mUp = eBody u3, mDown = eBody d3\<rparr>"
  let ?m4 = "\<lparr>mVersion = 4, mName = ''schema_contract'', mUp = eBody u4, mDown = eBody d4\<rparr>"
  let ?ms = "[?m1, ?m2, ?m3, ?m4]"
  have col: "collectMigrations (sl_quote lib) (sl_files lib) [] = Inr ?ms"
    using e(1) by (simp add: es nm parse_embedded HasSuffix_def)
  have perm: "mset (sl_range lib ?ms) = mset ?ms" using assms by (simp add: embedded_def)
  then have set: "set (sl_range lib ?ms) = set ?ms" by (rule mset_eq_setD)
  have chk: "checkScripts (sl_range lib ?ms) = None"
    unfolding checkScripts_None set using e(1) by (simp add: es)
  have "sort_key mVersion (sl_range lib ?ms) = ?ms"
    by (rule sort_key_inj_key_eq [OF perm]) (simp_all add: set)
  then have "loadMigrations (sl_quote lib) (sl_range lib) (sl_files lib) = Inr ?ms"
    using col chk by (simp add: loadMigrations_def)
  moreover have "is_migration lib ?m1 1 init_up init_down" "is_migration lib ?m2 2 config_up config_down"
    "is_migration lib ?m3 3 audit_up audit_down" "is_migration lib ?m4 4 schema_contract_up schema_contract_down"
    using e by (simp_all add: is_migration_def es nm scripts_def)
  ultimately show thesis by (rule that)
qed

section \<open>The runner\<close>

text \<open>A database at version \<open>k\<close>: the tables of the first \<open>k\<close> migrations and no others of theirs, the version row, the ledger.\<close>

definition added_tables :: "nat \<Rightarrow> string list" where
  "added_tables k = concat (take k [[''rdq_task'', ''rdq_dlq_task'', ''rdq_attempt''], [''rdq_queue_config''], [''rdq_audit''], []])"

definition shape_at :: "nat \<Rightarrow> schema_db \<Rightarrow> bool" where
  "shape_at k db \<longleftrightarrow>
     (\<forall>t \<in> set (added_tables 4). t \<in> set (tables db) \<longleftrightarrow> t \<in> set (added_tables k)) \<and>
     gate db = (if k = 0 then None else Some \<lparr>contract_column = 4 \<le> k, gate_row = Some (int k, if 4 \<le> k then Some 1 else None)\<rparr>)"

definition schema_at :: "nat \<Rightarrow> schema_db \<Rightarrow> bool" where
  "schema_at k db \<longleftrightarrow> shape_at k db \<and> (ledger db = None \<longrightarrow> k = 0) \<and> set (appliedVersions db) = int ` {1..k}"

lemmas shape_defs = shape_at_def added_tables_def on_gate_def init_up_def config_up_def audit_up_def schema_contract_up_def
  init_down_def config_down_def audit_down_def schema_contract_down_def numeral_eq_Suc

text \<open>The scripts of migration \<open>k + 1\<close>.\<close>

definition up_script :: "nat \<Rightarrow> stmt list" where
  "up_script k = [init_up, config_up, audit_up, schema_contract_up] ! k"

definition down_script :: "nat \<Rightarrow> stmt list" where
  "down_script k = [init_down, config_down, audit_down, schema_contract_down] ! k"

lemma less_4_cases: "k < 4 \<Longrightarrow> k = 0 \<or> k = 1 \<or> k = 2 \<or> k = (3 :: nat)"
  by auto

lemma up_shape:
  assumes "shape_at k db" "k < 4"
  shows "\<exists>db'. exec_stmts (up_script k) db = Inr db' \<and> shape_at (Suc k) db' \<and> ledger db' = ledger db"
  using assms(1) less_4_cases [OF assms(2)] by (elim disjE) (auto simp: shape_defs up_script_def)

lemma down_shape:
  assumes "shape_at (Suc k) db" "k < 4"
  shows "\<exists>db'. exec_stmts (down_script k) db = Inr db' \<and> shape_at k db' \<and> ledger db' = ledger db"
  using assms(1) less_4_cases [OF assms(2)] by (elim disjE) (auto simp: shape_defs down_script_def)

lemma shape_ledger [simp]: "shape_at k (db\<lparr>ledger := l\<rparr>) = shape_at k db"
  by (simp add: shape_at_def)

lemma apply_step:
  assumes "schema_at k db" "k < 4" "ledger db \<noteq> None" "is_migration lib m (int k + 1) (up_script k) (down_script k)"
  shows "\<exists>db'. runInTx (applyOne lib m) db = (None, db') \<and> schema_at (Suc k) db' \<and> ledger db' \<noteq> None"
proof -
  obtain db' where d: "exec_stmts (up_script k) db = Inr db'" "shape_at (Suc k) db'" "ledger db' = ledger db"
    using up_shape [OF _ assms(2)] assms(1) unfolding schema_at_def by blast
  obtain l where l: "ledger db = Some l" "fst ` set l = int ` {1..k}"
    using assms(1,3) by (auto simp: schema_at_def appliedVersions_def)
  have "int k + 1 \<notin> fst ` set l" unfolding l(2) by auto
  moreover have "insert (int k + 1) (int ` {1..k}) = int ` {1..Suc k}" by (auto simp: atLeastAtMostSuc_conv)
  ultimately show ?thesis
    using d l assms(4) by (simp add: runInTx_def applyOne_def is_migration_def schema_at_def appliedVersions_def)
qed

lemma rollback_step:
  assumes "schema_at (Suc k) db" "k < 4" "is_migration lib m (int k + 1) (up_script k) (down_script k)"
  shows "\<exists>db'. runInTx (rollBackOne lib m) db = (None, db') \<and> schema_at k db' \<and> ledger db' \<noteq> None"
proof -
  obtain db' where d: "exec_stmts (down_script k) db = Inr db'" "shape_at k db'" "ledger db' = ledger db"
    using down_shape [OF _ assms(2)] assms(1) unfolding schema_at_def by blast
  obtain l where l: "ledger db = Some l" "fst ` set l = int ` {1..Suc k}"
    using assms(1) by (auto simp: schema_at_def appliedVersions_def split: option.splits)
  have "fst ` {x \<in> set l. fst x \<noteq> int k + 1} = fst ` set l - {int k + 1}" by auto
  also have "\<dots> = int ` {1..k}" unfolding l(2) by (auto simp: atLeastAtMostSuc_conv)
  finally show ?thesis
    using d l assms(3) by (simp add: runInTx_def rollBackOne_def is_migration_def schema_at_def appliedVersions_def split_beta)
qed

definition migrations_of :: "schema_lib \<Rightarrow> migration list \<Rightarrow> bool" where
  "migrations_of lib migs \<longleftrightarrow> length migs = 4 \<and>
     (\<forall>k < 4. is_migration lib (migs ! k) (int k + 1) (up_script k) (down_script k))"

lemma load_migrations_of:
  assumes "embedded lib"
  obtains migs where "loadMigrations (sl_quote lib) (sl_range lib) (sl_files lib) = Inr migs" "migrations_of lib migs"
proof (rule load_embedded [OF assms])
  fix m1 m2 m3 m4
  assume l: "loadMigrations (sl_quote lib) (sl_range lib) (sl_files lib) = Inr [m1, m2, m3, m4]"
    and m: "is_migration lib m1 1 init_up init_down" "is_migration lib m2 2 config_up config_down"
      "is_migration lib m3 3 audit_up audit_down" "is_migration lib m4 4 schema_contract_up schema_contract_down"
  have "is_migration lib ([m1, m2, m3, m4] ! k) (int k + 1) (up_script k) (down_script k)" if "k < 4" for k
    using less_4_cases [OF that] m by (elim disjE) (simp_all add: up_script_def down_script_def)
  then show thesis using that [OF l] by (simp add: migrations_of_def)
qed

lemma migration_version: "migrations_of lib migs \<Longrightarrow> k < 4 \<Longrightarrow> mVersion (migs ! k) = int k + 1"
  by (simp add: migrations_of_def is_migration_def)

lemma applyLoop_reaches:
  assumes "migrations_of lib migs" "j \<le> 4" "set applied = int ` {1..k}" "schema_at (max j k) db" "k \<le> 4" "ledger db \<noteq> None"
  shows "\<exists>db'. applyLoop lib applied (drop j migs) db = (None, db') \<and> schema_at 4 db' \<and> (k = 4 \<longrightarrow> db' = db)"
  using assms(2,4,6)
proof (induction j arbitrary: db rule: inc_induct)
  case base
  then show ?case using assms(1,5) by (simp add: migrations_of_def max.absorb1)
next
  case (step n)
  have d: "drop n migs = migs ! n # drop (Suc n) migs"
    using assms(1) step.hyps by (metis Cons_nth_drop_Suc migrations_of_def)
  note v = migration_version [OF assms(1) step.hyps(2)]
  show ?case
  proof (cases "n < k")
    case True
    then have "mVersion (migs ! n) \<in> set applied" unfolding assms(3) v by (intro image_eqI [of _ _ "Suc n"]) auto
    moreover have "max (Suc n) k = max n k" using True by simp
    ultimately show ?thesis using step.IH [of db] step.prems by (simp add: d)
  next
    case False
    then have m: "max n k = n" "max (Suc n) k = Suc n" by auto
    have na: "mVersion (migs ! n) \<notin> set applied" unfolding assms(3) v using False by auto
    obtain db' where db': "runInTx (applyOne lib (migs ! n)) db = (None, db')" "schema_at (Suc n) db'" "ledger db' \<noteq> None"
      using apply_step [of n db lib "migs ! n"] step.prems step.hyps m(1) assms(1) unfolding migrations_of_def by metis
    show ?thesis using step.IH [of db'] db' na False step.hyps m by (auto simp: d)
  qed
qed

lemma rollBackLoop_reaches:
  assumes "migrations_of lib migs" "j \<le> 4" "set applied = int ` {1..k}" "k \<le> 4" "schema_at (if k \<le> j then k else max j (min k (nat t))) db" 
    "ledger db \<noteq> None"
  shows "\<exists>db'. rollBackLoop lib applied t (rev (take j migs)) db = (None, db') \<and> schema_at (min k (nat t)) db'"
  using assms(2,5,6)
proof (induction j arbitrary: db)
  case 0
  then show ?case by (auto split: if_splits)
next
  case (Suc n)
  have "take (Suc n) migs = take n migs @ [migs ! n]"
    using Suc.prems(1) assms(1) by (intro take_Suc_conv_app_nth) (simp add: migrations_of_def)
  then have d: "rev (take (Suc n) migs) = migs ! n # rev (take n migs)" by simp
  note v = migration_version [OF assms(1), of n]
  show ?case
  proof (cases "n < k \<and> nat t \<le> n")
    case True
    then have in_a: "mVersion (migs ! n) \<in> set applied" "\<not> mVersion (migs ! n) \<le> t"
      using v Suc.prems(1) unfolding assms(3) by (auto intro!: image_eqI [of _ _ "Suc n"])
    have "(if k \<le> Suc n then k else max (Suc n) (min k (nat t))) = Suc n" using True by (auto simp: max_def min_def)
    then have "schema_at (Suc n) db" using Suc.prems(2) by metis
    then obtain db' where db': "runInTx (rollBackOne lib (migs ! n)) db = (None, db')" "schema_at n db'" "ledger db' \<noteq> None"
      using rollback_step [of n db lib "migs ! n"] Suc.prems assms(1) unfolding migrations_of_def by (metis Suc_le_lessD)
    have "schema_at (if k \<le> n then k else max n (min k (nat t))) db'" using db'(2) True by (auto simp: max_def min_def)
    then show ?thesis using Suc.IH [of db'] db' in_a Suc.prems(1) by (simp add: d)
  next
    case False
    then have "mVersion (migs ! n) \<notin> set applied \<or> mVersion (migs ! n) \<le> t"
      using v Suc.prems(1) unfolding assms(3) by auto
    moreover have "(if k \<le> n then k else max n (min k (nat t))) = (if k \<le> Suc n then k else max (Suc n) (min k (nat t)))"
      using False by (auto simp: max_def min_def)
    ultimately show ?thesis using Suc.IH [of db] Suc.prems by (auto simp: d)
  qed
qed

lemma ensureLedger_at: "schema_at k db \<Longrightarrow> schema_at k (ensureLedger db) \<and> ledger (ensureLedger db) \<noteq> None"
  by (auto simp: schema_at_def ensureLedger_def appliedVersions_def shape_at_def)

lemma at_version_gates:
  assumes "schema_at k db" "k \<le> 4"
  shows "CheckSchemaVersion db = None \<longleftrightarrow> k = 4" "CheckTaskContract db = None \<longleftrightarrow> k = 4"
  using assms by (auto simp: schema_at_def shape_at_def CheckSchemaVersion_def CheckTaskContract_def checkSchemaVersion_def
    checkTaskContract_def SchemaVersion_def TaskContractVersion_def)

text \<open>C38: the migration runner takes a database from any version of the schema to any other. From
  version \<open>k\<close>, \<open>Migrate\<close> succeeds and leaves version four, the only one that both gates admit, and a second run
  changes nothing; \<open>MigrateDown\<close> succeeds and leaves the lower of \<open>k\<close> and its target, with
  exactly the tables, version row and ledger of that version.\<close>

theorem migrations_reach_versions:
  assumes "embedded lib" "schema_at k db" "k \<le> 4"
  shows "(\<exists>db'. Migrate lib db = (None, db') \<and> schema_at 4 db' \<and> Migrate lib db' = (None, db')) \<and>
    (\<exists>db'. MigrateDown lib db t = (None, db') \<and> schema_at (min k (nat t)) db') \<and>
    (CheckSchemaVersion db = None \<longleftrightarrow> k = 4) \<and> (CheckTaskContract db = None \<longleftrightarrow> k = 4)"
proof -
  obtain migs where l: "loadMigrations (sl_quote lib) (sl_range lib) (sl_files lib) = Inr migs" and ms: "migrations_of lib migs"
    by (rule load_migrations_of [OF assms(1)])
  have up: "\<exists>db'. Migrate lib d = (None, db') \<and> schema_at 4 db' \<and> (j = 4 \<longrightarrow> db' = ensureLedger d)"
    if "schema_at j d" "j \<le> 4" for j d
  proof -
    have e: "schema_at j (ensureLedger d)" "ledger (ensureLedger d) \<noteq> None" using ensureLedger_at [OF that(1)] by auto
    then have "set (appliedVersions (ensureLedger d)) = int ` {1..j}" by (simp add: schema_at_def)
    from applyLoop_reaches [OF ms _ this _ that(2) e(2), of 0] show ?thesis using e(1) l by (simp add: Migrate_def Let_def)
  qed
  obtain db' where db': "Migrate lib db = (None, db')" "schema_at 4 db'" using up [OF assms(2,3)] by blast
  have "ensureLedger db' = db'" using db'(2) by (auto simp: ensureLedger_def schema_at_def)
  then have "Migrate lib db' = (None, db')" using up [OF db'(2)] by auto
  moreover have "\<exists>d. MigrateDown lib db t = (None, d) \<and> schema_at (min k (nat t)) d"
  proof -
    have e: "schema_at k (ensureLedger db)" "ledger (ensureLedger db) \<noteq> None" using ensureLedger_at [OF assms(2)] by auto
    then have "set (appliedVersions (ensureLedger db)) = int ` {1..k}" by (simp add: schema_at_def)
    from rollBackLoop_reaches [OF ms order_refl this assms(3) _ e(2)] show ?thesis
      using e(1) l ms assms(3) by (simp add: MigrateDown_def migrations_of_def Let_def)
  qed
  ultimately show ?thesis using db' at_version_gates [OF assms(2,3)] by blast
qed

definition sample_schema :: schema_lib where
  "sample_schema = \<lparr>sl_quote = (\<lambda>s. s), sl_range = rev,
     sl_files = map (\<lambda>(n, _). \<lparr>eName = n, eIsDir = False, eBody = n\<rparr>) scripts,
     sl_exec = (\<lambda>b db. case map_of scripts b of None \<Rightarrow> Inl UndefinedTable | Some ss \<Rightarrow> exec_stmts ss db),
     sl_message = (\<lambda>_. ''ERROR'')\<rparr>"

definition empty_schema :: schema_db where
  "empty_schema = \<lparr>ledger = None, tables = [''app_users''], gate = None\<rparr>"

lemma sample_embedded: "embedded sample_schema"
proof -
  have "TrimSpace n = n" if "n \<in> fst ` set scripts" for n
    using that by (intro TrimSpace_ascii) (auto simp: scripts_def)
  then show ?thesis
    unfolding embedded_def sample_schema_def by (auto simp: scripts_def split_beta comp_def)
qed

theorem migrations_reach_versions_witness:
  "\<exists>db'. Migrate sample_schema empty_schema = (None, db') \<and> schema_at 4 db'"
proof -
  have "schema_at 0 empty_schema"
    by (simp add: schema_at_def shape_at_def empty_schema_def appliedVersions_def added_tables_def)
  then show ?thesis using migrations_reach_versions [OF sample_embedded, of 0 empty_schema 0] by auto
qed

end
