(* ===== verification/Go_Json.thy ===== *)
theory Go_Json
  imports Rdq_Prelude Go_Strconv Go_Base64
begin

text \<open>
  What the sources use of Go's \<open>encoding/json\<close> on byte strings: the grammar its scanner accepts, the text of
  a string literal and its value, and the removal of white space. A document is read into a syntax tree that keeps number and
  string literals as written, and for every member of an object also the text of its value.
\<close>

section \<open>UTF-8\<close>

definition byte_in :: "nat \<Rightarrow> nat \<Rightarrow> char \<Rightarrow> bool" where
  "byte_in a b c \<longleftrightarrow> a \<le> (of_char c :: nat) \<and> (of_char c :: nat) \<le> b"

abbreviation cont_byte :: "char \<Rightarrow> bool" where "cont_byte \<equiv> byte_in 0x80 0xBF"

text \<open>The width of the rune a text starts with, as \<open>utf8.DecodeRune\<close> reads it, and zero where it reports an
  encoding error.\<close>

fun rune_size :: "string \<Rightarrow> nat" where
  "rune_size [] = 0"
| "rune_size (c # s) =
     (if byte_in 0 0x7F c then 1
      else (case s of
        [] \<Rightarrow> 0
      | d # s1 \<Rightarrow>
          if byte_in 0xC2 0xDF c then if cont_byte d then 2 else 0
          else (case s1 of
            [] \<Rightarrow> 0
          | e # s2 \<Rightarrow>
              if byte_in 0xE0 0xEF c then
                if cont_byte e \<and> (if c = CHR 0xE0 then byte_in 0xA0 0xBF d else if c = CHR 0xED then byte_in 0x80 0x9F d else cont_byte d)
                then 3 else 0
              else (case s2 of
                [] \<Rightarrow> 0
              | f # s3 \<Rightarrow>
                  if byte_in 0xF0 0xF4 c \<and> cont_byte e \<and> cont_byte f \<and>
                     (if c = CHR 0xF0 then byte_in 0x90 0xBF d else if c = CHR 0xF4 then byte_in 0x80 0x8F d else cont_byte d)
                  then 4 else 0))))"

text \<open>Text without encoding errors (\<open>utf8.ValidString\<close>).\<close>

function valid_utf8 :: "string \<Rightarrow> bool" where
  "valid_utf8 [] = True"
| "valid_utf8 (c # s) = (case rune_size (c # s) of 0 \<Rightarrow> False | Suc k \<Rightarrow> valid_utf8 (drop k s))"
  by pat_completeness auto

termination
  by (relation "measure length") auto

definition replacement :: string where "replacement = [CHR 0xEF, CHR 0xBF, CHR 0xBD]"

text \<open>\<open>utf8.EncodeRune\<close> for a code point that is not a surrogate.\<close>

definition encode_rune :: "nat \<Rightarrow> string" where
  "encode_rune r =
     (if r < 0x80 then [char_of r]
      else if r < 0x800 then [char_of (0xC0 + r div 64), char_of (0x80 + r mod 64)]
      else if r < 0x10000 then [char_of (0xE0 + r div 4096), char_of (0x80 + r div 64 mod 64), char_of (0x80 + r mod 64)]
      else [char_of (0xF0 + r div 262144), char_of (0x80 + r div 4096 mod 64), char_of (0x80 + r div 64 mod 64), char_of (0x80 + r mod 64)])"

section \<open>String literals\<close>

definition hex_digit :: "nat \<Rightarrow> char" where
  "hex_digit n = ''0123456789abcdef'' ! n"

definition json_hex :: "char \<Rightarrow> nat option" where
  "json_hex c = (let n = (of_char c :: nat) in
     if 48 \<le> n \<and> n \<le> 57 then Some (n - 48) else if 97 \<le> n \<and> n \<le> 102 then Some (n - 87)
     else if 65 \<le> n \<and> n \<le> 70 then Some (n - 55) else None)"

definition is_hex :: "char \<Rightarrow> bool" where "is_hex c \<longleftrightarrow> json_hex c \<noteq> None"

text \<open>What the encoder writes for an ASCII character, without the escaping of HTML.\<close>

definition escape_ascii :: "char \<Rightarrow> string" where
  "escape_ascii c =
     (if c = CHR 0x5C \<or> c = CHR 0x22 then [CHR 0x5C, c]
      else if c = CHR 0x08 then [CHR 0x5C, CHR ''b''] else if c = CHR 0x0C then [CHR 0x5C, CHR ''f'']
      else if c = CHR 0x0A then [CHR 0x5C, CHR ''n''] else if c = CHR 0x0D then [CHR 0x5C, CHR ''r'']
      else if c = CHR 0x09 then [CHR 0x5C, CHR ''t'']
      else if byte_in 0 0x1F c then CHR 0x5C # ''u00'' @ [hex_digit (of_char c div 16), hex_digit (of_char c mod 16)]
      else [c])"

text \<open>What it writes for a rune of several bytes: the two line separators are escaped.\<close>

definition escape_rune :: "string \<Rightarrow> string" where
  "escape_rune r =
     (if r = [CHR 0xE2, CHR 0x80, CHR 0xA8] then CHR 0x5C # ''u2028''
      else if r = [CHR 0xE2, CHR 0x80, CHR 0xA9] then CHR 0x5C # ''u2029'' else r)"

function json_body :: "string \<Rightarrow> string" where
  "json_body [] = []"
| "json_body (c # s) =
     (if byte_in 0 0x7F c then escape_ascii c @ json_body s
      else case rune_size (c # s) of
        0 \<Rightarrow> CHR 0x5C # ''ufffd'' @ json_body s
      | Suc k \<Rightarrow> escape_rune (c # take k s) @ json_body (drop k s))"
  by pat_completeness auto

termination
  by (relation "measure length") auto

definition json_quote :: "string \<Rightarrow> string" where
  "json_quote s = CHR 0x22 # json_body s @ [CHR 0x22]"

definition hex4 :: "string \<Rightarrow> nat option" where
  "hex4 s = (case s of a # b # c # d # _ \<Rightarrow>
       (case (json_hex a, json_hex b, json_hex c, json_hex d) of
          (Some w, Some x, Some y, Some z) \<Rightarrow> Some (((w * 16 + x) * 16 + y) * 16 + z) | _ \<Rightarrow> None)
     | _ \<Rightarrow> None)"

text \<open>The code unit that an escape at the start of a text denotes.\<close>

definition getu4 :: "string \<Rightarrow> nat option" where
  "getu4 s = (case s of a # b # t \<Rightarrow> if a = CHR 0x5C \<and> b = CHR ''u'' then hex4 t else None | _ \<Rightarrow> None)"

definition unescape_char :: "char \<Rightarrow> char" where
  "unescape_char e =
     (if e = CHR ''b'' then CHR 0x08 else if e = CHR ''f'' then CHR 0x0C else if e = CHR ''n'' then CHR 0x0A
      else if e = CHR ''r'' then CHR 0x0D else if e = CHR ''t'' then CHR 0x09 else e)"

text \<open>The value of a literal the scanner has accepted, from the text between its quotes.\<close>

function unquote :: "string \<Rightarrow> string" where
  "unquote [] = []"
| "unquote (c # s) =
     (if c = CHR 0x5C then
        (case getu4 (c # s) of
           Some r \<Rightarrow>
             if 0xD800 \<le> r \<and> r < 0xE000 then
               (case getu4 (drop 5 s) of
                  Some r1 \<Rightarrow>
                    if r < 0xDC00 \<and> 0xDC00 \<le> r1 \<and> r1 < 0xE000
                    then encode_rune ((r - 0xD800) * 0x400 + (r1 - 0xDC00) + 0x10000) @ unquote (drop 11 s)
                    else replacement @ unquote (drop 5 s)
                | None \<Rightarrow> replacement @ unquote (drop 5 s))
             else encode_rune r @ unquote (drop 5 s)
         | None \<Rightarrow> (case s of [] \<Rightarrow> [] | e # s1 \<Rightarrow> unescape_char e # unquote s1))
      else case rune_size (c # s) of
        0 \<Rightarrow> replacement @ unquote s
      | Suc k \<Rightarrow> c # take k s @ unquote (drop k s))"
  by pat_completeness auto

termination
  by (relation "measure length") auto

declare valid_utf8.simps [simp del] json_body.simps [simp del] unquote.simps [simp del] rune_size.simps [simp del]

section \<open>The scanner\<close>

definition json_ws :: "char \<Rightarrow> bool" where
  "json_ws c \<longleftrightarrow> c = CHR '' '' \<or> c = CHR 0x09 \<or> c = CHR 0x0D \<or> c = CHR 0x0A"

abbreviation skip_ws :: "string \<Rightarrow> string" where "skip_ws \<equiv> dropWhile json_ws"

definition is_digit :: "char \<Rightarrow> bool" where "is_digit c \<longleftrightarrow> digit_val c \<noteq> None"

text \<open>One digit or more.\<close>

definition scan_digits :: "string \<Rightarrow> (string \<times> string) option" where
  "scan_digits s = (let ds = takeWhile is_digit s in if ds = [] then None else Some (ds, dropWhile is_digit s))"

definition scan_int :: "string \<Rightarrow> (string \<times> string) option" where
  "scan_int s = (case s of [] \<Rightarrow> None | c # t \<Rightarrow> if c = CHR ''0'' then Some ([c], t) else scan_digits s)"

definition scan_frac :: "string \<Rightarrow> (string \<times> string) option" where
  "scan_frac s = (case s of c # t \<Rightarrow>
       if c = CHR ''.'' then map_option (\<lambda>(ds, u). (c # ds, u)) (scan_digits t) else Some ([], s)
     | [] \<Rightarrow> Some ([], []))"

definition scan_exp :: "string \<Rightarrow> (string \<times> string) option" where
  "scan_exp s = (case s of
       [] \<Rightarrow> Some ([], [])
     | c # t \<Rightarrow>
         if c = CHR ''e'' \<or> c = CHR ''E'' then
           (case t of [] \<Rightarrow> None
            | d # u \<Rightarrow> if d = CHR ''+'' \<or> d = CHR ''-'' then map_option (\<lambda>(ds, v). (c # d # ds, v)) (scan_digits u)
                else map_option (\<lambda>(ds, v). (c # ds, v)) (scan_digits t))
         else Some ([], s))"

text \<open>A number literal and what follows it.\<close>

definition scan_number :: "string \<Rightarrow> (string \<times> string) option" where
  "scan_number s =
     (let (sign, s1) = (case s of c # t \<Rightarrow> if c = CHR ''-'' then ([c], t) else ([], s) | [] \<Rightarrow> ([], [])) in
      case scan_int s1 of None \<Rightarrow> None
      | Some (ip, s2) \<Rightarrow> (case scan_frac s2 of None \<Rightarrow> None
        | Some (fp, s3) \<Rightarrow> (case scan_exp s3 of None \<Rightarrow> None
          | Some (ep, s4) \<Rightarrow> Some (sign @ ip @ fp @ ep, s4))))"

text \<open>A string literal after its opening quote: the text before the closing one and what follows.\<close>

fun scan_string :: "string \<Rightarrow> (string \<times> string) option" where
  "scan_string [] = None"
| "scan_string (c # s) =
     (if c = CHR 0x22 then Some ([], s)
      else if c = CHR 0x5C then
        (case s of
           [] \<Rightarrow> None
         | e # s1 \<Rightarrow>
             if e \<in> set ''bfnrt/'' \<or> e = CHR 0x5C \<or> e = CHR 0x22
             then map_option (\<lambda>(b, t). (c # e # b, t)) (scan_string s1)
             else if e = CHR ''u'' then
               (if 4 \<le> length s1 \<and> list_all is_hex (take 4 s1)
                then map_option (\<lambda>(b, t). (c # e # take 4 s1 @ b, t)) (scan_string (drop 4 s1)) else None)
             else None)
      else if byte_in 0 0x1F c then None
      else map_option (\<lambda>(b, t). (c # b, t)) (scan_string s))"

declare scan_string.simps [simp del]

lemma scan_string_split: "scan_string s = Some (b, t) \<Longrightarrow> s = b @ CHR 0x22 # t"
proof (induction s arbitrary: b t rule: scan_string.induct)
  case (2 c s)
  show ?case
  proof (cases "c = CHR 0x5C \<and> (\<exists>s1. s = CHR ''u'' # s1)")
    case True
    then obtain s1 where s1: "c = CHR 0x5C" "s = CHR ''u'' # s1" by blast
    then obtain b' where b': "scan_string (drop 4 s1) = Some (b', t)" "b = c # CHR ''u'' # take 4 s1 @ b'" "4 \<le> length s1" "list_all is_hex (take 4 s1)"
      using "2.prems" by (auto simp: scan_string.simps(2) [of "CHR 0x5C" "CHR ''u'' # s1"] split: if_splits)
    have "drop 4 s1 = b' @ CHR 0x22 # t" using "2.IH"(2) [of "CHR ''u''" s1 b' t] s1 b' by simp
    then have "s1 = take 4 s1 @ b' @ CHR 0x22 # t" by (metis append_take_drop_id)
    then show ?thesis using s1 b'(2) by simp
  next
    case False
    then show ?thesis using 2 by (auto simp: scan_string.simps(2) [of c s] split: if_splits list.splits)
  qed
qed (simp add: scan_string.simps)

datatype json =
    JNull
  | JBool bool
  | JNum string
  | JStr string
  | JArr "json list"
  | JObj "(string \<times> bytes \<times> json) list"

lemma length_skip_ws: "length (skip_ws s) \<le> length s"
  by (rule length_dropWhile_le)

lemma skip_ws_Cons_length: "skip_ws s = e # t \<Longrightarrow> length t < length s"
  using length_skip_ws [of s] by simp

text \<open>
  The reader of a value: the tree and what follows. \<open>d\<close> is how many arrays and objects may still be opened.
  The members of an object are read from the quote of a key on, with the raw text of the key and of the value.
  The test that a value takes part of the text always holds.
\<close>

function (sequential) pvalue :: "nat \<Rightarrow> string \<Rightarrow> (json \<times> string) option"
  and pelems :: "nat \<Rightarrow> string \<Rightarrow> (json list \<times> string) option"
  and pmembers :: "nat \<Rightarrow> string \<Rightarrow> ((string \<times> bytes \<times> json) list \<times> string) option" where
  "pvalue d [] = None"
| "pvalue d (c # s) =
     (if c = CHR 0x7B then
        if d = 0 then None
        else (case skip_ws s of
            [] \<Rightarrow> None
          | e # t \<Rightarrow> if e = CHR 0x7D then Some (JObj [], t)
              else map_option (\<lambda>(ms, u). (JObj ms, u)) (pmembers (d - 1) (e # t)))
      else if c = CHR ''['' then
        if d = 0 then None
        else (case skip_ws s of
            [] \<Rightarrow> None
          | e # t \<Rightarrow> if e = CHR '']'' then Some (JArr [], t)
              else map_option (\<lambda>(vs, u). (JArr vs, u)) (pelems (d - 1) (e # t)))
      else if c = CHR 0x22 then map_option (\<lambda>(b, t). (JStr b, t)) (scan_string s)
      else if HasPrefix (c # s) ''null'' then Some (JNull, drop 3 s)
      else if HasPrefix (c # s) ''true'' then Some (JBool True, drop 3 s)
      else if HasPrefix (c # s) ''false'' then Some (JBool False, drop 4 s)
      else map_option (\<lambda>(b, t). (JNum b, t)) (scan_number (c # s)))"
| "pelems d s =
     (case pvalue d s of
        None \<Rightarrow> None
      | Some (v, s1) \<Rightarrow>
          (case skip_ws s1 of
             [] \<Rightarrow> None
           | e # t \<Rightarrow>
               if e = CHR '']'' then Some ([v], t)
               else if e = CHR '','' \<and> length s1 < length s
               then map_option (\<lambda>(vs, u). (v # vs, u)) (pelems d (skip_ws t))
               else None))"
| "pmembers d [] = None"
| "pmembers d (q # s) =
     (if q \<noteq> CHR 0x22 then None
      else case scan_string s of
        None \<Rightarrow> None
      | Some (k, s1) \<Rightarrow>
          (case skip_ws s1 of
             [] \<Rightarrow> None
           | e # t \<Rightarrow>
               if e \<noteq> CHR '':'' then None
               else (let s2 = skip_ws t in
                 case pvalue d s2 of
                   None \<Rightarrow> None
                 | Some (v, s3) \<Rightarrow>
                     (case skip_ws s3 of
                        [] \<Rightarrow> None
                      | e # u \<Rightarrow>
                          if e = CHR 0x7D then Some ([(k, take (length s2 - length s3) s2, v)], u)
                          else if e = CHR '','' \<and> length s3 < length s2
                          then map_option (\<lambda>(ms, w). ((k, take (length s2 - length s3) s2, v) # ms, w)) (pmembers d (skip_ws u))
                          else None))))"
  by pat_completeness auto

termination
  apply (relation "measure (\<lambda>x. case x of Inl (d, s) \<Rightarrow> 2 * length s | Inr (Inl (d, s)) \<Rightarrow> 2 * length s + 1
    | Inr (Inr (d, s)) \<Rightarrow> 2 * length s)")
  apply simp
  subgoal for d c s e t using length_skip_ws [of s] by simp
  subgoal for d c s e t using length_skip_ws [of s] by simp
  subgoal for d s by simp
  subgoal for d s p v s1 e t using length_skip_ws [of t] length_skip_ws [of s1] by simp
  subgoal for d q s p k s1 e t using length_skip_ws [of t] length_skip_ws [of s1] scan_string_split [of s k s1] by simp
  subgoal for d q s p k s1 e t s2 p' v s3 e' u
    using length_skip_ws [of t] length_skip_ws [of s1] length_skip_ws [of s3] length_skip_ws [of u] scan_string_split [of s k s1] by simp
  done

text \<open>A whole document, as \<open>json.Unmarshal\<close> reads it.\<close>

definition maxNestingDepth :: nat where "maxNestingDepth = 10000"

definition parse_json :: "string \<Rightarrow> json option" where
  "parse_json s = (case pvalue maxNestingDepth (skip_ws s) of
      None \<Rightarrow> None | Some (j, t) \<Rightarrow> if skip_ws t = [] then Some j else None)"

text \<open>\<open>json.Compact\<close>: a valid document without the white space outside its strings.\<close>

fun json_strip :: "bool \<Rightarrow> string \<Rightarrow> string" where
  "json_strip q [] = []"
| "json_strip q (c # s) =
     (if q then
        if c = CHR 0x5C then (case s of [] \<Rightarrow> [c] | e # t \<Rightarrow> c # e # json_strip True t)
        else c # json_strip (c \<noteq> CHR 0x22) s
      else if json_ws c then json_strip False s
      else c # json_strip (c = CHR 0x22) s)"

definition Compact :: "string \<Rightarrow> string option" where
  "Compact s = (if parse_json s = None then None else Some (json_strip False s))"

declare pvalue.simps [simp del] pelems.simps [simp del] pmembers.simps [simp del]

section \<open>Text that follows a value\<close>

definition delim :: "string \<Rightarrow> bool" where
  "delim t \<longleftrightarrow> (case t of [] \<Rightarrow> True | c # _ \<Rightarrow> \<not> is_digit c \<and> c \<noteq> CHR ''.'' \<and> c \<noteq> CHR ''e'' \<and> c \<noteq> CHR ''E'')"

lemma delim_simps [simp]:
  "delim []" "delim (CHR '','' # t)" "delim (CHR 0x7D # t)" "delim (CHR '']'' # t)"
  by (simp_all add: delim_def is_digit_def digit_val_def)

lemma takeWhile_extend: "dropWhile P s \<noteq> [] \<Longrightarrow> takeWhile P (s @ t) = takeWhile P s"
  by (induction s) auto

lemma dropWhile_extend: "dropWhile P s \<noteq> [] \<Longrightarrow> dropWhile P (s @ t) = dropWhile P s @ t"
  by (induction s) auto

lemma scan_digits_extend:
  assumes "scan_digits s = Some (b, r)" "r \<noteq> [] \<or> delim t"
  shows "scan_digits (s @ t) = Some (b, r @ t)"
proof (cases "r = []")
  case True
  then have all: "takeWhile is_digit s = s" "b = s" "s \<noteq> []"
    using assms(1) by (auto simp: scan_digits_def Let_def split: if_splits)
  have "takeWhile is_digit t = []" "dropWhile is_digit t = t"
    using assms(2) True by (cases t; simp add: delim_def)+
  moreover have "\<forall>x \<in> set s. is_digit x" using all(1) by (metis set_takeWhileD)
  ultimately show ?thesis using all True by (simp add: scan_digits_def)
next
  case False
  then show ?thesis using assms(1)
    by (auto simp: scan_digits_def Let_def takeWhile_extend dropWhile_extend split: if_splits)
qed

lemma scan_int_extend:
  assumes "scan_int s = Some (b, r)" "r \<noteq> [] \<or> delim t"
  shows "scan_int (s @ t) = Some (b, r @ t)"
  using assms scan_digits_extend [of s b r t] by (cases s) (auto simp: scan_int_def split: if_splits)

lemma scan_frac_extend:
  assumes "scan_frac s = Some (b, r)" "r \<noteq> [] \<or> delim t"
  shows "scan_frac (s @ t) = Some (b, r @ t)"
proof (cases s)
  case Nil
  then show ?thesis using assms by (cases t) (auto simp: scan_frac_def delim_def)
next
  case (Cons c u)
  then show ?thesis using assms scan_digits_extend [of u _ r t] by (auto simp: scan_frac_def split: if_splits)
qed

lemma scan_exp_extend:
  assumes "scan_exp s = Some (b, r)" "r \<noteq> [] \<or> delim t"
  shows "scan_exp (s @ t) = Some (b, r @ t)"
proof (cases s)
  case Nil
  then show ?thesis using assms by (cases t) (auto simp: scan_exp_def delim_def)
next
  case (Cons c u)
  show ?thesis
  proof (cases u)
    case Nil
    then show ?thesis using assms Cons by (auto simp: scan_exp_def split: if_splits)
  next
    case u: (Cons d v)
    then show ?thesis using assms Cons scan_digits_extend [of u _ r t] scan_digits_extend [of v _ r t]
      by (auto simp: scan_exp_def split: if_splits)
  qed
qed

lemma scan_nonempty:
  "scan_digits s = Some (b, r) \<Longrightarrow> r \<noteq> [] \<Longrightarrow> s \<noteq> []"
  "scan_frac s = Some (b, r) \<Longrightarrow> r \<noteq> [] \<Longrightarrow> s \<noteq> []"
  "scan_exp s = Some (b, r) \<Longrightarrow> r \<noteq> [] \<Longrightarrow> s \<noteq> []"
  by (auto simp: scan_digits_def scan_frac_def scan_exp_def)

lemma scan_number_extend:
  assumes "scan_number s = Some (b, r)" "r \<noteq> [] \<or> delim t"
  shows "scan_number (s @ t) = Some (b, r @ t)"
proof -
  define sg where "sg = (case s of c # t \<Rightarrow> if c = CHR ''-'' then ([c], t) else ([], s) | [] \<Rightarrow> ([], []))"
  obtain sign s1 where sg: "sg = (sign, s1)" by fastforce
  obtain ip s2 fp s3 ep where n: "scan_int s1 = Some (ip, s2)" "scan_frac s2 = Some (fp, s3)" "scan_exp s3 = Some (ep, r)"
      "b = sign @ ip @ fp @ ep"
    using assms(1) sg by (auto simp: scan_number_def sg_def Let_def split: option.splits)
  have ne: "s3 \<noteq> [] \<or> delim t" "s2 \<noteq> [] \<or> delim t" using n scan_nonempty assms(2) by metis+
  have "s1 \<noteq> []" using n(1) by (auto simp: scan_int_def)
  then have "s \<noteq> []" using sg by (cases s) (auto simp: sg_def)
  then have "(case s @ t of c # u \<Rightarrow> if c = CHR ''-'' then ([c], u) else ([], s @ t) | [] \<Rightarrow> ([], [])) = (sign, s1 @ t)"
    using sg unfolding sg_def by (cases s) (simp_all split: if_splits)
  then show ?thesis
    using scan_int_extend [OF n(1) ne(2)] scan_frac_extend [OF n(2) ne(1)] scan_exp_extend [OF n(3) assms(2)] n(4)
    by (simp add: scan_number_def Let_def)
qed

lemma scan_string_extend: "scan_string s = Some (b, r) \<Longrightarrow> scan_string (s @ t) = Some (b, r @ t)"
proof (induction s arbitrary: b r rule: scan_string.induct)
  case (2 c s)
  show ?case
  proof (cases "c = CHR 0x5C \<and> c \<noteq> CHR 0x22")
    case True
    then obtain e s1 where s: "s = e # s1" using "2.prems" by (cases s) (simp_all add: scan_string.simps)
    show ?thesis
    proof (cases "e = CHR ''u''")
      case u: True
      then show ?thesis using 2 True s
        by (auto simp: scan_string.simps(2) [of "CHR 0x5C"] split: if_splits)
    next
      case False
      then show ?thesis using 2 True s
        by (auto simp: scan_string.simps(2) [of "CHR 0x5C"] split: if_splits)
    qed
  next
    case False
    then show ?thesis using 2 by (auto simp: scan_string.simps(2) [of c] split: if_splits)
  qed
qed (simp add: scan_string.simps)

section \<open>Reading a value in front of more text\<close>

lemma pvalue_nonempty: "pvalue d s = Some (j, r) \<Longrightarrow> s \<noteq> []"
  by (auto simp: pvalue.simps)

lemma pelems_nonempty: "pelems d s = Some (js, r) \<Longrightarrow> s \<noteq> []"
  by (auto simp: pelems.simps [of d "[]"] pvalue.simps)

lemma pmembers_nonempty: "pmembers d s = Some (ms, r) \<Longrightarrow> s \<noteq> []"
  by (auto simp: pmembers.simps)

lemma HasPrefix_Cons: "HasPrefix (c # s) (x # p) \<longleftrightarrow> c = x \<and> HasPrefix s p"
  by (auto simp: HasPrefix_def)

lemma HasPrefix_length: "HasPrefix s p \<Longrightarrow> length p \<le> length s"
  by (metis HasPrefix_prefix prefix_length_le)

lemma HasPrefix_extend: "length p \<le> length s \<Longrightarrow> HasPrefix (s @ t) p = HasPrefix s p"
  by (simp add: HasPrefix_def)

lemma HasPrefix_extendI: "HasPrefix s p \<Longrightarrow> HasPrefix (s @ t) p"
  by (simp add: HasPrefix_extend HasPrefix_length)

lemma scan_number_start:
  "scan_number (c # s) = Some x \<Longrightarrow> c = CHR ''-'' \<or> is_digit c"
  by (auto simp: scan_number_def scan_int_def scan_digits_def Let_def is_digit_def digit_val_def split: if_splits option.splits)

lemma literal_not_number:
  "\<not> is_digit CHR ''n''" "\<not> is_digit CHR ''t''" "\<not> is_digit CHR ''f''" "\<not> is_digit CHR 0x22" "\<not> is_digit CHR ''[''"
  "\<not> is_digit CHR 0x7B" "\<not> is_digit CHR ''-''"
  by (simp_all add: is_digit_def digit_val_def)

text \<open>A value reads the same with text behind it, unless the text could continue a number.\<close>

lemma parse_extend:
  "pvalue d s = Some (j, r) \<Longrightarrow> r \<noteq> [] \<or> delim t \<Longrightarrow> pvalue d (s @ t) = Some (j, r @ t)"
  "pelems d s = Some (js, r) \<Longrightarrow> pelems d (s @ t) = Some (js, r @ t)"
  "pmembers d s = Some (ms, r) \<Longrightarrow> pmembers d (s @ t) = Some (ms, r @ t)"
proof (induction d s and d s and d s arbitrary: j r and js r and ms r rule: pvalue_pelems_pmembers.induct)
  case (1 d)
  then show ?case by (simp add: pvalue.simps)
next
  case (2 d c s)
  consider "c = CHR 0x7B" | "c = CHR ''[''" | "c = CHR 0x22" | "c = CHR ''n''" | "c = CHR ''t''" | "c = CHR ''f''"
    | "c \<noteq> CHR 0x7B" "c \<noteq> CHR ''[''" "c \<noteq> CHR 0x22" "c \<noteq> CHR ''n''" "c \<noteq> CHR ''t''" "c \<noteq> CHR ''f''" by blast
  then show ?case
  proof cases
    case 1
    then obtain e u where e: "skip_ws s = e # u"
      using "2.prems" by (cases "skip_ws s") (auto simp: pvalue.simps simp del: dropWhile_eq_Nil_conv split: if_splits)
    then have "skip_ws (s @ t) = e # u @ t" using dropWhile_extend [of json_ws s t] by simp
    then show ?thesis using "2.prems" "2.IH"(1) [OF _ _ e] 1 e by (auto simp: pvalue.simps(2) split: if_splits)
  next
    case b: 2
    then obtain e u where e: "skip_ws s = e # u"
      using "2.prems" by (cases "skip_ws s") (auto simp: pvalue.simps simp del: dropWhile_eq_Nil_conv split: if_splits)
    then have "skip_ws (s @ t) = e # u @ t" using dropWhile_extend [of json_ws s t] by simp
    then show ?thesis using "2.prems" "2.IH"(2) [OF _ _ _ e] b e by (auto simp: pvalue.simps(2) split: if_splits)
  next
    case 3
    then show ?thesis using "2.prems" scan_string_extend [of s _ r t] by (auto simp: pvalue.simps(2))
  next
    case 7
    then show ?thesis using "2.prems" scan_number_extend [of "c # s" _ r t] by (auto simp: pvalue.simps(2) HasPrefix_Cons)
  qed (use "2.prems" in \<open>auto simp: pvalue.simps(2) HasPrefix_Cons HasPrefix_extend literal_not_number
      intro: HasPrefix_extendI dest: scan_number_start HasPrefix_length split: if_splits\<close>)
next
  case (3 d s)
  then obtain v s1 where v: "pvalue d s = Some (v, s1)" by (auto simp: pelems.simps split: option.splits)
  then obtain e u where e: "skip_ws s1 = e # u"
    using "3.prems" by (cases "skip_ws s1") (auto simp: pelems.simps [of d s] simp del: dropWhile_eq_Nil_conv)
  then have eu: "skip_ws (s1 @ t) = e # u @ t" using dropWhile_extend [of json_ws s1 t] by simp
  have "s1 \<noteq> []" using e by auto
  then have v': "pvalue d (s @ t) = Some (v, s1 @ t)" using "3.IH"(1) [OF v] by simp
  show ?case
  proof (cases "e = CHR '']''")
    case True
    then show ?thesis using "3.prems" v e v' eu by (simp add: pelems.simps [of d])
  next
    case False
    then obtain vs where vs: "e = CHR '',''" "length s1 < length s" "pelems d (skip_ws u) = Some (vs, r)" "js = v # vs"
      using "3.prems" v e by (auto simp: pelems.simps [of d s] split: if_splits)
    have "skip_ws u \<noteq> []" using vs(3) by (rule pelems_nonempty)
    then have "skip_ws (u @ t) = skip_ws u @ t" by (rule dropWhile_extend)
    then show ?thesis using "3.IH"(2) [OF v refl e False] vs v' eu by (simp add: pelems.simps [of d "s @ t"])
  qed
next
  case (4 d)
  then show ?case by (simp add: pmembers.simps)
next
  case (5 d q s)
  then obtain k s1 where k: "q = CHR 0x22" "scan_string s = Some (k, s1)"
    by (auto simp: pmembers.simps split: if_splits option.splits)
  then obtain u where u: "skip_ws s1 = CHR '':'' # u"
    using "5.prems" by (auto simp: pmembers.simps split: if_splits list.splits)
  then have u': "skip_ws (s1 @ t) = CHR '':'' # u @ t" using dropWhile_extend [of json_ws s1 t] by simp
  obtain v s3 where v: "pvalue d (skip_ws u) = Some (v, s3)"
    using "5.prems" k u by (auto simp: pmembers.simps Let_def split: option.splits)
  have w: "skip_ws (u @ t) = skip_ws u @ t" using pvalue_nonempty [OF v] by (rule dropWhile_extend)
  obtain e x where e: "skip_ws s3 = e # x"
    using "5.prems" k u v by (auto simp: pmembers.simps Let_def split: list.splits)
  then have e': "skip_ws (s3 @ t) = e # x @ t" using dropWhile_extend [of json_ws s3 t] by simp
  have "s3 \<noteq> []" using e by auto
  then have v': "pvalue d (skip_ws u @ t) = Some (v, s3 @ t)" using "5.IH"(1) k u v by auto
  have len: "length (skip_ws u @ t) - length (s3 @ t) = length (skip_ws u) - length s3"
    "take (length (skip_ws u) - length s3) (skip_ws u @ t) = take (length (skip_ws u) - length s3) (skip_ws u)" by simp_all
  show ?case
  proof (cases "e = CHR 0x7D")
    case True
    then show ?thesis using "5.prems" k u u' v v' e e' w len scan_string_extend [OF k(2), of t]
      by (simp add: pmembers.simps Let_def)
  next
    case False
    then obtain ms' where m: "e = CHR '',''" "length s3 < length (skip_ws u)" "pmembers d (skip_ws x) = Some (ms', r)"
        "ms = (k, take (length (skip_ws u) - length s3) (skip_ws u), v) # ms'"
      using "5.prems" k u v e by (auto simp: pmembers.simps(2) [of d "CHR 0x22" s] Let_def split: if_splits)
    have "skip_ws x \<noteq> []" using m(3) by (rule pmembers_nonempty)
    then have "skip_ws (x @ t) = skip_ws x @ t" by (rule dropWhile_extend)
    then show ?thesis using "5.IH"(2) k u v e m u' v' e' w len scan_string_extend [OF k(2), of t]
      by (simp add: pmembers.simps(2) [of d "CHR 0x22" "s @ t"] Let_def)
  qed
qed

section \<open>String literals read back\<close>

lemma byte_in_128: "\<not> byte_in 0 0x7F c \<longleftrightarrow> 0x80 \<le> (of_char c :: nat)"
  by (auto simp: byte_in_def)

definition plain :: "char \<Rightarrow> bool" where
  "plain c \<longleftrightarrow> c \<noteq> CHR 0x22 \<and> c \<noteq> CHR 0x5C \<and> \<not> byte_in 0 0x1F c"

lemma high_plain: "0x80 \<le> (of_char c :: nat) \<Longrightarrow> plain c"
  by (auto simp: plain_def byte_in_def)

text \<open>The text \<open>x\<close> passes through the scanner of a literal unchanged.\<close>

definition passes :: "string \<Rightarrow> bool" where
  "passes x \<longleftrightarrow> (\<forall>u. scan_string (x @ u) = map_option (\<lambda>(b, t). (x @ b, t)) (scan_string u))"

lemma passes_append: "passes x \<Longrightarrow> passes y \<Longrightarrow> passes (x @ y)"
  unfolding passes_def by (simp add: option.map_comp comp_def case_prod_unfold)

lemma passes_plain: "list_all plain x \<Longrightarrow> passes x"
proof (induction x)
  case (Cons c x)
  then have "passes x" "plain c" by auto
  then show ?case
    by (simp add: passes_def plain_def scan_string.simps option.map_comp comp_def case_prod_unfold)
qed (simp add: passes_def option.map_ident case_prod_unfold)

lemma hex_digit_val: "n < 16 \<Longrightarrow> json_hex (hex_digit n) = Some n"
proof -
  have "\<forall>n < 16. json_hex (hex_digit n) = Some n" by code_simp
  then show "n < 16 \<Longrightarrow> json_hex (hex_digit n) = Some n" by blast
qed

lemma passes_u: "list_all is_hex [a, b, c, d] \<Longrightarrow> passes (CHR 0x5C # CHR ''u'' # [a, b, c, d])"
  by (simp add: passes_def scan_string.simps(2) option.map_comp comp_def case_prod_unfold)

lemma hex_char_vals: "is_hex CHR ''0''" "is_hex CHR ''2''" "is_hex CHR ''8''" "is_hex CHR ''9''" "is_hex CHR ''f''" "is_hex CHR ''d''"
  by (simp_all add: is_hex_def json_hex_def)

lemma low_byte: "byte_in 0 0x1F c \<Longrightarrow> (of_char c :: nat) < 32"
  by (simp add: byte_in_def)

lemma passes_escape_ascii: "passes (escape_ascii c)"
proof -
  have esc: "passes [CHR 0x5C, e]" if "e \<in> set ''bfnrt/'' \<or> e = CHR 0x5C \<or> e = CHR 0x22" for e
    using that by (auto simp: passes_def scan_string.simps(2) [of "CHR 0x5C"] option.map_comp comp_def case_prod_unfold)
  have u: "passes (CHR 0x5C # ''u00'' @ [hex_digit (of_char c div 16), hex_digit (of_char c mod 16)])" if "byte_in 0 0x1F c"
    using low_byte [OF that] passes_u [of "CHR ''0''" "CHR ''0''" "hex_digit (of_char c div 16)" "hex_digit (of_char c mod 16)"]
    by (simp add: hex_char_vals) (simp add: is_hex_def hex_digit_val)
  show ?thesis
    using u passes_plain [of "[c]"] by (auto simp: escape_ascii_def plain_def intro!: esc)
qed

definition second_ok :: "char \<Rightarrow> char \<Rightarrow> bool" where
  "second_ok c d \<longleftrightarrow> (if c = CHR 0xE0 then byte_in 0xA0 0xBF d else if c = CHR 0xED then byte_in 0x80 0x9F d
     else if c = CHR 0xF0 then byte_in 0x90 0xBF d else if c = CHR 0xF4 then byte_in 0x80 0x8F d else cont_byte d)"

lemma second_ok_high: "second_ok c d \<Longrightarrow> 0x80 \<le> (of_char d :: nat)"
  by (auto simp: second_ok_def byte_in_def split: if_splits)

lemma rune_size_eqs:
  "byte_in 0 0x7F c \<Longrightarrow> rune_size (c # s) = 1"
  "byte_in 0xC2 0xDF c \<Longrightarrow> rune_size (c # d # s) = (if cont_byte d then 2 else 0)"
  "byte_in 0xE0 0xEF c \<Longrightarrow> rune_size (c # d # e # s) = (if cont_byte e \<and> second_ok c d then 3 else 0)"
  "byte_in 0xF0 0xF4 c \<Longrightarrow> rune_size (c # d # e # f # s) = (if cont_byte e \<and> cont_byte f \<and> second_ok c d then 4 else 0)"
  by (auto simp: rune_size.simps byte_in_def second_ok_def)

lemma rune_size_high:
  assumes "rune_size (c # s) = Suc k" "\<not> byte_in 0 0x7F c"
  shows "k \<le> length s \<and> list_all (\<lambda>c. 0x80 \<le> (of_char c :: nat)) (c # take k s) \<and>
    (\<forall>u. rune_size (c # take k s @ u) = Suc k)"
proof -
  have c: "0x80 \<le> (of_char c :: nat)" using assms(2) by (simp add: byte_in_128)
  have high: "cont_byte d \<Longrightarrow> 0x80 \<le> (of_char d :: nat)" for d by (simp add: byte_in_def)
  have disj: "byte_in 0xC2 0xDF c \<or> byte_in 0xE0 0xEF c \<or> byte_in 0xF0 0xF4 c"
    using assms by (auto simp: rune_size.simps split: list.splits if_splits)
  obtain d s1 where s: "s = d # s1" using assms by (cases s) (auto simp: rune_size.simps)
  show ?thesis
  proof (cases "byte_in 0xC2 0xDF c")
    case True
    then show ?thesis using assms(1) c high unfolding s by (auto simp: rune_size_eqs split: if_splits)
  next
    case False
    then obtain e s2 where s1: "s1 = e # s2" using assms s by (cases s1) (auto simp: rune_size.simps)
    show ?thesis
    proof (cases "byte_in 0xE0 0xEF c")
      case True
      then show ?thesis using assms(1) c high second_ok_high [of c d] unfolding s s1
        by (auto simp: rune_size_eqs numeral_3_eq_3 numeral_2_eq_2 split: if_splits)
    next
      case 4: False
      then obtain f s3 where s2: "s2 = f # s3" using assms s s1 False by (cases s2) (auto simp: rune_size.simps)
      have "byte_in 0xF0 0xF4 c" using disj False 4 by blast
      then show ?thesis using assms(1) c high second_ok_high [of c d] unfolding s s1 s2
        by (auto simp: rune_size_eqs numeral_3_eq_3 numeral_2_eq_2 split: if_splits)
    qed
  qed
qed

lemma passes_escape_rune:
  "list_all (\<lambda>c. 0x80 \<le> (of_char c :: nat)) r \<Longrightarrow> passes (escape_rune r)"
  using passes_u [of "CHR ''2''" "CHR ''0''" "CHR ''2''" "CHR ''8''"] passes_u [of "CHR ''2''" "CHR ''0''" "CHR ''2''" "CHR ''9''"]
    passes_plain [of r] high_plain
  by (auto simp: escape_rune_def hex_char_vals list_all_iff)

lemma passes_json_body: "passes (json_body s)"
proof (induction s rule: json_body.induct)
  case (2 c s)
  show ?case
  proof (cases "byte_in 0 0x7F c")
    case True
    then show ?thesis using 2 passes_append [OF passes_escape_ascii] by (simp add: json_body.simps(2))
  next
    case False
    show ?thesis
    proof (cases "rune_size (c # s)")
      case 0
      then show ?thesis using 2 False passes_append [OF passes_u [of "CHR ''f''" "CHR ''f''" "CHR ''f''" "CHR ''d''"]]
        by (simp add: json_body.simps(2) hex_char_vals)
    next
      case (Suc k)
      then show ?thesis using 2 False passes_append [OF passes_escape_rune] rune_size_high [OF Suc False]
        by (simp add: json_body.simps(2))
    qed
  qed
qed (simp add: json_body.simps passes_def option.map_ident case_prod_unfold)

lemma scan_json_body: "scan_string (json_body s @ CHR 0x22 # t) = Some (json_body s, t)"
  using passes_json_body [of s] by (simp add: passes_def scan_string.simps(2))

lemma getu4_not_u: "e \<noteq> CHR ''u'' \<Longrightarrow> getu4 (c # e # s) = None"
  by (simp add: getu4_def)

lemma unquote_escape_ascii:
  assumes "byte_in 0 0x7F c"
  shows "unquote (escape_ascii c @ u) = c # unquote u"
proof -
  have hex: "getu4 (CHR 0x5C # CHR ''u'' # CHR ''0'' # CHR ''0'' # hex_digit (of_char c div 16) # hex_digit (of_char c mod 16) # u)
      = Some (of_char c)" if "byte_in 0 0x1F c"
  proof -
    have "json_hex CHR ''0'' = Some 0" by (simp add: json_hex_def)
    then show ?thesis using low_byte [OF that] by (simp add: getu4_def hex4_def hex_digit_val)
  qed
  show ?thesis
    using assms hex by (auto simp: escape_ascii_def unquote.simps(2) getu4_not_u unescape_char_def rune_size.simps
      encode_rune_def dest: low_byte)
qed

lemma unquote_escape_rune:
  assumes "rune_size (c # s) = Suc k" "\<not> byte_in 0 0x7F c"
  shows "unquote (escape_rune (c # take k s) @ u) = c # take k s @ unquote u"
proof -
  note h = rune_size_high [OF assms]
  have chars: "char_of (226 :: nat) = CHR 0xE2" "char_of (128 :: nat) = CHR 0x80" "char_of (168 :: nat) = CHR 0xA8" "char_of (169 :: nat) = CHR 0xA9"
    by code_simp+
  have sep: "unquote (CHR 0x5C # ''u2028'' @ u) = [CHR 0xE2, CHR 0x80, CHR 0xA8] @ unquote u"
    "unquote (CHR 0x5C # ''u2029'' @ u) = [CHR 0xE2, CHR 0x80, CHR 0xA9] @ unquote u"
    by (simp_all add: unquote.simps(2) getu4_def hex4_def json_hex_def encode_rune_def chars)
  have "c \<noteq> CHR 0x5C" using assms(2) by (auto simp: byte_in_def)
  moreover have "min k (length s) = k" using h by simp
  ultimately have "unquote ((c # take k s) @ u) = c # take k s @ unquote u"
    using h by (simp add: unquote.simps(2))
  then show ?thesis using sep by (auto simp: escape_rune_def)
qed

lemma unquote_json_body: "valid_utf8 s \<Longrightarrow> unquote (json_body s) = s"
proof (induction s rule: json_body.induct)
  case (2 c s)
  show ?case
  proof (cases "byte_in 0 0x7F c")
    case True
    then have "valid_utf8 s" using "2.prems" by (simp add: valid_utf8.simps(2) rune_size.simps)
    then show ?thesis using 2 True by (simp add: json_body.simps(2) unquote_escape_ascii)
  next
    case False
    then obtain k where k: "rune_size (c # s) = Suc k" "valid_utf8 (drop k s)"
      using "2.prems" by (auto simp: valid_utf8.simps(2) split: nat.splits)
    then show ?thesis using "2.IH"(3) [OF False] False by (simp add: json_body.simps(2) unquote_escape_rune)
  qed
qed (simp add: json_body.simps unquote.simps)

end
