(* ===== verification/Go_Time.thy ===== *)
theory Go_Time
  imports Rdq_Prelude Go_Strconv "HOL-Library.Monad_Syntax"
begin

text \<open>
  RFC 3339 time texts as Go's \<open>time\<close> package writes and parses them, on nanoseconds since the Unix epoch: the
  calendar date of a day number and back, the canonical form with three fractional digits, and \<open>time.Parse\<close> with the layout
  \<open>time.RFC3339\<close>.
\<close>

section \<open>Calendar\<close>

text \<open>A day number counts from 1970-01-01. Years start in March inside the computation, so that the leap day ends a year;
  \<open>doe\<close> is the day of the 400-year era, split into centuries, four-year groups and years.\<close>

definition civil :: "int \<Rightarrow> int \<times> int \<times> int" where
  "civil days =
     (let z = days + 719468; era = z div 146097; doe = z mod 146097;
          c = min 3 (doe div 36524); r1 = doe - c * 36524;
          q = r1 div 1461; r2 = r1 mod 1461;
          a = min 3 (r2 div 365); doy = r2 - 365 * a;
          mp = (5 * doy + 2) div 153;
          y = 400 * era + 100 * c + 4 * q + a
      in (if mp < 10 then y else y + 1, if mp < 10 then mp + 3 else mp - 9, doy - (153 * mp + 2) div 5 + 1))"

definition leap :: "int \<Rightarrow> bool" where
  "leap y \<longleftrightarrow> y mod 4 = 0 \<and> (y mod 100 \<noteq> 0 \<or> y mod 400 = 0)"

definition daysIn :: "int \<Rightarrow> int \<Rightarrow> int" where
  "daysIn m y = (if m = 2 then if leap y then 29 else 28 else if m = 4 \<or> m = 6 \<or> m = 9 \<or> m = 11 then 30 else 31)"

text \<open>The day number of a date (\<open>time.Date\<close>).\<close>

definition day_number :: "int \<Rightarrow> int \<Rightarrow> int \<Rightarrow> int" where
  "day_number y m d =
     (let y' = (if m \<le> 2 then y - 1 else y); mp = (if m \<le> 2 then m + 9 else m - 3);
          era = y' div 400; yoe = y' mod 400
      in era * 146097 + yoe * 365 + yoe div 4 - yoe div 100 + (153 * mp + 2) div 5 + d - 1 - 719468)"

section \<open>Formatting\<close>

definition second_ns :: int where "second_ns = 1000000000"

fun digits_of :: "nat \<Rightarrow> int \<Rightarrow> string" where
  "digits_of 0 n = []"
| "digits_of (Suc w) n = digits_of w (n div 10) @ [digit_char (nat (n mod 10))]"

text \<open>A nonnegative number with at least \<open>w\<close> digits.\<close>

definition pad :: "nat \<Rightarrow> int \<Rightarrow> string" where
  "pad w n = (if n < 10 ^ w then digits_of w n else FormatUint (nat n))"

text \<open>\<open>AppendFormat\<close> with the layout \<open>2006-01-02T15:04:05.000Z07:00\<close> of a time in UTC.\<close>

definition format_millis :: "time \<Rightarrow> string" where
  "format_millis t =
     (let secs = t div second_ns; ns = t mod second_ns; days = secs div 86400; sod = secs mod 86400; (y, m, d) = civil days
      in (if y < 0 then CHR ''-'' # pad 4 (- y) else pad 4 y) @ ''-'' @ pad 2 m @ ''-'' @ pad 2 d @ ''T'' @
         pad 2 (sod div 3600) @ '':'' @ pad 2 (sod mod 3600 div 60) @ '':'' @ pad 2 (sod mod 60) @
         ''.'' @ pad 3 (ns div 1000000) @ ''Z'')"

section \<open>Parsing\<close>

definition lit :: "char \<Rightarrow> string \<Rightarrow> string option" where
  "lit c s = (case s of [] \<Rightarrow> None | d # t \<Rightarrow> if d = c then Some t else None)"

text \<open>Two digits, or one where the layout allows it.\<close>

definition getnum :: "bool \<Rightarrow> string \<Rightarrow> (int \<times> string) option" where
  "getnum fixed s = (case s of
       [] \<Rightarrow> None
     | a # t \<Rightarrow> (case digit_val a of
         None \<Rightarrow> None
       | Some x \<Rightarrow> (case t of
           [] \<Rightarrow> if fixed then None else Some (int x, t)
         | b # u \<Rightarrow> (case digit_val b of
             None \<Rightarrow> if fixed then None else Some (int x, t)
           | Some y \<Rightarrow> Some (int (10 * x + y), u)))))"

fun digits_int :: "int \<Rightarrow> string \<Rightarrow> int option" where
  "digits_int acc [] = Some acc"
| "digits_int acc (c # cs) = (case digit_val c of None \<Rightarrow> None | Some d \<Rightarrow> digits_int (10 * acc + int d) cs)"

definition getyear :: "string \<Rightarrow> (int \<times> string) option" where
  "getyear s = (if length s < 4 then None else case digits_int 0 (take 4 s) of None \<Rightarrow> None | Some n \<Rightarrow> Some (n, drop 4 s))"

text \<open>An optional fraction after the seconds: its digits beyond the ninth are dropped.\<close>

definition getfrac :: "string \<Rightarrow> int \<times> string" where
  "getfrac s = (case s of
       c # t \<Rightarrow>
         if (c = CHR ''.'' \<or> c = CHR '','') \<and> t \<noteq> [] \<and> digit_val (hd t) \<noteq> None then
           let ds = takeWhile (\<lambda>c. digit_val c \<noteq> None) t; ds9 = take 9 ds
           in (case digits_int 0 ds9 of None \<Rightarrow> 0 | Some n \<Rightarrow> n * 10 ^ (9 - length ds9), drop (length ds) t)
         else (0, s)
     | [] \<Rightarrow> (0, s))"

text \<open>The zone: \<open>Z\<close> or a signed offset of hours and minutes, in seconds.\<close>

definition getzone :: "string \<Rightarrow> (int \<times> string) option" where
  "getzone s = (case s of
       [] \<Rightarrow> None
     | c # t \<Rightarrow>
         if c = CHR ''Z'' then Some (0, t)
         else if length s < 6 \<or> s ! 3 \<noteq> CHR '':'' then None
         else (case (getnum True (take 2 (drop 1 s)), getnum True (take 2 (drop 4 s))) of
             (Some (hr, _), Some (mm, _)) \<Rightarrow>
               if hr > 24 \<or> mm > 60 then None
               else if c = CHR ''+'' then Some ((hr * 60 + mm) * 60, drop 6 s)
               else if c = CHR ''-'' then Some (- ((hr * 60 + mm) * 60), drop 6 s)
               else None
           | _ \<Rightarrow> None))"

definition check :: "bool \<Rightarrow> unit option" where
  "check b = (if b then Some () else None)"

definition parse_rfc3339 :: "string \<Rightarrow> time option" where
  "parse_rfc3339 s = do {
     (y, s) \<leftarrow> getyear s;
     s \<leftarrow> lit (CHR ''-'') s;
     (m, s) \<leftarrow> getnum True s;
     check (1 \<le> m \<and> m \<le> 12);
     s \<leftarrow> lit (CHR ''-'') s;
     (d, s) \<leftarrow> getnum True s;
     s \<leftarrow> lit (CHR ''T'') s;
     (hh, s) \<leftarrow> getnum False s;
     check (hh < 24);
     s \<leftarrow> lit (CHR '':'') s;
     (mi, s) \<leftarrow> getnum True s;
     check (mi < 60);
     s \<leftarrow> lit (CHR '':'') s;
     (ss, s) \<leftarrow> getnum True s;
     check (ss < 60);
     let (ns, s) = getfrac s;
     (off, s) \<leftarrow> getzone s;
     check (s = []);
     check (1 \<le> d \<and> d \<le> daysIn m y);
     Some ((day_number y m d * 86400 + hh * 3600 + mi * 60 + ss - off) * second_ns + ns)
   }"

section \<open>Round trip\<close>

text \<open>The month and day of a day of the year that starts in March; the year's last day is the leap day.\<close>

lemma month_table:
  assumes "0 \<le> doy" "doy \<le> 365"
  shows "let mp = (5 * doy + 2) div 153; d = doy - (153 * mp + 2) div 5 + 1 in
    0 \<le> mp \<and> mp \<le> 11 \<and> 1 \<le> d \<and>
    d \<le> (if mp \<in> {1, 3, 6, 8} then 30 else if mp = 11 then if doy = 365 then 29 else 28 else (31 :: int))"
proof -
  have "list_all (\<lambda>doy. let mp = (5 * doy + 2) div 153; d = doy - (153 * mp + 2) div 5 + 1 in
    0 \<le> mp \<and> mp \<le> 11 \<and> 1 \<le> d \<and>
    d \<le> (if mp \<in> {1, 3, 6, 8} then 30 else if mp = 11 then if doy = 365 then 29 else 28 else (31 :: int))) [0..365]"
    by code_simp
  then show ?thesis unfolding list_all_iff by (rule bspec) (use assms in simp)
qed

text \<open>The date of a day number is a date of the calendar, and its day number.\<close>

lemma civil_spec:
  assumes "civil days = (y, m, d)"
  shows "1 \<le> m \<and> m \<le> 12 \<and> 1 \<le> d \<and> d \<le> daysIn m y" "day_number y m d = days"
proof -
  define z where "z = days + 719468"
  define era where "era = z div 146097"
  define doe where "doe = z mod 146097"
  define c where "c = min 3 (doe div 36524)"
  define r1 where "r1 = doe - c * 36524"
  define q where "q = r1 div 1461"
  define r2 where "r2 = r1 mod 1461"
  define a where "a = min 3 (r2 div 365)"
  define doy where "doy = r2 - 365 * a"
  define mp where "mp = (5 * doy + 2) div 153"
  define y0 where "y0 = 400 * era + (100 * c + 4 * q + a)"
  have z: "z = era * 146097 + doe" "0 \<le> doe" "doe < 146097" by (simp_all add: era_def doe_def)
  have c: "0 \<le> c" "c \<le> 3" "0 \<le> r1" "c < 3 \<Longrightarrow> r1 < 36524" "r1 \<le> 36524" using z unfolding c_def r1_def by (auto simp: min_def)
  have q: "r1 = q * 1461 + r2" "0 \<le> r2" "r2 < 1461" "0 \<le> q" using c by (simp_all add: q_def r2_def)
  then have q24: "q \<le> 24" using c by linarith
  have r2: "r2 = r2 div 365 * 365 + r2 mod 365" "0 \<le> r2 mod 365" "r2 mod 365 < 365" by simp_all
  have a: "0 \<le> a" "a \<le> 3" using q unfolding a_def by (auto simp: min_def)
  have doy: "0 \<le> doy" "doy \<le> 365" using q r2 unfolding a_def doy_def min_def by (auto split: if_splits)
  have last: "a = 3 \<and> r2 = 1460" if "doy = 365"
  proof -
    have "3 \<le> r2 div 365" using that r2 unfolding doy_def a_def min_def by (auto split: if_splits)
    then show ?thesis using that unfolding doy_def a_def by simp
  qed
  have leap: "leap (y0 + 1)" if "doy = 365"
  proof -
    have y1: "y0 + 1 = 4 * (100 * era + 25 * c + q + 1)" using last [OF that] by (simp add: y0_def)
    show ?thesis
    proof (cases "q = 24")
      case True
      then have "c = 3" using last [OF that] c q by linarith
      then have "y0 + 1 = 400 * (era + 1)" using True y1 by simp
      then show ?thesis by (auto simp: leap_def)
    next
      case False
      have "y0 + 1 = (4 * q + 4) + 100 * (4 * era + c)" using y1 by simp
      then have "(y0 + 1) mod 100 = (4 * q + 4) mod 100" by (simp only: mod_mult_self2)
      then have "(y0 + 1) mod 100 = 4 * q + 4" using q24 q(4) False by simp
      moreover have "(y0 + 1) mod 4 = 0" unfolding y1 by simp
      ultimately show ?thesis using q(4) by (simp add: leap_def)
    qed
  qed
  have D: "(y, m, d) = (if mp < 10 then y0 else y0 + 1, if mp < 10 then mp + 3 else mp - 9, doy - (153 * mp + 2) div 5 + 1)"
    using assms [unfolded civil_def Let_def, folded z_def, folded era_def doe_def, folded c_def, folded r1_def, folded q_def r2_def,
      folded a_def, folded doy_def, folded mp_def] by (auto simp: y0_def)
  note t = month_table [OF doy, folded mp_def, unfolded Let_def]
  show "1 \<le> m \<and> m \<le> 12 \<and> 1 \<le> d \<and> d \<le> daysIn m y"
    using t D leap by (auto simp: daysIn_def split: if_splits)
  have y: "(if m \<le> 2 then y - 1 else y) = y0" "(if m \<le> 2 then m + 9 else m - 3) = mp" using t D by (auto split: if_splits)
  have yoe: "0 \<le> 100 * c + 4 * q + a" "100 * c + 4 * q + a < 400" using a c q q24 by auto
  have era: "y0 div 400 = era" "y0 mod 400 = 100 * c + 4 * q + a" using yoe unfolding y0_def by simp_all
  have "(100 * c + 4 * q + a) div 4 = 25 * c + q" "(100 * c + 4 * q + a) div 100 = c" using a c q q24 by linarith+
  then show "day_number y m d = days"
    using y era z q(1) D r1_def doy_def z_def unfolding day_number_def Let_def by simp
qed

lemma digit_val_of: "0 \<le> n \<Longrightarrow> n < 10 \<Longrightarrow> digit_val (digit_char (nat n)) = Some (nat n)"
  by simp

lemma pad2: "0 \<le> n \<Longrightarrow> n < 100 \<Longrightarrow> pad 2 n = [digit_char (nat (n div 10)), digit_char (nat (n mod 10))]"
  by (simp add: pad_def numeral_2_eq_2)

lemma getnum_pad2: "0 \<le> n \<Longrightarrow> n < 100 \<Longrightarrow> getnum f (pad 2 n @ s) = Some (n, s)"
  using pos_imp_zdiv_nonneg_iff [of 10 n] by (simp add: pad2 getnum_def)

lemma digits_int_digits_of:
  "0 \<le> n \<Longrightarrow> n < 10 ^ w \<Longrightarrow> digits_int acc (digits_of w n @ s) = digits_int (acc * 10 ^ w + n) s"
proof (induction w arbitrary: n s)
  case (Suc w)
  have "n div 10 < 10 ^ w" using Suc.prems by (simp add: div_less_iff_less_mult)
  then show ?case using Suc.IH [of "n div 10" "digit_char (nat (n mod 10)) # s"] Suc.prems
    by (simp add: algebra_simps)
next
  case 0
  then have "n = 0" by simp
  then show ?case by simp
qed

lemma length_digits_of [simp]: "length (digits_of w n) = w"
  by (induction w arbitrary: n) auto

lemma getyear_pad4: "0 \<le> n \<Longrightarrow> n < 10000 \<Longrightarrow> getyear (pad 4 n @ s) = Some (n, s)"
  using digits_int_digits_of [of n 4 0 "[]"] by (simp add: getyear_def pad_def)

lemma digits_of_digit: "c \<in> set (digits_of w n) \<Longrightarrow> digit_val c \<noteq> None"
  by (induction w arbitrary: n) auto

lemma getfrac_pad3:
  assumes "0 \<le> n" "n < 1000" shows "getfrac (CHR ''.'' # pad 3 n @ CHR ''Z'' # s) = (n * 1000000, CHR ''Z'' # s)"
proof -
  have p: "pad 3 n = digits_of 3 n" using assms by (simp add: pad_def)
  have Z: "digit_val CHR ''Z'' = None" by (simp add: digit_val_def)
  have t: "takeWhile (\<lambda>c. digit_val c \<noteq> None) (digits_of 3 n @ CHR ''Z'' # s) = digits_of 3 n"
    using digits_of_digit Z by (subst takeWhile_append2) auto
  have ne: "digits_of 3 n \<noteq> []" using length_digits_of [of 3 n] by (metis length_0_conv zero_neq_numeral)
  then have "digit_val (hd (digits_of 3 n @ CHR ''Z'' # s)) \<noteq> None" using digits_of_digit [of "hd (digits_of 3 n)" 3 n] by simp
  then show ?thesis
    using t assms digits_int_digits_of [of n 3 0 "[]"] ne unfolding p by (simp add: getfrac_def Let_def)
qed

lemma parse_parts:
  assumes "0 \<le> y" "y < 10000" "1 \<le> m" "m \<le> 12" "1 \<le> d" "d \<le> daysIn m y" "0 \<le> hh" "hh < 24" "0 \<le> mi" "mi < 60" "0 \<le> ss" "ss < 60"
    "0 \<le> ms" "ms < 1000"
  shows "parse_rfc3339 (pad 4 y @ CHR ''-'' # pad 2 m @ CHR ''-'' # pad 2 d @ CHR ''T'' # pad 2 hh @ CHR '':'' # pad 2 mi @ CHR '':'' #
      pad 2 ss @ CHR ''.'' # pad 3 ms @ [CHR ''Z''])
    = Some ((day_number y m d * 86400 + hh * 3600 + mi * 60 + ss) * second_ns + ms * 1000000)"
proof -
  have lits: "lit c (c # s) = Some s" "check True = Some ()" "getzone ''Z'' = Some (0, [])" for c s
    by (simp_all add: lit_def check_def getzone_def)
  have d: "d < 100" using assms(6) by (auto simp: daysIn_def split: if_splits)
  have n: "getnum f (pad 2 m @ s) = Some (m, s)" "getnum f (pad 2 d @ s) = Some (d, s)" "getnum f (pad 2 hh @ s) = Some (hh, s)"
    "getnum f (pad 2 mi @ s) = Some (mi, s)" "getnum f (pad 2 ss @ s) = Some (ss, s)" "getyear (pad 4 y @ s) = Some (y, s)" for f s
    using assms d by (intro getnum_pad2 getyear_pad4; simp)+
  have c: "(1 \<le> m \<and> m \<le> 12) = True" "(hh < 24) = True" "(mi < 60) = True" "(ss < 60) = True" "(1 \<le> d \<and> d \<le> daysIn m y) = True"
    using assms by simp_all
  show ?thesis
    unfolding parse_rfc3339_def n lits bind.bind_lunit prod.case c getfrac_pad3 [OF assms(13,14)] Let_def
    by (simp add: lits)
qed

text \<open>The canonical text of a time parses back to the time cut to milliseconds, for the years a four-digit text can name.\<close>

definition year :: "time \<Rightarrow> int" where
  "year t = fst (civil (t div second_ns div 86400))"

definition millis :: "time \<Rightarrow> time" where
  "millis t = t - t mod 1000000"

lemma parse_format_millis:
  assumes "0 \<le> year t" "year t \<le> 9999"
  shows "parse_rfc3339 (format_millis t) = Some (millis t)"
proof -
  define secs where "secs = t div second_ns"
  define ns where "ns = t mod second_ns"
  define sod where "sod = secs mod 86400"
  obtain y m d where c: "civil (secs div 86400) = (y, m, d)" by (metis prod_cases3)
  note cs = civil_spec [OF c]
  have y: "0 \<le> y" "y < 10000" using assms c by (simp_all add: year_def secs_def)
  have d: "1 \<le> d" "d < 100" using cs(1) by (auto simp: daysIn_def split: if_splits)
  have sod: "0 \<le> sod" "sod < 86400" "secs = secs div 86400 * 86400 + sod" by (simp_all add: sod_def)
  have hms: "0 \<le> sod div 3600" "sod div 3600 < 24" "0 \<le> sod mod 3600 div 60" "sod mod 3600 div 60 < 60" "0 \<le> sod mod 60" "sod mod 60 < 60"
    using sod by auto
  have ns: "0 \<le> ns div 1000000" "ns div 1000000 < 1000" "t = secs * second_ns + ns" by (auto simp: ns_def secs_def second_ns_def)
  have sum: "sod div 3600 * 3600 + sod mod 3600 div 60 * 60 + sod mod 60 = sod"
  proof -
    have "sod mod 60 = sod mod 3600 mod 60" by (simp add: mod_mod_cancel)
    then have "sod mod 3600 div 60 * 60 + sod mod 60 = sod mod 3600" by (simp only: div_mult_mod_eq)
    then show ?thesis using div_mult_mod_eq [of sod 3600] by linarith
  qed
  have "format_millis t = pad 4 y @ CHR ''-'' # pad 2 m @ CHR ''-'' # pad 2 d @ CHR ''T'' # pad 2 (sod div 3600) @ CHR '':'' #
      pad 2 (sod mod 3600 div 60) @ CHR '':'' # pad 2 (sod mod 60) @ CHR ''.'' # pad 3 (ns div 1000000) @ [CHR ''Z'']"
    unfolding format_millis_def Let_def secs_def [symmetric] ns_def [symmetric] sod_def [symmetric] c using y(1) by simp
  then have "parse_rfc3339 (format_millis t) =
      Some ((day_number y m d * 86400 + sod div 3600 * 3600 + sod mod 3600 div 60 * 60 + sod mod 60) * second_ns + ns div 1000000 * 1000000)"
    using cs(1) by (simp only:) (rule parse_parts [OF y _ _ d(1) _ hms ns(1,2)]; blast)
  also have "\<dots> = Some (millis t)"
  proof -
    have "ns div 1000000 * 1000000 = ns - ns mod 1000000" by (simp add: minus_mod_eq_div_mult)
    moreover have "ns mod 1000000 = t mod 1000000" by (simp add: ns_def second_ns_def mod_mod_cancel)
    moreover have "day_number y m d * 86400 + sod div 3600 * 3600 + sod mod 3600 div 60 * 60 + sod mod 60 = secs"
      using cs(2) sum sod(3) by linarith
    ultimately show ?thesis using ns(3) unfolding millis_def by (simp only: option.inject)
  qed
  finally show ?thesis .
qed

end
