(* ===== verification/Cli.thy ===== *)
theory Cli
  imports Server_Http Postgres Schema
begin

text \<open>
  The command line (\<open>cli/cmd\<close>): flag parsing, the subcommands and the two transports they run over,
  the public REST interface and the storage itself. A transport is a record of operations on a world \<open>'w\<close>;
  output is a list of lines and tables. JSON decoding at the client, time and duration texts and the
  HTTP exchange are parameters.
\<close>

section \<open>Flags\<close>

text \<open>
  \<open>flag.FlagSet.Parse\<close> for the flags the program defines, none of which is boolean: the values set, in
  order, and the arguments left. \<open>cl_int\<close> is the integer syntax of the package.
\<close>

datatype flag_kind = StringFlag | IntFlag

record cli_lib =
  cl_int :: "string \<Rightarrow> int option"
  cl_quote :: "string \<Rightarrow> string"
  cl_parseTime :: "string \<Rightarrow> time option"
  cl_formatTime :: "time \<Rightarrow> string"
  cl_duration :: "duration \<Rightarrow> string"
  cl_url_ok :: "string \<Rightarrow> bool"
  cl_problem :: "response_body \<Rightarrow> string \<times> string"
  cl_count :: "response_body \<Rightarrow> string + int"
  cl_stats :: "response_body \<Rightarrow> string + int \<times> int \<times> int \<times> int"
  cl_task :: "response_body \<Rightarrow> string + envelope"
  cl_list :: "response_body \<Rightarrow> string + envelope list option \<times> cursor"
  cl_json :: "envelope \<Rightarrow> string"
  cl_spi :: "spi_error \<Rightarrow> string"

type_synonym flag_defs = "(string \<times> flag_kind) list"
type_synonym flag_sets = "(string \<times> string) list"

definition flagName :: "string \<Rightarrow> string + string option" where
  "flagName s = (if length s < 2 \<or> hd s \<noteq> CHR ''-'' then Inr None
     else let name = (if s ! 1 = CHR ''-'' then drop 2 s else drop 1 s)
       in if s = ''--'' then Inr None
          else if name = [] \<or> hd name = CHR ''-'' \<or> hd name = CHR ''='' then Inl (''bad flag syntax: '' @ s)
          else Inr (Some name))"

definition setFlag :: "cli_lib \<Rightarrow> flag_defs \<Rightarrow> string \<Rightarrow> string \<Rightarrow> string option" where
  "setFlag lib defs name v = (if map_of defs name = Some IntFlag \<and> cl_int lib v = None
     then Some (''invalid value '' @ cl_quote lib v @ '' for flag -'' @ name @ '': parse error'') else None)"

fun parseFlags :: "cli_lib \<Rightarrow> flag_defs \<Rightarrow> string list \<Rightarrow> flag_sets \<Rightarrow> string + flag_sets \<times> string list" where
  "parseFlags lib defs [] acc = Inr (acc, [])"
| "parseFlags lib defs (s # args) acc = (case flagName s of
      Inl e \<Rightarrow> Inl e
    | Inr None \<Rightarrow> Inr (acc, if s = ''--'' then args else s # args)
    | Inr (Some nv) \<Rightarrow>
        (let (name, val) = (case Cut1 nv CHR ''='' of None \<Rightarrow> (nv, None) | Some (n, v) \<Rightarrow> (n, Some v)) in
         if map_of defs name = None then
           Inl (if name = ''help'' \<or> name = ''h'' then ''flag: help requested''
                else ''flag provided but not defined: -'' @ name)
         else case val of
           Some v \<Rightarrow> (case setFlag lib defs name v of Some e \<Rightarrow> Inl e | None \<Rightarrow> parseFlags lib defs args (acc @ [(name, v)]))
         | None \<Rightarrow> (case args of
             [] \<Rightarrow> Inl (''flag needs an argument: -'' @ name)
           | v # args1 \<Rightarrow> (case setFlag lib defs name v of Some e \<Rightarrow> Inl e
               | None \<Rightarrow> parseFlags lib defs args1 (acc @ [(name, v)])))))"

text \<open>The value of a flag that may be set repeatedly, the last time winning.\<close>

definition flagValue :: "flag_sets \<Rightarrow> string \<Rightarrow> string \<Rightarrow> string" where
  "flagValue sets name dflt = (case map_of (rev sets) name of None \<Rightarrow> dflt | Some v \<Rightarrow> v)"

definition flagInt :: "cli_lib \<Rightarrow> flag_sets \<Rightarrow> string \<Rightarrow> int \<Rightarrow> int" where
  "flagInt lib sets name dflt = (case map_of (rev sets) name of None \<Rightarrow> dflt
     | Some v \<Rightarrow> (case cl_int lib v of None \<Rightarrow> dflt | Some n \<Rightarrow> n))"

text \<open>\<open>multiString\<close>: every value given.\<close>

definition multiString :: "flag_sets \<Rightarrow> string \<Rightarrow> string list" where
  "multiString sets name = map snd (filter (\<lambda>(n, v). n = name) sets)"

section \<open>Selectors\<close>

record filterFlags =
  ffErrorType :: string
  ffHandlerRef :: string
  ffFrom :: string
  ffTo :: string

definition filter_defs :: flag_defs where
  "filter_defs = [(''error-type'', StringFlag), (''handler-ref'', StringFlag), (''from'', StringFlag), (''to'', StringFlag)]"

definition filter_values :: "flag_sets \<Rightarrow> filterFlags" where
  "filter_values sets = \<lparr>ffErrorType = flagValue sets ''error-type'' [], ffHandlerRef = flagValue sets ''handler-ref'' [],
     ffFrom = flagValue sets ''from'' [], ffTo = flagValue sets ''to'' []\<rparr>"

definition buildFilter :: "cli_lib \<Rightarrow> filterFlags \<Rightarrow> string + dlq_filter" where
  "buildFilter lib ff = (case optional_param (cl_parseTime lib) (ffFrom ff) of
      Inl _ \<Rightarrow> Inl ''--from: must be RFC3339 time''
    | Inr from \<Rightarrow> (case optional_param (cl_parseTime lib) (ffTo ff) of
        Inl _ \<Rightarrow> Inl ''--to: must be RFC3339 time''
      | Inr until \<Rightarrow> Inr \<lparr>FErrorType = ffErrorType ff, FHandlerRef = ffHandlerRef ff, DeadLetteredAfter = from,
          DeadLetteredBefore = until, IncludeAttempts = False\<rparr>))"

definition buildSelector :: "cli_lib \<Rightarrow> string list \<Rightarrow> filterFlags \<Rightarrow> string + selector" where
  "buildSelector lib ids ff =
     (let hasIDs = (length ids > 0);
          hasFilter = (ffErrorType ff \<noteq> [] \<or> ffHandlerRef ff \<noteq> [] \<or> ffFrom ff \<noteq> [] \<or> ffTo ff \<noteq> [])
      in if hasIDs \<and> hasFilter
         then Inl ''supply --id or filter flags (--error-type, --handler-ref, --from, --to), not both''
         else if hasIDs then Inr \<lparr>IDs = ids, Filter = None\<rparr>
         else if \<not> hasFilter then Inr \<lparr>IDs = [], Filter = None\<rparr>
         else case buildFilter lib ff of Inl e \<Rightarrow> Inl e | Inr f \<Rightarrow> Inr \<lparr>IDs = [], Filter = Some f\<rparr>)"

section \<open>Transports\<close>

record 'w transport =
  tr_Stats :: "string \<Rightarrow> 'w \<Rightarrow> (string + stats) \<times> 'w"
  tr_DLQList :: "string \<Rightarrow> dlq_filter \<Rightarrow> page \<Rightarrow> 'w \<Rightarrow> (string + envelope list \<times> cursor) \<times> 'w"
  tr_GetTask :: "task_id \<Rightarrow> 'w \<Rightarrow> (string + envelope) \<times> 'w"
  tr_Redrive :: "string \<Rightarrow> selector \<Rightarrow> 'w \<Rightarrow> (string + int) \<times> 'w"
  tr_Purge :: "string \<Rightarrow> selector \<Rightarrow> 'w \<Rightarrow> (string + int) \<times> 'w"
  tr_Migrate :: "('w \<Rightarrow> string option \<times> 'w) option"

text \<open>
  \<open>url.PathEscape\<close>: unreserved characters and a few more stand for themselves, every other byte is percent-encoded.
\<close>

definition hex_upper :: "nat \<Rightarrow> char" where
  "hex_upper n = ''0123456789ABCDEF'' ! n"

definition path_plain :: "char \<Rightarrow> bool" where
  "path_plain c \<longleftrightarrow> (CHR ''a'' \<le> c \<and> c \<le> CHR ''z'') \<or> (CHR ''A'' \<le> c \<and> c \<le> CHR ''Z'') \<or> (CHR ''0'' \<le> c \<and> c \<le> CHR ''9'') \<or>
     c \<in> set ''-_.~$&+=:@''"

definition PathEscape :: "string \<Rightarrow> string" where
  "PathEscape s = concat (map (\<lambda>c. if path_plain c then [c]
     else [CHR ''%'', hex_upper (of_char c div 16), hex_upper (of_char c mod 16)]) s)"

text \<open>A request as the client sends it; query and body as the values they encode.\<close>

record client_request =
  crMethod :: string
  crURL :: string
  crQuery :: "string gomap"
  crAuthorization :: string
  crBody :: "selector_request option"

type_synonym 'w http_exchange = "client_request \<Rightarrow> 'w \<Rightarrow> (string + response) \<times> 'w"

record apiTransport =
  at_base :: string
  at_token :: string

definition TrimRight1 :: "string \<Rightarrow> char \<Rightarrow> string" where
  "TrimRight1 s c = rev (dropWhile (\<lambda>d. d = c) (rev s))"

definition newAPITransport :: "cli_lib \<Rightarrow> string \<Rightarrow> string \<Rightarrow> string + apiTransport" where
  "newAPITransport lib serverURL token =
     (if \<not> cl_url_ok lib serverURL then Inl ''invalid --server URL''
      else Inr \<lparr>at_base = TrimRight1 serverURL CHR ''/'', at_token = token\<rparr>)"

definition api_req :: "'w http_exchange \<Rightarrow> apiTransport \<Rightarrow> string \<Rightarrow> string \<Rightarrow> string gomap \<Rightarrow> selector_request option \<Rightarrow> 'w \<Rightarrow>
    (string + response) \<times> 'w" where
  "api_req ex a meth path query body w = ex \<lparr>crMethod = meth, crURL = at_base a @ ''/v1'' @ path, crQuery = query,
     crAuthorization = (if at_token a \<noteq> [] then ''Bearer '' @ at_token a else []), crBody = body\<rparr> w"

definition apiErr :: "cli_lib \<Rightarrow> response \<Rightarrow> string" where
  "apiErr lib resp = (let (title, detail) = cl_problem lib (RBody resp); pre = ''server error '' @ FormatInt (RStatus resp)
     in if detail \<noteq> [] then pre @ '': '' @ detail else if title \<noteq> [] then pre @ '': '' @ title else pre)"

text \<open>The steps every call shares: a failed exchange, a status other than 200, a body to decode.\<close>

definition api_result :: "cli_lib \<Rightarrow> (response_body \<Rightarrow> string + 'a) \<Rightarrow> (string + response) \<times> 'w \<Rightarrow> (string + 'a) \<times> 'w" where
  "api_result lib dec rw = (case rw of
      (Inl e, w) \<Rightarrow> (Inl e, w)
    | (Inr resp, w) \<Rightarrow> (if RStatus resp \<noteq> 200 then Inl (apiErr lib resp) else dec (RBody resp), w))"

definition millisecond_ns :: int where "millisecond_ns = 1000000"

definition api_Stats :: "cli_lib \<Rightarrow> 'w http_exchange \<Rightarrow> apiTransport \<Rightarrow> string \<Rightarrow> 'w \<Rightarrow> (string + stats) \<times> 'w" where
  "api_Stats lib ex a queue w = api_result lib
     (\<lambda>b. case cl_stats lib b of Inl e \<Rightarrow> Inl e
        | Inr (p, i, d, ms) \<Rightarrow> Inr \<lparr>Pending = p, InFlight = i, DLQDepth = d, OldestPendingAge = wrap64 (ms * millisecond_ns)\<rparr>)
     (api_req ex a ''GET'' (''/queues/'' @ PathEscape queue @ ''/stats'') [] None w)"

definition list_query :: "cli_lib \<Rightarrow> dlq_filter \<Rightarrow> page \<Rightarrow> string gomap" where
  "list_query lib f pg =
     (if FErrorType f \<noteq> [] then [(''error_type'', FErrorType f)] else []) @
     (if FHandlerRef f \<noteq> [] then [(''handler_ref'', FHandlerRef f)] else []) @
     (case DeadLetteredAfter f of None \<Rightarrow> [] | Some t \<Rightarrow> [(''from'', cl_formatTime lib t)]) @
     (case DeadLetteredBefore f of None \<Rightarrow> [] | Some t \<Rightarrow> [(''to'', cl_formatTime lib t)]) @
     (if Limit pg > 0 then [(''limit'', FormatInt (Limit pg))] else []) @
     (if After pg \<noteq> [] then [(''cursor'', After pg)] else [])"

definition api_DLQList :: "cli_lib \<Rightarrow> 'w http_exchange \<Rightarrow> apiTransport \<Rightarrow> string \<Rightarrow> dlq_filter \<Rightarrow> page \<Rightarrow> 'w \<Rightarrow>
    (string + envelope list \<times> cursor) \<times> 'w" where
  "api_DLQList lib ex a queue f pg w = api_result lib
     (\<lambda>b. case cl_list lib b of Inl e \<Rightarrow> Inl e | Inr (listed, nxt) \<Rightarrow> Inr (or_else listed [], nxt))
     (api_req ex a ''GET'' (''/queues/'' @ PathEscape queue @ ''/dlq'') (list_query lib f pg) None w)"

definition api_GetTask :: "cli_lib \<Rightarrow> 'w http_exchange \<Rightarrow> apiTransport \<Rightarrow> task_id \<Rightarrow> 'w \<Rightarrow> (string + envelope) \<times> 'w" where
  "api_GetTask lib ex a tid w = api_result lib (cl_task lib) (api_req ex a ''GET'' (''/tasks/'' @ PathEscape tid) [] None w)"

definition dlqMutate :: "cli_lib \<Rightarrow> 'w http_exchange \<Rightarrow> apiTransport \<Rightarrow> string \<Rightarrow> string \<Rightarrow> selector \<Rightarrow> 'w \<Rightarrow> (string + int) \<times> 'w" where
  "dlqMutate lib ex a queue action sel w = api_result lib (cl_count lib)
     (api_req ex a ''POST'' (''/queues/'' @ PathEscape queue @ ''/dlq:'' @ action) []
        (Some \<lparr>rIDs = IDs sel, rFilter = Filter sel\<rparr>) w)"

definition api :: "cli_lib \<Rightarrow> 'w http_exchange \<Rightarrow> apiTransport \<Rightarrow> 'w transport" where
  "api lib ex a = \<lparr>tr_Stats = api_Stats lib ex a, tr_DLQList = api_DLQList lib ex a, tr_GetTask = api_GetTask lib ex a,
     tr_Redrive = (\<lambda>q. dlqMutate lib ex a q ''redrive''), tr_Purge = (\<lambda>q. dlqMutate lib ex a q ''purge''), tr_Migrate = None\<rparr>"

text \<open>The direct transport: the storage with its clock, and the database its schema lives in.\<close>

record 's direct_world =
  dw_store :: 's
  dw_schema :: schema_db

definition texted :: "cli_lib \<Rightarrow> spi_error + 'a \<Rightarrow> string + 'a" where
  "texted lib r = (case r of Inl e \<Rightarrow> Inl (cl_spi lib e) | Inr x \<Rightarrow> Inr x)"

definition direct_Stats :: "cli_lib \<Rightarrow> 's storage \<Rightarrow> time \<Rightarrow> string \<Rightarrow> 's direct_world \<Rightarrow> (string + stats) \<times> 's direct_world" where
  "direct_Stats lib st now queue w = (texted lib (st_Stats st now (dw_store w) queue), w)"

definition direct_DLQList :: "cli_lib \<Rightarrow> 's storage \<Rightarrow> string \<Rightarrow> dlq_filter \<Rightarrow> page \<Rightarrow> 's direct_world \<Rightarrow>
    (string + envelope list \<times> cursor) \<times> 's direct_world" where
  "direct_DLQList lib st queue f pg w = (texted lib (st_DLQList st (dw_store w) queue f pg), w)"

definition direct_GetTask :: "cli_lib \<Rightarrow> 's storage \<Rightarrow> task_id \<Rightarrow> 's direct_world \<Rightarrow> (string + envelope) \<times> 's direct_world" where
  "direct_GetTask lib st tid w = (texted lib (st_Get st (dw_store w) tid), w)"

definition direct_Redrive :: "cli_lib \<Rightarrow> 's storage \<Rightarrow> time \<Rightarrow> string \<Rightarrow> selector \<Rightarrow> 's direct_world \<Rightarrow> (string + int) \<times> 's direct_world" where
  "direct_Redrive lib st now queue sel w =
     (let (r, s') = st_Redrive st now (dw_store w) queue sel in (texted lib r, w\<lparr>dw_store := s'\<rparr>))"

definition direct_Purge :: "cli_lib \<Rightarrow> 's storage \<Rightarrow> string \<Rightarrow> selector \<Rightarrow> 's direct_world \<Rightarrow> (string + int) \<times> 's direct_world" where
  "direct_Purge lib st queue sel w =
     (let (r, s') = st_Purge st (dw_store w) queue sel in (texted lib r, w\<lparr>dw_store := s'\<rparr>))"

definition direct_Migrate :: "schema_lib \<Rightarrow> 's direct_world \<Rightarrow> string option \<times> 's direct_world" where
  "direct_Migrate slib w = (let (e, d) = Migrate slib (dw_schema w) in (e, w\<lparr>dw_schema := d\<rparr>))"

definition direct :: "cli_lib \<Rightarrow> schema_lib \<Rightarrow> 's storage \<Rightarrow> time \<Rightarrow> 's direct_world transport" where
  "direct lib slib st now = \<lparr>tr_Stats = direct_Stats lib st now, tr_DLQList = direct_DLQList lib st,
     tr_GetTask = direct_GetTask lib st, tr_Redrive = direct_Redrive lib st now, tr_Purge = direct_Purge lib st,
     tr_Migrate = Some (direct_Migrate slib)\<rparr>"

section \<open>Commands\<close>

datatype out = Line string | Table "string list list" | Json string

type_synonym 'w command = "'w \<Rightarrow> string option \<times> out list \<times> 'w"

definition fails :: "string \<Rightarrow> 'w command" where
  "fails e w = (Some e, [], w)"

definition queueRequired :: string where "queueRequired = ''queue name required''"

definition stats_lines :: "cli_lib \<Rightarrow> string \<Rightarrow> stats \<Rightarrow> out list" where
  "stats_lines lib queue st =
     [Line (''Queue:               '' @ queue), Line (''Pending:             '' @ FormatInt (Pending st)),
      Line (''In-flight:           '' @ FormatInt (InFlight st)), Line (''DLQ depth:           '' @ FormatInt (DLQDepth st)),
      Line (''Oldest pending age:  '' @ (if OldestPendingAge st > 0 then cl_duration lib (OldestPendingAge st) else ''(none)''))]"

definition runStats :: "cli_lib \<Rightarrow> 'w transport \<Rightarrow> string list \<Rightarrow> 'w command" where
  "runStats lib tr args w = (case parseFlags lib [] args [] of
      Inl e \<Rightarrow> fails e w
    | Inr (_, []) \<Rightarrow> fails queueRequired w
    | Inr (_, queue # _) \<Rightarrow> (case tr_Stats tr queue w of
        (Inl e, w') \<Rightarrow> fails (''stats: '' @ e) w'
      | (Inr st, w') \<Rightarrow> (None, stats_lines lib queue st, w')))"

definition task_cells :: "envelope \<Rightarrow> string list" where
  "task_cells e = [ID e, HandlerRef e, FormatInt (AttemptCount e), FormatInt (RedriveCount e), Status e]"

definition runDLQList :: "cli_lib \<Rightarrow> 'w transport \<Rightarrow> string list \<Rightarrow> 'w command" where
  "runDLQList lib tr args w = (case args of [] \<Rightarrow> fails queueRequired w
    | queue # args1 \<Rightarrow> (case parseFlags lib ([(''limit'', IntFlag), (''cursor'', StringFlag)] @ filter_defs) args1 [] of
        Inl e \<Rightarrow> fails e w
      | Inr (sets, _) \<Rightarrow> (case buildFilter lib (filter_values sets) of
          Inl e \<Rightarrow> fails e w
        | Inr f \<Rightarrow> (case tr_DLQList tr queue f \<lparr>Limit = flagInt lib sets ''limit'' 20, After = flagValue sets ''cursor'' []\<rparr> w of
            (Inl e, w') \<Rightarrow> fails (''dlq list: '' @ e) w'
          | (Inr (tasks, nxt), w') \<Rightarrow>
              if tasks = [] then (None, [Line ''(no tasks in DLQ)''], w')
              else (None, Table ([''ID'', ''HANDLER'', ''ATTEMPTS'', ''REDRIVES'', ''STATUS''] # map task_cells tasks) #
                (if nxt \<noteq> [] then [Line [], Line (''next-cursor: '' @ nxt)] else []), w')))))"

definition runDLQInspect :: "cli_lib \<Rightarrow> 'w transport \<Rightarrow> string list \<Rightarrow> 'w command" where
  "runDLQInspect lib tr args w = (case parseFlags lib [] args [] of
      Inl e \<Rightarrow> fails e w
    | Inr (_, []) \<Rightarrow> fails ''task id required'' w
    | Inr (_, tid # _) \<Rightarrow> (case tr_GetTask tr tid w of
        (Inl e, w') \<Rightarrow> fails (''inspect: '' @ e) w'
      | (Inr e, w') \<Rightarrow> (None, [Json (cl_json lib e)], w')))"

text \<open>\<open>runDLQRedrive\<close> and \<open>runDLQPurge\<close> differ in the operation and the words they print.\<close>

definition run_mutate :: "cli_lib \<Rightarrow> (string \<Rightarrow> selector \<Rightarrow> 'w \<Rightarrow> (string + int) \<times> 'w) \<Rightarrow> string \<Rightarrow> string \<Rightarrow> string list \<Rightarrow> 'w command" where
  "run_mutate lib op what verb args w = (case args of [] \<Rightarrow> fails queueRequired w
    | queue # args1 \<Rightarrow> (case parseFlags lib ((''id'', StringFlag) # filter_defs) args1 [] of
        Inl e \<Rightarrow> fails e w
      | Inr (sets, _) \<Rightarrow> (case buildSelector lib (multiString sets ''id'') (filter_values sets) of
          Inl e \<Rightarrow> fails e w
        | Inr sel \<Rightarrow> (case op queue sel w of
            (Inl e, w') \<Rightarrow> fails (what @ '': '' @ e) w'
          | (Inr n, w') \<Rightarrow> (None, [Line (verb @ '': '' @ FormatInt n)], w')))))"

definition runDLQRedrive :: "cli_lib \<Rightarrow> 'w transport \<Rightarrow> string list \<Rightarrow> 'w command" where
  "runDLQRedrive lib tr args = run_mutate lib (tr_Redrive tr) ''redrive'' ''redrived'' args"

definition runDLQPurge :: "cli_lib \<Rightarrow> 'w transport \<Rightarrow> string list \<Rightarrow> 'w command" where
  "runDLQPurge lib tr args = run_mutate lib (tr_Purge tr) ''purge'' ''purged'' args"

definition runMigrate :: "cli_lib \<Rightarrow> 'w transport \<Rightarrow> string list \<Rightarrow> 'w command" where
  "runMigrate lib tr args w = (case parseFlags lib [] args [] of
      Inl e \<Rightarrow> fails e w
    | Inr _ \<Rightarrow> (case tr_Migrate tr of
        None \<Rightarrow> fails ''migrate is only available in direct-storage mode (--dsn); use --dsn instead of --server'' w
      | Some m \<Rightarrow> (case m w of (Some e, w') \<Rightarrow> fails (''migrate: '' @ e) w'
          | (None, w') \<Rightarrow> (None, [Line ''migrations applied''], w'))))"

definition dispatch :: "cli_lib \<Rightarrow> 'w transport \<Rightarrow> string list \<Rightarrow> 'w command" where
  "dispatch lib tr sub = (case sub of
      [] \<Rightarrow> fails ''command required''
    | c # args \<Rightarrow>
        if c = ''stats'' then runStats lib tr args
        else if c = ''dlq'' then (case args of
            [] \<Rightarrow> fails ''dlq requires a subcommand: list, inspect, redrive, purge''
          | d # args1 \<Rightarrow>
              if d = ''list'' then runDLQList lib tr args1
              else if d = ''inspect'' then runDLQInspect lib tr args1
              else if d = ''redrive'' then runDLQRedrive lib tr args1
              else if d = ''purge'' then runDLQPurge lib tr args1
              else fails (''unknown dlq subcommand '' @ cl_quote lib d @ '' (want: list, inspect, redrive, purge)''))
        else if c = ''migrate'' then runMigrate lib tr args
        else fails (''unknown command '' @ cl_quote lib c))"

text \<open>Which transport the global flags choose; opening the database connection is an input.\<close>

datatype mode = APIMode apiTransport | DirectMode string

definition buildTransport :: "cli_lib \<Rightarrow> (string \<Rightarrow> string option) \<Rightarrow> string \<Rightarrow> string \<Rightarrow> string \<Rightarrow> string + mode" where
  "buildTransport lib connect serverURL token dsn =
     (if serverURL \<noteq> [] \<and> dsn \<noteq> [] then Inl ''specify --server or --dsn, not both''
      else if serverURL \<noteq> [] then (case newAPITransport lib serverURL token of Inl e \<Rightarrow> Inl e | Inr a \<Rightarrow> Inr (APIMode a))
      else if dsn \<noteq> [] then (case connect dsn of Some e \<Rightarrow> Inl e | None \<Rightarrow> Inr (DirectMode dsn))
      else Inl ''specify --server URL (API mode) or --dsn DSN (direct-storage mode)'')"

definition global_defs :: flag_defs where
  "global_defs = [(''server'', StringFlag), (''token'', StringFlag), (''dsn'', StringFlag)]"

text \<open>\<open>Run\<close>, over the transports of both modes on one world.\<close>

definition Run :: "cli_lib \<Rightarrow> (string \<Rightarrow> string option) \<Rightarrow> (mode \<Rightarrow> 'w transport) \<Rightarrow> string list \<Rightarrow> 'w command" where
  "Run lib connect over args w = (case parseFlags lib global_defs args [] of
      Inl e \<Rightarrow> fails e w
    | Inr (_, []) \<Rightarrow> fails ''command required'' w
    | Inr (sets, sub) \<Rightarrow> (case buildTransport lib connect (flagValue sets ''server'' []) (flagValue sets ''token'' [])
          (flagValue sets ''dsn'' []) of
        Inl e \<Rightarrow> fails e w
      | Inr m \<Rightarrow> dispatch lib (over m) sub w))"

end
