(* ===== verification/Cli_Props.thy ===== *)
theory Cli_Props
  imports Go_Json Go_Time Cli Server_Http_Props Postgres_Dlq Schema_Props Callback
begin

text \<open>
  The command line against the server it talks to: over the REST interface and directly on the
  storage, the dead-letter commands do the same and print the same.
\<close>

section \<open>The network between client and server\<close>

text \<open>
  An exchange with the server behind a base URL. The path is split and each segment decoded; the body arrives
  as the JSON round trip \<open>wire\<close> of what was sent; \<open>now\<close> and \<open>bits\<close> are the server's clock and randomness.
\<close>

fun PathUnescape :: "string \<Rightarrow> string option" where
  "PathUnescape [] = Some []"
| "PathUnescape (c # cs) =
     (if c \<noteq> CHR ''%'' then map_option (Cons c) (PathUnescape cs)
      else case cs of
        h # l # ds \<Rightarrow> (case (hex_val h, hex_val l) of
            (Some a, Some b) \<Rightarrow> map_option (Cons (char_of (16 * a + b))) (PathUnescape ds)
          | _ \<Rightarrow> None)
      | _ \<Rightarrow> None)"

definition arriving :: "(selector_request \<Rightarrow> string + selector_request) \<Rightarrow> time \<Rightarrow> (nat \<Rightarrow> byte list option) \<Rightarrow> client_request \<Rightarrow>
    string list \<Rightarrow> string list \<Rightarrow> request" where
  "arriving wire now bits cr raw segs =
     \<lparr>Method = crMethod cr, Segments = segs, DotSegments = list_ex (\<lambda>x. x = ''.'' \<or> x = ''..'') raw,
      Authorization = crAuthorization cr, Traceparent = [], Query = crQuery cr, TaskBody = BadJSON ''EOF'', TasksBody = BadJSON ''EOF'',
      SelectorBody = (case crBody cr of None \<Rightarrow> Inl ''EOF'' | Some b \<Rightarrow> wire b), ConfigBody = Inl ''EOF'', Now = now, Rnd = bits\<rparr>"

definition network :: "http_lib \<Rightarrow> front \<Rightarrow> string \<Rightarrow> (selector_request \<Rightarrow> string + selector_request) \<Rightarrow> time \<Rightarrow>
    (nat \<Rightarrow> byte list option) \<Rightarrow> ('s, 'c) server http_exchange" where
  "network hl fr base wire now bits cr s = (case CutPrefix (crURL cr) (base @ ''/'') of
      None \<Rightarrow> (Inl ''no such host'', s)
    | Some path \<Rightarrow> (let raw = Split1 path CHR ''/'' in
        case those (map PathUnescape raw) of
          None \<Rightarrow> (Inr \<lparr>RStatus = 400, RHeaders = [], RBody = NoBody\<rparr>, s)
        | Some segs \<Rightarrow> (case buildHandler hl fr (arriving wire now bits cr raw segs) s of
            Some (V1 resp, s') \<Rightarrow> (Inr resp, s')
          | Some (Front st _, s') \<Rightarrow> (Inr \<lparr>RStatus = st, RHeaders = [], RBody = NoBody\<rparr>, s')
          | None \<Rightarrow> (Inl ''timeout'', s))))"

lemma unescape_plain: "list_all path_plain s \<Longrightarrow> PathUnescape s = Some s"
  by (induction s) (auto simp: path_plain_def)

lemma escape_plain: "list_all path_plain s \<Longrightarrow> PathEscape s = s"
  by (induction s) (auto simp: PathEscape_def)

lemma legal_queue_plain:
  assumes "ValidateQueue q = None"
  shows "list_all path_plain q" "CHR ''/'' \<notin> set q" "q \<noteq> []"
proof -
  have n: "list_all name_char q" "q \<noteq> []"
    using assms by (auto simp: ValidateQueue_def validateName_def nameRE_match_def split: if_splits)
  have "name_char c \<Longrightarrow> path_plain c \<and> c \<noteq> CHR ''/''" for c
    by (auto simp: name_char_def path_plain_def less_eq_char_def)
  then show "list_all path_plain q" "CHR ''/'' \<notin> set q" "q \<noteq> []" using n by (auto simp: list_all_iff)
qed

text \<open>A request for a subresource of a legally named queue reaches the versioned interface as its three segments.\<close>

lemma network_queue:
  assumes "ValidateQueue q = None" "q \<noteq> ''.''" "q \<noteq> ''..''" "crURL cr = base @ ''/v1/queues/'' @ PathEscape q @ CHR ''/'' # t"
    "list_all path_plain t" "t \<noteq> ''.''" "t \<noteq> ''..''" "t \<noteq> []"
    "r = arriving wire now bits cr [''v1'', ''queues'', q, t] [''queues'', q, t]"
  shows "network hl fr base wire now bits cr s = (case withAuth hl r s of Some (resp, s') \<Rightarrow> (Inr resp, s') | None \<Rightarrow> (Inl ''timeout'', s))"
proof -
  note q = legal_queue_plain [OF assms(1)]
  have t: "CHR ''/'' \<notin> set t" using assms(5) by (auto simp: list_all_iff path_plain_def less_eq_char_def)
  have "crURL cr = (base @ ''/'') @ ''v1/queues/'' @ q @ CHR ''/'' # t" using assms(4) escape_plain [OF q(1)] by simp
  then have cut: "CutPrefix (crURL cr) (base @ ''/'') = Some (''v1/queues/'' @ q @ CHR ''/'' # t)" by (simp only: CutPrefix_append)
  have split: "Split1 (''v1/queues/'' @ q @ CHR ''/'' # t) CHR ''/'' = [''v1'', ''queues'', q, t]"
    using q(2) t by (simp add: Split1_append Split1_no_sep)
  have un: "those (map PathUnescape [''v1'', ''queues'', q, t]) = Some [''v1'', ''queues'', q, t]"
    using unescape_plain [OF q(1)] unescape_plain [OF assms(5)] by simp
  have c: "clean (arriving wire now bits cr [''v1'', ''queues'', q, t] [''v1'', ''queues'', q, t])" "clean r"
    "(arriving wire now bits cr [''v1'', ''queues'', q, t] [''v1'', ''queues'', q, t])\<lparr>Segments := [''queues'', q, t]\<rparr> = r"
    using assms(2,3,6-9) q(3) by (auto simp: clean_def arriving_def)
  have "buildHandler hl fr (arriving wire now bits cr [''v1'', ''queues'', q, t] [''v1'', ''queues'', q, t]) s =
      map_option (\<lambda>(resp, s'). (V1 resp, s')) (withAuth hl r s)"
    using c by (simp add: buildHandler_def) (simp add: arriving_def serve_v1_def)
  then show ?thesis
    by (simp only: network_def cut option.case Let_def split un) (simp split: option.split prod.split)
qed

text \<open>Who may operate on a queue: anybody on an open server, otherwise the holder of a token with the role.\<close>

definition may :: "role \<Rightarrow> string \<Rightarrow> string \<Rightarrow> ('s, 'c) server \<Rightarrow> bool" where
  "may rl q auth s \<longleftrightarrow> (case authz s of None \<Rightarrow> True
     | Some toks \<Rightarrow> (case Authenticate toks auth of None \<Rightarrow> False | Some p \<Rightarrow> Allows p q rl))"

lemma withAuth_queue:
  assumes "Segments r = [''queues'', q, t]" "ValidateQueue q = None" "list_all path_plain t" "t \<noteq> []"
    "classifySegs (Method r) [''queues'', q, t] = Some (queueOp rl q)" "may rl q (Authorization r) s"
  shows "\<exists>who. withAuth hl r s = v1Handler hl who r s"
proof (cases "authz s")
  case None
  then show ?thesis by (auto simp: withAuth_def)
next
  case (Some toks)
  have sl: "\<forall>x \<in> set (Segments r). CHR ''/'' \<notin> set x"
    using assms(1,3) legal_queue_plain(2) [OF assms(2)] by (auto simp: list_all_iff path_plain_def less_eq_char_def)
  have "classifyAuthOp (Method r) (URL_Path r) = Some (queueOp rl q)"
    using classify_path [OF _ _ _ sl, of "Method r"] assms(1,4,5) by simp
  moreover obtain p where "Authenticate toks (Authorization r) = Some p" "Allows p q rl"
    using assms(6) Some by (auto simp: may_def split: option.splits)
  ultimately show ?thesis
    using Some queueOp_authorized [of hl r s p rl q] by (auto simp: withAuth_def authMiddleware_def)
qed

section \<open>The two modes\<close>

text \<open>What the JSON decoder of the client makes of the bodies the server writes: residual fields are not part of them.\<close>

definition json_attempt :: "attempt \<Rightarrow> attempt" where
  "json_attempt a = a\<lparr>AResidual := []\<rparr>"

definition json_task :: "envelope \<Rightarrow> envelope" where
  "json_task e = e\<lparr>Residual := [], Attempts := map json_attempt (Attempts e)\<rparr>"

definition client_reads :: "cli_lib \<Rightarrow> bool" where
  "client_reads lib \<longleftrightarrow> (\<forall>n. cl_count lib (CountOut n) = Inr n) \<and>
     (\<forall>es c. cl_list lib (DLQOut es c) = Inr (Some (map json_task es), c))"

lemma withAuth_mutate:
  assumes "Segments r = [''queues'', q, t]" "ValidateQueue q = None" "Method r = ''POST''"
    "t = ''dlq:redrive'' \<or> t = ''dlq:purge''" "may RoleOperator q (Authorization r) s"
  shows "\<exists>who. withAuth hl r s = (if t = ''dlq:redrive'' then handleRedrive hl who q r s else handlePurge hl who q r s)"
proof -
  have "list_all path_plain t" "t \<noteq> []" using assms(4) by (auto simp: path_plain_def less_eq_char_def)
  moreover have "classifySegs (Method r) [''queues'', q, t] = Some (queueOp RoleOperator q)"
    using assms(3,4) legal_queue_plain(3) [OF assms(2)] by (auto simp: classifySegs_def Let_def)
  ultimately obtain who where "withAuth hl r s = v1Handler hl who r s"
    using withAuth_queue [OF assms(1,2)] assms(5) by blast
  then show ?thesis using assms(1,3,4) by (auto simp: v1Handler_def only_def)
qed

lemma mutate_pushdown:
  assumes "storage_of s = Some st" "FilterPushdown (st_Capabilities st)" "SelectorBody r = Inr \<lparr>rIDs = IDs sel, rFilter = Filter sel\<rparr>"
    "IDs sel = [] \<or> Filter sel = None"
  shows "\<exists>resp s'. handleDLQMutate hl op action who q r s = Some (resp, s') \<and> store_of s' = snd (op st (store_of s) q sel) \<and>
    (case fst (op st (store_of s) q sel) of Inr n \<Rightarrow> RStatus resp = 200 \<and> RBody resp = CountOut n | Inl e \<Rightarrow> RStatus resp \<noteq> 200)"
proof -
  obtain x y where sel: "sel = \<lparr>IDs = x, Filter = y\<rparr>" by (cases sel)
  have "handleDLQMutate hl op action who q r s =
      Some (mutateSelected hl (op st) action who q r \<lparr>rIDs = IDs sel, rFilter = Filter sel\<rparr> sel s)"
    using assms by (cases y) (simp_all add: handleDLQMutate_def sel)
  then show ?thesis
    by (auto simp: mutateSelected_def writeJSON_def emit_def split: prod.splits sum.splits)
qed

lemma api_mutate:
  assumes "client_reads lib" "ValidateQueue q = None" "q \<noteq> ''.''" "q \<noteq> ''..''" "storage_of s = Some st"
    "FilterPushdown (st_Capabilities st)" "wire \<lparr>rIDs = IDs sel, rFilter = Filter sel\<rparr> = Inr \<lparr>rIDs = IDs sel, rFilter = Filter sel\<rparr>"
    "IDs sel = [] \<or> Filter sel = None" "may RoleOperator q (if at_token a \<noteq> [] then ''Bearer '' @ at_token a else []) s"
    "action = ''redrive'' \<or> action = ''purge''"
    "op = (if action = ''redrive'' then st_Redrive st now else st_Purge st)"
  shows "\<exists>res s'. dlqMutate lib (network hl fr (at_base a) wire now bits) a q action sel s = (res, s') \<and>
    store_of s' = snd (op (store_of s) q sel) \<and>
    (case fst (op (store_of s) q sel) of Inr n \<Rightarrow> res = Inr n | Inl e \<Rightarrow> \<exists>m. res = Inl m)"
proof -
  let ?cr = "\<lparr>crMethod = ''POST'', crURL = at_base a @ ''/v1'' @ ''/queues/'' @ PathEscape q @ ''/dlq:'' @ action, crQuery = [],
     crAuthorization = (if at_token a \<noteq> [] then ''Bearer '' @ at_token a else []), crBody = Some \<lparr>rIDs = IDs sel, rFilter = Filter sel\<rparr>\<rparr>"
  let ?t = "''dlq:'' @ action"
  let ?r = "arriving wire now bits ?cr [''v1'', ''queues'', q, ?t] [''queues'', q, ?t]"
  have t: "list_all path_plain ?t" "?t \<noteq> ''.''" "?t \<noteq> ''..''" "?t \<noteq> []" "?t = ''dlq:redrive'' \<or> ?t = ''dlq:purge''"
    using assms(10) by (auto simp: path_plain_def less_eq_char_def)
  have net: "network hl fr (at_base a) wire now bits ?cr s =
      (case withAuth hl ?r s of Some (resp, s') \<Rightarrow> (Inr resp, s') | None \<Rightarrow> (Inl ''timeout'', s))"
    by (rule network_queue [OF assms(2-4) _ t(1-4) refl]) simp
  obtain who where who: "withAuth hl ?r s = (if ?t = ''dlq:redrive'' then handleRedrive hl who q ?r s else handlePurge hl who q ?r s)"
    using withAuth_mutate [of ?r q ?t s hl] assms(2,9) t(5) by (auto simp: arriving_def)
  have body: "SelectorBody ?r = Inr \<lparr>rIDs = IDs sel, rFilter = Filter sel\<rparr>" using assms(7) by (simp add: arriving_def)
  obtain resp s' where w: "withAuth hl ?r s = Some (resp, s')" "store_of s' = snd (op (store_of s) q sel)"
    "case fst (op (store_of s) q sel) of Inr n \<Rightarrow> RStatus resp = 200 \<and> RBody resp = CountOut n | Inl e \<Rightarrow> RStatus resp \<noteq> 200"
  proof (cases "action = ''redrive''")
    case True
    have "withAuth hl ?r s = handleDLQMutate hl (\<lambda>st s0 q sel. st_Redrive st now s0 q sel) ActionRedrive who q ?r s"
      unfolding who handleRedrive_def using True by (simp add: arriving_def)
    then show thesis
      using mutate_pushdown [OF assms(5,6) body assms(8), of hl "\<lambda>st s0 q sel. st_Redrive st now s0 q sel" ActionRedrive who q]
        that True assms(11) by auto
  next
    case False
    have "withAuth hl ?r s = handleDLQMutate hl (\<lambda>st s0 q sel. st_Purge st s0 q sel) ActionPurge who q ?r s"
      unfolding who handlePurge_def using False assms(10) by auto
    then show thesis
      using mutate_pushdown [OF assms(5,6) body assms(8), of hl "\<lambda>st s0 q sel. st_Purge st s0 q sel" ActionPurge who q]
        that False assms(11) by auto
  qed
  have "dlqMutate lib (network hl fr (at_base a) wire now bits) a q action sel s =
      api_result lib (cl_count lib) (network hl fr (at_base a) wire now bits ?cr s)"
    by (simp only: dlqMutate_def api_req_def append_assoc)
  also have "\<dots> = (if RStatus resp \<noteq> 200 then Inl (apiErr lib resp) else cl_count lib (RBody resp), s')"
    unfolding net w(1) by (simp add: api_result_def)
  finally show ?thesis using w(2,3) assms(1) by (auto simp: client_reads_def split: sum.splits)
qed

definition same_run :: "string option \<times> out list \<times> ('s, 'c) server \<Rightarrow> string option \<times> out list \<times> 's direct_world \<Rightarrow> bool" where
  "same_run x y \<longleftrightarrow> (fst x = None \<longleftrightarrow> fst y = None) \<and> fst (snd x) = fst (snd y) \<and>
     store_of (snd (snd x)) = dw_store (snd (snd y))"

lemma buildSelector_one: "buildSelector lib ids ff = Inr sel \<Longrightarrow> IDs sel = [] \<or> Filter sel = None"
  by (auto simp: buildSelector_def Let_def split: if_splits sum.splits)

lemma run_mutate_same:
  assumes "dw_store w = store_of s"
    "\<And>sets left sel. parseFlags lib ((''id'', StringFlag) # filter_defs) args [] = Inr (sets, left) \<Longrightarrow>
       buildSelector lib (multiString sets ''id'') (filter_values sets) = Inr sel \<Longrightarrow> \<exists>res s'. op1 q sel s = (res, s') \<and> store_of s' = snd (op (store_of s) q sel) \<and>
       (case fst (op (store_of s) q sel) of Inr n \<Rightarrow> res = Inr n | Inl e \<Rightarrow> \<exists>m. res = Inl m)"
    "\<And>sel. op2 q sel w = (texted lib (fst (op (dw_store w) q sel)), w\<lparr>dw_store := snd (op (dw_store w) q sel)\<rparr>)"
  shows "same_run (run_mutate lib op1 what verb (q # args) s) (run_mutate lib op2 what verb (q # args) w)"
proof (cases "parseFlags lib ((''id'', StringFlag) # filter_defs) args []")
  case (Inl e)
  then show ?thesis using assms(1) by (simp add: run_mutate_def same_run_def fails_def)
next
  case (Inr p)
  obtain sets left where p: "p = (sets, left)" by (rule prod.exhaust)
  show ?thesis
  proof (cases "buildSelector lib (multiString sets ''id'') (filter_values sets)")
    case (Inl e)
    then show ?thesis using Inr p assms(1) by (simp add: run_mutate_def same_run_def fails_def)
  next
    case sel: (Inr sel)
    obtain res s' where r: "op1 q sel s = (res, s')" "store_of s' = snd (op (store_of s) q sel)"
      "case fst (op (store_of s) q sel) of Inr n \<Rightarrow> res = Inr n | Inl e \<Rightarrow> \<exists>m. res = Inl m"
      using assms(2) [OF Inr [unfolded p] sel] by blast
    show ?thesis
      using Inr p sel r assms(1,3)
      by (cases "fst (op (store_of s) q sel)") (auto simp: run_mutate_def same_run_def fails_def texted_def)
  qed
qed

section \<open>Listing\<close>

definition exact :: "cli_lib \<Rightarrow> http_lib \<Rightarrow> time option \<Rightarrow> bool" where
  "exact lib hl x \<longleftrightarrow> (case x of None \<Rightarrow> True | Some t \<Rightarrow> lib_time hl (cl_formatTime lib t) = Some t \<and> cl_formatTime lib t \<noteq> [])"

lemma map_of_optional:
  "map_of ((if c then [(a, v)] else []) @ ys) k = (if k = a \<and> c then Some v else map_of ys k)"
  "map_of ((case x of None \<Rightarrow> [] | Some t \<Rightarrow> [(a, g t)]) @ ys) k = (if k = a \<and> x \<noteq> None then Some (g (the x)) else map_of ys k)"
  "map_of (if c then [(a, v)] else []) k = (if k = a \<and> c then Some v else None)"
  by (auto split: option.splits)

lemma list_params:
  assumes "Query r = list_query lib f pg" "exact lib hl (DeadLetteredAfter f)" "exact lib hl (DeadLetteredBefore f)"
    "Limit pg \<le> max_int64"
  shows "query_Get r ''error_type'' = FErrorType f" "query_Get r ''handler_ref'' = FHandlerRef f" "query_Get r ''cursor'' = After pg"
    "optional_param (lib_time hl) (query_Get r ''from'') = Inr (DeadLetteredAfter f)"
    "optional_param (lib_time hl) (query_Get r ''to'') = Inr (DeadLetteredBefore f)"
    "optional_param parse_limit (query_Get r ''limit'') = Inr (if Limit pg > 0 then Some (Limit pg) else None)"
proof -
  note q = query_Get_def assms(1) list_query_def map_of_optional
  show "query_Get r ''error_type'' = FErrorType f" "query_Get r ''handler_ref'' = FHandlerRef f" "query_Get r ''cursor'' = After pg"
    unfolding q by simp_all
  show "optional_param (lib_time hl) (query_Get r ''from'') = Inr (DeadLetteredAfter f)"
    using assms(2) unfolding q by (cases "DeadLetteredAfter f") (simp_all add: exact_def optional_param_def)
  show "optional_param (lib_time hl) (query_Get r ''to'') = Inr (DeadLetteredBefore f)"
    using assms(3) unfolding q by (cases "DeadLetteredBefore f") (simp_all add: exact_def optional_param_def)
  have "FormatInt n \<noteq> []" for n by (simp add: FormatInt_def)
  moreover have "ParseInt (FormatInt (Limit pg)) = Some (Limit pg)" if "0 < Limit pg"
    using that assms(4) by (intro ParseInt_FormatInt) auto
  ultimately show "optional_param parse_limit (query_Get r ''limit'') = Inr (if Limit pg > 0 then Some (Limit pg) else None)"
    unfolding q by (simp add: optional_param_def parse_limit_def)
qed

lemma pg_default_limit:
  "Limit pg \<le> 0 \<Longrightarrow> pg_DLQList plib s q f \<lparr>Limit = 0, After = After pg\<rparr> = pg_DLQList plib s q f pg"
  by (simp add: pg_DLQList_def)

lemma api_list:
  assumes "client_reads lib" "ValidateQueue q = None" "q \<noteq> ''.''" "q \<noteq> ''..''" "storage_of s = Some (postgres plib)"
    "may RoleOperator q (if at_token a \<noteq> [] then ''Bearer '' @ at_token a else []) s"
    "exact lib hl (DeadLetteredAfter f)" "exact lib hl (DeadLetteredBefore f)" "Limit pg \<le> max_int64" "\<not> IncludeAttempts f"
  shows "\<exists>res. api_DLQList lib (network hl fr (at_base a) wire now bits) a q f pg s = (res, s) \<and>
    (case pg_DLQList plib (store_of s) q f pg of Inr (es, c) \<Rightarrow> res = Inr (map json_task es, c) | Inl e \<Rightarrow> \<exists>m. res = Inl m)"
proof -
  let ?cr = "\<lparr>crMethod = ''GET'', crURL = at_base a @ ''/v1'' @ ''/queues/'' @ PathEscape q @ ''/dlq'', crQuery = list_query lib f pg,
     crAuthorization = (if at_token a \<noteq> [] then ''Bearer '' @ at_token a else []), crBody = None\<rparr>"
  let ?r = "arriving wire now bits ?cr [''v1'', ''queues'', q, ''dlq''] [''queues'', q, ''dlq'']"
  have t: "list_all path_plain ''dlq''" by (simp add: path_plain_def less_eq_char_def)
  have net: "network hl fr (at_base a) wire now bits ?cr s =
      (case withAuth hl ?r s of Some (resp, s') \<Rightarrow> (Inr resp, s') | None \<Rightarrow> (Inl ''timeout'', s))"
    by (rule network_queue [OF assms(2-4) _ t _ _ _ refl]) simp_all
  have seg: "Segments ?r = [''queues'', q, ''dlq'']" "Method ?r = ''GET''" by (simp_all add: arriving_def)
  have "classifySegs (Method ?r) [''queues'', q, ''dlq''] = Some (queueOp RoleOperator q)"
    using legal_queue_plain(3) [OF assms(2)] by (simp add: classifySegs_def Let_def arriving_def)
  moreover have "may RoleOperator q (Authorization ?r) s" using assms(6) by (simp add: arriving_def)
  ultimately obtain who where "withAuth hl ?r s = v1Handler hl who ?r s"
    using withAuth_queue [OF seg(1) assms(2) t] by blast
  then have w: "withAuth hl ?r s = Some (handleDLQList hl q ?r s)" using seg by (simp add: v1Handler_def only_def)
  have qry: "Query ?r = list_query lib f pg" by (simp add: arriving_def)
  note p = list_params [OF qry assms(7-9)]
  have f: "\<lparr>FErrorType = FErrorType f, FHandlerRef = FHandlerRef f, DeadLetteredAfter = DeadLetteredAfter f,
      DeadLetteredBefore = DeadLetteredBefore f, IncludeAttempts = False\<rparr> = f" using assms(10) by (cases f) simp
  have pgd: "st_DLQList (postgres plib) (store_of s) q f \<lparr>Limit = or_else (if Limit pg > 0 then Some (Limit pg) else None) 0, After = After pg\<rparr> =
      pg_DLQList plib (store_of s) q f pg"
    using pg_default_limit [of pg] by (cases pg) (auto simp: postgres_def split: if_splits)
  have "\<exists>resp. handleDLQList hl q ?r s = (resp, s) \<and> (case pg_DLQList plib (store_of s) q f pg of
      Inr (es, c) \<Rightarrow> RStatus resp = 200 \<and> RBody resp = DLQOut es c | Inl e \<Rightarrow> RStatus resp \<noteq> 200)"
    unfolding handleDLQList_def assms(5) option.case p sum.case f pgd by (simp add: writeJSON_def split: sum.split spi_error.split)
  then obtain resp where resp: "handleDLQList hl q ?r s = (resp, s)" "case pg_DLQList plib (store_of s) q f pg of
      Inr (es, c) \<Rightarrow> RStatus resp = 200 \<and> RBody resp = DLQOut es c | Inl e \<Rightarrow> RStatus resp \<noteq> 200" by blast
  let ?dec = "\<lambda>b. case cl_list lib b of Inl e \<Rightarrow> Inl e | Inr (listed, nxt) \<Rightarrow> Inr (or_else listed [], nxt)"
  have "api_DLQList lib (network hl fr (at_base a) wire now bits) a q f pg s =
      api_result lib ?dec (network hl fr (at_base a) wire now bits ?cr s)"
    by (simp only: api_DLQList_def api_req_def append_assoc)
  also have "\<dots> = (if RStatus resp \<noteq> 200 then Inl (apiErr lib resp) else ?dec (RBody resp), s)"
    unfolding net w resp(1) by (simp add: api_result_def)
  finally show ?thesis using resp(2) assms(1) by (auto simp: client_reads_def split: sum.splits prod.splits)
qed

lemma run_list_same:
  assumes "client_reads lib" "ValidateQueue q = None" "q \<noteq> ''.''" "q \<noteq> ''..''" "storage_of s = Some (postgres plib)"
    "dw_store w = store_of s" "may RoleOperator q (if at_token a \<noteq> [] then ''Bearer '' @ at_token a else []) s"
    "\<And>sets left f. parseFlags lib ([(''limit'', IntFlag), (''cursor'', StringFlag)] @ filter_defs) args [] = Inr (sets, left) \<Longrightarrow>
       buildFilter lib (filter_values sets) = Inr f \<Longrightarrow>
       exact lib hl (DeadLetteredAfter f) \<and> exact lib hl (DeadLetteredBefore f) \<and> flagInt lib sets ''limit'' 20 \<le> max_int64"
  shows "same_run (runDLQList lib (api lib (network hl fr (at_base a) wire now bits) a) (q # args) s)
    (runDLQList lib (direct lib slib (postgres plib) now) (q # args) w)"
proof (cases "parseFlags lib ([(''limit'', IntFlag), (''cursor'', StringFlag)] @ filter_defs) args []")
  case (Inl e)
  then show ?thesis using assms(6) by (simp add: runDLQList_def same_run_def fails_def)
next
  case (Inr p)
  obtain sets left where p: "p = (sets, left)" by (rule prod.exhaust)
  note flags = Inr [unfolded p]
  show ?thesis
  proof (cases "buildFilter lib (filter_values sets)")
    case (Inl e)
    then show ?thesis using flags assms(6) by (simp add: runDLQList_def same_run_def fails_def)
  next
    case f: (Inr f)
    let ?pg = "\<lparr>Limit = flagInt lib sets ''limit'' 20, After = flagValue sets ''cursor'' []\<rparr>"
    have ex: "exact lib hl (DeadLetteredAfter f)" "exact lib hl (DeadLetteredBefore f)" "Limit ?pg \<le> max_int64"
      using assms(8) [OF flags f] by simp_all
    have "\<not> IncludeAttempts f" using f by (auto simp: buildFilter_def split: sum.splits)
    then obtain res where r: "api_DLQList lib (network hl fr (at_base a) wire now bits) a q f ?pg s = (res, s)"
      "case pg_DLQList plib (store_of s) q f ?pg of Inr (es, c) \<Rightarrow> res = Inr (map json_task es, c) | Inl e \<Rightarrow> \<exists>m. res = Inl m"
      using api_list [OF assms(1-5,7) ex] by blast
    have d: "tr_DLQList (direct lib slib (postgres plib) now) q f ?pg w = (texted lib (pg_DLQList plib (store_of s) q f ?pg), w)"
      by (simp add: direct_def direct_DLQList_def postgres_def assms(6))
    have cells: "map task_cells (map json_task es) = map task_cells es" for es by (simp add: task_cells_def json_task_def)
    show ?thesis
      using flags f r d assms(6)
      by (cases "pg_DLQList plib (store_of s) q f ?pg")
        (auto simp: runDLQList_def same_run_def fails_def texted_def api_def cells simp del: map_map split: prod.splits)
  qed
qed

text \<open>The selectors JSON carries unchanged: texts of well-formed UTF-8 and times with a four-digit year.\<close>

definition wire_safe :: "selector_request \<Rightarrow> bool" where
  "wire_safe b \<longleftrightarrow> list_all valid_utf8 (rIDs b) \<and>
     (\<forall>f. rFilter b = Some f \<longrightarrow> valid_utf8 (FErrorType f) \<and> valid_utf8 (FHandlerRef f) \<and>
        (\<forall>t \<in> set_option (DeadLetteredAfter f) \<union> set_option (DeadLetteredBefore f). 0 \<le> year t \<and> year t \<le> 9999))"

text \<open>C39: the two modes of the command line agree, under conditions. For a legally named queue other than the dot
  names (which the router rewrites), a caller with the operator role, and arguments whose selector JSON
  carries unchanged (well-formed UTF-8, four-digit years), listing, redriving and purging dead letters over the
  server's REST interface succeed exactly when they do directly on the database, print the same and leave the same
  tasks, provided the time bounds given to the listing are whole seconds, which the text of its query is cut to.\<close>

theorem cli_modes_agree:
  assumes "client_reads lib" "\<And>b. wire_safe b \<Longrightarrow> wire b = Inr b" "ValidateQueue q = None" "q \<noteq> ''.''" "q \<noteq> ''..''"
    "storage_of s = Some (postgres plib)" "dw_store w = store_of s"
    "may RoleOperator q (if at_token a \<noteq> [] then ''Bearer '' @ at_token a else []) s"
    "\<And>sets left f. parseFlags lib ([(''limit'', IntFlag), (''cursor'', StringFlag)] @ filter_defs) args [] = Inr (sets, left) \<Longrightarrow>
       buildFilter lib (filter_values sets) = Inr f \<Longrightarrow>
       exact lib hl (DeadLetteredAfter f) \<and> exact lib hl (DeadLetteredBefore f) \<and> flagInt lib sets ''limit'' 20 \<le> max_int64"
    "\<And>sets left sel. parseFlags lib ((''id'', StringFlag) # filter_defs) args [] = Inr (sets, left) \<Longrightarrow>
       buildSelector lib (multiString sets ''id'') (filter_values sets) = Inr sel \<Longrightarrow> wire_safe \<lparr>rIDs = IDs sel, rFilter = Filter sel\<rparr>"
    "served = api lib (network hl fr (at_base a) wire now bits) a" "local = direct lib slib (postgres plib) now"
  shows "same_run (dispatch lib served (''dlq'' # ''redrive'' # q # args) s) (dispatch lib local (''dlq'' # ''redrive'' # q # args) w) \<and>
    same_run (dispatch lib served (''dlq'' # ''purge'' # q # args) s) (dispatch lib local (''dlq'' # ''purge'' # q # args) w) \<and>
    same_run (dispatch lib served (''dlq'' # ''list'' # q # args) s) (dispatch lib local (''dlq'' # ''list'' # q # args) w)"
proof -
  have push: "FilterPushdown (st_Capabilities (postgres plib))" by (simp add: postgres_def pg_Capabilities_def)
  have mutate: "\<exists>res s'. dlqMutate lib (network hl fr (at_base a) wire now bits) a q action sel s = (res, s') \<and>
      store_of s' = snd (op (store_of s) q sel) \<and>
      (case fst (op (store_of s) q sel) of Inr n \<Rightarrow> res = Inr n | Inl e \<Rightarrow> \<exists>m. res = Inl m)"
    if "parseFlags lib ((''id'', StringFlag) # filter_defs) args [] = Inr (sets, left)"
      "buildSelector lib (multiString sets ''id'') (filter_values sets) = Inr sel"
      "action = ''redrive'' \<or> action = ''purge''"
      "op = (if action = ''redrive'' then st_Redrive (postgres plib) now else st_Purge (postgres plib))" for sets left sel action op
    by (rule api_mutate [where wire = wire and sel = sel, OF assms(1,3-6) push assms(2) [OF assms(10) [OF that(1,2)]] buildSelector_one [OF that(2)] assms(8) that(3,4)])
  have "same_run (runDLQRedrive lib served (q # args) s) (runDLQRedrive lib local (q # args) w)"
    unfolding runDLQRedrive_def
    by (rule run_mutate_same [where op = "pg_Redrive plib now", OF assms(7)])
      (use mutate [where action = "''redrive''"] in
        \<open>simp_all add: assms(11,12) api_def direct_def direct_Redrive_def postgres_def split_beta Let_def\<close>)
  moreover have "same_run (runDLQPurge lib served (q # args) s) (runDLQPurge lib local (q # args) w)"
    unfolding runDLQPurge_def
    by (rule run_mutate_same [where op = "pg_Purge plib", OF assms(7)])
      (use mutate [where action = "''purge''"] in
        \<open>simp_all add: assms(11,12) api_def direct_def direct_Purge_def postgres_def split_beta Let_def\<close>)
  moreover have "same_run (runDLQList lib served (q # args) s) (runDLQList lib local (q # args) w)"
    unfolding assms(11,12) by (rule run_list_same [OF assms(1,3-8)]) (rule assms(9))
  ultimately show ?thesis by (simp add: dispatch_def)
qed

definition sample_cli :: cli_lib where
  "sample_cli = \<lparr>cl_int = ParseInt, cl_quote = (\<lambda>s. s), cl_parseTime = (\<lambda>_. None), cl_formatTime = FormatInt, cl_duration = FormatInt,
     cl_url_ok = (\<lambda>_. True), cl_problem = (\<lambda>_. ([], [])), cl_count = (\<lambda>b. case b of CountOut n \<Rightarrow> Inr n | _ \<Rightarrow> Inl ''EOF''),
     cl_stats = (\<lambda>_. Inl ''EOF''), cl_task = (\<lambda>_. Inl ''EOF''),
     cl_list = (\<lambda>b. case b of DLQOut es c \<Rightarrow> Inr (Some (map json_task es), c) | _ \<Rightarrow> Inl ''EOF''), cl_json = (\<lambda>_. ''{}''),
     cl_spi = (\<lambda>_. ''ERROR'')\<rparr>"

definition pg_server :: "(pg, cfg_store) server" where
  "pg_server = \<lparr>storage_of = Some (postgres Postgres_Props.sample_lib), store_of = pg_dead, configStore = None, cfg_of = NewMemStore,
     authz = Some [(''t'', \<lparr>PName = ''ops'', Grants = [\<lparr>GQueue = ''q'', GRole = RoleOperator\<rparr>]\<rparr>)],
     maxPayloadBytes = 1000, pausedSet = [], auditSink = True, auditLog = []\<rparr>"

definition sample_front :: front where
  "sample_front = \<lparr>probes = [], metricsHandler = None, hasLogger = False\<rparr>"

lemma pg_dead_rows:
  "rdq_dlq_task pg_dead = [deadRow 9000 None (leased 15000 ''u'' (sample_row ''a''))]" "map tID (rdq_task pg_dead) = [''b'']"
  by (simp_all add: pg_dead_def pg_DeadLetter_def pg_claimed_value pg_pending_value pg_eval sample_row_def spendClaim_def
    attemptRowFromAttempt_def deadLetterSQL_def staleIfNoRows_def insertAttempt_def bind_attempt_def deadRow_def
    dlq_row.defs add_attempt_def sample_attempt_def fence_def leased_def Outcome_Valid_def)

lemma sample_parse:
  "parseFlags sample_cli ([(''limit'', IntFlag), (''cursor'', StringFlag)] @ filter_defs) [''--handler-ref'', ''h''] [] =
     Inr ([(''handler-ref'', ''h'')], [])"
  "parseFlags sample_cli ((''id'', StringFlag) # filter_defs) [''--handler-ref'', ''h''] [] = Inr ([(''handler-ref'', ''h'')], [])"
  by (simp_all add: flagName_def setFlag_def filter_defs_def)

lemma sample_redriven:
  "fst (snd (dispatch sample_cli (direct sample_cli sample_schema (postgres Postgres_Props.sample_lib) 20000)
     (''dlq'' # ''redrive'' # ''q'' # [''--handler-ref'', ''h'']) \<lparr>dw_store = pg_dead, dw_schema = empty_schema\<rparr>)) = [Line ''redrived: 1'']"
proof -
  have "tID ` set (rdq_task pg_dead) = {''b''}" using arg_cong [OF pg_dead_rows(2), of set] by simp
  then have "''a'' \<notin> tID ` set (rdq_task pg_dead)" by simp
  then have "\<not> list_ex (\<lambda>l. tID l = ''a'') (rdq_task pg_dead)" unfolding list_ex_iff by (metis image_eqI)
  then have "fst (pg_Redrive Postgres_Props.sample_lib 20000 pg_dead ''q'' \<lparr>IDs = [], Filter = Some \<lparr>FErrorType = [], FHandlerRef = ''h'',
      DeadLetteredAfter = None, DeadLetteredBefore = None, IncludeAttempts = False\<rparr>\<rparr>) = Inr 1"
    by (simp add: pg_Redrive_def dlqSelectorClause_def filterCond_def selector_texts_def filter_texts_def texts_ok_def pg_dead_rows(1)
      deadRow_def leased_def sample_row_def Postgres_Props.sample_lib_def task_row.defs dlq_row.defs int4_def)
  moreover have "buildSelector sample_cli (multiString [(''handler-ref'', ''h'')] ''id'') (filter_values [(''handler-ref'', ''h'')]) =
      Inr \<lparr>IDs = [], Filter = Some \<lparr>FErrorType = [], FHandlerRef = ''h'', DeadLetteredAfter = None, DeadLetteredBefore = None, IncludeAttempts = False\<rparr>\<rparr>"
    by (simp add: buildSelector_def filter_values_def flagValue_def multiString_def buildFilter_def optional_param_def)
  moreover have "FormatInt 1 = ''1''" by code_simp
  ultimately show ?thesis
    by (simp add: dispatch_def runDLQRedrive_def run_mutate_def sample_parse(2) direct_def direct_Redrive_def postgres_def split_beta
      texted_def del: parseFlags.simps)
qed

theorem cli_modes_agree_witness:
  "fst (snd (dispatch sample_cli (api sample_cli (network Server_Http_Props.sample_lib sample_front ''http://rdq'' Inr 20000 (\<lambda>_. None))
     \<lparr>at_base = ''http://rdq'', at_token = ''t''\<rparr>) (''dlq'' # ''redrive'' # ''q'' # [''--handler-ref'', ''h'']) pg_server)) = [Line ''redrived: 1'']"
proof -
  let ?a = "\<lparr>at_base = ''http://rdq'', at_token = ''t''\<rparr>"
  have reads: "client_reads sample_cli" by (simp add: client_reads_def sample_cli_def)
  have q: "ValidateQueue ''q'' = None" by (simp add: ValidateQueue_def validateName_def MaxNameLen_def nameRE_match_def name_char_def less_eq_char_def)
  have st: "storage_of pg_server = Some (postgres Postgres_Props.sample_lib)"
    "dw_store \<lparr>dw_store = pg_dead, dw_schema = empty_schema\<rparr> = store_of pg_server" by (simp_all add: pg_server_def)
  have may: "may RoleOperator ''q'' (if at_token ?a \<noteq> [] then ''Bearer '' @ at_token ?a else []) pg_server"
  proof -
    have "(case Authenticate [(''t'', \<lparr>PName = ''ops'', Grants = [\<lparr>GQueue = ''q'', GRole = RoleOperator\<rparr>]\<rparr>)] ''Bearer t'' of
        None \<Rightarrow> False | Some p \<Rightarrow> Allows p ''q'' RoleOperator)" by code_simp
    then show ?thesis by (simp add: may_def pg_server_def)
  qed
  have flags: "exact sample_cli Server_Http_Props.sample_lib (DeadLetteredAfter f) \<and> exact sample_cli Server_Http_Props.sample_lib (DeadLetteredBefore f) \<and>
      flagInt sample_cli sets ''limit'' 20 \<le> max_int64"
    if "parseFlags sample_cli ([(''limit'', IntFlag), (''cursor'', StringFlag)] @ filter_defs) [''--handler-ref'', ''h''] [] = Inr (sets, left)"
      "buildFilter sample_cli (filter_values sets) = Inr f" for sets left f
    using that unfolding sample_parse(1) by (auto simp: buildFilter_def filter_values_def flagValue_def optional_param_def exact_def flagInt_def)
  have safe: "wire_safe \<lparr>rIDs = IDs sel, rFilter = Filter sel\<rparr>"
    if "parseFlags sample_cli ((''id'', StringFlag) # filter_defs) [''--handler-ref'', ''h''] [] = Inr (sets, left)"
      "buildSelector sample_cli (multiString sets ''id'') (filter_values sets) = Inr sel" for sets left sel
  proof -
    have "valid_utf8 ''h''" by code_simp
    then show ?thesis
      using that unfolding sample_parse(2)
      by (auto simp: buildSelector_def buildFilter_def multiString_def filter_values_def flagValue_def optional_param_def wire_safe_def
        valid_utf8.simps(1))
  qed
  have "same_run (dispatch sample_cli (api sample_cli (network Server_Http_Props.sample_lib sample_front (at_base ?a) Inr 20000 (\<lambda>_. None)) ?a)
        (''dlq'' # ''redrive'' # ''q'' # [''--handler-ref'', ''h'']) pg_server)
      (dispatch sample_cli (direct sample_cli sample_schema (postgres Postgres_Props.sample_lib) 20000)
        (''dlq'' # ''redrive'' # ''q'' # [''--handler-ref'', ''h'']) \<lparr>dw_store = pg_dead, dw_schema = empty_schema\<rparr>)"
    using cli_modes_agree [where a = ?a and fr = sample_front and bits = "\<lambda>_. None" and now = 20000 and slib = sample_schema and
          args = "[''--handler-ref'', ''h'']",
        OF reads refl q _ _ st may flags safe refl refl] by simp
  then show ?thesis using sample_redriven by (simp add: same_run_def)
qed

text \<open>A queue named by dots is legal but cannot be reached: the router redirects its requests.\<close>

lemma dot_queue_redirected:
  "ValidateQueue ''..'' = None"
  "network hl fr base wire now bits \<lparr>crMethod = m, crURL = base @ ''/v1/queues/'' @ PathEscape ''..'' @ ''/stats'', crQuery = qs,
     crAuthorization = au, crBody = b\<rparr> s = (Inr redirect, s)"
proof -
  show "ValidateQueue ''..'' = None"
    by (simp add: ValidateQueue_def validateName_def MaxNameLen_def nameRE_match_def name_char_def less_eq_char_def)
  have "PathEscape ''..'' = ''..''" by (simp add: PathEscape_def path_plain_def)
  moreover have "CutPrefix (base @ ''/v1/queues/../stats'') (base @ ''/'') = Some ''v1/queues/../stats''"
    using CutPrefix_append [of "base @ ''/''" "''v1/queues/../stats''"] by simp
  ultimately show "network hl fr base wire now bits \<lparr>crMethod = m, crURL = base @ ''/v1/queues/'' @ PathEscape ''..'' @ ''/stats'',
     crQuery = qs, crAuthorization = au, crBody = b\<rparr> s = (Inr redirect, s)"
    by (simp add: network_def buildHandler_def clean_def arriving_def)
qed

end
