(* ===== verification/Sdk.thy ===== *)
theory Sdk
  imports Config Registry
begin

text \<open>
  The Go SDK (\<open>sdk-go\<close>): the in-process retry that precedes a durable submission, the queue
  configuration builder and the process-wide handler registry. What the user's function, the sleep
  and the fallback do is a function of a state \<open>'s\<close>; a run also lists the calls it makes.
\<close>

section \<open>Synchronous retry\<close>

record sync_retrier =
  srAttempts :: int
  srBackoff :: duration

definition NewSyncRetrier :: "sync_retry_config option \<Rightarrow> sync_retrier" where
  "NewSyncRetrier cfg = (case cfg of None \<Rightarrow> \<lparr>srAttempts = 0, srBackoff = 0\<rparr>
     | Some c \<Rightarrow> \<lparr>srAttempts = (case SAttempts c of None \<Rightarrow> 0 | Some n \<Rightarrow> n),
         srBackoff = (case SBackoff c of None \<Rightarrow> 0 | Some d \<Rightarrow> d)\<rparr>)"

text \<open>What a run is given: the context's error, the function, the sleep and the fallback.\<close>

record ('s, 'e) sync_env =
  ctxErr :: "'s \<Rightarrow> 'e option"
  syncFn :: "'s \<Rightarrow> 'e option \<times> 's"
  syncSleep :: "duration \<Rightarrow> 's \<Rightarrow> 'e option \<times> 's"
  syncFallback :: "'s \<Rightarrow> 'e option \<times> 's"

datatype sync_call = CallFn | CallSleep duration | CallFallback

text \<open>The default sleep: \<open>wait\<close> says how the wait ends, by the timer or with the context's error.\<close>

definition contextSleep :: "('s \<Rightarrow> 'e option) \<Rightarrow> (duration \<Rightarrow> 's \<Rightarrow> 'e option \<times> 's) \<Rightarrow> duration \<Rightarrow> 's \<Rightarrow> 'e option \<times> 's" where
  "contextSleep err wait d s = (if d \<le> 0 then (err s, s) else wait d s)"

function syncLoop :: "sync_retrier \<Rightarrow> ('s, 'e) sync_env \<Rightarrow> int \<Rightarrow> 's \<Rightarrow> 'e option \<times> sync_call list \<times> 's" where
  "syncLoop r env i s =
     (if i < srAttempts r then
        (case ctxErr env s of
           Some e \<Rightarrow> (Some e, [], s)
         | None \<Rightarrow> (case syncFn env s of
             (None, s1) \<Rightarrow> (None, [CallFn], s1)
           | (Some e, s1) \<Rightarrow>
               if i < srAttempts r - 1 then
                 (case syncSleep env (srBackoff r) s1 of
                    (Some e, s2) \<Rightarrow> (Some e, [CallFn, CallSleep (srBackoff r)], s2)
                  | (None, s2) \<Rightarrow> (case syncLoop r env (i + 1) s2 of
                      (res, calls, s3) \<Rightarrow> (res, CallFn # CallSleep (srBackoff r) # calls, s3)))
               else (case syncLoop r env (i + 1) s1 of (res, calls, s2) \<Rightarrow> (res, CallFn # calls, s2))))
      else (case syncFallback env s of (res, s1) \<Rightarrow> (res, [CallFallback], s1)))"
  by pat_completeness auto

termination
  by (relation "measure (\<lambda>(r, env, i, s). nat (srAttempts r - i))") auto

declare syncLoop.simps [simp del]

definition Run_sync :: "sync_retrier \<Rightarrow> ('s, 'e) sync_env \<Rightarrow> 's \<Rightarrow> 'e option \<times> sync_call list \<times> 's" where
  "Run_sync r env s = syncLoop r env 0 s"

section \<open>The queue builder\<close>

text \<open>A chain of setters ending in \<open>Build\<close>. The copy that \<open>Build\<close> returns shares its blocks with the builder, which the
  model leaves out: a setter called after \<open>Build\<close> is outside it.\<close>

record queue_builder =
  bName :: string
  bQc :: queue_config

definition Queue_builder :: "string \<Rightarrow> queue_builder" where
  "Queue_builder name = \<lparr>bName = name, bQc = empty_queue_config\<rparr>"

definition ensureRetry :: "queue_builder \<Rightarrow> retry_config" where
  "ensureRetry b = (case QRetry (bQc b) of
      None \<Rightarrow> \<lparr>MaxAttempts = None, InitialBackoff = None, BackoffMultiplier = None, MaxBackoff = None, Jitter = None\<rparr> | Some r \<Rightarrow> r)"

definition ensureExecution :: "queue_builder \<Rightarrow> execution_config" where
  "ensureExecution b = (case QExecution (bQc b) of
      None \<Rightarrow> \<lparr>Lease = None, HandlerTimeout = None, Heartbeat = None\<rparr> | Some r \<Rightarrow> r)"

definition ensureWorker :: "queue_builder \<Rightarrow> worker_config" where
  "ensureWorker b = (case QWorker (bQc b) of
      None \<Rightarrow> \<lparr>BatchSize = None, PollInterval = None, Concurrency = None, RateLimit = None\<rparr> | Some r \<Rightarrow> r)"

definition ensureSyncRetry :: "queue_builder \<Rightarrow> sync_retry_config" where
  "ensureSyncRetry b = (case QSyncRetry (bQc b) of None \<Rightarrow> \<lparr>SAttempts = None, SBackoff = None\<rparr> | Some r \<Rightarrow> r)"

definition onRetry :: "(retry_config \<Rightarrow> retry_config) \<Rightarrow> queue_builder \<Rightarrow> queue_builder" where
  "onRetry f b = b\<lparr>bQc := (bQc b)\<lparr>QRetry := Some (f (ensureRetry b))\<rparr>\<rparr>"

definition onExecution :: "(execution_config \<Rightarrow> execution_config) \<Rightarrow> queue_builder \<Rightarrow> queue_builder" where
  "onExecution f b = b\<lparr>bQc := (bQc b)\<lparr>QExecution := Some (f (ensureExecution b))\<rparr>\<rparr>"

definition onWorker :: "(worker_config \<Rightarrow> worker_config) \<Rightarrow> queue_builder \<Rightarrow> queue_builder" where
  "onWorker f b = b\<lparr>bQc := (bQc b)\<lparr>QWorker := Some (f (ensureWorker b))\<rparr>\<rparr>"

definition onSyncRetry :: "(sync_retry_config \<Rightarrow> sync_retry_config) \<Rightarrow> queue_builder \<Rightarrow> queue_builder" where
  "onSyncRetry f b = b\<lparr>bQc := (bQc b)\<lparr>QSyncRetry := Some (f (ensureSyncRetry b))\<rparr>\<rparr>"

definition b_MaxAttempts :: "int \<Rightarrow> queue_builder \<Rightarrow> queue_builder" where
  "b_MaxAttempts n = onRetry (\<lambda>r. r\<lparr>MaxAttempts := Some n\<rparr>)"

definition b_InitialBackoff :: "duration \<Rightarrow> queue_builder \<Rightarrow> queue_builder" where
  "b_InitialBackoff d = onRetry (\<lambda>r. r\<lparr>InitialBackoff := Some d\<rparr>)"

definition b_BackoffMultiplier :: "f64 \<Rightarrow> queue_builder \<Rightarrow> queue_builder" where
  "b_BackoffMultiplier x = onRetry (\<lambda>r. r\<lparr>BackoffMultiplier := Some x\<rparr>)"

definition b_MaxBackoff :: "duration \<Rightarrow> queue_builder \<Rightarrow> queue_builder" where
  "b_MaxBackoff d = onRetry (\<lambda>r. r\<lparr>MaxBackoff := Some d\<rparr>)"

definition b_Jitter :: "f64 \<Rightarrow> queue_builder \<Rightarrow> queue_builder" where
  "b_Jitter x = onRetry (\<lambda>r. r\<lparr>Jitter := Some x\<rparr>)"

definition b_Lease :: "duration \<Rightarrow> queue_builder \<Rightarrow> queue_builder" where
  "b_Lease d = onExecution (\<lambda>r. r\<lparr>Lease := Some d\<rparr>)"

definition b_HandlerTimeout :: "duration \<Rightarrow> queue_builder \<Rightarrow> queue_builder" where
  "b_HandlerTimeout d = onExecution (\<lambda>r. r\<lparr>HandlerTimeout := Some d\<rparr>)"

definition b_Heartbeat :: "bool \<Rightarrow> queue_builder \<Rightarrow> queue_builder" where
  "b_Heartbeat x = onExecution (\<lambda>r. r\<lparr>Heartbeat := Some x\<rparr>)"

definition b_BatchSize :: "int \<Rightarrow> queue_builder \<Rightarrow> queue_builder" where
  "b_BatchSize n = onWorker (\<lambda>r. r\<lparr>BatchSize := Some n\<rparr>)"

definition b_PollInterval :: "duration \<Rightarrow> queue_builder \<Rightarrow> queue_builder" where
  "b_PollInterval d = onWorker (\<lambda>r. r\<lparr>PollInterval := Some d\<rparr>)"

definition b_Concurrency :: "int \<Rightarrow> queue_builder \<Rightarrow> queue_builder" where
  "b_Concurrency n = onWorker (\<lambda>r. r\<lparr>Concurrency := Some n\<rparr>)"

definition b_SyncRetryAttempts :: "int \<Rightarrow> queue_builder \<Rightarrow> queue_builder" where
  "b_SyncRetryAttempts n = onSyncRetry (\<lambda>r. r\<lparr>SAttempts := Some n\<rparr>)"

definition b_SyncRetryBackoff :: "duration \<Rightarrow> queue_builder \<Rightarrow> queue_builder" where
  "b_SyncRetryBackoff d = onSyncRetry (\<lambda>r. r\<lparr>SBackoff := Some d\<rparr>)"

definition Build :: "queue_builder \<Rightarrow> string \<times> queue_config" where
  "Build b = (bName b, bQc b)"

section \<open>Handlers\<close>

type_synonym handler_func = "bool \<Rightarrow> envelope \<Rightarrow> handler_result"

definition funcHandler :: "handler_func \<Rightarrow> handler" where
  "funcHandler fn = \<lparr>Version = [], Handle = fn\<rparr>"

definition Register_func :: "registry \<Rightarrow> string \<Rightarrow> handler_func option \<Rightarrow> registry_error option \<times> registry" where
  "Register_func defaultReg name fn = (case fn of None \<Rightarrow> (Some ErrNilHandler, defaultReg)
     | Some f \<Rightarrow> Register defaultReg name (Some (funcHandler f)))"

section \<open>Properties\<close>

text \<open>The calls of a run that never ends early: every attempt, with a sleep between two.\<close>

fun attempts_then_fallback :: "nat \<Rightarrow> duration \<Rightarrow> sync_call list" where
  "attempts_then_fallback 0 d = [CallFallback]"
| "attempts_then_fallback (Suc 0) d = [CallFn, CallFallback]"
| "attempts_then_fallback (Suc (Suc n)) d = CallFn # CallSleep d # attempts_then_fallback (Suc n) d"

lemma attempts_then_fallback_Suc:
  "attempts_then_fallback (Suc n) d = CallFn # (if n = 0 then [] else [CallSleep d]) @ attempts_then_fallback n d"
  by (cases n) auto

lemma syncLoop_calls:
  assumes "syncLoop r env i s = (res, calls, s')" "0 \<le> i"
  shows "prefix calls (attempts_then_fallback (nat (srAttempts r - i)) (srBackoff r)) \<and>
    (res = None \<longrightarrow> calls \<noteq> []) \<and> (CallFallback \<in> set calls \<longrightarrow> calls = attempts_then_fallback (nat (srAttempts r - i)) (srBackoff r)) \<and>
    ((\<forall>x. ctxErr env x = None) \<and> (\<forall>x. fst (syncFn env x) \<noteq> None) \<and> (\<forall>x. fst (syncSleep env (srBackoff r) x) = None) \<longrightarrow>
      CallFallback \<in> set calls)"
  using assms
proof (induction r env i s arbitrary: res calls s' rule: syncLoop.induct)
  case (1 r env i s)
  show ?case
  proof (cases "i < srAttempts r")
    case False
    then show ?thesis using "1.prems" by (auto simp: syncLoop.simps [of r env i s] split: prod.splits)
  next
    case True
    let ?n = "nat (srAttempts r - (i + 1))"
    have n: "nat (srAttempts r - i) = Suc ?n" using True by simp
    note a = attempts_then_fallback_Suc [of ?n "srBackoff r"]
    show ?thesis
    proof (cases "ctxErr env s")
      case (Some e)
      then have "calls = []" "res = Some e" using "1.prems" True by (auto simp: syncLoop.simps [of r env i s])
      moreover have "\<not> (\<forall>x. ctxErr env x = None)" using Some by (metis option.distinct(1))
      ultimately show ?thesis by simp
    next
      case None
      obtain fe s1 where f: "syncFn env s = (fe, s1)" by fastforce
      show ?thesis
      proof (cases fe)
        case None
        then have "calls = [CallFn]" using "1.prems" True \<open>ctxErr env s = None\<close> f by (auto simp: syncLoop.simps [of r env i s])
        moreover have "\<not> (\<forall>x. fst (syncFn env x) \<noteq> None)" using f None by (metis fst_conv)
        ultimately show ?thesis unfolding n a by simp
      next
        case (Some e)
        show ?thesis
        proof (cases "i < srAttempts r - 1")
          case last: False
          then have z: "?n = 0" by simp
          obtain res1 calls1 s2 where l: "syncLoop r env (i + 1) s1 = (res1, calls1, s2)" by (metis prod_cases3)
          have "calls = CallFn # calls1" "res = res1"
            using "1.prems" True None f Some last l by (auto simp: syncLoop.simps [of r env i s])
          then show ?thesis
            using "1.IH"(2) [OF True None f [symmetric] Some last l] "1.prems"(2) z unfolding n a by auto
        next
          case more: True
          then have z: "?n \<noteq> 0" by simp
          obtain se s2 where sl: "syncSleep env (srBackoff r) s1 = (se, s2)" by fastforce
          show ?thesis
          proof (cases se)
            case (Some e')
            then have "calls = [CallFn, CallSleep (srBackoff r)]" "res = Some e'"
              using "1.prems" True None f \<open>fe = Some e\<close> more sl by (auto simp: syncLoop.simps [of r env i s])
            moreover have "\<not> (\<forall>x. fst (syncSleep env (srBackoff r) x) = None)" using sl Some by (metis fst_conv option.distinct(1))
            ultimately show ?thesis using z unfolding n a by simp
          next
            case cont: None
            obtain res1 calls1 s3 where l: "syncLoop r env (i + 1) s2 = (res1, calls1, s3)" by (metis prod_cases3)
            have "calls = CallFn # CallSleep (srBackoff r) # calls1" "res = res1"
              using "1.prems" True None f \<open>fe = Some e\<close> more sl cont l by (auto simp: syncLoop.simps [of r env i s])
            then show ?thesis
              using "1.IH"(1) [OF True None f [symmetric] Some more sl [symmetric] cont l] "1.prems"(2) z unfolding n a by auto
          qed
        qed
      qed
    qed
  qed
qed

text \<open>C40: the in-process retry ends after at most its configured attempts. Whatever the function, the sleep and the
  context do, the calls of a run are an initial part of attempt, sleep, attempt, \<open>\<dots>\<close>, attempt, fallback with exactly
  the configured number of attempts (none when it is not positive) and one backoff between two of them; the
  fallback is called only after all of them; a run in which every attempt fails and nothing is cancelled reaches it; and a run
  that reports success has called the function or the fallback.\<close>

theorem sync_retry_terminates:
  "case Run_sync r env s of (res, calls, s') \<Rightarrow>
     prefix calls (attempts_then_fallback (nat (srAttempts r)) (srBackoff r)) \<and>
     count_list calls CallFn \<le> nat (srAttempts r) \<and> count_list calls CallFallback \<le> 1 \<and>
     (CallFallback \<in> set calls \<longrightarrow> count_list calls CallFn = nat (srAttempts r)) \<and>
     ((\<forall>x. ctxErr env x = None) \<and> (\<forall>x. fst (syncFn env x) \<noteq> None) \<and> (\<forall>x. fst (syncSleep env (srBackoff r) x) = None) \<longrightarrow>
       calls = attempts_then_fallback (nat (srAttempts r)) (srBackoff r)) \<and> (res = None \<longrightarrow> calls \<noteq> [])"
proof -
  obtain res calls s' where R: "Run_sync r env s = (res, calls, s')" by (metis prod_cases3)
  let ?all = "attempts_then_fallback (nat (srAttempts r)) (srBackoff r)"
  have count: "count_list (attempts_then_fallback n d) CallFn = n" "count_list (attempts_then_fallback n d) CallFallback = 1" for n d
    by (induction n d rule: attempts_then_fallback.induct) auto
  note c = syncLoop_calls [OF R [unfolded Run_sync_def] order_refl, simplified]
  then obtain rest' where "?all = calls @ rest'" by (auto elim: prefixE)
  then have "count_list calls x \<le> count_list ?all x" for x by simp
  from this [of CallFn] this [of CallFallback] show ?thesis using c count unfolding R by auto
qed

theorem sync_retry_terminates_witness:
  "case Run_sync \<lparr>srAttempts = 2, srBackoff = 5\<rparr>
      \<lparr>ctxErr = (\<lambda>_. None), syncFn = (\<lambda>s. (Some ''e'', s + 1)), syncSleep = (\<lambda>_ s. (None, s)), syncFallback = (\<lambda>s. (None, s))\<rparr> (0 :: int)
   of (res, calls, s') \<Rightarrow> calls = [CallFn, CallSleep 5, CallFn, CallFallback]"
proof -
  let ?r = "\<lparr>srAttempts = 2, srBackoff = 5\<rparr>"
  let ?env = "\<lparr>ctxErr = (\<lambda>_. None), syncFn = (\<lambda>s :: int. (Some ''e'', s + 1)), syncSleep = (\<lambda>_ s. (None, s)), syncFallback = (\<lambda>s. (None, s))\<rparr>"
  have "attempts_then_fallback 2 5 = [CallFn, CallSleep 5, CallFn, CallFallback]" by (simp add: numeral_2_eq_2)
  then show ?thesis using sync_retry_terminates [of ?r ?env 0] by (auto split: prod.splits)
qed

text \<open>Every key that the builder covers is set by its own method, wherever the method stands in the chain: each of the four
  blocks becomes the block with exactly those keys.\<close>

lemmas builder_defs = Queue_builder_def onRetry_def onExecution_def onWorker_def onSyncRetry_def ensureRetry_def ensureExecution_def
  ensureWorker_def ensureSyncRetry_def b_MaxAttempts_def b_InitialBackoff_def b_BackoffMultiplier_def b_MaxBackoff_def b_Jitter_def
  b_Lease_def b_HandlerTimeout_def b_Heartbeat_def b_BatchSize_def b_PollInterval_def b_Concurrency_def b_SyncRetryAttempts_def
  b_SyncRetryBackoff_def empty_queue_config_def Build_def

lemma builder_sets_blocks:
  "Build (b_SyncRetryBackoff sb (b_SyncRetryAttempts sa (b_Concurrency c (b_PollInterval p (b_BatchSize n
     (b_Heartbeat h (b_HandlerTimeout t (b_Lease l (b_Jitter j (b_MaxBackoff mb (b_BackoffMultiplier bm
     (b_InitialBackoff ib (b_MaxAttempts ma (Queue_builder name))))))))))))))
   = (name, empty_queue_config
       \<lparr>QRetry := Some \<lparr>MaxAttempts = Some ma, InitialBackoff = Some ib, BackoffMultiplier = Some bm, MaxBackoff = Some mb, Jitter = Some j\<rparr>,
        QExecution := Some \<lparr>Lease = Some l, HandlerTimeout = Some t, Heartbeat = Some h\<rparr>,
        QWorker := Some \<lparr>BatchSize = Some n, PollInterval = Some p, Concurrency = Some c, RateLimit = None\<rparr>,
        QSyncRetry := Some \<lparr>SAttempts = Some sa, SBackoff = Some sb\<rparr>\<rparr>)"
  by (simp add: builder_defs)

lemma builder_retry_keys_commute:
  "b_MaxAttempts n (b_Jitter x b) = b_Jitter x (b_MaxAttempts n b)"
  "b_MaxAttempts n (b_MaxAttempts m b) = b_MaxAttempts n b"
  "b_MaxAttempts n (b_Lease d b) = b_Lease d (b_MaxAttempts n b)"
  by (simp_all add: builder_defs)

text \<open>The version of a handler registered through the SDK is empty, so a task pinned to a version does not match it.\<close>

lemma pinned_task_dead_lettered:
  assumes "Register_func New_registry name (Some fn) = (None, reg)" "HandlerRef task = name" "HandlerVersion task \<noteq> []"
  shows "\<exists>d. Resolve quote reg task PolicyDeadLetter = ActionDeadLetter d \<and> ErrType d = ErrorTypeVersionMismatch"
  using assms by (auto simp: Register_func_def Register_def New_registry_def Resolve_def Lookup_def funcHandler_def
    PolicyFrom_def split: if_splits)

end
