(* ===== verification/Go_Json_Text.thy ===== *)
theory Go_Json_Text
  imports Go_Json
begin

text \<open>
  Texts that read as JSON values: a valid document without its white space is valid and reads alone or in front
  of a separator; objects and arrays written member by member read back as their members.
\<close>

section \<open>Removing white space\<close>

abbreviation strip :: "string \<Rightarrow> string" where "strip \<equiv> json_strip False"

lemma strip_ws: "json_ws c \<Longrightarrow> strip (c # s) = strip s"
  by simp

lemma strip_skip_ws: "strip (skip_ws s) = strip s"
  by (induction s) auto

lemma strip_ws_prefix: "list_all json_ws w \<Longrightarrow> strip (w @ s) = strip s"
  by (induction w) auto

lemma strip_takeWhile: "strip (takeWhile json_ws s @ t) = strip t"
  by (rule strip_ws_prefix) (auto simp: list_all_iff dest: set_takeWhileD)

definition bare :: "char \<Rightarrow> bool" where "bare c \<longleftrightarrow> \<not> json_ws c \<and> c \<noteq> CHR 0x22"

lemma strip_bare: "list_all bare b \<Longrightarrow> strip (b @ t) = b @ strip t"
  by (induction b) (auto simp: bare_def)

lemma strip_string:
  "scan_string s = Some (b, r) \<Longrightarrow> json_strip True (b @ CHR 0x22 # t) = b @ CHR 0x22 # strip t"
proof (induction s arbitrary: b r rule: scan_string.induct)
  case (2 c s)
  consider "c = CHR 0x22" | "c \<noteq> CHR 0x22" "c \<noteq> CHR 0x5C" | "c = CHR 0x5C" by blast
  then show ?case
  proof cases
    case 3
    then obtain e s1 where s: "s = e # s1" using "2.prems" by (cases s) (simp_all add: scan_string.simps)
    have hex: "is_hex a \<Longrightarrow> a \<noteq> CHR 0x22 \<and> a \<noteq> CHR 0x5C" for a by (auto simp: is_hex_def json_hex_def)
    have pass: "list_all is_hex x \<Longrightarrow> json_strip True (x @ u) = x @ json_strip True u" for x u
      by (induction x) (simp_all add: hex)
    show ?thesis
    proof (cases "e = CHR ''u''")
      case True
      then show ?thesis using 2 3 s pass by (auto simp: scan_string.simps(2) [of "CHR 0x5C"] split: if_splits)
    next
      case False
      then show ?thesis using 2 3 s by (auto simp: scan_string.simps(2) [of "CHR 0x5C"] split: if_splits)
    qed
  qed (use 2 in \<open>auto simp: scan_string.simps(2) [of _ s] split: if_splits\<close>)
qed (simp add: scan_string.simps)

lemma digits_bare: "list_all is_digit b \<Longrightarrow> list_all bare b"
  by (auto simp: list_all_iff bare_def json_ws_def is_digit_def digit_val_def)

lemma scan_digits_split: "scan_digits s = Some (b, r) \<Longrightarrow> s = b @ r \<and> list_all bare b \<and> b \<noteq> []"
  by (auto simp: scan_digits_def Let_def list_all_iff dest: set_takeWhileD split: if_splits
    intro!: digits_bare [unfolded list_all_iff, rule_format, of "takeWhile is_digit s"])

lemma scan_number_split: "scan_number s = Some (b, r) \<Longrightarrow> s = b @ r \<and> list_all bare b \<and> b \<noteq> []"
proof -
  have i: "scan_int s = Some (b, r) \<Longrightarrow> s = b @ r \<and> list_all bare b \<and> b \<noteq> []" for s b r
    by (auto simp: scan_int_def bare_def json_ws_def dest: scan_digits_split split: list.splits if_splits)
  have f: "scan_frac s = Some (b, r) \<Longrightarrow> s = b @ r \<and> list_all bare b" for s b r
    by (auto simp: scan_frac_def bare_def json_ws_def dest: scan_digits_split split: list.splits if_splits)
  have e: "scan_exp s = Some (b, r) \<Longrightarrow> s = b @ r \<and> list_all bare b" for s b r
    by (auto simp: scan_exp_def bare_def json_ws_def dest!: scan_digits_split split: list.splits if_splits)
  show "scan_number s = Some (b, r) \<Longrightarrow> s = b @ r \<and> list_all bare b \<and> b \<noteq> []"
    by (auto simp: scan_number_def Let_def bare_def json_ws_def dest!: i f e split: option.splits list.splits if_splits)
qed

text \<open>A text that reads as a value, an element list or a member list is followed by what is left, and reads as one, in front of
  any text, once the white space is gone.\<close>

definition stripped :: "(string \<Rightarrow> bool) \<Rightarrow> (nat \<Rightarrow> string \<Rightarrow> ('a \<times> string) option) \<Rightarrow> nat \<Rightarrow> string \<Rightarrow> string \<Rightarrow> bool" where
  "stripped ok p d s r \<longleftrightarrow> (\<exists>v j. s = v @ r \<and> v \<noteq> [] \<and> (\<forall>t. strip (v @ t) = strip v @ strip t) \<and>
     (\<forall>t. ok t \<longrightarrow> p d (strip v @ t) = Some (j, t)))"

lemma strippedI:
  assumes "s = v @ r" "v \<noteq> []" "\<And>t. strip (v @ t) = w @ strip t" "\<And>t. ok t \<Longrightarrow> p d (w @ t) = Some (j, t)"
  shows "stripped ok p d s r"
proof -
  have "strip v = w" using assms(3) [of "[]"] by simp
  then show ?thesis using assms unfolding stripped_def by blast
qed

lemma strippedE:
  assumes "stripped ok p d s r"
  obtains v j where "s = v @ r" "v \<noteq> []" "\<And>t. strip (v @ t) = strip v @ strip t" "\<And>t. ok t \<Longrightarrow> p d (strip v @ t) = Some (j, t)"
  using assms unfolding stripped_def by blast

lemma strip_punct: "bare c \<Longrightarrow> strip (c # t) = c # strip t"
  by (simp add: bare_def)

lemma not_ws [simp]: "\<not> json_ws CHR 0x7B" "\<not> json_ws CHR 0x7D" "\<not> json_ws CHR ''[''" "\<not> json_ws CHR '']''" "\<not> json_ws CHR '',''"
  "\<not> json_ws CHR '':''" "\<not> json_ws CHR 0x22"
  by (simp_all add: json_ws_def)

lemma bare_punct: "bare CHR 0x7B" "bare CHR 0x7D" "bare CHR ''[''" "bare CHR '']''" "bare CHR '',''" "bare CHR '':''"
  by (simp_all add: bare_def json_ws_def)

lemma skip_ws_split: "skip_ws s = e # u \<Longrightarrow> \<exists>w. list_all json_ws w \<and> s = w @ e # u"
proof -
  assume "skip_ws s = e # u"
  then have "s = takeWhile json_ws s @ e # u" by (metis takeWhile_dropWhile_id)
  moreover have "list_all json_ws (takeWhile json_ws s)" by (auto simp: list_all_iff dest: set_takeWhileD)
  ultimately show ?thesis by blast
qed

lemma pvalue_start_bare:
  assumes "pvalue d (c # s) = Some x" shows "\<not> json_ws c"
proof
  assume "json_ws c"
  then show False using assms
    by (auto simp: pvalue.simps(2) json_ws_def HasPrefix_Cons dest: scan_number_start) (auto simp: is_digit_def digit_val_def dest!: scan_number_start)
qed

lemma skip_ws_pvalue: "pvalue d s = Some x \<Longrightarrow> skip_ws s = s"
  using pvalue_start_bare by (cases s) auto

lemma skip_ws_pelems: "pelems d s = Some x \<Longrightarrow> skip_ws s = s"
  by (cases "pvalue d s") (auto simp: pelems.simps [of d s] dest: skip_ws_pvalue)

lemma pmembers_start: "pmembers d s = Some x \<Longrightarrow> \<exists>u. s = CHR 0x22 # u"
  by (cases s) (auto simp: pmembers.simps split: if_splits)

lemma skip_ws_pmembers: "pmembers d s = Some x \<Longrightarrow> skip_ws s = s"
  using pmembers_start by (fastforce simp: json_ws_def)

lemma pvalue_start: "pvalue d (c # s) = Some x \<Longrightarrow> c \<noteq> CHR '']'' \<and> c \<noteq> CHR 0x7D"
  by (auto simp: pvalue.simps(2) HasPrefix_Cons dest!: scan_number_start) (auto simp: is_digit_def digit_val_def)

lemma scan_string_again: "scan_string s = Some (b, r) \<Longrightarrow> scan_string (b @ CHR 0x22 # t) = Some (b, t)"
proof (induction s arbitrary: b r rule: scan_string.induct)
  case (2 c s)
  consider "c = CHR 0x22" | "c \<noteq> CHR 0x22" "c \<noteq> CHR 0x5C" | "c = CHR 0x5C" by blast
  then show ?case
  proof cases
    case 3
    then obtain e s1 where s: "s = e # s1" using "2.prems" by (cases s) (simp_all add: scan_string.simps)
    show ?thesis
    proof (cases "e = CHR ''u''")
      case True
      then obtain b' where b': "scan_string (drop 4 s1) = Some (b', r)" "b = c # e # take 4 s1 @ b'" "4 \<le> length s1" "list_all is_hex (take 4 s1)"
        using "2.prems" s 3 by (auto simp: scan_string.simps(2) [of "CHR 0x5C"] split: if_splits)
      then have "scan_string (b' @ CHR 0x22 # t) = Some (b', t)" using "2.IH"(2) [of e s1] 3 s True by simp
      then show ?thesis using b' 3 True by (simp add: scan_string.simps(2) [of "CHR 0x5C"])
    next
      case False
      then show ?thesis using 2 3 s by (auto simp: scan_string.simps(2) [of "CHR 0x5C"] split: if_splits)
    qed
  qed (use 2 in \<open>auto simp: scan_string.simps(2) [of _ s] scan_string.simps(2) [of _ "_ @ _"] scan_string.simps(2) [of _ t] split: if_splits\<close>)
qed (simp add: scan_string.simps)

lemma stripped_elems:
  assumes v: "stripped delim pvalue d s s1" "pvalue d s = Some (v, s1)"
    and e: "skip_ws s1 = e # u"
    and cases: "e = CHR '']'' \<and> r = u \<or> e = CHR '','' \<and> stripped (\<lambda>_. True) pelems d (skip_ws u) r"
  shows "stripped (\<lambda>_. True) pelems d s r"
proof -
  obtain a j where a: "s = a @ s1" "a \<noteq> []" "\<And>t. strip (a @ t) = strip a @ strip t" "\<And>t. delim t \<Longrightarrow> pvalue d (strip a @ t) = Some (j, t)"
    using v(1) by (rule strippedE) blast
  have ne: "strip a \<noteq> []" using a(4) [of "[]"] pvalue_nonempty by fastforce
  obtain w where w: "list_all json_ws w" "s1 = w @ e # u" using skip_ws_split [OF e] by blast
  from cases show ?thesis
  proof
    assume c: "e = CHR '']'' \<and> r = u"
    have "pelems d ((strip a @ [e]) @ t) = Some ([j], t)" for t
      using c a(4) [of "CHR '']'' # t"] by (simp add: pelems.simps [of d "strip a @ CHR '']'' # t"])
    moreover have "strip ((a @ w @ [e]) @ t) = (strip a @ [e]) @ strip t" for t
      using c a(3) w(1) by (simp add: strip_ws_prefix)
    ultimately show ?thesis using a(1) w(2) c by (intro strippedI [where v = "a @ w @ [e]" and w = "strip a @ [e]" and j = "[j]"]) simp_all
  next
    assume c: "e = CHR '','' \<and> stripped (\<lambda>_. True) pelems d (skip_ws u) r"
    then obtain b js where b: "skip_ws u = b @ r" "b \<noteq> []" "\<And>t. strip (b @ t) = strip b @ strip t" "\<And>t. pelems d (strip b @ t) = Some (js, t)"
      using strippedE [of "\<lambda>_. True" pelems d "skip_ws u" r] by metis
    obtain w2 where w2: "list_all json_ws w2" "u = w2 @ b @ r" using b(1,2) skip_ws_split [of u] by (cases b) auto
    let ?v = "a @ w @ e # w2 @ b"
    have s: "strip (?v @ t) = (strip a @ CHR '','' # strip b) @ strip t" for t
      using c a(3) b(3) w(1) w2(1) by (simp add: strip_ws_prefix)
    have "pelems d ((strip a @ CHR '','' # strip b) @ t) = Some (j # js, t)" for t
    proof -
      have "skip_ws (strip b @ t) = strip b @ t" using skip_ws_pelems [OF b(4)] .
      then show ?thesis
        using a(4) [of "CHR '','' # strip b @ t"] b(4) ne by (simp add: pelems.simps [of d "strip a @ CHR '','' # strip b @ t"])
    qed
    then show ?thesis using a(1) w(2) w2(2) s by (intro strippedI [where v = ?v and w = "strip a @ CHR '','' # strip b" and j = "j # js"]) simp_all
  qed
qed

lemma stripped_members:
  assumes k: "scan_string s = Some (k, s1)" "skip_ws s1 = CHR '':'' # x"
    and v: "stripped delim pvalue d (skip_ws x) s3" "pvalue d (skip_ws x) = Some (v, s3)"
    and e: "skip_ws s3 = e # u"
    and cases: "e = CHR 0x7D \<and> r = u \<or> e = CHR '','' \<and> stripped (\<lambda>_. True) pmembers d (skip_ws u) r"
  shows "stripped (\<lambda>_. True) pmembers d (CHR 0x22 # s) r"
proof -
  obtain a j where a: "skip_ws x = a @ s3" "a \<noteq> []" "\<And>t. strip (a @ t) = strip a @ strip t" "\<And>t. delim t \<Longrightarrow> pvalue d (strip a @ t) = Some (j, t)"
    using v(1) by (rule strippedE) blast
  have ne: "strip a \<noteq> []" using a(4) [of "[]"] pvalue_nonempty by fastforce
  obtain w0 where w0: "list_all json_ws w0" "s1 = w0 @ CHR '':'' # x" using skip_ws_split [OF k(2)] by blast
  obtain w1 where w1: "list_all json_ws w1" "x = w1 @ a @ s3" using a(1,2) skip_ws_split [of x] by (cases a) auto
  obtain w where w: "list_all json_ws w" "s3 = w @ e # u" using skip_ws_split [OF e] by blast
  have s: "s = k @ CHR 0x22 # s1" using scan_string_split [OF k(1)] .
  let ?p = "CHR 0x22 # k @ CHR 0x22 # w0 @ CHR '':'' # w1 @ a"
  have sp: "strip (?p @ t) = CHR 0x22 # k @ CHR 0x22 # CHR '':'' # strip a @ strip t" for t
    using strip_string [OF k(1), of "w0 @ CHR '':'' # w1 @ a @ t"] w0(1) w1(1) a(3)
    by (simp add: strip_ws_prefix)
  note key = scan_string_again [OF k(1)]
  have head: "skip_ws (strip a @ t) = strip a @ t" if "delim t" for t using skip_ws_pvalue [OF a(4) [OF that]] .
  have step: "pmembers d (CHR 0x22 # k @ CHR 0x22 # CHR '':'' # strip a @ c # t) =
     (if c = CHR 0x7D then Some ([(k, strip a, j)], t)
      else map_option (\<lambda>(ms, w). ((k, strip a, j) # ms, w)) (pmembers d (skip_ws t)))" if "c = CHR 0x7D \<or> c = CHR '',''" for c t
    using that key [of "CHR '':'' # strip a @ c # t"] head [of "c # t"] a(4) [of "c # t"] ne
    by (auto simp: pmembers.simps(2) Let_def json_ws_def)
  from cases show ?thesis
  proof
    assume c: "e = CHR 0x7D \<and> r = u"
    have "strip ((?p @ w @ [e]) @ t) = (CHR 0x22 # k @ CHR 0x22 # CHR '':'' # strip a @ [CHR 0x7D]) @ strip t" for t
      using c sp [of "w @ [e] @ t"] w(1) by (simp add: strip_ws_prefix)
    then show ?thesis
      using c s w0(2) w1(2) w(2) step [of "CHR 0x7D"] by (intro strippedI [where v = "?p @ w @ [e]" and w = "CHR 0x22 # k @ CHR 0x22 # CHR '':'' # strip a @ [CHR 0x7D]" and j = "[(k, strip a, j)]"]) simp_all
  next
    assume c: "e = CHR '','' \<and> stripped (\<lambda>_. True) pmembers d (skip_ws u) r"
    then obtain b ms where b: "skip_ws u = b @ r" "b \<noteq> []" "\<And>t. strip (b @ t) = strip b @ strip t" "\<And>t. pmembers d (strip b @ t) = Some (ms, t)"
      using strippedE [of "\<lambda>_. True" pmembers d "skip_ws u" r] by metis
    obtain w2 where w2: "list_all json_ws w2" "u = w2 @ b @ r" using b(1,2) skip_ws_split [of u] by (cases b) auto
    have "strip ((?p @ w @ e # w2 @ b) @ t) = (CHR 0x22 # k @ CHR 0x22 # CHR '':'' # strip a @ CHR '','' # strip b) @ strip t" for t
      using c sp [of "w @ e # w2 @ b @ t"] w(1) w2(1) b(3) by (simp add: strip_ws_prefix)
    then show ?thesis
      using c s w0(2) w1(2) w(2) w2(2) step [of "CHR '',''"] b(4) skip_ws_pmembers [OF b(4)]
      by (intro strippedI [where v = "?p @ w @ e # w2 @ b" and w = "CHR 0x22 # k @ CHR 0x22 # CHR '':'' # strip a @ CHR '','' # strip b" and j = "(k, strip a, j) # ms"]) simp_all
  qed
qed

lemma pelems_start: "pelems d s = Some x \<Longrightarrow> s \<noteq> [] \<and> hd s \<noteq> CHR '']''"
proof -
  assume "pelems d s = Some x"
  then obtain y where "pvalue d s = Some y" by (cases "pvalue d s") (auto simp: pelems.simps [of d s])
  then show ?thesis by (cases s) (auto simp: pvalue.simps(1) dest: pvalue_start)
qed

definition no_digit :: "string \<Rightarrow> bool" where "no_digit u \<longleftrightarrow> u = [] \<or> \<not> is_digit (hd u)"

lemma scan_digits_again:
  assumes "scan_digits s = Some (b, r)" "no_digit u" shows "scan_digits (b @ u) = Some (b, u)"
proof -
  have "\<forall>c \<in> set b. is_digit c" "b \<noteq> []" using assms(1) by (auto simp: scan_digits_def Let_def dest: set_takeWhileD split: if_splits)
  moreover have "takeWhile is_digit u = []" "dropWhile is_digit u = u" using assms(2) by (cases u; auto simp: no_digit_def)+
  ultimately show ?thesis by (simp add: scan_digits_def)
qed

lemma scan_int_again:
  assumes "scan_int s = Some (b, r)" "no_digit u" shows "scan_int (b @ u) = Some (b, u)"
proof -
  have "hd b = hd s \<and> b \<noteq> []" if "scan_digits s = Some (b, r)"
    using that by (cases s) (auto simp: scan_digits_def Let_def split: if_splits)
  then show ?thesis using assms scan_digits_again [of s b r u]
    by (cases s; cases b) (auto simp: scan_int_def split: if_splits)
qed

lemma scan_frac_again:
  assumes "scan_frac s = Some (b, r)" "no_digit u" "b = [] \<Longrightarrow> u = [] \<or> hd u \<noteq> CHR ''.''"
  shows "scan_frac (b @ u) = Some (b, u) \<and> (b \<noteq> [] \<longrightarrow> hd b = CHR ''.'')"
  using assms scan_digits_again [of _ _ r u]
  by (cases s; cases u) (auto simp: scan_frac_def split: if_splits)

lemma scan_exp_again:
  assumes "scan_exp s = Some (b, r)" "delim u"
  shows "scan_exp (b @ u) = Some (b, u) \<and> (b \<noteq> [] \<longrightarrow> hd b = CHR ''e'' \<or> hd b = CHR ''E'')"
proof -
  have n: "no_digit u" using assms(2) by (cases u) (auto simp: delim_def no_digit_def)
  have d: "ds \<noteq> [] \<and> hd ds \<noteq> CHR ''+'' \<and> hd ds \<noteq> CHR ''-''" if "scan_digits x = Some (ds, v)" for x ds v
    using that by (cases x) (auto simp: scan_digits_def Let_def is_digit_def digit_val_def split: if_splits)
  have cons: "c # ds @ u = c # hd ds # tl ds @ u" if "ds \<noteq> []" for c ds using that by (cases ds) auto
  show ?thesis
  proof (cases "b = []")
    case True
    then show ?thesis using assms(2) by (cases u) (auto simp: scan_exp_def delim_def)
  next
    case False
    then obtain c t where s: "s = c # t" "c = CHR ''e'' \<or> c = CHR ''E''" using assms(1) by (auto simp: scan_exp_def split: list.splits if_splits)
    then obtain x y where t: "t = x # y" using assms(1) by (auto simp: scan_exp_def split: list.splits)
    show ?thesis
    proof (cases "x = CHR ''+'' \<or> x = CHR ''-''")
      case True
      then show ?thesis using assms(1) s t scan_digits_again [OF _ n] by (auto simp: scan_exp_def)
    next
      case False
      then obtain ds where ds: "scan_digits t = Some (ds, r)" "b = c # ds" using assms(1) s t by (auto simp: scan_exp_def)
      then show ?thesis using s d [OF ds(1)] scan_digits_again [OF ds(1) n] by (cases ds) (auto simp: scan_exp_def)
    qed
  qed
qed

lemma scan_number_again:
  assumes "scan_number s = Some (b, r)" "delim t" shows "scan_number (b @ t) = Some (b, t)"
proof -
  define sg where "sg = (case s of c # u \<Rightarrow> if c = CHR ''-'' then ([c], u) else ([], s) | [] \<Rightarrow> ([], []))"
  obtain sign s1 where sg: "sg = (sign, s1)" by fastforce
  obtain ip s2 fp s3 ep where n: "scan_int s1 = Some (ip, s2)" "scan_frac s2 = Some (fp, s3)" "scan_exp s3 = Some (ep, r)"
      "b = sign @ ip @ fp @ ep"
    using assms(1) sg by (auto simp: scan_number_def sg_def Let_def split: option.splits)
  have e: "scan_exp (ep @ t) = Some (ep, t)" "ep \<noteq> [] \<longrightarrow> hd ep = CHR ''e'' \<or> hd ep = CHR ''E''"
    using scan_exp_again [OF n(3) assms(2)] by auto
  have letters: "\<not> is_digit CHR ''e''" "\<not> is_digit CHR ''E''" "\<not> is_digit CHR ''.''" by (simp_all add: is_digit_def digit_val_def)
  have ne: "no_digit (ep @ t)" using e(2) assms(2) letters by (cases ep; cases t) (auto simp: no_digit_def delim_def)
  have f: "scan_frac (fp @ ep @ t) = Some (fp, ep @ t) \<and> (fp \<noteq> [] \<longrightarrow> hd fp = CHR ''.'')"
    using e(2) assms(2) by (intro scan_frac_again [OF n(2) ne]) (cases ep; cases t; auto simp: delim_def)
  have "no_digit (fp @ ep @ t)" using ne f letters by (cases fp) (auto simp: no_digit_def)
  then have i: "scan_int (ip @ fp @ ep @ t) = Some (ip, fp @ ep @ t)" by (rule scan_int_again [OF n(1)])
  obtain c ip' where c: "ip = c # ip'" "is_digit c"
  proof -
    have "is_digit CHR ''0''" by (simp add: is_digit_def digit_val_def)
    moreover have "\<exists>c u. ds = c # u \<and> is_digit c" if "scan_digits x = Some (ds, v)" for x ds v
      using that by (cases x) (auto simp: scan_digits_def Let_def split: if_splits)
    ultimately show ?thesis using that n(1) by (cases s1) (fastforce simp: scan_int_def split: if_splits)+
  qed
  have "sign = [] \<or> sign = [CHR ''-'']" using sg by (auto simp: sg_def split: list.splits if_splits)
  moreover have "c \<noteq> CHR ''-''" using c(2) literal_not_number(7) by blast
  ultimately have "(case b @ t of c # u \<Rightarrow> if c = CHR ''-'' then ([c], u) else ([], b @ t) | [] \<Rightarrow> ([], [])) = (sign, ip @ fp @ ep @ t)"
    using c(1) n(4) by auto
  then show ?thesis using i f e(1) by (simp add: scan_number_def Let_def n(4) [symmetric])
qed

lemma number_again:
  assumes "pvalue d (c # s) = Some (j, r)" "c \<noteq> CHR 0x7B" "c \<noteq> CHR ''[''" "c \<noteq> CHR 0x22" "c \<noteq> CHR ''n''" "c \<noteq> CHR ''t''" "c \<noteq> CHR ''f''"
    "scan_number (c # s) = Some (b, r)" "j = JNum b"
  shows "delim t \<Longrightarrow> pvalue d (b @ t) = Some (j, t)"
proof -
  obtain b' where b': "b = c # b'" using scan_number_split [OF assms(8)] by (cases b) auto
  assume "delim t"
  then show ?thesis using scan_number_again [OF assms(8), of t] assms(2-7,9) unfolding b' by (simp add: pvalue.simps(2) HasPrefix_Cons)
qed

lemma literal_stripped: "HasPrefix s ''ull'' \<Longrightarrow> stripped delim pvalue d (CHR ''n'' # s) (drop 3 s)"
  "HasPrefix s ''rue'' \<Longrightarrow> stripped delim pvalue d (CHR ''t'' # s) (drop 3 s)"
  "HasPrefix s ''alse'' \<Longrightarrow> stripped delim pvalue d (CHR ''f'' # s) (drop 4 s)"
proof -
  have lit: "stripped delim pvalue d (c # s) (drop (length x) s)"
    if "HasPrefix s x" "list_all bare (c # x)" "\<And>t. pvalue d (c # x @ t) = Some (j, t)" for c x j
  proof -
    have "s = x @ drop (length x) s" using that(1) by (metis HasPrefix_def append_take_drop_id)
    then show ?thesis
      using that(2,3) strip_bare [of "c # x"] by (intro strippedI [where v = "c # x" and w = "c # x" and j = j]) (auto simp del: json_strip.simps)
  qed
  have "list_all bare ''null''" "list_all bare ''true''" "list_all bare ''false''" by (simp_all add: bare_def json_ws_def)
  then show "HasPrefix s ''ull'' \<Longrightarrow> stripped delim pvalue d (CHR ''n'' # s) (drop 3 s)"
    "HasPrefix s ''rue'' \<Longrightarrow> stripped delim pvalue d (CHR ''t'' # s) (drop 3 s)"
    "HasPrefix s ''alse'' \<Longrightarrow> stripped delim pvalue d (CHR ''f'' # s) (drop 4 s)"
    using lit [of "''ull''" "CHR ''n''" JNull] lit [of "''rue''" "CHR ''t''" "JBool True"] lit [of "''alse''" "CHR ''f''" "JBool False"]
    by (simp_all add: pvalue.simps(2) HasPrefix_Cons HasPrefix_def [of _ "[]"] eval_nat_numeral)
qed

lemma stripped_bracket:
  assumes "skip_ws s = e # u" "e \<noteq> close" "stripped (\<lambda>_. True) p (d - 1) (e # u) r" "d \<noteq> 0" "bare open"
    "\<And>c t x. c \<noteq> close \<Longrightarrow> \<not> json_ws c \<Longrightarrow> p (d - 1) (c # t) = Some x \<Longrightarrow> pvalue d (open # c # t) = Some (f (fst x), snd x)"
    "\<And>s x. p (d - 1) s = Some x \<Longrightarrow> skip_ws s = s \<and> s \<noteq> [] \<and> hd s \<noteq> close"
  shows "stripped delim pvalue d (open # s) r"
proof -
  obtain v j where v: "e # u = v @ r" "v \<noteq> []" "\<And>t. strip (v @ t) = strip v @ strip t" "\<And>t. p (d - 1) (strip v @ t) = Some (j, t)"
    using assms(3) strippedE [of "\<lambda>_. True" p "d - 1" "e # u" r] by metis
  obtain w where w: "list_all json_ws w" "s = w @ v @ r" using skip_ws_split [OF assms(1)] v(1) by auto
  have st: "strip ((open # w @ v) @ t) = (open # strip v) @ strip t" for t
    using v(3) w(1) strip_punct [OF assms(5)] by (simp add: strip_ws_prefix del: json_strip.simps)
  have "pvalue d ((open # strip v) @ t) = Some (f j, t)" for t
  proof -
    have n: "skip_ws (strip v @ t) = strip v @ t" "strip v @ t \<noteq> []" "hd (strip v @ t) \<noteq> close" using assms(7) [OF v(4)] by auto
    then obtain c z where c: "strip v @ t = c # z" by (cases "strip v @ t") auto
    then have "\<not> json_ws c" using n(1) by (metis dropWhile_eq_Cons_conv)
    then show ?thesis using assms(6) [of c z "(j, t)"] v(4) [of t] n(3) c by simp
  qed
  then show ?thesis using st w(2) by (intro strippedI [where v = "open # w @ v" and w = "open # strip v" and j = "f j"]) simp_all
qed

lemma stripped_token:
  assumes "pvalue d s = Some (j, r)" "s = v @ r" "\<And>t. strip (v @ t) = v @ strip t" "v \<noteq> []" "\<And>t. delim t \<Longrightarrow> pvalue d (v @ t) = Some (j, t)"
  shows "stripped delim pvalue d s r"
  using assms(2-5) by (intro strippedI [where v = v and w = v and j = j]) simp_all

lemma parse_stripped:
  "pvalue d s = Some (j, r) \<Longrightarrow> stripped delim pvalue d s r"
  "pelems d s = Some (js, r) \<Longrightarrow> stripped (\<lambda>_. True) pelems d s r"
  "pmembers d s = Some (ms, r) \<Longrightarrow> stripped (\<lambda>_. True) pmembers d s r"
proof (induction d s and d s and d s arbitrary: j r and js r and ms r rule: pvalue_pelems_pmembers.induct)
  case (1 d)
  then show ?case by (simp add: pvalue.simps)
next
  case (2 d c s)
  consider "c = CHR 0x7B" | "c = CHR ''[''" | "c = CHR 0x22" | "c = CHR ''n''" | "c = CHR ''t''" | "c = CHR ''f''"
    | "c \<noteq> CHR 0x7B" "c \<noteq> CHR ''[''" "c \<noteq> CHR 0x22" "c \<noteq> CHR ''n''" "c \<noteq> CHR ''t''" "c \<noteq> CHR ''f''" by blast
  then show ?case
  proof cases
    case c: 1
    then have d: "d \<noteq> 0" using "2.prems" by (auto simp: pvalue.simps(2) [of d] split: if_splits)
    obtain e u where e: "skip_ws s = e # u"
      using "2.prems" c by (cases "skip_ws s") (auto simp: pvalue.simps simp del: dropWhile_eq_Nil_conv split: if_splits)
    show ?thesis
    proof (cases "e = CHR 0x7D")
      case True
      then obtain w where w: "list_all json_ws w" "s = w @ CHR 0x7D # u" using skip_ws_split [OF e] by blast
      have r: "r = u" using "2.prems" c e True d by (simp add: pvalue.simps(2))
      show ?thesis
        using c w d r by (intro strippedI [where v = "c # w @ [CHR 0x7D]" and w = "[c, CHR 0x7D]" and j = "JObj []"])
          (simp_all add: strip_ws_prefix pvalue.simps(2))
    next
      case False
      then obtain ms where ms: "pmembers (d - 1) (e # u) = Some (ms, r)" using "2.prems" c e d by (auto simp: pvalue.simps(2))
      show ?thesis unfolding c
        by (rule stripped_bracket [where p = pmembers and f = JObj, OF e False _ d bare_punct(1)])
          (use "2.IH"(1) [OF c d e False ms] d in
            \<open>auto simp: pvalue.simps(2) simp del: dropWhile_eq_Nil_conv dest: skip_ws_pmembers pmembers_start\<close>)
    qed
  next
    case c: 2
    then have d: "d \<noteq> 0" using "2.prems" by (auto simp: pvalue.simps(2) [of d] split: if_splits)
    obtain e u where e: "skip_ws s = e # u"
      using "2.prems" c by (cases "skip_ws s") (auto simp: pvalue.simps simp del: dropWhile_eq_Nil_conv split: if_splits)
    show ?thesis
    proof (cases "e = CHR '']''")
      case True
      then obtain w where w: "list_all json_ws w" "s = w @ CHR '']'' # u" using skip_ws_split [OF e] by blast
      have r: "r = u" using "2.prems" c e True d by (simp add: pvalue.simps(2))
      show ?thesis
        using c w d r by (intro strippedI [where v = "c # w @ [CHR '']'']" and w = "[c, CHR '']'']" and j = "JArr []"])
          (simp_all add: strip_ws_prefix pvalue.simps(2))
    next
      case False
      then obtain vs where vs: "pelems (d - 1) (e # u) = Some (vs, r)" using "2.prems" c e d by (auto simp: pvalue.simps(2))
      have "stripped (\<lambda>_. True) pelems (d - 1) (e # u) r" using "2.IH"(2) [OF _ c d e False vs] c by simp
      then show ?thesis unfolding c
        by (rule stripped_bracket [where p = pelems and f = JArr, OF e False _ d bare_punct(3)])
          (use d in \<open>auto simp: pvalue.simps(2) simp del: dropWhile_eq_Nil_conv dest: skip_ws_pelems pelems_start\<close>)
    qed
  next
    case c: 3
    then obtain b where b: "scan_string s = Some (b, r)" "j = JStr b" using "2.prems" by (auto simp: pvalue.simps(2))
    show ?thesis
      by (rule stripped_token [OF "2.prems", where v = "c # b @ [CHR 0x22]"])
        (use c b scan_string_split [OF b(1)] strip_string [OF b(1)] scan_string_again [OF b(1)] in \<open>simp_all add: pvalue.simps(2)\<close>)
  next
    case c: 7
    then obtain b where b: "scan_number (c # s) = Some (b, r)" "j = JNum b" using "2.prems" by (auto simp: pvalue.simps(2) HasPrefix_Cons)
    show ?thesis
      by (rule stripped_token [OF "2.prems", where v = b])
        (use scan_number_split [OF b(1)] strip_bare number_again [OF "2.prems" c b] in auto)
  qed (use "2.prems" in \<open>auto simp: pvalue.simps(2) HasPrefix_Cons literal_not_number dest!: scan_number_start
      intro!: literal_stripped split: if_splits\<close>)
next
  case (3 d s)
  then obtain v s1 where v: "pvalue d s = Some (v, s1)" by (auto simp: pelems.simps split: option.splits)
  obtain e u where e: "skip_ws s1 = e # u"
    using "3.prems" v by (cases "skip_ws s1") (auto simp: pelems.simps [of d s] simp del: dropWhile_eq_Nil_conv)
  show ?case
    using stripped_elems [OF "3.IH"(1) [OF v] v e] "3.IH"(2) [OF v refl e] "3.prems" v e
    by (auto simp: pelems.simps [of d s] split: if_splits)
next
  case (4 d)
  then show ?case by (simp add: pmembers.simps)
next
  case (5 d q s)
  then obtain k s1 where k: "q = CHR 0x22" "scan_string s = Some (k, s1)"
    by (auto simp: pmembers.simps split: if_splits option.splits)
  then obtain x where x: "skip_ws s1 = CHR '':'' # x"
    using "5.prems" by (auto simp: pmembers.simps split: if_splits list.splits)
  obtain v s3 where v: "pvalue d (skip_ws x) = Some (v, s3)"
    using "5.prems" k x by (auto simp: pmembers.simps Let_def split: option.splits)
  obtain e u where e: "skip_ws s3 = e # u"
    using "5.prems" k x v by (auto simp: pmembers.simps Let_def split: list.splits)
  have "stripped delim pvalue d (skip_ws x) s3" using "5.IH"(1) k x v by auto
  from stripped_members [OF k(2) x this v e] show ?case
    using "5.IH"(2) "5.prems" k x v e by (auto simp: pmembers.simps(2) [of d "CHR 0x22" s] Let_def split: if_splits)
qed

section \<open>Values in compact form\<close>

definition reads :: "nat \<Rightarrow> string \<Rightarrow> json \<Rightarrow> bool" where
  "reads d v j \<longleftrightarrow> pvalue d v = Some (j, []) \<and> strip v = v"

lemma reads_before: "reads d v j \<Longrightarrow> delim t \<Longrightarrow> pvalue d (v @ t) = Some (j, t)"
  using parse_extend(1) [of d v j "[]" t] by (simp add: reads_def)

lemma reads_nonempty: "reads d v j \<Longrightarrow> v \<noteq> []"
  by (auto simp: reads_def pvalue.simps)

lemma reads_skip_ws: "reads d v j \<Longrightarrow> skip_ws (v @ t) = v @ t"
  using reads_nonempty [of d v j] pvalue_start_bare [of d] by (cases v) (auto simp: reads_def)

lemma strip_reads: "reads d v j \<Longrightarrow> strip (v @ t) = v @ strip t"
  using parse_stripped(1) [of d v j "[]"] by (auto simp: reads_def stripped_def)

lemma json_strip_idem: "json_strip q (json_strip q x) = json_strip q x"
  by (induction q x rule: json_strip.induct) (auto split: list.splits)

text \<open>Compacting any valid value gives one in compact form.\<close>

lemma compact_reads:
  assumes "pvalue d (skip_ws s) = Some (j, r)" "skip_ws r = []"
  shows "\<exists>j'. reads d (strip s) j'"
proof -
  obtain v j' where v: "skip_ws s = v @ r" "\<And>t. strip (v @ t) = strip v @ strip t" "\<And>t. delim t \<Longrightarrow> pvalue d (strip v @ t) = Some (j', t)"
    using parse_stripped(1) [OF assms(1)] by (rule strippedE) blast
  have "strip r = []" using strip_skip_ws [of r] assms(2) by simp
  then have s: "strip s = strip v" using v(1) v(2) [of r] strip_skip_ws [of s] by simp
  have p: "pvalue d (strip v) = Some (j', [])" using v(3) [of "[]"] by simp
  then show ?thesis using s json_strip_idem by (auto simp: reads_def)
qed

lemma pvalue_deeper:
  "pvalue d s = Some x \<Longrightarrow> d \<le> d' \<Longrightarrow> pvalue d' s = Some x"
  "pelems d s = Some y \<Longrightarrow> d \<le> d' \<Longrightarrow> pelems d' s = Some y"
  "pmembers d s = Some z \<Longrightarrow> d \<le> d' \<Longrightarrow> pmembers d' s = Some z"
proof (induction d s and d s and d s arbitrary: d' x and d' y and d' z rule: pvalue_pelems_pmembers.induct)
  case (2 d c s)
  have e: "d - 1 \<le> d' - 1" using "2.prems" by simp
  show ?case
    using "2.prems" "2.IH"(1) [where d' = "d' - 1"] "2.IH"(2) [where d' = "d' - 1"] e
    by (cases "skip_ws s") (auto simp: pvalue.simps(2) [of _ c s] simp del: dropWhile_eq_Nil_conv split: if_splits)
next
  case (3 d s)
  obtain v s1 where v: "pvalue d s = Some (v, s1)" using "3.prems" by (cases "pvalue d s") (auto simp: pelems.simps [of d s])
  moreover have "pvalue d' s = Some (v, s1)" using "3.IH"(1) [OF v] "3.prems" by simp
  moreover obtain e u where e: "skip_ws s1 = e # u"
    using "3.prems" v by (cases "skip_ws s1") (auto simp: pelems.simps [of d s] simp del: dropWhile_eq_Nil_conv)
  ultimately show ?case using "3.prems" "3.IH"(2) [OF v refl e, where d' = d']
    unfolding pelems.simps [of d s] pelems.simps [of d' s] by (auto split: if_splits)
next
  case (5 d q s)
  obtain k s1 where k0: "q = CHR 0x22" "scan_string s = Some (k, s1)"
    using "5.prems"(1) by (auto simp: pmembers.simps split: if_splits option.splits)
  then obtain u where "skip_ws s1 = CHR '':'' # u" using "5.prems" by (auto simp: pmembers.simps split: if_splits list.splits)
  note k = k0 this
  then obtain v s3 where v: "pvalue d (skip_ws u) = Some (v, s3)"
    using "5.prems" by (auto simp: pmembers.simps Let_def split: option.splits)
  have v': "pvalue d' (skip_ws u) = Some (v, s3)"
    by (rule "5.IH"(1) [OF _ k(2) refl k(3) _ refl v "5.prems"(2)]) (simp_all add: k)
  show ?case
  proof (cases "skip_ws s3")
    case Nil
    then show ?thesis using "5.prems" k v by (simp add: pmembers.simps(2) Let_def del: dropWhile_eq_Nil_conv)
  next
    case (Cons e x)
    then show ?thesis using "5.prems" "5.IH"(2) [OF _ k(2) refl k(3) _ refl v refl Cons, where d' = d'] k v v'
      unfolding k(1) pmembers.simps(2) [of d "CHR 0x22" s] pmembers.simps(2) [of d' "CHR 0x22" s] Let_def by (auto split: if_splits)
  qed
qed (simp_all add: pvalue.simps pmembers.simps)

lemma reads_deeper: "reads d v j \<Longrightarrow> d \<le> d' \<Longrightarrow> reads d' v j"
  by (auto simp: reads_def intro: pvalue_deeper)

lemma reads_string: "reads d (json_quote s) (JStr (json_body s))"
  using strip_string [OF scan_json_body [of s "[]"], of "[]"] scan_json_body [of s "[]"]
  by (simp add: reads_def json_quote_def pvalue.simps(2))

lemma reads_null: "reads d ''null'' JNull"
  by (simp add: reads_def pvalue.simps(2) HasPrefix_def json_ws_def)

lemma is_digit_FormatUint: "list_all is_digit (FormatUint n)"
  using FormatUint_digits [of n] by (simp add: list_all_iff is_digit_def)

lemma FormatUint_zero: "hd (FormatUint n) = CHR ''0'' \<Longrightarrow> n = 0"
proof (induction n rule: FormatUint.induct)
  case (1 n)
  show ?case
  proof (cases "n < 10")
    case True
    then have "digit_char n = CHR ''0''" using "1.prems" by (simp add: FormatUint.simps [of n])
    then have "digit_val CHR ''0'' = Some n" using True by (metis digit_val_digit_char)
    then show ?thesis by (simp add: digit_val_def)
  next
    case False
    then have "hd (FormatUint (n div 10)) = CHR ''0''" using "1.prems" by (simp add: FormatUint.simps [of n])
    then show ?thesis using 1 False by simp
  qed
qed

lemma scan_number_FormatInt: "scan_number (FormatInt i) = Some (FormatInt i, [])"
proof -
  have u: "scan_int (FormatUint n) = Some (FormatUint n, [])" for n
  proof (cases "hd (FormatUint n) = CHR ''0''")
    case True
    then have "n = 0" by (rule FormatUint_zero)
    moreover have "digit_char 0 = CHR ''0''" by code_simp
    ultimately show ?thesis by (simp add: FormatUint.simps [of 0] scan_int_def)
  next
    case False
    have "\<forall>c \<in> set (FormatUint n). is_digit c" using is_digit_FormatUint [of n] by (simp add: list_all_iff)
    then have "takeWhile is_digit (FormatUint n) = FormatUint n" "dropWhile is_digit (FormatUint n) = []" by simp_all
    then have "scan_digits (FormatUint n) = Some (FormatUint n, [])" by (simp only: scan_digits_def Let_def FormatUint_nonempty if_False)
    then show ?thesis using False by (cases "FormatUint n") (auto simp: scan_int_def)
  qed
  have "hd (FormatUint n) \<noteq> CHR ''-''" for n
    using is_digit_FormatUint [of n] literal_not_number(7) by (cases "FormatUint n") auto
  then have m: "(case FormatUint n of c # t \<Rightarrow> if c = CHR ''-'' then ([c], t) else ([], FormatUint n) | [] \<Rightarrow> ([], [])) = ([], FormatUint n)" for n
    by (cases "FormatUint n") (auto, metis list.sel(1))
  show ?thesis
    using u m by (simp add: scan_number_def FormatInt_def scan_frac_def scan_exp_def)
qed

lemma reads_int: "reads d (FormatInt i) (JNum (FormatInt i))"
proof -
  note n = scan_number_FormatInt [of i]
  obtain c b where c: "FormatInt i = c # b" using scan_number_split [OF n] by (cases "FormatInt i") auto
  have "c = CHR ''-'' \<or> is_digit c" using n scan_number_start [of c b] unfolding c by simp
  then have "c \<noteq> CHR 0x7B" "c \<noteq> CHR ''[''" "c \<noteq> CHR 0x22" "c \<noteq> CHR ''n''" "c \<noteq> CHR ''t''" "c \<noteq> CHR ''f''"
    using literal_not_number by auto
  then have "pvalue d (FormatInt i) = Some (JNum (FormatInt i), [])" using n unfolding c by (simp add: pvalue.simps(2) HasPrefix_Cons)
  moreover have "strip (FormatInt i) = FormatInt i" using scan_number_split [OF n] strip_bare [of "FormatInt i" "[]"] by simp
  ultimately show ?thesis by (simp add: reads_def)
qed

section \<open>Objects and arrays\<close>

text \<open>What the encoder writes for an object and an array, from the texts of the values.\<close>

fun members_text :: "(string \<times> string) list \<Rightarrow> string" where
  "members_text [] = []"
| "members_text [(k, v)] = json_quote k @ CHR '':'' # v"
| "members_text ((k, v) # ms) = json_quote k @ CHR '':'' # v @ CHR '','' # members_text ms"

definition obj_text :: "(string \<times> string) list \<Rightarrow> string" where
  "obj_text ms = CHR 0x7B # members_text ms @ [CHR 0x7D]"

fun elems_text :: "string list \<Rightarrow> string" where
  "elems_text [] = []"
| "elems_text [v] = v"
| "elems_text (v # vs) = v @ CHR '','' # elems_text vs"

definition arr_text :: "string list \<Rightarrow> string" where
  "arr_text vs = CHR ''['' # elems_text vs @ [CHR '']'']"

lemma scan_quote: "scan_string (json_body k @ CHR 0x22 # t) = Some (json_body k, t)"
  by (rule scan_json_body)

lemma pmembers_one:
  assumes "reads d v j" "c = CHR 0x7D \<or> c = CHR '',''"
  shows "pmembers d (json_quote k @ CHR '':'' # v @ c # t) =
    (if c = CHR 0x7D then Some ([(json_body k, v, j)], t)
     else map_option (\<lambda>(ms, w). ((json_body k, v, j) # ms, w)) (pmembers d (skip_ws t)))"
  using assms(2) reads_skip_ws [OF assms(1)] reads_before [OF assms(1), of "c # t"] reads_nonempty [OF assms(1)]
  by (auto simp: json_quote_def pmembers.simps(2) Let_def scan_quote)

lemma strip_quote: "strip (json_quote k @ t) = json_quote k @ strip t"
  using strip_reads [OF reads_string [of 0 k]] .

lemma members_text_start: "ms \<noteq> [] \<Longrightarrow> \<exists>u. members_text ms = CHR 0x22 # u"
  by (cases ms rule: members_text.cases) (auto simp: json_quote_def)

lemma pmembers_text:
  assumes "ms \<noteq> []" "list_all (\<lambda>(k, v, j). reads d v j) ms"
  shows "pmembers d (members_text (map (\<lambda>(k, v, j). (k, v)) ms) @ CHR 0x7D # t) =
      Some (map (\<lambda>(k, v, j). (json_body k, v, j)) ms, t)"
    "strip (members_text (map (\<lambda>(k, v, j). (k, v)) ms) @ s) = members_text (map (\<lambda>(k, v, j). (k, v)) ms) @ strip s"
proof -
  show "pmembers d (members_text (map (\<lambda>(k, v, j). (k, v)) ms) @ CHR 0x7D # t) =
      Some (map (\<lambda>(k, v, j). (json_body k, v, j)) ms, t)"
    using assms
  proof (induction ms rule: induct_list012)
    case (2 m)
    obtain k v j where m: "m = (k, v, j)" by (metis prod_cases3)
    then show ?case using 2 pmembers_one [of d v j "CHR 0x7D" k t] by simp
  next
    case (3 m m' ms)
    obtain k v j where m: "m = (k, v, j)" by (metis prod_cases3)
    obtain u where "members_text (map (\<lambda>(k, v, j). (k, v)) (m' # ms)) = CHR 0x22 # u" using members_text_start by blast
    then have "skip_ws (members_text (map (\<lambda>(k, v, j). (k, v)) (m' # ms)) @ CHR 0x7D # t) =
        members_text (map (\<lambda>(k, v, j). (k, v)) (m' # ms)) @ CHR 0x7D # t" by simp
    then show ?case
      using m 3 pmembers_one [of d v j "CHR '',''" k "members_text (map (\<lambda>(k, v, j). (k, v)) (m' # ms)) @ CHR 0x7D # t"]
      by (cases m') simp
  qed simp
  show "strip (members_text (map (\<lambda>(k, v, j). (k, v)) ms) @ s) = members_text (map (\<lambda>(k, v, j). (k, v)) ms) @ strip s"
    using assms
  proof (induction ms rule: induct_list012)
    case (2 m)
    then show ?case by (cases m) (auto simp: strip_quote strip_reads)
  next
    case (3 m m' ms)
    then show ?case by (cases m; cases m') (auto simp: strip_quote strip_reads)
  qed simp
qed

lemma reads_obj:
  assumes "list_all (\<lambda>(k, v, j). reads d v j) ms"
  shows "reads (Suc d) (obj_text (map (\<lambda>(k, v, j). (k, v)) ms)) (JObj (map (\<lambda>(k, v, j). (json_body k, v, j)) ms))"
proof (cases "ms = []")
  case True
  then show ?thesis by (simp add: reads_def obj_text_def pvalue.simps(2))
next
  case False
  then obtain u where u: "members_text (map (\<lambda>(k, v, j). (k, v)) ms) = CHR 0x22 # u" using members_text_start by blast
  then have "pvalue (Suc d) (obj_text (map (\<lambda>(k, v, j). (k, v)) ms)) = Some (JObj (map (\<lambda>(k, v, j). (json_body k, v, j)) ms), [])"
    using pmembers_text(1) [OF False assms, of "[]"] by (simp add: obj_text_def pvalue.simps(2))
  then show ?thesis using pmembers_text(2) [OF False assms, of "[CHR 0x7D]"] by (simp add: reads_def obj_text_def)
qed

lemma pelems_text:
  assumes "vs \<noteq> []" "list_all2 (reads d) vs js"
  shows "pelems d (elems_text vs @ CHR '']'' # t) = Some (js, t) \<and> (\<forall>s. strip (elems_text vs @ s) = elems_text vs @ strip s) \<and>
    skip_ws (elems_text vs @ u) = elems_text vs @ u"
  using assms
proof (induction vs arbitrary: js u rule: induct_list012)
  case (2 v)
  then obtain j where j: "js = [j]" "reads d v j" by (auto simp: list_all2_Cons1)
  then show ?case using reads_before [OF j(2), of "CHR '']'' # t"]
    by (simp add: pelems.simps [of d "v @ _"] strip_reads reads_skip_ws)
next
  case (3 v v' vs)
  then obtain j js' where j: "js = j # js'" "reads d v j" "list_all2 (reads d) (v' # vs) js'" by (auto simp: list_all2_Cons1)
  let ?r = "elems_text (v' # vs)"
  have ih: "pelems d (?r @ CHR '']'' # t) = Some (js', t)" "\<And>s. strip (?r @ s) = ?r @ strip s" "\<And>u. skip_ws (?r @ u) = ?r @ u"
    using "3.IH"(2) [OF _ j(3)] by auto
  have "pelems d (v @ CHR '','' # ?r @ CHR '']'' # t) = Some (j # js', t)"
    using reads_before [OF j(2), of "CHR '','' # ?r @ CHR '']'' # t"] reads_nonempty [OF j(2)] ih(1,3)
    by (simp add: pelems.simps [of d "v @ CHR '','' # ?r @ CHR '']'' # t"])
  then show ?case using j ih(2) by (simp add: strip_reads [OF j(2)] reads_skip_ws [OF j(2)])
qed simp

lemma reads_arr:
  assumes "list_all2 (reads d) vs js"
  shows "reads (Suc d) (arr_text vs) (JArr js)"
proof (cases "vs = []")
  case True
  then show ?thesis using assms by (simp add: reads_def arr_text_def pvalue.simps(2))
next
  case False
  note e = pelems_text [OF False assms]
  have "skip_ws (elems_text vs @ [CHR '']'']) = elems_text vs @ [CHR '']'']" using e by blast
  moreover have "elems_text vs @ [CHR '']''] \<noteq> [] \<and> hd (elems_text vs @ [CHR '']'']) \<noteq> CHR '']''"
    using pelems_start [of d "elems_text vs @ [CHR '']'']"] e by blast
  ultimately have "pvalue (Suc d) (arr_text vs) = Some (JArr js, [])"
    using e [of "[]"] by (cases "elems_text vs @ [CHR '']'']") (auto simp: arr_text_def pvalue.simps(2))
  moreover have "strip (arr_text vs) = arr_text vs" using e by (simp add: arr_text_def)
  ultimately show ?thesis by (simp add: reads_def)
qed

lemma members_text_append:
  "members_text (ms @ ns) = (if ms = [] then members_text ns else if ns = [] then members_text ms
     else members_text ms @ CHR '','' # members_text ns)"
proof (induction ms rule: members_text.induct)
  case (2 k v)
  then show ?case by (cases ns) (auto split: prod.splits)
qed auto

end
