(* ===== verification/Codec.thy ===== *)
theory Codec
  imports Envelope Go_Json_Text Go_Time
begin

text \<open>
  The canonical JSON codec of the envelope (\<open>core/envelope/codec.go\<close>): the wire form of times, durations and
  payloads, the private mirror structs, the capture and re-emission of unknown fields, and \<open>Marshal\<close> and \<open>Unmarshal\<close>
  on texts. The reflection of \<open>encoding/json\<close> over the structs is written out: the encoder as the list of members a
  struct contributes, the decoder as one step per member, which looks the key up first exactly and then without regard to case.
  A failing call is \<open>None\<close>; which of several errors is reported is not modelled.
\<close>

section \<open>Padded base 64\<close>

text \<open>\<open>base64.StdEncoding\<close>, through which \<open>encoding/json\<close> writes a byte slice.\<close>

definition to_std :: "char \<Rightarrow> char" where
  "to_std c = (if c = CHR ''-'' then CHR ''+'' else if c = CHR ''_'' then CHR ''/'' else c)"

definition of_std :: "char \<Rightarrow> char" where
  "of_std c = (if c = CHR ''+'' then CHR ''-'' else if c = CHR ''/'' then CHR ''_'' else c)"

definition std_encode :: "bytes \<Rightarrow> string" where
  "std_encode bs = map to_std (b64_encode bs) @ replicate ((3 - length bs mod 3) mod 3) (CHR ''='')"

definition std_decode :: "string \<Rightarrow> bytes option" where
  "std_decode s =
     (let t = filter (\<lambda>c. c \<noteq> CHR 0x0A \<and> c \<noteq> CHR 0x0D) s;
          n = length (takeWhile (\<lambda>c. c = CHR ''='') (rev t));
          body = take (length t - n) t
      in if length t mod 4 \<noteq> 0 \<or> 2 < n \<or> list_ex (\<lambda>c. c = CHR ''-'' \<or> c = CHR ''_'') body then None
         else b64_decode (map of_std body))"

text \<open>For evaluation, the groups of both encodings on integers instead of unary numbers.\<close>

lemma of_char_int: "(of_char c :: int) = int (of_char c)"
  by (rule of_nat_of_char [symmetric])

lemma nat_parts:
  "nat (int v div 262144) = v div 262144" "nat (int v div 4096 mod 64) = v div 4096 mod 64" "nat (int v div 64 mod 64) = v div 64 mod 64"
  "nat (int v mod 64) = v mod 64"
  by (simp_all add: nat_div_distrib nat_mod_distrib)

lemma b64_encode_code [code]:
  "b64_encode [] = []"
  "b64_encode [a] = (let v = (of_char a :: int) * 65536 in [b64_char (nat (v div 262144)), b64_char (nat (v div 4096 mod 64))])"
  "b64_encode [a, b] = (let v = (of_char a :: int) * 65536 + of_char b * 256 in
      [b64_char (nat (v div 262144)), b64_char (nat (v div 4096 mod 64)), b64_char (nat (v div 64 mod 64))])"
  "b64_encode (a # b # c # s) = (let v = (of_char a :: int) * 65536 + of_char b * 256 + of_char c in
      [b64_char (nat (v div 262144)), b64_char (nat (v div 4096 mod 64)), b64_char (nat (v div 64 mod 64)), b64_char (nat (v mod 64))] @
      b64_encode s)"
proof -
  have v: "(of_char a :: int) * 65536 = int (of_char a * 65536)"
    "(of_char a :: int) * 65536 + of_char b * 256 = int (of_char a * 65536 + of_char b * 256)"
    "(of_char a :: int) * 65536 + of_char b * 256 + of_char c = int (of_char a * 65536 + of_char b * 256 + of_char c)" by (simp_all add: of_char_int)
  show "b64_encode [] = []" by simp
  show "b64_encode [a] = (let v = (of_char a :: int) * 65536 in [b64_char (nat (v div 262144)), b64_char (nat (v div 4096 mod 64))])"
    unfolding v(1) nat_parts Let_def by (simp add: Let_def)
  show "b64_encode [a, b] = (let v = (of_char a :: int) * 65536 + of_char b * 256 in
      [b64_char (nat (v div 262144)), b64_char (nat (v div 4096 mod 64)), b64_char (nat (v div 64 mod 64))])"
    unfolding v(2) nat_parts Let_def by (simp add: Let_def)
  show "b64_encode (a # b # c # s) = (let v = (of_char a :: int) * 65536 + of_char b * 256 + of_char c in
      [b64_char (nat (v div 262144)), b64_char (nat (v div 4096 mod 64)), b64_char (nat (v div 64 mod 64)), b64_char (nat (v mod 64))] @
      b64_encode s)"
    unfolding v(3) nat_parts Let_def by (simp add: Let_def)
qed

lemma char_of_int: "char_of (int n) = (char_of n :: char)"
  by (rule char_of_nat)

lemma b64_groups_code [code]:
  "b64_groups [] = Some []"
  "b64_groups [a] = None"
  "b64_groups [a, b] = (let v = int a * 262144 + int b * 4096 in Some [char_of (v div 65536)])"
  "b64_groups [a, b, c] = (let v = int a * 262144 + int b * 4096 + int c * 64 in Some [char_of (v div 65536), char_of (v div 256 mod 256)])"
  "b64_groups (a # b # c # d # s) = (let v = int a * 262144 + int b * 4096 + int c * 64 + int d in
      map_option (\<lambda>bs. char_of (v div 65536) # char_of (v div 256 mod 256) # char_of (v mod 256) # bs) (b64_groups s))"
proof -
  have v: "int a * 262144 + int b * 4096 = int (a * 262144 + b * 4096)"
    "int a * 262144 + int b * 4096 + int c * 64 = int (a * 262144 + b * 4096 + c * 64)"
    "int a * 262144 + int b * 4096 + int c * 64 + int d = int (a * 262144 + b * 4096 + c * 64 + d)" by simp_all
  have d: "char_of (int n div 65536) = (char_of (n div 65536) :: char)" "char_of (int n div 256 mod 256) = (char_of (n div 256 mod 256) :: char)"
    "char_of (int n mod 256) = (char_of (n mod 256) :: char)" for n
    unfolding char_of_int [symmetric] by (simp_all add: zdiv_int zmod_int)
  show "b64_groups [] = Some []" "b64_groups [a] = None" by simp_all
  show "b64_groups [a, b] = (let v = int a * 262144 + int b * 4096 in Some [char_of (v div 65536)])"
    unfolding v(1) d Let_def by (simp add: Let_def)
  show "b64_groups [a, b, c] = (let v = int a * 262144 + int b * 4096 + int c * 64 in Some [char_of (v div 65536), char_of (v div 256 mod 256)])"
    unfolding v(2) d Let_def by (simp add: Let_def del: char_of_mod_256 of_nat_add of_nat_mult)
  show "b64_groups (a # b # c # d # s) = (let v = int a * 262144 + int b * 4096 + int c * 64 + int d in
      map_option (\<lambda>bs. char_of (v div 65536) # char_of (v div 256 mod 256) # char_of (v mod 256) # bs) (b64_groups s))"
    unfolding v(3) d Let_def by (simp add: Let_def del: char_of_mod_256 of_nat_add of_nat_mult)
qed

section \<open>Times and durations\<close>

definition Time_MarshalJSON :: "time \<Rightarrow> string" where
  "Time_MarshalJSON t = CHR 0x22 # format_millis t @ [CHR 0x22]"

text \<open>The new value of the time, given the old one: a null leaves it.\<close>

definition Time_UnmarshalJSON :: "time \<Rightarrow> json \<Rightarrow> time option" where
  "Time_UnmarshalJSON cur v = (case v of
       JNull \<Rightarrow> Some cur
     | JStr b \<Rightarrow> parse_rfc3339 (unquote b)
     | _ \<Rightarrow> None)"

definition Millis_MarshalJSON :: "duration \<Rightarrow> string" where
  "Millis_MarshalJSON d = FormatInt (sgn d * (\<bar>d\<bar> div 1000000))"

text \<open>\<open>bytes.TrimSpace\<close> on the text of a JSON value.\<close>

definition trim_ws :: "string \<Rightarrow> string" where
  "trim_ws s = rev (skip_ws (rev (skip_ws s)))"

definition Millis_UnmarshalJSON :: "string \<Rightarrow> duration option" where
  "Millis_UnmarshalJSON data = map_option (\<lambda>ms. wrap64 (ms * 1000000)) (ParseInt (trim_ws data))"

section \<open>The wire structs\<close>

text \<open>The mirrors have the fields of \<open>Attempt\<close> and \<open>Envelope\<close>; only their times have the canonical type, which in
  the model is the time itself.\<close>

record wireAttempt =
  wAttemptNo :: int
  wStartedAt :: time
  wFinishedAt :: "time option"
  wOutcome :: outcome
  wError :: "error_detail option"
  wAResidual :: "bytes gomap"

record wireEnvelope =
  wEnvelopeVersion :: int
  wID :: string
  wQueue :: string
  wHandlerRef :: string
  wHandlerVersion :: string
  wPayload :: "bytes option"
  wPayloadContentType :: string
  wPayloadRef :: "string option"
  wHeaders :: "string gomap"
  wStatus :: status
  wAttemptCount :: int
  wRedriveCount :: int
  wNextAttemptAt :: "time option"
  wLeaseExpiresAt :: "time option"
  wCreatedAt :: time
  wAttempts :: "wireAttempt list"
  wResidual :: "bytes gomap"

definition wireTimePtr :: "time option \<Rightarrow> time option" where
  "wireTimePtr t = (case t of None \<Rightarrow> None | Some w \<Rightarrow> Some w)"

definition timePtr :: "time option \<Rightarrow> time option" where
  "timePtr t = (case t of None \<Rightarrow> None | Some w \<Rightarrow> Some w)"

definition toWireAttempt :: "attempt \<Rightarrow> wireAttempt" where
  "toWireAttempt a = \<lparr>wAttemptNo = AttemptNo a, wStartedAt = StartedAt a, wFinishedAt = wireTimePtr (FinishedAt a),
     wOutcome = Outcome a, wError = Err a, wAResidual = AResidual a\<rparr>"

definition toWire :: "envelope \<Rightarrow> wireEnvelope" where
  "toWire e = \<lparr>wEnvelopeVersion = EnvelopeVersion e, wID = ID e, wQueue = Queue e, wHandlerRef = HandlerRef e,
     wHandlerVersion = HandlerVersion e, wPayload = Payload e, wPayloadContentType = PayloadContentType e,
     wPayloadRef = PayloadRef e, wHeaders = Headers e, wStatus = Status e, wAttemptCount = AttemptCount e,
     wRedriveCount = RedriveCount e, wNextAttemptAt = wireTimePtr (NextAttemptAt e),
     wLeaseExpiresAt = wireTimePtr (LeaseExpiresAt e), wCreatedAt = CreatedAt e,
     wAttempts = map toWireAttempt (Attempts e), wResidual = Residual e\<rparr>"

definition toAttempt :: "wireAttempt \<Rightarrow> attempt" where
  "toAttempt a = \<lparr>AttemptNo = wAttemptNo a, StartedAt = wStartedAt a, FinishedAt = timePtr (wFinishedAt a),
     Outcome = wOutcome a, Err = wError a, AResidual = wAResidual a\<rparr>"

definition toEnvelope :: "wireEnvelope \<Rightarrow> envelope" where
  "toEnvelope w = \<lparr>EnvelopeVersion = wEnvelopeVersion w, ID = wID w, Queue = wQueue w, HandlerRef = wHandlerRef w,
     HandlerVersion = wHandlerVersion w, Payload = wPayload w, PayloadContentType = wPayloadContentType w,
     PayloadRef = wPayloadRef w, Headers = wHeaders w, Status = wStatus w, AttemptCount = wAttemptCount w,
     RedriveCount = wRedriveCount w, NextAttemptAt = timePtr (wNextAttemptAt w),
     LeaseExpiresAt = timePtr (wLeaseExpiresAt w), CreatedAt = wCreatedAt w,
     Attempts = map toAttempt (wAttempts w), Residual = wResidual w\<rparr>"

section \<open>Known keys\<close>

text \<open>The wire names, which the code derives from the struct tags.\<close>

definition envelopeKnownKeys :: "string list" where
  "envelopeKnownKeys = [''envelope_version'', ''id'', ''queue'', ''handler_ref'', ''handler_version'', ''payload'',
     ''payload_content_type'', ''payload_ref'', ''headers'', ''status'', ''attempt_count'', ''redrive_count'',
     ''next_attempt_at'', ''lease_expires_at'', ''created_at'', ''attempts'']"

definition attemptKnownKeys :: "string list" where
  "attemptKnownKeys = [''attempt_no'', ''started_at'', ''finished_at'', ''outcome'', ''error'']"

definition errorKeys :: "string list" where
  "errorKeys = [''type'', ''message'', ''detail'', ''stack'']"

text \<open>The folding of \<open>encoding/json\<close>: ASCII letters to upper case, and the two other letters that fold into
  ASCII, the long s and the Kelvin sign.\<close>

definition ascii_upper :: "char \<Rightarrow> char" where
  "ascii_upper c = (let n = (of_char c :: nat) in if 97 \<le> n \<and> n \<le> 122 then char_of (n - 32) else c)"

fun foldName :: "string \<Rightarrow> string" where
  "foldName (a # b # c # s) =
     (if a = CHR 0xE2 \<and> b = CHR 0x84 \<and> c = CHR 0xAA then CHR ''K'' # foldName s
      else if a = CHR 0xC5 \<and> b = CHR 0xBF then CHR ''S'' # foldName (c # s)
      else ascii_upper a # foldName (b # c # s))"
| "foldName [a, b] = (if a = CHR 0xC5 \<and> b = CHR 0xBF then ''S'' else [ascii_upper a, ascii_upper b])"
| "foldName [a] = [ascii_upper a]"
| "foldName [] = []"

text \<open>The field that a key of a document sets.\<close>

definition field_of :: "string list \<Rightarrow> string \<Rightarrow> string option" where
  "field_of keys k = (if k \<in> set keys then Some k else find (\<lambda>f. foldName f = foldName k) keys)"

section \<open>Encoding\<close>

definition time_ptr_text :: "time option \<Rightarrow> string" where
  "time_ptr_text t = (case t of None \<Rightarrow> ''null'' | Some x \<Rightarrow> Time_MarshalJSON x)"

definition payload_text :: "bytes option \<Rightarrow> string" where
  "payload_text p = (case p of None \<Rightarrow> ''null'' | Some b \<Rightarrow> CHR 0x22 # std_encode b @ [CHR 0x22])"

text \<open>A map of strings is written with its keys sorted.\<close>

definition headers_text :: "string gomap \<Rightarrow> string" where
  "headers_text h = obj_text (map (\<lambda>k. (k, json_quote (or_else (map_of h k) []))) (sort (map fst h)))"

definition detail_members :: "bytes option \<Rightarrow> (string \<times> string) list option" where
  "detail_members b = (case b of
       None \<Rightarrow> Some []
     | Some raw \<Rightarrow> if raw = [] then Some [] else map_option (\<lambda>v. [(''detail'', v)]) (Compact raw))"

definition Error_text :: "error_detail \<Rightarrow> string option" where
  "Error_text e = map_option (\<lambda>dm. obj_text ([(''type'', json_quote (ErrType e)), (''message'', json_quote (Message e))] @ dm @
     (if Stack e = [] then [] else [(''stack'', json_quote (Stack e))]))) (detail_members (Detail e))"

fun residualLoop :: "bytes gomap \<Rightarrow> bool \<Rightarrow> string list \<Rightarrow> string option" where
  "residualLoop residual first [] = Some []"
| "residualLoop residual first (k # ks) =
     (case Compact (or_else (map_of residual k) []) of
        None \<Rightarrow> None
      | Some v \<Rightarrow> map_option (\<lambda>t. (if first then [] else [CHR '','']) @ json_quote k @ CHR '':'' # v @ t)
          (residualLoop residual False ks))"

definition appendResidual :: "string \<Rightarrow> bytes gomap \<Rightarrow> string option" where
  "appendResidual known residual =
     (if residual = [] then Some known
      else map_option (\<lambda>t. take (length known - 1) known @ t @ [CHR 0x7D])
        (residualLoop residual (length known = 2) (sort (map fst residual))))"

definition attempt_members :: "wireAttempt \<Rightarrow> (string \<times> string) list option" where
  "attempt_members w =
     (let fixed = [(''attempt_no'', FormatInt (wAttemptNo w)), (''started_at'', Time_MarshalJSON (wStartedAt w)),
          (''finished_at'', time_ptr_text (wFinishedAt w)), (''outcome'', json_quote (wOutcome w))]
      in case wError w of
           None \<Rightarrow> Some fixed
         | Some e \<Rightarrow> map_option (\<lambda>t. fixed @ [(''error'', t)]) (Error_text e))"

definition wireAttempt_MarshalJSON :: "wireAttempt \<Rightarrow> string option" where
  "wireAttempt_MarshalJSON w = (case attempt_members w of
      None \<Rightarrow> None | Some ms \<Rightarrow> appendResidual (obj_text ms) (wAResidual w))"

text \<open>The encoder compacts what a \<open>MarshalJSON\<close> method returns.\<close>

definition attempt_text :: "wireAttempt \<Rightarrow> string option" where
  "attempt_text w = (case wireAttempt_MarshalJSON w of None \<Rightarrow> None | Some t \<Rightarrow> Compact t)"

definition attempts_members :: "wireAttempt list \<Rightarrow> (string \<times> string) list option" where
  "attempts_members as = (if as = [] then Some []
     else map_option (\<lambda>ts. [(''attempts'', arr_text ts)]) (those (map attempt_text as)))"

definition fixed_members :: "wireEnvelope \<Rightarrow> (string \<times> string) list" where
  "fixed_members w =
     [(''envelope_version'', FormatInt (wEnvelopeVersion w)), (''id'', json_quote (wID w)), (''queue'', json_quote (wQueue w)),
      (''handler_ref'', json_quote (wHandlerRef w))] @
     (if wHandlerVersion w = [] then [] else [(''handler_version'', json_quote (wHandlerVersion w))]) @
     [(''payload'', payload_text (wPayload w)), (''payload_content_type'', json_quote (wPayloadContentType w))] @
     (case wPayloadRef w of None \<Rightarrow> [] | Some r \<Rightarrow> [(''payload_ref'', json_quote r)]) @
     (if wHeaders w = [] then [] else [(''headers'', headers_text (wHeaders w))]) @
     [(''status'', json_quote (wStatus w)), (''attempt_count'', FormatInt (wAttemptCount w)),
      (''redrive_count'', FormatInt (wRedriveCount w)), (''next_attempt_at'', time_ptr_text (wNextAttemptAt w)),
      (''lease_expires_at'', time_ptr_text (wLeaseExpiresAt w)), (''created_at'', Time_MarshalJSON (wCreatedAt w))]"

definition wireEnvelope_MarshalJSON :: "wireEnvelope \<Rightarrow> string option" where
  "wireEnvelope_MarshalJSON w = (case attempts_members (wAttempts w) of
      None \<Rightarrow> None | Some am \<Rightarrow> appendResidual (obj_text (fixed_members w @ am)) (wResidual w))"

definition Marshal :: "envelope \<Rightarrow> string option" where
  "Marshal e = (case wireEnvelope_MarshalJSON (toWire e) of None \<Rightarrow> None | Some t \<Rightarrow> Compact t)"

section \<open>Decoding\<close>

definition decodeInt :: "int \<Rightarrow> json \<Rightarrow> int option" where
  "decodeInt cur v = (case v of JNull \<Rightarrow> Some cur | JNum b \<Rightarrow> ParseInt b | _ \<Rightarrow> None)"

definition decodeString :: "string \<Rightarrow> json \<Rightarrow> string option" where
  "decodeString cur v = (case v of JNull \<Rightarrow> Some cur | JStr b \<Rightarrow> Some (unquote b) | _ \<Rightarrow> None)"

definition decodeStringPtr :: "json \<Rightarrow> string option option" where
  "decodeStringPtr v = (case v of JNull \<Rightarrow> Some None | JStr b \<Rightarrow> Some (Some (unquote b)) | _ \<Rightarrow> None)"

definition decodeTimePtr :: "time option \<Rightarrow> json \<Rightarrow> time option option" where
  "decodeTimePtr cur v = (case v of JNull \<Rightarrow> Some None | _ \<Rightarrow> map_option Some (Time_UnmarshalJSON (or_else cur time_zero) v))"

text \<open>A byte slice is a base 64 string, or an array of numbers; a null in the array keeps the byte at its place.\<close>

fun decodeByteElems :: "bytes \<Rightarrow> json list \<Rightarrow> bytes option" where
  "decodeByteElems cur [] = Some []"
| "decodeByteElems cur (v # vs) =
     (case (case v of JNull \<Rightarrow> Some (case cur of [] \<Rightarrow> CHR 0x00 | c # _ \<Rightarrow> c)
            | JNum b \<Rightarrow> (case ParseUint b of None \<Rightarrow> None | Some n \<Rightarrow> if n < 256 then Some (char_of n) else None)
            | _ \<Rightarrow> None) of
        None \<Rightarrow> None | Some c \<Rightarrow> map_option (\<lambda>cs. c # cs) (decodeByteElems (drop 1 cur) vs))"

definition decodeBytes :: "bytes option \<Rightarrow> json \<Rightarrow> bytes option option" where
  "decodeBytes cur v = (case v of
       JNull \<Rightarrow> Some None
     | JStr b \<Rightarrow> map_option Some (std_decode (unquote b))
     | JArr vs \<Rightarrow> map_option Some (decodeByteElems (or_else cur []) vs)
     | _ \<Rightarrow> None)"

type_synonym members = "(string \<times> bytes \<times> json) list"

text \<open>The members of an object in order, each applied to the value decoded so far.\<close>

fun decode_fold :: "(string \<Rightarrow> bytes \<Rightarrow> json \<Rightarrow> 'a \<Rightarrow> 'a option) \<Rightarrow> members \<Rightarrow> 'a \<Rightarrow> 'a option" where
  "decode_fold step [] x = Some x"
| "decode_fold step ((k, raw, v) # ms) x = (case step (unquote k) raw v x of None \<Rightarrow> None | Some y \<Rightarrow> decode_fold step ms y)"

definition headerStep :: "string \<Rightarrow> bytes \<Rightarrow> json \<Rightarrow> string gomap \<Rightarrow> string gomap option" where
  "headerStep k raw v h = map_option (\<lambda>x. AList.update k x h) (decodeString [] v)"

definition decodeHeaders :: "string gomap \<Rightarrow> json \<Rightarrow> string gomap option" where
  "decodeHeaders cur v = (case v of JNull \<Rightarrow> Some [] | JObj ms \<Rightarrow> decode_fold headerStep ms cur | _ \<Rightarrow> None)"

definition zero_error :: error_detail where
  "zero_error = \<lparr>ErrType = [], Message = [], Detail = None, Stack = []\<rparr>"

definition errorStep :: "string \<Rightarrow> bytes \<Rightarrow> json \<Rightarrow> error_detail \<Rightarrow> error_detail option" where
  "errorStep k raw v e = (case field_of errorKeys k of
       None \<Rightarrow> Some e
     | Some f \<Rightarrow>
         if f = ''type'' then map_option (\<lambda>x. e\<lparr>ErrType := x\<rparr>) (decodeString (ErrType e) v)
         else if f = ''message'' then map_option (\<lambda>x. e\<lparr>Message := x\<rparr>) (decodeString (Message e) v)
         else if f = ''detail'' then Some (e\<lparr>Detail := Some raw\<rparr>)
         else map_option (\<lambda>x. e\<lparr>Stack := x\<rparr>) (decodeString (Stack e) v))"

definition decodeError :: "error_detail option \<Rightarrow> json \<Rightarrow> error_detail option option" where
  "decodeError cur v = (case v of
       JNull \<Rightarrow> Some None
     | JObj ms \<Rightarrow> map_option Some (decode_fold errorStep ms (or_else cur zero_error))
     | _ \<Rightarrow> None)"

text \<open>The unknown members of an object, by exact key; a repeated key keeps its last value.\<close>

definition captureResidual :: "string list \<Rightarrow> members \<Rightarrow> bytes gomap" where
  "captureResidual known ms =
     filter (\<lambda>(k, raw). k \<notin> set known) (foldl (\<lambda>m (k, raw, v). AList.update (unquote k) raw m) [] ms)"

definition zero_attempt :: wireAttempt where
  "zero_attempt = \<lparr>wAttemptNo = 0, wStartedAt = time_zero, wFinishedAt = None, wOutcome = [], wError = None, wAResidual = []\<rparr>"

definition attemptStep :: "string \<Rightarrow> bytes \<Rightarrow> json \<Rightarrow> wireAttempt \<Rightarrow> wireAttempt option" where
  "attemptStep k raw v w = (case field_of attemptKnownKeys k of
       None \<Rightarrow> Some w
     | Some f \<Rightarrow>
         if f = ''attempt_no'' then map_option (\<lambda>x. w\<lparr>wAttemptNo := x\<rparr>) (decodeInt (wAttemptNo w) v)
         else if f = ''started_at'' then map_option (\<lambda>x. w\<lparr>wStartedAt := x\<rparr>) (Time_UnmarshalJSON (wStartedAt w) v)
         else if f = ''finished_at'' then map_option (\<lambda>x. w\<lparr>wFinishedAt := x\<rparr>) (decodeTimePtr (wFinishedAt w) v)
         else if f = ''outcome'' then map_option (\<lambda>x. w\<lparr>wOutcome := x\<rparr>) (decodeString (wOutcome w) v)
         else map_option (\<lambda>x. w\<lparr>wError := x\<rparr>) (decodeError (wError w) v))"

definition wireAttempt_UnmarshalJSON :: "json \<Rightarrow> wireAttempt option" where
  "wireAttempt_UnmarshalJSON v = (case v of
       JNull \<Rightarrow> Some zero_attempt
     | JObj ms \<Rightarrow> map_option (\<lambda>w. w\<lparr>wAResidual := captureResidual attemptKnownKeys ms\<rparr>) (decode_fold attemptStep ms zero_attempt)
     | _ \<Rightarrow> None)"

definition decodeAttempts :: "json \<Rightarrow> wireAttempt list option" where
  "decodeAttempts v = (case v of
       JNull \<Rightarrow> Some []
     | JArr vs \<Rightarrow> those (map wireAttempt_UnmarshalJSON vs)
     | _ \<Rightarrow> None)"

definition zero_envelope :: wireEnvelope where
  "zero_envelope = \<lparr>wEnvelopeVersion = 0, wID = [], wQueue = [], wHandlerRef = [], wHandlerVersion = [], wPayload = None,
     wPayloadContentType = [], wPayloadRef = None, wHeaders = [], wStatus = [], wAttemptCount = 0, wRedriveCount = 0,
     wNextAttemptAt = None, wLeaseExpiresAt = None, wCreatedAt = time_zero, wAttempts = [], wResidual = []\<rparr>"

definition envelopeStep :: "string \<Rightarrow> bytes \<Rightarrow> json \<Rightarrow> wireEnvelope \<Rightarrow> wireEnvelope option" where
  "envelopeStep k raw v w = (case field_of envelopeKnownKeys k of
       None \<Rightarrow> Some w
     | Some f \<Rightarrow>
         if f = ''envelope_version'' then map_option (\<lambda>x. w\<lparr>wEnvelopeVersion := x\<rparr>) (decodeInt (wEnvelopeVersion w) v)
         else if f = ''id'' then map_option (\<lambda>x. w\<lparr>wID := x\<rparr>) (decodeString (wID w) v)
         else if f = ''queue'' then map_option (\<lambda>x. w\<lparr>wQueue := x\<rparr>) (decodeString (wQueue w) v)
         else if f = ''handler_ref'' then map_option (\<lambda>x. w\<lparr>wHandlerRef := x\<rparr>) (decodeString (wHandlerRef w) v)
         else if f = ''handler_version'' then map_option (\<lambda>x. w\<lparr>wHandlerVersion := x\<rparr>) (decodeString (wHandlerVersion w) v)
         else if f = ''payload'' then map_option (\<lambda>x. w\<lparr>wPayload := x\<rparr>) (decodeBytes (wPayload w) v)
         else if f = ''payload_content_type'' then map_option (\<lambda>x. w\<lparr>wPayloadContentType := x\<rparr>) (decodeString (wPayloadContentType w) v)
         else if f = ''payload_ref'' then map_option (\<lambda>x. w\<lparr>wPayloadRef := x\<rparr>) (decodeStringPtr v)
         else if f = ''headers'' then map_option (\<lambda>x. w\<lparr>wHeaders := x\<rparr>) (decodeHeaders (wHeaders w) v)
         else if f = ''status'' then map_option (\<lambda>x. w\<lparr>wStatus := x\<rparr>) (decodeString (wStatus w) v)
         else if f = ''attempt_count'' then map_option (\<lambda>x. w\<lparr>wAttemptCount := x\<rparr>) (decodeInt (wAttemptCount w) v)
         else if f = ''redrive_count'' then map_option (\<lambda>x. w\<lparr>wRedriveCount := x\<rparr>) (decodeInt (wRedriveCount w) v)
         else if f = ''next_attempt_at'' then map_option (\<lambda>x. w\<lparr>wNextAttemptAt := x\<rparr>) (decodeTimePtr (wNextAttemptAt w) v)
         else if f = ''lease_expires_at'' then map_option (\<lambda>x. w\<lparr>wLeaseExpiresAt := x\<rparr>) (decodeTimePtr (wLeaseExpiresAt w) v)
         else if f = ''created_at'' then map_option (\<lambda>x. w\<lparr>wCreatedAt := x\<rparr>) (Time_UnmarshalJSON (wCreatedAt w) v)
         else map_option (\<lambda>x. w\<lparr>wAttempts := x\<rparr>) (decodeAttempts v))"

definition wireEnvelope_UnmarshalJSON :: "json \<Rightarrow> wireEnvelope option" where
  "wireEnvelope_UnmarshalJSON v = (case v of
       JNull \<Rightarrow> Some zero_envelope
     | JObj ms \<Rightarrow> map_option (\<lambda>w. w\<lparr>wResidual := captureResidual envelopeKnownKeys ms\<rparr>) (decode_fold envelopeStep ms zero_envelope)
     | _ \<Rightarrow> None)"

definition Unmarshal :: "string \<Rightarrow> envelope option" where
  "Unmarshal data = (case parse_json data of
      None \<Rightarrow> None | Some v \<Rightarrow> map_option toEnvelope (wireEnvelope_UnmarshalJSON v))"

end
