(* ===== verification/Codec_Props.thy ===== *)
theory Codec_Props
  imports Codec
begin

text \<open>
  The canonical codec reads back what it writes: the members each part of an envelope contributes are values in compact form,
  so the whole text is a JSON document whose members, decoded one by one, give the envelope with its times cut to
  milliseconds, its maps sorted and its raw values compacted; and encoding that gives the same bytes.
\<close>

section \<open>Plain texts\<close>

definition text_char :: "char \<Rightarrow> bool" where
  "text_char c \<longleftrightarrow> byte_in 0x20 0x7F c \<and> c \<noteq> CHR 0x22 \<and> c \<noteq> CHR 0x5C"

lemma text_char_escape: "text_char c \<Longrightarrow> byte_in 0 0x7F c \<and> escape_ascii c = [c]"
  by (auto simp: text_char_def byte_in_def escape_ascii_def)

lemma json_body_text: "list_all text_char s \<Longrightarrow> json_body s = s \<and> valid_utf8 s"
proof (induction s)
  case (Cons c s)
  then have "byte_in 0 0x7F c" "escape_ascii c = [c]" using text_char_escape by auto
  then show ?case using Cons by (simp add: json_body.simps(2) valid_utf8.simps(2) rune_size_eqs(1))
qed (simp_all add: json_body.simps valid_utf8.simps)

lemma unquote_text: "list_all text_char s \<Longrightarrow> unquote s = s"
  using unquote_json_body [of s] json_body_text [of s] by simp

lemma reads_text: "list_all text_char s \<Longrightarrow> reads d (CHR 0x22 # s @ [CHR 0x22]) (JStr s)"
  using reads_string [of d s] json_body_text [of s] by (simp add: json_quote_def)

lemma digit_text_char:
  assumes "n < 10" shows "text_char (digit_char n)"
proof -
  have "(of_char (digit_char n) :: nat) = 48 + n" using assms by (simp add: digit_char_def)
  then show ?thesis using assms by (auto simp: text_char_def byte_in_def)
qed

lemma digits_of_text: "list_all text_char (digits_of w n)"
  by (induction w arbitrary: n) (auto intro: digit_text_char)

lemma FormatUint_text: "list_all text_char (FormatUint n)"
proof (induction n rule: FormatUint.induct)
  case (1 n)
  then show ?case by (cases "n < 10") (auto simp: FormatUint.simps [of n] intro: digit_text_char)
qed

lemma pad_text: "list_all text_char (pad w n)"
  by (simp add: pad_def digits_of_text FormatUint_text)

lemma format_millis_text: "list_all text_char (format_millis t)"
proof -
  have "list_all text_char ''-T:.Z''" by (simp add: text_char_def byte_in_def)
  then show ?thesis by (simp add: format_millis_def Let_def pad_text split_beta)
qed

lemma reads_time: "reads d (Time_MarshalJSON t) (JStr (format_millis t))"
  using reads_text [OF format_millis_text] by (simp add: Time_MarshalJSON_def)

definition time_ok :: "time \<Rightarrow> bool" where
  "time_ok t \<longleftrightarrow> 0 \<le> year t \<and> year t \<le> 9999"

lemma decode_time: "time_ok t \<Longrightarrow> Time_UnmarshalJSON cur (JStr (format_millis t)) = Some (millis t)"
  using parse_format_millis [of t] unquote_text [OF format_millis_text [of t]] by (simp add: Time_UnmarshalJSON_def time_ok_def)

lemma millis_div: "millis t div second_ns = t div second_ns" "millis t mod second_ns div 1000000 = t mod second_ns div 1000000"
proof -
  have t: "t = t div second_ns * second_ns + t mod second_ns" by simp
  have m: "t mod 1000000 = t mod second_ns mod 1000000" by (simp add: second_ns_def mod_mod_cancel)
  have r: "0 \<le> t mod second_ns - t mod second_ns mod 1000000" "t mod second_ns - t mod second_ns mod 1000000 < second_ns"
    using pos_mod_bound [of second_ns t] pos_mod_sign [of second_ns t] pos_mod_sign [of 1000000 "t mod second_ns"]
    by (auto simp: second_ns_def zmod_le_nonneg_dividend)
  have e: "millis t = t div second_ns * second_ns + (t mod second_ns - t mod second_ns mod 1000000)"
    using t m unfolding millis_def by linarith
  have "second_ns \<noteq> 0" by (simp add: second_ns_def)
  then show "millis t div second_ns = t div second_ns" using r unfolding e by simp
  have "millis t mod second_ns = t mod second_ns - t mod second_ns mod 1000000" using r unfolding e by simp
  then show "millis t mod second_ns div 1000000 = t mod second_ns div 1000000" by (simp add: minus_mod_eq_mult_div)
qed

lemma format_millis_millis: "format_millis (millis t) = format_millis t"
  unfolding format_millis_def Let_def millis_div ..

section \<open>Payloads\<close>

lemma b64_encode_alphabet: "set (b64_encode bs) \<subseteq> set b64_alphabet"
proof (induction bs rule: b64_encode.induct)
  case 1
  show ?case by simp
next
  case (2 a)
  have "b64_char n \<in> set b64_alphabet" if "n < 64" for n using that b64_alphabet_facts(1) by (simp add: b64_char_def)
  moreover have "(of_char a :: nat) * 65536 div 262144 < 64" using regroup3(4) [of "of_char a" 0 0] by simp
  ultimately show ?case by (simp add: Let_def)
next
  case (3 a b)
  have "b64_char n \<in> set b64_alphabet" if "n < 64" for n using that b64_alphabet_facts(1) by (simp add: b64_char_def)
  moreover have "((of_char a :: nat) * 65536 + of_char b * 256) div 262144 < 64" using regroup3(4) [of "of_char a" "of_char b" 0] by simp
  ultimately show ?case by (simp add: Let_def)
next
  case (4 a b c s)
  have "b64_char n \<in> set b64_alphabet" if "n < 64" for n using that b64_alphabet_facts(1) by (simp add: b64_char_def)
  moreover have "((of_char a :: nat) * 65536 + of_char b * 256 + of_char c) div 262144 < 64" using regroup3(4) [of "of_char a" "of_char b" "of_char c"] by simp
  ultimately show ?case using 4 by (simp add: Let_def)
qed

lemma length_b64_encode: "(length (b64_encode bs) + (3 - length bs mod 3) mod 3) mod 4 = 0"
proof (induction bs rule: b64_encode.induct)
  case (4 a b c s)
  have "length (a # b # c # s) mod 3 = length s mod 3" by simp
  moreover have "length (b64_encode (a # b # c # s)) = 4 + length (b64_encode s)" by (simp add: Let_def)
  ultimately have "(length (b64_encode (a # b # c # s)) + (3 - length (a # b # c # s) mod 3) mod 3) =
    4 + (length (b64_encode s) + (3 - length s mod 3) mod 3)" by presburger
  then show ?case using 4 by (metis mod_add_self1)
qed (simp_all add: Let_def)

lemma alphabet_std: "list_all (\<lambda>c. of_std (to_std c) = c \<and> to_std c \<noteq> CHR ''='' \<and> to_std c \<noteq> CHR 0x0A \<and> to_std c \<noteq> CHR 0x0D \<and>
    to_std c \<noteq> CHR ''-'' \<and> to_std c \<noteq> CHR ''_'' \<and> text_char (to_std c)) b64_alphabet"
  by (simp add: b64_alphabet_def to_std_def of_std_def text_char_def byte_in_def)

lemma std_roundtrip: "std_decode (std_encode bs) = Some bs" "list_all text_char (std_encode bs)"
proof -
  let ?e = "map to_std (b64_encode bs)" and ?p = "(3 - length bs mod 3) mod 3"
  have c: "of_std (to_std c) = c \<and> to_std c \<noteq> CHR ''='' \<and> to_std c \<noteq> CHR 0x0A \<and> to_std c \<noteq> CHR 0x0D \<and>
      to_std c \<noteq> CHR ''-'' \<and> to_std c \<noteq> CHR ''_'' \<and> text_char (to_std c)" if "c \<in> set (b64_encode bs)" for c
    using that b64_encode_alphabet [of bs] alphabet_std by (auto simp: list_all_iff)
  have f: "filter (\<lambda>c. c \<noteq> CHR 0x0A \<and> c \<noteq> CHR 0x0D) (std_encode bs) = std_encode bs"
    using c by (auto simp: std_encode_def filter_id_conv)
  have tw: "takeWhile (\<lambda>c. c = CHR ''='') (rev (std_encode bs)) = replicate ?p (CHR ''='')"
  proof -
    have "takeWhile (\<lambda>c. c = CHR ''='') (rev ?e) = []"
      using c by (subst takeWhile_eq_Nil_iff) (auto simp: rev_map hd_map hd_rev)
    then show ?thesis by (simp add: std_encode_def takeWhile_append)
  qed
  have body: "take (length (std_encode bs) - ?p) (std_encode bs) = ?e" by (simp add: std_encode_def)
  have len: "length (std_encode bs) mod 4 = 0" using length_b64_encode [of bs] by (simp add: std_encode_def)
  have no: "\<not> list_ex (\<lambda>c. c = CHR ''-'' \<or> c = CHR ''_'') ?e" using c by (auto simp: list_ex_iff)
  have "map of_std ?e = b64_encode bs" using c by (auto simp: map_idI)
  moreover have "?p \<le> 2" using mod_less_divisor [of 3 "3 - length bs mod 3"] by linarith
  ultimately show "std_decode (std_encode bs) = Some bs"
    using tw body len no b64_roundtrip by (simp add: std_decode_def f Let_def)
  show "list_all text_char (std_encode bs)"
    using c by (auto simp: std_encode_def list_all_iff text_char_def byte_in_def)
qed

lemma reads_payload:
  "\<exists>j. reads d (payload_text p) j \<and> decodeBytes cur j = Some p"
proof (cases p)
  case None
  then show ?thesis using reads_null by (intro exI [of _ JNull]) (simp add: payload_text_def decodeBytes_def)
next
  case (Some b)
  then show ?thesis using reads_text [OF std_roundtrip(2) [of b]] std_roundtrip [of b] unquote_text [OF std_roundtrip(2) [of b]]
    by (intro exI [of _ "JStr (std_encode b)"]) (simp add: payload_text_def decodeBytes_def)
qed

section \<open>Members\<close>

text \<open>The members of an object with the trees their values read as; what is written of them and how they read.\<close>

abbreviation written :: "(string \<times> string \<times> json) list \<Rightarrow> (string \<times> string) list" where
  "written ts \<equiv> map (\<lambda>(k, v, j). (k, v)) ts"

abbreviation as_read :: "(string \<times> string \<times> json) list \<Rightarrow> members" where
  "as_read ts \<equiv> map (\<lambda>(k, v, j). (json_body k, v, j)) ts"

definition readable :: "nat \<Rightarrow> (string \<times> string \<times> json) list \<Rightarrow> bool" where
  "readable d ts \<longleftrightarrow> list_all (\<lambda>(k, v, j). reads d v j \<and> valid_utf8 k) ts"

lemma readable_append [simp]: "readable d (xs @ ys) \<longleftrightarrow> readable d xs \<and> readable d ys"
  by (simp add: readable_def)

lemma readable_Nil [simp]: "readable d []"
  by (simp add: readable_def)

lemma readable_Cons [simp]: "readable d ((k, v, j) # ts) \<longleftrightarrow> reads d v j \<and> valid_utf8 k \<and> readable d ts"
  by (auto simp: readable_def)

lemma readable_deeper: "readable d ts \<Longrightarrow> d \<le> d' \<Longrightarrow> readable d' ts"
  by (auto simp: readable_def list_all_iff intro: reads_deeper)

lemma reads_object: "readable d ts \<Longrightarrow> reads (Suc d) (obj_text (written ts)) (JObj (as_read ts))"
  by (intro reads_obj) (auto simp: readable_def list_all_iff)

text \<open>Decoding with a step that sees the key as it was written.\<close>

fun step_fold :: "(string \<Rightarrow> bytes \<Rightarrow> json \<Rightarrow> 'a \<Rightarrow> 'a option) \<Rightarrow> (string \<times> string \<times> json) list \<Rightarrow> 'a \<Rightarrow> 'a option" where
  "step_fold step [] x = Some x"
| "step_fold step ((k, v, j) # ts) x = (case step k v j x of None \<Rightarrow> None | Some y \<Rightarrow> step_fold step ts y)"

lemma decode_fold_as_read: "readable d ts \<Longrightarrow> decode_fold step (as_read ts) x = step_fold step ts x"
  by (induction ts arbitrary: x) (auto simp: unquote_json_body split: option.splits)

lemma step_fold_append: "step_fold step (xs @ ys) x = (case step_fold step xs x of None \<Rightarrow> None | Some y \<Rightarrow> step_fold step ys y)"
  by (induction xs arbitrary: x) (auto split: option.splits)

lemma step_fold_skip:
  "(\<And>k v j x. (k, v, j) \<in> set ts \<Longrightarrow> step k v j x = Some x) \<Longrightarrow> step_fold step ts x = Some x"
  by (induction ts) auto

lemma AList_update_new: "k \<notin> fst ` set al \<Longrightarrow> AList.update k v al = al @ [(k, v)]"
  by (induction al) auto

lemma foldl_update_new:
  assumes "distinct (map fst xs)" "fst ` set xs \<inter> fst ` set m = {}"
  shows "foldl (\<lambda>m (k, v). AList.update k v m) m xs = m @ xs"
  using assms
proof (induction xs arbitrary: m)
  case (Cons x xs)
  obtain k v where x: "x = (k, v)" by fastforce
  then have "AList.update k v m = m @ [x]" using Cons.prems AList_update_new [of k m v] by auto
  moreover have "fst ` set xs \<inter> fst ` set (m @ [x]) = {}" using Cons.prems by auto
  ultimately show ?case using Cons.IH [of "m @ [x]"] Cons.prems x by simp
qed simp

lemma captureResidual_as_read:
  assumes "readable d (ts @ rs)" "fst ` set ts \<subseteq> set known" "distinct (map fst rs)" "fst ` set rs \<inter> set known = {}"
  shows "captureResidual known (as_read (ts @ rs)) = written rs"
proof -
  let ?upd = "\<lambda>m (k, v). AList.update k v m"
  have f: "foldl (\<lambda>m (k, raw, v). AList.update (unquote k) raw m) m (as_read us) = foldl ?upd m (written us)"
    if "readable d us" for us m
    using that by (induction us arbitrary: m) (auto simp: unquote_json_body)
  have keys: "fst ` set (foldl ?upd m (written us)) \<subseteq> fst ` set m \<union> fst ` set us" for m us
  proof (induction us arbitrary: m)
    case (Cons u us)
    obtain k v j where u: "u = (k, v, j)" by (metis prod_cases3)
    show ?case using Cons [of "AList.update k v m"] u by (auto simp: keys_AList_update)
  qed simp
  define m where "m = foldl ?upd [] (written ts)"
  have mk: "fst ` set m \<subseteq> set known" using keys [of "[]" ts] assms(2) by (auto simp: m_def)
  have d: "distinct (map fst (written rs))" "fst ` set (written rs) = fst ` set rs"
    using assms(3) by (auto simp: comp_def split_beta image_comp)
  have "foldl ?upd m (written rs) = m @ written rs" using d mk assms(4) by (intro foldl_update_new) auto
  then have "captureResidual known (as_read (ts @ rs)) = filter (\<lambda>(k, raw). k \<notin> set known) (m @ written rs)"
    using f [OF assms(1), of "[]"] by (simp add: captureResidual_def m_def)
  also have "\<dots> = written rs"
  proof -
    have "filter (\<lambda>(k, raw). k \<notin> set known) m = []" using mk by (auto simp: filter_empty_conv)
    moreover have "filter (\<lambda>(k, raw). k \<notin> set known) (written rs) = written rs"
      using assms(4) by (auto simp: filter_id_conv rev_image_eqI disjoint_iff)
    ultimately show ?thesis by simp
  qed
  finally show ?thesis .
qed

section \<open>What an envelope needs to have\<close>

text \<open>A raw value is a JSON value that leaves room for the levels around it.\<close>

definition raw_ok :: "bytes \<Rightarrow> bool" where
  "raw_ok raw \<longleftrightarrow> (case pvalue 9990 (skip_ws raw) of None \<Rightarrow> False | Some (j, r) \<Rightarrow> skip_ws r = [])"

definition residual_ok :: "string list \<Rightarrow> bytes gomap \<Rightarrow> bool" where
  "residual_ok known r \<longleftrightarrow> distinct (map fst r) \<and>
     list_all (\<lambda>(k, raw). valid_utf8 k \<and> field_of known k = None \<and> raw_ok raw) r"

definition error_ok :: "error_detail \<Rightarrow> bool" where
  "error_ok e \<longleftrightarrow> valid_utf8 (ErrType e) \<and> valid_utf8 (Message e) \<and> valid_utf8 (Stack e) \<and>
     (case Detail e of None \<Rightarrow> True | Some raw \<Rightarrow> raw = [] \<or> raw_ok raw)"

definition int64 :: "int \<Rightarrow> bool" where "int64 i \<longleftrightarrow> min_int64 \<le> i \<and> i \<le> max_int64"

definition attempt_ok :: "attempt \<Rightarrow> bool" where
  "attempt_ok a \<longleftrightarrow> int64 (AttemptNo a) \<and> time_ok (StartedAt a) \<and> pred_option time_ok (FinishedAt a) \<and> valid_utf8 (Outcome a) \<and>
     pred_option error_ok (Err a) \<and> residual_ok attemptKnownKeys (AResidual a)"

definition envelope_ok :: "envelope \<Rightarrow> bool" where
  "envelope_ok e \<longleftrightarrow>
     int64 (EnvelopeVersion e) \<and> int64 (AttemptCount e) \<and> int64 (RedriveCount e) \<and>
     valid_utf8 (ID e) \<and> valid_utf8 (Queue e) \<and> valid_utf8 (HandlerRef e) \<and> valid_utf8 (HandlerVersion e) \<and>
     valid_utf8 (PayloadContentType e) \<and> pred_option valid_utf8 (PayloadRef e) \<and> valid_utf8 (Status e) \<and>
     distinct (map fst (Headers e)) \<and> list_all (\<lambda>(k, v). valid_utf8 k \<and> valid_utf8 v) (Headers e) \<and>
     pred_option time_ok (NextAttemptAt e) \<and> pred_option time_ok (LeaseExpiresAt e) \<and> time_ok (CreatedAt e) \<and>
     list_all attempt_ok (Attempts e) \<and> residual_ok envelopeKnownKeys (Residual e)"

text \<open>The envelope as the wire form carries it.\<close>

definition sorted_map :: "('v \<Rightarrow> 'w) \<Rightarrow> 'v gomap \<Rightarrow> 'w gomap" where
  "sorted_map f m = map (\<lambda>(k, v). (k, f v)) (sort_key fst m)"

definition canon_error :: "error_detail \<Rightarrow> error_detail" where
  "canon_error e = e\<lparr>Detail := (case Detail e of None \<Rightarrow> None | Some raw \<Rightarrow> if raw = [] then None else Some (strip raw))\<rparr>"

definition canon_attempt :: "attempt \<Rightarrow> attempt" where
  "canon_attempt a = a\<lparr>StartedAt := millis (StartedAt a), FinishedAt := map_option millis (FinishedAt a),
     Err := map_option canon_error (Err a), AResidual := sorted_map strip (AResidual a)\<rparr>"

definition canonical :: "envelope \<Rightarrow> envelope" where
  "canonical e = e\<lparr>Headers := sorted_map (\<lambda>v. v) (Headers e), NextAttemptAt := map_option millis (NextAttemptAt e),
     LeaseExpiresAt := map_option millis (LeaseExpiresAt e), CreatedAt := millis (CreatedAt e),
     Attempts := map canon_attempt (Attempts e), Residual := sorted_map strip (Residual e)\<rparr>"

section \<open>Maps\<close>

lemma sorted_map_keys: "map fst (sorted_map f m) = sort (map fst m)"
proof -
  have "map fst (sort_key fst m) = sort (map fst m)"
    by (rule properties_for_sort [symmetric]) simp_all
  then show ?thesis by (simp add: sorted_map_def comp_def split_beta)
qed

lemma sorted_map_lookup:
  assumes "distinct (map fst m)"
  shows "map (\<lambda>k. (k, f (or_else (map_of m k) x))) (sort (map fst m)) = sorted_map f m"
proof -
  have "sort (map fst m) = map fst (sort_key fst m)" using sorted_map_keys [of "\<lambda>x. x" m] by (simp add: sorted_map_def comp_def split_beta)
  moreover have "map_of m k = Some v" if "(k, v) \<in> set (sort_key fst m)" for k v using that assms by simp
  ultimately show ?thesis by (auto simp: sorted_map_def split_beta)
qed

lemma sorted_map_again:
  assumes "distinct (map fst m)" shows "sorted_map g (sorted_map f m) = sorted_map (\<lambda>v. g (f v)) m"
proof -
  have "sorted (map fst (sorted_map f m))" by (simp add: sorted_map_keys)
  then have "sort_key fst (sorted_map f m) = sorted_map f m" by (rule sort_key_id_if_sorted)
  then show ?thesis by (simp add: sorted_map_def comp_def split_beta)
qed

lemma distinct_sorted_map: "distinct (map fst m) \<Longrightarrow> distinct (map fst (sorted_map f m))"
  by (simp add: sorted_map_keys)

lemma set_sorted_map: "set (sorted_map f m) = (\<lambda>(k, v). (k, f v)) ` set m"
  by (simp add: sorted_map_def)

lemma sorted_map_Nil: "sorted_map f m = [] \<longleftrightarrow> m = []"
proof -
  have "length (sorted_map f m) = length m" by (simp add: sorted_map_def)
  then show ?thesis by (metis length_0_conv)
qed

text \<open>A residual contributes its members in compact form.\<close>

lemma raw_ok_reads: "raw_ok raw \<Longrightarrow> \<exists>j. reads 9990 (strip raw) j"
  by (auto simp: raw_ok_def split: option.splits intro: compact_reads)

lemma raw_ok_Compact: "raw_ok raw \<Longrightarrow> Compact raw = Some (strip raw)"
  using pvalue_deeper(1) [of 9990 "skip_ws raw" _ 10000]
  by (auto simp: raw_ok_def Compact_def parse_json_def maxNestingDepth_def split: option.splits)

lemma residualLoop_ok:
  assumes "\<And>k. k \<in> set ks \<Longrightarrow> raw_ok (or_else (map_of r k) [])"
  shows "residualLoop r first ks = Some (if ks = [] then [] else (if first then [] else [CHR '','']) @
    members_text (map (\<lambda>k. (k, strip (or_else (map_of r k) []))) ks))"
  using assms
proof (induction ks arbitrary: first)
  case (Cons k ks)
  then have "residualLoop r False ks = Some (if ks = [] then [] else [CHR '',''] @ members_text (map (\<lambda>k. (k, strip (or_else (map_of r k) []))) ks))"
    by simp
  moreover have "Compact (or_else (map_of r k) []) = Some (strip (or_else (map_of r k) []))" using Cons.prems by (simp add: raw_ok_Compact)
  ultimately show ?case by (cases ks) auto
qed simp

lemma residual_lookup_ok:
  assumes "residual_ok known r" "k \<in> fst ` set r" shows "raw_ok (or_else (map_of r k) [])"
proof -
  obtain v where "map_of r k = Some v" using assms(2) by (metis keys_map_of option.exhaust)
  then show ?thesis using assms(1) by (auto simp: residual_ok_def list_all_iff dest: map_of_SomeD)
qed

lemma appendResidual_ok:
  assumes "residual_ok known r" "ms \<noteq> []"
  shows "appendResidual (obj_text ms) r = Some (obj_text (ms @ sorted_map strip r))"
proof (cases "r = []")
  case True
  then show ?thesis by (simp add: appendResidual_def sorted_map_def)
next
  case False
  have d: "distinct (map fst r)" using assms(1) by (simp add: residual_ok_def)
  have len: "length (obj_text ms) \<noteq> 2" using members_text_start [OF assms(2)] by (auto simp: obj_text_def)
  have "residualLoop r False (sort (map fst r)) = Some (CHR '','' # members_text (sorted_map strip r))"
  proof -
    have "sort (map fst r) \<noteq> []" using False by (metis length_0_conv length_map length_sort)
    then show ?thesis
      using residualLoop_ok [of "sort (map fst r)" r False] residual_lookup_ok [OF assms(1)] sorted_map_lookup [OF d, of strip "[]"] by auto
  qed
  moreover have "take (length (obj_text ms) - 1) (obj_text ms) = CHR 0x7B # members_text ms" by (simp add: obj_text_def)
  ultimately show ?thesis
    using False len assms(2) by (simp add: appendResidual_def obj_text_def members_text_append sorted_map_Nil)
qed

lemma residual_triples:
  assumes "residual_ok known r" "9990 \<le> d"
  obtains rs where "written rs = sorted_map strip r" "readable d rs" "distinct (map fst rs)" "\<And>k v j. (k, v, j) \<in> set rs \<Longrightarrow> field_of known k = None"
proof -
  have "\<exists>j. reads d v j" if "(k, v) \<in> set (sorted_map strip r)" for k v
    using that assms raw_ok_reads reads_deeper by (fastforce simp: set_sorted_map residual_ok_def list_all_iff)
  then obtain J where J: "\<And>k v. (k, v) \<in> set (sorted_map strip r) \<Longrightarrow> reads d v (J k v)" by metis
  let ?rs = "map (\<lambda>(k, v). (k, v, J k v)) (sorted_map strip r)"
  have w: "written ?rs = sorted_map strip r" by (auto simp: comp_def split_beta)
  have ok: "valid_utf8 k \<and> field_of known k = None" if "(k, v) \<in> set (sorted_map strip r)" for k v
    using that assms(1) by (auto simp: set_sorted_map residual_ok_def list_all_iff)
  have fst: "map fst ?rs = map fst (sorted_map strip r)" by (simp add: comp_def split_beta)
  have "distinct (map fst ?rs)" unfolding fst using assms(1) by (simp add: residual_ok_def distinct_sorted_map)
  moreover have "readable d ?rs" using J ok by (fastforce simp: readable_def list_all_iff)
  moreover have "field_of known k = None" if "(k, v, j) \<in> set ?rs" for k v j using that ok by auto
  ultimately show thesis using that [OF w] by blast
qed

section \<open>Headers\<close>

lemma reads_headers:
  assumes "distinct (map fst h)" "list_all (\<lambda>(k, v). valid_utf8 k \<and> valid_utf8 v) h"
  shows "\<exists>j. reads (Suc d) (headers_text h) j \<and> decodeHeaders [] j = Some (sorted_map (\<lambda>v. v) h)"
proof -
  let ?s = "sorted_map (\<lambda>v. v) h"
  let ?ts = "map (\<lambda>(k, v). (k, json_quote v, JStr (json_body v))) ?s"
  have ok: "valid_utf8 k \<and> valid_utf8 v" if "(k, v) \<in> set ?s" for k v
    using that assms(2) by (auto simp: set_sorted_map list_all_iff)
  have t: "headers_text h = obj_text (written ?ts)"
    using sorted_map_lookup [OF assms(1), of json_quote "[]"] by (simp add: headers_text_def sorted_map_def comp_def case_prod_unfold)
  have r: "readable d ?ts" using ok by (auto simp: readable_def list_all_iff reads_string)
  have fold: "step_fold headerStep (map (\<lambda>(k, v). (k, json_quote v, JStr (json_body v))) xs) m = Some (foldl (\<lambda>m (k, v). AList.update k v m) m xs)"
    if "\<forall>(k, v) \<in> set xs. valid_utf8 v" for xs m
    using that by (induction xs arbitrary: m) (auto simp: headerStep_def decodeString_def unquote_json_body)
  have upd: "foldl (\<lambda>m (k, v). AList.update k v m) [] ?s = ?s"
    using foldl_update_new [of ?s "[]"] assms(1) by (simp add: distinct_sorted_map)
  have v: "\<forall>(k, v) \<in> set ?s. valid_utf8 v" using ok by blast
  have "decodeHeaders [] (JObj (as_read ?ts)) = Some ?s"
    unfolding decodeHeaders_def json.case decode_fold_as_read [OF r] fold [OF v] upd ..
  then show ?thesis unfolding t using reads_object [OF r] by blast
qed

section \<open>Errors and attempts\<close>

lemma valid_key: "list_all text_char k \<Longrightarrow> valid_utf8 k"
  using json_body_text by blast

lemma known_keys_text: "list_all (list_all text_char) (envelopeKnownKeys @ attemptKnownKeys @ errorKeys)"
  by (simp add: envelopeKnownKeys_def attemptKnownKeys_def errorKeys_def text_char_def byte_in_def)

lemma valid_known_key: "k \<in> set envelopeKnownKeys \<or> k \<in> set attemptKnownKeys \<or> k \<in> set errorKeys \<Longrightarrow> valid_utf8 k"
  using known_keys_text by (auto simp: list_all_iff intro: valid_key [unfolded list_all_iff])

lemma field_of_known: "k \<in> set keys \<Longrightarrow> field_of keys k = Some k"
  by (simp add: field_of_def)

lemma decode_string [simp]: "valid_utf8 s \<Longrightarrow> decodeString cur (JStr (json_body s)) = Some s"
  by (simp add: decodeString_def unquote_json_body)

lemma decode_int [simp]: "int64 i \<Longrightarrow> decodeInt cur (JNum (FormatInt i)) = Some i"
  by (simp add: decodeInt_def ParseInt_FormatInt int64_def)

lemma reads_error:
  assumes "error_ok e"
  shows "\<exists>t j. Error_text e = Some t \<and> reads 9991 t j \<and> decodeError None j = Some (Some (canon_error e))"
proof -
  let ?ty = "(''type'', json_quote (ErrType e), JStr (json_body (ErrType e)))"
  let ?msg = "(''message'', json_quote (Message e), JStr (json_body (Message e)))"
  let ?stk = "if Stack e = [] then [] else [(''stack'', json_quote (Stack e), JStr (json_body (Stack e)))]"
  define det where "det = (case Detail e of None \<Rightarrow> None | Some raw \<Rightarrow> if raw = [] then None else Some raw)"
  obtain ds where ds: "detail_members (Detail e) = Some (written ds)" "readable 9990 ds" "ds = [] \<and> det = None \<or>
      (\<exists>raw j. det = Some raw \<and> ds = [(''detail'', strip raw, j)])"
  proof (cases det)
    case None
    then have "detail_members (Detail e) = Some (written [])" by (auto simp: det_def detail_members_def split: option.splits if_splits)
    then show ?thesis using that [of "[]"] None by simp
  next
    case (Some raw)
    then have d: "Detail e = Some raw" "raw \<noteq> []" by (auto simp: det_def split: option.splits if_splits)
    then have ok: "raw_ok raw" using assms by (simp add: error_ok_def)
    then obtain j where "reads 9990 (strip raw) j" using raw_ok_reads by blast
    then show ?thesis using that [of "[(''detail'', strip raw, j)]"] d raw_ok_Compact [OF ok] Some valid_known_key [of "''detail''"]
      by (simp add: detail_members_def errorKeys_def)
  qed
  let ?ts = "[?ty, ?msg] @ ds @ ?stk"
  have keys: "valid_utf8 ''type''" "valid_utf8 ''message''" "valid_utf8 ''stack''" by (rule valid_known_key; simp add: errorKeys_def)+
  have r: "readable 9990 ?ts" using ds(2) keys by (simp add: reads_string)
  have t: "Error_text e = Some (obj_text (written ?ts))" using ds(1) by (simp add: Error_text_def)
  have f: "field_of errorKeys k = Some k" if "k \<in> {''type'', ''message'', ''detail'', ''stack''}" for k
    using that by (intro field_of_known) (auto simp: errorKeys_def)
  have "step_fold errorStep ?ts zero_error = Some (canon_error e)"
    using ds(3) assms by (auto simp: errorStep_def f zero_error_def canon_error_def error_ok_def det_def split: option.splits if_splits)
  then have "decodeError None (JObj (as_read ?ts)) = Some (Some (canon_error e))"
    unfolding decodeError_def json.case decode_fold_as_read [OF r] by simp
  moreover have "reads 9991 (obj_text (written ?ts)) (JObj (as_read ?ts))" using reads_object [OF r] by (simp del: map_append)
  ultimately show ?thesis using t by blast
qed

lemma reads_time_ptr:
  "pred_option time_ok t \<Longrightarrow> \<exists>j. reads d (time_ptr_text t) j \<and> decodeTimePtr None j = Some (map_option millis t)"
proof (cases t)
  case None
  then show ?thesis using reads_null by (intro exI [of _ JNull]) (simp add: time_ptr_text_def decodeTimePtr_def)
next
  case (Some x)
  assume "pred_option time_ok t"
  then show ?thesis using Some reads_time [of d x] decode_time [of x "or_else None time_zero"]
    by (intro exI [of _ "JStr (format_millis x)"]) (simp add: time_ptr_text_def decodeTimePtr_def)
qed

text \<open>The members of an object with known and unknown ones decode to what the known ones set and capture the others.\<close>

lemma decode_object:
  assumes "readable d (ts @ rs)" "fst ` set ts \<subseteq> set known" "distinct (map fst rs)" "\<And>k v j. (k, v, j) \<in> set rs \<Longrightarrow> field_of known k = None"
    "\<And>k v j x. field_of known k = None \<Longrightarrow> step k v j x = Some x" "step_fold step ts zero = Some y"
  shows "decode_fold step (as_read (ts @ rs)) zero = Some y" "captureResidual known (as_read (ts @ rs)) = written rs"
proof -
  have "step_fold step rs y = Some y" using assms(4,5) by (intro step_fold_skip) blast
  then show "decode_fold step (as_read (ts @ rs)) zero = Some y"
    unfolding decode_fold_as_read [OF assms(1)] step_fold_append assms(6) by simp
  have "fst ` set rs \<inter> set known = {}" using assms(4) by (force simp: field_of_def)
  then show "captureResidual known (as_read (ts @ rs)) = written rs" by (rule captureResidual_as_read [OF assms(1-3)])
qed

lemma Compact_reads: "reads d t j \<Longrightarrow> d \<le> 10000 \<Longrightarrow> Compact t = Some t \<and> parse_json t = Some j"
  using reads_deeper [of d t j 10000] reads_skip_ws [of d t j "[]"] by (auto simp: Compact_def parse_json_def maxNestingDepth_def reads_def)

lemma reads_attempt:
  assumes "attempt_ok a"
  shows "\<exists>t j. wireAttempt_MarshalJSON (toWireAttempt a) = Some t \<and> attempt_text (toWireAttempt a) = Some t \<and> reads 9993 t j \<and>
    map_option toAttempt (wireAttempt_UnmarshalJSON j) = Some (canon_attempt a)"
proof -
  note ok = assms [unfolded attempt_ok_def]
  obtain fj where fj: "reads 9992 (time_ptr_text (FinishedAt a)) fj" "decodeTimePtr None fj = Some (map_option millis (FinishedAt a))"
    using reads_time_ptr ok by blast
  obtain es where es: "attempt_members (toWireAttempt a) = Some ([(''attempt_no'', FormatInt (AttemptNo a)),
        (''started_at'', Time_MarshalJSON (StartedAt a)), (''finished_at'', time_ptr_text (FinishedAt a)), (''outcome'', json_quote (Outcome a))] @ written es)"
      "readable 9992 es" "es = [] \<and> Err a = None \<or> (\<exists>t j. es = [(''error'', t, j)] \<and> decodeError None j = Some (map_option canon_error (Err a)))"
  proof (cases "Err a")
    case None
    then show ?thesis using that [of "[]"] by (simp add: attempt_members_def toWireAttempt_def wireTimePtr_def split: option.splits)
  next
    case (Some e)
    then obtain t j where e: "Error_text e = Some t" "reads 9991 t j" "decodeError None j = Some (Some (canon_error e))"
      using reads_error [of e] ok by auto
    have "valid_utf8 ''error''" by (rule valid_known_key) (simp add: attemptKnownKeys_def)
    then show ?thesis using that [of "[(''error'', t, j)]"] Some e reads_deeper [OF e(2), of 9992]
      by (simp add: attempt_members_def toWireAttempt_def wireTimePtr_def split: option.splits)
  qed
  let ?ts = "[(''attempt_no'', FormatInt (AttemptNo a), JNum (FormatInt (AttemptNo a))),
      (''started_at'', Time_MarshalJSON (StartedAt a), JStr (format_millis (StartedAt a))),
      (''finished_at'', time_ptr_text (FinishedAt a), fj), (''outcome'', json_quote (Outcome a), JStr (json_body (Outcome a)))] @ es"
  obtain rs where rs: "written rs = sorted_map strip (AResidual a)" "readable 9992 rs" "distinct (map fst rs)"
      "\<And>k v j. (k, v, j) \<in> set rs \<Longrightarrow> field_of attemptKnownKeys k = None"
    using residual_triples [of attemptKnownKeys "AResidual a" 9992] ok by auto
  have keys: "valid_utf8 ''attempt_no''" "valid_utf8 ''started_at''" "valid_utf8 ''finished_at''" "valid_utf8 ''outcome''"
    by (rule valid_known_key; simp add: attemptKnownKeys_def)+
  have r: "readable 9992 (?ts @ rs)" using es(2) rs(2) fj(1) keys by (simp add: reads_string reads_int reads_time)
  have w: "written (?ts @ rs) = [(''attempt_no'', FormatInt (AttemptNo a)), (''started_at'', Time_MarshalJSON (StartedAt a)),
      (''finished_at'', time_ptr_text (FinishedAt a)), (''outcome'', json_quote (Outcome a))] @ written es @ sorted_map strip (AResidual a)"
    using rs(1) by simp
  have m: "wireAttempt_MarshalJSON (toWireAttempt a) = Some (obj_text (written (?ts @ rs)))"
  proof -
    have "residual_ok attemptKnownKeys (wAResidual (toWireAttempt a))" using ok by (simp add: toWireAttempt_def)
    then show ?thesis unfolding w wireAttempt_MarshalJSON_def es(1) option.case
      by (subst appendResidual_ok) (simp_all add: toWireAttempt_def)
  qed
  have t: "reads 9993 (obj_text (written (?ts @ rs))) (JObj (as_read (?ts @ rs)))" using reads_object [OF r] by (simp del: map_append)
  have f: "field_of attemptKnownKeys k = Some k" if "k \<in> {''attempt_no'', ''started_at'', ''finished_at'', ''outcome'', ''error''}" for k
    using that by (intro field_of_known) (auto simp: attemptKnownKeys_def)
  let ?w = "\<lparr>wAttemptNo = AttemptNo a, wStartedAt = millis (StartedAt a), wFinishedAt = map_option millis (FinishedAt a), wOutcome = Outcome a,
      wError = map_option canon_error (Err a), wAResidual = []\<rparr>"
  have "step_fold attemptStep ?ts zero_attempt = Some ?w"
    using es(3) ok fj(2) by (auto simp: attemptStep_def f zero_attempt_def decode_time)
  note d = decode_object [OF r _ rs(3,4) _ this]
  have "decode_fold attemptStep (as_read (?ts @ rs)) zero_attempt = Some ?w"
    by (rule d(1)) (use es(3) in \<open>auto simp: attemptKnownKeys_def attemptStep_def\<close>)
  moreover have "captureResidual attemptKnownKeys (as_read (?ts @ rs)) = sorted_map strip (AResidual a)"
    unfolding rs(1) [symmetric] by (rule d(2)) (use es(3) in \<open>auto simp: attemptKnownKeys_def attemptStep_def\<close>)
  ultimately have "map_option toAttempt (wireAttempt_UnmarshalJSON (JObj (as_read (?ts @ rs)))) = Some (canon_attempt a)"
    unfolding wireAttempt_UnmarshalJSON_def json.case by (simp add: toAttempt_def canon_attempt_def timePtr_def split: option.splits)
  moreover have "attempt_text (toWireAttempt a) = Some (obj_text (written (?ts @ rs)))"
    using m Compact_reads [OF t] unfolding attempt_text_def by simp
  ultimately show ?thesis using t m by blast
qed

section \<open>Envelopes\<close>

lemma reads_attempts:
  assumes "list_all attempt_ok as"
  shows "\<exists>ts. attempts_members (map toWireAttempt as) = Some (written ts) \<and> readable 9994 ts \<and>
    (ts = [] \<and> as = [] \<or> (\<exists>v j ws. ts = [(''attempts'', v, j)] \<and> decodeAttempts j = Some ws \<and> map toAttempt ws = map canon_attempt as))"
proof (cases "as = []")
  case True
  then show ?thesis by (intro exI [of _ "[]"]) (simp add: attempts_members_def)
next
  case False
  have "\<exists>vs js ws. those (map (\<lambda>a. attempt_text (toWireAttempt a)) as) = Some vs \<and> list_all2 (reads 9993) vs js \<and>
      those (map wireAttempt_UnmarshalJSON js) = Some ws \<and> map toAttempt ws = map canon_attempt as"
    using assms
  proof (induction as)
    case (Cons a as)
    then obtain vs js ws where ih: "those (map (\<lambda>a. attempt_text (toWireAttempt a)) as) = Some vs" "list_all2 (reads 9993) vs js"
        "those (map wireAttempt_UnmarshalJSON js) = Some ws" "map toAttempt ws = map canon_attempt as" by auto
    obtain t j where t: "attempt_text (toWireAttempt a) = Some t" "reads 9993 t j"
        "map_option toAttempt (wireAttempt_UnmarshalJSON j) = Some (canon_attempt a)"
      using reads_attempt [of a] Cons.prems by auto
    then obtain w where "wireAttempt_UnmarshalJSON j = Some w" "toAttempt w = canon_attempt a" by auto
    then show ?case using ih t by (intro exI [of _ "t # vs"] exI [of _ "j # js"] exI [of _ "w # ws"]) simp
  qed simp
  then obtain vs js ws where v: "those (map (\<lambda>a. attempt_text (toWireAttempt a)) as) = Some vs" "list_all2 (reads 9993) vs js"
      "those (map wireAttempt_UnmarshalJSON js) = Some ws" "map toAttempt ws = map canon_attempt as" by blast
  have "valid_utf8 ''attempts''" by (rule valid_known_key) (simp add: envelopeKnownKeys_def)
  moreover have "reads 9994 (arr_text vs) (JArr js)" using reads_arr [OF v(2)] by simp
  ultimately show ?thesis using v False
    by (intro exI [of _ "[(''attempts'', arr_text vs, JArr js)]"]) (auto simp: attempts_members_def comp_def decodeAttempts_def)
qed

lemma envelopeStep_known:
  "envelopeStep ''envelope_version'' raw v w = map_option (\<lambda>x. w\<lparr>wEnvelopeVersion := x\<rparr>) (decodeInt (wEnvelopeVersion w) v)"
  "envelopeStep ''id'' raw v w = map_option (\<lambda>x. w\<lparr>wID := x\<rparr>) (decodeString (wID w) v)"
  "envelopeStep ''queue'' raw v w = map_option (\<lambda>x. w\<lparr>wQueue := x\<rparr>) (decodeString (wQueue w) v)"
  "envelopeStep ''handler_ref'' raw v w = map_option (\<lambda>x. w\<lparr>wHandlerRef := x\<rparr>) (decodeString (wHandlerRef w) v)"
  "envelopeStep ''handler_version'' raw v w = map_option (\<lambda>x. w\<lparr>wHandlerVersion := x\<rparr>) (decodeString (wHandlerVersion w) v)"
  "envelopeStep ''payload'' raw v w = map_option (\<lambda>x. w\<lparr>wPayload := x\<rparr>) (decodeBytes (wPayload w) v)"
  "envelopeStep ''payload_content_type'' raw v w = map_option (\<lambda>x. w\<lparr>wPayloadContentType := x\<rparr>) (decodeString (wPayloadContentType w) v)"
  "envelopeStep ''payload_ref'' raw v w = map_option (\<lambda>x. w\<lparr>wPayloadRef := x\<rparr>) (decodeStringPtr v)"
  "envelopeStep ''headers'' raw v w = map_option (\<lambda>x. w\<lparr>wHeaders := x\<rparr>) (decodeHeaders (wHeaders w) v)"
  "envelopeStep ''status'' raw v w = map_option (\<lambda>x. w\<lparr>wStatus := x\<rparr>) (decodeString (wStatus w) v)"
  "envelopeStep ''attempt_count'' raw v w = map_option (\<lambda>x. w\<lparr>wAttemptCount := x\<rparr>) (decodeInt (wAttemptCount w) v)"
  "envelopeStep ''redrive_count'' raw v w = map_option (\<lambda>x. w\<lparr>wRedriveCount := x\<rparr>) (decodeInt (wRedriveCount w) v)"
  "envelopeStep ''next_attempt_at'' raw v w = map_option (\<lambda>x. w\<lparr>wNextAttemptAt := x\<rparr>) (decodeTimePtr (wNextAttemptAt w) v)"
  "envelopeStep ''lease_expires_at'' raw v w = map_option (\<lambda>x. w\<lparr>wLeaseExpiresAt := x\<rparr>) (decodeTimePtr (wLeaseExpiresAt w) v)"
  "envelopeStep ''created_at'' raw v w = map_option (\<lambda>x. w\<lparr>wCreatedAt := x\<rparr>) (Time_UnmarshalJSON (wCreatedAt w) v)"
  "envelopeStep ''attempts'' raw v w = map_option (\<lambda>x. w\<lparr>wAttempts := x\<rparr>) (decodeAttempts v)"
  by (simp_all add: envelopeStep_def field_of_def envelopeKnownKeys_def)

lemma envelope_text:
  assumes "envelope_ok e"
  shows "\<exists>am t. attempts_members (wAttempts (toWire e)) = Some am \<and> t = obj_text (fixed_members (toWire e) @ am @ sorted_map strip (Residual e)) \<and>
    Marshal e = Some t \<and> Unmarshal t = Some (canonical e)"
proof -
  note ok = assms [unfolded envelope_ok_def]
  obtain pj where pj: "reads 9994 (payload_text (Payload e)) pj" "decodeBytes None pj = Some (Payload e)" using reads_payload by blast
  obtain nj where nj: "reads 9994 (time_ptr_text (NextAttemptAt e)) nj" "decodeTimePtr None nj = Some (map_option millis (NextAttemptAt e))"
    using reads_time_ptr ok by blast
  obtain lj where lj: "reads 9994 (time_ptr_text (LeaseExpiresAt e)) lj" "decodeTimePtr None lj = Some (map_option millis (LeaseExpiresAt e))"
    using reads_time_ptr ok by blast
  obtain hj where hj: "reads (Suc 9993) (headers_text (Headers e)) hj" "decodeHeaders [] hj = Some (sorted_map (\<lambda>v. v) (Headers e))"
    using reads_headers [of "Headers e"] ok by blast
  obtain as where as: "attempts_members (map toWireAttempt (Attempts e)) = Some (written as)" "readable 9994 as"
      "as = [] \<and> Attempts e = [] \<or> (\<exists>v j ws. as = [(''attempts'', v, j)] \<and> decodeAttempts j = Some ws \<and> map toAttempt ws = map canon_attempt (Attempts e))"
    using reads_attempts [of "Attempts e"] ok by blast
  obtain rs where rs: "written rs = sorted_map strip (Residual e)" "readable 9994 rs" "distinct (map fst rs)"
      "\<And>k v j. (k, v, j) \<in> set rs \<Longrightarrow> field_of envelopeKnownKeys k = None"
    using residual_triples [of envelopeKnownKeys "Residual e" 9994] ok by auto
  let ?str = "\<lambda>k v. (k, json_quote v, JStr (json_body v))" and ?int = "\<lambda>k i. (k, FormatInt i, JNum (FormatInt i))"
  define fs where "fs = [?int ''envelope_version'' (EnvelopeVersion e), ?str ''id'' (ID e), ?str ''queue'' (Queue e), ?str ''handler_ref'' (HandlerRef e)] @
      (if HandlerVersion e = [] then [] else [?str ''handler_version'' (HandlerVersion e)]) @
      [(''payload'', payload_text (Payload e), pj), ?str ''payload_content_type'' (PayloadContentType e)] @
      (case PayloadRef e of None \<Rightarrow> [] | Some r \<Rightarrow> [?str ''payload_ref'' r]) @
      (if Headers e = [] then [] else [(''headers'', headers_text (Headers e), hj)]) @
      [?str ''status'' (Status e), ?int ''attempt_count'' (AttemptCount e), ?int ''redrive_count'' (RedriveCount e),
       (''next_attempt_at'', time_ptr_text (NextAttemptAt e), nj), (''lease_expires_at'', time_ptr_text (LeaseExpiresAt e), lj),
       (''created_at'', Time_MarshalJSON (CreatedAt e), JStr (format_millis (CreatedAt e)))]"
  have wf: "written fs = fixed_members (toWire e)"
    by (auto simp: fs_def fixed_members_def toWire_def wireTimePtr_def split: option.splits)
  have keys: "valid_utf8 k" if "k \<in> set envelopeKnownKeys" for k using that valid_known_key by blast
  have rf: "readable 9994 fs"
    using pj(1) nj(1) lj(1) hj(1) by (auto simp: fs_def reads_string reads_int reads_time keys envelopeKnownKeys_def split: option.splits)
  have r: "readable 9994 ((fs @ as) @ rs)" using rf as(2) rs(2) by (simp only: readable_append)
  have sub: "fst ` set (fs @ as) \<subseteq> set envelopeKnownKeys"
    using as(3) by (auto simp: fs_def envelopeKnownKeys_def split: option.splits if_splits)
  let ?w = "\<lparr>wEnvelopeVersion = EnvelopeVersion e, wID = ID e, wQueue = Queue e, wHandlerRef = HandlerRef e,
     wHandlerVersion = HandlerVersion e, wPayload = Payload e, wPayloadContentType = PayloadContentType e,
     wPayloadRef = PayloadRef e, wHeaders = sorted_map (\<lambda>v. v) (Headers e), wStatus = Status e, wAttemptCount = AttemptCount e,
     wRedriveCount = RedriveCount e, wNextAttemptAt = map_option millis (NextAttemptAt e),
     wLeaseExpiresAt = map_option millis (LeaseExpiresAt e), wCreatedAt = millis (CreatedAt e), wAttempts = [], wResidual = []\<rparr>"
  have "step_fold envelopeStep fs zero_envelope = Some ?w"
    using ok pj(2) nj(2) lj(2) hj(2)
    by (auto simp: fs_def zero_envelope_def envelopeStep_known decode_time decodeStringPtr_def unquote_json_body sorted_map_def split: option.splits)
  then obtain ws where ws: "step_fold envelopeStep (fs @ as) zero_envelope = Some (?w\<lparr>wAttempts := ws\<rparr>)" "map toAttempt ws = map canon_attempt (Attempts e)"
    using as(3) unfolding step_fold_append by (auto simp: envelopeStep_known)
  note d = decode_object [OF r sub rs(3,4) _ ws(1)]
  have "decode_fold envelopeStep (as_read ((fs @ as) @ rs)) zero_envelope = Some (?w\<lparr>wAttempts := ws\<rparr>)"
    by (rule d(1)) (auto simp: envelopeStep_def)
  moreover have "captureResidual envelopeKnownKeys (as_read ((fs @ as) @ rs)) = sorted_map strip (Residual e)"
    unfolding rs(1) [symmetric] by (rule d(2)) (auto simp: envelopeStep_def)
  ultimately have dec: "map_option toEnvelope (wireEnvelope_UnmarshalJSON (JObj (as_read ((fs @ as) @ rs)))) = Some (canonical e)"
    using ws(2) unfolding wireEnvelope_UnmarshalJSON_def json.case by (simp add: toEnvelope_def canonical_def timePtr_def split: option.splits)
  define t where "t = obj_text (written ((fs @ as) @ rs))"
  have t: "t = obj_text (fixed_members (toWire e) @ written as @ sorted_map strip (Residual e))"
    unfolding t_def map_append wf rs(1) by simp
  have "reads 9995 t (JObj (as_read ((fs @ as) @ rs)))" using reads_object [OF r] unfolding t_def by (simp del: map_append)
  then have c: "Compact t = Some t" "parse_json t = Some (JObj (as_read ((fs @ as) @ rs)))" using Compact_reads [of 9995 t] by auto
  have am: "attempts_members (wAttempts (toWire e)) = Some (written as)" using as(1) by (simp add: toWire_def)
  have "wireEnvelope_MarshalJSON (toWire e) = Some t"
  proof -
    have "residual_ok envelopeKnownKeys (wResidual (toWire e))" using ok by (simp add: toWire_def)
    moreover have "fixed_members (toWire e) @ written as \<noteq> []" by (simp add: fixed_members_def)
    ultimately show ?thesis unfolding wireEnvelope_MarshalJSON_def am option.case t
      by (subst appendResidual_ok) (simp_all add: toWire_def)
  qed
  then show ?thesis using am t c dec unfolding Marshal_def Unmarshal_def by (intro exI [of _ "written as"] exI [of _ t]) simp
qed

text \<open>What the marshaller writes is compact already.\<close>

definition plain_text :: "envelope \<Rightarrow> string option" where
  "plain_text e = map_option (\<lambda>ts. obj_text (fixed_members (toWire e) @ [(''attempts'', arr_text ts)] @ sorted_map strip (Residual e)))
     (those (map (\<lambda>a. wireAttempt_MarshalJSON (toWireAttempt a)) (Attempts e)))"

lemma Marshal_plain:
  assumes "envelope_ok e" "Attempts e \<noteq> []"
  shows "Marshal e = plain_text e"
proof -
  have "attempt_text (toWireAttempt a) = wireAttempt_MarshalJSON (toWireAttempt a)" if "a \<in> set (Attempts e)" for a
    using that assms(1) reads_attempt [of a] by (auto simp: envelope_ok_def list_all_iff)
  then have "map attempt_text (map toWireAttempt (Attempts e)) = map (\<lambda>a. wireAttempt_MarshalJSON (toWireAttempt a)) (Attempts e)" by simp
  then have "those (map attempt_text (map toWireAttempt (Attempts e))) = those (map (\<lambda>a. wireAttempt_MarshalJSON (toWireAttempt a)) (Attempts e))"
    by (rule arg_cong)
  then have "attempts_members (wAttempts (toWire e)) = map_option (\<lambda>ts. [(''attempts'', arr_text ts)])
      (those (map (\<lambda>a. wireAttempt_MarshalJSON (toWireAttempt a)) (Attempts e)))"
    using assms(2) by (simp add: attempts_members_def toWire_def del: map_map)
  then show ?thesis using envelope_text [OF assms(1)] by (auto simp: plain_text_def)
qed

section \<open>The canonical envelope encodes to the same bytes\<close>

lemma raw_ok_strip: "raw_ok raw \<Longrightarrow> raw_ok (strip raw)"
proof -
  assume "raw_ok raw"
  then obtain j where "reads 9990 (strip raw) j" using raw_ok_reads by blast
  then show ?thesis using reads_skip_ws [of 9990 "strip raw" j "[]"] by (simp add: raw_ok_def reads_def)
qed

lemma residual_ok_canon: "residual_ok known r \<Longrightarrow> residual_ok known (sorted_map strip r)"
  by (auto simp: residual_ok_def distinct_sorted_map set_sorted_map list_all_iff raw_ok_strip)

lemma residual_canon: "residual_ok known r \<Longrightarrow> sorted_map strip (sorted_map strip r) = sorted_map strip r"
  by (simp add: residual_ok_def sorted_map_again json_strip_idem)

lemma appendResidual_canon:
  "residual_ok known r \<Longrightarrow> ms \<noteq> [] \<Longrightarrow> appendResidual (obj_text ms) (sorted_map strip r) = appendResidual (obj_text ms) r"
  using appendResidual_ok [of known r ms] appendResidual_ok [OF residual_ok_canon, of known r ms] by (simp add: residual_canon)

lemma Error_text_canon: "error_ok e \<Longrightarrow> Error_text (canon_error e) = Error_text e"
proof -
  assume ok: "error_ok e"
  have "detail_members (Detail (canon_error e)) = detail_members (Detail e)"
  proof (cases "Detail e")
    case (Some raw)
    show ?thesis
    proof (cases "raw = []")
      case False
      then have "raw_ok raw" using ok Some by (simp add: error_ok_def)
      then have c: "Compact raw = Some (strip raw)" "Compact (strip raw) = Some (strip raw)" "strip raw \<noteq> []"
        using raw_ok_Compact raw_ok_strip [of raw] raw_ok_Compact [of "strip raw"] by (auto simp: json_strip_idem raw_ok_def pvalue.simps)
      then show ?thesis using Some False by (simp add: canon_error_def detail_members_def)
    qed (simp add: Some canon_error_def detail_members_def)
  qed (simp add: canon_error_def detail_members_def)
  then show ?thesis by (simp add: Error_text_def canon_error_def)
qed

lemma time_texts_canon: "Time_MarshalJSON (millis t) = Time_MarshalJSON t" "time_ptr_text (map_option millis p) = time_ptr_text p"
  by (cases p; simp add: Time_MarshalJSON_def time_ptr_text_def format_millis_millis)+

lemma attempt_text_canon: "attempt_ok a \<Longrightarrow> attempt_text (toWireAttempt (canon_attempt a)) = attempt_text (toWireAttempt a)"
proof -
  assume ok: "attempt_ok a"
  have ptr: "wireTimePtr p = p" for p by (simp add: wireTimePtr_def split: option.splits)
  have m: "attempt_members (toWireAttempt (canon_attempt a)) = attempt_members (toWireAttempt a)"
    using ok by (cases "Err a") (simp_all add: attempt_members_def toWireAttempt_def canon_attempt_def time_texts_canon ptr Error_text_canon attempt_ok_def)
  have "ms \<noteq> []" if "attempt_members (toWireAttempt a) = Some ms" for ms
    using that by (auto simp: attempt_members_def Let_def split: option.splits)
  then have "wireAttempt_MarshalJSON (toWireAttempt (canon_attempt a)) = wireAttempt_MarshalJSON (toWireAttempt a)"
    using appendResidual_canon [of attemptKnownKeys "AResidual a"] ok m
    by (auto simp: wireAttempt_MarshalJSON_def toWireAttempt_def canon_attempt_def attempt_ok_def split: option.splits)
  then show ?thesis by (simp add: attempt_text_def)
qed

lemma Marshal_canonical: "envelope_ok e \<Longrightarrow> Marshal (canonical e) = Marshal e"
proof -
  assume ok: "envelope_ok e"
  have d: "distinct (map fst (Headers e))" using ok by (simp add: envelope_ok_def)
  have ptr: "wireTimePtr p = p" for p by (simp add: wireTimePtr_def split: option.splits)
  have "headers_text (sorted_map (\<lambda>v. v) (Headers e)) = headers_text (Headers e)"
    using sorted_map_lookup [OF d, of json_quote "[]"] sorted_map_lookup [OF distinct_sorted_map [where f = "\<lambda>v. v", OF d], of json_quote "[]"]
    by (simp add: headers_text_def sorted_map_again [OF d])
  then have f: "fixed_members (toWire (canonical e)) = fixed_members (toWire e)"
    by (simp add: fixed_members_def toWire_def canonical_def time_texts_canon ptr sorted_map_Nil)
  have "those (map attempt_text (map toWireAttempt (map canon_attempt (Attempts e)))) = those (map attempt_text (map toWireAttempt (Attempts e)))"
    using ok attempt_text_canon by (intro arg_cong [where f = those]) (auto simp: envelope_ok_def list_all_iff)
  then have a: "attempts_members (wAttempts (toWire (canonical e))) = attempts_members (wAttempts (toWire e))"
    by (simp add: attempts_members_def toWire_def canonical_def)
  have "appendResidual (obj_text (fixed_members (toWire e) @ am)) (wResidual (toWire (canonical e))) =
      appendResidual (obj_text (fixed_members (toWire e) @ am)) (wResidual (toWire e))" for am
  proof -
    have "residual_ok envelopeKnownKeys (Residual e)" using ok by (simp add: envelope_ok_def)
    moreover have "fixed_members (toWire e) @ am \<noteq> []" by (simp add: fixed_members_def)
    ultimately show ?thesis using appendResidual_canon by (simp add: toWire_def canonical_def)
  qed
  then show ?thesis by (simp add: Marshal_def wireEnvelope_MarshalJSON_def f a split: option.splits)
qed

text \<open>C14: the canonical codec is lossless. An envelope whose texts are valid UTF-8, whose numbers fit 64 bits, whose times lie
  in the years 0 to 9999 and whose unknown fields and error details are JSON values encodes to a text that decodes to the same
  envelope, unknown fields included, up to its canonical form: times cut to milliseconds, maps in the order of
  their keys, raw values without white space. Encoding the decoded envelope gives the same bytes.\<close>

theorem codec_roundtrip:
  assumes "envelope_ok e"
  shows "\<exists>b. Marshal e = Some b \<and> Unmarshal b = Some (canonical e) \<and> Marshal (canonical e) = Some b"
  using envelope_text [OF assms] Marshal_canonical [OF assms] by auto

definition sample_envelope :: envelope where
  "sample_envelope = \<lparr>EnvelopeVersion = 1, ID = ''a'', Queue = ''q'', HandlerRef = ''h'', HandlerVersion = [], Payload = Some ''{}'',
     PayloadContentType = ''t'', PayloadRef = None, Headers = [(''z'', ''1''), (''b'', ''2'')], Status = ''PENDING'', AttemptCount = 1,
     RedriveCount = 0, NextAttemptAt = Some 1784556202117000001, LeaseExpiresAt = None, CreatedAt = 0,
     Attempts = [\<lparr>AttemptNo = 1, StartedAt = 0, FinishedAt = None, Outcome = ''LEASE_EXPIRED'',
       Err = Some \<lparr>ErrType = ''e'', Message = ''m'', Detail = Some ''null'', Stack = []\<rparr>, AResidual = []\<rparr>],
     Residual = [(''x'', '' true '')]\<rparr>"

theorem codec_roundtrip_witness:
  "\<exists>b. Marshal sample_envelope = Some b \<and>
    map_option Residual (Unmarshal b) = Some [(''x'', ''true'')] \<and> map_option NextAttemptAt (Unmarshal b) = Some (Some 1784556202117000000)"
proof -
  have t: "time_ok 0" "time_ok 1784556202117000001" by code_simp+
  have v: "list_all text_char s \<Longrightarrow> valid_utf8 s" for s using json_body_text by blast
  have r: "raw_ok ''null''" "raw_ok '' true ''"
    by (simp_all add: raw_ok_def pvalue.simps(2) HasPrefix_def json_ws_def)
  have x: "field_of envelopeKnownKeys ''x'' = None" by code_simp
  have "envelope_ok sample_envelope"
    unfolding envelope_ok_def sample_envelope_def
    by (simp add: t r x attempt_ok_def error_ok_def residual_ok_def int64_def v text_char_def byte_in_def)
  from codec_roundtrip [OF this] obtain b where b: "Marshal sample_envelope = Some b" "Unmarshal b = Some (canonical sample_envelope)" by blast
  have "Residual (canonical sample_envelope) = [(''x'', ''true'')]" "NextAttemptAt (canonical sample_envelope) = Some 1784556202117000000"
    by (simp_all add: canonical_def sample_envelope_def sorted_map_def json_ws_def millis_def)
  then show ?thesis using b by auto
qed

section \<open>Keys that differ in case\<close>

text \<open>The decoder matches keys without regard to case, the capture of unknown fields with regard to it: an unknown field whose name is a
  known one in another case is kept as unknown and also overwrites the known one.\<close>

lemma case_variant_overwrites:
  "map_option (\<lambda>e. (Status e, Residual e)) (Unmarshal (obj_text [(''status'', json_quote ''PENDING''), (''Status'', json_quote ''DEAD'')])) =
     Some (''DEAD'', [(''Status'', json_quote ''DEAD'')])"
proof -
  let ?ts = "[(''status'', json_quote ''PENDING'', JStr (json_body ''PENDING'')), (''Status'', json_quote ''DEAD'', JStr (json_body ''DEAD''))]"
  have v: "list_all text_char s \<Longrightarrow> valid_utf8 s" for s using json_body_text by blast
  have r: "readable 1 ?ts" by (simp add: reads_string v text_char_def byte_in_def)
  have "reads 2 (obj_text (written ?ts)) (JObj (as_read ?ts))" using reads_object [OF r] by (simp only: Suc_1)
  then have p: "parse_json (obj_text (written ?ts)) = Some (JObj (as_read ?ts))" by (rule Compact_reads [THEN conjunct2]) (simp only: numeral_le_iff, simp)
  have "field_of envelopeKnownKeys ''Status'' = Some ''status''" by code_simp
  then have step: "envelopeStep ''Status'' raw j w = map_option (\<lambda>x. w\<lparr>wStatus := x\<rparr>) (decodeString (wStatus w) j)" for raw j w
    by (simp add: envelopeStep_def)
  have "decode_fold envelopeStep (as_read ?ts) zero_envelope = Some (zero_envelope\<lparr>wStatus := ''DEAD''\<rparr>)"
    unfolding decode_fold_as_read [OF r] by (simp add: envelopeStep_known step v text_char_def byte_in_def)
  moreover have "captureResidual envelopeKnownKeys (as_read ?ts) = [(''Status'', json_quote ''DEAD'')]"
    by (simp add: captureResidual_def envelopeKnownKeys_def unquote_json_body v text_char_def byte_in_def)
  ultimately have "map_option toEnvelope (wireEnvelope_UnmarshalJSON (JObj (as_read ?ts))) =
      Some (toEnvelope (zero_envelope\<lparr>wStatus := ''DEAD'', wResidual := [(''Status'', json_quote ''DEAD'')]\<rparr>))"
    unfolding wireEnvelope_UnmarshalJSON_def json.case by simp
  then have "Unmarshal (obj_text (written ?ts)) =
      Some (toEnvelope (zero_envelope\<lparr>wStatus := ''DEAD'', wResidual := [(''Status'', json_quote ''DEAD'')]\<rparr>))"
    unfolding Unmarshal_def p by simp
  then show ?thesis by (simp add: toEnvelope_def)
qed

end
