(* ===== verification/Compliance.thy ===== *)
theory Compliance
  imports Spi Codec
begin

text \<open>
  The storage compliance kit (\<open>core/compliance\<close>): the eight invariants it tests, each as the sequence of
  calls the kit makes on a fresh store with the checks it does on their results. The kit owns no clock: a
  reading is the next value of a clock function, and sleeping moves all later readings. A test is a function from the world it
  runs in to its verdict, a failure naming the check, and the world it leaves; a test with subtests collects their failures. The concurrent claimants of the first test run as an
  interleaving of their calls, given by a schedule.
\<close>

section \<open>Tests\<close>

record 's kit_world =
  kStore :: 's
  kReads :: nat
  kSlept :: duration

type_synonym ('s, 'a) kit = "(nat \<Rightarrow> time) \<Rightarrow> 's storage \<Rightarrow> 's kit_world \<Rightarrow> (string + 'a) \<times> 's kit_world"

definition kreturn :: "'a \<Rightarrow> ('s, 'a) kit" where
  "kreturn x clk st w = (Inr x, w)"

text \<open>\<open>t.Fatalf\<close>: the test ends.\<close>

definition Fatal :: "string \<Rightarrow> ('s, 'a) kit" where
  "Fatal msg clk st w = (Inl msg, w)"

definition kbind :: "('s, 'a) kit \<Rightarrow> ('a \<Rightarrow> ('s, 'b) kit) \<Rightarrow> ('s, 'b) kit" where
  "kbind m f clk st w = (case m clk st w of (Inl e, w1) \<Rightarrow> (Inl e, w1) | (Inr x, w1) \<Rightarrow> f x clk st w1)"

definition require :: "bool \<Rightarrow> string \<Rightarrow> ('s, unit) kit" where
  "require b msg = (if b then kreturn () else Fatal msg)"

definition kNow :: "('s, time) kit" where
  "kNow clk st w = (Inr (clk (kReads w) + kSlept w), w\<lparr>kReads := Suc (kReads w)\<rparr>)"

definition kSleep :: "duration \<Rightarrow> ('s, unit) kit" where
  "kSleep d clk st w = (Inr (), w\<lparr>kSlept := kSlept w + d\<rparr>)"

text \<open>A call of a method of the store, with the reading its backend takes where it reads the clock.\<close>

definition kCall :: "('s storage \<Rightarrow> 's \<Rightarrow> 'a \<times> 's) \<Rightarrow> ('s, 'a) kit" where
  "kCall f clk st w = (case f st (kStore w) of (x, s) \<Rightarrow> (Inr x, w\<lparr>kStore := s\<rparr>))"

definition kEnqueue :: "envelope \<Rightarrow> ('s, spi_error option) kit" where
  "kEnqueue e = kCall (\<lambda>st s. st_Enqueue st s e)"

definition kClaimDue :: "string \<Rightarrow> int \<Rightarrow> duration \<Rightarrow> ('s, spi_error + claimed list) kit" where
  "kClaimDue q limit lease = kbind kNow (\<lambda>t. kCall (\<lambda>st s. st_ClaimDue st t s q limit lease))"

definition kExtendLease :: "task_id \<Rightarrow> claim_token \<Rightarrow> duration \<Rightarrow> ('s, spi_error option) kit" where
  "kExtendLease k tok l = kbind kNow (\<lambda>t. kCall (\<lambda>st s. st_ExtendLease st t s k tok l))"

definition kReschedule :: "task_id \<Rightarrow> claim_token \<Rightarrow> attempt \<Rightarrow> time \<Rightarrow> ('s, spi_error option) kit" where
  "kReschedule k tok att nxt = kCall (\<lambda>st s. st_Reschedule st s k tok att nxt)"

definition kComplete :: "task_id \<Rightarrow> claim_token \<Rightarrow> attempt \<Rightarrow> ('s, spi_error option) kit" where
  "kComplete k tok att = kbind kNow (\<lambda>t. kCall (\<lambda>st s. st_Complete st t s k tok att))"

definition kDeadLetter :: "task_id \<Rightarrow> claim_token \<Rightarrow> attempt \<Rightarrow> ('s, spi_error option) kit" where
  "kDeadLetter k tok att = kbind kNow (\<lambda>t. kCall (\<lambda>st s. st_DeadLetter st t s k tok att))"

definition kGet :: "task_id \<Rightarrow> ('s, spi_error + envelope) kit" where
  "kGet k = kCall (\<lambda>st s. (st_Get st s k, s))"

definition kDLQList :: "string \<Rightarrow> dlq_filter \<Rightarrow> page \<Rightarrow> ('s, spi_error + (envelope list \<times> cursor)) kit" where
  "kDLQList q f pg = kCall (\<lambda>st s. (st_DLQList st s q f pg, s))"

definition kRedrive :: "string \<Rightarrow> selector \<Rightarrow> ('s, spi_error + int) kit" where
  "kRedrive q sel = kbind kNow (\<lambda>t. kCall (\<lambda>st s. st_Redrive st t s q sel))"

section \<open>Builders and drivers\<close>

definition shortLease :: duration where "shortLease = 40 * 1000000"
definition expireWait :: duration where "expireWait = 250 * 1000000"
definition longLease :: duration where "longLease = 10 * 1000000000"

definition pastDue :: "('s, time) kit" where
  "pastDue = kbind kNow (\<lambda>t. kreturn (t - 1000000000))"

definition newPendingTask :: "string \<Rightarrow> string \<Rightarrow> ('s, envelope) kit" where
  "newPendingTask tid queue = kbind pastDue (\<lambda>due. kreturn
     \<lparr>EnvelopeVersion = 1, ID = tid, Queue = queue, HandlerRef = ''h.process'', HandlerVersion = [],
      Payload = Some (''payload-'' @ tid), PayloadContentType = ''application/octet-stream'', PayloadRef = None, Headers = [],
      Status = StatusPending, AttemptCount = 0, RedriveCount = 0, NextAttemptAt = Some due, LeaseExpiresAt = None,
      CreatedAt = due, Attempts = [], Residual = []\<rparr>)"

definition retryAttempt :: "int \<Rightarrow> string \<Rightarrow> ('s, attempt) kit" where
  "retryAttempt no errType = kbind kNow (\<lambda>now. kreturn
     \<lparr>AttemptNo = no, StartedAt = now, FinishedAt = Some now, Outcome = OutcomeRetryableFailure,
      Err = Some \<lparr>ErrType = errType, Message = ''boom'', Detail = None, Stack = []\<rparr>, AResidual = []\<rparr>)"

text \<open>The error of a call is a failure of the test.\<close>

definition must :: "string \<Rightarrow> ('s, spi_error option) kit \<Rightarrow> ('s, unit) kit" where
  "must msg m = kbind m (\<lambda>r. require (r = None) msg)"

definition must_get :: "string \<Rightarrow> ('s, spi_error + 'a) kit \<Rightarrow> ('s, 'a) kit" where
  "must_get msg m = kbind m (\<lambda>r. case r of Inl e \<Rightarrow> Fatal msg | Inr x \<Rightarrow> kreturn x)"

definition mustEnqueue :: "envelope \<Rightarrow> ('s, unit) kit" where
  "mustEnqueue e = must ''Enqueue'' (kEnqueue e)"

definition mustClaimOne :: "string \<Rightarrow> duration \<Rightarrow> ('s, claimed) kit" where
  "mustClaimOne queue lease = kbind (must_get ''ClaimDue'' (kClaimDue queue 10 lease)) (\<lambda>claimed.
     case claimed of [c] \<Rightarrow> kreturn c | _ \<Rightarrow> Fatal ''ClaimDue returned another number of tasks than 1'')"

definition driveTaskToDLQ :: "string \<Rightarrow> string \<Rightarrow> string \<Rightarrow> ('s, unit) kit" where
  "driveTaskToDLQ tid queue errType =
     kbind (newPendingTask tid queue) (\<lambda>task. kbind (mustEnqueue task) (\<lambda>_.
     kbind (mustClaimOne queue longLease) (\<lambda>c. kbind (retryAttempt 1 errType) (\<lambda>att.
     must ''DeadLetter'' (kDeadLetter tid (Token c) att)))))"

definition stale :: "string \<Rightarrow> ('s, spi_error option) kit \<Rightarrow> ('s, unit) kit" where
  "stale name m = kbind m (\<lambda>r. require (r = Some ErrStaleClaim) (name @ '' with stale token''))"

definition assertStaleToken :: "task_id \<Rightarrow> claim_token \<Rightarrow> ('s, unit) kit" where
  "assertStaleToken tid tok =
     kbind (retryAttempt 99 ''stale.attempt'') (\<lambda>att.
     kbind (kbind kNow (\<lambda>now. stale ''Reschedule'' (kReschedule tid tok att now))) (\<lambda>_.
     kbind (stale ''Complete'' (kComplete tid tok att)) (\<lambda>_.
     kbind (stale ''DeadLetter'' (kDeadLetter tid tok att)) (\<lambda>_.
     stale ''ExtendLease'' (kExtendLease tid tok (60 * 1000000000))))))"

text \<open>The fields the summary of a task prints.\<close>

definition fingerprint :: "envelope \<Rightarrow> status \<times> nat \<times> int \<times> int \<times> time option \<times> time option" where
  "fingerprint e = (Status e, length (Attempts e), AttemptCount e, RedriveCount e, NextAttemptAt e, LeaseExpiresAt e)"

definition assertConsistent :: "task_id \<Rightarrow> status \<Rightarrow> ('s, envelope) kit" where
  "assertConsistent tid want =
     kbind (must_get ''Get'' (kGet tid)) (\<lambda>got.
     kbind (require (Status got = want) ''status'') (\<lambda>_.
     kbind (if want = StatusPending then require (NextAttemptAt got \<noteq> None \<and> LeaseExpiresAt got = None) ''PENDING''
            else if want = StatusInFlight then require (LeaseExpiresAt got \<noteq> None) ''IN_FLIGHT''
            else if want = StatusSucceeded \<or> want = StatusDead
              then require (LeaseExpiresAt got = None \<and> NextAttemptAt got = None) ''terminal''
            else kreturn ()) (\<lambda>_.
     kreturn got)))"

section \<open>The invariants\<close>

fun enqueueAll :: "string \<Rightarrow> string list \<Rightarrow> ('s, unit) kit" where
  "enqueueAll queue [] = kreturn ()"
| "enqueueAll queue (tid # ids) = kbind (newPendingTask tid queue) (\<lambda>task. kbind (mustEnqueue task) (\<lambda>_. enqueueAll queue ids))"

definition digits3 :: "nat \<Rightarrow> string" where
  "digits3 n = [digit_char (n div 100 mod 10), digit_char (n div 10 mod 10), digit_char (n mod 10)]"

text \<open>One turn of a claimant per entry of the schedule; a claimant that got nothing has returned, and an error of any of them fails the test. The
  result lists what was claimed and the claimants still running.\<close>

fun claimants :: "string \<Rightarrow> nat list \<Rightarrow> nat list \<Rightarrow> ('s, claimed list \<times> nat list) kit" where
  "claimants queue [] running = kreturn ([], running)"
| "claimants queue (i # sched) running =
     (if i \<notin> set running then claimants queue sched running
      else kbind (must_get ''concurrent ClaimDue'' (kClaimDue queue 1 longLease)) (\<lambda>cs.
        if cs = [] then claimants queue sched (removeAll i running)
        else kbind (claimants queue sched running) (\<lambda>(ds, r). kreturn (cs @ ds, r))))"

definition testConcurrentExclusivity :: "nat list \<Rightarrow> ('s, unit) kit" where
  "testConcurrentExclusivity sched =
     kbind (enqueueAll ''q.claims'' (map (\<lambda>n. CHR ''t'' # digits3 n) [0..<200])) (\<lambda>_.
     kbind (claimants ''q.claims'' sched [0..<8]) (\<lambda>(cs, running).
     kbind (require (running = []) ''claimants still run'') (\<lambda>_.
     kbind (require (list_all (\<lambda>c. Status (Task c) = StatusInFlight) cs) ''claimed task not IN_FLIGHT'') (\<lambda>_.
     kbind (require (length (remdups (map (ID \<circ> Task) cs)) = 200) ''distinct tasks claimed'') (\<lambda>_.
     kbind (require (distinct (map (ID \<circ> Task) cs)) ''double claim'') (\<lambda>_.
     kbind (require (length (remdups (map Token cs)) = 200) ''distinct tokens'') (\<lambda>_.
     require (distinct (map Token cs)) ''token handed out twice'')))))))"

definition testDropWorkerReclaim :: "('s, unit) kit" where
  "testDropWorkerReclaim =
     kbind (newPendingTask ''drop'' ''q.drop'') (\<lambda>task. kbind (mustEnqueue task) (\<lambda>_.
     kbind (mustClaimOne ''q.drop'' shortLease) (\<lambda>dropped.
     kbind (kSleep expireWait) (\<lambda>_.
     kbind (mustClaimOne ''q.drop'' longLease) (\<lambda>reclaimed.
     kbind (require (Token reclaimed \<noteq> Token dropped) ''reclaim reused the token'') (\<lambda>_.
     kbind (assertStaleToken ''drop'' (Token dropped)) (\<lambda>_.
     kbind (retryAttempt 2 ''done'') (\<lambda>att.
     must ''Complete'' (kComplete ''drop'' (Token reclaimed) att)))))))))"

definition testFencing :: "('s, unit) kit" where
  "testFencing =
     kbind (newPendingTask ''t'' ''q.fence'') (\<lambda>task. kbind (mustEnqueue task) (\<lambda>_.
     kbind (mustClaimOne ''q.fence'' shortLease) (\<lambda>first.
     kbind (assertStaleToken ''t'' (Token first @ ''-never-issued'')) (\<lambda>_.
     kbind (kSleep expireWait) (\<lambda>_.
     kbind (mustClaimOne ''q.fence'' longLease) (\<lambda>second.
     kbind (require (Token second \<noteq> Token first) ''reclaim reused token'') (\<lambda>_.
     kbind (must_get ''Get before'' (kGet ''t'')) (\<lambda>before.
     kbind (assertStaleToken ''t'' (Token first)) (\<lambda>_.
     kbind (must_get ''Get after'' (kGet ''t'')) (\<lambda>after.
     kbind (require (fingerprint before = fingerprint after) ''stale mutations changed state'') (\<lambda>_.
     kbind (require (Status after = StatusInFlight) ''status after stale calls'') (\<lambda>_.
     kbind (retryAttempt 2 ''done'') (\<lambda>att.
     must ''Complete'' (kComplete ''t'' (Token second) att))))))))))))))"

definition testLeaseRecoveryCounts :: "('s, unit) kit" where
  "testLeaseRecoveryCounts =
     kbind (newPendingTask ''t'' ''q.lease'') (\<lambda>task. kbind (mustEnqueue task) (\<lambda>_.
     kbind (mustClaimOne ''q.lease'' shortLease) (\<lambda>first.
     kbind (require (length (Attempts (Task first)) = 0) ''fresh claim has attempts'') (\<lambda>_.
     kbind (kSleep expireWait) (\<lambda>_.
     kbind (mustClaimOne ''q.lease'' longLease) (\<lambda>reclaimed.
     kbind (require (length (Attempts (Task reclaimed)) = 1) ''attempts after reclaim'') (\<lambda>_.
     kbind (require (Outcome (hd (Attempts (Task reclaimed))) = OutcomeLeaseExpired) ''reclaim attempt outcome'') (\<lambda>_.
     kbind (require (case Err (hd (Attempts (Task reclaimed))) of None \<Rightarrow> False | Some e \<Rightarrow> ErrType e = ''rdq.LeaseExpired'') ''reclaim attempt error'') (\<lambda>_.
     kbind (require (AttemptCount (Task reclaimed) = 1) ''attempt_count after reclaim'') (\<lambda>_.
     kbind (must_get ''Get'' (kGet ''t'')) (\<lambda>got.
     require (AttemptCount got = 1 \<and> length (Attempts got) = 1) ''post-reclaim Get''))))))))))) "

definition testAtomicTransition :: "('s, unit) kit" where
  "testAtomicTransition =
     kbind (newPendingTask ''t'' ''q.atomic'') (\<lambda>task. kbind (mustEnqueue task) (\<lambda>_.
     kbind (assertConsistent ''t'' StatusPending) (\<lambda>_.
     kbind (mustClaimOne ''q.atomic'' longLease) (\<lambda>c.
     kbind (assertConsistent ''t'' StatusInFlight) (\<lambda>_.
     kbind pastDue (\<lambda>nextAt. kbind (retryAttempt 1 ''boom'') (\<lambda>att.
     kbind (must ''Reschedule'' (kReschedule ''t'' (Token c) att nextAt)) (\<lambda>_.
     kbind (assertConsistent ''t'' StatusPending) (\<lambda>got.
     kbind (require (AttemptCount got = 1 \<and> length (Attempts got) = 1) ''post-Reschedule'') (\<lambda>_.
     kbind (mustClaimOne ''q.atomic'' longLease) (\<lambda>c.
     kbind (retryAttempt 2 ''ok'') (\<lambda>att.
     kbind (must ''Complete'' (kComplete ''t'' (Token c) att)) (\<lambda>_.
     kbind (assertConsistent ''t'' StatusSucceeded) (\<lambda>got.
     kbind (require (length (Attempts got) = 2) ''post-Complete attempts'') (\<lambda>_.
     kbind (newPendingTask ''u'' ''q.atomic'') (\<lambda>task. kbind (mustEnqueue task) (\<lambda>_.
     kbind (mustClaimOne ''q.atomic'' shortLease) (\<lambda>_.
     kbind (kSleep expireWait) (\<lambda>_.
     kbind (mustClaimOne ''q.atomic'' longLease) (\<lambda>reclaimed.
     kbind (require (Status (Task reclaimed) = StatusInFlight) ''reclaimed status'') (\<lambda>_.
     require (length (Attempts (Task reclaimed)) = 1) ''reclaimed attempts'')))))))))))))))))))))"

definition testIdempotentEnqueue :: "('s, unit) kit" where
  "testIdempotentEnqueue =
     kbind (newPendingTask ''dup'' ''q1'') (\<lambda>task. kbind (mustEnqueue task) (\<lambda>_.
     kbind (must ''duplicate Enqueue'' (kEnqueue task)) (\<lambda>_.
     kbind (mustClaimOne ''q1'' longLease) (\<lambda>c.
     kbind (retryAttempt 1 ''boom'') (\<lambda>att. kbind pastDue (\<lambda>nextAt.
     kbind (must ''Reschedule'' (kReschedule ''dup'' (Token c) att nextAt)) (\<lambda>_.
     kbind (must ''re-Enqueue'' (kEnqueue task)) (\<lambda>_.
     kbind (must_get ''Get'' (kGet ''dup'')) (\<lambda>got.
     kbind (require (AttemptCount got = 1 \<and> length (Attempts got) = 1) ''re-enqueue clobbered state'') (\<lambda>_.
     kbind (newPendingTask ''dup'' ''q2'') (\<lambda>other.
     kbind (kEnqueue other) (\<lambda>r.
     require (r = Some ErrIDConflict) ''cross-queue Enqueue''))))))))))))"

definition zero_filter :: dlq_filter where
  "zero_filter = \<lparr>FErrorType = [], FHandlerRef = [], DeadLetteredAfter = None, DeadLetteredBefore = None, IncludeAttempts = False\<rparr>"

definition testRedriveReset :: "('s, unit) kit" where
  "testRedriveReset =
     kbind (newPendingTask ''t'' ''q.redrive'') (\<lambda>task. kbind (mustEnqueue task) (\<lambda>_.
     kbind (mustClaimOne ''q.redrive'' longLease) (\<lambda>c.
     kbind (retryAttempt 1 ''boom'') (\<lambda>att. kbind pastDue (\<lambda>nextAt.
     kbind (must ''Reschedule'' (kReschedule ''t'' (Token c) att nextAt)) (\<lambda>_.
     kbind (mustClaimOne ''q.redrive'' longLease) (\<lambda>c.
     kbind (retryAttempt 2 ''boom'') (\<lambda>att.
     kbind (must ''DeadLetter'' (kDeadLetter ''t'' (Token c) att)) (\<lambda>_.
     kbind (must_get ''Get before redrive'' (kGet ''t'')) (\<lambda>before.
     kbind (require (AttemptCount before = 2 \<and> length (Attempts before) = 2) ''pre-redrive'') (\<lambda>_.
     kbind (must_get ''Redrive'' (kRedrive ''q.redrive'' \<lparr>IDs = [''t''], Filter = None\<rparr>)) (\<lambda>n.
     kbind (require (n = 1) ''Redrive count'') (\<lambda>_.
     kbind (must_get ''Get after redrive'' (kGet ''t'')) (\<lambda>after.
     kbind (require (Status after = StatusPending) ''post-redrive status'') (\<lambda>_.
     kbind (require (AttemptCount after = 0) ''post-redrive attempt_count'') (\<lambda>_.
     kbind (require (RedriveCount after = RedriveCount before + 1) ''post-redrive redrive_count'') (\<lambda>_.
     kbind (require (length (Attempts after) = 2) ''post-redrive history'') (\<lambda>_.
     kbind (require (NextAttemptAt after \<noteq> None) ''post-redrive next_attempt_at'') (\<lambda>_.
     kbind (must_get ''DLQList'' (kDLQList ''q.redrive'' zero_filter \<lparr>Limit = 0, After = []\<rparr>)) (\<lambda>(lst, _).
     kbind (require (length lst = 0) ''redriven task still in DLQ'') (\<lambda>_.
     kbind (mustClaimOne ''q.redrive'' longLease) (\<lambda>got.
     require (ID (Task got) = ''t'') ''redriven task not reclaimable''))))))))))))))))))))))"

fun driveAll :: "string \<Rightarrow> string list \<Rightarrow> ('s, unit) kit" where
  "driveAll queue [] = kreturn ()"
| "driveAll queue (tid # ids) = kbind (driveTaskToDLQ tid queue ''boom'') (\<lambda>_. driveAll queue ids)"

text \<open>The paging loop, with the number of pages it may still read: it fails after the eleventh.\<close>

fun pageLoop :: "nat \<Rightarrow> nat \<Rightarrow> cursor \<Rightarrow> ('s, string list) kit" where
  "pageLoop 0 pages cur = Fatal ''pagination did not terminate''"
| "pageLoop (Suc fuel) pages cur =
     kbind (must_get ''DLQList page'' (kDLQList ''q.page'' zero_filter \<lparr>Limit = 2, After = cur\<rparr>)) (\<lambda>(lst, nxt).
     if nxt = [] then kreturn (map ID lst)
     else kbind (if pages = 0 then driveTaskToDLQ ''late'' ''q.page'' ''boom'' else kreturn ()) (\<lambda>_.
       kbind (pageLoop fuel (Suc pages) nxt) (\<lambda>seen. kreturn (map ID lst @ seen))))"

definition contains :: "string list \<Rightarrow> string \<Rightarrow> bool" where
  "contains xs want = list_ex (\<lambda>x. x = want) xs"

fun duplicate_from :: "string list \<Rightarrow> string list \<Rightarrow> string" where
  "duplicate_from seen [] = []"
| "duplicate_from seen (x # xs) = (if x \<in> set seen then x else duplicate_from (x # seen) xs)"

definition firstDuplicate :: "string list \<Rightarrow> string" where
  "firstDuplicate xs = duplicate_from [] xs"

definition testStablePagination :: "('s, unit) kit" where
  "testStablePagination =
     (let original = [''d1'', ''d2'', ''d3'', ''d4'', ''d5''] in
     kbind (driveAll ''q.page'' original) (\<lambda>_.
     kbind (pageLoop 11 0 []) (\<lambda>seen.
     kbind (require (firstDuplicate seen = []) ''id on more than one page'') (\<lambda>_.
     require (list_all (contains seen) original) ''original entry skipped''))))"

text \<open>Every test runs on a fresh store.\<close>

definition fresh :: "'s \<Rightarrow> ('s, 'a) kit \<Rightarrow> ('s, 'a) kit" where
  "fresh factory m clk st w = m clk st (w\<lparr>kStore := factory\<rparr>)"

text \<open>Subtests: a test that ends early ends alone, and the failures of all are collected.\<close>

definition leaf :: "('s, unit) kit \<Rightarrow> ('s, string list) kit" where
  "leaf m = kbind m (\<lambda>_. kreturn [])"

definition t_Run :: "('s, string list) kit \<Rightarrow> ('s, string list) kit" where
  "t_Run m clk st w = (case m clk st w of (Inl e, w1) \<Rightarrow> (Inr [e], w1) | (Inr es, w1) \<Rightarrow> (Inr es, w1))"

fun t_RunAll :: "('s, string list) kit list \<Rightarrow> ('s, string list) kit" where
  "t_RunAll [] = kreturn []"
| "t_RunAll (m # ms) = kbind (t_Run m) (\<lambda>es. kbind (t_RunAll ms) (\<lambda>fs. kreturn (es @ fs)))"

definition testNoDoubleClaim :: "'s \<Rightarrow> nat list \<Rightarrow> ('s, string list) kit" where
  "testNoDoubleClaim factory sched =
     t_RunAll [leaf (fresh factory (testConcurrentExclusivity sched)), leaf (fresh factory testDropWorkerReclaim)]"

text \<open>One fixture of the round-trip test, on a store of its own: only pending envelopes are stored. The result gives the failures of its subtest
  and says whether it was stored and whether it has unknown fields.\<close>

definition storeAndGet :: "string \<Rightarrow> envelope \<Rightarrow> ('s, unit) kit" where
  "storeAndGet want env = kbind (mustEnqueue env) (\<lambda>_. kbind (must_get ''Get'' (kGet (ID env))) (\<lambda>got.
     require (Marshal got = Some want) ''round-trip not byte-stable''))"

definition roundTripOne :: "'s \<Rightarrow> string \<Rightarrow> ('s, string list \<times> bool \<times> bool) kit" where
  "roundTripOne factory want = (case Unmarshal want of
      None \<Rightarrow> Fatal ''Unmarshal fixture''
    | Some env \<Rightarrow>
        if Status env \<noteq> StatusPending then kreturn ([], False, False)
        else kbind (t_Run (leaf (fresh factory (storeAndGet want env)))) (\<lambda>es. kreturn (es, True, Residual env \<noteq> [])))"

fun roundTripAll :: "'s \<Rightarrow> string list \<Rightarrow> ('s, string list \<times> nat \<times> bool) kit" where
  "roundTripAll factory [] = kreturn ([], 0, False)"
| "roundTripAll factory (want # fs) =
     kbind (roundTripOne factory want) (\<lambda>(es, stored, unknown).
     kbind (roundTripAll factory fs) (\<lambda>(es', n, u). kreturn (es @ es', if stored then Suc n else n, unknown \<or> u)))"

definition testLosslessRoundTrip :: "'s \<Rightarrow> string list \<Rightarrow> ('s, string list) kit" where
  "testLosslessRoundTrip factory fixtures =
     kbind (roundTripAll factory fixtures) (\<lambda>(es, covered, sawUnknownFields).
     kbind (require (covered \<noteq> 0) ''no PENDING fixtures exercised'') (\<lambda>_.
     kbind (require sawUnknownFields ''no fixture with unknown top-level fields exercised'') (\<lambda>_. kreturn es)))"

definition Run_kit :: "'s \<Rightarrow> string list \<Rightarrow> nat list \<Rightarrow> ('s, string list) kit" where
  "Run_kit factory fixtures sched = t_RunAll
     [testNoDoubleClaim factory sched, leaf (fresh factory testFencing), leaf (fresh factory testLeaseRecoveryCounts),
      leaf (fresh factory testAtomicTransition), leaf (fresh factory testIdempotentEnqueue), testLosslessRoundTrip factory fixtures,
      leaf (fresh factory testRedriveReset), leaf (fresh factory testStablePagination)]"

section \<open>The golden fixtures\<close>

text \<open>The files of \<open>testdata\<close>, with \<open>!\<close> for the quote and \<open>?\<close> for the backslash.\<close>

definition fixture_char :: "char \<Rightarrow> char" where
  "fixture_char c = (if c = CHR ''!'' then CHR 0x22 else if c = CHR ''?'' then CHR 0x5C else c)"

definition envelope_full :: string where
  "envelope_full = map fixture_char (
     ''{!envelope_version!:1,!id!:!01J2ZK7Q8XW5H3N9G4T6B8RDQ0!,!queue!:!payments.charge!,!handler_ref!:!charge-payment!,!handle'' @
     ''r_version!:!v3!,!payload!:!eyJvcmRlcl9pZCI6IDQyfQ==!,!payload_content_type!:!application/json!,!headers!:{!rdq.source!:!'' @
     ''kafka://payments/3/42351!,!rdq.submitted_by!:!checkout-service!,!traceparent!:!00-4bf9...-01!},!status!:!PENDING!,!attem'' @
     ''pt_count!:2,!redrive_count!:0,!next_attempt_at!:!2026-07-20T14:05:22.117Z!,!lease_expires_at!:null,!created_at!:!2026-07'' @
     ''-20T14:03:22.117Z!,!attempts!:[{!attempt_no!:1,!started_at!:!2026-07-20T14:03:22.200Z!,!finished_at!:!2026-07-20T14:03:2'' @
     ''2.950Z!,!outcome!:!RETRYABLE_FAILURE!,!error!:{!type!:!java.net.SocketTimeoutException!,!message!:!connect timed out aft'' @
     ''er 500ms!,!stack!:!java.net.SocketTimeoutException: connect timed out?n?tat ...!}}]}'')"

definition error_type_go :: string where
  "error_type_go = map fixture_char (
     ''{!envelope_version!:1,!id!:!01J2ZM0000000000000000000A!,!queue!:!billing.invoice!,!handler_ref!:!issue-invoice!,!payload'' @
     ''!:!e30=!,!payload_content_type!:!application/json!,!status!:!DEAD!,!attempt_count!:2,!redrive_count!:1,!next_attempt_at!'' @
     '':null,!lease_expires_at!:null,!created_at!:!2026-07-20T14:00:00.000Z!,!attempts!:[{!attempt_no!:1,!started_at!:!2026-07-'' @
     ''20T14:00:01.000Z!,!finished_at!:!2026-07-20T14:00:01.500Z!,!outcome!:!RETRYABLE_FAILURE!,!error!:{!type!:!billing.CardDe'' @
     ''clined!,!message!:!card declined!,!detail!:{!decline_code!:!insufficient_funds!}}},{!attempt_no!:2,!started_at!:!2026-07'' @
     ''-20T14:01:00.000Z!,!finished_at!:!2026-07-20T14:01:00.250Z!,!outcome!:!PERMANENT_FAILURE!,!error!:{!type!:!*errors.error'' @
     ''String!,!message!:!invoice already finalized!}}]}'')"

definition lease_expired :: string where
  "lease_expired = map fixture_char (
     ''{!envelope_version!:1,!id!:!01J2ZKQP0T4S6V8X0Z2B4D6F8H!,!queue!:!notifications.send!,!handler_ref!:!send-email!,!payload'' @
     ''!:!cGF5bG9hZC1ieXRlcw==!,!payload_content_type!:!application/octet-stream!,!headers!:{!rdq.submitted_by!:!notify-service'' @
     ''!},!status!:!PENDING!,!attempt_count!:2,!redrive_count!:0,!next_attempt_at!:!2026-07-20T14:12:22.117Z!,!lease_expires_at'' @
     ''!:null,!created_at!:!2026-07-20T14:03:22.117Z!,!attempts!:[{!attempt_no!:1,!started_at!:!2026-07-20T14:03:22.200Z!,!fini'' @
     ''shed_at!:!2026-07-20T14:03:22.950Z!,!outcome!:!RETRYABLE_FAILURE!,!error!:{!type!:!*net.OpError!,!message!:!dial tcp 10.'' @
     ''0.0.5:25: i/o timeout!}},{!attempt_no!:2,!started_at!:!2026-07-20T14:05:22.200Z!,!finished_at!:null,!outcome!:!LEASE_EXP'' @
     ''IRED!,!error!:{!type!:!rdq.LeaseExpired!,!message!:!lease expired at 2026-07-20T14:07:22.117Z!}}]}'')"

definition unknown_fields :: string where
  "unknown_fields = map fixture_char (
     ''{!envelope_version!:1,!id!:!01J2ZN0000000000000000000B!,!queue!:!orders.reserve!,!handler_ref!:!reserve-stock!,!payload!'' @
     '':!e30=!,!payload_content_type!:!application/json!,!status!:!PENDING!,!attempt_count!:1,!redrive_count!:0,!next_attempt_a'' @
     ''t!:!2026-07-20T15:00:00.000Z!,!lease_expires_at!:null,!created_at!:!2026-07-20T14:30:00.000Z!,!attempts!:[{!attempt_no!:'' @
     ''1,!started_at!:!2026-07-20T14:30:01.000Z!,!finished_at!:!2026-07-20T14:30:01.250Z!,!outcome!:!RETRYABLE_FAILURE!,!error!'' @
     '':{!type!:!*errors.errorString!,!message!:!insufficient stock!},!future_latency_ms!:142,!trace_flags!:!01!}],!future_prio'' @
     ''rity!:7,!x_experimental!:{!canary!:true}}'')"

definition fixtures :: "string list" where
  "fixtures = [envelope_full, error_type_go, lease_expired, unknown_fields]"

end
