(* ===== verification/Compliance_Props.thy ===== *)
theory Compliance_Props
  imports Compliance Memstore_Contract Memstore_Props Codec_Props "HOL-Library.Code_Target_Nat"
begin

text \<open>
  The in-memory store passes the compliance kit, whatever the readings of the clock as long as they do not go back and the
  claimants finish within their lease, and however the concurrent claimants are scheduled. The tests with a handful of calls are run
  symbolically; the concurrent claimants and the pages of the dead-letter queue by induction over the schedule
  and the pages; the golden fixtures through the round trip of the codec.
\<close>

section \<open>Running a test\<close>

lemmas kit_defs = kbind_def kreturn_def Fatal_def require_def kNow_def kSleep_def kCall_def kEnqueue_def
  kClaimDue_def kExtendLease_def kReschedule_def kComplete_def kDeadLetter_def kGet_def kDLQList_def kRedrive_def
  shortLease_def expireWait_def longLease_def pastDue_def newPendingTask_def retryAttempt_def must_def must_get_def
  mustEnqueue_def mustClaimOne_def driveTaskToDLQ_def stale_def assertStaleToken_def fingerprint_def assertConsistent_def fresh_def

lemmas mem_defs = Enqueue_def ClaimDue_def isDue_def claimRec_def appendAttempt_def leaseExpiredAttempt_def
  resolveClaim_def Reschedule_def Complete_def DeadLetter_def ExtendLease_def Get_def New_def put_def dueOrder_def
  cloneEnvelope_eq cloneAttempt_eq claimLoop.simps leaseExpiredType_def
  DLQList_def dlqMatched_def isDead_def matchFilter_def zero_filter_def decodeCursor_def defaultPageLimit_def Redrive_def
  selectDead_def redriveRec_def


fun chained :: "(nat \<Rightarrow> time) \<Rightarrow> nat \<Rightarrow> nat \<Rightarrow> bool" where
  "chained clk n 0 = True"
| "chained clk n (Suc k) = (clk n \<le> clk (Suc n) \<and> chained clk (Suc n) k)"

lemma mono_chained: "mono clk \<Longrightarrow> chained clk n k"
  by (induction k arbitrary: n) (simp_all add: monoD)

lemma ct1: "claimToken 1 = ''ct-1''" "claimToken 2 = ''ct-2''"
  by code_simp+


lemma testDropWorkerReclaim_passes:
  assumes "mono clk"
  shows "fst (fresh New testDropWorkerReclaim clk memstore w) = Inr ()"
  using mono_chained [OF assms, of "kReads w" "4"]
  by (simp add: testDropWorkerReclaim_def kit_defs mem_defs claimToken_inj ct1 Let_def numeral_eq_Suc dueTasks_def)

lemma testFencing_passes:
  assumes "mono clk"
  shows "fst (fresh New testFencing clk memstore w) = Inr ()"
  using mono_chained [OF assms, of "kReads w" "10"]
  by (simp add: testFencing_def kit_defs mem_defs claimToken_inj ct1 Let_def numeral_eq_Suc dueTasks_def)

lemma testLeaseRecoveryCounts_passes:
  assumes "mono clk"
  shows "fst (fresh New testLeaseRecoveryCounts clk memstore w) = Inr ()"
  using mono_chained [OF assms, of "kReads w" "4"]
  by (simp add: testLeaseRecoveryCounts_def kit_defs mem_defs claimToken_inj ct1 Let_def numeral_eq_Suc dueTasks_def)

lemma testAtomicTransition_passes:
  assumes "mono clk"
  shows "fst (fresh New testAtomicTransition clk memstore w) = Inr ()"
  using mono_chained [OF assms, of "kReads w" "14"]
  by (simp add: testAtomicTransition_def kit_defs mem_defs claimToken_inj ct1 Let_def numeral_eq_Suc dueTasks_def)

lemma testIdempotentEnqueue_passes:
  assumes "mono clk"
  shows "fst (fresh New testIdempotentEnqueue clk memstore w) = Inr ()"
  using mono_chained [OF assms, of "kReads w" "8"]
  by (simp add: testIdempotentEnqueue_def kit_defs mem_defs claimToken_inj ct1 Let_def numeral_eq_Suc dueTasks_def)

lemma testRedriveReset_passes:
  assumes "mono clk"
  shows "fst (fresh New testRedriveReset clk memstore w) = Inr ()"
  using mono_chained [OF assms, of "kReads w" "12"]
  by (simp add: testRedriveReset_def kit_defs mem_defs claimToken_inj ct1 Let_def numeral_eq_Suc dueTasks_def)


section \<open>Paging\<close>

definition dlq_holds :: "string \<Rightarrow> string list \<Rightarrow> store \<Rightarrow> bool" where
  "dlq_holds q ids s \<longleftrightarrow> map fst (tasks s) = ids \<and> distinct ids \<and> dlqSeq s = of_nat (length ids) \<and>
     (\<forall>i < length ids. isDead q (snd (tasks s ! i)) \<and> rdlqSeq (snd (tasks s ! i)) = of_nat (Suc i) \<and> ID (env (snd (tasks s ! i))) = ids ! i)"

lemma dlq_holds_dead:
  assumes "dlq_holds q ids s" "(k, r) \<in> set (tasks s)"
  shows "Status (env r) = StatusDead"
  using assms by (fastforce simp: dlq_holds_def isDead_def in_set_conv_nth)

lemma dlq_holds_not_due: "dlq_holds q ids s \<Longrightarrow> filter (\<lambda>(k, r). Queue (env r) = q \<and> isDue r t) (tasks s) = []"
  using dlq_holds_dead by (fastforce simp: filter_empty_conv isDue_def)

lemma dlq_holds_keys: "dlq_holds q ids s \<Longrightarrow> fst ` set (tasks s) = set ids"
  by (metis set_map dlq_holds_def)

lemma dlq_holds_fresh: "dlq_holds q ids s \<Longrightarrow> tid \<notin> set ids \<Longrightarrow> lookup s tid = None"
  by (simp add: map_of_eq_None_iff dlq_holds_keys)

lemma update_new: "k \<notin> fst ` set xs \<Longrightarrow> AList.update k v xs = xs @ [(k, v)]"
  by (induction xs) auto

lemma update_last: "k \<notin> fst ` set xs \<Longrightarrow> AList.update k v (xs @ [(k, u)]) = xs @ [(k, v)]"
  by (induction xs) auto

lemma dlq_holds_due:
  assumes "dlq_holds q ids s"
  shows "dueTasks (s\<lparr>tasks := tasks s @ [(k, r)]\<rparr>) q t = (if Queue (env r) = q \<and> isDue r t then [(k, r)] else [])"
  using dlq_holds_not_due [OF assms, of t] by (simp add: dueTasks_def)

lemma driveTaskToDLQ_spec:
  assumes "mono clk" "dlq_holds q ids (kStore w)" "tid \<notin> set ids"
  shows "fst (driveTaskToDLQ tid q e clk memstore w) = Inr ()"
    and "dlq_holds q (ids @ [tid]) (kStore (snd (driveTaskToDLQ tid q e clk memstore w)))"
proof -
  have k: "tid \<notin> fst ` set (tasks (kStore w))" using assms dlq_holds_keys by auto
  then have k': "(tid, r) \<notin> set (tasks (kStore w))" for r by (metis fst_conv image_eqI)
  note new = dlq_holds_fresh [OF assms(2,3)] and due = dlq_holds_due [OF assms(2)]
  note run = mono_chained [OF assms(1), of "kReads w" 4] assms(2,3)
  note eval = kit_defs mem_defs claimToken_inj numeral_eq_Suc new due update_new update_last map_of_append map_add_def k Let_def
  show "fst (driveTaskToDLQ tid q e clk memstore w) = Inr ()"
    using run by (simp add: eval)
  show "dlq_holds q (ids @ [tid]) (kStore (snd (driveTaskToDLQ tid q e clk memstore w)))"
    using run by (simp add: eval) (auto simp: dlq_holds_def isDead_def nth_append less_Suc_eq k')
qed

lemma filter_none_nth: "(\<And>i. i < length xs \<Longrightarrow> \<not> P (xs ! i)) \<Longrightarrow> filter P xs = []"
  by (auto simp: filter_empty_conv in_set_conv_nth)

lemma filter_all_nth: "(\<And>i. i < length xs \<Longrightarrow> P (xs ! i)) \<Longrightarrow> filter P xs = xs"
  by (auto simp: filter_id_conv in_set_conv_nth)

lemma dlqMatched_suffix:
  assumes "dlq_holds q ids s" "length ids < 2 ^ 63" "n \<le> length ids"
  shows "dlqMatched s q zero_filter (of_nat n) = drop n (tasks s)"
proof -
  let ?P = "\<lambda>(k, r). isDead q r \<and> \<not> rdlqSeq r \<le> of_nat n \<and> matchFilter r zero_filter"
  have len: "length (tasks s) = length ids" using assms(1) by (auto simp: dlq_holds_def)
  have word: "(of_nat a :: 64 word) \<le> of_nat b \<longleftrightarrow> a \<le> b" if "a < 2 ^ 64" "b < 2 ^ 64" for a b
    using that by (simp add: word_le_nat_alt unat_of_nat)
  have seq: "rdlqSeq (snd (tasks s ! i)) = of_nat (Suc i)" "isDead q (snd (tasks s ! i))" if "i < length (tasks s)" for i
    using assms(1) that len by (simp_all add: dlq_holds_def)
  have P: "?P (tasks s ! i) \<longleftrightarrow> n \<le> i" if "i < length (tasks s)" for i
  proof -
    have "\<not> (of_nat (Suc i) :: 64 word) \<le> of_nat n \<longleftrightarrow> n \<le> i"
      using assms that len by (subst word) auto
    then show ?thesis using seq [OF that] by (simp add: case_prod_beta matchFilter_def zero_filter_def)
  qed
  have "filter ?P (take n (tasks s)) = []" "filter ?P (drop n (tasks s)) = drop n (tasks s)"
    using filter_none_nth [of "take n (tasks s)" ?P] filter_all_nth [of "drop n (tasks s)" ?P] P assms(3) len by simp_all
  then have "filter ?P (take n (tasks s) @ drop n (tasks s)) = drop n (tasks s)"
    by (simp only: filter_append append_Nil)
  then have f: "filter ?P (tasks s) = drop n (tasks s)"
    by (simp only: append_take_drop_id)
  have "sorted (map (\<lambda>(k, r). rdlqSeq r) (drop n (tasks s)))"
  proof (rule sorted_iff_nth_mono [THEN iffD2], intro allI impI)
    fix i j assume "i \<le> j" "j < length (map (\<lambda>(k, r). rdlqSeq r) (drop n (tasks s)))"
    moreover from this have "(of_nat (Suc (n + i)) :: 64 word) \<le> of_nat (Suc (n + j))"
      using assms len by (subst word) auto
    ultimately show "map (\<lambda>(k, r). rdlqSeq r) (drop n (tasks s)) ! i \<le> map (\<lambda>(k, r). rdlqSeq r) (drop n (tasks s)) ! j"
      using len assms(3) seq by (simp add: case_prod_beta)
  qed
  then show ?thesis by (simp add: dlqMatched_def f sort_key_id_if_sorted)
qed

lemma DLQList_page:
  assumes "dlq_holds q ids s" "length ids < 2 ^ 63" "decodeCursor cur = Inr (of_nat n)" "n \<le> length ids"
  shows "\<exists>es. DLQList s q zero_filter \<lparr>Limit = 2, After = cur\<rparr> =
      Inr (es, if n + 2 < length ids then encodeCursor (of_nat (n + 2)) else []) \<and> map ID es = take 2 (drop n ids)"
proof -
  have len: "length (tasks s) = length ids" and ids: "map (\<lambda>x. ID (env (snd x))) (tasks s) = ids"
    using assms(1) by (auto simp: dlq_holds_def intro: nth_equalityI)
  have "rdlqSeq (snd (last (take 2 (drop n (tasks s))))) = of_nat (n + 2)" if "n + 2 < length ids"
  proof -
    have "last (take 2 (drop n (tasks s))) = tasks s ! (n + 1)"
      using that len by (simp add: last_conv_nth)
    then show ?thesis using assms(1) that by (simp add: dlq_holds_def)
  qed
  note nxt = this
  define es where "es = map (\<lambda>(k, r). (env r)\<lparr>Attempts := []\<rparr>) (take 2 (drop n (tasks s)))"
  have "map ID es = take 2 (drop n ids)"
    by (simp add: es_def comp_def case_prod_beta take_map drop_map flip: ids)
  moreover have "DLQList s q zero_filter \<lparr>Limit = 2, After = cur\<rparr> = Inr (es, if n + 2 < length ids then encodeCursor (of_nat (n + 2)) else [])"
    using nxt len dlqMatched_suffix [OF assms(1,2,4)] assms(3)
    by (cases "n + 2 < length ids") (auto simp: DLQList_def Let_def es_def cloneEnvelope_eq zero_filter_def)
  ultimately show ?thesis by blast
qed


lemma kbind_Inr: "m clk st w = (Inr x, w') \<Longrightarrow> kbind m f clk st w = f x clk st w'"
  by (simp add: kbind_def)

lemma driveAll_spec:
  assumes "mono clk" "dlq_holds q ids (kStore w)" "distinct (ids @ new)"
  shows "\<exists>w'. driveAll q new clk memstore w = (Inr (), w') \<and> dlq_holds q (ids @ new) (kStore w')"
  using assms(2,3)
proof (induction new arbitrary: ids w)
  case Nil
  then show ?case by (simp add: kreturn_def)
next
  case (Cons tid new)
  then have "tid \<notin> set ids" by simp
  note d = driveTaskToDLQ_spec [OF assms(1) Cons.prems(1) this]
  obtain w1 where w1: "driveTaskToDLQ tid q ''boom'' clk memstore w = (Inr (), w1)" "dlq_holds q (ids @ [tid]) (kStore w1)"
    using d [of "''boom''"] by (cases "driveTaskToDLQ tid q ''boom'' clk memstore w") auto
  then show ?case
    using Cons.IH [of "ids @ [tid]" w1] Cons.prems(2) by (simp add: kbind_Inr)
qed

lemma page_call:
  assumes "dlq_holds ''q.page'' ids (kStore w)" "length ids < 2 ^ 63" "decodeCursor cur = Inr (of_nat n)" "n \<le> length ids"
  shows "\<exists>es. must_get msg (kDLQList ''q.page'' zero_filter \<lparr>Limit = 2, After = cur\<rparr>) clk memstore w =
      (Inr (es, if n + 2 < length ids then encodeCursor (of_nat (n + 2)) else []), w) \<and> map ID es = take 2 (drop n ids)"
  using DLQList_page [OF assms] by (auto simp: must_get_def kbind_def kDLQList_def kCall_def kreturn_def)

text \<open>The pages of a queue to which nothing is added.\<close>

lemma pageLoop_rest:
  assumes "dlq_holds ''q.page'' ids (kStore w)" "length ids < 2 ^ 63" "decodeCursor cur = Inr (of_nat n)" "n \<le> length ids"
    "length ids \<le> n + 2 * fuel" "0 < fuel" "0 < pages"
  shows "pageLoop fuel pages cur clk memstore w = (Inr (drop n ids), w)"
  using assms
proof (induction fuel arbitrary: n pages cur)
  case (Suc fuel)
  obtain es where es: "must_get ''DLQList page'' (kDLQList ''q.page'' zero_filter \<lparr>Limit = 2, After = cur\<rparr>) clk memstore w =
      (Inr (es, if n + 2 < length ids then encodeCursor (of_nat (n + 2)) else []), w)" "map ID es = take 2 (drop n ids)"
    using page_call Suc.prems(1-4) by blast
  show ?case
  proof (cases "n + 2 < length ids")
    case True
    then have "pageLoop fuel (Suc pages) (encodeCursor (of_nat (n + 2))) clk memstore w = (Inr (drop (n + 2) ids), w)"
      using Suc.prems by (intro Suc.IH) (auto simp: decode_encodeCursor)
    moreover have "take 2 (drop n ids) @ drop (n + 2) ids = drop n ids"
      by (metis append_take_drop_id drop_drop add.commute)
    ultimately show ?thesis
      using True es Suc.prems(7) by (simp add: kbind_def kreturn_def encodeCursor_nonempty)
  next
    case False
    then show ?thesis using es by (simp add: kbind_def kreturn_def)
  qed
qed simp

lemma testStablePagination_passes:
  assumes "mono clk"
  shows "fst (fresh New testStablePagination clk memstore w) = Inr ()"
proof -
  let ?ids = "[''d1'', ''d2'', ''d3'', ''d4'', ''d5'']" and ?w0 = "w\<lparr>kStore := New\<rparr>"
  have "dlq_holds ''q.page'' [] (kStore ?w0)" by (simp add: dlq_holds_def New_def)
  from driveAll_spec [OF assms this, of ?ids]
  obtain w1 where w1: "driveAll ''q.page'' ?ids clk memstore ?w0 = (Inr (), w1)" "dlq_holds ''q.page'' ?ids (kStore w1)"
    by auto
  obtain es where es: "must_get ''DLQList page'' (kDLQList ''q.page'' zero_filter \<lparr>Limit = 2, After = []\<rparr>) clk memstore w1 =
      (Inr (es, encodeCursor 2), w1)" "map ID es = [''d1'', ''d2'']"
    using page_call [OF w1(2), of "[]" 0 "''DLQList page''" clk] by (auto simp: decodeCursor_def)
  obtain w2 where w2: "driveTaskToDLQ ''late'' ''q.page'' ''boom'' clk memstore w1 = (Inr (), w2)"
      "dlq_holds ''q.page'' (?ids @ [''late'']) (kStore w2)"
    using driveTaskToDLQ_spec [OF assms w1(2), of "''late''" "''boom''"] by (cases "driveTaskToDLQ ''late'' ''q.page'' ''boom'' clk memstore w1") auto
  have rest: "pageLoop 10 1 (encodeCursor 2) clk memstore w2 = (Inr [''d3'', ''d4'', ''d5'', ''late''], w2)"
    using pageLoop_rest [OF w2(2), of "encodeCursor 2" 2 10 1] by (simp add: decode_encodeCursor)
  have "pageLoop 11 0 [] clk memstore w1 = (Inr (?ids @ [''late'']), w2)"
    using es w2(1) rest pageLoop.simps(2) [where ?'s = store, of 10 0 "[]"] by (simp add: kbind_def kreturn_def encodeCursor_nonempty)
  then show ?thesis
    using w1(1) by (simp add: testStablePagination_def fresh_def kbind_Inr require_def kreturn_def kbind_def firstDuplicate_def contains_def)
qed


section \<open>Concurrent claimants\<close>

text \<open>The tasks \<open>P\<close> are pending and due by \<open>lo\<close>, the tasks \<open>F\<close> are leased beyond \<open>hi\<close>, and \<open>m\<close> tokens have been handed out.\<close>

definition claim_split :: "string \<Rightarrow> time \<Rightarrow> time \<Rightarrow> string set \<Rightarrow> nat \<Rightarrow> store \<Rightarrow> bool" where
  "claim_split q lo hi P m s \<longleftrightarrow> distinct (map fst (tasks s)) \<and> claimSeq s = of_nat m \<and> P \<subseteq> fst ` set (tasks s) \<and>
     (\<forall>(k, r) \<in> set (tasks s). ID (env r) = k \<and> Queue (env r) = q \<and>
        (if k \<in> P then Status (env r) = StatusPending \<and> (\<exists>t \<le> lo. NextAttemptAt (env r) = Some t)
         else Status (env r) = StatusInFlight \<and> (\<exists>t > hi. LeaseExpiresAt (env r) = Some t)))"

lemma claim_split_due:
  assumes "claim_split q lo hi P m s" "lo \<le> t" "t \<le> hi"
  shows "mset (dueTasks s q t) = mset (filter (\<lambda>(k, r). k \<in> P) (tasks s))"
proof -
  have "filter (\<lambda>(k, r). Queue (env r) = q \<and> isDue r t) (tasks s) = filter (\<lambda>(k, r). k \<in> P) (tasks s)"
  proof (rule filter_cong, simp, clarsimp)
    fix k r assume "(k, r) \<in> set (tasks s)"
    then have "Queue (env r) = q \<and>
        (if k \<in> P then Status (env r) = StatusPending \<and> (\<exists>t \<le> lo. NextAttemptAt (env r) = Some t)
         else Status (env r) = StatusInFlight \<and> (\<exists>t > hi. LeaseExpiresAt (env r) = Some t))"
      using assms(1) by (auto simp: claim_split_def)
    then show "(Queue (env r) = q \<and> isDue r t) = (k \<in> P)" using assms(2,3) by (auto simp: isDue_def split: if_splits)
  qed
  then show ?thesis by (simp add: dueTasks_def)
qed

lemma claim_split_none:
  assumes "claim_split q lo hi {} m s" "lo \<le> t" "t \<le> hi"
  shows "ClaimDue t s q 1 l = (Inr [], s)"
  using claim_split_due [OF assms] by (simp add: ClaimDue_def claimLoop.simps)

lemma set_update_distinct:
  "distinct (map fst xs) \<Longrightarrow> set (AList.update k v xs) = insert (k, v) {x \<in> set xs. fst x \<noteq> k}"
  by (induction xs) (auto simp: image_iff)

lemma claim_split_step:
  assumes "claim_split q lo hi P m s" "lo \<le> t" "t \<le> hi" "P \<noteq> {}" "hi < t + l"
  shows "\<exists>k c s'. ClaimDue t s q 1 l = (Inr [c], s') \<and> k \<in> P \<and> ID (Task c) = k \<and> Status (Task c) = StatusInFlight \<and>
           Token c = claimToken (of_nat (Suc m)) \<and> claim_split q lo hi (P - {k}) (Suc m) s'"
proof -
  have "filter (\<lambda>(k, r). k \<in> P) (tasks s) \<noteq> []"
    using assms(1,4) by (fastforce simp: claim_split_def filter_empty_conv)
  then obtain k r due where due: "dueTasks s q t = (k, r) # due"
    using claim_split_due [OF assms(1-3)] by (metis mset_zero_iff neq_Nil_conv surj_pair)
  then have "(k, r) \<in> set (filter (\<lambda>(k, r). k \<in> P) (tasks s))"
    using claim_split_due [OF assms(1-3)] by (metis list.set_intros(1) set_mset_mset)
  then have kr: "(k, r) \<in> set (tasks s)" "k \<in> P" by auto
  then have r: "ID (env r) = k" "Queue (env r) = q" "Status (env r) = StatusPending"
    using assms(1) by (auto simp: claim_split_def)
  define s' where "s' = put (s\<lparr>claimSeq := claimSeq s + 1\<rparr>) k (claimRec t l (claimToken (claimSeq s + 1)) r)"
  have "ClaimDue t s q 1 l = (Inr [\<lparr>Task = env (claimRec t l (claimToken (claimSeq s + 1)) r), Token = claimToken (claimSeq s + 1)\<rparr>], s')"
    using due by (auto simp: ClaimDue_def claimLoop.simps Let_def s'_def cloneEnvelope_eq)
  moreover have "claimSeq s + 1 = of_nat (Suc m)" using assms(1) by (simp add: claim_split_def)
  moreover have "claim_split q lo hi (P - {k}) (Suc m) s'"
  proof -
    note upd = set_update_distinct [of "tasks s" k]
    have keys: "fst ` set (AList.update k v (tasks s)) = fst ` set (tasks s)" for v
      using kr(1) by (force simp: dom_update)
    have "distinct (map fst (AList.update k v (tasks s)))" for v using assms(1) by (simp add: claim_split_def distinct_update)
    then show ?thesis
      using assms(1,5) r by (auto simp: claim_split_def s'_def put_def upd keys claimRec_def Let_def)
  qed
  ultimately show ?thesis using kr r by (auto simp: claimRec_def)
qed


lemma claim_split_new:
  assumes "claim_split q lo hi P m s" "k \<notin> fst ` set (tasks s)" "ID (env r) = k" "Queue (env r) = q"
    "Status (env r) = StatusPending" "NextAttemptAt (env r) = Some t" "t \<le> lo"
  shows "claim_split q lo hi (insert k P) m (s\<lparr>tasks := tasks s @ [(k, r)]\<rparr>)"
proof -
  have "(k, r') \<notin> set (tasks s)" for r' using assms(2) by (metis fst_conv image_eqI)
  then show ?thesis using assms(1,3-7) by (auto simp: claim_split_def)
qed

lemma enqueueAll_spec:
  assumes "mono clk"
  shows "claim_split q lo hi P m (kStore w) \<Longrightarrow> distinct ids \<Longrightarrow> set ids \<inter> fst ` set (tasks (kStore w)) = {} \<Longrightarrow>
    clk (kReads w + length ids) + kSlept w \<le> lo \<Longrightarrow>
    \<exists>w'. enqueueAll q ids clk memstore w = (Inr (), w') \<and> claim_split q lo hi (P \<union> set ids) m (kStore w') \<and>
      kReads w' = kReads w + length ids \<and> kSlept w' = kSlept w"
proof (induction ids arbitrary: w P)
  case Nil
  then show ?case by (simp add: kreturn_def)
next
  case (Cons tid ids)
  have "clk (kReads w) \<le> clk (kReads w + length (tid # ids))" using assms by (simp add: monoD)
  then have due: "clk (kReads w) + kSlept w - 1000000000 \<le> lo" using Cons.prems(4) by simp
  have new: "tid \<notin> fst ` set (tasks (kStore w))" using Cons.prems(3) by auto
  then have l: "lookup (kStore w) tid = None" by (simp add: map_of_eq_None_iff)
  obtain w1 where w1: "kbind (newPendingTask tid q) mustEnqueue clk memstore w = (Inr (), w1)" "kReads w1 = Suc (kReads w)"
      "kSlept w1 = kSlept w" "claim_split q lo hi (insert tid P) m (kStore w1)" "fst ` set (tasks (kStore w1)) = insert tid (fst ` set (tasks (kStore w)))"
  proof
    let ?w1 = "snd (kbind (newPendingTask tid q) mustEnqueue clk memstore w)"
    note eval = kit_defs Enqueue_def l put_def update_new [OF new]
    show "kbind (newPendingTask tid q) mustEnqueue clk memstore w = (Inr (), ?w1)" "kReads ?w1 = Suc (kReads w)"
      "kSlept ?w1 = kSlept w" "fst ` set (tasks (kStore ?w1)) = insert tid (fst ` set (tasks (kStore w)))"
      by (simp_all add: eval)
    show "claim_split q lo hi (insert tid P) m (kStore ?w1)"
      using claim_split_new [OF Cons.prems(1) new] due by (simp add: eval cloneEnvelope_eq)
  qed
  have "enqueueAll q (tid # ids) clk memstore w = enqueueAll q ids clk memstore w1"
    using w1(1) by (auto simp: kbind_def split: prod.splits sum.splits)
  then show ?case
    using Cons.IH [OF w1(4)] Cons.prems w1 by auto
qed

lemma claimants_turn:
  assumes "i \<in> set running" "ClaimDue (clk (kReads w) + kSlept w) (kStore w) q 1 longLease = (Inr cs, s)"
  shows "claimants q (i # sched) running clk memstore w =
    (if cs = [] then claimants q sched (removeAll i running) else kbind (claimants q sched running) (\<lambda>(ds, r). kreturn (cs @ ds, r)))
      clk memstore (w\<lparr>kReads := Suc (kReads w), kStore := s\<rparr>)"
  using assms by (simp add: must_get_def kClaimDue_def kbind_def kNow_def kCall_def kreturn_def)

lemma claimants_spec:
  assumes "mono clk" "hi < lo + longLease"
  shows "claim_split q lo hi P m (kStore w) \<Longrightarrow> lo \<le> clk (kReads w) + kSlept w \<Longrightarrow>
    clk (kReads w + length sched) + kSlept w \<le> hi \<Longrightarrow> \<forall>i \<in> set running. card P < count_list sched i \<Longrightarrow>
    \<exists>cs w'. claimants q sched running clk memstore w = (Inr (cs, []), w') \<and> list_all (\<lambda>c. Status (Task c) = StatusInFlight) cs \<and>
      distinct (map (ID \<circ> Task) cs) \<and> set (map (ID \<circ> Task) cs) \<subseteq> P \<and> (running \<noteq> [] \<longrightarrow> P \<subseteq> set (map (ID \<circ> Task) cs)) \<and>
      map Token cs = map (\<lambda>i. claimToken (of_nat i)) [Suc m..<Suc m + length cs]"
proof (induction sched arbitrary: w P m running)
  case Nil
  then have "running = []" by (cases running) auto
  then show ?case by (simp add: kreturn_def)
next
  case (Cons i sched)
  let ?t = "clk (kReads w) + kSlept w"
  have le: "clk (kReads w) \<le> clk (Suc (kReads w))" "clk (kReads w) \<le> clk (kReads w + length (i # sched))"
    using assms(1) by (simp_all add: monoD)
  then have t: "lo \<le> ?t" "?t \<le> hi" "hi < ?t + longLease" using Cons.prems(2,3) assms(2) by auto
  show ?case
  proof (cases "i \<in> set running")
    case False
    have "clk (kReads w + length sched) \<le> clk (kReads w + length (i # sched))" using assms(1) by (simp add: monoD)
    moreover have "\<forall>j \<in> set running. card P < count_list sched j" using Cons.prems(4) False by (auto split: if_splits)
    ultimately show ?thesis using Cons.IH [OF Cons.prems(1,2)] Cons.prems(3) False by simp
  next
    case i: True
    show ?thesis
    proof (cases "P = {}")
      case True
      let ?w = "w\<lparr>kReads := Suc (kReads w), kStore := kStore w\<rparr>"
      have "claim_split q lo hi {} m (kStore w)" using Cons.prems(1) True by simp
      note none = claim_split_none [OF this t(1,2), of longLease]
      have "claimants q (i # sched) running clk memstore w = claimants q sched (removeAll i running) clk memstore ?w"
        by (simp add: claimants_turn [where clk = clk, OF i none] del: claimants.simps)
      moreover have "\<forall>j \<in> set (removeAll i running). card P < count_list sched j" using Cons.prems(4) by (force split: if_splits)
      ultimately show ?thesis
        using Cons.IH [of P m ?w "removeAll i running"] Cons.prems le(1) True by auto
    next
      case False
      obtain k c s' where c: "ClaimDue ?t (kStore w) q 1 longLease = (Inr [c], s')" "k \<in> P" "ID (Task c) = k" "Status (Task c) = StatusInFlight"
          "Token c = claimToken (of_nat (Suc m))" "claim_split q lo hi (P - {k}) (Suc m) s'"
        using claim_split_step [OF Cons.prems(1) t(1,2) False t(3)] by blast
      let ?w = "w\<lparr>kReads := Suc (kReads w), kStore := s'\<rparr>"
      have "finite P" using Cons.prems(1) finite_subset by (fastforce simp: claim_split_def)
      then have card: "card P = Suc (card (P - {k}))" using c(2) by (metis card_Suc_Diff1)
      then have later: "\<forall>j \<in> set running. card (P - {k}) < count_list sched j" "claim_split q lo hi (P - {k}) (Suc m) (kStore ?w)"
          "lo \<le> clk (kReads ?w) + kSlept ?w" "clk (kReads ?w + length sched) + kSlept ?w \<le> hi"
        using Cons.prems(2-4) c(6) le(1) by (auto split: if_splits)
      then obtain cs w' where IH: "claimants q sched running clk memstore ?w = (Inr (cs, []), w')" "list_all (\<lambda>c. Status (Task c) = StatusInFlight) cs"
          "distinct (map (ID \<circ> Task) cs)" "set (map (ID \<circ> Task) cs) \<subseteq> P - {k}" "running \<noteq> [] \<longrightarrow> P - {k} \<subseteq> set (map (ID \<circ> Task) cs)"
          "map Token cs = map (\<lambda>i. claimToken (of_nat i)) [Suc (Suc m)..<Suc (Suc m) + length cs]"
        using Cons.IH [of "P - {k}" "Suc m" ?w running] later by blast
      have "claimants q (i # sched) running clk memstore w = (Inr (c # cs, []), w')"
        using IH(1) by (simp add: claimants_turn [where clk = clk, OF i c(1)] kbind_def kreturn_def del: claimants.simps)
      moreover have "map Token (c # cs) = map (\<lambda>i. claimToken (of_nat i)) [Suc m..<Suc m + length (c # cs)]"
      proof -
        have "[Suc m..<Suc m + length (c # cs)] = Suc m # [Suc (Suc m)..<Suc (Suc m) + length cs]"
          by (simp add: upt_conv_Cons del: upt_Suc)
        then show ?thesis by (simp only: list.map IH(6) c(5))
      qed
      moreover have "distinct (map (ID \<circ> Task) (c # cs))" "set (map (ID \<circ> Task) (c # cs)) \<subseteq> P"
          "running \<noteq> [] \<longrightarrow> P \<subseteq> set (map (ID \<circ> Task) (c # cs))" "list_all (\<lambda>c. Status (Task c) = StatusInFlight) (c # cs)"
        using IH(2-5) c(2-4) by auto
      ultimately show ?thesis by blast
    qed
  qed
qed


lemma digits3_val: "a < 1000 \<Longrightarrow> 100 * (a div 100 mod 10) + 10 * (a div 10 mod 10) + a mod 10 = (a :: nat)"
proof -
  assume "a < 1000"
  then have "a div 100 mod 10 = a div 10 div 10" by (simp add: less_mult_imp_div_less flip: div_mult2_eq)
  then show ?thesis using div_mult_mod_eq [of a 10] div_mult_mod_eq [of "a div 10" 10] by linarith
qed

lemma digits3_inj:
  assumes "a < 1000" "b < 1000"
  shows "digits3 a = digits3 b \<longleftrightarrow> a = b"
proof
  have d: "digit_char x = digit_char y \<longleftrightarrow> x = y" if "x < 10" "y < 10" for x y
    using that by (metis digit_val_digit_char option.inject)
  assume "digits3 a = digits3 b"
  then have "a div 100 mod 10 = b div 100 mod 10" "a div 10 mod 10 = b div 10 mod 10" "a mod 10 = b mod 10"
    by (simp_all add: digits3_def d)
  then show "a = b" using digits3_val [OF assms(1)] digits3_val [OF assms(2)] by metis
qed simp

lemma claim_tokens_distinct: "m + n < 2 ^ 64 \<Longrightarrow> distinct (map (\<lambda>i. claimToken (of_nat i)) [m..<m + n])"
  by (auto simp: distinct_map inj_on_def claimToken_inj word_unat_eq_iff unat_of_nat)

lemma testConcurrentExclusivity_passes:
  assumes "mono clk" "\<forall>i < 8. 200 < count_list sched i" "clk (kReads w + 200 + length sched) < clk (kReads w + 200) + longLease"
  shows "fst (fresh New (testConcurrentExclusivity sched) clk memstore w) = Inr ()"
proof -
  let ?ids = "map (\<lambda>n. CHR ''t'' # digits3 n) [0..<200]" and ?w0 = "w\<lparr>kStore := New\<rparr>"
  let ?lo = "clk (kReads w + 200) + kSlept w" and ?hi = "clk (kReads w + 200 + length sched) + kSlept w"
  have len: "length ?ids = 200" by simp
  have d: "distinct ?ids" by (auto simp: distinct_map inj_on_def digits3_inj)
  have card: "card (set ?ids) = 200" using distinct_card [OF d] len by simp
  have "claim_split ''q.claims'' ?lo ?hi {} 0 (kStore ?w0)" by (simp add: claim_split_def New_def)
  then obtain w1 where w1: "enqueueAll ''q.claims'' ?ids clk memstore ?w0 = (Inr (), w1)" "claim_split ''q.claims'' ?lo ?hi (set ?ids) 0 (kStore w1)"
      "kReads w1 = kReads w + 200" "kSlept w1 = kSlept w"
    using enqueueAll_spec [OF assms(1) _ d, of "''q.claims''" ?lo ?hi "{}" 0 ?w0] by (auto simp: New_def)
  have "?hi < ?lo + longLease" using assms(3) by simp
  from claimants_spec [OF assms(1) this w1(2), of sched "[0..<8]"]
  obtain cs w2 where c: "claimants ''q.claims'' sched [0..<8] clk memstore w1 = (Inr (cs, []), w2)"
      "list_all (\<lambda>c. Status (Task c) = StatusInFlight) cs" "distinct (map (ID \<circ> Task) cs)" "set (map (ID \<circ> Task) cs) = set ?ids"
      "map Token cs = map (\<lambda>i. claimToken (of_nat i)) [Suc 0..<Suc 0 + length cs]"
    unfolding card using w1(3,4) assms(2) by auto
  have n: "length cs = 200" using distinct_card [OF c(3)] c(4) card by (metis length_map)
  then have tok: "distinct (map Token cs)" using claim_tokens_distinct [of 1 200] c(5) by simp
  have "length (remdups (map (ID \<circ> Task) cs)) = 200" "length (remdups (map Token cs)) = 200"
    by (simp_all only: distinct_remdups_id [OF c(3)] distinct_remdups_id [OF tok] length_map n)
  then show ?thesis
    using w1(1) c(1-3) tok
    by (simp add: testConcurrentExclusivity_def fresh_def kbind_Inr require_def kreturn_def kbind_def)
qed

section \<open>Golden fixtures\<close>

definition envelope_full_task :: envelope where
  "envelope_full_task = \<lparr>EnvelopeVersion = 1, ID = ''01J2ZK7Q8XW5H3N9G4T6B8RDQ0'', Queue = ''payments.charge'', HandlerRef = ''charge-payment'', HandlerVersion = ''v3'',
      Payload = Some (''{'' @ [CHR 0x22] @ ''order_id'' @ [CHR 0x22] @ '': 42}''), PayloadContentType = ''application/json'', PayloadRef = None,
      Headers = [(''rdq.source'', ''kafka://payments/3/42351''), (''rdq.submitted_by'', ''checkout-service''), (''traceparent'', ''00-4bf9...-01'')],
      Status = StatusPending, AttemptCount = 2, RedriveCount = 0, NextAttemptAt = Some 1784556322117000000, LeaseExpiresAt = None, CreatedAt = 1784556202117000000,
      Attempts = [\<lparr>AttemptNo = 1, StartedAt = 1784556202200000000, FinishedAt = Some 1784556202950000000, Outcome = ''RETRYABLE_FAILURE'',
        Err = Some \<lparr>ErrType = ''java.net.SocketTimeoutException'', Message = ''connect timed out after 500ms'', Detail = None, Stack = ''java.net.SocketTimeoutException: connect timed out'' @ [CHR 0x0A] @ [CHR 0x09] @ ''at ...''\<rparr>,
        AResidual = []\<rparr>],
      Residual = []\<rparr>"

definition error_type_go_task :: envelope where
  "error_type_go_task = \<lparr>EnvelopeVersion = 1, ID = ''01J2ZM0000000000000000000A'', Queue = ''billing.invoice'', HandlerRef = ''issue-invoice'', HandlerVersion = [],
      Payload = Some (''{}''), PayloadContentType = ''application/json'', PayloadRef = None,
      Headers = [],
      Status = StatusDead, AttemptCount = 2, RedriveCount = 1, NextAttemptAt = None, LeaseExpiresAt = None, CreatedAt = 1784556000000000000,
      Attempts = [\<lparr>AttemptNo = 1, StartedAt = 1784556001000000000, FinishedAt = Some 1784556001500000000, Outcome = ''RETRYABLE_FAILURE'',
        Err = Some \<lparr>ErrType = ''billing.CardDeclined'', Message = ''card declined'', Detail = Some (''{'' @ [CHR 0x22] @ ''decline_code'' @ [CHR 0x22] @ '':'' @ [CHR 0x22] @ ''insufficient_funds'' @ [CHR 0x22] @ ''}''), Stack = []\<rparr>,
        AResidual = []\<rparr>,
      \<lparr>AttemptNo = 2, StartedAt = 1784556060000000000, FinishedAt = Some 1784556060250000000, Outcome = ''PERMANENT_FAILURE'',
        Err = Some \<lparr>ErrType = ''*errors.errorString'', Message = ''invoice already finalized'', Detail = None, Stack = []\<rparr>,
        AResidual = []\<rparr>],
      Residual = []\<rparr>"

definition lease_expired_task :: envelope where
  "lease_expired_task = \<lparr>EnvelopeVersion = 1, ID = ''01J2ZKQP0T4S6V8X0Z2B4D6F8H'', Queue = ''notifications.send'', HandlerRef = ''send-email'', HandlerVersion = [],
      Payload = Some (''payload-bytes''), PayloadContentType = ''application/octet-stream'', PayloadRef = None,
      Headers = [(''rdq.submitted_by'', ''notify-service'')],
      Status = StatusPending, AttemptCount = 2, RedriveCount = 0, NextAttemptAt = Some 1784556742117000000, LeaseExpiresAt = None, CreatedAt = 1784556202117000000,
      Attempts = [\<lparr>AttemptNo = 1, StartedAt = 1784556202200000000, FinishedAt = Some 1784556202950000000, Outcome = ''RETRYABLE_FAILURE'',
        Err = Some \<lparr>ErrType = ''*net.OpError'', Message = ''dial tcp 10.0.0.5:25: i/o timeout'', Detail = None, Stack = []\<rparr>,
        AResidual = []\<rparr>,
      \<lparr>AttemptNo = 2, StartedAt = 1784556322200000000, FinishedAt = None, Outcome = ''LEASE_EXPIRED'',
        Err = Some \<lparr>ErrType = ''rdq.LeaseExpired'', Message = ''lease expired at 2026-07-20T14:07:22.117Z'', Detail = None, Stack = []\<rparr>,
        AResidual = []\<rparr>],
      Residual = []\<rparr>"

definition unknown_fields_task :: envelope where
  "unknown_fields_task = \<lparr>EnvelopeVersion = 1, ID = ''01J2ZN0000000000000000000B'', Queue = ''orders.reserve'', HandlerRef = ''reserve-stock'', HandlerVersion = [],
      Payload = Some (''{}''), PayloadContentType = ''application/json'', PayloadRef = None,
      Headers = [],
      Status = StatusPending, AttemptCount = 1, RedriveCount = 0, NextAttemptAt = Some 1784559600000000000, LeaseExpiresAt = None, CreatedAt = 1784557800000000000,
      Attempts = [\<lparr>AttemptNo = 1, StartedAt = 1784557801000000000, FinishedAt = Some 1784557801250000000, Outcome = ''RETRYABLE_FAILURE'',
        Err = Some \<lparr>ErrType = ''*errors.errorString'', Message = ''insufficient stock'', Detail = None, Stack = []\<rparr>,
        AResidual = [(''future_latency_ms'', ''142''), (''trace_flags'', [CHR 0x22] @ ''01'' @ [CHR 0x22])]\<rparr>],
      Residual = [(''future_priority'', ''7''), (''x_experimental'', ''{'' @ [CHR 0x22] @ ''canary'' @ [CHR 0x22] @ '':true}'')]\<rparr>"


lemmas fixture_defs = StatusPending_def StatusDead_def envelope_full_task_def error_type_go_task_def lease_expired_task_def unknown_fields_task_def

lemma text_valid: "list_all text_char s \<Longrightarrow> valid_utf8 s"
  using json_body_text by blast

lemma stack_valid: "valid_utf8 (''java.net.SocketTimeoutException: connect timed out'' @ [CHR 0x0A] @ [CHR 0x09] @ ''at ...'')"
  by code_simp

lemma fixture_times: "list_all time_ok [1784556322117000000, 1784556202117000000, 1784556202200000000, 1784556202950000000, 1784556000000000000,
   1784556001000000000, 1784556001500000000, 1784556060000000000, 1784556060250000000, 1784556742117000000, 1784556322200000000,
   1784559600000000000, 1784557800000000000, 1784557801000000000, 1784557801250000000]"
  by code_simp

lemma fixture_raws:
  "raw_ok (''{'' @ [CHR 0x22] @ ''decline_code'' @ [CHR 0x22] @ '':'' @ [CHR 0x22] @ ''insufficient_funds'' @ [CHR 0x22] @ ''}'')"
  "raw_ok ''142''" "raw_ok ''7''" "raw_ok ([CHR 0x22] @ ''01'' @ [CHR 0x22])" "raw_ok (''{'' @ [CHR 0x22] @ ''canary'' @ [CHR 0x22] @ '':true}'')"
  by code_simp+

lemma fixture_keys: "field_of attemptKnownKeys ''future_latency_ms'' = None" "field_of attemptKnownKeys ''trace_flags'' = None"
  "field_of envelopeKnownKeys ''future_priority'' = None" "field_of envelopeKnownKeys ''x_experimental'' = None"
  by code_simp+

lemma fixtures_ok: "envelope_ok envelope_full_task" "envelope_ok error_type_go_task" "envelope_ok lease_expired_task" "envelope_ok unknown_fields_task"
  using fixture_times fixture_raws stack_valid unfolding envelope_ok_def fixture_defs
  by (simp_all add: fixture_keys attempt_ok_def error_ok_def residual_ok_def int64_def text_valid text_char_def byte_in_def)

lemma fixture_texts:
  "plain_text envelope_full_task = Some envelope_full" "plain_text error_type_go_task = Some error_type_go"
  "plain_text lease_expired_task = Some lease_expired" "plain_text unknown_fields_task = Some unknown_fields"
  by code_simp+


lemma fixture_decodes:
  assumes "envelope_ok e" "Attempts e \<noteq> []" "plain_text e = Some want"
  shows "Unmarshal want = Some (canonical e)" "Marshal (canonical e) = Some want"
proof -
  have m: "Marshal e = Some want" using Marshal_plain [OF assms(1,2)] assms(3) by simp
  then show "Unmarshal want = Some (canonical e)" using envelope_text [OF assms(1)] by auto
  show "Marshal (canonical e) = Some want" using Marshal_canonical [OF assms(1)] m by simp
qed

lemma roundTripOne_fixture:
  assumes "envelope_ok e" "Attempts e \<noteq> []" "plain_text e = Some want"
  shows "fst (roundTripOne New want clk memstore w) =
    Inr (if Status e = StatusPending then ([], True, Residual e \<noteq> []) else ([], False, False))"
proof -
  note dec = fixture_decodes [OF assms]
  have "Status (canonical e) = Status e" "Residual (canonical e) = [] \<longleftrightarrow> Residual e = []"
    using sorted_map_Nil by (auto simp: canonical_def)
  then show ?thesis
    by (simp add: roundTripOne_def dec fresh_def leaf_def t_Run_def storeAndGet_def mustEnqueue_def must_def must_get_def kEnqueue_def kGet_def
        kCall_def kbind_def kreturn_def require_def Enqueue_def Get_def New_def put_def cloneEnvelope_eq)
qed

lemma fst_kbind: "fst (m clk st w) = Inr x \<Longrightarrow> fst (kbind m f clk st w) = fst (f x clk st (snd (m clk st w)))"
  by (cases "m clk st w") (simp add: kbind_def)

lemma testLosslessRoundTrip_passes: "fst (testLosslessRoundTrip New fixtures clk memstore w) = Inr []"
proof -
  have a: "Attempts envelope_full_task \<noteq> []" "Attempts error_type_go_task \<noteq> []" "Attempts lease_expired_task \<noteq> []" "Attempts unknown_fields_task \<noteq> []"
    by (simp_all add: fixture_defs)
  have s: "Status envelope_full_task = StatusPending" "Status error_type_go_task \<noteq> StatusPending" "Status lease_expired_task = StatusPending"
    "Status unknown_fields_task = StatusPending" "Residual unknown_fields_task \<noteq> []"
    by (simp_all add: fixture_defs)
  note one = roundTripOne_fixture [OF fixtures_ok(1) a(1) fixture_texts(1)] roundTripOne_fixture [OF fixtures_ok(2) a(2) fixture_texts(2)]
    roundTripOne_fixture [OF fixtures_ok(3) a(3) fixture_texts(3)] roundTripOne_fixture [OF fixtures_ok(4) a(4) fixture_texts(4)]
  have all: "fst (roundTripAll New fixtures clk memstore w) =
      Inr ([], 3, True)" for w
    by (simp add: fixtures_def fst_kbind one s kreturn_def)
  show ?thesis by (simp add: testLosslessRoundTrip_def fst_kbind all require_def kreturn_def)
qed

section \<open>The whole kit\<close>

lemma t_Run_passes: "fst (m clk st w) = Inr [] \<Longrightarrow> fst (t_Run m clk st w) = Inr []"
  by (auto simp: t_Run_def split: prod.splits sum.splits)

lemma t_RunAll_passes:
  "list_all (\<lambda>m. \<forall>w. fst (m clk st w) = Inr []) ms \<Longrightarrow> fst (t_RunAll ms clk st w) = Inr []"
proof (induction ms arbitrary: w)
  case (Cons m ms)
  then show ?case by (simp add: fst_kbind t_Run_passes kreturn_def)
qed (simp add: kreturn_def)

lemma leaf_passes: "fst (m clk st w) = Inr () \<Longrightarrow> fst (leaf m clk st w) = Inr []"
  by (simp add: leaf_def fst_kbind kreturn_def)

lemma t_RunAll_Cons:
  assumes "fst (m clk st w) = Inr []" "list_all (\<lambda>m. \<forall>w. fst (m clk st w) = Inr []) ms"
  shows "fst (t_RunAll (m # ms) clk st w) = Inr []"
  using assms t_RunAll_passes [OF assms(2)] by (simp add: fst_kbind t_Run_passes kreturn_def)

text \<open>C17: the in-memory store passes the compliance kit: no test and no subtest fails, for every clock that does not go back, and for every
  schedule of the eight concurrent claimants that gives each of them the turns to run dry within the lease of the first claim.\<close>

theorem memstore_complies:
  assumes "mono clk" "\<forall>i < 8. 200 < count_list sched i" "clk (200 + length sched) < clk 200 + longLease"
  shows "fst (Run_kit New fixtures sched clk memstore \<lparr>kStore = New, kReads = 0, kSlept = 0\<rparr>) = Inr []"
proof -
  note small = testDropWorkerReclaim_passes testFencing_passes testLeaseRecoveryCounts_passes testAtomicTransition_passes
    testIdempotentEnqueue_passes testRedriveReset_passes testStablePagination_passes
  have "fst (fresh New (testConcurrentExclusivity sched) clk memstore \<lparr>kStore = New, kReads = 0, kSlept = 0\<rparr>) = Inr ()"
    using assms by (intro testConcurrentExclusivity_passes) simp_all
  then have "fst (testNoDoubleClaim New sched clk memstore \<lparr>kStore = New, kReads = 0, kSlept = 0\<rparr>) = Inr []"
    unfolding testNoDoubleClaim_def using small [OF assms(1)] by (intro t_RunAll_Cons) (simp_all add: leaf_passes)
  then show ?thesis
    unfolding Run_kit_def using small [OF assms(1)] testLosslessRoundTrip_passes by (intro t_RunAll_Cons) (simp_all add: leaf_passes)
qed

lemma count_round_robin: "i < n \<Longrightarrow> count_list (concat (replicate k [0..<n])) i = k"
  by (induction k) (simp_all add: count_list_append count_notin distinct_count_atmost_1 [THEN iffD1] flip: count_mset)

theorem memstore_complies_witness:
  "fst (Run_kit New fixtures (concat (replicate 201 [0..<8])) (\<lambda>n. int n) memstore \<lparr>kStore = New, kReads = 0, kSlept = 0\<rparr>) = Inr []"
  by (rule memstore_complies) (simp_all add: count_round_robin length_concat sum_list_replicate longLease_def monoI)

end
