(* ===== verification/Worker_Run.thy ===== *)
theory Worker_Run
  imports Worker_Props
begin

text \<open>
  The worker's goroutines (\<open>Worker.Run\<close>): one claim loop per queue, the retention sweeper, one goroutine per claimed task and
  the caller of \<open>Run\<close>, which waits for the context, for the loops and for the handlers. Their steps interleave freely on the shared
  store, which other workers change in between; the select statements choose any ready case. The lemmas show
  that a queue never has more handlers than slots, that after the context is cancelled only a loop already past its check claims,
  once and no more than a batch, that \<open>Run\<close> returns only after every loop has stopped, and that a cancelled worker can always wind down.
\<close>

section \<open>Goroutines\<close>

text \<open>
  A claim loop is at its own check of the context, at the check inside \<open>pollOnce\<close>, past that check and about to claim, waiting for
  its ticker or the context, or has returned. The context may be cancelled between the check inside \<open>pollOnce\<close> and the claim. Counting
  the free slots, taking tokens and claiming are one step: in between, only handlers that end touch the slots, which leaves more
  of them free, and no one else uses the limiter.
\<close>

datatype loop_pc = LCheck | LPoll | LClaim | LWait | LExited
datatype sweep_pc = SWait | SExited
datatype main_pc = MRunning | MJoin | MDrain | MReturned

text \<open>A handler's goroutine: its queue, its claim, and whether its heartbeat has found the claim lost.\<close>

record running =
  hQueue :: nat
  hClaim :: claimed
  hLost :: bool

record 's run_state =
  rCancelled :: bool
  rQueues :: "queue_state list"
  rLoops :: "loop_pc list"
  rSweeper :: sweep_pc
  rHandlers :: "running list"
  rMain :: main_pc
  rStore :: 's
  rTrace :: "worker_event list"

definition runSweeper_start :: "worker \<Rightarrow> sweep_pc" where
  "runSweeper_start w = (if sweepInterval w \<le> 0 then SExited else SWait)"

definition run_start :: "worker \<Rightarrow> 's \<Rightarrow> 's run_state" where
  "run_start w s = \<lparr>rCancelled = False, rQueues = queues w, rLoops = map (\<lambda>_. LCheck) (queues w),
     rSweeper = runSweeper_start w, rHandlers = [], rMain = MRunning, rStore = s, rTrace = []\<rparr>"

definition dispatch_all :: "nat \<Rightarrow> claimed list \<Rightarrow> running list" where
  "dispatch_all i cs = map (\<lambda>c. \<lparr>hQueue = i, hClaim = c, hLost = False\<rparr>) cs"

text \<open>A handler's goroutine ends: it releases its slot.\<close>

definition release :: "nat \<Rightarrow> queue_state list \<Rightarrow> queue_state list" where
  "release i qs = qs[i := (qs ! i)\<lparr>busy := busy (qs ! i) - 1\<rparr>]"

text \<open>Draining ends when no handler is left or its timer fires.\<close>

definition drainHandlers :: "running list \<Rightarrow> bool \<Rightarrow> bool" where
  "drainHandlers hs timerFired \<longleftrightarrow> hs = [] \<or> timerFired"

text \<open>What a heartbeat finds is noted for the handler it belongs to; a lost claim cancels the handler's context, as its timeout
  does. A run is settled by the handler's result and the write of the outcome; the heartbeats are steps of their own.\<close>

inductive run_step :: "(string \<Rightarrow> string) \<Rightarrow> (f64 \<Rightarrow> int) \<Rightarrow> worker \<Rightarrow> registry \<Rightarrow> 's storage \<Rightarrow> 's run_state \<Rightarrow> 's run_state \<Rightarrow> bool"
  for quote oob w reg ops where
  cancel: "run_step quote oob w reg ops st (st\<lparr>rCancelled := True\<rparr>)"
| elsewhere: "run_step quote oob w reg ops st (st\<lparr>rStore := s'\<rparr>)"
| loop_check: "i < length (rLoops st) \<Longrightarrow> rLoops st ! i = LCheck \<Longrightarrow>
    run_step quote oob w reg ops st (st\<lparr>rLoops := (rLoops st)[i := if rCancelled st then LExited else LPoll]\<rparr>)"
| loop_poll: "i < length (rLoops st) \<Longrightarrow> rLoops st ! i = LPoll \<Longrightarrow>
    run_step quote oob w reg ops st (st\<lparr>rLoops := (rLoops st)[i := if rCancelled st then LWait else LClaim]\<rparr>)"
| loop_claim: "i < length (rLoops st) \<Longrightarrow> rLoops st ! i = LClaim \<Longrightarrow> \<not> cancelled p \<Longrightarrow>
    pollOnce w ops p (rQueues st ! i) (rStore st) = (cs, q', s', evs) \<Longrightarrow>
    run_step quote oob w reg ops st (st\<lparr>rLoops := (rLoops st)[i := LWait], rQueues := (rQueues st)[i := q'], rStore := s',
      rHandlers := rHandlers st @ dispatch_all i cs, rTrace := rTrace st @ evs\<rparr>)"
| loop_tick: "i < length (rLoops st) \<Longrightarrow> rLoops st ! i = LWait \<Longrightarrow>
    run_step quote oob w reg ops st (st\<lparr>rLoops := (rLoops st)[i := LCheck]\<rparr>)"
| loop_done: "i < length (rLoops st) \<Longrightarrow> rLoops st ! i = LWait \<Longrightarrow> rCancelled st \<Longrightarrow>
    run_step quote oob w reg ops st (st\<lparr>rLoops := (rLoops st)[i := LExited]\<rparr>)"
| beat: "j < length (rHandlers st) \<Longrightarrow> h = rHandlers st ! j \<Longrightarrow> sp = spec (rQueues st ! hQueue h) \<Longrightarrow> sHeartbeat sp \<Longrightarrow> \<not> hLost h \<Longrightarrow>
    AttemptCount (Task (hClaim h)) < sMaxAttempts sp \<Longrightarrow> Resolve quote reg (Task (hClaim h)) (sVersionPolicy sp) = ActionRun hdl \<Longrightarrow>
    st_ExtendLease ops now (rStore st) (ID (Task (hClaim h))) (Token (hClaim h)) (sLease sp) = (err, s') \<Longrightarrow>
    run_step quote oob w reg ops st (st\<lparr>rStore := s', rHandlers := (rHandlers st)[j := h\<lparr>hLost := (err = Some ErrStaleClaim)\<rparr>]\<rparr>)"
| settle: "j < length (rHandlers st) \<Longrightarrow> h = rHandlers st ! j \<Longrightarrow> ticks i = [] \<Longrightarrow> meanwhile i = (\<lambda>s. s) \<Longrightarrow> (hLost h \<longrightarrow> timedOut i) \<Longrightarrow>
    process quote oob w reg ops (spec (rQueues st ! hQueue h)) (hClaim h) i (rStore st) = (s', evs) \<Longrightarrow>
    run_step quote oob w reg ops st (st\<lparr>rStore := s', rHandlers := take j (rHandlers st) @ drop (Suc j) (rHandlers st),
      rQueues := release (hQueue h) (rQueues st), rTrace := rTrace st @ evs\<rparr>)"
| sweep: "rSweeper st = SWait \<Longrightarrow> run_step quote oob w reg ops st (st\<lparr>rStore := sweepOnce ops now (rQueues st) (rStore st)\<rparr>)"
| sweep_done: "rSweeper st = SWait \<Longrightarrow> rCancelled st \<Longrightarrow> run_step quote oob w reg ops st (st\<lparr>rSweeper := SExited\<rparr>)"
| main_cancelled: "rMain st = MRunning \<Longrightarrow> rCancelled st \<Longrightarrow> run_step quote oob w reg ops st (st\<lparr>rMain := MJoin\<rparr>)"
| main_joined: "rMain st = MJoin \<Longrightarrow> list_all (\<lambda>l. l = LExited) (rLoops st) \<Longrightarrow> rSweeper st = SExited \<Longrightarrow>
    run_step quote oob w reg ops st (st\<lparr>rMain := MDrain\<rparr>)"
| main_drained: "rMain st = MDrain \<Longrightarrow> drainHandlers (rHandlers st) timerFired \<Longrightarrow>
    run_step quote oob w reg ops st (st\<lparr>rMain := MReturned\<rparr>)"

abbreviation run_steps :: "(string \<Rightarrow> string) \<Rightarrow> (f64 \<Rightarrow> int) \<Rightarrow> worker \<Rightarrow> registry \<Rightarrow> 's storage \<Rightarrow> 's run_state \<Rightarrow> 's run_state \<Rightarrow> bool" where
  "run_steps quote oob w reg ops \<equiv> (run_step quote oob w reg ops)\<^sup>*\<^sup>*"

section \<open>Slots\<close>

definition in_flight :: "nat \<Rightarrow> running list \<Rightarrow> nat" where
  "in_flight i hs = length (filter (\<lambda>h. hQueue h = i) hs)"

lemma in_flight_simps [simp]:
  "in_flight i [] = 0" "in_flight i (xs @ ys) = in_flight i xs + in_flight i ys"
  "in_flight i (dispatch_all j cs) = (if i = j then length cs else 0)"
  by (auto simp: in_flight_def dispatch_all_def)

lemma in_flight_update: "j < length hs \<Longrightarrow> in_flight i (hs[j := (hs ! j)\<lparr>hLost := b\<rparr>]) = in_flight i hs"
  unfolding in_flight_def by (induction hs arbitrary: j) (auto simp: nth_Cons split: nat.splits)

lemma in_flight_remove:
  "j < length hs \<Longrightarrow> in_flight i hs = in_flight i (take j hs @ drop (Suc j) hs) + (if hQueue (hs ! j) = i then 1 else 0)"
  by (subst id_take_nth_drop [of j hs]) (auto simp: in_flight_def)

lemma memstore_claim_limit:
  assumes "fst (ClaimDue now s q limit l) = Inr cs" "0 < limit"
  shows "int (length cs) \<le> limit"
proof -
  have len: "length (fst (claimLoop now l due s)) = length due" for due s
    by (induction due arbitrary: s) (auto simp: claimLoop.simps Let_def split_beta)
  have "cs = fst (claimLoop now l (if limit < int (length (dueTasks s q now)) then take (nat limit) (dueTasks s q now) else dueTasks s q now) s)"
    using assms by (auto simp: ClaimDue_def Let_def split_beta split: if_splits)
  then show ?thesis using assms(2) by (auto simp: len)
qed

lemma poll_busy:
  assumes "pollOnce w memstore p q s = (cs, q', s', evs)" "0 \<le> busy q" "busy q \<le> sConcurrency (spec q)"
  shows "spec q' = spec q \<and> busy q' = busy q + int (length cs) \<and> busy q' \<le> sConcurrency (spec q)" "cancelled p \<longrightarrow> cs = []"
proof -
  let ?free = "sConcurrency (spec q) - busy q"
  let ?want = "if sBatchSize (spec q) < ?free then sBatchSize (spec q) else ?free"
  let ?g = "grantTokens (limNow p) (lim q) (nat ?want) 0"
  show "cancelled p \<longrightarrow> cs = []" using assms(1) by (auto simp: pollOnce_def)
  show "spec q' = spec q \<and> busy q' = busy q + int (length cs) \<and> busy q' \<le> sConcurrency (spec q)"
  proof (cases "cancelled p \<or> ?free \<le> 0 \<or> fst ?g \<le> 0 \<or> cs = []")
    case True
    then show ?thesis using assms by (auto simp: pollOnce_def Let_def split_beta split: if_splits sum.splits)
  next
    case False
    have "fst ?g \<le> int (nat ?want)" using grantTokens_range [of 0 "limNow p" "lim q" "nat ?want"] by simp
    moreover have "int (nat ?want) \<le> ?free" using False by auto
    moreover have "fst (ClaimDue (storeNow p) s (sQueue (spec q)) (fst ?g) (sLease (spec q))) = Inr cs"
      using False assms(1) by (auto simp: pollOnce_def Let_def split_beta split: sum.splits)
    ultimately have "int (length cs) \<le> ?free" using memstore_claim_limit False by fastforce
    moreover have "spec q' = spec q \<and> busy q' = busy q + int (length cs)"
      using False assms(1) by (auto simp: pollOnce_def Let_def split_beta split: sum.splits)
    ultimately show ?thesis by simp
  qed
qed

definition run_inv :: "'s run_state \<Rightarrow> bool" where
  "run_inv st \<longleftrightarrow> length (rLoops st) = length (rQueues st) \<and> (\<forall>h \<in> set (rHandlers st). hQueue h < length (rQueues st)) \<and>
     (\<forall>i < length (rQueues st). busy (rQueues st ! i) = int (in_flight i (rHandlers st)) \<and>
        busy (rQueues st ! i) \<le> sConcurrency (spec (rQueues st ! i))) \<and>
     (rMain st \<noteq> MRunning \<longrightarrow> rCancelled st) \<and>
     (rMain st = MDrain \<or> rMain st = MReturned \<longrightarrow> list_all (\<lambda>l. l = LExited) (rLoops st) \<and> rSweeper st = SExited)"


lemma release_nth:
  "i < length qs \<Longrightarrow> spec (release k qs ! i) = spec (qs ! i) \<and> busy (release k qs ! i) = busy (qs ! i) - (if i = k then 1 else 0)"
  by (cases "i = k") (simp_all add: release_def)

lemma length_release [simp]: "length (release k qs) = length qs"
  by (simp add: release_def)

lemma run_inv_start:
  assumes "\<forall>q \<in> set (queues w). busy q = 0 \<and> 0 \<le> sConcurrency (spec q)"
  shows "run_inv (run_start w s)"
  using assms by (auto simp: run_inv_def run_start_def)

lemma run_inv_step:
  fixes st :: "store run_state"
  assumes "run_step quote oob w reg memstore st st'" "run_inv st"
  shows "run_inv st'"
  using assms
proof (induction rule: run_step.induct)
  case (loop_claim i st p cs q' s' evs)
  then have i: "i < length (rQueues st)" by (simp add: run_inv_def)
  then have "0 \<le> busy (rQueues st ! i)" "busy (rQueues st ! i) \<le> sConcurrency (spec (rQueues st ! i))" "busy (rQueues st ! i) = int (in_flight i (rHandlers st))"
    using loop_claim.prems by (auto simp: run_inv_def)
  with poll_busy(1) [OF loop_claim.hyps(4)]
  have q: "spec q' = spec (rQueues st ! i)" "busy q' = int (in_flight i (rHandlers st)) + int (length cs)" "busy q' \<le> sConcurrency (spec q')" by simp_all
  have main: "rMain st \<noteq> MDrain \<and> rMain st \<noteq> MReturned"
    using loop_claim.hyps(1,2) loop_claim.prems by (auto simp: run_inv_def list_all_length)
  have "\<forall>k < length (rQueues st). busy ((rQueues st)[i := q'] ! k) = int (in_flight k (rHandlers st @ dispatch_all i cs)) \<and>
      busy ((rQueues st)[i := q'] ! k) \<le> sConcurrency (spec ((rQueues st)[i := q'] ! k))"
    using q loop_claim.prems by (auto simp: run_inv_def nth_list_update)
  then show ?case using loop_claim.prems main i by (auto simp: run_inv_def dispatch_all_def)
next
  case (settle j st h i s' evs)
  let ?hs = "take j (rHandlers st) @ drop (Suc j) (rHandlers st)"
  have "\<forall>k < length (rQueues st). busy (release (hQueue h) (rQueues st) ! k) = int (in_flight k ?hs) \<and>
      busy (release (hQueue h) (rQueues st) ! k) \<le> sConcurrency (spec (release (hQueue h) (rQueues st) ! k))"
    using settle.prems in_flight_remove [OF settle.hyps(1)] settle.hyps(2) by (fastforce simp: run_inv_def release_nth)
  moreover have "set ?hs \<subseteq> set (rHandlers st)" by (auto dest: in_set_takeD in_set_dropD)
  ultimately show ?case using settle.prems by (auto simp: run_inv_def)
next
  case (beat j st h sp hdl now err s')
  then have "hQueue h < length (rQueues st)" by (auto simp: run_inv_def)
  then show ?case using beat in_flight_update [OF beat.hyps(1)] by (auto simp: run_inv_def dest!: set_update_subset_insert [THEN subsetD])
qed (auto simp: run_inv_def list_all_length nth_list_update)

lemma run_inv_steps:
  fixes st :: "store run_state"
  shows "run_steps quote oob w reg memstore st st' \<Longrightarrow> run_inv st \<Longrightarrow> run_inv st'"
  by (induction rule: rtranclp_induct) (auto intro: run_inv_step)


lemma poll_spec: "pollOnce w ops p q s = (cs, q', s', evs) \<Longrightarrow> spec q' = spec q"
  by (auto simp: pollOnce_def Let_def split_beta split: if_splits sum.splits)

lemma run_specs:
  assumes "run_steps quote oob w reg ops st st'"
  shows "map spec (rQueues st') = map spec (rQueues st)"
  using assms
proof (induction rule: rtranclp_induct)
  case (step u v)
  have "map spec (rQueues v) = map spec (rQueues u)"
    using step.hyps(2)
  proof (induction rule: run_step.induct)
    case (loop_claim i st p cs q' s' evs)
    then show ?case using poll_spec [OF loop_claim.hyps(4)] by (simp add: map_update list_update_same_conv flip: map_update) (metis list_update_id map_update)
  next
    case (settle j st h i s' evs)
    then show ?case by (simp add: release_def map_update) (metis list_update_id map_update)
  qed simp_all
  then show ?case using step.IH by simp
qed simp

text \<open>C15: however the goroutines of a running worker interleave, and whatever other workers do to the store, each queue has exactly as many
  handlers in flight as slots taken, and never more than its concurrency.\<close>

theorem run_within_concurrency:
  assumes "\<forall>q \<in> set (queues w). runnable (spec q) \<and> busy q = 0"
    "run_steps quote oob w reg memstore (run_start w s) st" "i < length (queues w)"
  shows "busy (rQueues st ! i) = int (in_flight i (rHandlers st)) \<and> int (in_flight i (rHandlers st)) \<le> sConcurrency (spec (queues w ! i))"
proof -
  have "run_inv (run_start w s)" using assms(1) by (intro run_inv_start) (auto simp: runnable_def)
  then have inv: "run_inv st" using run_inv_steps [OF assms(2)] by simp
  have specs: "map spec (rQueues st) = map spec (queues w)" using run_specs [OF assms(2)] by (simp add: run_start_def)
  then have "length (rQueues st) = length (queues w)" by (rule map_eq_imp_length_eq)
  then show ?thesis using inv assms(3) specs by (metis nth_map run_inv_def)
qed

section \<open>Shutting down\<close>

lemma run_cancelled: "run_steps quote oob w reg ops st st' \<Longrightarrow> rCancelled st \<Longrightarrow> rCancelled st'"
proof (induction rule: rtranclp_induct)
  case (step u v)
  from step.hyps(2) step.IH [OF step.prems] show ?case by (induction rule: run_step.induct) auto
qed simp

text \<open>The claims of a queue whose handlers are running, and how many a loop may still make.\<close>

definition claims_of :: "nat \<Rightarrow> 's run_state \<Rightarrow> claimed multiset" where
  "claims_of i st = mset (map hClaim (filter (\<lambda>h. hQueue h = i) (rHandlers st)))"

definition quota :: "nat \<Rightarrow> 's run_state \<Rightarrow> int" where
  "quota i st = (if rLoops st ! i = LClaim then sBatchSize (spec (rQueues st ! i)) else 0)"

lemma poll_batch:
  assumes "pollOnce w memstore p q s = (cs, q', s', evs)" "0 \<le> sBatchSize (spec q)"
  shows "int (length cs) \<le> sBatchSize (spec q)"
proof (cases "cs = []")
  case False
  let ?free = "sConcurrency (spec q) - busy q"
  let ?want = "if sBatchSize (spec q) < ?free then sBatchSize (spec q) else ?free"
  let ?g = "grantTokens (limNow p) (lim q) (nat ?want) 0"
  have "fst ?g \<le> int (nat ?want)" using grantTokens_range [of 0 "limNow p" "lim q" "nat ?want"] by simp
  moreover have "fst (ClaimDue (storeNow p) s (sQueue (spec q)) (fst ?g) (sLease (spec q))) = Inr cs" "0 < fst ?g"
    using False assms(1) by (auto simp: pollOnce_def Let_def split_beta split: sum.splits if_splits)
  then have "int (length cs) \<le> fst ?g" by (rule memstore_claim_limit)
  ultimately show ?thesis using assms(2) by (auto split: if_splits)
qed (use assms(2) in simp)

lemma cancelled_step:
  fixes u :: "store run_state"
  assumes "run_step quote oob w reg memstore u v" "rCancelled u" "run_inv u" "i < length (rQueues u)" "0 \<le> sBatchSize (spec (rQueues u ! i))"
  shows "\<exists>cs. int (size cs) + quota i v \<le> quota i u \<and> claims_of i v \<subseteq># claims_of i u + cs"
  using assms
proof (induction rule: run_step.induct)
  case (loop_claim k st p cs q' s' evs)
  show ?case
  proof (cases "k = i")
    case True
    then have "int (length cs) \<le> quota i st"
      using loop_claim poll_batch [OF loop_claim.hyps(4)] by (simp add: quota_def)
    then show ?thesis
      using True loop_claim.hyps(1) by (intro exI [of _ "mset cs"]) (simp add: quota_def claims_of_def dispatch_all_def o_def)
  next
    case False
    then show ?thesis by (intro exI [of _ "{#}"]) (simp add: quota_def claims_of_def dispatch_all_def)
  qed
next
  case (settle j st h k s' evs)
  have "claims_of i st = claims_of i (st\<lparr>rHandlers := take j (rHandlers st) @ drop (Suc j) (rHandlers st)\<rparr>) + (if hQueue h = i then {#hClaim h#} else {#})"
    using settle.hyps(2) unfolding claims_of_def by (subst id_take_nth_drop [OF settle.hyps(1)]) simp
  then show ?case
    using settle.prems(3) release_nth [of i "rQueues st" "hQueue h"] by (intro exI [of _ "{#}"]) (simp add: quota_def claims_of_def)
next
  case (beat j st h sp hdl now err s')
  have "map hClaim (filter (\<lambda>h. hQueue h = i) (hs[j := (hs ! j)\<lparr>hLost := b\<rparr>])) = map hClaim (filter (\<lambda>h. hQueue h = i) hs)"
    if "j < length hs" for hs b j
    using that by (induction hs arbitrary: j) (auto simp: nth_Cons split: nat.splits)
  then have "claims_of i (st\<lparr>rHandlers := (rHandlers st)[j := h\<lparr>hLost := (err = Some ErrStaleClaim)\<rparr>]\<rparr>) = claims_of i st"
    using beat.hyps(1,2) unfolding claims_of_def by (metis run_state.select_convs(5) run_state.surjective run_state.update_convs(5))
  then show ?case by (intro exI [of _ "{#}"]) (simp add: quota_def claims_of_def)
qed (auto intro!: exI [of _ "{#}"] simp: quota_def claims_of_def nth_list_update)

lemma cancelled_claims:
  fixes st :: "store run_state"
  assumes "run_steps quote oob w reg memstore st st'" "rCancelled st" "run_inv st" "i < length (rQueues st)"
    "0 \<le> sBatchSize (spec (rQueues st ! i))"
  shows "\<exists>cs. int (size cs) + quota i st' \<le> quota i st \<and> claims_of i st' \<subseteq># claims_of i st + cs"
  using assms
proof (induction rule: rtranclp_induct)
  case base
  then show ?case by (intro exI [of _ "{#}"]) simp
next
  case (step u v)
  have c: "rCancelled u" "run_inv u" using run_cancelled [OF step.hyps(1)] run_inv_steps [OF step.hyps(1)] step.prems by auto
  have "map spec (rQueues u) = map spec (rQueues st)" using run_specs [OF step.hyps(1)] .
  then have q: "i < length (rQueues u)" "spec (rQueues u ! i) = spec (rQueues st ! i)"
    using step.prems(3) map_eq_imp_length_eq by (metis, metis nth_map map_eq_imp_length_eq)
  obtain cs where cs: "int (size cs) + quota i u \<le> quota i st" "claims_of i u \<subseteq># claims_of i st + cs" using step.IH step.prems by blast
  obtain ds where ds: "int (size ds) + quota i v \<le> quota i u" "claims_of i v \<subseteq># claims_of i u + ds"
    using cancelled_step [OF step.hyps(2) c q(1)] step.prems(4) q(2) by auto
  have "claims_of i v \<subseteq># claims_of i st + (cs + ds)"
    using ds(2) subset_mset.add_right_mono [OF cs(2), of ds] by (metis subset_mset.order_trans union_assoc)
  then show ?case using cs(1) ds(1) by (intro exI [of _ "cs + ds"]) simp
qed

text \<open>C16: shutting down is graceful. After the context is cancelled, a queue whose claim loop has not passed the check inside \<open>pollOnce\<close> claims
  nothing more; a loop that had passed it at that moment claims at most once more, and at most a batch. \<open>Run\<close> returns only after
  every claim loop and the sweeper have stopped, and from then on nothing at all is claimed.\<close>

theorem shutdown_is_graceful:
  assumes "\<forall>q \<in> set (queues w). runnable (spec q) \<and> busy q = 0"
    "run_steps quote oob w reg memstore (run_start w s) st" "rCancelled st" "run_steps quote oob w reg memstore st st'"
    "i < length (queues w)"
  shows "(rLoops st ! i \<noteq> LClaim \<longrightarrow> claims_of i st' \<subseteq># claims_of i st) \<and>
    (\<exists>cs. int (size cs) \<le> sBatchSize (spec (queues w ! i)) \<and> claims_of i st' \<subseteq># claims_of i st + cs) \<and>
    (rMain st' = MReturned \<longrightarrow> list_all (\<lambda>l. l = LExited) (rLoops st') \<and> rSweeper st' = SExited) \<and>
    (rMain st = MReturned \<longrightarrow> claims_of i st' \<subseteq># claims_of i st)"
proof -
  have "run_inv (run_start w s)" using assms(1) by (intro run_inv_start) (auto simp: runnable_def)
  then have inv: "run_inv st" "run_inv st'" using run_inv_steps [OF assms(2)] run_inv_steps [OF assms(4)] by simp_all
  have specs: "map spec (rQueues st) = map spec (queues w)" using run_specs [OF assms(2)] by (simp add: run_start_def)
  then have i: "i < length (rQueues st)" "spec (rQueues st ! i) = spec (queues w ! i)"
    using assms(5) by (metis map_eq_imp_length_eq, metis map_eq_imp_length_eq nth_map)
  have b: "1 \<le> sBatchSize (spec (queues w ! i))" using assms(1,5) by (simp add: runnable_def)
  obtain cs where cs: "int (size cs) + quota i st' \<le> quota i st" "claims_of i st' \<subseteq># claims_of i st + cs"
    using cancelled_claims [OF assms(4,3) inv(1) i(1)] b i(2) by auto
  have q: "0 \<le> quota i st'" "quota i st \<le> sBatchSize (spec (queues w ! i))"
  proof -
    have "map spec (rQueues st') = map spec (rQueues st)" using run_specs [OF assms(4)] .
    then have "spec (rQueues st' ! i) = spec (rQueues st ! i)" using i(1) by (metis map_eq_imp_length_eq nth_map)
    then show "0 \<le> quota i st'" "quota i st \<le> sBatchSize (spec (queues w ! i))" using b i(2) by (simp_all add: quota_def)
  qed
  have none: "claims_of i st' \<subseteq># claims_of i st" if "rLoops st ! i \<noteq> LClaim"
  proof -
    have "quota i st = 0" using that by (simp add: quota_def)
    then have "size cs = 0" using cs(1) q(1) by linarith
    then show ?thesis using cs(2) by simp
  qed
  moreover have "rLoops st ! i \<noteq> LClaim" if "rMain st = MReturned"
    using that inv(1) i(1) by (auto simp: run_inv_def list_all_length)
  moreover have "int (size cs) \<le> sBatchSize (spec (queues w ! i))" using cs(1) q by simp
  ultimately show ?thesis using cs(2) inv(2) by (auto simp: run_inv_def)
qed

fun loop_rank :: "loop_pc \<Rightarrow> nat" where
  "loop_rank LExited = 0"
| "loop_rank LCheck = 1"
| "loop_rank LWait = 2"
| "loop_rank LClaim = 3"
| "loop_rank LPoll = 4"

lemma rank_update:
  assumes "i < length ls" "loop_rank l < loop_rank (ls ! i)"
  shows "sum_list (map loop_rank (ls[i := l])) < sum_list (map loop_rank ls)"
proof -
  have "sum_list (map loop_rank ls) = sum_list (map loop_rank (take i ls)) + loop_rank (ls ! i) + sum_list (map loop_rank (drop (Suc i) ls))"
    by (subst id_take_nth_drop [OF assms(1)]) simp
  then show ?thesis using assms by (simp add: upd_conv_take_nth_drop)
qed

lemma loop_step:
  assumes "i < length (rLoops st)" "rLoops st ! i \<noteq> LExited" "rCancelled st"
  shows "\<exists>st'. run_step quote oob w reg ops st st' \<and> rCancelled st' \<and> rSweeper st' = rSweeper st \<and> rMain st' = rMain st \<and>
    sum_list (map loop_rank (rLoops st')) < sum_list (map loop_rank (rLoops st))"
proof (cases "rLoops st ! i")
  case LCheck
  then show ?thesis using run_step.loop_check [OF assms(1) LCheck] assms rank_update [OF assms(1), of LExited] by fastforce
next
  case LWait
  then show ?thesis using run_step.loop_done [OF assms(1) LWait assms(3)] assms rank_update [OF assms(1), of LExited] by fastforce
next
  case LPoll
  then show ?thesis using run_step.loop_poll [OF assms(1) LPoll] assms rank_update [OF assms(1), of LWait] by fastforce
next
  case LClaim
  let ?p = "\<lparr>cancelled = False, limNow = 0, claimStart = 0, claimEnd = 0, storeNow = 0\<rparr>"
  obtain cs q' s' evs where "pollOnce w ops ?p (rQueues st ! i) (rStore st) = (cs, q', s', evs)" by (metis prod_cases4)
  from run_step.loop_claim [OF assms(1) LClaim _ this] show ?thesis
    using assms LClaim rank_update [OF assms(1), of LWait] by fastforce
qed (use assms in simp)

lemma loops_exit:
  "rCancelled st \<Longrightarrow> \<exists>st'. run_steps quote oob w reg ops st st' \<and> rCancelled st' \<and> rSweeper st' = rSweeper st \<and> rMain st' = rMain st \<and>
    list_all (\<lambda>l. l = LExited) (rLoops st')"
proof (induction "sum_list (map loop_rank (rLoops st))" arbitrary: st rule: less_induct)
  case less
  show ?case
  proof (cases "list_all (\<lambda>l. l = LExited) (rLoops st)")
    case False
    then obtain i where "i < length (rLoops st)" "rLoops st ! i \<noteq> LExited" by (auto simp: list_all_length)
    from loop_step [OF this less.prems] obtain u where u: "run_step quote oob w reg ops st u" "rCancelled u" "rSweeper u = rSweeper st" "rMain u = rMain st"
        "sum_list (map loop_rank (rLoops u)) < sum_list (map loop_rank (rLoops st))" by blast
    from less.hyps [OF u(5,2)] show ?thesis using u by (metis converse_rtranclp_into_rtranclp)
  qed (use less.prems in blast)
qed

lemma handlers_settle:
  "\<exists>st'. run_steps quote oob w reg ops st st' \<and> rHandlers st' = [] \<and> rCancelled st' = rCancelled st \<and> rSweeper st' = rSweeper st \<and>
    rMain st' = rMain st \<and> rLoops st' = rLoops st"
proof (induction "rHandlers st" arbitrary: st)
  case Nil
  then show ?case by (intro exI [of _ st]) simp
next
  case (Cons h hs)
  let ?i = "\<lparr>startedAt = 0, finishedAt = 0, timedOut = True, ticks = [], meanwhile = (\<lambda>s. s), rnd = Fin 0, writeNow = 0\<rparr>"
  obtain s' evs where p: "process quote oob w reg ops (spec (rQueues st ! hQueue h)) (hClaim h) ?i (rStore st) = (s', evs)" by fastforce
  let ?u = "st\<lparr>rStore := s', rHandlers := hs, rQueues := release (hQueue h) (rQueues st), rTrace := rTrace st @ evs\<rparr>"
  have first: "run_step quote oob w reg ops st ?u"
  proof -
    have "0 < length (rHandlers st)" "h = rHandlers st ! 0" "take 0 (rHandlers st) @ drop (Suc 0) (rHandlers st) = hs"
      by (simp_all flip: Cons.hyps(2))
    then show ?thesis using run_step.settle [of 0 st h ?i quote oob w reg ops s' evs] p by simp
  qed
  have "\<exists>st'. run_steps quote oob w reg ops ?u st' \<and> rHandlers st' = [] \<and> rCancelled st' = rCancelled ?u \<and> rSweeper st' = rSweeper ?u \<and>
      rMain st' = rMain ?u \<and> rLoops st' = rLoops ?u" by (rule Cons.hyps(1)) simp
  then obtain st' where st': "run_steps quote oob w reg ops ?u st'" "rHandlers st' = []" "rCancelled st' = rCancelled st" "rSweeper st' = rSweeper st"
      "rMain st' = rMain st" "rLoops st' = rLoops st" by auto
  have "run_steps quote oob w reg ops st st'" by (rule converse_rtranclp_into_rtranclp [OF first st'(1)])
  then show ?case using st'(2-) by blast
qed

text \<open>A worker whose context is cancelled is never stuck: from every state it can reach there is a way for all claim loops and handlers to
  end and for \<open>Run\<close> to return.\<close>

theorem shutdown_completes:
  assumes "run_steps quote oob w reg ops (run_start w s) st" "rCancelled st"
  shows "\<exists>st'. run_steps quote oob w reg ops st st' \<and> rMain st' = MReturned \<and> rHandlers st' = [] \<and> list_all (\<lambda>l. l = LExited) (rLoops st')"
proof -
  let ?step = "run_step quote oob w reg ops"
  obtain a where a: "?step\<^sup>*\<^sup>* st a" "rCancelled a" "list_all (\<lambda>l. l = LExited) (rLoops a)" using loops_exit [OF assms(2)] by blast
  obtain b where b: "?step\<^sup>*\<^sup>* a b" "rCancelled b" "list_all (\<lambda>l. l = LExited) (rLoops b)" "rSweeper b = SExited"
  proof (cases "rSweeper a")
    case SWait
    then show ?thesis
      using that [of "a\<lparr>rSweeper := SExited\<rparr>"] r_into_rtranclp [of ?step, OF run_step.sweep_done [OF SWait a(2)]] a by simp
  qed (use a that in blast)
  obtain c where c: "?step\<^sup>*\<^sup>* b c" "rHandlers c = []" "rCancelled c" "list_all (\<lambda>l. l = LExited) (rLoops c)" "rSweeper c = SExited"
    using handlers_settle [of quote oob w reg ops b] b by auto
  have "\<exists>d. ?step\<^sup>*\<^sup>* c d \<and> rMain d = MReturned \<and> rHandlers d = [] \<and> list_all (\<lambda>l. l = LExited) (rLoops d)"
  proof -
    have drain: "\<exists>d. ?step\<^sup>*\<^sup>* u d \<and> rMain d = MReturned \<and> rHandlers d = [] \<and> rLoops d = rLoops u" if "rMain u = MDrain" "rHandlers u = []" for u
      using r_into_rtranclp [of ?step, OF run_step.main_drained [OF that(1), of False]] that(2) by (intro exI [of _ "u\<lparr>rMain := MReturned\<rparr>"]) (simp add: drainHandlers_def)
    have join: "\<exists>d. ?step\<^sup>*\<^sup>* u d \<and> rMain d = MReturned \<and> rHandlers d = [] \<and> rLoops d = rLoops u"
      if u: "rMain u = MJoin" "rHandlers u = []" "list_all (\<lambda>l. l = LExited) (rLoops u)" "rSweeper u = SExited" for u
    proof -
      obtain d where "?step\<^sup>*\<^sup>* (u\<lparr>rMain := MDrain\<rparr>) d" "rMain d = MReturned" "rHandlers d = []" "rLoops d = rLoops u"
        using drain [of "u\<lparr>rMain := MDrain\<rparr>"] u(2) by auto
      then show ?thesis using converse_rtranclp_into_rtranclp [of ?step, OF run_step.main_joined [OF u(1,3,4)]] by blast
    qed
    show ?thesis
    proof (cases "rMain c")
      case MRunning
      obtain d where "?step\<^sup>*\<^sup>* (c\<lparr>rMain := MJoin\<rparr>) d" "rMain d = MReturned" "rHandlers d = []" "rLoops d = rLoops c"
        using join [of "c\<lparr>rMain := MJoin\<rparr>"] c by auto
      then show ?thesis using converse_rtranclp_into_rtranclp [of ?step, OF run_step.main_cancelled [OF MRunning c(3)]] c(4) by metis
    next
      case MJoin
      then show ?thesis using join c by metis
    next
      case MDrain
      then show ?thesis using drain c by metis
    qed (use c in blast)
  qed
  then show ?thesis using a(1) b(1) c(1) by (meson rtranclp_trans)
qed


section \<open>A run\<close>

text \<open>A worker with one queue polls, claims a task, and is cancelled.\<close>

definition one_queue :: worker where
  "one_queue = sample_worker\<lparr>queues := [\<lparr>spec = sample_spec, busy = 0, lim = NewLimiter None 0\<rparr>]\<rparr>"

lemma one_queue_ready: "\<forall>q \<in> set (queues one_queue). runnable (spec q) \<and> busy q = 0"
  by (simp add: one_queue_def runnable_def sample_spec_def)

definition one_poll :: poll_input where
  "one_poll = \<lparr>cancelled = False, limNow = 20, claimStart = 20, claimEnd = 21, storeNow = 20\<rparr>"

lemma one_queue_polls:
  "\<exists>st. run_steps quote oob one_queue reg memstore (run_start one_queue sample_pending) st \<and> rCancelled st \<and> length (rHandlers st) = 1 \<and>
    rLoops st = [LWait]"
proof -
  let ?step = "run_step quote oob one_queue reg memstore" and ?a = "run_start one_queue sample_pending"
  let ?b = "?a\<lparr>rLoops := [LClaim]\<rparr>"
  have loops: "rLoops ?a = [LCheck]" "rCancelled ?a = False" "rQueues ?a = queues one_queue" "rStore ?a = sample_pending" "rHandlers ?a = []"
    by (simp_all add: run_start_def one_queue_def)
  have "?step ?a (?a\<lparr>rLoops := [LPoll]\<rparr>)" using run_step.loop_check [of 0 ?a] loops by simp
  moreover have "?step (?a\<lparr>rLoops := [LPoll]\<rparr>) ?b" using run_step.loop_poll [of 0 "?a\<lparr>rLoops := [LPoll]\<rparr>"] loops by simp
  ultimately have 1: "?step\<^sup>*\<^sup>* ?a ?b" by (meson r_into_rtranclp rtranclp.rtrancl_into_rtrancl)
  obtain cs q' s' evs where p: "pollOnce one_queue memstore one_poll (queues one_queue ! 0) sample_pending = (cs, q', s', evs)" by (metis prod_cases4)
  have "case pollOnce one_queue memstore one_poll (queues one_queue ! 0) sample_pending of (cs, r) \<Rightarrow> length cs = 1" by code_simp
  then have n: "length cs = 1" using p by simp
  let ?c = "?b\<lparr>rLoops := [LWait], rQueues := (queues one_queue)[0 := q'], rStore := s', rHandlers := dispatch_all 0 cs, rTrace := rTrace ?b @ evs\<rparr>"
  have 2: "?step ?b ?c" using run_step.loop_claim [of 0 ?b one_poll one_queue memstore cs q' s' evs] p loops by (simp add: one_poll_def)
  have 3: "?step ?c (?c\<lparr>rCancelled := True\<rparr>)" by (rule run_step.cancel)
  have "?step\<^sup>*\<^sup>* ?a (?c\<lparr>rCancelled := True\<rparr>)" using 1 2 3 by (meson rtranclp.rtrancl_into_rtrancl)
  then show ?thesis using n by (intro exI [of _ "?c\<lparr>rCancelled := True\<rparr>"]) (simp add: dispatch_all_def)
qed

theorem run_within_concurrency_witness:
  "\<exists>st. run_steps (\<lambda>x. x) (\<lambda>_. 0) one_queue sample_reg memstore (run_start one_queue sample_pending) st \<and> busy (rQueues st ! 0) = int (in_flight 0 (rHandlers st)) \<and>
    length (rHandlers st) = 1"
proof -
  obtain st where "run_steps (\<lambda>x. x) (\<lambda>_. 0) one_queue sample_reg memstore (run_start one_queue sample_pending) st" "length (rHandlers st) = 1"
    using one_queue_polls by blast
  moreover from this have "busy (rQueues st ! 0) = int (in_flight 0 (rHandlers st))"
    using run_within_concurrency [OF one_queue_ready, of _ _ _ _ st 0] by (simp add: one_queue_def)
  ultimately show ?thesis by blast
qed

theorem shutdown_is_graceful_witness:
  "\<exists>st. run_steps (\<lambda>x. x) (\<lambda>_. 0) one_queue sample_reg memstore (run_start one_queue sample_pending) st \<and> rCancelled st \<and> length (rHandlers st) = 1 \<and>
    (\<forall>st'. run_steps (\<lambda>x. x) (\<lambda>_. 0) one_queue sample_reg memstore st st' \<longrightarrow> size (claims_of 0 st') \<le> 1)"
proof -
  obtain st where st: "run_steps (\<lambda>x. x) (\<lambda>_. 0) one_queue sample_reg memstore (run_start one_queue sample_pending) st" "rCancelled st" "length (rHandlers st) = 1"
      "rLoops st = [LWait]" using one_queue_polls by blast
  have "size (claims_of 0 st) \<le> 1"
    using st(3) length_filter_le [of "\<lambda>h. hQueue h = 0" "rHandlers st"] unfolding claims_of_def size_mset length_map by simp
  moreover have "claims_of 0 st' \<subseteq># claims_of 0 st" if "run_steps (\<lambda>x. x) (\<lambda>_. 0) one_queue sample_reg memstore st st'" for st'
    using shutdown_is_graceful [OF one_queue_ready st(1,2) that, of 0] st(4) by (simp add: one_queue_def)
  ultimately show ?thesis using st size_mset_mono by (meson order_trans)
qed

theorem shutdown_completes_witness:
  "\<exists>st. run_steps (\<lambda>x. x) (\<lambda>_. 0) one_queue sample_reg memstore (run_start one_queue sample_pending) st \<and> rMain st = MReturned \<and> rHandlers st = []"
proof -
  obtain st where st: "run_steps (\<lambda>x. x) (\<lambda>_. 0) one_queue sample_reg memstore (run_start one_queue sample_pending) st" "rCancelled st"
    using one_queue_polls by blast
  then show ?thesis using shutdown_completes [OF st] by (meson rtranclp_trans)
qed

end
