(* ===== verification/Observability.thy ===== *)
theory Observability
  imports Worker Memstore_Props Server_Http
begin

text \<open>
  What the system shows of itself: the Prometheus instruments the worker's events drive and the collector that reads the store's
  statistics at scrape time (\<open>core/metrics\<close>), and the sinks of the audit records (\<open>core/audit\<close>, \<open>server/audit\<close>). The Prometheus client is
  not part of the code: an operation on an instrument is the list of calls it makes on the client, and whether the client accepts a
  collector is a parameter.
\<close>

section \<open>Instruments\<close>

datatype instrument = retryTotal | successAfterRetry | dlqArrivalsTotal | claimLatency | handlerDuration

fun instrument_name :: "instrument \<Rightarrow> string" where
  "instrument_name retryTotal = ''rdq_task_retries_total''"
| "instrument_name successAfterRetry = ''rdq_task_success_after_retry_total''"
| "instrument_name dlqArrivalsTotal = ''rdq_task_dlq_arrivals_total''"
| "instrument_name claimLatency = ''rdq_claim_latency_seconds''"
| "instrument_name handlerDuration = ''rdq_handler_duration_seconds''"

fun instrument_labels :: "instrument \<Rightarrow> string list" where
  "instrument_labels handlerDuration = [''queue'', ''outcome'']"
| "instrument_labels _ = [''queue'']"

text \<open>A collector is an instrument or the collector of statistics. \<open>WithLabelValues\<close> makes the child of an instrument for the values of its labels.\<close>

datatype collector = Instrument instrument | StatsCollector "string list"

datatype prom_call =
    Registered collector
  | WithLabelValues instrument "string list"
  | Inc instrument "string list"
  | Observe instrument "string list" f64

fun registerAll :: "(collector \<Rightarrow> 'e option) \<Rightarrow> collector list \<Rightarrow> 'e + prom_call list" where
  "registerAll register [] = Inr []"
| "registerAll register (c # cs) = (case register c of
      Some e \<Rightarrow> Inl e
    | None \<Rightarrow> (case registerAll register cs of Inl e \<Rightarrow> Inl e | Inr calls \<Rightarrow> Inr (Registered c # calls)))"

definition queue_children :: "string \<Rightarrow> prom_call list" where
  "queue_children q = [WithLabelValues retryTotal [q], WithLabelValues successAfterRetry [q], WithLabelValues dlqArrivalsTotal [q],
     WithLabelValues claimLatency [q], WithLabelValues handlerDuration [q, ''success''], WithLabelValues handlerDuration [q, ''failure'']]"

definition New_metrics :: "(collector \<Rightarrow> 'e option) \<Rightarrow> bool \<Rightarrow> string list \<Rightarrow> 'e + prom_call list" where
  "New_metrics register hasStore qs =
     (case registerAll register ([Instrument retryTotal, Instrument successAfterRetry, Instrument dlqArrivalsTotal, Instrument claimLatency,
          Instrument handlerDuration] @ (if hasStore then [StatsCollector qs] else [])) of
        Inl e \<Rightarrow> Inl e
      | Inr calls \<Rightarrow> Inr (calls @ concat (map queue_children qs)))"

section \<open>Recording\<close>

definition RecordClaimLatency :: "string \<Rightarrow> duration \<Rightarrow> prom_call list" where
  "RecordClaimLatency queue d = [Observe claimLatency [queue] (Seconds d)]"

definition RecordHandlerDuration :: "string \<Rightarrow> duration \<Rightarrow> bool \<Rightarrow> prom_call list" where
  "RecordHandlerDuration queue d ok = [Observe handlerDuration [queue, if \<not> ok then ''failure'' else ''success''] (Seconds d)]"

definition Registry_IncrRetry :: "string \<Rightarrow> prom_call list" where
  "Registry_IncrRetry queue = [Inc retryTotal [queue]]"

definition IncrSuccessAfterRetry :: "string \<Rightarrow> prom_call list" where
  "IncrSuccessAfterRetry queue = [Inc successAfterRetry [queue]]"

definition IncrDLQArrival :: "string \<Rightarrow> prom_call list" where
  "IncrDLQArrival queue = [Inc dlqArrivalsTotal [queue]]"

text \<open>The worker's metric events on a recorder; the other events are not metrics.\<close>

fun record_event :: "worker_event \<Rightarrow> prom_call list" where
  "record_event (ClaimLatency q d) = RecordClaimLatency q d"
| "record_event (HandlerDuration q d ok) = RecordHandlerDuration q d ok"
| "record_event (SuccessAfterRetry q) = IncrSuccessAfterRetry q"
| "record_event (DLQArrival q) = IncrDLQArrival q"
| "record_event (IncrRetry q) = Registry_IncrRetry q"
| "record_event _ = []"

definition record_events :: "worker_event list \<Rightarrow> prom_call list" where
  "record_events evs = concat (map record_event evs)"

section \<open>Scraping\<close>

definition dlqDepthDesc :: string where "dlqDepthDesc = ''rdq_dlq_depth''"
definition oldestPendingAgeDesc :: string where "oldestPendingAgeDesc = ''rdq_oldest_pending_age_seconds''"

definition Describe :: "string list" where
  "Describe = [dlqDepthDesc, oldestPendingAgeDesc]"

text \<open>The gauges of a scrape: name, value, queue. The clock readings are those the store takes, one per queue.\<close>

fun Collect_stats :: "'s storage \<Rightarrow> (string \<Rightarrow> time) \<Rightarrow> 's \<Rightarrow> string list \<Rightarrow> (string \<times> f64 \<times> string) list" where
  "Collect_stats ops now s [] = []"
| "Collect_stats ops now s (q # qs) = (case st_Stats ops (now q) s q of
      Inl e \<Rightarrow> Collect_stats ops now s qs
    | Inr st \<Rightarrow> (dlqDepthDesc, f_of_int (DLQDepth st), q) # (oldestPendingAgeDesc, Seconds (OldestPendingAge st), q) #
        Collect_stats ops now s qs)"

section \<open>Audit sinks\<close>

definition auditMsg :: string where "auditMsg = ''audit.event''"

definition LogSink_Emit :: "audit_record \<Rightarrow> string \<times> attr list" where
  "LogSink_Emit r = (auditMsg,
     [(''timestamp'', ATime (ATimestamp r)), (''principal'', AString (APrincipal r)), (''action'', AString (AAction r)),
      (''queue'', AString (AQueue r)), (''selector'', AString (ASelector r)), (''count'', AInt (ACount r)),
      (''outcome'', AString (AOutcome r)), (''error'', AString (AErrorMessage r))])"

text \<open>The Postgres sink: the arguments of its insert, and the error the database reports.\<close>

definition PGSink_Emit :: "(attr list \<Rightarrow> 'db \<Rightarrow> 'e option \<times> 'db) \<Rightarrow> audit_record \<Rightarrow> 'db \<Rightarrow> 'e option \<times> 'db" where
  "PGSink_Emit insertAudit r db = insertAudit
     [(''timestamp'', ATime (ATimestamp r)), (''principal'', AString (APrincipal r)), (''action'', AString (AAction r)),
      (''queue'', AString (AQueue r)), (''selector'', AString (ASelector r)), (''count'', AInt (ACount r)),
      (''outcome'', AString (AOutcome r)), (''error_message'', AString (AErrorMessage r))] db"

section \<open>What is shown is what is\<close>

lemma LogSink_Emit_inj: "LogSink_Emit r = LogSink_Emit r' \<Longrightarrow> r = r'"
  by (simp add: LogSink_Emit_def)

text \<open>The gauges of a scrape are the truth: for every queue the collector was given, the dead-letter depth is the number of its dead tasks in the store
  and the age that of its oldest pending task, zero when there is none.\<close>

theorem scrape_reports_store:
  assumes "wf_store s"
  shows "Collect_stats memstore now s qs = concat (map (\<lambda>q.
    let ts = {CreatedAt (env r) | k r. lookup s k = Some r \<and> Queue (env r) = q \<and> Status (env r) = StatusPending} in
    [(dlqDepthDesc, f_of_int (int (card {k. \<exists>r. lookup s k = Some r \<and> isDead q r})), q),
     (oldestPendingAgeDesc, Seconds (if ts = {} then 0 else max 0 (time_sub (now q) (Min ts))), q)]) qs)"
proof (induction qs)
  case (Cons q qs)
  obtain st where "Stats (now q) s q = Inr st" "DLQDepth st = int (card {k. \<exists>r. lookup s k = Some r \<and> isDead q r})"
    "OldestPendingAge st =
        (let ts = {CreatedAt (env r) | k r. lookup s k = Some r \<and> Queue (env r) = q \<and> Status (env r) = StatusPending}
         in if ts = {} then 0 else max 0 (time_sub (now q) (Min ts)))"
    using Stats_spec [OF assms, of "now q" q] by blast
  then show ?case using Cons.IH by (simp add: memstore_def Let_def)
qed simp

theorem scrape_reports_store_witness:
  "Collect_stats memstore (\<lambda>_. 9) sample_dead [''q''] = concat (map (\<lambda>q.
    let ts = {CreatedAt (env r) | k r. lookup sample_dead k = Some r \<and> Queue (env r) = q \<and> Status (env r) = StatusPending} in
    [(dlqDepthDesc, f_of_int (int (card {k. \<exists>r. lookup sample_dead k = Some r \<and> isDead q r})), q),
     (oldestPendingAgeDesc, Seconds (if ts = {} then 0 else max 0 (time_sub 9 (Min ts))), q)]) [''q''])"
  by (rule scrape_reports_store [OF wf_sample_dead])

text \<open>Every processed task is counted at most once: a run increments at most one of the retry, success and arrival counters of its queue, and observes its
  handler's duration at most once.\<close>

definition increments :: "prom_call list \<Rightarrow> prom_call list" where
  "increments cs = filter (\<lambda>c. case c of Inc i ls \<Rightarrow> True | _ \<Rightarrow> False) cs"

lemma record_events_simps:
  "record_events [] = []" "record_events (evs @ evs') = record_events evs @ record_events evs'"
  "increments (cs @ cs') = increments cs @ increments cs'" "record_events (log_transition w t task attrs) = []"
  "record_events (abandon w task e) = []" "record_events (record_metric w m) = (if recorder w then record_event m else [])" "increments [] = []"
  by (auto simp: record_events_def increments_def log_transition_def abandon_def record_metric_def)

lemma finish_counts: "length (increments (record_events (snd (finish oob w ops sp task tok i err s)))) \<le> 1"
  by (auto simp: finish_def Let_def split_beta record_events_simps increments_def IncrSuccessAfterRetry_def IncrDLQArrival_def Registry_IncrRetry_def
      split: option.splits)

lemma process_counts: "length (increments (record_events (snd (process quote oob w reg ops sp c i s)))) \<le> 1"
proof -
  have d: "length (increments (record_events (snd (deadLetter w ops sp now wnow task tok e s)))) \<le> 1" for now wnow task tok e s
    by (auto simp: deadLetter_def Let_def split_beta record_events_simps increments_def IncrDLQArrival_def split: option.splits)
  have h: "increments (record_events (record_metric w (HandlerDuration q t ok))) = []" for q t ok
    by (simp add: record_events_simps increments_def RecordHandlerDuration_def)
  show ?thesis
    using d finish_counts by (auto simp: process_def Let_def split_beta record_events_simps(1-5) h split: resolution.splits)
qed

end
