(* ===== verification/Config_Scalars.thy ===== *)
theory Config_Scalars
  imports Config_Units Codec_Props "HOL-Library.Code_Target_Nat"
begin

text \<open>
  The written forms of the configuration's scalars (\<open>core/config/units.go\<close>): the human YAML forms with units, which rest on
  the library's duration and float parsers, and the JSON forms of the admin API. What the YAML library makes of a node when asked for
  a string or for an integer is a parameter. The lemmas show that the JSON forms read back, and that whole counts of a binary unit are exact.
\<close>

section \<open>Durations in words\<close>

definition is_dec :: "char \<Rightarrow> bool" where
  "is_dec c \<longleftrightarrow> digit_val c \<noteq> None"

definition num_val :: "char \<Rightarrow> nat" where
  "num_val c = or_else (digit_val c) 0"

text \<open>\<open>leadingInt\<close> and \<open>leadingFraction\<close> of the package \<open>time\<close>, on 64-bit unsigned numbers.\<close>

fun leadingInt :: "nat \<Rightarrow> string \<Rightarrow> (nat \<times> string) option" where
  "leadingInt x [] = Some (x, [])"
| "leadingInt x (c # s) =
     (if \<not> is_dec c then Some (x, c # s)
      else if x > 2 ^ 63 div 10 then None
      else let y = x * 10 + num_val c in if y > 2 ^ 63 then None else leadingInt y s)"

fun leadingFraction :: "nat \<Rightarrow> f64 \<Rightarrow> bool \<Rightarrow> string \<Rightarrow> nat \<times> f64 \<times> string" where
  "leadingFraction x scale overflow [] = (x, scale, [])"
| "leadingFraction x scale overflow (c # s) =
     (if \<not> is_dec c then (x, scale, c # s)
      else if overflow then leadingFraction x scale True s
      else if x > (2 ^ 63 - 1) div 10 then leadingFraction x scale True s
      else let y = x * 10 + num_val c in
        if y > 2 ^ 63 then leadingFraction x scale True s
        else leadingFraction y (f_mul scale (Fin 10)) False s)"

lemma leadingInt_shorter: "leadingInt x s = Some (y, r) \<Longrightarrow> length r \<le> length s"
  by (induction x s rule: leadingInt.induct) (auto simp: Let_def split: if_splits)

lemma leadingFraction_shorter: "leadingFraction x sc b s = (y, sc', r) \<Longrightarrow> length r \<le> length s"
  by (induction x sc b s rule: leadingFraction.induct) (auto simp: Let_def split: if_splits)

text \<open>The micro sign and the Greek mu are both accepted, in UTF-8.\<close>

definition unitMap :: "nat gomap" where
  "unitMap = [(''ns'', 1), (''us'', 1000), ([CHR 0xC2, CHR 0xB5, CHR ''s''], 1000), ([CHR 0xCE, CHR 0xBC, CHR ''s''], 1000),
     (''ms'', 1000000), (''s'', 1000000000), (''m'', 60 * 1000000000), (''h'', 3600 * 1000000000)]"

definition unit_char :: "char \<Rightarrow> bool" where
  "unit_char c \<longleftrightarrow> \<not> (c = CHR ''.'' \<or> is_dec c)"

text \<open>One number with its unit: its nanoseconds and the rest of the text.\<close>

definition durationTerm :: "(f64 \<Rightarrow> int) \<Rightarrow> string \<Rightarrow> (nat \<times> string) option" where
  "durationTerm oob s =
     (if s = [] \<or> \<not> (hd s = CHR ''.'' \<or> is_dec (hd s)) then None
      else case leadingInt 0 s of None \<Rightarrow> None
      | Some (v, s1) \<Rightarrow>
          let pre = (length s \<noteq> length s1);
              (f, scale, s2, post) = (if s1 \<noteq> [] \<and> hd s1 = CHR ''.'' then
                  (case leadingFraction 0 (Fin 1) False (tl s1) of (f, scale, r) \<Rightarrow> (f, scale, r, length (tl s1) \<noteq> length r))
                else (0, Fin 1, s1, False));
              u = takeWhile unit_char s2
          in if \<not> pre \<and> \<not> post \<or> u = [] then None
             else case map_of unitMap u of None \<Rightarrow> None
             | Some m \<Rightarrow>
                 if v > 2 ^ 63 div m then None
                 else let v1 = v * m;
                          v2 = (if f > 0 then v1 + nat (int64_of_f64 oob (f_mul (f_of_int (int f)) (f_div (f_of_int (int m)) scale))) else v1)
                      in if f > 0 \<and> v2 > 2 ^ 63 then None else Some (v2, dropWhile unit_char s2))"

lemma durationTerm_shorter:
  assumes "durationTerm oob s = Some (v, r)"
  shows "length r < length s"
proof -
  obtain x s1 where l: "leadingInt 0 s = Some (x, s1)" using assms by (auto simp: durationTerm_def split: if_splits option.splits)
  define s2 where "s2 = (if s1 \<noteq> [] \<and> hd s1 = CHR ''.'' then snd (snd (leadingFraction 0 (Fin 1) False (tl s1))) else s1)"
  have "length s2 \<le> length s1"
    using leadingFraction_shorter [of 0 "Fin 1" False "tl s1"] by (cases "leadingFraction 0 (Fin 1) False (tl s1)") (auto simp: s2_def)
  moreover have "r = dropWhile unit_char s2" "takeWhile unit_char s2 \<noteq> []"
    using assms l by (auto simp: durationTerm_def s2_def Let_def split_beta split: if_splits option.splits)
  moreover from this have "length (dropWhile unit_char s2) < length s2"
    by (metis append_self_conv2 le_neq_implies_less length_dropWhile_le takeWhile_dropWhile_id append_eq_append_conv)
  ultimately show ?thesis using leadingInt_shorter [OF l] by simp
qed

function durationTerms :: "(f64 \<Rightarrow> int) \<Rightarrow> nat \<Rightarrow> string \<Rightarrow> nat option" where
  "durationTerms oob d s =
     (if s = [] then Some d
      else case durationTerm oob s of None \<Rightarrow> None
      | Some (v, r) \<Rightarrow> let d1 = (d + v) mod 2 ^ 64 in if d1 > 2 ^ 63 then None else durationTerms oob d1 r)"
  by pat_completeness auto
termination by (relation "measure (\<lambda>(oob, d, s). length s)") (auto dest: durationTerm_shorter)

declare durationTerms.simps [simp del]

definition ParseDuration :: "(f64 \<Rightarrow> int) \<Rightarrow> string \<Rightarrow> duration option" where
  "ParseDuration oob s =
     (let neg = (s \<noteq> [] \<and> hd s = CHR ''-'');
          s1 = (if s \<noteq> [] \<and> (hd s = CHR ''-'' \<or> hd s = CHR ''+'') then tl s else s)
      in if s1 = ''0'' then Some 0
         else if s1 = [] then None
         else case durationTerms oob 0 s1 of None \<Rightarrow> None
         | Some d \<Rightarrow> if neg then Some (wrap64 (- int d)) else if d > 2 ^ 63 - 1 then None else Some (int d))"

text \<open>\<open>asString\<close>: what the YAML node decodes to when asked for a string.\<close>

definition Duration_UnmarshalYAML :: "(f64 \<Rightarrow> int) \<Rightarrow> ('n \<Rightarrow> string option) \<Rightarrow> 'n \<Rightarrow> duration option" where
  "Duration_UnmarshalYAML oob asString node = (case asString node of None \<Rightarrow> None | Some s \<Rightarrow> ParseDuration oob (TrimSpace s))"

section \<open>Sizes\<close>

text \<open>\<open>strconv.ParseFloat\<close>: the special values, then a sign, digits of base 10 or 16 around one point, an exponent, and underscores between digits.\<close>

definition lower_ascii :: "char \<Rightarrow> char" where
  "lower_ascii c = (if CHR ''A'' \<le> c \<and> c \<le> CHR ''Z'' then char_of ((of_char c :: nat) + 32) else c)"

definition special_float :: "string \<Rightarrow> f64 option" where
  "special_float s =
     (let t = map lower_ascii s;
          (neg, u) = (case t of c # r \<Rightarrow> if c = CHR ''-'' then (True, r) else if c = CHR ''+'' then (False, r) else (False, t) | [] \<Rightarrow> (False, []))
      in if u = ''inf'' \<or> u = ''infinity'' then Some (if neg then NInf else PInf)
         else if t = ''nan'' then Some NaN
         else None)"

definition hex_digit :: "nat \<Rightarrow> char \<Rightarrow> nat option" where
  "hex_digit base c =
     (if is_dec c then Some (num_val c)
      else if base = 16 \<and> CHR ''a'' \<le> lower_ascii c \<and> lower_ascii c \<le> CHR ''f'' then Some (of_char (lower_ascii c) - 87)
      else None)"

text \<open>The digits: the number they spell, whether there was a digit, how many stand after the point, and the rest.\<close>

fun floatDigits :: "nat \<Rightarrow> nat \<Rightarrow> bool \<Rightarrow> nat \<Rightarrow> bool \<Rightarrow> string \<Rightarrow> nat \<times> bool \<times> nat \<times> string" where
  "floatDigits base m sawdigits frc sawdot [] = (m, sawdigits, frc, [])"
| "floatDigits base m sawdigits frc sawdot (c # s) =
     (if c = CHR ''_'' then floatDigits base m sawdigits frc sawdot s
      else if c = CHR ''.'' then
        (if sawdot then (m, sawdigits, frc, c # s) else floatDigits base m sawdigits frc True s)
      else case hex_digit base c of
        None \<Rightarrow> (m, sawdigits, frc, c # s)
      | Some d \<Rightarrow> floatDigits base (m * base + d) True (if sawdot then Suc frc else frc) sawdot s)"

fun expDigits :: "int \<Rightarrow> string \<Rightarrow> int \<times> string" where
  "expDigits e [] = (e, [])"
| "expDigits e (c # s) =
     (if c = CHR ''_'' then expDigits e s
      else if is_dec c then expDigits (if e < 10000 then e * 10 + int (num_val c) else e) s
      else (e, c # s))"

datatype saw = SawNothing | SawDigit | SawUnderscore | SawOther

fun underscores :: "bool \<Rightarrow> saw \<Rightarrow> string \<Rightarrow> bool" where
  "underscores hex saw [] = (saw \<noteq> SawUnderscore)"
| "underscores hex saw (c # s) =
     (if is_dec c \<or> hex \<and> CHR ''a'' \<le> lower_ascii c \<and> lower_ascii c \<le> CHR ''f'' then underscores hex SawDigit s
      else if c = CHR ''_'' then saw = SawDigit \<and> underscores hex SawUnderscore s
      else saw \<noteq> SawUnderscore \<and> underscores hex SawOther s)"

definition unsigned_part :: "string \<Rightarrow> string" where
  "unsigned_part s = (if s \<noteq> [] \<and> (hd s = CHR ''-'' \<or> hd s = CHR ''+'') then tl s else s)"

definition underscoreOK :: "string \<Rightarrow> bool" where
  "underscoreOK s =
     (let t = unsigned_part s in
      if length t \<ge> 2 \<and> hd t = CHR ''0'' \<and> lower_ascii (t ! 1) \<in> {CHR ''b'', CHR ''o'', CHR ''x''}
      then underscores (lower_ascii (t ! 1) = CHR ''x'') SawDigit (drop 2 t)
      else underscores False SawNothing t)"

definition ParseFloat :: "string \<Rightarrow> f64 option" where
  "ParseFloat s = (case special_float s of Some x \<Rightarrow> Some x | None \<Rightarrow>
     (let neg = (s \<noteq> [] \<and> hd s = CHR ''-''); t = unsigned_part s;
          hex = (length t > 2 \<and> hd t = CHR ''0'' \<and> lower_ascii (t ! 1) = CHR ''x'');
          base = (if hex then 16 else 10);
          (m, sawdigits, frc, r) = floatDigits base 0 False 0 False (if hex then drop 2 t else t);
          hasExp = (r \<noteq> [] \<and> lower_ascii (hd r) = (if hex then CHR ''p'' else CHR ''e''));
          er = unsigned_part (tl r);
          (e, rest) = (if hasExp then (case expDigits 0 er of (e, z) \<Rightarrow> (if tl r \<noteq> [] \<and> hd (tl r) = CHR ''-'' then - e else e, z)) else (0, r));
          scale = (if hex then pow2 (e - 4 * int frc) else if e \<ge> int frc then 10 ^ nat (e - int frc) else 1 / 10 ^ nat (int frc - e));
          v = round_f64 ((if neg then - 1 else 1) * rat_of_nat m * scale)
      in if \<not> sawdigits \<or> hasExp \<and> (er = [] \<or> \<not> is_dec (hd er)) \<or> \<not> hasExp \<and> hex \<or> rest \<noteq> [] \<or>
            CHR ''_'' \<in> set s \<and> \<not> underscoreOK s \<or> v = PInf \<or> v = NInf
         then None else Some v))"

definition sizeUnits :: "(string \<times> int) list" where
  "sizeUnits = [(''KiB'', 2 ^ 10), (''MiB'', 2 ^ 20), (''GiB'', 2 ^ 30), (''TiB'', 2 ^ 40), (''B'', 1)]"

definition parseSize :: "(f64 \<Rightarrow> int) \<Rightarrow> string \<Rightarrow> int option" where
  "parseSize oob raw =
     (if raw = [] then None
      else case find (\<lambda>(sfx, um). suffix sfx raw) sizeUnits of
        Some (sfx, um) \<Rightarrow> (case ParseFloat (TrimSpace (take (length raw - length sfx) raw)) of
            None \<Rightarrow> None
          | Some f \<Rightarrow> if f_lt f (Fin 0) then None else Some (int64_of_f64 oob (f_mul f (f_of_int um))))
      | None \<Rightarrow> ParseInt raw)"

definition Size_UnmarshalYAML :: "(f64 \<Rightarrow> int) \<Rightarrow> ('n \<Rightarrow> string option) \<Rightarrow> 'n \<Rightarrow> int option" where
  "Size_UnmarshalYAML oob asString node = (case asString node of None \<Rightarrow> None | Some s \<Rightarrow> parseSize oob (TrimSpace s))"

definition Size_MarshalJSON :: "int \<Rightarrow> string" where
  "Size_MarshalJSON s = FormatInt s"

text \<open>\<open>json.Unmarshal\<close> of a document into an integer or a string.\<close>

definition json_int :: "string \<Rightarrow> int option" where
  "json_int data = (case parse_json data of None \<Rightarrow> None | Some j \<Rightarrow> decodeInt 0 j)"

definition json_string :: "string \<Rightarrow> string option" where
  "json_string data = (case parse_json data of None \<Rightarrow> None | Some j \<Rightarrow> decodeString [] j)"

definition Size_UnmarshalJSON :: "string \<Rightarrow> int option" where
  "Size_UnmarshalJSON data = json_int data"

definition Duration_fromJSON :: "string \<Rightarrow> duration option" where
  "Duration_fromJSON data = map_option Duration_UnmarshalJSON (json_int data)"

section \<open>Rates and status matchers\<close>

definition rate_of :: "string option \<Rightarrow> rate option" where
  "rate_of s = (case s of None \<Rightarrow> None | Some t \<Rightarrow> (case parseRate (TrimSpace t) of Inl e \<Rightarrow> None | Inr r \<Rightarrow> Some r))"

definition Rate_UnmarshalYAML :: "('n \<Rightarrow> string option) \<Rightarrow> 'n \<Rightarrow> rate option" where
  "Rate_UnmarshalYAML asString node = rate_of (asString node)"

definition Rate_MarshalJSON :: "(duration \<Rightarrow> string) \<Rightarrow> rate \<Rightarrow> string" where
  "Rate_MarshalJSON durString r = json_quote (Rate_String durString r)"

definition Rate_UnmarshalJSON :: "string \<Rightarrow> rate option" where
  "Rate_UnmarshalJSON data = rate_of (json_string data)"

definition matcher_of :: "int option \<Rightarrow> string option \<Rightarrow> status_matcher option" where
  "matcher_of code class = (case code of
      Some n \<Rightarrow> matcherFromCode n
    | None \<Rightarrow> (case class of None \<Rightarrow> None | Some c \<Rightarrow> matcherFromClass c))"

definition StatusMatcher_UnmarshalYAML :: "('n \<Rightarrow> int option) \<Rightarrow> ('n \<Rightarrow> string option) \<Rightarrow> 'n \<Rightarrow> status_matcher option" where
  "StatusMatcher_UnmarshalYAML asInt asString node = matcher_of (asInt node) (asString node)"

definition StatusMatcher_MarshalJSON :: "status_matcher \<Rightarrow> string" where
  "StatusMatcher_MarshalJSON m = (if Code m > 0 then FormatInt (Code m) else json_quote (Class m))"

definition StatusMatcher_UnmarshalJSON :: "string \<Rightarrow> status_matcher option" where
  "StatusMatcher_UnmarshalJSON data = matcher_of (json_int data) (json_string data)"


section \<open>Reading back\<close>

lemma json_reads_int: "int64 n \<Longrightarrow> json_int (FormatInt n) = Some n"
  using Compact_reads [OF reads_int [of 0 n]] by (simp add: json_int_def)

lemma json_reads_string: "valid_utf8 s \<Longrightarrow> json_string (json_quote s) = Some s" "json_int (json_quote s) = None"
  using Compact_reads [OF reads_string [of 0 s]] by (simp_all add: json_string_def json_int_def decodeInt_def)

lemma size_roundtrip: "int64 n \<Longrightarrow> Size_UnmarshalJSON (Size_MarshalJSON n) = Some n"
  by (simp add: Size_UnmarshalJSON_def Size_MarshalJSON_def json_reads_int)

lemma matcher_roundtrip:
  assumes "matcherFromCode n = Some m \<or> matcherFromClass c = Some m"
  shows "StatusMatcher_UnmarshalJSON (StatusMatcher_MarshalJSON m) = Some m"
  using assms
proof
  assume a: "matcherFromCode n = Some m"
  then have "m = \<lparr>Code = n, Class = []\<rparr>" "100 \<le> n" "n \<le> 599" by (auto simp: matcherFromCode_def split: if_splits)
  then show ?thesis using a by (simp add: StatusMatcher_UnmarshalJSON_def StatusMatcher_MarshalJSON_def json_reads_int int64_def matcher_of_def)
next
  assume a: "matcherFromClass c = Some m"
  then have m: "m = \<lparr>Code = 0, Class = c\<rparr>" "validStatusClass c" by (auto simp: matcherFromClass_def split: if_splits)
  then obtain d where "c = [d, CHR ''x'', CHR ''x'']" "CHR ''1'' \<le> d" "d \<le> CHR ''5''"
    by (auto simp: validStatusClass_def length_Suc_conv numeral_3_eq_3)
  then have "list_all text_char c" by (auto simp: text_char_def byte_in_def less_eq_char_def)
  then have "valid_utf8 c" using json_body_text by blast
  then show ?thesis using a m by (simp add: StatusMatcher_UnmarshalJSON_def StatusMatcher_MarshalJSON_def json_reads_string matcher_of_def)
qed

lemma floatDigits_digits:
  "digits_val m s = Some v \<Longrightarrow> floatDigits 10 m b fr False s = (v, b \<or> s \<noteq> [], fr, [])"
proof (induction m s arbitrary: b rule: digits_val.induct)
  case (2 m c s)
  then obtain d where d: "digit_val c = Some d" "digits_val (10 * m + d) s = Some v" by (auto split: option.splits)
  then have "c \<noteq> CHR ''_''" "c \<noteq> CHR ''.''" by (auto simp: digit_val_def)
  moreover have "hex_digit 10 c = Some d" using d(1) by (simp add: hex_digit_def is_dec_def num_val_def)
  ultimately show ?case using "2.IH" [OF d(1,2), of True] by (simp add: mult.commute)
qed simp

lemma ParseFloat_FormatUint:
  assumes "n \<le> 2 ^ 53"
  shows "ParseFloat (FormatUint n) = Some (Fin (rat_of_nat n))"
proof -
  obtain c s where c: "FormatUint n = c # s" using FormatUint_nonempty [of n] by (cases "FormatUint n") auto
  have dig: "digit_val x \<noteq> None" if "x \<in> set (FormatUint n)" for x using that FormatUint_digits by blast
  then have hd: "digit_val c \<noteq> None" by (simp add: c)
  then have plain: "c \<noteq> CHR ''-''" "c \<noteq> CHR ''+''" "lower_ascii c = c" "c \<noteq> CHR ''i''" "c \<noteq> CHR ''n''"
    using digit_ascii [of c] by (auto simp: lower_ascii_def less_eq_char_def)
  then have sp: "special_float (FormatUint n) = None" by (simp add: special_float_def c)
  have u: "unsigned_part (FormatUint n) = FormatUint n" using plain by (simp add: unsigned_part_def c)
  have nx: "\<not> (length (FormatUint n) > 2 \<and> hd (FormatUint n) = CHR ''0'' \<and> lower_ascii (FormatUint n ! 1) = CHR ''x'')"
  proof
    assume a: "length (FormatUint n) > 2 \<and> hd (FormatUint n) = CHR ''0'' \<and> lower_ascii (FormatUint n ! 1) = CHR ''x''"
    then have "digit_val (FormatUint n ! 1) \<noteq> None" using dig nth_mem [of 1 "FormatUint n"] by force
    then show False using a digit_ascii [of "FormatUint n ! 1"] by (auto simp: lower_ascii_def less_eq_char_def split: if_splits)
  qed
  have fd: "floatDigits 10 0 False 0 False (FormatUint n) = (n, True, 0, [])"
    using floatDigits_digits [of 0 "FormatUint n" n False 0] digits_val_FormatUint [of n] by (simp add: c)
  have h: "hd (FormatUint n) = c" by (simp add: c)
  have us: "CHR ''_'' \<notin> set (FormatUint n)" using dig [of "CHR ''_''"] by (auto simp: digit_val_def)
  have "round_f64 (rat_of_nat n) = Fin (rat_of_nat n)" using round_f64_int [of "int n"] assms by simp
  then show ?thesis
    using plain us by (simp only: ParseFloat_def sp u nx fd Let_def option.case prod.case if_False) (simp add: h)
qed


lemma find_sizeUnits:
  assumes "(sfx, um) \<in> set sizeUnits"
  shows "find (\<lambda>(x, y). suffix x (FormatUint n @ sfx)) sizeUnits = Some (sfx, um)"
proof -
  obtain d r where r: "rev (FormatUint n) = d # r" using FormatUint_nonempty [of n] by (cases "rev (FormatUint n)") auto
  then have "d \<in> set (FormatUint n)" by (metis list.set_intros(1) set_rev)
  then have "d \<noteq> CHR ''i''" using FormatUint_digits [of n] by (auto simp: digit_val_def)
  moreover have "sfx = ''KiB'' \<and> um = 2 ^ 10 \<or> sfx = ''MiB'' \<and> um = 2 ^ 20 \<or> sfx = ''GiB'' \<and> um = 2 ^ 30 \<or> sfx = ''TiB'' \<and> um = 2 ^ 40 \<or> sfx = ''B'' \<and> um = 1"
    using assms by (auto simp: sizeUnits_def)
  ultimately show ?thesis by (elim disjE) (simp_all add: sizeUnits_def suffix_to_prefix r)
qed

text \<open>A whole count of a binary unit is read exactly, as far as floats count whole numbers.\<close>

lemma parseSize_exact:
  assumes "(sfx, um) \<in> set sizeUnits" "int n * um \<le> 2 ^ 53"
  shows "parseSize oob (FormatUint n @ sfx) = Some (int n * um)"
proof -
  have um: "1 \<le> um" "um \<le> 2 ^ 40" using assms(1) by (auto simp: sizeUnits_def)
  then have "int n \<le> int n * um" by (simp add: mult_le_cancel_left1)
  then have "int n \<le> int (2 ^ 53)" using assms(2) by simp
  then have n: "n \<le> 2 ^ 53" by (simp only: of_nat_le_iff)
  have "\<forall>c \<in> set (FormatUint n). 32 < (of_char c :: nat) \<and> (of_char c :: nat) < 128"
    using FormatUint_digits [of n] digit_ascii by fastforce
  then have t: "TrimSpace (FormatUint n) = FormatUint n" by (rule TrimSpace_ascii)
  have m: "f_mul (Fin (rat_of_nat n)) (f_of_int um) = Fin (rat_of_int (int n * um))"
    using round_f64_int [of "int n * um"] assms(2) um by (simp add: f_of_int_exact)
  have "0 \<le> int n * um" using um by simp
  then have "int64_of_f64 oob (Fin (rat_of_int (int n * um))) = int n * um"
    using assms(2) by (simp add: int64_of_f64_def trunc_rat_def del: of_int_mult)
  then show ?thesis
    using find_sizeUnits [OF assms(1), of n] by (simp add: parseSize_def ParseFloat_FormatUint [OF n] t m del: of_int_mult)
qed

text \<open>Durations as people write them.\<close>

lemma ParseDuration_examples:
  "ParseDuration oob ''500ms'' = Some 500000000" "ParseDuration oob ''1h30m'' = Some 5400000000000" "ParseDuration oob ''-2s'' = Some (- 2000000000)"
  "ParseDuration oob ''60'' = None" "ParseDuration oob ''9223372036854775808ns'' = None"
  by code_simp+

end
