(* ===== verification/Wiring.thy ===== *)
theory Wiring
  imports Worker_Run Server_Http
begin

text \<open>
  The options of the constructors: what each option of the worker (\<open>core/engine\<close>) and of the HTTP server (\<open>server/http\<close>) sets, and that a
  worker built with them is one the lemmas on running workers speak about. The options that install a clock or a random source
  choose inputs of the model and set nothing in it.
\<close>

section \<open>The worker\<close>

definition WithSweepInterval :: "duration \<Rightarrow> worker \<Rightarrow> worker" where
  "WithSweepInterval d w = w\<lparr>sweepInterval := d\<rparr>"

definition WithSweepJitter :: "f64 \<Rightarrow> worker \<Rightarrow> worker" where
  "WithSweepJitter f w = w\<lparr>sweepJitter := f\<rparr>"

text \<open>The last three are given whether their argument is not nil.\<close>

definition WithAbandonHook :: "bool \<Rightarrow> worker \<Rightarrow> worker" where
  "WithAbandonHook fn w = w\<lparr>hook := fn\<rparr>"

definition WithRecorder :: "bool \<Rightarrow> worker \<Rightarrow> worker" where
  "WithRecorder r w = (if r then w\<lparr>recorder := True\<rparr> else w)"

definition WithLogger :: "bool \<Rightarrow> worker \<Rightarrow> worker" where
  "WithLogger l w = w\<lparr>logger := l\<rparr>"

inductive worker_option :: "(worker \<Rightarrow> worker) \<Rightarrow> bool" where
  "worker_option (WithSweepInterval d)"
| "worker_option (WithSweepJitter f)"
| "worker_option (WithAbandonHook fn)"
| "worker_option (WithRecorder r)"
| "worker_option (WithLogger l)"

lemma worker_option_queues: "worker_option opt \<Longrightarrow> queues (opt w) = queues w \<and> drainTimeout (opt w) = drainTimeout w"
  by (induction rule: worker_option.induct)
    (simp_all add: WithSweepInterval_def WithSweepJitter_def WithAbandonHook_def WithRecorder_def WithLogger_def)

lemma worker_options_queues: "list_all worker_option opts \<Longrightarrow> queues (fold (\<lambda>opt w. opt w) opts w) = queues w"
  by (induction opts arbitrary: w) (simp_all add: worker_option_queues)

text \<open>Every worker the constructor returns for these options can run: its queues are sound and their slots free.\<close>

theorem constructed_worker_runs:
  assumes "NewWorker hasStore hasReg now specs opts = Inr w" "list_all worker_option opts"
    "run_steps quote oob w reg memstore (run_start w s) st" "i < length specs"
  shows "int (in_flight i (rHandlers st)) \<le> sConcurrency (spec (queues w ! i))"
proof -
  let ?w0 = "\<lparr>queues = [], sweepInterval = defaultSweepInterval, sweepJitter = defaultSweepJitter, drainTimeout = 0,
     recorder = False, hook = False, logger = False, errView = (\<lambda>_. GoErr 0 ''*errors.errorString'' [] None NoUnwrap)\<rparr>"
  have "queues (fold (\<lambda>opt w. opt w) opts ?w0) = []" using worker_options_queues [OF assms(2)] by simp
  from NewWorker_runnable [OF assms(1) this refl] have w: "length (queues w) = length specs"
      "\<forall>q \<in> set (queues w). runnable (spec q) \<and> busy q = 0" by auto
  then have "run_inv (run_start w s)" by (intro run_inv_start) (auto simp: runnable_def)
  then have "run_inv st" using run_inv_steps [OF assms(3)] by simp
  moreover have specs: "map spec (rQueues st) = map spec (queues w)" using run_specs [OF assms(3)] by (simp add: run_start_def)
  moreover from this have "length (rQueues st) = length (queues w)" by (rule map_eq_imp_length_eq)
  ultimately show ?thesis using assms(4) w(1) by (metis nth_map run_inv_def)
qed

section \<open>The server\<close>

definition defaultMaxPayloadBytes :: int where "defaultMaxPayloadBytes = 1048576"

definition WithStorage :: "'s storage option \<Rightarrow> ('s, 'c) server \<Rightarrow> ('s, 'c) server" where
  "WithStorage st s = s\<lparr>storage_of := st\<rparr>"

definition WithConfigStore :: "'c config_store option \<Rightarrow> ('s, 'c) server \<Rightarrow> ('s, 'c) server" where
  "WithConfigStore cs s = s\<lparr>configStore := cs\<rparr>"

definition WithAuthorizer :: "token_store option \<Rightarrow> ('s, 'c) server \<Rightarrow> ('s, 'c) server" where
  "WithAuthorizer a s = s\<lparr>authz := a\<rparr>"

definition WithAuditSink :: "bool \<Rightarrow> ('s, 'c) server \<Rightarrow> ('s, 'c) server" where
  "WithAuditSink sink s = s\<lparr>auditSink := sink\<rparr>"

definition WithMaxPayloadBytes :: "int \<Rightarrow> ('s, 'c) server \<Rightarrow> ('s, 'c) server" where
  "WithMaxPayloadBytes n s = s\<lparr>maxPayloadBytes := n\<rparr>"

text \<open>The states of the backends come with the backends.\<close>

definition New_server :: "'s \<Rightarrow> 'c \<Rightarrow> (('s, 'c) server \<Rightarrow> ('s, 'c) server) list \<Rightarrow> ('s, 'c) server" where
  "New_server store cfg opts = fold (\<lambda>opt s. opt s) opts
     \<lparr>storage_of = None, store_of = store, configStore = None, cfg_of = cfg, authz = None, maxPayloadBytes = defaultMaxPayloadBytes,
      pausedSet = [], auditSink = False, auditLog = []\<rparr>"

end
