(* ===== verification/Spec2Isabelle.thy ===== *)
theory Spec2Isabelle
  imports Memstore_Props Memstore_Contract Config_Units Config_Props Policy_Props Rdq_Log Registry
    Ratelimit Worker_Props Server_Auth Server_Config Ulid Submit_Props Server_Http_Store Callback Postgres_Dlq Schema_Props Cli_Props Sdk
    Codec_Props Compliance_Props Worker_Run Observability Config_Scalars Wiring
begin

text \<open>
  A verification library of rdq, a durable retry and dead-letter queue written in Go.

  \<^bold>\<open>The program.\<close> A task is an envelope (\<open>core/envelope\<close>) that a client builds (\<open>sdk-go/submit\<close>) and hands to a storage backend through
  the interface of \<open>core/spi\<close>, directly or over the server's REST interface (\<open>server/http\<close>). Two backends implement the interface,
  the in-memory reference store (\<open>core/memstore\<close>) and PostgreSQL (\<open>storage/postgres\<close>); \<open>core/compliance\<close> is the kit both have to pass. Workers
  (\<open>core/engine\<close>) claim due tasks under a lease and a fencing token, route each to a handler (\<open>core/registry\<close>), classify the result and
  compute the backoff (\<open>core/policy\<close>), and write one outcome: completed, rescheduled or dead-lettered. Operators list, redrive and
  purge dead letters over the server or with the command line (\<open>cli/cmd\<close>), which has a transport for each way. Queues are configured by
  \<open>core/config\<close>; \<open>server/auth\<close>, \<open>server/config\<close> and \<open>server/callback\<close> guard the server and deliver signed callbacks; \<open>core/log\<close>,
  \<open>core/metrics\<close> and \<open>core/audit\<close> report.

  \<^bold>\<open>Conventions.\<close> Strings and byte slices are lists of 8-bit characters; a map is an association list; a time is nanoseconds since the
  epoch; an error is a value of a sum or option type; a method with state takes the state and returns it, and every clock reading,
  random value and answer of the environment is an argument. A backend or a store is a record of operations over a state, as the Go interface is. Machine integers
  are words or integers with their range written out; \<open>float64\<close> is a rational with infinities and NaN and rounds after every operation.

  \<^bold>\<open>The library of Go.\<close> \<open>Rdq_Prelude\<close> has the shared types and lemmas. \<open>Go_Strconv\<close>, \<open>Go_Base64\<close>, \<open>Go_Float\<close>, \<open>Go_Float_Error\<close>, \<open>Go_Json\<close>, \<open>Go_Json_Text\<close>
  and \<open>Go_Time\<close> translate what the sources use of the standard library, with round trips and error bounds.

  \<^bold>\<open>Tasks and ids.\<close> \<open>Envelope\<close> is the wire model with its validation; \<open>Codec\<close> the canonical JSON form, which \<open>Codec_Props\<close> shows to read back
  what it writes, unknown fields included, byte for byte after one round; \<open>Ulid\<close> the ids and their base 32 text; \<open>Submit\<close> the building
  of a task, with \<open>Submit_Props\<close>: a task so built is fresh and well-named, and resubmission under a key changes nothing while the task is stored.

  \<^bold>\<open>Storage.\<close> \<open>Spi\<close> is the interface. \<open>Storage_Contract\<close> states what a backend promises the worker as two locales, \<open>fenced_storage\<close>
  (outcome writes and lease extensions of held and of lost claims) and \<open>claiming_storage\<close>; both backends interpret them.
  \<open>Memstore\<close> models every method of the in-memory store; the mutex makes each one step. \<open>Memstore_Inv\<close> and \<open>Memstore_Ops\<close> give the invariant and the effect of each
  operation, \<open>Memstore_Trace\<close> the runs (sequences of calls) and the abstract life cycle of one task, \<open>Memstore_Contract\<close> the
  interpretation, and \<open>Memstore_Props\<close> the properties: fencing, exclusive ownership during a lease, no lost and no wedged task, exact specifications of claiming,
  paging, redriving and purging. \<open>Compliance\<close> is the kit, \<open>Compliance_Props\<close> that the in-memory store passes it for every clock and
  schedule. \<open>Postgres\<close> models the PostgreSQL backend: three tables as lists of rows, each statement a function on them, a transaction that fails leaves them alone.
  \<open>Postgres_Inv\<close>, \<open>Postgres_Ops\<close> and \<open>Postgres_Claim\<close> give the invariant, the effect of each operation and the interpretation; \<open>Postgres_Props\<close> the
  life cycle and fencing over runs of transactions in the order they commit; \<open>Postgres_Dlq\<close> reading back, keyset paging and the
  worker on this backend. An enqueue is two statements: the runs let others commit between them, and leave out the one case in which that
  breaks the invariant (\<open>enqueue_race\<close>). \<open>Schema\<close> and \<open>Schema_Props\<close> are the migrations and their runner.

  \<^bold>\<open>Policy and engine.\<close> \<open>Glob\<close> is the wildcard matcher, equal to the language of its pattern. \<open>Policy\<close> has the classification ladder and the backoff,
  \<open>Policy_Props\<close> what decides, and that the delay is the documented one to three nanoseconds. \<open>Registry\<close> routes; \<open>Ratelimit\<close> is the token bucket;
  \<open>Worker\<close> models construction, polling, processing, heartbeats and sweeping. \<open>Worker_Props\<close> proves, in the locale of the storage
  contract, that processing settles a task as the policy says or changes nothing, and bounds handler runs by the attempt limit. \<open>Worker_Run\<close> is the step
  relation of the goroutines of \<open>Run\<close>: slots, shutdown, and that shutdown can always complete. \<open>Wiring\<close> has the constructors' options.
  \<open>Sdk\<close> is the in-process retry and the queue builder.

  \<^bold>\<open>Configuration and server.\<close> \<open>Config\<close>, \<open>Config_Units\<close> and \<open>Config_Scalars\<close> are schema, merge, value rules, loader and the written forms of scalars; \<open>Config_Props\<close> that
  the merge is per key and the loader accepts exactly the documents that obey the rules. \<open>Server_Auth\<close>, \<open>Server_Config\<close>, \<open>Callback\<close> are the token file and grants, the
  configuration store and callback allowlist, and callback requests, signatures and outcomes. \<open>Server_Http\<close> models every handler, the routing
  tree, the authorization boundary, problem documents, health, metrics exposition and request logging; \<open>Server_Http_Props\<close> shows
  authorization, auditing and the error contract, \<open>Server_Http_Store\<close> the handlers over the in-memory store. \<open>Cli\<close> and \<open>Cli_Props\<close> are the
  command line and the agreement of its two transports. \<open>Rdq_Log\<close> is the transition log, which reveals no payload; \<open>Observability\<close> metrics, collector and audit sinks.

  \<^bold>\<open>Parameters.\<close> Code outside the repository is an argument: the PostgreSQL server and driver (timestamp precision, \<open>jsonb\<close>, legal texts,
  generated tokens, row order, collation; the laws used are \<open>pg_lib_ok\<close> and, for reading back, \<open>json_keeps\<close>), the YAML decoder, URL parsing, SHA-256 and
  HMAC, the Prometheus client, the texts of errors, the exchange of bytes over HTTP. What a float out of the integer range converts to is
  left open (\<open>oob\<close>); the backoff lemmas show it is never asked for.

  \<^bold>\<open>Bounds.\<close> Nothing runs on fuel: loops are recursive functions with a termination proof. Two bounds come from the code, the nesting depth 10000 of the JSON
  scanner and the eleven pages of the compliance kit's paging test. The runs of the in-memory store assume room in its 64-bit claim and dead-letter
  counters (\<open>claim_room\<close> and its like); the backoff lemmas delays of at most 2 to the 52 nanoseconds, 52 days.

  \<^bold>\<open>Not modelled.\<close> The server's \<open>main\<close> and listener, the SDK's example, the real clock and timers, and package documentation are I/O or wiring. Request
  bodies arrive decoded. Handlers of the server are sequential: \<open>handleDeleteQueue\<close> reads the statistics and then deletes, and a submission that
  falls in between is outside the model. \<open>http.StripPrefix\<close> compares the escaped path too, so an escaped \<open>/v1\<close> prefix is refused by the program and routed by \<open>buildHandler\<close>.
  PostgreSQL is taken at the granularity of committed transactions, with the two statements of an enqueue apart. Counting free slots and claiming are one step of a claim
  loop, since in between slots only become free; the check of the context before them is a step of its own.
\<close>

end
